(* ===== verification/Prelude.thy ===== *)
theory Prelude
  imports Complex_Main
begin

section \<open>Shared vocabulary of the development\<close>

text \<open>
  What every component of the platform shares: the error values of its services (the HTTP
  exceptions they throw, and the constraint errors of the database), the decimal rounding
  modes, tables as lists of rows with the queries and updates the services issue on them,
  and sequences of service calls in which a call that fails leaves the state as it was
  (each service call runs in one database transaction, so an exception rolls it back).

  Rial amounts are \<open>int\<close> (every rial column is \<open>Decimal(18,0)\<close>), gram amounts and
  percentages are \<open>rat\<close>, instants are \<open>int\<close> milliseconds since the epoch and database
  identifiers are \<open>nat\<close>.
\<close>

named_theorems svc_defs \<open>definitions of the helpers of the services, unfolded by the component proofs\<close>
named_theorems frame \<open>parts of the state an operation leaves alone\<close>

subsection \<open>Errors as values\<close>

datatype err =
    NotFound string
  | BadRequest string
  | Forbidden string
  | Conflict string
  | Gone string
  | TooManyRequests string
  | Internal string
  | DbConstraint string

type_synonym 'a res = "err + 'a"

lemma case_sum_Inr [simp]:
  "(case r of Inl e \<Rightarrow> Inl e | Inr x \<Rightarrow> f x) = Inr y \<longleftrightarrow> (\<exists>x. r = Inr x \<and> f x = Inr y)"
  by (cases r) auto

lemma if_Inl_Inr [simp]: "(if b then Inl e else r) = Inr y \<longleftrightarrow> \<not> b \<and> r = Inr y"
  by simp

lemma case_option_Inl_Inr [simp]:
  "(case r of None \<Rightarrow> Inl e | Some x \<Rightarrow> f x) = Inr y \<longleftrightarrow> (\<exists>x. r = Some x \<and> f x = Inr y)"
  by (cases r) auto

subsection \<open>Instants\<close>

abbreviation day_ms :: int where "day_ms \<equiv> 86400000"

text \<open>
  The instants a call reads from the clock: now, and the starts of the current day and of the
  current Jalali month in Tehran (computed by the calendar helpers from the time zone data and
  the third-party calendar library).
\<close>

record clock =
  now :: int
  today :: int
  firstOfMonth :: int

subsection \<open>Rounding\<close>

text \<open>
  \<open>js_round\<close> is JavaScript's \<open>Math.round\<close> (halves go up); the others are the rounding
  modes of the decimal library that the services use: half away from zero, towards zero and
  away from zero.
\<close>

definition js_round :: "rat \<Rightarrow> int" where
  "js_round x = \<lfloor>x + 1/2\<rfloor>"

definition round_half_up :: "rat \<Rightarrow> int" where
  "round_half_up x = (if 0 \<le> x then \<lfloor>x + 1/2\<rfloor> else - \<lfloor>1/2 - x\<rfloor>)"

definition round_down :: "rat \<Rightarrow> int" where
  "round_down x = (if 0 \<le> x then \<lfloor>x\<rfloor> else \<lceil>x\<rceil>)"

definition round_up :: "rat \<Rightarrow> int" where
  "round_up x = (if 0 \<le> x then \<lceil>x\<rceil> else \<lfloor>x\<rfloor>)"

text \<open>Truncation to a number of decimal places (\<open>toDecimalPlaces(n, ROUND_DOWN)\<close>).\<close>

definition decimals_down :: "nat \<Rightarrow> rat \<Rightarrow> rat" where
  "decimals_down n x = of_int (round_down (x * 10 ^ n)) / 10 ^ n"

text \<open>
  Gram columns are \<open>Decimal(18,4)\<close>: the database rounds what is stored in them to four
  decimal places, halves away from zero. \<open>on_grid\<close> are the values stored exactly.
\<close>

definition numeric4 :: "rat \<Rightarrow> rat" where
  "numeric4 x = of_int (round_half_up (x * 10000)) / 10000"

definition on_grid :: "rat \<Rightarrow> bool" where
  "on_grid x \<longleftrightarrow> of_int \<lfloor>x * 10000\<rfloor> = x * 10000"

lemma floor_numeral_div_rat [simp]:
  "\<lfloor>numeral a / numeral b :: rat\<rfloor> = numeral a div numeral b"
  using floor_divide_of_int_eq [where 'a = rat, of "numeral a" "numeral b"] by simp

lemma floor_one_div_rat [simp]: "\<lfloor>1 / numeral b :: rat\<rfloor> = 1 div numeral b"
  using floor_divide_of_int_eq [where 'a = rat, of 1 "numeral b"] by simp

lemma ceiling_numeral_div_rat [simp]:
  "\<lceil>numeral a / numeral b :: rat\<rceil> = - ((- numeral a) div numeral b)"
  using ceiling_divide_eq_div [where 'a = rat, of "numeral a" "numeral b"] by simp

lemma js_round_of_int [simp]: "js_round (of_int n) = n"
  unfolding js_round_def by linarith

lemma round_half_up_of_int [simp]: "round_half_up (of_int n) = n"
proof (cases "0 \<le> n")
  case True
  then show ?thesis unfolding round_half_up_def by simp
next
  case False
  then have "\<lfloor>1/2 - (of_int n :: rat)\<rfloor> = - n" by linarith
  then show ?thesis using False unfolding round_half_up_def by simp
qed

lemma round_half_up_0 [simp]: "round_half_up 0 = 0"
  by (simp add: round_half_up_def)

lemma js_round_0 [simp]: "js_round 0 = 0"
  by (simp add: js_round_def)

lemma js_round_nonneg [intro]: "0 \<le> x \<Longrightarrow> 0 \<le> js_round x"
  unfolding js_round_def by simp

lemma round_half_up_nonneg [intro]: "0 \<le> x \<Longrightarrow> 0 \<le> round_half_up x"
  unfolding round_half_up_def by simp

lemma js_round_mono: "x \<le> y \<Longrightarrow> js_round x \<le> js_round y"
  unfolding js_round_def by (intro floor_mono) simp

lemma round_half_up_mono:
  assumes "x \<le> y" shows "round_half_up x \<le> round_half_up y"
proof -
  consider "0 \<le> x" | "x < 0" "0 \<le> y" | "y < 0" using assms by linarith
  then show ?thesis
  proof cases
    case 1
    then show ?thesis using assms unfolding round_half_up_def by (auto intro!: floor_mono)
  next
    case 2
    then have "0 \<le> \<lfloor>1/2 - x\<rfloor>" and "0 \<le> \<lfloor>y + 1/2\<rfloor>" by simp_all
    then have "- \<lfloor>1/2 - x\<rfloor> \<le> \<lfloor>y + 1/2\<rfloor>" by linarith
    then show ?thesis using 2 unfolding round_half_up_def by simp
  next
    case 3
    then show ?thesis using assms unfolding round_half_up_def by (auto intro!: floor_mono)
  qed
qed

lemma on_grid_iff: "on_grid x \<longleftrightarrow> (\<exists>n. x = of_int n / 10000)"
proof
  assume "on_grid x"
  then have g: "of_int \<lfloor>x * 10000\<rfloor> = x * 10000" by (simp only: on_grid_def)
  have "x = of_int \<lfloor>x * 10000\<rfloor> / 10000" unfolding g by simp
  then show "\<exists>n. x = of_int n / 10000" by blast
next
  assume "\<exists>n. x = of_int n / 10000"
  then obtain n where n: "x * 10000 = of_int n" by auto
  show "on_grid x" unfolding on_grid_def n by simp
qed

lemma numeric4_on_grid [simp]: "on_grid x \<Longrightarrow> numeric4 x = x"
  unfolding numeric4_def by (auto simp: on_grid_iff)

lemma numeric4_error: "\<bar>numeric4 x - x\<bar> \<le> 1/20000"
proof -
  have b: "\<bar>of_int (round_half_up y) - y\<bar> \<le> 1/2" for y
  proof (cases "0 \<le> y")
    case True
    then have "round_half_up y = \<lfloor>y + 1/2\<rfloor>" by (simp add: round_half_up_def)
    then show ?thesis by linarith
  next
    case False
    then have "round_half_up y = - \<lfloor>1/2 - y\<rfloor>" by (simp add: round_half_up_def)
    then show ?thesis by linarith
  qed
  have "numeric4 x * 10000 = of_int (round_half_up (x * 10000))" by (simp add: numeric4_def)
  then show ?thesis using b [of "x * 10000"] unfolding abs_le_iff by linarith
qed

lemma on_grid_numeric4 [simp]: "on_grid (numeric4 x)"
  unfolding on_grid_iff numeric4_def by blast

lemma on_grid_0 [simp]: "on_grid 0"
  by (simp add: on_grid_def)

lemma on_grid_minus [simp]: "on_grid (- x) \<longleftrightarrow> on_grid x"
proof -
  have "on_grid x \<Longrightarrow> on_grid (- x)" for x
  proof -
    assume "on_grid x"
    then obtain n where "x = of_int n / 10000" by (auto simp: on_grid_iff)
    then have "- x = of_int (- n) / 10000" by simp
    then show "on_grid (- x)" unfolding on_grid_iff by blast
  qed
  from this [of x] this [of "- x"] show ?thesis by auto
qed

lemma on_grid_add [intro]: "on_grid x \<Longrightarrow> on_grid y \<Longrightarrow> on_grid (x + y)"
proof -
  assume "on_grid x" "on_grid y"
  then obtain m n where "x = of_int m / 10000" "y = of_int n / 10000" by (auto simp: on_grid_iff)
  then have "x + y = of_int (m + n) / 10000" by (simp add: add_divide_distrib)
  then show "on_grid (x + y)" unfolding on_grid_iff by blast
qed

lemma on_grid_diff [intro]: "on_grid x \<Longrightarrow> on_grid y \<Longrightarrow> on_grid (x - y)"
  using on_grid_add [of x "- y"] by simp

lemma round_down_le: "0 \<le> x \<Longrightarrow> of_int (round_down x) \<le> x"
  by (simp add: round_down_def)

lemma round_down_nonneg [intro]: "0 \<le> x \<Longrightarrow> 0 \<le> round_down x"
  by (simp add: round_down_def)

lemma round_up_ge: "0 \<le> x \<Longrightarrow> x \<le> of_int (round_up x)"
  by (simp add: round_up_def)

lemma round_half_up_bounds:
  assumes "0 \<le> x"
  shows "x - 1/2 < of_int (round_half_up x)" and "of_int (round_half_up x) \<le> x + 1/2"
  using assms unfolding round_half_up_def by (simp_all, linarith+)

lemma decimals_down_nonneg [intro]: "0 \<le> x \<Longrightarrow> 0 \<le> decimals_down n x"
  unfolding decimals_down_def by (simp add: round_down_nonneg)

lemma decimals_down_le: "0 \<le> x \<Longrightarrow> decimals_down n x \<le> x"
proof -
  assume "0 \<le> x"
  then have "of_int (round_down (x * 10 ^ n)) \<le> x * 10 ^ n"
    by (intro round_down_le) simp
  then show ?thesis unfolding decimals_down_def by (simp add: divide_le_eq)
qed

subsection \<open>Strings\<close>

definition is_space :: "char \<Rightarrow> bool" where
  "is_space c \<longleftrightarrow> of_char c \<in> {9, 10, 11, 12, 13, 32 :: nat}"

definition trim :: "string \<Rightarrow> string" where
  "trim s = rev (dropWhile is_space (rev (dropWhile is_space s)))"

definition is_digit :: "char \<Rightarrow> bool" where
  "is_digit c \<longleftrightarrow> (48::nat) \<le> of_char c \<and> of_char c \<le> (57::nat)"

definition digit_val :: "char \<Rightarrow> nat" where
  "digit_val c = of_char c - 48"

definition starts_with :: "string \<Rightarrow> string \<Rightarrow> bool" where
  "starts_with p s \<longleftrightarrow> take (length p) s = p"

lemma starts_with_Nil [simp]: "starts_with [] s"
  by (simp add: starts_with_def)

lemma starts_with_Cons [simp]:
  "starts_with (x # p) s \<longleftrightarrow> (case s of [] \<Rightarrow> False | y # t \<Rightarrow> x = y \<and> starts_with p t)"
  by (cases s) (auto simp: starts_with_def)

subsection \<open>Tables\<close>

text \<open>
  A database table is the list of its rows. \<open>update_where\<close>, \<open>delete_where\<close> and
  \<open>sum_where\<close> are the update, delete and aggregate queries; \<open>find\<close> is
  \<open>findFirst\<close>/\<open>findUnique\<close>.
\<close>

definition update_where :: "('r \<Rightarrow> bool) \<Rightarrow> ('r \<Rightarrow> 'r) \<Rightarrow> 'r list \<Rightarrow> 'r list" where
  "update_where p f rows = map (\<lambda>r. if p r then f r else r) rows"

definition delete_where :: "('r \<Rightarrow> bool) \<Rightarrow> 'r list \<Rightarrow> 'r list" where
  "delete_where p rows = filter (\<lambda>r. \<not> p r) rows"

definition sum_where :: "('r \<Rightarrow> bool) \<Rightarrow> ('r \<Rightarrow> 'n::monoid_add) \<Rightarrow> 'r list \<Rightarrow> 'n" where
  "sum_where p f rows = sum_list (map f (filter p rows))"

definition count_where :: "('r \<Rightarrow> bool) \<Rightarrow> 'r list \<Rightarrow> nat" where
  "count_where p rows = length (filter p rows)"

lemma update_where_Nil [simp]: "update_where p f [] = []"
  by (simp add: update_where_def)

lemma update_where_Cons [simp]:
  "update_where p f (r # rs) = (if p r then f r else r) # update_where p f rs"
  by (simp add: update_where_def)

lemma update_where_append: "update_where p f (xs @ ys) = update_where p f xs @ update_where p f ys"
  by (simp add: update_where_def)

lemma length_update_where [simp]: "length (update_where p f rs) = length rs"
  by (simp add: update_where_def)

lemma set_update_where: "set (update_where p f rs) = (\<lambda>r. if p r then f r else r) ` set rs"
  by (simp add: update_where_def)

lemma map_update_where [simp]:
  assumes "\<And>r. k (f r) = k r"
  shows "map k (update_where p f rs) = map k rs"
  by (induction rs) (simp_all add: assms)

lemma update_where_none: "(\<And>r. r \<in> set rs \<Longrightarrow> \<not> p r) \<Longrightarrow> update_where p f rs = rs"
  by (induction rs) auto

lemma find_update_hit:
  assumes "find p xs = Some x" "q x" "\<And>y. p (f y) = p y"
  shows "find p (update_where q f xs) = Some (f x)"
  using assms(1,2) by (induction xs) (auto simp: assms(3) split: if_splits)

lemma delete_where_Nil [simp]: "delete_where p [] = []"
  by (simp add: delete_where_def)

lemma delete_where_Cons [simp]:
  "delete_where p (r # rs) = (if p r then delete_where p rs else r # delete_where p rs)"
  by (simp add: delete_where_def)

lemma set_delete_where [simp]: "set (delete_where p rs) = {r \<in> set rs. \<not> p r}"
  by (auto simp: delete_where_def)

lemma sum_where_Nil [simp]: "sum_where p f [] = 0"
  by (simp add: sum_where_def)

lemma sum_where_Cons [simp]:
  "sum_where p f (r # rs) = (if p r then f r + sum_where p f rs else sum_where p f rs)"
  by (simp add: sum_where_def)

lemma sum_where_append [simp]:
  "sum_where p f (rs @ qs) = sum_where p f rs + sum_where p f (qs :: 'r list)"
  by (induction rs) (auto simp: add.assoc)

lemma sum_where_cong:
  "(\<And>r. r \<in> set rs \<Longrightarrow> p r = q r) \<Longrightarrow> (\<And>r. r \<in> set rs \<Longrightarrow> q r \<Longrightarrow> f r = g r) \<Longrightarrow>
   sum_where p f rs = sum_where q g rs"
  by (induction rs) auto

lemma sum_where_nonneg:
  "(\<And>r. r \<in> set rs \<Longrightarrow> p r \<Longrightarrow> 0 \<le> f r) \<Longrightarrow> 0 \<le> (sum_where p f rs :: 'n::ordered_comm_monoid_add)"
  by (induction rs) auto

lemma find_SomeD: "find p rs = Some r \<Longrightarrow> r \<in> set rs \<and> p r"
  by (metis find_Some_iff nth_mem)

lemma find_append:
  "find p (rs @ qs) = (case find p rs of None \<Rightarrow> find p qs | Some r \<Rightarrow> Some r)"
  by (induction rs) auto

lemma find_unique:
  assumes "distinct (map k rs)" and "r \<in> set rs"
  shows "find (\<lambda>x. k x = k r) rs = Some r"
  using assms by (induction rs) (auto simp: image_iff)

lemma find_update_where_same:
  assumes "\<And>r. k (f r) = k r"
  shows "find (\<lambda>r. k r = i) (update_where (\<lambda>r. k r = i) f rs) =
         map_option f (find (\<lambda>r. k r = i) rs)"
  by (induction rs) (auto simp: assms)

lemma find_update_where_other:
  assumes "\<And>r. p r \<Longrightarrow> \<not> q r" and "\<And>r. p r \<Longrightarrow> \<not> q (f r)"
  shows "find q (update_where p f rs) = find q rs"
  using assms by (induction rs) auto

text \<open>Updating the one row with a key changes a total by the change of that row.\<close>

lemma sum_update_where_key:
  fixes f :: "'r \<Rightarrow> 'n::ab_group_add"
  assumes "distinct (map k rs)" and "find (\<lambda>r. k r = i) rs = Some w"
  shows "sum_list (map f (update_where (\<lambda>r. k r = i) u rs)) =
         sum_list (map f rs) + (f (u w) - f w)"
  using assms
proof (induction rs)
  case Nil
  then show ?case by simp
next
  case (Cons r rs)
  show ?case
  proof (cases "k r = i")
    case True
    then have "update_where (\<lambda>r. k r = i) u rs = rs"
      using Cons.prems(1) by (intro update_where_none) (auto simp: image_iff)
    then show ?thesis using Cons.prems(2) True by simp
  next
    case False
    then show ?thesis using Cons by simp
  qed
qed

lemma sum_where_update_key:
  fixes f :: "'r \<Rightarrow> 'n::ab_group_add"
  assumes "distinct (map k rs)" and "find (\<lambda>r. k r = i) rs = Some w"
  shows "sum_where p f (update_where (\<lambda>r. k r = i) u rs) =
         sum_where p f rs + ((if p (u w) then f (u w) else 0) - (if p w then f w else 0))"
proof -
  have sw: "sum_where p f xs = sum_list (map (\<lambda>r. if p r then f r else 0) xs)" for xs
    by (induction xs) auto
  show ?thesis unfolding sw by (rule sum_update_where_key [OF assms])
qed

lemma sum_where_delete_key:
  fixes f :: "'r \<Rightarrow> 'n::ab_group_add"
  assumes "distinct (map k rs)" and "find (\<lambda>r. k r = i) rs = Some w"
  shows "sum_where p f (delete_where (\<lambda>r. k r = i) rs) =
         sum_where p f rs - (if p w then f w else 0)"
  using assms
proof (induction rs)
  case Nil
  then show ?case by simp
next
  case (Cons r rs)
  show ?case
  proof (cases "k r = i")
    case True
    then have "delete_where (\<lambda>r. k r = i) rs = rs"
      using Cons.prems(1) by (auto simp: delete_where_def image_iff intro!: filter_True)
    then show ?thesis using Cons.prems(2) True by simp
  next
    case False
    then show ?thesis using Cons by (auto simp: algebra_simps)
  qed
qed

lemma distinct_map_delete_where: "distinct (map k rs) \<Longrightarrow> distinct (map k (delete_where p rs))"
  by (simp add: delete_where_def distinct_map_filter)

subsection \<open>Sequences of service calls\<close>

text \<open>
  One service call is a step that either fails or returns the new state. \<open>run\<close> executes a
  list of calls, in the order in which their transactions commit; a call that fails changes
  nothing.
\<close>

definition try_step :: "('s \<Rightarrow> 'op \<Rightarrow> 'e + 's) \<Rightarrow> 's \<Rightarrow> 'op \<Rightarrow> 's" where
  "try_step step s p = (case step s p of Inl _ \<Rightarrow> s | Inr s' \<Rightarrow> s')"

fun run :: "('s \<Rightarrow> 'op \<Rightarrow> 'e + 's) \<Rightarrow> 's \<Rightarrow> 'op list \<Rightarrow> 's" where
  "run step s [] = s"
| "run step s (p # ps) = run step (try_step step s p) ps"

lemma run_append: "run step s (ps @ qs) = run step (run step s ps) qs"
  by (induction ps arbitrary: s) auto

text \<open>The state that a call leaves, without its answer.\<close>

definition stateOf :: "('s \<times> 'x) res \<Rightarrow> 's res" where
  "stateOf r = (case r of Inl e \<Rightarrow> Inl e | Inr (s, _) \<Rightarrow> Inr s)"

lemma stateOf_Inr [simp]: "stateOf r = Inr s \<longleftrightarrow> (\<exists>x. r = Inr (s, x))"
  by (auto simp: stateOf_def split: sum.splits)

definition resState :: "'s \<Rightarrow> 's res \<Rightarrow> 's" where
  "resState d r = (case r of Inl _ \<Rightarrow> d | Inr s \<Rightarrow> s)"

definition okRes :: "'s res \<Rightarrow> bool" where
  "okRes r = (case r of Inl _ \<Rightarrow> False | Inr _ \<Rightarrow> True)"

lemma okRes_resState: "okRes r \<Longrightarrow> r = Inr (resState d r)"
  by (auto simp: okRes_def resState_def split: sum.splits)

text \<open>
  The interface of a component: its calls and the invariant each of them keeps. What is proved
  inside holds of every sequence of calls of every component that provides the interface.
\<close>

locale service =
  fixes step :: "'s \<Rightarrow> 'op \<Rightarrow> 'e + 's"
    and inv :: "'s \<Rightarrow> bool"
  assumes step_inv: "inv s \<Longrightarrow> step s p = Inr s' \<Longrightarrow> inv s'"
begin

lemma try_step_inv: "inv s \<Longrightarrow> inv (try_step step s p)"
  unfolding try_step_def by (auto split: sum.splits intro: step_inv)

lemma run_inv: "inv s \<Longrightarrow> inv (run step s ps)"
  by (induction ps arbitrary: s) (auto intro: try_step_inv)

end

text \<open>A component that also keeps a quantity unchanged.\<close>

locale conserving_service = service step inv
  for step :: "'s \<Rightarrow> 'op \<Rightarrow> 'e + 's" and inv :: "'s \<Rightarrow> bool" +
  fixes quantity :: "'s \<Rightarrow> 'q"
  assumes step_quantity: "inv s \<Longrightarrow> step s p = Inr s' \<Longrightarrow> quantity s' = quantity s"
begin

lemma run_quantity: "inv s \<Longrightarrow> quantity (run step s ps) = quantity s"
proof (induction ps arbitrary: s)
  case Nil
  then show ?case by simp
next
  case (Cons p ps)
  have "quantity (try_step step s p) = quantity s"
    using Cons.prems unfolding try_step_def
    by (auto split: sum.splits intro: step_quantity)
  moreover have "inv (try_step step s p)" using Cons.prems by (rule try_step_inv)
  ultimately show ?case using Cons.IH by simp
qed

end

text \<open>
  A control account: the balance of one general ledger account stands for the total of a
  subsidiary table (the wallets of the users), and every call moves both by the same amount.
\<close>

locale control_account = service step inv
  for step :: "'s \<Rightarrow> 'op \<Rightarrow> 'e + 's" and inv :: "'s \<Rightarrow> bool" +
  fixes subsidiary :: "'s \<Rightarrow> 'q::ab_group_add"
    and control :: "'s \<Rightarrow> 'q"
  assumes step_moves:
    "inv s \<Longrightarrow> step s p = Inr s' \<Longrightarrow> subsidiary s' - control s' = subsidiary s - control s"

sublocale control_account \<subseteq> conserving_service step inv "\<lambda>s. subsidiary s - control s"
  by unfold_locales (rule step_moves)

context control_account
begin

lemma run_difference:
  "inv s \<Longrightarrow> subsidiary (run step s ps) - control (run step s ps) = subsidiary s - control s"
  by (rule run_quantity)

lemma run_reconciled:
  assumes "inv s" and "subsidiary s = control s"
  shows "subsidiary (run step s ps) = control (run step s ps)"
  using run_difference [OF assms(1), of ps] assms(2) by simp

end

text \<open>
  The same for a control account whose calls may round: each call moves the two apart by at most
  its own slack.
\<close>

locale drifting_account = service step inv
  for step :: "'s \<Rightarrow> 'op \<Rightarrow> 'e + 's" and inv :: "'s \<Rightarrow> bool" +
  fixes subsidiary :: "'s \<Rightarrow> rat"
    and control :: "'s \<Rightarrow> rat"
    and slack :: "'op \<Rightarrow> rat"
  assumes slack_nonneg: "0 \<le> slack p"
    and step_drift: "inv s \<Longrightarrow> step s p = Inr s' \<Longrightarrow>
      \<bar>(subsidiary s' - control s') - (subsidiary s - control s)\<bar> \<le> slack p"
begin

lemma run_drift:
  "inv s \<Longrightarrow> \<bar>(subsidiary (run step s ps) - control (run step s ps)) - (subsidiary s - control s)\<bar>
    \<le> sum_list (map slack ps)"
proof (induction ps arbitrary: s)
  case Nil
  then show ?case by simp
next
  case (Cons p ps)
  have "\<bar>(subsidiary (try_step step s p) - control (try_step step s p)) - (subsidiary s - control s)\<bar> \<le> slack p"
    using step_drift [OF Cons.prems] slack_nonneg [of p] unfolding try_step_def by (auto split: sum.splits)
  then show ?case using Cons.IH [OF try_step_inv [OF Cons.prems, of p]] by simp
qed

end

text \<open>A component whose calls only move the state along a preorder.\<close>

locale evolving_service = service step inv
  for step :: "'s \<Rightarrow> 'op \<Rightarrow> 'e + 's" and inv :: "'s \<Rightarrow> bool" +
  fixes later :: "'s \<Rightarrow> 's \<Rightarrow> bool"
  assumes later_refl: "later s s"
    and later_trans: "later s s1 \<Longrightarrow> later s1 s2 \<Longrightarrow> later s s2"
    and step_later: "inv s \<Longrightarrow> step s p = Inr s' \<Longrightarrow> later s s'"
begin

lemma run_later: "inv s \<Longrightarrow> later s (run step s ps)"
proof (induction ps arbitrary: s)
  case Nil
  then show ?case by (simp add: later_refl)
next
  case (Cons p ps)
  have "later s (try_step step s p)"
    using Cons.prems unfolding try_step_def
    by (auto split: sum.splits intro: step_later later_refl)
  then show ?case
    using Cons.IH [OF try_step_inv [OF Cons.prems]] by (auto intro: later_trans)
qed

end

end
