(* ===== verification/Accounting.thy ===== *)
theory Accounting
  imports Prelude
begin

section \<open>The double-entry ledger\<close>

text \<open>
  \<open>api/src/accounting/accounting.service.ts\<close> and the chart of accounts of
  \<open>accounts.seed.ts\<close>: the only place that writes journals. \<open>postJournal\<close> normalises
  the lines, rejects an unbalanced document before any write, redirects system documents from
  the root cash account to the operating bank account, checks the posting date, looks the
  accounts up, writes the journal with its entries and moves the balances;
  \<open>reverseJournal\<close> posts the same lines with the sides swapped. The state is the record
  \<open>ledger\<close>, which the other services extend with their own tables.
\<close>

subsection \<open>Data\<close>

datatype side = DEBIT | CREDIT

datatype account_type = ASSET | LIABILITY | EQUITY | INCOME | EXPENSE

datatype journal_source =
  SYSTEM | MANUAL | OPENING | CLOSING | REVALUATION | REVERSAL | TREASURY | PARTNER | INVENTORY

record account =
  accId :: nat
  accCode :: string
  accType :: account_type
  accSubType :: "string option"
  accParent :: "nat option"
  accSystem :: bool
  accActive :: bool
  accManual :: bool
  accRial :: int
  accGrams :: rat

record journal =
  jId :: nat
  jDescription :: string
  jTotalRial :: int
  jTotalGrams :: rat
  jEntryDate :: int
  jTransaction :: "nat option"
  jSource :: journal_source
  jRefType :: "string option"
  jRefId :: "nat option"
  jCreatedBy :: "nat option"
  jReversalOf :: "nat option"

record ledger_entry =
  leJournal :: nat
  leAccount :: nat
  leSide :: side
  leRial :: int
  leGrams :: rat
  leDescription :: "string option"

datatype fiscal_status = YEAR_OPEN | YEAR_CLOSED

record fiscal_year =
  fyStart :: int
  fyEnd :: int
  fyStatus :: fiscal_status

text \<open>
  The tables of the ledger. \<open>lockedUntil\<close> is the instant that the setting
  \<open>accounting.locked_until\<close> names (\<open>None\<close> when it is absent or no date); \<open>config\<close>
  and \<open>configNum\<close> are the textual and the numeric settings of the system configuration.
\<close>

record ledger =
  nextId :: nat
  accounts :: "account list"
  journals :: "journal list"
  ledgerEntries :: "ledger_entry list"
  fiscalYears :: "fiscal_year list"
  lockedUntil :: "int option"
  config :: "string \<Rightarrow> string option"
  configNum :: "string \<Rightarrow> rat option"

record line_input =
  liCode :: string
  liSide :: side
  liRial :: "int option"
  liGrams :: "rat option"
  liDescription :: "string option"

record journal_input =
  jiDescription :: string
  jiTotalRial :: int
  jiTotalGrams :: rat
  jiLines :: "line_input list"
  jiSource :: "journal_source option"
  jiRefType :: "string option"
  jiRefId :: "nat option"
  jiEntryDate :: "int option"
  jiCreatedBy :: "nat option"
  jiReversalOf :: "nat option"
  jiTransaction :: "nat option"

record line =
  lnCode :: string
  lnSide :: side
  lnRial :: int
  lnGrams :: rat
  lnDescription :: "string option"

definition CASH_ROOT_CODE :: string where
  "CASH_ROOT_CODE = ''1010''"

definition DEFAULT_BANK_ACCOUNT_KEY :: string where
  "DEFAULT_BANK_ACCOUNT_KEY = ''accounting.default_bank_account''"

definition KEEP_EXACT_ACCOUNT_SOURCES :: "journal_source list" where
  "KEEP_EXACT_ACCOUNT_SOURCES = [MANUAL, OPENING, CLOSING, REVERSAL]"

definition getNumber :: "'a ledger_scheme \<Rightarrow> string \<Rightarrow> rat \<Rightarrow> rat" where
  "getNumber s key fallback = (case configNum s key of None \<Rightarrow> fallback | Some v \<Rightarrow> v)"

subsection \<open>Helpers of the service\<close>

definition toDecimal :: "'n::zero option \<Rightarrow> 'n" where
  "toDecimal v = (case v of None \<Rightarrow> 0 | Some x \<Rightarrow> x)"

definition isDebitNature :: "string \<Rightarrow> bool" where
  "isDebitNature c \<longleftrightarrow> starts_with ''1'' c \<or> starts_with ''5'' c"

definition deltaSign :: "string \<Rightarrow> side \<Rightarrow> int" where
  "deltaSign c sd =
     (if sd = DEBIT then (if isDebitNature c then 1 else -1)
      else (if isDebitNature c then -1 else 1))"

definition normalizeLine :: "line_input \<Rightarrow> line" where
  "normalizeLine l =
     \<lparr>lnCode = liCode l, lnSide = liSide l, lnRial = toDecimal (liRial l),
      lnGrams = toDecimal (liGrams l), lnDescription = liDescription l\<rparr>"

fun addSide :: "int \<times> int \<times> rat \<times> rat \<Rightarrow> line \<Rightarrow> int \<times> int \<times> rat \<times> rat" where
  "addSide (dr, cr, dg, cg) l =
     (if lnSide l = DEBIT then (dr + lnRial l, cr, dg + lnGrams l, cg)
      else (dr, cr + lnRial l, dg, cg + lnGrams l))"

definition assertBalanced :: "line list \<Rightarrow> unit res" where
  "assertBalanced ls =
     (case foldl addSide (0, 0, 0, 0) ls of
        (dr, cr, dg, cg) \<Rightarrow>
          if dr \<noteq> cr \<or> dg \<noteq> cg then Inl (Internal ''journal posting failed'') else Inr ())"

definition findAccount :: "account list \<Rightarrow> string \<Rightarrow> account option" where
  "findAccount as c = find (\<lambda>a. accCode a = c) as"

fun getRequiredAccounts :: "account list \<Rightarrow> string list \<Rightarrow> (string \<Rightarrow> account option) res" where
  "getRequiredAccounts as [] = Inr (\<lambda>_. None)"
| "getRequiredAccounts as (c # cs) =
     (case findAccount as c of
        None \<Rightarrow> Inl (Internal ''base account missing'')
      | Some a \<Rightarrow>
          (case getRequiredAccounts as cs of
             Inl e \<Rightarrow> Inl e
           | Inr m \<Rightarrow> Inr (m(c \<mapsto> a))))"

fun assertActive :: "(string \<Rightarrow> account option) \<Rightarrow> string list \<Rightarrow> unit res" where
  "assertActive m [] = Inr ()"
| "assertActive m (c # cs) =
     (case m c of
        None \<Rightarrow> assertActive m cs
      | Some a \<Rightarrow>
          if \<not> accActive a then Inl (BadRequest ''account is inactive'') else assertActive m cs)"

subsection \<open>The operating bank account\<close>

definition bankCodeFormat :: "string \<Rightarrow> bool" where
  "bankCodeFormat c \<longleftrightarrow> starts_with CASH_ROOT_CODE c \<and> list_all is_digit (drop 4 c)"

definition cashAccounts :: "'a ledger_scheme \<Rightarrow> account list" where
  "cashAccounts s = filter (\<lambda>a. starts_with CASH_ROOT_CODE (accCode a)) (accounts s)"

definition isLeaf :: "account list \<Rightarrow> string \<Rightarrow> bool" where
  "isLeaf as c =
     (case findAccount as c of
        None \<Rightarrow> False
      | Some a \<Rightarrow>
          accActive a \<and> \<not> list_ex (\<lambda>b. accActive b \<and> accParent b = Some (accId a)) as)"

fun bankFromConfig :: "'a ledger_scheme \<Rightarrow> account list \<Rightarrow> string list \<Rightarrow> string option" where
  "bankFromConfig s as [] = None"
| "bankFromConfig s as (k # ks) =
     (case config s k of
        None \<Rightarrow> bankFromConfig s as ks
      | Some v \<Rightarrow>
          let w = trim v in
          if w = [] then bankFromConfig s as ks
          else if bankCodeFormat w \<and> isLeaf as w then Some w
          else bankFromConfig s as ks)"

definition resolveBankAccount ::
  "'a ledger_scheme \<Rightarrow> string option \<Rightarrow> string option \<Rightarrow> string res" where
  "resolveBankAccount s explicit configKey =
     (let as = cashAccounts s;
          e = (case explicit of None \<Rightarrow> [] | Some x \<Rightarrow> trim x) in
      if e \<noteq> [] then
        (if \<not> bankCodeFormat e then Inl (BadRequest ''not a cash account'')
         else case findAccount as e of
                None \<Rightarrow> Inl (BadRequest ''cash account missing or inactive'')
              | Some a \<Rightarrow>
                  if \<not> accActive a then Inl (BadRequest ''cash account missing or inactive'')
                  else if \<not> isLeaf as e then Inl (BadRequest ''cash account has sub-accounts'')
                  else Inr e)
      else if isLeaf as CASH_ROOT_CODE then Inr CASH_ROOT_CODE
      else
        (let keys = (case configKey of None \<Rightarrow> [] | Some k \<Rightarrow> if k = [] then [] else [k])
                    @ [DEFAULT_BANK_ACCOUNT_KEY] in
         case bankFromConfig s as keys of
           Some c \<Rightarrow> Inr c
         | None \<Rightarrow>
             (case map accCode (filter (\<lambda>a. isLeaf as (accCode a)) as) of
                [c] \<Rightarrow> Inr c
              | _ \<Rightarrow> Inr CASH_ROOT_CODE)))"

subsection \<open>Posting dates\<close>

text \<open>\<open>setHours(23, 59, 59, 999)\<close> on the server, whose time zone is UTC.\<close>

definition endOfUtcDay :: "int \<Rightarrow> int" where
  "endOfUtcDay d = d - d mod day_ms + (day_ms - 1)"

definition assertPostingDateAllowed :: "'a ledger_scheme \<Rightarrow> int \<Rightarrow> unit res" where
  "assertPostingDateAllowed s entryDate =
     (if (case lockedUntil s of None \<Rightarrow> False | Some d \<Rightarrow> entryDate \<le> endOfUtcDay d)
      then Inl (BadRequest ''period is locked'')
      else if fiscalYears s = [] then Inr ()
      else case find (\<lambda>y. fyStart y \<le> entryDate \<and> entryDate \<le> fyEnd y) (fiscalYears s) of
             None \<Rightarrow> Inl (BadRequest ''date in no fiscal year'')
           | Some y \<Rightarrow>
               if fyStatus y = YEAR_CLOSED then Inl (BadRequest ''fiscal year is closed'')
               else Inr ())"

subsection \<open>Posting\<close>

definition redirectCash :: "'a ledger_scheme \<Rightarrow> journal_input \<Rightarrow> line list \<Rightarrow> line list res" where
  "redirectCash s p ls =
     (if jiReversalOf p = None
         \<and> (case jiSource p of None \<Rightarrow> SYSTEM | Some x \<Rightarrow> x) \<notin> set KEEP_EXACT_ACCOUNT_SOURCES
         \<and> list_ex (\<lambda>l. lnCode l = CASH_ROOT_CODE) ls
      then (case resolveBankAccount s None None of
              Inl e \<Rightarrow> Inl e
            | Inr bank \<Rightarrow>
                if bank \<noteq> CASH_ROOT_CODE
                then Inr (map (\<lambda>l. if lnCode l = CASH_ROOT_CODE then l\<lparr>lnCode := bank\<rparr> else l) ls)
                else Inr ls)
      else Inr ls)"

definition assertJournalDate :: "'a ledger_scheme \<Rightarrow> journal_input \<Rightarrow> unit res" where
  "assertJournalDate s p =
     (case jiEntryDate p of
        None \<Rightarrow> Inr ()
      | Some d \<Rightarrow>
          if jiReversalOf p = None \<and> jiSource p \<noteq> Some CLOSING
          then assertPostingDateAllowed s d else Inr ())"

text \<open>\<open>new Set\<close> keeps the first occurrence of each code.\<close>

definition uniqueCodes :: "line list \<Rightarrow> string list" where
  "uniqueCodes ls = rev (remdups (rev (map lnCode ls)))"

definition applyLine :: "(string \<Rightarrow> account option) \<Rightarrow> account list \<Rightarrow> line \<Rightarrow> account list" where
  "applyLine m as l =
     (case m (lnCode l) of
        None \<Rightarrow> as
      | Some a \<Rightarrow>
          (let sgn = deltaSign (accCode a) (lnSide l);
               deltaRial = lnRial l * sgn;
               deltaGrams = lnGrams l * of_int sgn in
           if deltaRial = 0 \<and> deltaGrams = 0 then as
           else update_where (\<lambda>r. accId r = accId a)
                  (\<lambda>r. r\<lparr>accRial := accRial r + deltaRial, accGrams := accGrams r + deltaGrams\<rparr>) as))"

definition entryOf :: "(string \<Rightarrow> account option) \<Rightarrow> nat \<Rightarrow> line \<Rightarrow> ledger_entry" where
  "entryOf m j l =
     \<lparr>leJournal = j,
      leAccount = (case m (lnCode l) of None \<Rightarrow> 0 | Some a \<Rightarrow> accId a),
      leSide = lnSide l, leRial = lnRial l, leGrams = lnGrams l,
      leDescription = lnDescription l\<rparr>"

definition newJournal :: "nat \<Rightarrow> int \<Rightarrow> journal_input \<Rightarrow> journal" where
  "newJournal i t p =
     \<lparr>jId = i, jDescription = jiDescription p,
      jTotalRial = jiTotalRial p, jTotalGrams = jiTotalGrams p,
      jEntryDate = (case jiEntryDate p of None \<Rightarrow> t | Some d \<Rightarrow> d),
      jTransaction = jiTransaction p,
      jSource = (case jiSource p of None \<Rightarrow> SYSTEM | Some x \<Rightarrow> x),
      jRefType = jiRefType p, jRefId = jiRefId p,
      jCreatedBy = jiCreatedBy p, jReversalOf = jiReversalOf p\<rparr>"

text \<open>
  The unique index on \<open>reversal_of_id\<close> rejects a second reversal of a journal, its foreign
  key a reversal of a journal that does not exist.
\<close>

definition reversalTaken :: "'a ledger_scheme \<Rightarrow> journal_input \<Rightarrow> bool" where
  "reversalTaken s p \<longleftrightarrow>
     (case jiReversalOf p of
        None \<Rightarrow> False
      | Some r \<Rightarrow> list_ex (\<lambda>j. jReversalOf j = Some r) (journals s)
                  \<or> \<not> list_ex (\<lambda>j. jId j = r) (journals s))"

definition postJournal ::
  "'a ledger_scheme \<Rightarrow> int \<Rightarrow> journal_input \<Rightarrow> ('a ledger_scheme \<times> nat) res" where
  "postJournal s t p =
     (let ls0 = map normalizeLine (jiLines p) in
      case assertBalanced ls0 of Inl e \<Rightarrow> Inl e | Inr _ \<Rightarrow>
      (case redirectCash s p ls0 of Inl e \<Rightarrow> Inl e | Inr ls \<Rightarrow>
      (case assertJournalDate s p of Inl e \<Rightarrow> Inl e | Inr _ \<Rightarrow>
      (case getRequiredAccounts (accounts s) (uniqueCodes ls) of Inl e \<Rightarrow> Inl e | Inr m \<Rightarrow>
      (case assertActive m (uniqueCodes ls) of Inl e \<Rightarrow> Inl e | Inr _ \<Rightarrow>
       if reversalTaken s p then Inl (DbConstraint ''reversal_of_id'')
       else
         (let j = nextId s in
          Inr (s\<lparr>nextId := j + 1,
                 journals := journals s @ [newJournal j t p],
                 ledgerEntries := ledgerEntries s @ map (entryOf m j) ls,
                 accounts := foldl (applyLine m) (accounts s) ls\<rparr>, j)))))))"

definition swapSide :: "side \<Rightarrow> side" where
  "swapSide sd = (if sd = DEBIT then CREDIT else DEBIT)"

text \<open>Options of \<open>reverseJournal\<close>: description, creator, reference type and id.\<close>

record reverse_opts =
  roDescription :: "string option"
  roCreatedBy :: "nat option"
  roRefType :: "string option"
  roRefId :: "nat option"

definition orElse :: "'x option \<Rightarrow> 'x option \<Rightarrow> 'x option" where
  "orElse a b = (case a of None \<Rightarrow> b | Some x \<Rightarrow> Some x)"

definition reversedLine :: "account list \<Rightarrow> ledger_entry \<Rightarrow> line_input" where
  "reversedLine as e =
     \<lparr>liCode = (case find (\<lambda>a. accId a = leAccount e) as of None \<Rightarrow> [] | Some a \<Rightarrow> accCode a),
      liSide = swapSide (leSide e), liRial = Some (leRial e), liGrams = Some (leGrams e),
      liDescription = leDescription e\<rparr>"

definition reversalInput :: "'a ledger_scheme \<Rightarrow> journal \<Rightarrow> reverse_opts \<Rightarrow> journal_input" where
  "reversalInput s original opts =
     \<lparr>jiDescription =
        (case roDescription opts of
           None \<Rightarrow> ''reversal: '' @ jDescription original | Some d \<Rightarrow> d),
      jiTotalRial = jTotalRial original, jiTotalGrams = jTotalGrams original,
      jiLines = map (reversedLine (accounts s))
                  (filter (\<lambda>e. leJournal e = jId original) (ledgerEntries s)),
      jiSource = Some REVERSAL,
      jiRefType = orElse (roRefType opts) (jRefType original),
      jiRefId = orElse (roRefId opts) (jRefId original),
      jiEntryDate = None,
      jiCreatedBy = roCreatedBy opts,
      jiReversalOf = Some (jId original),
      jiTransaction = None\<rparr>"

definition reverseJournal ::
  "'a ledger_scheme \<Rightarrow> int \<Rightarrow> nat \<Rightarrow> reverse_opts \<Rightarrow> ('a ledger_scheme \<times> nat) res" where
  "reverseJournal s t journalId opts =
     (case find (\<lambda>j. jId j = journalId) (journals s) of
        None \<Rightarrow> Inl (NotFound ''journal'')
      | Some original \<Rightarrow>
          if list_ex (\<lambda>j. jReversalOf j = Some (jId original)) (journals s)
          then Inl (Conflict ''journal already reversed'')
          else if jReversalOf original \<noteq> None
          then Inl (Conflict ''a reversal cannot be reversed'')
          else postJournal s t (reversalInput s original opts))"

subsection \<open>Valuation\<close>

text \<open>
  Weighted average cost. \<open>prec\<close> is the rounding of the decimal library to its significant
  digits after a division or a multiplication.
\<close>

definition averageCostRial ::
  "(rat \<Rightarrow> rat) \<Rightarrow> 'a ledger_scheme \<Rightarrow> string \<Rightarrow> rat \<Rightarrow> int" where
  "averageCostRial prec s c g =
     (if g \<le> 0 then 0
      else
        (let acc = findAccount (accounts s) c;
             balG = toDecimal (map_option accGrams acc);
             balR = toDecimal (map_option accRial acc) in
         if balG \<le> 0 \<or> balR \<le> 0 then 0
         else
           (let cost = round_half_up (prec (prec (of_int balR / balG) * g)) in
            if balR < cost then balR else cost)))"

subsection \<open>What a posting does to the balances\<close>

definition signedRial :: "line \<Rightarrow> int" where
  "signedRial l = (if lnSide l = DEBIT then lnRial l else - lnRial l)"

definition signedGrams :: "line \<Rightarrow> rat" where
  "signedGrams l = (if lnSide l = DEBIT then lnGrams l else - lnGrams l)"

definition netRial :: "string \<Rightarrow> line list \<Rightarrow> int" where
  "netRial c ls = sum_where (\<lambda>l. lnCode l = c) (\<lambda>l. lnRial l * deltaSign c (lnSide l)) ls"

definition netGrams :: "string \<Rightarrow> line list \<Rightarrow> rat" where
  "netGrams c ls = sum_where (\<lambda>l. lnCode l = c) (\<lambda>l. lnGrams l * of_int (deltaSign c (lnSide l))) ls"

definition bump :: "line list \<Rightarrow> account \<Rightarrow> account" where
  "bump ls a = a\<lparr>accRial := accRial a + netRial (accCode a) ls,
                 accGrams := accGrams a + netGrams (accCode a) ls\<rparr>"

definition wf_accounts :: "account list \<Rightarrow> bool" where
  "wf_accounts as \<longleftrightarrow> distinct (map accId as) \<and> distinct (map accCode as)"

definition rialOf :: "'a ledger_scheme \<Rightarrow> string \<Rightarrow> int" where
  "rialOf s c = toDecimal (map_option accRial (findAccount (accounts s) c))"

definition gramsOf :: "'a ledger_scheme \<Rightarrow> string \<Rightarrow> rat" where
  "gramsOf s c = toDecimal (map_option accGrams (findAccount (accounts s) c))"

lemma bump_simps [simp]:
  "accId (bump ls a) = accId a" "accCode (bump ls a) = accCode a"
  "accActive (bump ls a) = accActive a" "accParent (bump ls a) = accParent a"
  "accRial (bump ls a) = accRial a + netRial (accCode a) ls"
  "accGrams (bump ls a) = accGrams a + netGrams (accCode a) ls"
  by (simp_all add: bump_def)

lemma findAccount_map_bump: "findAccount (map (bump ls) as) c = map_option (bump ls) (findAccount as c)"
  unfolding findAccount_def by (induction as) auto

lemma findAccount_SomeD: "findAccount as c = Some a \<Longrightarrow> a \<in> set as \<and> accCode a = c"
  unfolding findAccount_def by (auto dest: find_SomeD)

lemma same_id_same_account:
  "wf_accounts as \<Longrightarrow> a \<in> set as \<Longrightarrow> b \<in> set as \<Longrightarrow> accId a = accId b \<longleftrightarrow> accCode a = accCode b"
  unfolding wf_accounts_def by (metis distinct_map inj_onD)

lemma wf_accounts_map_bump: "wf_accounts (map (bump ls) as) = wf_accounts as"
  by (simp add: wf_accounts_def comp_def)

lemma bump_Nil [simp]: "bump [] a = a"
  by (simp add: bump_def netRial_def netGrams_def)

lemma bump_bump: "bump ms (bump ls a) = bump (ls @ ms) a"
  by (simp add: bump_def netRial_def netGrams_def)

text \<open>The accounts the posting looked up are those of the table, up to the balances.\<close>

definition snapshot :: "(string \<Rightarrow> account option) \<Rightarrow> account list \<Rightarrow> line list \<Rightarrow> bool" where
  "snapshot m as ls \<longleftrightarrow>
     (\<forall>l \<in> set ls. \<exists>a b. m (lnCode l) = Some a \<and> accCode a = lnCode l \<and>
        b \<in> set as \<and> accId b = accId a \<and> accCode b = lnCode l)"

lemma applyLine_bump:
  assumes wf: "wf_accounts as" and sn: "snapshot m as (l # ls)"
  shows "applyLine m as l = map (bump [l]) as"
proof -
  obtain a b where m: "m (lnCode l) = Some a" and ca: "accCode a = lnCode l"
    and b: "b \<in> set as" "accId b = accId a" "accCode b = lnCode l"
    using sn unfolding snapshot_def by auto
  have same: "accId r = accId a \<longleftrightarrow> accCode r = lnCode l" if "r \<in> set as" for r
    using same_id_same_account [OF wf that b(1)] b by simp
  show ?thesis
  proof (cases "lnRial l = 0 \<and> lnGrams l = 0")
    case True
    then show ?thesis
      using m by (simp add: applyLine_def Let_def bump_def netRial_def netGrams_def map_idI)
  next
    case False
    then have "\<not> (lnRial l * deltaSign (accCode a) (lnSide l) = 0 \<and>
                 lnGrams l * of_int (deltaSign (accCode a) (lnSide l)) = 0)"
      by (auto simp: deltaSign_def split: if_splits)
    then have "applyLine m as l = update_where (\<lambda>r. accId r = accId a)
        (\<lambda>r. r\<lparr>accRial := accRial r + lnRial l * deltaSign (accCode a) (lnSide l),
               accGrams := accGrams r + lnGrams l * of_int (deltaSign (accCode a) (lnSide l))\<rparr>) as"
      using m unfolding applyLine_def Let_def by auto
    also have "\<dots> = map (bump [l]) as"
      unfolding update_where_def
      using same ca by (intro map_cong) (auto simp: bump_def netRial_def netGrams_def)
    finally show ?thesis .
  qed
qed

lemma applyLines_bump:
  assumes "wf_accounts as" and "snapshot m as ls"
  shows "foldl (applyLine m) as ls = map (bump ls) as"
  using assms
proof (induction ls arbitrary: as)
  case Nil
  then show ?case by (simp add: map_idI)
next
  case (Cons l ls)
  have step: "applyLine m as l = map (bump [l]) as"
    using Cons.prems by (rule applyLine_bump)
  have "snapshot m (map (bump [l]) as) ls"
    using Cons.prems(2) unfolding snapshot_def by (force simp: image_iff)
  then have "foldl (applyLine m) (map (bump [l]) as) ls = map (bump ls) (map (bump [l]) as)"
    using Cons.prems(1) by (intro Cons.IH) (simp add: wf_accounts_map_bump)
  then show ?case by (simp add: step comp_def bump_bump)
qed

lemma getRequiredAccounts_Inr:
  "getRequiredAccounts as cs = Inr m \<Longrightarrow>
     (\<forall>c \<in> set cs. \<exists>a. findAccount as c = Some a \<and> m c = Some a) \<and>
     (\<forall>c. c \<notin> set cs \<longrightarrow> m c = None)"
  by (induction as cs arbitrary: m rule: getRequiredAccounts.induct) auto

lemma assertActive_iff:
  "assertActive m cs = Inr () \<longleftrightarrow> (\<forall>c \<in> set cs. \<forall>a. m c = Some a \<longrightarrow> accActive a)"
  by (induction m cs rule: assertActive.induct) (auto split: option.splits)

lemma set_uniqueCodes [simp]: "set (uniqueCodes ls) = lnCode ` set ls"
  by (simp add: uniqueCodes_def)

lemma getRequiredAccounts_snapshot:
  assumes "getRequiredAccounts as (uniqueCodes ls) = Inr m"
  shows "snapshot m as ls"
proof -
  have "\<exists>a. findAccount as (lnCode l) = Some a \<and> m (lnCode l) = Some a" if "l \<in> set ls" for l
    using getRequiredAccounts_Inr [OF assms] that by auto
  then show ?thesis unfolding snapshot_def by (metis findAccount_SomeD)
qed

subsection \<open>Balanced documents\<close>

lemma foldl_addSide:
  "foldl addSide (dr, cr, dg, cg) ls =
    (dr + sum_where (\<lambda>l. lnSide l = DEBIT) lnRial ls,
     cr + sum_where (\<lambda>l. lnSide l \<noteq> DEBIT) lnRial ls,
     dg + sum_where (\<lambda>l. lnSide l = DEBIT) lnGrams ls,
     cg + sum_where (\<lambda>l. lnSide l \<noteq> DEBIT) lnGrams ls)"
  by (induction ls arbitrary: dr cr dg cg) (auto simp: algebra_simps)

lemma sum_signed:
  "sum_list (map signedRial ls) =
     sum_where (\<lambda>l. lnSide l = DEBIT) lnRial ls - sum_where (\<lambda>l. lnSide l \<noteq> DEBIT) lnRial ls"
  "sum_list (map signedGrams ls) =
     sum_where (\<lambda>l. lnSide l = DEBIT) lnGrams ls - sum_where (\<lambda>l. lnSide l \<noteq> DEBIT) lnGrams ls"
  by (induction ls) (auto simp: signedRial_def signedGrams_def)

lemma assertBalanced_Inr:
  "assertBalanced ls = Inr () \<longleftrightarrow>
     sum_list (map signedRial ls) = 0 \<and> sum_list (map signedGrams ls) = 0"
  unfolding assertBalanced_def by (auto simp: foldl_addSide sum_signed)

lemma assertBalanced_cases:
  "assertBalanced ls = Inr () \<or> assertBalanced ls = Inl (Internal ''journal posting failed'')"
  unfolding assertBalanced_def by (auto split: prod.splits)

lemma redirectCash_Inr:
  assumes "redirectCash s p ls = Inr ks"
  shows "ks = ls \<or> (\<exists>bank. resolveBankAccount s None None = Inr bank \<and> bank \<noteq> CASH_ROOT_CODE \<and>
     ks = map (\<lambda>l. if lnCode l = CASH_ROOT_CODE then l\<lparr>lnCode := bank\<rparr> else l) ls)"
  using assms unfolding redirectCash_def by (auto split: if_splits)

lemma signed_redirect [simp]:
  "signedRial (if b then l\<lparr>lnCode := c\<rparr> else l) = signedRial l"
  "signedGrams (if b then l\<lparr>lnCode := c\<rparr> else l) = signedGrams l"
  by (simp_all add: signedRial_def signedGrams_def)

lemma redirectCash_signed:
  assumes "redirectCash s p ls = Inr ks"
  shows "sum_list (map signedRial ks) = sum_list (map signedRial ls)"
    and "sum_list (map signedGrams ks) = sum_list (map signedGrams ls)"
  using redirectCash_Inr [OF assms] by (auto simp: comp_def)

text \<open>Everything a successful posting tells about the new state.\<close>

lemma postJournal_Inr:
  assumes "postJournal s t p = Inr (s', j)"
  obtains ls m where
    "assertBalanced (map normalizeLine (jiLines p)) = Inr ()"
    "redirectCash s p (map normalizeLine (jiLines p)) = Inr ls"
    "assertJournalDate s p = Inr ()"
    "getRequiredAccounts (accounts s) (uniqueCodes ls) = Inr m"
    "assertActive m (uniqueCodes ls) = Inr ()"
    "\<not> reversalTaken s p"
    "j = nextId s"
    "s' = s\<lparr>nextId := nextId s + 1, journals := journals s @ [newJournal (nextId s) t p],
            ledgerEntries := ledgerEntries s @ map (entryOf m (nextId s)) ls,
            accounts := foldl (applyLine m) (accounts s) ls\<rparr>"
  using assms unfolding postJournal_def Let_def by (auto split: if_splits)


subsection \<open>Well-formed ledgers\<close>

definition wf_ledger :: "'a ledger_scheme \<Rightarrow> bool" where
  "wf_ledger s \<longleftrightarrow>
     wf_accounts (accounts s) \<and>
     distinct (map jId (journals s)) \<and>
     (\<forall>j \<in> set (journals s). jId j < nextId s) \<and>
     (\<forall>j \<in> set (journals s). \<forall>r. jReversalOf j = Some r \<longrightarrow> r \<in> jId ` set (journals s)) \<and>
     (\<forall>e \<in> set (ledgerEntries s). leJournal e < nextId s \<and> leAccount e \<in> accId ` set (accounts s))"

definition natureSign :: "string \<Rightarrow> int" where
  "natureSign c = deltaSign c DEBIT"

definition trialRial :: "'a ledger_scheme \<Rightarrow> int" where
  "trialRial s = sum_list (map (\<lambda>a. natureSign (accCode a) * accRial a) (accounts s))"

definition trialGrams :: "'a ledger_scheme \<Rightarrow> rat" where
  "trialGrams s = sum_list (map (\<lambda>a. of_int (natureSign (accCode a)) * accGrams a) (accounts s))"

definition entriesRial :: "ledger_entry list \<Rightarrow> account \<Rightarrow> int" where
  "entriesRial es a =
     sum_where (\<lambda>e. leAccount e = accId a) (\<lambda>e. leRial e * deltaSign (accCode a) (leSide e)) es"

definition entriesGrams :: "ledger_entry list \<Rightarrow> account \<Rightarrow> rat" where
  "entriesGrams es a =
     sum_where (\<lambda>e. leAccount e = accId a) (\<lambda>e. leGrams e * of_int (deltaSign (accCode a) (leSide e))) es"

text \<open>Every balance is the signed total of the entries of its account.\<close>

definition books_agree :: "'a ledger_scheme \<Rightarrow> bool" where
  "books_agree s \<longleftrightarrow>
     (\<forall>a \<in> set (accounts s). accRial a = entriesRial (ledgerEntries s) a
                           \<and> accGrams a = entriesGrams (ledgerEntries s) a)"

lemma natureSign_delta: "natureSign c * (v * deltaSign c sd) = (if sd = DEBIT then v else - v)"
  by (simp add: natureSign_def deltaSign_def)

lemma natureSign_delta_rat:
  "of_int (natureSign c) * (v * of_int (deltaSign c sd)) = (if sd = DEBIT then v else - v :: rat)"
  by (simp add: natureSign_def deltaSign_def)

lemma netRial_simps [simp]:
  "netRial c [] = 0"
  "netRial c (l # ls) = (if lnCode l = c then lnRial l * deltaSign c (lnSide l) else 0) + netRial c ls"
  "netRial c (ls @ ms) = netRial c ls + netRial c ms"
  by (simp_all add: netRial_def)

lemma netGrams_simps [simp]:
  "netGrams c [] = 0"
  "netGrams c (l # ls) =
     (if lnCode l = c then lnGrams l * of_int (deltaSign c (lnSide l)) else 0) + netGrams c ls"
  "netGrams c (ls @ ms) = netGrams c ls + netGrams c ms"
  by (simp_all add: netGrams_def)

text \<open>The trial balance moves by the debits less the credits.\<close>

lemma sum_pick:
  fixes v :: "'n::ab_group_add"
  assumes "distinct (map k as)" and "i \<in> k ` set as"
  shows "sum_list (map (\<lambda>a. if k a = i then v else 0) as) = v"
  using assms
proof (induction as)
  case Nil
  then show ?case by simp
next
  case (Cons a as)
  show ?case
  proof (cases "k a = i")
    case True
    then have m: "map (\<lambda>a. if k a = i then v else 0) as = map (\<lambda>_. 0) as"
      using Cons.prems(1) by (intro map_cong) (auto simp: image_iff)
    have "sum_list (map (\<lambda>a. if k a = i then v else 0) as) = 0" unfolding m by simp
    then show ?thesis using True by simp
  next
    case False
    then show ?thesis using Cons by auto
  qed
qed

lemma trial_bump:
  assumes "distinct (map accCode as)" and "\<forall>l \<in> set ls. lnCode l \<in> accCode ` set as"
  shows "sum_list (map (\<lambda>a. natureSign (accCode a) * netRial (accCode a) ls) as)
           = sum_list (map signedRial ls)"
    and "sum_list (map (\<lambda>a. of_int (natureSign (accCode a)) * netGrams (accCode a) ls) as)
           = sum_list (map signedGrams ls)"
  using assms(2)
proof (induction ls)
  case Nil
  { case 1 show ?case by simp }
  { case 2 show ?case by simp }
next
  case (Cons l ls)
  {
    case 1
    have eq: "natureSign c * netRial c (l # ls) =
        (if c = lnCode l then signedRial l else 0) + natureSign c * netRial c ls" for c
      by (auto simp: distrib_left natureSign_delta signedRial_def)
    show ?case unfolding eq sum_list_addf
      using 1 Cons.IH(1) sum_pick [OF assms(1), of "lnCode l" "signedRial l"] by simp
  next
    case 2
    have eq: "of_int (natureSign c) * netGrams c (l # ls) =
        (if c = lnCode l then signedGrams l else 0) + of_int (natureSign c) * netGrams c ls" for c
      by (auto simp: distrib_left natureSign_delta_rat signedGrams_def)
    show ?case unfolding eq sum_list_addf
      using 2 Cons.IH(2) sum_pick [OF assms(1), of "lnCode l" "signedGrams l"] by simp
  }
qed

text \<open>The effect of a posting, in closed form.\<close>

lemma postJournal_effect:
  assumes "wf_ledger s" and "postJournal s t p = Inr (s', j)"
  obtains ls m where
    "redirectCash s p (map normalizeLine (jiLines p)) = Inr ls"
    "sum_list (map signedRial ls) = 0" "sum_list (map signedGrams ls) = 0"
    "snapshot m (accounts s) ls"
    "\<forall>l \<in> set ls. \<exists>a. findAccount (accounts s) (lnCode l) = Some a \<and> accActive a"
    "\<not> reversalTaken s p" "assertJournalDate s p = Inr ()"
    "j = nextId s"
    "s' = s\<lparr>nextId := nextId s + 1, journals := journals s @ [newJournal (nextId s) t p],
            ledgerEntries := ledgerEntries s @ map (entryOf m (nextId s)) ls,
            accounts := map (bump ls) (accounts s)\<rparr>"
proof -
  from assms(2) obtain ls m where post:
    "assertBalanced (map normalizeLine (jiLines p)) = Inr ()"
    "redirectCash s p (map normalizeLine (jiLines p)) = Inr ls"
    "assertJournalDate s p = Inr ()"
    "getRequiredAccounts (accounts s) (uniqueCodes ls) = Inr m"
    "assertActive m (uniqueCodes ls) = Inr ()"
    "\<not> reversalTaken s p" "j = nextId s"
    "s' = s\<lparr>nextId := nextId s + 1, journals := journals s @ [newJournal (nextId s) t p],
            ledgerEntries := ledgerEntries s @ map (entryOf m (nextId s)) ls,
            accounts := foldl (applyLine m) (accounts s) ls\<rparr>"
    by (rule postJournal_Inr)
  have sn: "snapshot m (accounts s) ls" using post(4) by (rule getRequiredAccounts_snapshot)
  have "foldl (applyLine m) (accounts s) ls = map (bump ls) (accounts s)"
    using assms(1) sn by (intro applyLines_bump) (simp_all add: wf_ledger_def)
  moreover have "sum_list (map signedRial ls) = 0" "sum_list (map signedGrams ls) = 0"
    using post(1) redirectCash_signed [OF post(2)] by (simp_all add: assertBalanced_Inr)
  moreover have "\<forall>l \<in> set ls. \<exists>a. findAccount (accounts s) (lnCode l) = Some a \<and> accActive a"
    using getRequiredAccounts_Inr [OF post(4)] post(5) unfolding assertActive_iff by auto
  ultimately show thesis using that post sn by simp
qed

lemma snapshot_codes: "snapshot m as ls \<Longrightarrow> \<forall>l \<in> set ls. lnCode l \<in> accCode ` set as"
  unfolding snapshot_def by force

lemma entryOf_simps [simp]:
  "leJournal (entryOf m j l) = j" "leSide (entryOf m j l) = lnSide l"
  "leRial (entryOf m j l) = lnRial l" "leGrams (entryOf m j l) = lnGrams l"
  by (simp_all add: entryOf_def)

lemma entryOf_account:
  assumes "wf_accounts as" "snapshot m as ls" "l \<in> set ls" "a \<in> set as"
  shows "leAccount (entryOf m j l) = accId a \<longleftrightarrow> lnCode l = accCode a"
proof -
  obtain c b where "m (lnCode l) = Some c" "b \<in> set as" "accId b = accId c" "accCode b = lnCode l"
    using assms(2,3) unfolding snapshot_def by blast
  then show ?thesis
    using same_id_same_account [OF assms(1) \<open>b \<in> set as\<close> assms(4)] by (simp add: entryOf_def)
qed

lemma not_reversalTaken:
  "\<not> reversalTaken s p \<Longrightarrow> jiReversalOf p = Some r \<Longrightarrow> r \<in> jId ` set (journals s)"
  by (auto simp: reversalTaken_def list_ex_iff)

lemma newJournal_simps [simp]:
  "jId (newJournal i t p) = i" "jReversalOf (newJournal i t p) = jiReversalOf p"
  "jDescription (newJournal i t p) = jiDescription p"
  "jTotalRial (newJournal i t p) = jiTotalRial p" "jTotalGrams (newJournal i t p) = jiTotalGrams p"
  by (simp_all add: newJournal_def)

lemma postJournal_wf:
  assumes wf: "wf_ledger s" and post: "postJournal s t p = Inr (s', j)"
  shows "wf_ledger s'"
proof -
  from postJournal_effect [OF wf post] obtain ls m where
    sn: "snapshot m (accounts s) ls" and nt: "\<not> reversalTaken s p" and
    s': "s' = s\<lparr>nextId := nextId s + 1, journals := journals s @ [newJournal (nextId s) t p],
            ledgerEntries := ledgerEntries s @ map (entryOf m (nextId s)) ls,
            accounts := map (bump ls) (accounts s)\<rparr>" by metis
  have "leAccount (entryOf m (nextId s) l) \<in> accId ` set (accounts s)" if "l \<in> set ls" for l
    using sn that unfolding snapshot_def by (force simp: entryOf_def)
  then show ?thesis
    using wf not_reversalTaken [OF nt] unfolding s' wf_ledger_def
    by (auto simp: wf_accounts_map_bump image_image)
qed

lemma postJournal_trial:
  assumes wf: "wf_ledger s" and post: "postJournal s t p = Inr (s', j)"
  shows "trialRial s' = trialRial s" and "trialGrams s' = trialGrams s"
proof -
  from postJournal_effect [OF wf post] obtain ls m where
    z: "sum_list (map signedRial ls) = 0" "sum_list (map signedGrams ls) = 0" and
    sn: "snapshot m (accounts s) ls" and
    s': "s' = s\<lparr>nextId := nextId s + 1, journals := journals s @ [newJournal (nextId s) t p],
            ledgerEntries := ledgerEntries s @ map (entryOf m (nextId s)) ls,
            accounts := map (bump ls) (accounts s)\<rparr>" by metis
  have d: "distinct (map accCode (accounts s))" using wf by (simp add: wf_ledger_def wf_accounts_def)
  note tb = trial_bump [OF d snapshot_codes [OF sn]]
  show "trialRial s' = trialRial s"
    using tb(1) z by (simp add: s' trialRial_def comp_def distrib_left sum_list_addf)
  show "trialGrams s' = trialGrams s"
    using tb(2) z by (simp add: s' trialGrams_def comp_def distrib_left sum_list_addf)
qed

lemma entries_of_posting:
  assumes "wf_accounts as" "snapshot m as ls" "a \<in> set as"
  shows "entriesRial (map (entryOf m j) ls) a = netRial (accCode a) ls"
    and "entriesGrams (map (entryOf m j) ls) a = netGrams (accCode a) ls"
proof -
  have sub: "snapshot m as ks" if "set ks \<subseteq> set ls" for ks
    using assms(2) that unfolding snapshot_def by blast
  have "set ks \<subseteq> set ls \<Longrightarrow> entriesRial (map (entryOf m j) ks) a = netRial (accCode a) ks
          \<and> entriesGrams (map (entryOf m j) ks) a = netGrams (accCode a) ks" for ks
  proof (induction ks)
    case Nil
    then show ?case by (simp add: entriesRial_def entriesGrams_def)
  next
    case (Cons l ks)
    then have "leAccount (entryOf m j l) = accId a \<longleftrightarrow> lnCode l = accCode a"
      using entryOf_account [OF assms(1,2) _ assms(3)] by simp
    then show ?case using Cons by (simp add: entriesRial_def entriesGrams_def)
  qed
  then show "entriesRial (map (entryOf m j) ls) a = netRial (accCode a) ls"
    and "entriesGrams (map (entryOf m j) ls) a = netGrams (accCode a) ls" by auto
qed

lemma entries_append [simp]:
  "entriesRial (es @ fs) a = entriesRial es a + entriesRial fs a"
  "entriesGrams (es @ fs) a = entriesGrams es a + entriesGrams fs a"
  by (simp_all add: entriesRial_def entriesGrams_def)

lemma entries_bump [simp]:
  "entriesRial es (bump ls a) = entriesRial es a" "entriesGrams es (bump ls a) = entriesGrams es a"
  by (simp_all add: entriesRial_def entriesGrams_def)

lemma postJournal_agree:
  assumes wf: "wf_ledger s" and ag: "books_agree s" and post: "postJournal s t p = Inr (s', j)"
  shows "books_agree s'"
proof -
  from postJournal_effect [OF wf post] obtain ls m where
    sn: "snapshot m (accounts s) ls" and
    s': "s' = s\<lparr>nextId := nextId s + 1, journals := journals s @ [newJournal (nextId s) t p],
            ledgerEntries := ledgerEntries s @ map (entryOf m (nextId s)) ls,
            accounts := map (bump ls) (accounts s)\<rparr>" by metis
  have wa: "wf_accounts (accounts s)" using wf by (simp add: wf_ledger_def)
  show ?thesis
    using ag entries_of_posting [OF wa sn] unfolding books_agree_def s' by auto
qed


subsection \<open>The bank account of system documents\<close>

lemma isLeaf_in: "isLeaf as c \<Longrightarrow> \<exists>a \<in> set as. accCode a = c \<and> accActive a"
  unfolding isLeaf_def by (auto split: option.splits dest: findAccount_SomeD)

lemma bankFromConfig_leaf:
  "bankFromConfig s as ks = Some c \<Longrightarrow> bankCodeFormat c \<and> isLeaf as c"
proof (induction ks)
  case Nil
  then show ?case by simp
next
  case (Cons k ks)
  show ?case
  proof (cases "config s k")
    case None
    then show ?thesis using Cons by simp
  next
    case (Some v)
    then show ?thesis using Cons by (simp add: Let_def split: if_splits)
  qed
qed

lemma bankCodeFormat_root: "bankCodeFormat c \<Longrightarrow> starts_with CASH_ROOT_CODE c"
  by (simp add: bankCodeFormat_def)

lemma cashAccounts_root: "a \<in> set (cashAccounts s) \<Longrightarrow> starts_with CASH_ROOT_CODE (accCode a)"
  by (simp add: cashAccounts_def)

lemma starts_with_refl [simp]: "starts_with c c"
  by (simp add: starts_with_def)

lemma only_leaf_root:
  assumes "filter q (cashAccounts s) = [z]"
  shows "starts_with CASH_ROOT_CODE (accCode z)"
proof -
  have "z \<in> set (filter q (cashAccounts s))" unfolding assms by simp
  then show ?thesis using cashAccounts_root by auto
qed

declare bankFromConfig.simps [simp del]

lemma resolveBankAccount_cash:
  assumes "resolveBankAccount s e k = Inr c"
  shows "starts_with CASH_ROOT_CODE c"
  using assms unfolding resolveBankAccount_def Let_def
  by (auto split: if_splits option.splits list.splits
      dest: bankFromConfig_leaf bankCodeFormat_root only_leaf_root)

lemma resolveBankAccount_default: "\<exists>c. resolveBankAccount s None k = Inr c"
  unfolding resolveBankAccount_def Let_def by (auto split: option.splits list.splits)

lemma redirectCash_total: "\<exists>ks. redirectCash s p ls = Inr ks"
  unfolding redirectCash_def using resolveBankAccount_default [of s None] by auto

lemma redirectCash_cases:
  assumes "redirectCash s p ls = Inr ks"
  obtains "ks = ls" | b where "starts_with CASH_ROOT_CODE b"
    "ks = map (\<lambda>l. if lnCode l = CASH_ROOT_CODE then l\<lparr>lnCode := b\<rparr> else l) ls"
  using redirectCash_Inr [OF assms] resolveBankAccount_cash by blast

lemma redirectCash_net:
  assumes "redirectCash s p ls = Inr ks" and "\<not> starts_with CASH_ROOT_CODE c"
  shows "netRial c ks = netRial c ls" and "netGrams c ks = netGrams c ls"
proof -
  have n: "CASH_ROOT_CODE \<noteq> c" using assms(2) by auto
  have r: "netRial c (map (\<lambda>l. if lnCode l = CASH_ROOT_CODE then l\<lparr>lnCode := b\<rparr> else l) ls) = netRial c ls"
      "netGrams c (map (\<lambda>l. if lnCode l = CASH_ROOT_CODE then l\<lparr>lnCode := b\<rparr> else l) ls) = netGrams c ls"
    if "b \<noteq> c" for b
    using that n by (induction ls) auto
  consider "ks = ls" | b where "starts_with CASH_ROOT_CODE b"
      "ks = map (\<lambda>l. if lnCode l = CASH_ROOT_CODE then l\<lparr>lnCode := b\<rparr> else l) ls"
    using redirectCash_Inr [OF assms(1)] resolveBankAccount_cash by blast
  then have "netRial c ks = netRial c ls \<and> netGrams c ks = netGrams c ls"
  proof cases
    case 1
    then show ?thesis by simp
  next
    case (2 b)
    then have "b \<noteq> c" using assms(2) by auto
    then show ?thesis using r 2(2) by simp
  qed
  then show "netRial c ks = netRial c ls" "netGrams c ks = netGrams c ls" by simp_all
qed

abbreviation inputLines :: "journal_input \<Rightarrow> line list" where
  "inputLines p \<equiv> map normalizeLine (jiLines p)"

text \<open>The balance of every account moves by the lines as they are booked.\<close>

lemma postJournal_lines:
  assumes wf: "wf_ledger s" and post: "postJournal s t p = Inr (s', j)"
  obtains ls where "redirectCash s p (inputLines p) = Inr ls"
    "\<And>c. rialOf s' c = rialOf s c + netRial c ls" "\<And>c. gramsOf s' c = gramsOf s c + netGrams c ls"
proof -
  from postJournal_effect [OF wf post] obtain ls m where
    r: "redirectCash s p (inputLines p) = Inr ls" and
    sn: "snapshot m (accounts s) ls" and
    s': "s' = s\<lparr>nextId := nextId s + 1, journals := journals s @ [newJournal (nextId s) t p],
            ledgerEntries := ledgerEntries s @ map (entryOf m (nextId s)) ls,
            accounts := map (bump ls) (accounts s)\<rparr>" by metis
  have z: "netRial c ls = 0 \<and> netGrams c ls = 0" if "findAccount (accounts s) c = None" for c
  proof -
    have "c \<notin> accCode ` set (accounts s)"
      using that unfolding findAccount_def by (auto simp: find_None_iff)
    then have "c \<notin> lnCode ` set ls" using snapshot_codes [OF sn] by auto
    then show ?thesis by (induction ls) auto
  qed
  show thesis
  proof (rule that [OF r])
    fix c
    show "rialOf s' c = rialOf s c + netRial c ls"
      using z [of c] by (cases "findAccount (accounts s) c")
        (auto simp: rialOf_def s' findAccount_map_bump toDecimal_def dest: findAccount_SomeD)
    show "gramsOf s' c = gramsOf s c + netGrams c ls"
      using z [of c] by (cases "findAccount (accounts s) c")
        (auto simp: gramsOf_def s' findAccount_map_bump toDecimal_def dest: findAccount_SomeD)
  qed
qed

text \<open>The balance of an account outside the cash tree moves by the lines of the document.\<close>

lemma postJournal_balance:
  assumes wf: "wf_ledger s" and post: "postJournal s t p = Inr (s', j)"
    and c: "\<not> starts_with CASH_ROOT_CODE c"
  shows "rialOf s' c = rialOf s c + netRial c (inputLines p)"
    and "gramsOf s' c = gramsOf s c + netGrams c (inputLines p)"
proof -
  from postJournal_lines [OF wf post] obtain ls where
    "redirectCash s p (inputLines p) = Inr ls" "rialOf s' c = rialOf s c + netRial c ls"
    "gramsOf s' c = gramsOf s c + netGrams c ls" by metis
  then show "rialOf s' c = rialOf s c + netRial c (inputLines p)" "gramsOf s' c = gramsOf s c + netGrams c (inputLines p)"
    using redirectCash_net [OF _ c] by simp_all
qed

text \<open>A posting writes the ledger tables and nothing else.\<close>

lemma postJournal_frame:
  assumes "postJournal s t p = Inr (s', j)"
  shows "\<exists>js es as. s' = s\<lparr>nextId := nextId s + 1, journals := js, ledgerEntries := es, accounts := as\<rparr>"
  using postJournal_Inr [OF assms] by metis


subsection \<open>Reversal undoes a posting\<close>

lemma getRequiredAccounts_ok:
  "(\<And>c. c \<in> set cs \<Longrightarrow> findAccount as c \<noteq> None) \<Longrightarrow> \<exists>m. getRequiredAccounts as cs = Inr m"
proof (induction cs)
  case Nil
  then show ?case by simp
next
  case (Cons c cs)
  then obtain m where "getRequiredAccounts as cs = Inr m" by auto
  then show ?case using Cons.prems [of c] by auto
qed

text \<open>A posting that meets the checks goes through.\<close>

lemma postJournal_ok:
  assumes "assertBalanced (inputLines p) = Inr ()"
    and "redirectCash s p (inputLines p) = Inr ls"
    and "assertJournalDate s p = Inr ()"
    and "\<And>l. l \<in> set ls \<Longrightarrow> \<exists>a. findAccount (accounts s) (lnCode l) = Some a \<and> accActive a"
    and "\<not> reversalTaken s p"
  shows "\<exists>s'. postJournal s t p = Inr (s', nextId s)"
proof -
  obtain m where m: "getRequiredAccounts (accounts s) (uniqueCodes ls) = Inr m"
    using getRequiredAccounts_ok [of "uniqueCodes ls" "accounts s"] assms(4) by fastforce
  have "\<forall>c \<in> set (uniqueCodes ls). \<forall>a. m c = Some a \<longrightarrow> accActive a"
    using getRequiredAccounts_Inr [OF m] assms(4) by fastforce
  then have "assertActive m (uniqueCodes ls) = Inr ()" by (simp add: assertActive_iff)
  then show ?thesis using assms m unfolding postJournal_def Let_def by simp
qed

lemma find_by_id:
  assumes "wf_accounts as" "a \<in> set as"
  shows "find (\<lambda>b. accId b = accId a) as = Some a"
  using assms unfolding wf_accounts_def by (intro find_unique) auto

lemma find_map_bump:
  "find (\<lambda>b. accId b = i) (map (bump ks) as) = map_option (bump ks) (find (\<lambda>b. accId b = i) as)"
  by (induction as) auto

lemma reversedLine_normal:
  assumes wf: "wf_accounts as" and sn: "snapshot m as ls" and l: "l \<in> set ls"
  shows "normalizeLine (reversedLine (map (bump ks) as) (entryOf m j l)) =
           l\<lparr>lnSide := swapSide (lnSide l)\<rparr>"
proof -
  obtain c b where m: "m (lnCode l) = Some c" and b: "b \<in> set as" "accId b = accId c" "accCode b = lnCode l"
    using sn l unfolding snapshot_def by blast
  have "find (\<lambda>x. accId x = accId c) as = Some b" using find_by_id [OF wf b(1)] b(2) by simp
  then show ?thesis
    using m b(3)
    by (simp add: normalizeLine_def reversedLine_def entryOf_def toDecimal_def find_map_bump)
qed

lemma swapSide_neq [simp]: "swapSide sd = DEBIT \<longleftrightarrow> sd \<noteq> DEBIT"
  by (simp add: swapSide_def)

abbreviation swapped :: "line list \<Rightarrow> line list" where
  "swapped ls \<equiv> map (\<lambda>l. l\<lparr>lnSide := swapSide (lnSide l)\<rparr>) ls"

lemma swapped_signed:
  "sum_list (map signedRial (swapped ls)) = - sum_list (map signedRial ls)"
  "sum_list (map signedGrams (swapped ls)) = - sum_list (map signedGrams ls)"
  by (induction ls) (auto simp: signedRial_def signedGrams_def)

lemma swapped_net: "netRial c (swapped ls) = - netRial c ls" "netGrams c (swapped ls) = - netGrams c ls"
  by (induction ls) (auto simp: deltaSign_def)

lemma bump_swapped: "bump (swapped ls) (bump ls a) = a"
  by (simp add: bump_bump) (simp add: bump_def swapped_net)


text \<open>The state right after a posting: the journal and its entries are found, unreversed.\<close>

lemma fresh_journal:
  "wf_ledger s \<Longrightarrow> x \<in> set (journals s) \<Longrightarrow> jId x \<noteq> nextId s \<and> jReversalOf x \<noteq> Some (nextId s)"
  unfolding wf_ledger_def by force

lemma posted_journal_found:
  assumes "wf_ledger s" and "journals s1 = journals s @ [newJournal (nextId s) t p]"
  shows "find (\<lambda>x. jId x = nextId s) (journals s1) = Some (newJournal (nextId s) t p)"
proof -
  have "find (\<lambda>x. jId x = nextId s) (journals s) = None"
    using fresh_journal [OF assms(1)] by (simp add: find_None_iff)
  then show ?thesis by (simp add: assms(2) find_append)
qed

lemma posted_entries_found:
  assumes "wf_ledger s" and "ledgerEntries s1 = ledgerEntries s @ map (entryOf m (nextId s)) ls"
  shows "filter (\<lambda>e. leJournal e = nextId s) (ledgerEntries s1) = map (entryOf m (nextId s)) ls"
proof -
  have "filter (\<lambda>e. leJournal e = nextId s) (ledgerEntries s) = []"
    using assms(1) unfolding wf_ledger_def by (auto simp: filter_empty_conv)
  then show ?thesis by (simp add: assms(2) filter_map comp_def)
qed

lemma reversalInput_lines:
  assumes wf: "wf_ledger s" and sn: "snapshot m (accounts s) ls"
    and s1: "ledgerEntries s1 = ledgerEntries s @ map (entryOf m (nextId s)) ls"
            "accounts s1 = map (bump ks) (accounts s)" "jId original = nextId s"
  shows "inputLines (reversalInput s1 original opts) = swapped ls"
proof -
  have wa: "wf_accounts (accounts s)" using wf by (simp add: wf_ledger_def)
  show ?thesis
    using reversedLine_normal [OF wa sn] posted_entries_found [OF wf s1(1)]
    by (simp add: reversalInput_def s1 comp_def)
qed

lemma postJournal_swapped:
  assumes wf: "wf_ledger s" and s1: "accounts s1 = map (bump ls) (accounts s)" "wf_ledger s1"
    and z: "sum_list (map signedRial ls) = 0" "sum_list (map signedGrams ls) = 0"
    and act: "\<forall>l \<in> set ls. \<exists>a. findAccount (accounts s) (lnCode l) = Some a \<and> accActive a"
    and q: "inputLines q = swapped ls" "jiReversalOf q = Some r" "jiEntryDate q = None"
      "\<not> reversalTaken s1 q"
  shows "\<exists>s2 k. postJournal s1 t q = Inr (s2, k) \<and> accounts s2 = accounts s"
proof -
  have red: "redirectCash s1 q (inputLines q) = Inr (swapped ls)"
    unfolding q(1) by (simp add: redirectCash_def q)
  have "\<exists>s2. postJournal s1 t q = Inr (s2, nextId s1)"
  proof (rule postJournal_ok [OF _ red])
    show "assertBalanced (inputLines q) = Inr ()"
      unfolding q(1) using swapped_signed [of ls] z by (simp add: assertBalanced_Inr)
    show "assertJournalDate s1 q = Inr ()" by (simp add: assertJournalDate_def q)
    show "\<not> reversalTaken s1 q" by (rule q(4))
    fix l assume "l \<in> set (swapped ls)"
    then show "\<exists>a. findAccount (accounts s1) (lnCode l) = Some a \<and> accActive a"
      using act by (auto simp: s1 findAccount_map_bump)
  qed
  then obtain s2 where s2: "postJournal s1 t q = Inr (s2, nextId s1)" ..
  from postJournal_effect [OF s1(2) s2] obtain ls2 m2 where
    r2: "redirectCash s1 q (inputLines q) = Inr ls2" and
    e2: "s2 = s1\<lparr>nextId := nextId s1 + 1, journals := journals s1 @ [newJournal (nextId s1) t q],
            ledgerEntries := ledgerEntries s1 @ map (entryOf m2 (nextId s1)) ls2,
            accounts := map (bump ls2) (accounts s1)\<rparr>" by metis
  have "ls2 = swapped ls" using red r2 by simp
  then have "accounts s2 = map (bump (swapped ls)) (map (bump ls) (accounts s))"
    by (simp add: e2 s1)
  also have "\<dots> = accounts s" by (simp add: comp_def bump_swapped)
  finally show ?thesis using s2 by blast
qed

theorem reverse_after_post:
  assumes wf: "wf_ledger s" and post: "postJournal s t p = Inr (s1, j)"
    and plain: "jiReversalOf p = None"
  shows "\<exists>s2 k. reverseJournal s1 t' j opts = Inr (s2, k) \<and> accounts s2 = accounts s"
proof -
  from postJournal_effect [OF wf post] obtain ls m where
    z: "sum_list (map signedRial ls) = 0" "sum_list (map signedGrams ls) = 0" and
    sn: "snapshot m (accounts s) ls" and
    act: "\<forall>l \<in> set ls. \<exists>a. findAccount (accounts s) (lnCode l) = Some a \<and> accActive a" and
    j: "j = nextId s" and
    s1: "s1 = s\<lparr>nextId := nextId s + 1, journals := journals s @ [newJournal (nextId s) t p],
            ledgerEntries := ledgerEntries s @ map (entryOf m (nextId s)) ls,
            accounts := map (bump ls) (accounts s)\<rparr>" by metis
  let ?original = "newJournal (nextId s) t p"
  let ?q = "reversalInput s1 ?original opts"
  have unreversed: "\<not> list_ex (\<lambda>x. jReversalOf x = Some (nextId s)) (journals s1)"
    using fresh_journal [OF wf] plain by (auto simp: s1 list_ex_iff)
  have "reverseJournal s1 t' j opts = postJournal s1 t' ?q"
    using posted_journal_found [OF wf, of s1 t p] unreversed plain
    unfolding reverseJournal_def j by (simp add: s1)
  moreover have "\<exists>s2 k. postJournal s1 t' ?q = Inr (s2, k) \<and> accounts s2 = accounts s"
  proof (rule postJournal_swapped [OF wf _ postJournal_wf [OF wf post] z act])
    show "accounts s1 = map (bump ls) (accounts s)" by (simp add: s1)
    show "inputLines ?q = swapped ls" by (rule reversalInput_lines [OF wf sn, where ks = ls]) (simp_all add: s1)
    show "jiReversalOf ?q = Some (nextId s)" "jiEntryDate ?q = None"
      by (simp_all add: reversalInput_def)
    show "\<not> reversalTaken s1 ?q"
      using unreversed by (simp add: reversalTaken_def reversalInput_def) (simp add: s1)
  qed
  ultimately show ?thesis by simp
qed


lemma reverseJournal_post:
  assumes "reverseJournal s t j opts = Inr (s', k)"
  obtains original where
    "find (\<lambda>x. jId x = j) (journals s) = Some original" "jId original = j"
    "jReversalOf original = None"
    "\<forall>x \<in> set (journals s). jReversalOf x \<noteq> Some j"
    "postJournal s t (reversalInput s original opts) = Inr (s', k)"
proof -
  from assms obtain original where o: "find (\<lambda>x. jId x = j) (journals s) = Some original"
    "jReversalOf original = None" "\<not> list_ex (\<lambda>x. jReversalOf x = Some (jId original)) (journals s)"
    "postJournal s t (reversalInput s original opts) = Inr (s', k)"
    unfolding reverseJournal_def by (auto split: option.splits if_splits)
  moreover have "jId original = j" using find_SomeD [OF o(1)] by simp
  ultimately show thesis using that by (auto simp: list_ex_iff)
qed

subsection \<open>Sequences of postings\<close>

datatype ledger_op = Post int journal_input | Reverse int nat reverse_opts

fun ledger_step :: "'a ledger_scheme \<Rightarrow> ledger_op \<Rightarrow> 'a ledger_scheme res" where
  "ledger_step s (Post t p) = (case postJournal s t p of Inl e \<Rightarrow> Inl e | Inr r \<Rightarrow> Inr (fst r))"
| "ledger_step s (Reverse t j opts) =
     (case reverseJournal s t j opts of Inl e \<Rightarrow> Inl e | Inr r \<Rightarrow> Inr (fst r))"

lemma ledger_step_post:
  assumes "ledger_step s x = Inr s'"
  obtains t p j where "postJournal s t p = Inr (s', j)"
proof (cases x)
  case (Post t p)
  then show ?thesis using assms that by (auto split: sum.splits)
next
  case (Reverse t j opts)
  then obtain k where "reverseJournal s t j opts = Inr (s', k)"
    using assms by (auto split: sum.splits)
  then show ?thesis using that by (auto elim: reverseJournal_post)
qed

definition books_ok :: "'a ledger_scheme \<Rightarrow> bool" where
  "books_ok s \<longleftrightarrow> wf_ledger s \<and> books_agree s"

interpretation ledger_run: conserving_service
    "ledger_step :: 'a ledger_scheme \<Rightarrow> ledger_op \<Rightarrow> 'a ledger_scheme res" books_ok
    "\<lambda>s. (trialRial s, trialGrams s)"
  by unfold_locales
     (auto simp: books_ok_def elim!: ledger_step_post
       dest: postJournal_wf postJournal_agree postJournal_trial)

text \<open>
  The interface the other services rely on: a posting keeps the ledger well formed and moves
  each account outside the cash tree by the lines of the document.
\<close>

locale ledger_api =
  fixes post :: "'l \<Rightarrow> int \<Rightarrow> journal_input \<Rightarrow> ('l \<times> nat) res"
    and ok :: "'l \<Rightarrow> bool"
    and rial :: "'l \<Rightarrow> string \<Rightarrow> int"
    and grams :: "'l \<Rightarrow> string \<Rightarrow> rat"
    and cash :: "string \<Rightarrow> bool"
  assumes post_ok: "ok s \<Longrightarrow> post s t p = Inr (s', j) \<Longrightarrow> ok s'"
    and post_rial: "ok s \<Longrightarrow> post s t p = Inr (s', j) \<Longrightarrow> \<not> cash c \<Longrightarrow>
                      rial s' c = rial s c + netRial c (inputLines p)"
    and post_grams: "ok s \<Longrightarrow> post s t p = Inr (s', j) \<Longrightarrow> \<not> cash c \<Longrightarrow>
                       grams s' c = grams s c + netGrams c (inputLines p)"
begin

lemma post_untouched:
  assumes "ok s" "post s t p = Inr (s', j)" "\<not> cash c" "c \<notin> liCode ` set (jiLines p)"
  shows "rial s' c = rial s c" and "grams s' c = grams s c"
proof -
  have "c \<notin> liCode ` set ls \<Longrightarrow> netRial c (map normalizeLine ls) = 0
          \<and> netGrams c (map normalizeLine ls) = 0" for ls
    by (induction ls) (auto simp: normalizeLine_def)
  then show "rial s' c = rial s c" "grams s' c = grams s c"
    using post_rial [OF assms(1-3)] post_grams [OF assms(1-3)] assms(4) by simp_all
qed

lemma post_twice:
  assumes "ok s" "post s t p = Inr (s1, j)" "post s1 t' q = Inr (s2, k)" "\<not> cash c"
  shows "rial s2 c = rial s c + netRial c (inputLines p @ inputLines q)"
    and "grams s2 c = grams s c + netGrams c (inputLines p @ inputLines q)"
  using post_rial [OF assms(1,2,4)] post_rial [OF post_ok [OF assms(1,2)] assms(3,4)]
    post_grams [OF assms(1,2,4)] post_grams [OF post_ok [OF assms(1,2)] assms(3,4)] by simp_all

end

interpretation books: ledger_api
    "postJournal :: 'a ledger_scheme \<Rightarrow> int \<Rightarrow> journal_input \<Rightarrow> ('a ledger_scheme \<times> nat) res"
    wf_ledger rialOf gramsOf "starts_with CASH_ROOT_CODE"
  by unfold_locales (rule postJournal_wf postJournal_balance; assumption)+

subsection \<open>Dated postings and the average cost\<close>

lemma postJournal_date_allowed:
  assumes "postJournal s t p = Inr r" and "jiEntryDate p = Some d"
    and "jiReversalOf p = None" and "jiSource p \<noteq> Some CLOSING"
  shows "assertPostingDateAllowed s d = Inr ()"
proof -
  obtain s' j where "postJournal s t p = Inr (s', j)" using assms(1) by (cases r) auto
  from postJournal_Inr [OF this] have "assertJournalDate s p = Inr ()" by metis
  then show ?thesis using assms by (simp add: assertJournalDate_def)
qed

lemma assertPostingDateAllowed_Inr:
  "assertPostingDateAllowed s d = Inr () \<longleftrightarrow>
     (\<forall>l. lockedUntil s = Some l \<longrightarrow> endOfUtcDay l < d) \<and>
     (fiscalYears s = [] \<or>
      (\<exists>y. find (\<lambda>y. fyStart y \<le> d \<and> d \<le> fyEnd y) (fiscalYears s) = Some y \<and>
           fyStatus y \<noteq> YEAR_CLOSED))"
  unfolding assertPostingDateAllowed_def by (auto split: option.splits)

lemma averageCostRial_bounds:
  assumes "\<And>x. 0 \<le> x \<Longrightarrow> 0 \<le> prec x"
  shows "0 \<le> averageCostRial prec s c g"
    and "averageCostRial prec s c g \<le> max 0 (rialOf s c)"
proof -
  have "0 \<le> round_half_up (prec (prec (of_int r / b) * g))" if "0 < r" "0 < b" "0 < g" for r b
    using that by (intro round_half_up_nonneg assms mult_nonneg_nonneg) auto
  then show "0 \<le> averageCostRial prec s c g" "averageCostRial prec s c g \<le> max 0 (rialOf s c)"
    unfolding averageCostRial_def rialOf_def Let_def by auto
qed

lemma averageCostRial_all:
  assumes "0 < gramsOf s c"
  shows "averageCostRial id s c (gramsOf s c) = max 0 (rialOf s c)"
  using assms unfolding averageCostRial_def rialOf_def gramsOf_def Let_def by auto

subsection \<open>The lines a reversal posts\<close>

definition reversalLines :: "'a ledger_scheme \<Rightarrow> nat \<Rightarrow> line list" where
  "reversalLines s j =
     map normalizeLine (map (reversedLine (accounts s))
       (filter (\<lambda>e. leJournal e = j) (ledgerEntries s)))"

lemma reversalLines_cong:
  "accounts s' = accounts s \<Longrightarrow> ledgerEntries s' = ledgerEntries s \<Longrightarrow>
   reversalLines s' j = reversalLines s j"
  by (simp add: reversalLines_def)

lemma reversedLine_bump: "reversedLine (map (bump ks) as) e = reversedLine as e"
  by (auto simp: reversedLine_def find_map_bump split: option.splits)

lemma reversalLines_old:
  assumes wf: "wf_ledger s" and post: "postJournal s t p = Inr (s', k)" and j: "j < nextId s"
  shows "reversalLines s' j = reversalLines s j"
proof -
  from postJournal_effect [OF wf post] obtain ls m where
    s': "s' = s\<lparr>nextId := nextId s + 1, journals := journals s @ [newJournal (nextId s) t p],
            ledgerEntries := ledgerEntries s @ map (entryOf m (nextId s)) ls,
            accounts := map (bump ls) (accounts s)\<rparr>" by metis
  show ?thesis using j by (simp add: s' reversalLines_def reversedLine_bump filter_empty_conv filter_map comp_def)
qed

lemma reversalLines_new:
  assumes wf: "wf_ledger s" and post: "postJournal s t p = Inr (s', j)"
    and c: "\<not> starts_with CASH_ROOT_CODE c"
  shows "netRial c (reversalLines s' j) = - netRial c (inputLines p)"
    and "netGrams c (reversalLines s' j) = - netGrams c (inputLines p)"
proof -
  from postJournal_effect [OF wf post] obtain ls m where
    r: "redirectCash s p (inputLines p) = Inr ls" and sn: "snapshot m (accounts s) ls" and
    j: "j = nextId s" and
    s': "s' = s\<lparr>nextId := nextId s + 1, journals := journals s @ [newJournal (nextId s) t p],
            ledgerEntries := ledgerEntries s @ map (entryOf m (nextId s)) ls,
            accounts := map (bump ls) (accounts s)\<rparr>" by metis
  have wa: "wf_accounts (accounts s)" using wf by (simp add: wf_ledger_def)
  have e: "filter (\<lambda>e. leJournal e = nextId s) (ledgerEntries s') = map (entryOf m (nextId s)) ls"
    by (rule posted_entries_found [OF wf]) (simp add: s')
  have "reversalLines s' j = swapped ls"
    using reversedLine_normal [OF wa sn] unfolding reversalLines_def j e by (simp add: s' comp_def)
  then show "netRial c (reversalLines s' j) = - netRial c (inputLines p)"
    "netGrams c (reversalLines s' j) = - netGrams c (inputLines p)"
    using redirectCash_net [OF r c] by (simp_all add: swapped_net)
qed

lemma reverseJournal_balance:
  assumes wf: "wf_ledger s" and rev: "reverseJournal s t j opts = Inr (s', k)"
    and c: "\<not> starts_with CASH_ROOT_CODE c"
  shows "rialOf s' c = rialOf s c + netRial c (reversalLines s j)"
    and "gramsOf s' c = gramsOf s c + netGrams c (reversalLines s j)"
proof -
  from reverseJournal_post [OF rev] obtain original where
    o: "jId original = j" and p: "postJournal s t (reversalInput s original opts) = Inr (s', k)"
    by metis
  have l: "inputLines (reversalInput s original opts) = reversalLines s j"
    by (simp add: reversalInput_def reversalLines_def o)
  show "rialOf s' c = rialOf s c + netRial c (reversalLines s j)"
    "gramsOf s' c = gramsOf s c + netGrams c (reversalLines s j)"
    using postJournal_balance [OF wf p c] unfolding l by simp_all
qed

subsection \<open>A small set of books\<close>

definition demoAccount :: "nat \<Rightarrow> string \<Rightarrow> account_type \<Rightarrow> int \<Rightarrow> rat \<Rightarrow> account" where
  "demoAccount i c ty r g =
     \<lparr>accId = i, accCode = c, accType = ty, accSubType = None, accParent = None,
      accSystem = True, accActive = True, accManual = True, accRial = r, accGrams = g\<rparr>"

definition demoBooks :: ledger where
  "demoBooks =
     \<lparr>nextId = 100,
      accounts = [demoAccount 1 ''1010'' ASSET 0 0, demoAccount 2 ''2010'' LIABILITY 0 0,
                  demoAccount 3 ''4010'' INCOME 0 0, demoAccount 4 ''1020'' ASSET 0 0],
      journals = [], ledgerEntries = [],
      fiscalYears = [\<lparr>fyStart = 1000, fyEnd = 1000000000, fyStatus = YEAR_OPEN\<rparr>],
      lockedUntil = Some 100, config = (\<lambda>_. None), configNum = (\<lambda>_. None)\<rparr>"

definition demoLine :: "string \<Rightarrow> side \<Rightarrow> int \<Rightarrow> line_input" where
  "demoLine c sd a = \<lparr>liCode = c, liSide = sd, liRial = Some a, liGrams = None, liDescription = None\<rparr>"

text \<open>A deposit of 1000 rials, of which 100 are a fee.\<close>

definition demoDocument :: journal_input where
  "demoDocument =
     \<lparr>jiDescription = ''deposit'', jiTotalRial = 1000, jiTotalGrams = 0,
      jiLines = [demoLine ''1010'' DEBIT 1000, demoLine ''2010'' CREDIT 900, demoLine ''4010'' CREDIT 100],
      jiSource = None, jiRefType = None, jiRefId = None, jiEntryDate = Some 100000000,
      jiCreatedBy = None, jiReversalOf = None, jiTransaction = None\<rparr>"

definition demoOpts :: reverse_opts where
  "demoOpts = \<lparr>roDescription = None, roCreatedBy = None, roRefType = None, roRefId = None\<rparr>"

lemma demoBooks_ok: "books_ok demoBooks"
  by (simp add: books_ok_def demoBooks_def wf_ledger_def wf_accounts_def books_agree_def demoAccount_def
      entriesRial_def entriesGrams_def)

lemma demoBooks_wf: "wf_ledger demoBooks"
  using demoBooks_ok by (simp add: books_ok_def)

lemma demo_posted: obtains s' j where "postJournal demoBooks 200000000 demoDocument = Inr (s', j)"
proof -
  have "(case postJournal demoBooks 200000000 demoDocument of Inl _ \<Rightarrow> False | Inr _ \<Rightarrow> True)" by code_simp
  then show thesis using that by (auto split: sum.splits)
qed

subsection \<open>Properties\<close>

text \<open>The ledger stays in balance. Whatever documents are posted and reversed, in any order
and with refused ones leaving no trace, debits equal credits over the whole chart of accounts (the
trial balance does not move) and the balance kept with every account is the signed total of its
ledger entries.\<close>

theorem ledger_stays_balanced:
  assumes "books_ok s"
  shows "books_ok (run ledger_step s ops) \<and>
    trialRial (run ledger_step s ops) = trialRial s \<and> trialGrams (run ledger_step s ops) = trialGrams s"
  using ledger_run.run_inv [OF assms] ledger_run.run_quantity [OF assms] by simp

lemma ledger_stays_balanced_witness:
  "trialRial (run ledger_step demoBooks [Post 200000000 demoDocument, Reverse 300000000 100 demoOpts]) =
   trialRial demoBooks"
  using ledger_stays_balanced [OF demoBooks_ok] by blast

text \<open>A document is posted only if its debits equal its credits in rial and in grams. It then
adds one journal and its entries and moves every account outside the cash tree by exactly its
lines, with the sign of the account's nature; an unbalanced document is refused as an internal
error whatever else it holds.\<close>

theorem posting_effect:
  assumes "wf_ledger s" and "postJournal s t p = Inr (s', j)"
  shows "sum_list (map signedRial (inputLines p)) = 0 \<and> sum_list (map signedGrams (inputLines p)) = 0 \<and>
    (\<exists>x es. journals s' = journals s @ [x] \<and> jId x = j \<and> j \<notin> jId ` set (journals s) \<and>
       ledgerEntries s' = ledgerEntries s @ es \<and> length es = length (jiLines p) \<and>
       (\<forall>e \<in> set es. leJournal e = j)) \<and>
    (\<forall>c. \<not> starts_with CASH_ROOT_CODE c \<longrightarrow>
       rialOf s' c = rialOf s c + netRial c (inputLines p) \<and>
       gramsOf s' c = gramsOf s c + netGrams c (inputLines p))"
proof -
  from postJournal_Inr [OF assms(2)] obtain ls m where
    b: "assertBalanced (inputLines p) = Inr ()" and r: "redirectCash s p (inputLines p) = Inr ls" and
    j: "j = nextId s" and
    s': "s' = s\<lparr>nextId := nextId s + 1, journals := journals s @ [newJournal (nextId s) t p],
            ledgerEntries := ledgerEntries s @ map (entryOf m (nextId s)) ls,
            accounts := foldl (applyLine m) (accounts s) ls\<rparr>" by metis
  have "length ls = length (jiLines p)" using redirectCash_Inr [OF r] by auto
  moreover have "j \<notin> jId ` set (journals s)" unfolding j using fresh_journal [OF assms(1)] by (metis imageE)
  moreover have "journals s' = journals s @ [newJournal (nextId s) t p]"
    "ledgerEntries s' = ledgerEntries s @ map (entryOf m (nextId s)) ls" by (simp_all add: s')
  ultimately show ?thesis
    using b postJournal_balance [OF assms] j unfolding assertBalanced_Inr by fastforce
qed

lemma posting_effect_witness:
  "\<exists>s' j. postJournal demoBooks 200000000 demoDocument = Inr (s', j) \<and>
     rialOf s' ''2010'' = rialOf demoBooks ''2010'' + netRial ''2010'' (inputLines demoDocument)"
proof -
  obtain s' j where p: "postJournal demoBooks 200000000 demoDocument = Inr (s', j)" by (rule demo_posted)
  have "\<not> starts_with CASH_ROOT_CODE ''2010''" by (simp add: CASH_ROOT_CODE_def)
  then show ?thesis using posting_effect [OF demoBooks_wf p] p by blast
qed

text \<open>A document whose debits and credits differ, in rial or in grams, is never posted.\<close>

theorem unbalanced_refused:
  assumes "sum_list (map signedRial (inputLines p)) \<noteq> 0 \<or> sum_list (map signedGrams (inputLines p)) \<noteq> 0"
  shows "postJournal s t p = Inl (Internal ''journal posting failed'')"
  using assms assertBalanced_cases [of "inputLines p"]
  by (auto simp: postJournal_def Let_def assertBalanced_Inr)

lemma unbalanced_refused_witness:
  "postJournal demoBooks 0 (demoDocument\<lparr>jiLines := [demoLine ''1010'' DEBIT 5]\<rparr>)
     = Inl (Internal ''journal posting failed'')"
  by (rule unbalanced_refused)
     (simp add: demoLine_def normalizeLine_def signedRial_def toDecimal_def)

text \<open>Reversing a posted document always succeeds and gives every account the balance it had
before the document; the document cannot be reversed again, nor can its reversal.\<close>

theorem reversal_restores:
  assumes "wf_ledger s" and "postJournal s t p = Inr (s1, j)" and "jiReversalOf p = None"
  shows "\<exists>s2 k. reverseJournal s1 t' j opts = Inr (s2, k) \<and> accounts s2 = accounts s \<and>
    reverseJournal s2 t'' j opts' = Inl (Conflict ''journal already reversed'') \<and>
    reverseJournal s2 t'' k opts' = Inl (Conflict ''a reversal cannot be reversed'')"
proof -
  from reverse_after_post [OF assms] obtain s2 k where
    r: "reverseJournal s1 t' j opts = Inr (s2, k)" "accounts s2 = accounts s" by blast
  have wf1: "wf_ledger s1" using postJournal_wf [OF assms(1,2)] .
  from reverseJournal_post [OF r(1)] obtain original where
    o: "find (\<lambda>x. jId x = j) (journals s1) = Some original" "jId original = j"
    and post: "postJournal s1 t' (reversalInput s1 original opts) = Inr (s2, k)" by metis
  from postJournal_frame [OF post] postJournal_Inr [OF post] obtain as es where
    k: "k = nextId s1" and
    s2: "s2 = s1\<lparr>nextId := nextId s1 + 1, journals := journals s1 @
         [newJournal (nextId s1) t' (reversalInput s1 original opts)],
         ledgerEntries := es, accounts := as\<rparr>" by metis
  have js: "journals s2 = journals s1 @ [newJournal (nextId s1) t' (reversalInput s1 original opts)]"
    by (simp add: s2)
  have rv: "jReversalOf (newJournal (nextId s1) t' (reversalInput s1 original opts)) = Some j"
    by (simp add: reversalInput_def o(2))
  have "reverseJournal s2 t'' j opts' = Inl (Conflict ''journal already reversed'')"
    using o rv by (simp add: reverseJournal_def js find_append)
  moreover have "reverseJournal s2 t'' k opts' = Inl (Conflict ''a reversal cannot be reversed'')"
  proof -
    have "find (\<lambda>x. jId x = k) (journals s1) = None"
      using fresh_journal [OF wf1] k by (auto simp: find_None_iff)
    moreover have "\<not> list_ex (\<lambda>x. jReversalOf x = Some k) (journals s2)"
    proof -
      have "k \<noteq> j" using fresh_journal [OF wf1, of original] find_SomeD [OF o(1)] k by auto
      then show ?thesis using fresh_journal [OF wf1] k rv by (auto simp: js list_ex_iff)
    qed
    ultimately show ?thesis using rv k by (simp add: reverseJournal_def js find_append)
  qed
  ultimately show ?thesis using r by blast
qed

lemma reversal_restores_witness:
  "\<exists>s1 j s2 k. postJournal demoBooks 200000000 demoDocument = Inr (s1, j) \<and>
     reverseJournal s1 300000000 j demoOpts = Inr (s2, k) \<and> accounts s2 = accounts demoBooks"
proof -
  obtain s1 j where p: "postJournal demoBooks 200000000 demoDocument = Inr (s1, j)" by (rule demo_posted)
  have "jiReversalOf demoDocument = None" by (simp add: demoDocument_def)
  from reversal_restores [OF demoBooks_wf p this] p show ?thesis by blast
qed

text \<open>Nothing is written into a closed period: an ordinary document with an explicit date is
posted only after the day the books are locked until, and, once fiscal years are defined, only
into a year that holds the date and is open.\<close>

theorem closed_periods_protected:
  assumes "postJournal s t p = Inr (s', j)" and "jiEntryDate p = Some d"
    and "jiReversalOf p = None" and "jiSource p \<noteq> Some CLOSING"
  shows "(\<forall>l. lockedUntil s = Some l \<longrightarrow> endOfUtcDay l < d) \<and>
    (fiscalYears s \<noteq> [] \<longrightarrow>
       (\<exists>y \<in> set (fiscalYears s). fyStart y \<le> d \<and> d \<le> fyEnd y \<and> fyStatus y = YEAR_OPEN))"
proof -
  have "assertPostingDateAllowed s d = Inr ()" using postJournal_date_allowed [OF assms] .
  moreover have "fyStatus y \<noteq> YEAR_CLOSED \<longleftrightarrow> fyStatus y = YEAR_OPEN" for y :: fiscal_year
    by (cases "fyStatus y") auto
  ultimately show ?thesis unfolding assertPostingDateAllowed_Inr by (auto dest: find_SomeD)
qed

lemma closed_periods_protected_witness:
  "\<exists>s' j. postJournal demoBooks 200000000 demoDocument = Inr (s', j) \<and>
     (\<exists>y \<in> set (fiscalYears demoBooks). fyStart y \<le> 100000000 \<and> 100000000 \<le> fyEnd y \<and> fyStatus y = YEAR_OPEN)"
proof -
  obtain s' j where p: "postJournal demoBooks 200000000 demoDocument = Inr (s', j)" by (rule demo_posted)
  have "fiscalYears demoBooks \<noteq> []" by (simp add: demoBooks_def)
  then show ?thesis
    using closed_periods_protected [OF p, of 100000000] p by (auto simp: demoDocument_def)
qed

text \<open>The operating bank account is always found and is always a cash account: without an
explicit choice the resolution never fails; a choice is taken as it is, and only when it is an
active account under 1010 without active sub-accounts.\<close>

theorem bank_account_resolution:
  "(\<exists>c. resolveBankAccount s None k = Inr c \<and> starts_with CASH_ROOT_CODE c) \<and>
   (resolveBankAccount s (Some e) k = Inr c \<and> trim e \<noteq> [] \<longleftrightarrow>
      trim e \<noteq> [] \<and> c = trim e \<and> bankCodeFormat c \<and> isLeaf (cashAccounts s) c)"
proof
  show "\<exists>c. resolveBankAccount s None k = Inr c \<and> starts_with CASH_ROOT_CODE c"
    using resolveBankAccount_default [of s k] resolveBankAccount_cash [of s None k] by blast
  show "resolveBankAccount s (Some e) k = Inr c \<and> trim e \<noteq> [] \<longleftrightarrow>
      trim e \<noteq> [] \<and> c = trim e \<and> bankCodeFormat c \<and> isLeaf (cashAccounts s) c"
    unfolding resolveBankAccount_def Let_def
    by (auto simp: isLeaf_def split: option.splits if_splits)
qed

text \<open>The cost of sold gold by weighted average never exceeds the book value of the account,
is never negative, and taking out the whole quantity takes out the whole book value. The rounding
of the decimal library is any function that keeps non-negative numbers non-negative, exact
arithmetic in the last claim.\<close>

theorem average_cost_bounds:
  assumes "\<forall>x. 0 \<le> x \<longrightarrow> 0 \<le> prec x"
  shows "0 \<le> averageCostRial prec s c g \<and> averageCostRial prec s c g \<le> max 0 (rialOf s c) \<and>
    (0 < gramsOf s c \<longrightarrow> averageCostRial id s c (gramsOf s c) = max 0 (rialOf s c))"
  using averageCostRial_bounds [of prec s c g] averageCostRial_all [of s c] assms by blast

lemma average_cost_bounds_witness:
  "0 \<le> averageCostRial id (demoBooks\<lparr>accounts := [demoAccount 4 ''1020'' ASSET 1000 3]\<rparr>) ''1020'' 1 \<and>
   averageCostRial id (demoBooks\<lparr>accounts := [demoAccount 4 ''1020'' ASSET 1000 3]\<rparr>) ''1020'' 1 = 333"
proof -
  have "\<forall>x :: rat. 0 \<le> x \<longrightarrow> 0 \<le> id x" by simp
  from average_cost_bounds [OF this] show ?thesis
    by (simp add: averageCostRial_def findAccount_def demoAccount_def demoBooks_def toDecimal_def
        round_half_up_def)
qed

end
