(* ===== verification/Wallet.thy ===== *)
theory Wallet
  imports Accounting
begin

section \<open>The wallet of a user\<close>

text \<open>
  \<open>api/src/wallet/wallet.service.ts\<close> with the tables of \<open>api/prisma/schema.prisma\<close> it
  uses, and the document numbers of \<open>common/documents/document-sequence.service.ts\<close>:
  withdrawal requests that reserve the amount with a hold, their cancellation, internal gold
  transfers, and the daily and monthly limits. Row locks make each transaction atomic, so a
  call is one step from the state before to the state after. A write to a wallet is checked
  against the constraint \<open>wallets_balance_non_negative\<close> of the database. Notifications,
  free-text descriptions, the time stamps of reviews and cancellations, and the deposit settings
  shown to the user are not modelled.
\<close>

subsection \<open>Tables\<close>

datatype user_status = ACTIVE | INACTIVE | BANNED | PENDING_ACTIVATION

datatype identity_status = ID_PENDING | ID_VERIFIED | ID_REJECTED | ID_MANUAL_REVIEW

datatype hold_type = HOLD_ORDER | HOLD_WITHDRAWAL | HOLD_PHYSICAL_DELIVERY | HOLD_ORDER_GOLD

datatype transaction_type =
  BUY_GOLD | SELL_GOLD | BUY_SILVER | SELL_SILVER | TRANSFER_IN | TRANSFER_OUT | WITHDRAWAL | DEPOSIT | FEE | TAX
  | REFERRAL_REWARD | SALARY | PHYSICAL_DELIVERY | SHOP_PURCHASE | REFUND | MANUAL_ADJUSTMENT
  | INSTALLMENT_PURCHASE

datatype transaction_status = TX_PENDING | TX_COMPLETED | TX_FAILED

datatype withdrawal_status =
  WD_PENDING | WD_APPROVED | WD_REJECTED | WD_PROCESSED | WD_CANCELLED | WD_RETURNED

record user =
  uId :: nat
  uStatus :: user_status
  uIdentity :: "identity_status option"

record bank_account =
  baId :: nat
  baUser :: nat
  baVerified :: bool
  baBank :: string
  baCard :: string
  baSheba :: "string option"
  baNumber :: string

record wallet =
  wId :: nat
  wUser :: nat
  wCard :: string
  wRial :: int
  wGrams :: rat

record hold =
  hId :: nat
  hWallet :: nat
  hRial :: "int option"
  hGrams :: "rat option"
  hType :: hold_type
  hRef :: "nat option"
  hExpires :: int

record transaction =
  tId :: nat
  tUser :: nat
  tWallet :: nat
  tType :: transaction_type
  tStatus :: transaction_status
  tRial :: "int option"
  tGrams :: "rat option"
  tPrice :: "int option"
  tFee :: "int option"
  tTax :: "int option"
  tCreated :: int
  tRelated :: "nat option"
  tShopOrder :: "nat option"

record withdrawal =
  wdId :: nat
  wdUser :: nat
  wdBank :: nat
  wdRial :: int
  wdFee :: int
  wdNet :: "int option"
  wdNumber :: "string option"
  wdHold :: "nat option"
  wdTransaction :: "nat option"
  wdStatus :: withdrawal_status
  wdDestination :: bank_account
  wdReviewedBy :: "nat option"
  wdProcessedBy :: "nat option"
  wdPaidBy :: "nat option"
  wdPaidAt :: "int option"
  wdPayoutMethod :: "string option"
  wdBankReference :: "string option"
  wdBatch :: "string option"
  wdSource :: "string option"
  wdJournal :: "nat option"
  wdReturnJournal :: "nat option"
  wdReason :: "string option"
  wdNotes :: "string option"

datatype approval_status = AP_APPROVED | AP_REJECTED

record approval =
  apWithdrawal :: nat
  apApprover :: nat
  apStatus :: approval_status
  apStep :: "nat option"

record bank = ledger +
  users :: "user list"
  bankAccounts :: "bank_account list"
  wallets :: "wallet list"
  holds :: "hold list"
  transactions :: "transaction list"
  withdrawals :: "withdrawal list"
  approvals :: "approval list"
  sequences :: "string \<Rightarrow> nat"
  jalaliYear :: nat

subsection \<open>Document numbers\<close>

fun decimal :: "nat \<Rightarrow> string" where
  "decimal n = (if n < 10 then [char_of (48 + n)] else decimal (n div 10) @ [char_of (48 + n mod 10)])"

declare decimal.simps [simp del]

definition padStart :: "nat \<Rightarrow> char \<Rightarrow> string \<Rightarrow> string" where
  "padStart n c s = replicate (n - length s) c @ s"

definition documentNumber :: "nat \<Rightarrow> string \<Rightarrow> nat \<Rightarrow> string" where
  "documentNumber year prefix serial =
     ''AG-'' @ decimal year @ ''-'' @ prefix @ ''-'' @ padStart 6 (CHR ''0'') (decimal serial)"

text \<open>
  \<open>DocumentSequenceService.next\<close>: one serial per key \<open>prefix:year\<close>, starting at 1.
\<close>

definition sequenceNext :: "'a bank_scheme \<Rightarrow> string \<Rightarrow> 'a bank_scheme \<times> string" where
  "sequenceNext s prefix =
     (let key = prefix @ '':'' @ decimal (jalaliYear s);
          serial = sequences s key + 1 in
      (s\<lparr>sequences := (sequences s)(key := serial)\<rparr>, documentNumber (jalaliYear s) prefix serial))"

subsection \<open>Queries and writes\<close>

definition walletOfUser :: "'a bank_scheme \<Rightarrow> nat \<Rightarrow> wallet option" where
  "walletOfUser s u = find (\<lambda>w. wUser w = u) (wallets s)"

definition walletById :: "'a bank_scheme \<Rightarrow> nat \<Rightarrow> wallet option" where
  "walletById s i = find (\<lambda>w. wId w = i) (wallets s)"

definition activeHold :: "int \<Rightarrow> nat \<Rightarrow> hold \<Rightarrow> bool" where
  "activeHold t wid h \<longleftrightarrow> hWallet h = wid \<and> t < hExpires h"

definition heldRial :: "'a bank_scheme \<Rightarrow> int \<Rightarrow> nat \<Rightarrow> int" where
  "heldRial s t wid = sum_where (activeHold t wid) (\<lambda>h. toDecimal (hRial h)) (holds s)"

definition heldGrams :: "'a bank_scheme \<Rightarrow> int \<Rightarrow> nat \<Rightarrow> rat" where
  "heldGrams s t wid = sum_where (activeHold t wid) (\<lambda>h. toDecimal (hGrams h)) (holds s)"

text \<open>
  An increment of a wallet row, under the constraint that neither balance is negative.
\<close>

definition walletAdd :: "'a bank_scheme \<Rightarrow> nat \<Rightarrow> int \<Rightarrow> rat \<Rightarrow> 'a bank_scheme res" where
  "walletAdd s wid dr dg =
     (case walletById s wid of
        None \<Rightarrow> Inl (DbConstraint ''record not found'')
      | Some w \<Rightarrow>
          if wRial w + dr < 0 \<or> numeric4 (wGrams w + dg) < 0
          then Inl (DbConstraint ''wallets_balance_non_negative'')
          else Inr (s\<lparr>wallets := update_where (\<lambda>w. wId w = wid)
                      (\<lambda>w. w\<lparr>wRial := wRial w + dr, wGrams := numeric4 (wGrams w + dg)\<rparr>) (wallets s)\<rparr>))"

definition setTransaction :: "'a bank_scheme \<Rightarrow> nat option \<Rightarrow> transaction_status \<Rightarrow> 'a bank_scheme" where
  "setTransaction s i st =
     (case i of
        None \<Rightarrow> s
      | Some t \<Rightarrow> s\<lparr>transactions := update_where (\<lambda>x. tId x = t) (\<lambda>x. x\<lparr>tStatus := st\<rparr>) (transactions s)\<rparr>)"

definition dropHold :: "'a bank_scheme \<Rightarrow> nat option \<Rightarrow> 'a bank_scheme" where
  "dropHold s i =
     (case i of
        None \<Rightarrow> s
      | Some h \<Rightarrow> s\<lparr>holds := delete_where (\<lambda>x. hId x = h) (holds s)\<rparr>)"

definition setWithdrawal :: "'a bank_scheme \<Rightarrow> nat \<Rightarrow> (withdrawal \<Rightarrow> withdrawal) \<Rightarrow> 'a bank_scheme" where
  "setWithdrawal s i f =
     s\<lparr>withdrawals := update_where (\<lambda>w. wdId w = i) f (withdrawals s)\<rparr>"

definition withdrawalById :: "'a bank_scheme \<Rightarrow> nat \<Rightarrow> withdrawal option" where
  "withdrawalById s i = find (\<lambda>w. wdId w = i) (withdrawals s)"

text \<open>The total of a user's transactions of a type and status since an instant.\<close>

definition usedRial ::
  "'a bank_scheme \<Rightarrow> nat \<Rightarrow> transaction_type \<Rightarrow> transaction_status set \<Rightarrow> int \<Rightarrow> int" where
  "usedRial s u ty sts since =
     sum_where (\<lambda>x. tUser x = u \<and> tType x = ty \<and> tStatus x \<in> sts \<and> since \<le> tCreated x)
       (\<lambda>x. toDecimal (tRial x)) (transactions s)"

definition usedGrams ::
  "'a bank_scheme \<Rightarrow> nat \<Rightarrow> transaction_type \<Rightarrow> transaction_status set \<Rightarrow> int \<Rightarrow> rat" where
  "usedGrams s u ty sts since =
     sum_where (\<lambda>x. tUser x = u \<and> tType x = ty \<and> tStatus x \<in> sts \<and> since \<le> tCreated x)
       (\<lambda>x. toDecimal (tGrams x)) (transactions s)"

definition checkUserIdentity :: "'a bank_scheme \<Rightarrow> nat \<Rightarrow> unit res" where
  "checkUserIdentity s u =
     (case find (\<lambda>x. uId x = u) (users s) of
        None \<Rightarrow> Inl (NotFound ''user'')
      | Some x \<Rightarrow>
          if uIdentity x \<noteq> Some ID_VERIFIED then Inl (Forbidden ''identity not verified'')
          else Inr ())"

subsection \<open>Withdrawal requests\<close>

definition calcWithdrawalFee :: "'a bank_scheme \<Rightarrow> int \<Rightarrow> int" where
  "calcWithdrawalFee s amount =
     (let percent = getNumber s ''withdrawal.fee_percent'' 0;
          fixed = getNumber s ''withdrawal.fee_fixed_rial'' 0;
          mx = getNumber s ''withdrawal.fee_max_rial'' 0;
          fee = of_int (js_round (of_int amount * max 0 percent / 100)) + max 0 fixed;
          fee' = (if 0 < mx then min fee mx else fee) in
      max 0 (js_round fee'))"

definition assertWithinWithdrawalLimits ::
  "'a bank_scheme \<Rightarrow> clock \<Rightarrow> nat \<Rightarrow> int \<Rightarrow> rat \<Rightarrow> rat \<Rightarrow> unit res" where
  "assertWithinWithdrawalLimits s c u amount daily monthly =
     (let used = usedRial s u WITHDRAWAL {TX_PENDING, TX_COMPLETED} in
      if daily < of_int (used (today c) + amount)
      then Inl (BadRequest ''daily withdrawal limit'')
      else if monthly < of_int (used (firstOfMonth c) + amount)
      then Inl (BadRequest ''monthly withdrawal limit'')
      else Inr ())"

definition getActiveHoldRial :: "'a bank_scheme \<Rightarrow> clock \<Rightarrow> nat \<Rightarrow> int" where
  "getActiveHoldRial s c wid = heldRial s (now c) wid"

text \<open>
  The writes of a request, with the wallet \<open>w\<close>, the bank account \<open>b\<close> and the fee computed
  before: the hold (which expires after ten years), the request, its pending transaction.
\<close>

definition createWithdrawal ::
  "'a bank_scheme \<Rightarrow> clock \<Rightarrow> nat \<Rightarrow> bank_account \<Rightarrow> wallet \<Rightarrow> int \<Rightarrow> int \<Rightarrow> 'a bank_scheme \<times> nat" where
  "createWithdrawal s c u b w amount fee =
     (let hid = nextId s; wid = hid + 1; tid = hid + 2;
          (s', num) = sequenceNext s ''WDR'' in
      (s'\<lparr>nextId := hid + 3,
          holds := holds s @
            [\<lparr>hId = hid, hWallet = wId w, hRial = Some amount, hGrams = None,
              hType = HOLD_WITHDRAWAL, hRef = None,
              hExpires = now c + 3650 * day_ms\<rparr>],
          withdrawals := withdrawals s @
            [\<lparr>wdId = wid, wdUser = u, wdBank = baId b, wdRial = amount, wdFee = fee,
              wdNet = Some (amount - fee), wdNumber = Some num, wdHold = Some hid,
              wdTransaction = Some tid, wdStatus = WD_PENDING, wdDestination = b,
              wdReviewedBy = None, wdProcessedBy = None, wdPaidBy = None, wdPaidAt = None, wdPayoutMethod = None,
              wdBankReference = None, wdBatch = None, wdSource = None, wdJournal = None,
              wdReturnJournal = None, wdReason = None, wdNotes = None\<rparr>],
          transactions := transactions s @
            [\<lparr>tId = tid, tUser = u, tWallet = wId w, tType = WITHDRAWAL, tStatus = TX_PENDING,
              tRial = Some amount, tGrams = None, tPrice = None,
              tFee = (if fee = 0 then None else Some fee), tTax = None,
              tCreated = now c, tRelated = None, tShopOrder = None\<rparr>]\<rparr>, wid))"

definition requestWithdrawal ::
  "'a bank_scheme \<Rightarrow> clock \<Rightarrow> nat \<Rightarrow> nat \<Rightarrow> int \<Rightarrow> ('a bank_scheme \<times> nat) res" where
  "requestWithdrawal s c u bankId amount =
     (case checkUserIdentity s u of Inl e \<Rightarrow> Inl e | Inr _ \<Rightarrow>
      (let minAmount = getNumber s ''withdrawal.min_amount'' 100000;
           maxAmount = getNumber s ''withdrawal.max_amount'' 2000000000;
           dailyLimit = getNumber s ''withdrawal.daily_limit'' 2000000000;
           monthlyLimit = getNumber s ''withdrawal.monthly_limit'' 5000000000 in
       if of_int amount < minAmount then Inl (BadRequest ''below the minimum'')
       else if maxAmount < of_int amount then Inl (BadRequest ''above the maximum'')
       else
       (case find (\<lambda>b. baId b = bankId \<and> baUser b = u \<and> baVerified b) (bankAccounts s) of
          None \<Rightarrow> Inl (NotFound ''verified bank account'')
        | Some b \<Rightarrow>
            (let fee = calcWithdrawalFee s amount in
             if amount \<le> fee then Inl (BadRequest ''amount must exceed the fee'')
             else
             (case walletOfUser s u of
                None \<Rightarrow> Inl (NotFound ''wallet'')
              | Some w \<Rightarrow>
                  (case assertWithinWithdrawalLimits s c u amount dailyLimit monthlyLimit of
                     Inl e \<Rightarrow> Inl e
                   | Inr _ \<Rightarrow>
                       if wRial w - getActiveHoldRial s c (wId w) < amount
                       then Inl (BadRequest ''insufficient balance'')
                       else Inr (createWithdrawal s c u b w amount fee)))))))"

definition cancelMyWithdrawal :: "'a bank_scheme \<Rightarrow> nat \<Rightarrow> nat \<Rightarrow> 'a bank_scheme res" where
  "cancelMyWithdrawal s u withdrawalId =
     (case find (\<lambda>w. wdId w = withdrawalId \<and> wdUser w = u) (withdrawals s) of
        None \<Rightarrow> Inl (NotFound ''withdrawal'')
      | Some w \<Rightarrow>
          if wdStatus w = WD_CANCELLED then Inr s
          else if wdStatus w \<noteq> WD_PENDING
          then Inl (BadRequest ''only pending requests can be cancelled'')
          else
            Inr (setWithdrawal (setTransaction (dropHold s (wdHold w)) (wdTransaction w) TX_FAILED)
                  (wdId w) (\<lambda>x. x\<lparr>wdStatus := WD_CANCELLED\<rparr>)))"

subsection \<open>Internal gold transfers\<close>

definition assertWithinTransferLimit ::
  "'a bank_scheme \<Rightarrow> nat \<Rightarrow> rat \<Rightarrow> rat \<Rightarrow> int \<Rightarrow> unit res" where
  "assertWithinTransferLimit s u amount limit since =
     (if limit \<le> 0 then Inr ()
      else if limit < usedGrams s u TRANSFER_OUT {TX_COMPLETED} since + amount
      then Inl (BadRequest ''transfer limit'') else Inr ())"

definition newTransfer ::
  "nat \<Rightarrow> clock \<Rightarrow> wallet \<Rightarrow> transaction_type \<Rightarrow> rat \<Rightarrow> nat \<Rightarrow> transaction" where
  "newTransfer i c w ty grams related =
     \<lparr>tId = i, tUser = wUser w, tWallet = wId w, tType = ty, tStatus = TX_COMPLETED,
      tRial = None, tGrams = Some (numeric4 grams), tPrice = None, tFee = None, tTax = None,
      tCreated = now c, tRelated = Some related, tShopOrder = None\<rparr>"

definition internalTransfer ::
  "'a bank_scheme \<Rightarrow> clock \<Rightarrow> nat \<Rightarrow> string \<Rightarrow> rat \<Rightarrow> 'a bank_scheme res" where
  "internalTransfer s c u cardNo grams =
     (case checkUserIdentity s u of Inl e \<Rightarrow> Inl e | Inr _ \<Rightarrow>
      if grams \<le> 0 then Inl (BadRequest ''amount must be positive'')
      else
      (case walletOfUser s u of None \<Rightarrow> Inl (NotFound ''wallet'') | Some sender \<Rightarrow>
       if wCard sender = cardNo then Inl (BadRequest ''transfer to the own wallet'')
       else
       (case find (\<lambda>w. wCard w = cardNo) (wallets s) of
          None \<Rightarrow> Inl (NotFound ''destination wallet'')
        | Some dest \<Rightarrow>
            (case find (\<lambda>x. uId x = wUser dest) (users s) of
               None \<Rightarrow> Inl (BadRequest ''recipient not eligible'')
             | Some r \<Rightarrow>
                 if uStatus r \<noteq> ACTIVE \<or> uIdentity r \<noteq> Some ID_VERIFIED
                 then Inl (BadRequest ''recipient not eligible'')
                 else
                 (case assertWithinTransferLimit s u grams
                         (getNumber s ''transfer.daily_limit_grams'' 5) (today c) of
                    Inl e \<Rightarrow> Inl e | Inr _ \<Rightarrow>
                 (case assertWithinTransferLimit s u grams
                         (getNumber s ''transfer.monthly_limit_grams'' 20) (firstOfMonth c) of
                    Inl e \<Rightarrow> Inl e | Inr _ \<Rightarrow>
                  if wGrams sender - heldGrams s (now c) (wId sender) < grams
                  then Inl (BadRequest ''insufficient gold'')
                  else
                  (case walletAdd s (wId sender) 0 (- grams) of Inl e \<Rightarrow> Inl e | Inr s1 \<Rightarrow>
                  (case walletAdd s1 (wId dest) 0 grams of Inl e \<Rightarrow> Inl e | Inr s2 \<Rightarrow>
                     (let out = nextId s; inn = out + 1 in
                      Inr (s2\<lparr>nextId := out + 2,
                              transactions := transactions s2 @
                                [newTransfer out c sender TRANSFER_OUT grams inn,
                                 newTransfer inn c dest TRANSFER_IN grams out]\<rparr>))))))))))"

subsection \<open>Views\<close>

record wallet_view =
  wvHoldRial :: int
  wvHoldGrams :: rat
  wvAvailableRial :: int
  wvAvailableGrams :: rat
  wvTodayDeposit :: int
  wvMonthWithdrawal :: int

definition getWallet :: "'a bank_scheme \<Rightarrow> clock \<Rightarrow> nat \<Rightarrow> wallet_view res" where
  "getWallet s c u =
     (case walletOfUser s u of
        None \<Rightarrow> Inl (NotFound ''wallet'')
      | Some w \<Rightarrow>
          (let hr = heldRial s (now c) (wId w); hg = heldGrams s (now c) (wId w) in
           Inr \<lparr>wvHoldRial = hr, wvHoldGrams = hg,
                wvAvailableRial = wRial w - hr, wvAvailableGrams = wGrams w - hg,
                wvTodayDeposit = usedRial s u DEPOSIT {TX_COMPLETED} (today c),
                wvMonthWithdrawal =
                  usedRial s u WITHDRAWAL {TX_PENDING, TX_COMPLETED} (firstOfMonth c)\<rparr>))"

definition remainingTransfer :: "rat \<Rightarrow> rat \<Rightarrow> rat" where
  "remainingTransfer limit used = (if limit \<le> 0 then 9007199254740991 else max 0 (limit - used))"

text \<open>Remaining daily and monthly gold transfer of a user.\<close>

definition getTransferConfig :: "'a bank_scheme \<Rightarrow> clock \<Rightarrow> nat \<Rightarrow> rat \<times> rat" where
  "getTransferConfig s c u =
     (remainingTransfer (getNumber s ''transfer.daily_limit_grams'' 5)
        (usedGrams s u TRANSFER_OUT {TX_COMPLETED} (today c)),
      remainingTransfer (getNumber s ''transfer.monthly_limit_grams'' 20)
        (usedGrams s u TRANSFER_OUT {TX_COMPLETED} (firstOfMonth c)))"

text \<open>Remaining daily and monthly withdrawal of a user.\<close>

definition getWithdrawalConfig :: "'a bank_scheme \<Rightarrow> clock \<Rightarrow> nat \<Rightarrow> rat \<times> rat" where
  "getWithdrawalConfig s c u =
     (getNumber s ''withdrawal.daily_limit'' 2000000000 -
        of_int (usedRial s u WITHDRAWAL {TX_PENDING, TX_COMPLETED} (today c)),
      getNumber s ''withdrawal.monthly_limit'' 5000000000 -
        of_int (usedRial s u WITHDRAWAL {TX_PENDING, TX_COMPLETED} (firstOfMonth c)))"

definition maskCard :: "string \<Rightarrow> string" where
  "maskCard cardNo =
     (if length cardNo < 8 then cardNo
      else take 4 cardNo @ '' '' @ map (\<lambda>_. CHR ''*'') (take 4 (drop 4 cardNo)) @ '' '' @
           map (\<lambda>_. CHR ''*'') (take 4 (drop 8 cardNo)) @ '' '' @ drop (length cardNo - 4) cardNo)"

subsection \<open>What each write changes\<close>

lemma sequenceNext_frame [frame]:
  "fst (sequenceNext s p) = s\<lparr>sequences := (sequences s)(p @ '':'' @ decimal (jalaliYear s) :=
     sequences s (p @ '':'' @ decimal (jalaliYear s)) + 1)\<rparr>"
  by (simp add: sequenceNext_def Let_def)

lemma setTransaction_frame [simp]:
  "nextId (setTransaction s i st) = nextId s" "accounts (setTransaction s i st) = accounts s"
  "journals (setTransaction s i st) = journals s"
  "ledgerEntries (setTransaction s i st) = ledgerEntries s"
  "wallets (setTransaction s i st) = wallets s" "holds (setTransaction s i st) = holds s"
  "withdrawals (setTransaction s i st) = withdrawals s"
  by (simp_all add: setTransaction_def split: option.splits)

lemma dropHold_frame [simp]:
  "nextId (dropHold s i) = nextId s" "accounts (dropHold s i) = accounts s"
  "journals (dropHold s i) = journals s" "ledgerEntries (dropHold s i) = ledgerEntries s"
  "wallets (dropHold s i) = wallets s" "transactions (dropHold s i) = transactions s"
  "withdrawals (dropHold s i) = withdrawals s"
  by (simp_all add: dropHold_def split: option.splits)

lemma holds_dropHold:
  "holds (dropHold s i) = filter (\<lambda>h. Some (hId h) \<noteq> i) (holds s)"
  by (auto simp: dropHold_def delete_where_def intro!: filter_cong split: option.splits)

lemma setWithdrawal_frame [simp]:
  "nextId (setWithdrawal s i f) = nextId s" "accounts (setWithdrawal s i f) = accounts s"
  "journals (setWithdrawal s i f) = journals s" "ledgerEntries (setWithdrawal s i f) = ledgerEntries s"
  "wallets (setWithdrawal s i f) = wallets s" "holds (setWithdrawal s i f) = holds s"
  "transactions (setWithdrawal s i f) = transactions s"
  by (simp_all add: setWithdrawal_def)

lemma withdrawals_setWithdrawal:
  "withdrawals (setWithdrawal s i f) = update_where (\<lambda>w. wdId w = i) f (withdrawals s)"
  by (simp add: setWithdrawal_def)

lemma walletAdd_Inr:
  assumes "walletAdd s wid dr dg = Inr s'"
  obtains w where "walletById s wid = Some w" "0 \<le> wRial w + dr" "0 \<le> numeric4 (wGrams w + dg)"
    "s' = s\<lparr>wallets := update_where (\<lambda>w. wId w = wid)
            (\<lambda>w. w\<lparr>wRial := wRial w + dr, wGrams := numeric4 (wGrams w + dg)\<rparr>) (wallets s)\<rparr>"
proof (cases "walletById s wid")
  case None
  then show thesis using assms by (simp add: walletAdd_def)
next
  case (Some w)
  then show thesis using assms that [of w]
    by (auto simp: walletAdd_def not_less split: if_splits)
qed

lemma walletAdd_frame:
  assumes "walletAdd s wid dr dg = Inr s'"
  shows "nextId s' = nextId s" "accounts s' = accounts s" "journals s' = journals s"
    "ledgerEntries s' = ledgerEntries s" "holds s' = holds s" "transactions s' = transactions s"
    "withdrawals s' = withdrawals s"
  using assms by (auto elim!: walletAdd_Inr)

lemma postJournal_bank:
  fixes s :: "'a bank_scheme"
  assumes "postJournal s t p = Inr (s', j)"
  shows "wallets s' = wallets s" "holds s' = holds s" "transactions s' = transactions s"
    "withdrawals s' = withdrawals s" "nextId s' = nextId s + 1" "users s' = users s"
    "bankAccounts s' = bankAccounts s"
  using postJournal_frame [OF assms] by auto

subsection \<open>The invariant of the bank\<close>

definition wf_wallets :: "wallet list \<Rightarrow> bool" where
  "wf_wallets ws \<longleftrightarrow>
     distinct (map wId ws) \<and> distinct (map wUser ws) \<and>
     (\<forall>w \<in> set ws. 0 \<le> wRial w \<and> 0 \<le> wGrams w \<and> on_grid (wGrams w))"

definition isOpen :: "withdrawal \<Rightarrow> bool" where
  "isOpen w \<longleftrightarrow> wdStatus w = WD_PENDING \<or> wdStatus w = WD_APPROVED"

definition ownerId :: "wallet list \<Rightarrow> nat \<Rightarrow> nat option" where
  "ownerId ws u = map_option wId (find (\<lambda>w. wUser w = u) ws)"

text \<open>
  A request that is open has its hold on the wallet of its user, over its whole amount; a
  paid one with a journal names a document whose reversal gives account 2010 the amount back.
\<close>

definition linked :: "'a bank_scheme \<Rightarrow> withdrawal \<Rightarrow> bool" where
  "linked s w \<longleftrightarrow>
     wdId w < nextId s \<and> 0 < wdRial w \<and>
     (\<forall>h. wdHold w = Some h \<longrightarrow> h < nextId s) \<and>
     (\<forall>c. wdSource w = Some c \<longrightarrow> starts_with CASH_ROOT_CODE c) \<and>
     (isOpen w \<longrightarrow> (\<exists>h \<in> set (holds s). wdHold w = Some (hId h) \<and> hRial h = Some (wdRial w) \<and>
        hGrams h = None \<and> hType h = HOLD_WITHDRAWAL \<and>
        ownerId (wallets s) (wdUser w) = Some (hWallet h))) \<and>
     (wdStatus w = WD_PROCESSED \<longrightarrow> (\<forall>j. wdJournal w = Some j \<longrightarrow> j < nextId s \<and>
        netRial ''2010'' (reversalLines s j) = wdRial w \<and>
        netGrams ''2020'' (reversalLines s j) = 0))"

text \<open>\<open>wf_except X\<close> leaves out the requests of \<open>X\<close>: what holds while one of them changes.\<close>

definition wf_requests :: "nat \<Rightarrow> withdrawal list \<Rightarrow> bool" where
  "wf_requests n ws \<longleftrightarrow>
     distinct (map wdId ws) \<and>
     inj_on wdHold {w \<in> set ws. wdHold w \<noteq> None} \<and>
     (\<forall>w \<in> set ws. wdId w < n \<and> (\<forall>h. wdHold w = Some h \<longrightarrow> h < n))"

definition wf_holds :: "nat \<Rightarrow> hold list \<Rightarrow> bool" where
  "wf_holds n hs \<longleftrightarrow> distinct (map hId hs) \<and> (\<forall>h \<in> set hs. hId h < n)"

definition wf_except :: "nat set \<Rightarrow> 'a bank_scheme \<Rightarrow> bool" where
  "wf_except X s \<longleftrightarrow>
     wf_ledger s \<and> wf_wallets (wallets s) \<and> wf_holds (nextId s) (holds s) \<and>
     wf_requests (nextId s) (withdrawals s) \<and>
     (\<forall>w \<in> set (withdrawals s). wdId w \<notin> X \<longrightarrow> linked s w)"

definition wf_bank :: "'a bank_scheme \<Rightarrow> bool" where
  "wf_bank s \<longleftrightarrow> wf_except {} s"

lemma wf_except_mono: "wf_except X s \<Longrightarrow> X \<subseteq> Y \<Longrightarrow> wf_except Y s"
  unfolding wf_except_def by blast

lemma wf_bank_except: "wf_bank s \<Longrightarrow> wf_except X s"
  unfolding wf_bank_def by (rule wf_except_mono) auto

lemma wf_bank_ledger: "wf_bank s \<Longrightarrow> wf_ledger s"
  by (simp add: wf_bank_def wf_except_def)

lemma wf_except_ledger: "wf_except X s \<Longrightarrow> wf_ledger s"
  by (simp add: wf_except_def)

lemma wf_bank_linked: "wf_bank s \<Longrightarrow> w \<in> set (withdrawals s) \<Longrightarrow> linked s w"
  by (simp add: wf_bank_def wf_except_def)

lemma wf_bank_wallets: "wf_bank s \<Longrightarrow> wf_wallets (wallets s)"
  by (simp add: wf_bank_def wf_except_def)

lemma ownerId_update:
  assumes "\<And>w. wId (f w) = wId w" "\<And>w. wUser (f w) = wUser w"
  shows "ownerId (update_where p f ws) u = ownerId ws u"
  unfolding ownerId_def by (induction ws) (auto simp: assms)

lemma wf_wallets_update:
  assumes "wf_wallets ws" "find (\<lambda>w. wId w = i) ws = Some w"
    and "0 \<le> wRial w + dr" "0 \<le> numeric4 (wGrams w + dg)"
  shows "wf_wallets (update_where (\<lambda>w. wId w = i)
           (\<lambda>w. w\<lparr>wRial := wRial w + dr, wGrams := numeric4 (wGrams w + dg)\<rparr>) ws)"
proof -
  have "v = w" if "v \<in> set ws" "wId v = i" for v
    using find_unique [of wId ws v] assms(1,2) that by (simp add: wf_wallets_def)
  then show ?thesis using assms unfolding wf_wallets_def by (auto simp: set_update_where)
qed

lemma ledger_part:
  assumes "wf_ledger s" "accounts s' = accounts s" "journals s' = journals s"
    "ledgerEntries s' = ledgerEntries s" "nextId s \<le> nextId s'"
  shows "wf_ledger s'"
  using assms unfolding wf_ledger_def by (auto intro: less_le_trans)

lemma linked_keep:
  assumes l: "linked s w" and n: "nextId s \<le> nextId s'"
    and o: "\<And>u. ownerId (wallets s') u = ownerId (wallets s) u"
    and h: "\<And>h. h \<in> set (holds s) \<Longrightarrow> wdHold w = Some (hId h) \<Longrightarrow> hType h = HOLD_WITHDRAWAL \<Longrightarrow>
              h \<in> set (holds s')"
    and r: "\<And>j. j < nextId s \<Longrightarrow> reversalLines s' j = reversalLines s j"
  shows "linked s' w"
proof -
  have "\<exists>h \<in> set (holds s'). wdHold w = Some (hId h) \<and> hRial h = Some (wdRial w) \<and>
        hGrams h = None \<and> hType h = HOLD_WITHDRAWAL \<and>
        ownerId (wallets s') (wdUser w) = Some (hWallet h)" if "isOpen w"
    using l that o h unfolding linked_def by fastforce
  moreover have "i < nextId s \<Longrightarrow> i < nextId s'" for i using n by simp
  ultimately show ?thesis using l r unfolding linked_def by simp
qed

lemma wf_requests_hold:
  assumes "wf_requests n ws" "v \<in> set ws" "u \<in> set ws" "wdHold v = wdHold u" "wdHold v \<noteq> None"
  shows "v = u"
proof -
  have i: "inj_on wdHold {w \<in> set ws. wdHold w \<noteq> None}" using assms(1) by (simp only: wf_requests_def)
  show ?thesis by (rule inj_onD [OF i assms(4)]) (use assms in auto)
qed

lemma wf_requests_id:
  assumes "wf_requests n ws" "v \<in> set ws" "u \<in> set ws" "wdId v = wdId u"
  shows "v = u"
proof -
  have i: "inj_on wdId (set ws)" using assms(1) by (simp add: wf_requests_def distinct_map)
  show ?thesis by (rule inj_onD [OF i assms(4,2,3)])
qed

lemma wf_requests_mono:
  assumes "wf_requests n ws" "n \<le> m" shows "wf_requests m ws"
proof -
  have "i < n \<Longrightarrow> i < m" for i using assms(2) by simp
  then show ?thesis using assms(1) unfolding wf_requests_def by blast
qed

lemma wf_holds_mono: "wf_holds n hs \<Longrightarrow> n \<le> m \<Longrightarrow> wf_holds m hs"
  unfolding wf_holds_def by (meson less_le_trans)

text \<open>The invariant under each kind of write.\<close>

lemma wf_except_keep:
  assumes wf: "wf_except X s" and n: "nextId s \<le> nextId s'"
    and "withdrawals s' = withdrawals s"
    and "wf_ledger s'" "wf_wallets (wallets s')" "wf_holds (nextId s) (holds s')"
    and o: "\<And>u. ownerId (wallets s') u = ownerId (wallets s) u"
    and h: "\<And>v h. v \<in> set (withdrawals s) \<Longrightarrow> wdId v \<notin> X \<Longrightarrow> h \<in> set (holds s) \<Longrightarrow>
              wdHold v = Some (hId h) \<Longrightarrow> hType h = HOLD_WITHDRAWAL \<Longrightarrow> h \<in> set (holds s')"
    and r: "\<And>j. j < nextId s \<Longrightarrow> reversalLines s' j = reversalLines s j"
  shows "wf_except X s'"
proof -
  have "linked s' v" if "v \<in> set (withdrawals s)" "wdId v \<notin> X" for v
  proof (rule linked_keep [OF _ n o h [OF that] r])
    show "linked s v" using wf that by (simp add: wf_except_def)
  qed
  then show ?thesis
    using assms wf_requests_mono [OF _ n] wf_holds_mono [OF _ n] unfolding wf_except_def by simp
qed

lemma wf_except_same:
  assumes "wf_except X s" and "nextId s \<le> nextId s'" and "withdrawals s' = withdrawals s"
    and "accounts s' = accounts s" "journals s' = journals s" "ledgerEntries s' = ledgerEntries s"
    and "wallets s' = wallets s" "holds s' = holds s"
  shows "wf_except X s'"
proof (rule wf_except_keep [OF assms(1-3)])
  show "wf_ledger s'"
    by (rule ledger_part [OF wf_except_ledger [OF assms(1)]]) (use assms in auto)
qed (use assms in \<open>auto simp: wf_except_def reversalLines_def\<close>)

lemma wf_except_walletAdd:
  assumes "wf_except X s" "walletAdd s wid dr dg = Inr s'"
  shows "wf_except X s'"
proof -
  from assms(2) obtain w where w: "walletById s wid = Some w" "0 \<le> wRial w + dr"
    "0 \<le> numeric4 (wGrams w + dg)" and
    s': "s' = s\<lparr>wallets := update_where (\<lambda>w. wId w = wid)
            (\<lambda>w. w\<lparr>wRial := wRial w + dr, wGrams := numeric4 (wGrams w + dg)\<rparr>) (wallets s)\<rparr>"
    by (rule walletAdd_Inr)
  have "wf_wallets (wallets s')"
    using wf_wallets_update [of "wallets s" wid w dr dg] assms(1) w
    by (simp add: s' wf_except_def walletById_def)
  moreover have "wf_ledger s'"
    by (rule ledger_part [OF wf_except_ledger [OF assms(1)]]) (simp_all add: s')
  ultimately show ?thesis using assms(1)
    by (intro wf_except_keep [OF assms(1)])
       (simp_all add: s' wf_except_def ownerId_update reversalLines_def)
qed

lemma wf_except_post:
  fixes s :: "'a bank_scheme"
  assumes "wf_except X s" "postJournal s t p = Inr (s', j)"
  shows "wf_except X s'"
  using postJournal_bank [OF assms(2)] postJournal_wf [OF wf_except_ledger [OF assms(1)] assms(2)]
    reversalLines_old [OF wf_except_ledger [OF assms(1)] assms(2)] assms(1)
  by (intro wf_except_keep [OF assms(1)]) (simp_all add: wf_except_def)

lemma wf_except_setTransaction: "wf_except X s \<Longrightarrow> wf_except X (setTransaction s i st)"
  by (erule wf_except_same) simp_all

lemma wf_except_dropHold:
  assumes "wf_except X s" "w \<in> set (withdrawals s)" "wdId w \<in> X"
  shows "wf_except X (dropHold s (wdHold w))"
proof (rule wf_except_keep [OF assms(1)])
  show "wf_ledger (dropHold s (wdHold w))"
    by (rule ledger_part [OF wf_except_ledger [OF assms(1)]]) simp_all
  show "wf_holds (nextId s) (holds (dropHold s (wdHold w)))"
    using assms(1) by (simp add: wf_except_def wf_holds_def holds_dropHold distinct_map_filter)
  fix v h assume v: "v \<in> set (withdrawals s)" "wdId v \<notin> X" and
    h: "h \<in> set (holds s)" "wdHold v = Some (hId h)"
  have "v \<noteq> w" using v assms(3) by auto
  have r: "wf_requests (nextId s) (withdrawals s)" using assms(1) by (simp only: wf_except_def)
  have "wdHold v \<noteq> wdHold w"
    using wf_requests_hold [OF r v(1) assms(2)] h(2) \<open>v \<noteq> w\<close> by fastforce
  then show "h \<in> set (holds (dropHold s (wdHold w)))" using h by (auto simp: holds_dropHold)
qed (use assms in \<open>simp_all add: wf_except_def reversalLines_def\<close>)

lemma wf_requests_update:
  assumes "wf_requests n ws" "w \<in> set ws" "wdId (f w) = wdId w" "wdHold (f w) = wdHold w"
  shows "update_where (\<lambda>v. wdId v = wdId w) f ws = map (\<lambda>v. if v = w then f w else v) ws"
    and "wf_requests n (update_where (\<lambda>v. wdId v = wdId w) f ws)"
proof -
  have same: "v = w" if "v \<in> set ws" "wdId v = wdId w" for v
    using wf_requests_id [OF assms(1) that(1) assms(2) that(2)] .
  show ws: "update_where (\<lambda>v. wdId v = wdId w) f ws = map (\<lambda>v. if v = w then f w else v) ws"
    unfolding update_where_def by (rule map_cong) (auto dest: same)
  let ?ws = "map (\<lambda>v. if v = w then f w else v) ws"
  have "map wdId ?ws = map wdId ws" using assms(3) by (auto intro!: map_cong)
  then have d: "distinct (map wdId ?ws)" using assms(1) by (simp only: wf_requests_def)
  have h: "inj_on wdHold {v \<in> set ?ws. wdHold v \<noteq> None}"
  proof (rule inj_onI)
    fix v u assume "v \<in> {v \<in> set ?ws. wdHold v \<noteq> None}" "u \<in> {v \<in> set ?ws. wdHold v \<noteq> None}"
      and e: "wdHold v = wdHold u"
    then obtain v' u' where vu: "v' \<in> set ws" "v = (if v' = w then f w else v')"
      "u' \<in> set ws" "u = (if u' = w then f w else u')" "wdHold v \<noteq> None" by auto
    then have "wdHold v' = wdHold u'" "wdHold v' \<noteq> None" "wdHold u' \<noteq> None"
      using e assms(4) by (auto split: if_splits)
    then have "v' = u'" using wf_requests_hold [OF assms(1) vu(1,3)] by simp
    then show "v = u" using vu by simp
  qed
  have b: "\<forall>v \<in> set ?ws. wdId v < n \<and> (\<forall>h. wdHold v = Some h \<longrightarrow> h < n)"
    using assms unfolding wf_requests_def by auto
  show "wf_requests n (update_where (\<lambda>v. wdId v = wdId w) f ws)"
    unfolding ws wf_requests_def by (rule conjI [OF d conjI [OF h b]])
qed

lemma wf_setWithdrawal:
  assumes wf: "wf_except {wdId w} s" and w: "w \<in> set (withdrawals s)"
    and f: "wdId (f w) = wdId w" "wdHold (f w) = wdHold w" and l: "linked s (f w)"
  shows "wf_bank (setWithdrawal s (wdId w) f)"
proof -
  let ?s = "setWithdrawal s (wdId w) f"
  have r: "wf_requests (nextId s) (withdrawals s)" using wf by (simp add: wf_except_def)
  note u = wf_requests_update [where f = f, OF r w f]
  have lk: "linked s v \<Longrightarrow> linked ?s v" for v
    by (rule linked_keep) (simp_all add: reversalLines_def)
  have "linked ?s v" if "v \<in> set (withdrawals ?s)" for v
  proof -
    from that consider "v = f w" | "v \<in> set (withdrawals s)" "v \<noteq> w"
      unfolding withdrawals_setWithdrawal u(1) by (auto split: if_splits)
    then show ?thesis
    proof cases
      case 1
      then show ?thesis using l lk by simp
    next
      case 2
      then have "wdId v \<noteq> wdId w" using wf_requests_id [OF r _ w] by auto
      then show ?thesis using wf 2 lk by (simp add: wf_except_def)
    qed
  qed
  moreover have "wf_ledger ?s"
    by (rule ledger_part [OF wf_except_ledger [OF wf]]) simp_all
  moreover have "wf_requests (nextId s) (withdrawals ?s)"
    using u(2) by (simp add: withdrawals_setWithdrawal)
  ultimately show ?thesis using wf unfolding wf_bank_def wf_except_def by simp
qed

lemma withdrawalById_in: "withdrawalById s i = Some w \<Longrightarrow> w \<in> set (withdrawals s) \<and> wdId w = i"
  unfolding withdrawalById_def by (auto dest: find_SomeD)

subsection \<open>Withdrawal requests keep the invariant\<close>

lemma requestWithdrawal_Inr:
  assumes "requestWithdrawal s c u bankId amount = Inr r"
  obtains b w where
    "find (\<lambda>b. baId b = bankId \<and> baUser b = u \<and> baVerified b) (bankAccounts s) = Some b"
    "calcWithdrawalFee s amount < amount" "walletOfUser s u = Some w"
    "assertWithinWithdrawalLimits s c u amount
       (getNumber s ''withdrawal.daily_limit'' 2000000000)
       (getNumber s ''withdrawal.monthly_limit'' 5000000000) = Inr ()"
    "amount \<le> wRial w - heldRial s (now c) (wId w)"
    "checkUserIdentity s u = Inr ()"
    "getNumber s ''withdrawal.min_amount'' 100000 \<le> of_int amount"
    "of_int amount \<le> getNumber s ''withdrawal.max_amount'' 2000000000"
    "r = createWithdrawal s c u b w amount (calcWithdrawalFee s amount)"
  using assms unfolding requestWithdrawal_def Let_def getActiveHoldRial_def
  by (auto simp: not_less not_le)

lemma calcWithdrawalFee_nonneg: "0 \<le> calcWithdrawalFee s amount"
  unfolding calcWithdrawalFee_def Let_def by simp

lemma walletOfUser_in: "walletOfUser s u = Some w \<Longrightarrow> w \<in> set (wallets s) \<and> wUser w = u"
  unfolding walletOfUser_def by (auto dest: find_SomeD)

lemma walletById_of:
  "wf_wallets (wallets s) \<Longrightarrow> w \<in> set (wallets s) \<Longrightarrow> walletById s (wId w) = Some w"
  unfolding walletById_def wf_wallets_def by (auto intro: find_unique)

lemma wf_requests_snoc:
  assumes "wf_requests n ws" "n \<le> wdId w" "wdId w < m" "wdHold w = Some h" "n \<le> h" "h < m"
  shows "wf_requests m (ws @ [w])"
proof -
  have b: "wdId v < n \<and> (\<forall>h. wdHold v = Some h \<longrightarrow> h < n)" if "v \<in> set ws" for v
    using assms(1) that by (simp add: wf_requests_def)
  have "Some h \<notin> wdHold ` set ws" using b assms(5) by (metis imageE leD)
  moreover have "wdId w \<notin> wdId ` set ws" using b assms(2) by (metis imageE leD)
  moreover have "{v \<in> set (ws @ [w]). wdHold v \<noteq> None} = insert w {v \<in> set ws. wdHold v \<noteq> None}"
    using assms(4) by auto
  moreover have "wdId v < m \<and> (\<forall>h. wdHold v = Some h \<longrightarrow> h < m)" if "v \<in> set ws" for v
    using b [OF that] assms by auto
  ultimately show ?thesis using assms unfolding wf_requests_def by (auto simp: inj_on_insert)
qed

lemma wf_holds_snoc:
  "wf_holds n hs \<Longrightarrow> n \<le> hId h \<Longrightarrow> hId h < m \<Longrightarrow> wf_holds m (hs @ [h])"
  unfolding wf_holds_def by fastforce

lemma wf_createWithdrawal:
  assumes wf: "wf_bank s" and w: "walletOfUser s u = Some w" and "0 < amount"
  shows "wf_bank (fst (createWithdrawal s c u b w amount fee))"
proof -
  let ?s = "fst (createWithdrawal s c u b w amount fee)"
  have n: "nextId ?s = nextId s + 3" "wallets ?s = wallets s" "accounts ?s = accounts s"
    "journals ?s = journals s" "ledgerEntries ?s = ledgerEntries s"
    by (simp_all add: createWithdrawal_def sequenceNext_def Let_def)
  obtain wd h where wd: "withdrawals ?s = withdrawals s @ [wd]" "holds ?s = holds s @ [h]"
    "wdId wd = nextId s + 1" "wdHold wd = Some (nextId s)" "hId h = nextId s"
    "hRial h = Some amount" "wdRial wd = amount" "hWallet h = wId w" "wdUser wd = u" "hGrams h = None" "hType h = HOLD_WITHDRAWAL"
    "wdStatus wd = WD_PENDING" "wdSource wd = None"
    by (simp add: createWithdrawal_def sequenceNext_def Let_def)
  have "linked s v" if "v \<in> set (withdrawals s)" for v using wf that by (rule wf_bank_linked)
  then have "linked ?s v" if "v \<in> set (withdrawals s)" for v
    using that by - (rule linked_keep [of s], simp_all add: n wd reversalLines_def)
  moreover have "linked ?s wd"
    using assms by (simp add: linked_def n wd isOpen_def ownerId_def walletOfUser_def)
  moreover have "wf_requests (nextId s) (withdrawals s)" "wf_holds (nextId s) (holds s)"
    using wf by (simp_all add: wf_bank_def wf_except_def)
  then have "wf_requests (nextId ?s) (withdrawals ?s)" "wf_holds (nextId ?s) (holds ?s)"
    unfolding n wd(1,2) by (auto intro!: wf_requests_snoc wf_holds_snoc simp: wd)
  moreover have "wf_ledger ?s"
    by (rule ledger_part [OF wf_bank_ledger [OF wf]]) (simp_all add: n)
  ultimately show ?thesis
    using wf unfolding wf_bank_def wf_except_def by (simp add: n wd)
qed

lemma createWithdrawal_frame:
  "wallets (fst (createWithdrawal s c u b w amount fee)) = wallets s"
  "accounts (fst (createWithdrawal s c u b w amount fee)) = accounts s"
  by (simp_all add: createWithdrawal_def sequenceNext_def Let_def)

lemma wf_requestWithdrawal:
  assumes "wf_bank s" "requestWithdrawal s c u bankId amount = Inr (s', i)"
  shows "wf_bank s'"
proof -
  from assms(2) obtain b w where w: "walletOfUser s u = Some w" "calcWithdrawalFee s amount < amount"
    and r: "(s', i) = createWithdrawal s c u b w amount (calcWithdrawalFee s amount)"
    by (rule requestWithdrawal_Inr)
  have "0 < amount" using w(2) calcWithdrawalFee_nonneg [of s amount] by simp
  then show ?thesis using wf_createWithdrawal [OF assms(1) w(1)] r by (metis fst_conv)
qed

lemma linked_closed:
  assumes "linked s w" "wdId v = wdId w" "wdHold v = wdHold w" "wdRial v = wdRial w"
    "wdSource v = wdSource w" "\<not> isOpen v" "wdStatus v \<noteq> WD_PROCESSED"
  shows "linked s v"
  using assms unfolding linked_def by simp

text \<open>Dropping the hold of a request and giving it a closed status.\<close>

lemma wf_close:
  assumes wf: "wf_bank s" and w: "w \<in> set (withdrawals s)"
    and f: "wdId (f w) = wdId w" "wdHold (f w) = wdHold w" "wdRial (f w) = wdRial w"
      "wdSource (f w) = wdSource w" "\<not> isOpen (f w)" "wdStatus (f w) \<noteq> WD_PROCESSED"
  shows "wf_bank (setWithdrawal (setTransaction (dropHold s (wdHold w)) i st) (wdId w) f)"
proof (rule wf_setWithdrawal)
  show "wf_except {wdId w} (setTransaction (dropHold s (wdHold w)) i st)"
    by (intro wf_except_setTransaction wf_except_dropHold wf_bank_except wf) (simp_all add: w)
  have "linked s w" using wf w by (rule wf_bank_linked)
  then have "linked s (f w)" using f by (rule linked_closed)
  then show "linked (setTransaction (dropHold s (wdHold w)) i st) (f w)"
    using f unfolding linked_def by (simp add: reversalLines_def)
qed (simp_all add: w f)

lemma cancelMyWithdrawal_Inr:
  assumes "cancelMyWithdrawal s u i = Inr s'"
  obtains w where "w \<in> set (withdrawals s)" "wdId w = i" "wdUser w = u"
    "wdStatus w = WD_CANCELLED \<and> s' = s \<or> wdStatus w = WD_PENDING \<and>
     s' = setWithdrawal (setTransaction (dropHold s (wdHold w)) (wdTransaction w) TX_FAILED)
            (wdId w) (\<lambda>x. x\<lparr>wdStatus := WD_CANCELLED\<rparr>)"
proof -
  obtain w where "find (\<lambda>w. wdId w = i \<and> wdUser w = u) (withdrawals s) = Some w"
    using assms unfolding cancelMyWithdrawal_def by auto
  with find_SomeD [OF this] show thesis
    using assms that [of w] unfolding cancelMyWithdrawal_def by (auto split: if_splits)
qed

lemma wf_cancelMyWithdrawal:
  assumes wf: "wf_bank s" and "cancelMyWithdrawal s u i = Inr s'"
  shows "wf_bank s'"
proof -
  from assms(2) obtain w where w: "w \<in> set (withdrawals s)" and
    s': "wdStatus w = WD_CANCELLED \<and> s' = s \<or> wdStatus w = WD_PENDING \<and>
     s' = setWithdrawal (setTransaction (dropHold s (wdHold w)) (wdTransaction w) TX_FAILED)
            (wdId w) (\<lambda>x. x\<lparr>wdStatus := WD_CANCELLED\<rparr>)"
    by (rule cancelMyWithdrawal_Inr)
  from wf_close [where f = "\<lambda>x. x\<lparr>wdStatus := WD_CANCELLED\<rparr>", OF wf w] s' wf
  show ?thesis by (auto simp: isOpen_def)
qed

subsection \<open>Transfers\<close>

lemma internalTransfer_Inr:
  assumes "internalTransfer s c u cardNo grams = Inr s'"
  obtains sender dest r s1 s2 where
    "0 < grams" "checkUserIdentity s u = Inr ()"
    "walletOfUser s u = Some sender" "wCard sender \<noteq> cardNo"
    "find (\<lambda>w. wCard w = cardNo) (wallets s) = Some dest"
    "find (\<lambda>x. uId x = wUser dest) (users s) = Some r"
    "uStatus r = ACTIVE" "uIdentity r = Some ID_VERIFIED"
    "assertWithinTransferLimit s u grams (getNumber s ''transfer.daily_limit_grams'' 5) (today c) = Inr ()"
    "assertWithinTransferLimit s u grams (getNumber s ''transfer.monthly_limit_grams'' 20)
       (firstOfMonth c) = Inr ()"
    "grams \<le> wGrams sender - heldGrams s (now c) (wId sender)"
    "walletAdd s (wId sender) 0 (- grams) = Inr s1"
    "walletAdd s1 (wId dest) 0 grams = Inr s2"
    "s' = s2\<lparr>nextId := nextId s + 2,
            transactions := transactions s2 @
              [newTransfer (nextId s) c sender TRANSFER_OUT grams (nextId s + 1),
               newTransfer (nextId s + 1) c dest TRANSFER_IN grams (nextId s)]\<rparr>"
  using assms unfolding internalTransfer_def Let_def
  by (auto simp: not_less not_le)

lemma internalTransfer_writes:
  assumes "internalTransfer s c u cardNo grams = Inr s'"
  obtains i j s1 s2 ts where
    "walletAdd s i 0 (- grams) = Inr s1" "walletAdd s1 j 0 grams = Inr s2"
    "s' = s2\<lparr>nextId := nextId s + 2, transactions := ts\<rparr>"
  by (rule internalTransfer_Inr [OF assms]) (rule that, assumption+)

lemma wf_internalTransfer:
  assumes "wf_bank s" "internalTransfer s c u cardNo grams = Inr s'"
  shows "wf_bank s'"
proof -
  from assms(2) obtain i j s1 s2 ts where
    a: "walletAdd s i 0 (- grams) = Inr s1" "walletAdd s1 j 0 grams = Inr s2"
    and s': "s' = s2\<lparr>nextId := nextId s + 2, transactions := ts\<rparr>"
    by (rule internalTransfer_writes)
  have "wf_except {} s2"
    using assms(1) a unfolding wf_bank_def by (blast intro: wf_except_walletAdd)
  then show ?thesis unfolding wf_bank_def
    by (rule wf_except_same) (use walletAdd_frame [OF a(1)] walletAdd_frame [OF a(2)] in \<open>simp_all add: s'\<close>)
qed

subsection \<open>Totals over the wallets\<close>

definition totalRial :: "'a bank_scheme \<Rightarrow> int" where
  "totalRial s = sum_list (map wRial (wallets s))"

definition totalGrams :: "'a bank_scheme \<Rightarrow> rat" where
  "totalGrams s = sum_list (map wGrams (wallets s))"

lemma totals_cong:
  "wallets s' = wallets s \<Longrightarrow> totalRial s' = totalRial s \<and> totalGrams s' = totalGrams s"
  by (simp add: totalRial_def totalGrams_def)

lemma walletAdd_totals:
  assumes "walletAdd s wid dr dg = Inr s'" and "wf_wallets (wallets s)"
  shows "totalRial s' = totalRial s + dr"
    and "on_grid dg \<Longrightarrow> totalGrams s' = totalGrams s + dg"
proof -
  from assms(1) obtain w where w: "walletById s wid = Some w" and
    s': "s' = s\<lparr>wallets := update_where (\<lambda>w. wId w = wid)
            (\<lambda>w. w\<lparr>wRial := wRial w + dr, wGrams := numeric4 (wGrams w + dg)\<rparr>) (wallets s)\<rparr>"
    by (rule walletAdd_Inr)
  note d = assms(2) [unfolded wf_wallets_def, THEN conjunct1] and f = w [unfolded walletById_def]
  show "totalRial s' = totalRial s + dr"
    by (simp add: s' totalRial_def sum_update_where_key [OF d f])
  have "on_grid (wGrams w)" using find_SomeD [OF f] assms(2) by (simp add: wf_wallets_def)
  then have "numeric4 (wGrams w + dg) = wGrams w + dg" if "on_grid dg"
    using that by (simp add: on_grid_add)
  then show "totalGrams s' = totalGrams s + dg" if "on_grid dg"
    using that by (simp add: s' totalGrams_def sum_update_where_key [OF d f])
qed

lemma walletAdd_row:
  assumes "walletAdd s wid dr dg = Inr s'" "walletById s wid = Some w"
  shows "walletById s' wid = Some (w\<lparr>wRial := wRial w + dr, wGrams := numeric4 (wGrams w + dg)\<rparr>)"
    and "i \<noteq> wid \<Longrightarrow> walletById s' i = walletById s i"
proof -
  from assms(1) have s': "wallets s' = update_where (\<lambda>w. wId w = wid)
            (\<lambda>w. w\<lparr>wRial := wRial w + dr, wGrams := numeric4 (wGrams w + dg)\<rparr>) (wallets s)"
    by (rule walletAdd_Inr) simp
  show "walletById s' wid = Some (w\<lparr>wRial := wRial w + dr, wGrams := numeric4 (wGrams w + dg)\<rparr>)"
    using assms(2) unfolding walletById_def s' by (simp add: find_update_where_same)
  show "walletById s' i = walletById s i" if "i \<noteq> wid"
    unfolding walletById_def s' by (rule find_update_where_other) (use that in auto)
qed

lemma internalTransfer_totals:
  assumes "wf_bank s" "internalTransfer s c u cardNo grams = Inr s'"
  shows "totalRial s' = totalRial s" and "on_grid grams \<Longrightarrow> totalGrams s' = totalGrams s"
    and "accounts s' = accounts s"
proof -
  from assms(2) obtain i j s1 s2 ts where
    a: "walletAdd s i 0 (- grams) = Inr s1" "walletAdd s1 j 0 grams = Inr s2"
    and s': "s' = s2\<lparr>nextId := nextId s + 2, transactions := ts\<rparr>"
    by (rule internalTransfer_writes)
  have w: "wf_wallets (wallets s)" "wf_wallets (wallets s1)"
    using assms(1) wf_except_walletAdd [OF _ a(1)] unfolding wf_bank_def wf_except_def by blast+
  have t: "totalRial s' = totalRial s2" "totalGrams s' = totalGrams s2"
    by (simp_all add: s' totalRial_def totalGrams_def)
  show "totalRial s' = totalRial s"
    unfolding t using walletAdd_totals(1) [OF a(1) w(1)] walletAdd_totals(1) [OF a(2) w(2)] by simp
  show "totalGrams s' = totalGrams s" if "on_grid grams"
    unfolding t using walletAdd_totals(2) [OF a(1) w(1)] walletAdd_totals(2) [OF a(2) w(2)] that by simp
  show "accounts s' = accounts s"
    using walletAdd_frame(2) [OF a(1)] walletAdd_frame(2) [OF a(2)] by (simp add: s')
qed

end
