(* ===== verification/WalletAdmin.thy ===== *)
theory WalletAdmin
  imports Wallet
begin

section \<open>Back-office handling of withdrawals\<close>

text \<open>
  \<open>api/src/wallet/wallet-admin.service.ts\<close>: the life of a withdrawal after the user asked
  for it (approval, bank payout with the final deduction and its journal, rejection, return of
  the money by the bank), batch payouts, and manual adjustments of a wallet. Each call returns
  the new state and whether it had been done before. Notifications and the listing and
  reporting queries are not modelled.
\<close>

definition requiresDualControl :: "int \<Rightarrow> rat \<Rightarrow> bool" where
  "requiresDualControl amountRial thresholdRial \<longleftrightarrow> thresholdRial \<le> of_int amountRial"

definition PAYOUT_METHODS :: "string list" where
  "PAYOUT_METHODS = [''PAYA'', ''SATNA'', ''POL'', ''CARD_TO_CARD'', ''INTERNAL'']"

definition dualControlThreshold :: "'a bank_scheme \<Rightarrow> rat" where
  "dualControlThreshold s =
     (let v = getNumber s ''withdrawal.dual_control_threshold'' 500000000 in
      if 0 \<le> v then v else 500000000)"

definition newApproval :: "nat \<Rightarrow> nat \<Rightarrow> approval_status \<Rightarrow> nat option \<Rightarrow> approval" where
  "newApproval w admin st step =
     \<lparr>apWithdrawal = w, apApprover = admin, apStatus = st, apStep = step\<rparr>"

text \<open>\<open>note?.trim() || w.adminNotes\<close>\<close>

definition noteOr :: "string option \<Rightarrow> string option \<Rightarrow> string option" where
  "noteOr note old =
     (case note of None \<Rightarrow> old | Some n \<Rightarrow> if trim n = [] then old else Some (trim n))"

subsection \<open>Approval\<close>

definition approve ::
  "'a bank_scheme \<Rightarrow> nat \<Rightarrow> nat \<Rightarrow> string option \<Rightarrow> ('a bank_scheme \<times> bool) res" where
  "approve s admin withdrawalId note =
     (case withdrawalById s withdrawalId of
        None \<Rightarrow> Inl (NotFound ''withdrawal'')
      | Some w \<Rightarrow>
          if wdStatus w = WD_APPROVED \<or> wdStatus w = WD_PROCESSED then Inr (s, True)
          else if wdStatus w \<noteq> WD_PENDING then Inl (Conflict ''not approvable'')
          else
          (case find (\<lambda>b. baId b = wdBank w) (bankAccounts s) of
             None \<Rightarrow> Inl (Conflict ''bank account not verified'')
           | Some b \<Rightarrow>
               if \<not> baVerified b then Inl (Conflict ''bank account not verified'')
               else
                 Inr ((setWithdrawal s (wdId w)
                        (\<lambda>x. x\<lparr>wdStatus := WD_APPROVED, wdReviewedBy := Some admin,
                               wdNotes := noteOr note (wdNotes w)\<rparr>))
                      \<lparr>approvals := approvals s @ [newApproval (wdId w) admin AP_APPROVED (Some 1)]\<rparr>,
                      False)))"

subsection \<open>Payout\<close>

text \<open>\<open>piPaidAt\<close> is the parsed date of the request, \<open>Some None\<close> when it is no date.\<close>

record pay_input =
  piSource :: "string option"
  piMethod :: "string option"
  piReference :: string
  piPaidAt :: "int option option"
  piNote :: "string option"

definition payDate :: "clock \<Rightarrow> pay_input \<Rightarrow> int res" where
  "payDate c dto =
     (case (case piPaidAt dto of None \<Rightarrow> Some (now c) | Some d \<Rightarrow> d) of
        None \<Rightarrow> Inl (BadRequest ''payment date'')
      | Some t \<Rightarrow> if now c + 60000 < t then Inl (BadRequest ''payment date'') else Inr t)"

definition journalLine :: "string \<Rightarrow> side \<Rightarrow> int \<Rightarrow> line_input" where
  "journalLine code sd amount =
     \<lparr>liCode = code, liSide = sd, liRial = Some amount, liGrams = None, liDescription = None\<rparr>"

definition gramLine :: "string \<Rightarrow> side \<Rightarrow> rat \<Rightarrow> line_input" where
  "gramLine code sd grams =
     \<lparr>liCode = code, liSide = sd, liRial = None, liGrams = Some grams, liDescription = None\<rparr>"

definition payJournal :: "withdrawal \<Rightarrow> nat \<Rightarrow> string \<Rightarrow> int \<Rightarrow> journal_input" where
  "payJournal w admin sourceCode paidAt =
     (let amount = wdRial w; fee = wdFee w; net = amount - fee in
      \<lparr>jiDescription = ''withdrawal payout'', jiTotalRial = amount, jiTotalGrams = 0,
       jiLines = [journalLine ''2010'' DEBIT amount, journalLine sourceCode CREDIT net]
                 @ (if 0 < fee then [journalLine ''4090'' CREDIT fee] else []),
       jiSource = None, jiRefType = Some ''WITHDRAWAL'', jiRefId = Some (wdId w),
       jiEntryDate = Some paidAt, jiCreatedBy = Some admin, jiReversalOf = None,
       jiTransaction = wdTransaction w\<rparr>)"

definition completeTransaction :: "'a bank_scheme \<Rightarrow> nat option \<Rightarrow> int \<Rightarrow> 'a bank_scheme" where
  "completeTransaction s i fee =
     (case i of
        None \<Rightarrow> s
      | Some t \<Rightarrow> s\<lparr>transactions := update_where (\<lambda>x. tId x = t)
                   (\<lambda>x. x\<lparr>tStatus := TX_COMPLETED, tFee := if fee = 0 then None else Some fee\<rparr>)
                   (transactions s)\<rparr>)"

text \<open>The part of a payout after its guards, with the source account \<open>code\<close>.\<close>

definition payWrites ::
  "'a bank_scheme \<Rightarrow> clock \<Rightarrow> nat \<Rightarrow> withdrawal \<Rightarrow> wallet \<Rightarrow> string \<Rightarrow> int \<Rightarrow> pay_input
     \<Rightarrow> string option \<Rightarrow> 'a bank_scheme res" where
  "payWrites s c admin w wal code paidAt dto batch =
     (case walletAdd s (wId wal) (- wdRial w) 0 of Inl e \<Rightarrow> Inl e | Inr s1 \<Rightarrow>
      (let s2 = completeTransaction (dropHold s1 (wdHold w)) (wdTransaction w) (wdFee w) in
       case postJournal s2 (now c) (payJournal w admin code paidAt) of
         Inl e \<Rightarrow> Inl e
       | Inr (s3, j) \<Rightarrow>
           Inr ((setWithdrawal s3 (wdId w)
                  (\<lambda>x. x\<lparr>wdStatus := WD_PROCESSED, wdProcessedBy := Some admin,
                         wdPaidBy := Some admin, wdPaidAt := Some paidAt,
                         wdBankReference := Some (trim (piReference dto)),
                         wdPayoutMethod := Some (case piMethod dto of None \<Rightarrow> ''PAYA'' | Some m \<Rightarrow> m),
                         wdSource := Some code, wdBatch := batch, wdJournal := Some j,
                         wdNotes := noteOr (piNote dto) (wdNotes w)\<rparr>))
                \<lparr>approvals := approvals s3 @ [newApproval (wdId w) admin AP_APPROVED (Some 2)]\<rparr>)))"

definition pay ::
  "'a bank_scheme \<Rightarrow> clock \<Rightarrow> nat \<Rightarrow> nat \<Rightarrow> pay_input \<Rightarrow> string option \<Rightarrow> ('a bank_scheme \<times> bool) res" where
  "pay s c admin withdrawalId dto batch =
     (if trim (piReference dto) = [] then Inl (BadRequest ''bank reference required'')
      else if (case piMethod dto of None \<Rightarrow> False | Some m \<Rightarrow> m \<noteq> [] \<and> m \<notin> set PAYOUT_METHODS)
      then Inl (BadRequest ''payout method'')
      else
      (case payDate c dto of Inl e \<Rightarrow> Inl e | Inr paidAt \<Rightarrow>
      (case withdrawalById s withdrawalId of
         None \<Rightarrow> Inl (NotFound ''withdrawal'')
       | Some w \<Rightarrow>
           if wdStatus w = WD_PROCESSED then Inr (s, True)
           else if wdStatus w \<noteq> WD_APPROVED then Inl (Conflict ''not payable'')
           else if requiresDualControl (wdRial w) (dualControlThreshold s)
                   \<and> wdReviewedBy w = Some admin
           then Inl (Forbidden ''dual control'')
           else
           (case resolveBankAccount s (piSource dto) (Some ''withdrawal.default_source_account'') of
              Inl e \<Rightarrow> Inl e
            | Inr code \<Rightarrow>
                (case walletOfUser s (wdUser w) of
                   None \<Rightarrow> Inl (NotFound ''wallet'')
                 | Some wal \<Rightarrow>
                     if wRial wal < wdRial w then Inl (BadRequest ''insufficient balance'')
                     else
                     (case payWrites s c admin w wal code paidAt dto batch of
                        Inl e \<Rightarrow> Inl e
                      | Inr s' \<Rightarrow> Inr (s', False)))))))"

text \<open>A batch pays its requests one after the other; a failure is recorded and the loop goes on.\<close>

fun payLoop ::
  "'a bank_scheme \<Rightarrow> clock \<Rightarrow> nat \<Rightarrow> (nat \<Rightarrow> string option) \<Rightarrow> pay_input \<Rightarrow> string \<Rightarrow> nat list
     \<Rightarrow> 'a bank_scheme \<times> (nat \<times> bool) list" where
  "payLoop s c admin refs dto batch [] = (s, [])"
| "payLoop s c admin refs dto batch (i # is) =
     (let ref = (case refs i of None \<Rightarrow> [] | Some r \<Rightarrow> trim r);
          dto' = dto\<lparr>piReference := if ref = [] then piReference dto else ref\<rparr> in
      case pay s c admin i dto' (Some batch) of
        Inl _ \<Rightarrow> (let (s', rs) = payLoop s c admin refs dto batch is in (s', (i, False) # rs))
      | Inr (s1, already) \<Rightarrow>
          (let (s', rs) = payLoop s1 c admin refs dto batch is in (s', (i, \<not> already) # rs)))"

definition payBatch ::
  "'a bank_scheme \<Rightarrow> clock \<Rightarrow> nat \<Rightarrow> nat list \<Rightarrow> (nat \<Rightarrow> string option) \<Rightarrow> pay_input \<Rightarrow> string
     \<Rightarrow> ('a bank_scheme \<times> (nat \<times> bool) list) res" where
  "payBatch s c admin ids refs dto batch =
     (if ids = [] then Inl (BadRequest ''no request selected'')
      else if 200 < length ids then Inl (BadRequest ''at most 200 requests'')
      else Inr (payLoop s c admin refs dto batch ids))"

subsection \<open>Rejection\<close>

definition reject ::
  "'a bank_scheme \<Rightarrow> nat \<Rightarrow> nat \<Rightarrow> string \<Rightarrow> ('a bank_scheme \<times> bool) res" where
  "reject s admin withdrawalId reason =
     (if length (trim reason) < 5 then Inl (BadRequest ''reason'')
      else
      (case withdrawalById s withdrawalId of
         None \<Rightarrow> Inl (NotFound ''withdrawal'')
       | Some w \<Rightarrow>
           if wdStatus w = WD_REJECTED then Inr (s, True)
           else if wdStatus w \<noteq> WD_PENDING \<and> wdStatus w \<noteq> WD_APPROVED
           then Inl (Conflict ''not rejectable'')
           else
             (let s1 = setTransaction (dropHold s (wdHold w)) (wdTransaction w) TX_FAILED in
              Inr ((setWithdrawal s1 (wdId w)
                     (\<lambda>x. x\<lparr>wdStatus := WD_REJECTED, wdReason := Some (trim reason),
                            wdNotes := Some (trim reason), wdProcessedBy := Some admin,
                            wdReviewedBy := Some admin\<rparr>))
                   \<lparr>approvals := approvals s @ [newApproval (wdId w) admin AP_REJECTED None]\<rparr>,
                   False))))"

subsection \<open>Money returned by the bank\<close>

definition returnJournal :: "withdrawal \<Rightarrow> nat \<Rightarrow> journal_input" where
  "returnJournal w admin =
     \<lparr>jiDescription = ''withdrawal returned by the bank'', jiTotalRial = wdRial w, jiTotalGrams = 0,
      jiLines = [journalLine (case wdSource w of None \<Rightarrow> ''1010'' | Some c \<Rightarrow> c) DEBIT (wdRial w),
                 journalLine ''2010'' CREDIT (wdRial w)],
      jiSource = None, jiRefType = Some ''WITHDRAWAL_RETURN'', jiRefId = Some (wdId w),
      jiEntryDate = None, jiCreatedBy = Some admin, jiReversalOf = None, jiTransaction = None\<rparr>"

definition refundTransaction :: "nat \<Rightarrow> clock \<Rightarrow> withdrawal \<Rightarrow> wallet \<Rightarrow> transaction" where
  "refundTransaction i c w wal =
     \<lparr>tId = i, tUser = wdUser w, tWallet = wId wal, tType = REFUND, tStatus = TX_COMPLETED,
      tRial = Some (wdRial w), tGrams = None, tPrice = None, tFee = None, tTax = None,
      tCreated = now c, tRelated = wdTransaction w, tShopOrder = None\<rparr>"

text \<open>Withdrawals without a linked journal (older records) get a plain inverse document.\<close>

definition postReturn ::
  "'a bank_scheme \<Rightarrow> clock \<Rightarrow> nat \<Rightarrow> withdrawal \<Rightarrow> ('a bank_scheme \<times> nat) res" where
  "postReturn s c admin w =
     (case wdJournal w of
        Some j \<Rightarrow>
          reverseJournal s (now c) j
            \<lparr>roDescription = Some ''withdrawal returned by the bank'', roCreatedBy = Some admin,
             roRefType = Some ''WITHDRAWAL_RETURN'', roRefId = Some (wdId w)\<rparr>
      | None \<Rightarrow> postJournal s (now c) (returnJournal w admin))"

definition markReturned ::
  "'a bank_scheme \<Rightarrow> clock \<Rightarrow> nat \<Rightarrow> nat \<Rightarrow> string \<Rightarrow> ('a bank_scheme \<times> bool) res" where
  "markReturned s c admin withdrawalId reason =
     (if length (trim reason) < 5 then Inl (BadRequest ''reason'')
      else
      (case withdrawalById s withdrawalId of
         None \<Rightarrow> Inl (NotFound ''withdrawal'')
       | Some w \<Rightarrow>
           if wdStatus w = WD_RETURNED then Inr (s, True)
           else if wdStatus w \<noteq> WD_PROCESSED then Inl (Conflict ''only a paid withdrawal'')
           else
           (case walletOfUser s (wdUser w) of
              None \<Rightarrow> Inl (NotFound ''wallet'')
            | Some wal \<Rightarrow>
                (case walletAdd s (wId wal) (wdRial w) 0 of Inl e \<Rightarrow> Inl e | Inr s1 \<Rightarrow>
                 (let s2 = s1\<lparr>nextId := nextId s1 + 1,
                              transactions := transactions s1 @
                                [refundTransaction (nextId s1) c w wal]\<rparr> in
                  case postReturn s2 c admin w of
                    Inl e \<Rightarrow> Inl e
                  | Inr (s3, j) \<Rightarrow>
                      Inr (setWithdrawal s3 (wdId w)
                             (\<lambda>x. x\<lparr>wdStatus := WD_RETURNED, wdReason := Some (trim reason),
                                    wdReturnJournal := Some j\<rparr>), False))))))"

subsection \<open>Manual adjustment\<close>

definition adjustTransaction :: "nat \<Rightarrow> clock \<Rightarrow> wallet \<Rightarrow> int \<Rightarrow> rat \<Rightarrow> transaction" where
  "adjustTransaction i c w dr dg =
     \<lparr>tId = i, tUser = wUser w, tWallet = wId w, tType = MANUAL_ADJUSTMENT,
      tStatus = TX_COMPLETED,
      tRial = (if dr = 0 then None else Some dr),
      tGrams = (if dg = 0 then None else Some (numeric4 dg)),
      tPrice = None, tFee = None, tTax = None, tCreated = now c, tRelated = None, tShopOrder = None\<rparr>"

definition adjustRialJournal :: "nat \<Rightarrow> nat \<Rightarrow> int \<Rightarrow> journal_input" where
  "adjustRialJournal admin t dr =
     \<lparr>jiDescription = ''manual rial adjustment'', jiTotalRial = \<bar>dr\<bar>, jiTotalGrams = 0,
      jiLines = (if 0 < dr
        then [journalLine ''1010'' DEBIT \<bar>dr\<bar>, journalLine ''2010'' CREDIT \<bar>dr\<bar>]
        else [journalLine ''2010'' DEBIT \<bar>dr\<bar>, journalLine ''1010'' CREDIT \<bar>dr\<bar>]),
      jiSource = None, jiRefType = Some ''WALLET_ADJUSTMENT'', jiRefId = Some t,
      jiEntryDate = None, jiCreatedBy = Some admin, jiReversalOf = None, jiTransaction = Some t\<rparr>"

definition adjustGramJournal :: "nat \<Rightarrow> nat \<Rightarrow> rat \<Rightarrow> journal_input" where
  "adjustGramJournal admin t dg =
     \<lparr>jiDescription = ''manual gold adjustment'', jiTotalRial = 0, jiTotalGrams = \<bar>dg\<bar>,
      jiLines = (if 0 < dg
        then [gramLine ''1020'' DEBIT \<bar>dg\<bar>, gramLine ''2020'' CREDIT \<bar>dg\<bar>]
        else [gramLine ''2020'' DEBIT \<bar>dg\<bar>, gramLine ''1020'' CREDIT \<bar>dg\<bar>]),
      jiSource = None, jiRefType = Some ''WALLET_ADJUSTMENT'', jiRefId = Some t,
      jiEntryDate = None, jiCreatedBy = Some admin, jiReversalOf = None, jiTransaction = Some t\<rparr>"

definition postIf :: "bool \<Rightarrow> 'a ledger_scheme \<Rightarrow> int \<Rightarrow> journal_input \<Rightarrow> 'a ledger_scheme res" where
  "postIf b s t p =
     (if b then (case postJournal s t p of Inl e \<Rightarrow> Inl e | Inr r \<Rightarrow> Inr (fst r)) else Inr s)"

definition adjustBalance ::
  "'a bank_scheme \<Rightarrow> clock \<Rightarrow> nat \<Rightarrow> nat \<Rightarrow> int \<Rightarrow> rat \<Rightarrow> 'a bank_scheme res" where
  "adjustBalance s c admin u dr dg =
     (if dr = 0 \<and> dg = 0 then Inl (BadRequest ''nothing to adjust'')
      else
      (case walletOfUser s u of
         None \<Rightarrow> Inl (NotFound ''wallet'')
       | Some w \<Rightarrow>
           if dr < 0 \<and> wRial w + dr < 0 then Inl (BadRequest ''insufficient rial'')
           else if dg < 0 \<and> wGrams w + dg < 0 then Inl (BadRequest ''insufficient gold'')
           else
           (case walletAdd s (wId w) dr dg of Inl e \<Rightarrow> Inl e | Inr s1 \<Rightarrow>
            (let t = nextId s1;
                 s2 = s1\<lparr>nextId := t + 1,
                         transactions := transactions s1 @ [adjustTransaction t c w dr dg]\<rparr> in
             case postIf (dr \<noteq> 0) s2 (now c) (adjustRialJournal admin t dr) of
               Inl e \<Rightarrow> Inl e
             | Inr s3 \<Rightarrow> postIf (dg \<noteq> 0) s3 (now c) (adjustGramJournal admin t dg)))))"

subsection \<open>The status of a withdrawal\<close>

lemma approve_Inr:
  assumes "approve s admin i note = Inr (s', done)"
  obtains w where "w \<in> set (withdrawals s)" "wdId w = i"
    "s' = s \<and> done \<and> (wdStatus w = WD_APPROVED \<or> wdStatus w = WD_PROCESSED) \<or>
     \<not> done \<and> wdStatus w = WD_PENDING \<and>
     s' = (setWithdrawal s (wdId w)
             (\<lambda>x. x\<lparr>wdStatus := WD_APPROVED, wdReviewedBy := Some admin,
                    wdNotes := noteOr note (wdNotes w)\<rparr>))
           \<lparr>approvals := approvals s @ [newApproval (wdId w) admin AP_APPROVED (Some 1)]\<rparr>"
proof -
  from assms obtain w where w: "withdrawalById s i = Some w" unfolding approve_def by auto
  then show thesis using assms that [of w] withdrawalById_in [OF w]
    unfolding approve_def by (auto split: if_splits option.splits)
qed

lemma wf_approve:
  assumes wf: "wf_bank s" and "approve s admin i note = Inr (s', done)"
  shows "wf_bank s'"
proof -
  from assms(2) obtain w where w: "w \<in> set (withdrawals s)" and
    s': "s' = s \<or> wdStatus w = WD_PENDING \<and>
     s' = (setWithdrawal s (wdId w)
             (\<lambda>x. x\<lparr>wdStatus := WD_APPROVED, wdReviewedBy := Some admin,
                    wdNotes := noteOr note (wdNotes w)\<rparr>))
           \<lparr>approvals := approvals s @ [newApproval (wdId w) admin AP_APPROVED (Some 1)]\<rparr>"
    by (rule approve_Inr) auto
  show ?thesis
  proof (cases "s' = s")
    case True
    then show ?thesis using wf by simp
  next
    case False
    let ?f = "\<lambda>x. x\<lparr>wdStatus := WD_APPROVED, wdReviewedBy := Some admin,
                    wdNotes := noteOr note (wdNotes w)\<rparr>"
    have "linked s (?f w)"
      using wf_bank_linked [OF wf w] False s' by (simp add: linked_def isOpen_def)
    then have "wf_bank (setWithdrawal s (wdId w) ?f)"
      by (intro wf_setWithdrawal wf_bank_except wf w) simp_all
    moreover have e: "s' = (setWithdrawal s (wdId w) ?f)
           \<lparr>approvals := approvals s @ [newApproval (wdId w) admin AP_APPROVED (Some 1)]\<rparr>"
      using False s' by blast
    ultimately show ?thesis unfolding wf_bank_def
      by (elim wf_except_same) (simp_all only: e, simp_all)
  qed
qed

lemma reject_Inr:
  assumes "reject s admin i reason = Inr (s', done)"
  obtains w where "w \<in> set (withdrawals s)" "wdId w = i" "5 \<le> length (trim reason)"
    "s' = s \<and> done \<and> wdStatus w = WD_REJECTED \<or>
     \<not> done \<and> isOpen w \<and>
     s' = (setWithdrawal (setTransaction (dropHold s (wdHold w)) (wdTransaction w) TX_FAILED) (wdId w)
             (\<lambda>x. x\<lparr>wdStatus := WD_REJECTED, wdReason := Some (trim reason),
                    wdNotes := Some (trim reason), wdProcessedBy := Some admin,
                    wdReviewedBy := Some admin\<rparr>))
           \<lparr>approvals := approvals s @ [newApproval (wdId w) admin AP_REJECTED None]\<rparr>"
proof -
  from assms obtain w where w: "withdrawalById s i = Some w" unfolding reject_def by auto
  then show thesis using assms that [of w] withdrawalById_in [OF w]
    unfolding reject_def Let_def by (auto simp: isOpen_def split: if_splits)
qed

lemma wf_reject:
  assumes wf: "wf_bank s" and "reject s admin i reason = Inr (s', done)"
  shows "wf_bank s'"
proof -
  let ?f = "\<lambda>x. x\<lparr>wdStatus := WD_REJECTED, wdReason := Some (trim reason),
                    wdNotes := Some (trim reason), wdProcessedBy := Some admin,
                    wdReviewedBy := Some admin\<rparr>"
  from assms(2) obtain w where w: "w \<in> set (withdrawals s)" and
    s': "s' = s \<or>
     s' = (setWithdrawal (setTransaction (dropHold s (wdHold w)) (wdTransaction w) TX_FAILED) (wdId w) ?f)
           \<lparr>approvals := approvals s @ [newApproval (wdId w) admin AP_REJECTED None]\<rparr>"
    by (rule reject_Inr) auto
  let ?m = "setWithdrawal (setTransaction (dropHold s (wdHold w)) (wdTransaction w) TX_FAILED) (wdId w) ?f"
  have "wf_bank ?m" by (rule wf_close [OF wf w]) (simp_all add: isOpen_def)
  then have "wf_bank (?m\<lparr>approvals := as\<rparr>)" for as
    unfolding wf_bank_def by (rule wf_except_same) simp_all
  then show ?thesis using s' wf by auto
qed

subsection \<open>Payout\<close>

lemma pay_Inr:
  assumes "pay s c admin i dto batch = Inr (s', done)"
  obtains w where "w \<in> set (withdrawals s)" "wdId w = i" "trim (piReference dto) \<noteq> []"
    "s' = s \<and> done \<and> wdStatus w = WD_PROCESSED \<or>
     (\<exists>code wal paidAt. \<not> done \<and> wdStatus w = WD_APPROVED \<and>
       \<not> (requiresDualControl (wdRial w) (dualControlThreshold s) \<and> wdReviewedBy w = Some admin) \<and>
       starts_with CASH_ROOT_CODE code \<and> walletOfUser s (wdUser w) = Some wal \<and>
       wdRial w \<le> wRial wal \<and> paidAt \<le> now c + 60000 \<and>
       payWrites s c admin w wal code paidAt dto batch = Inr s')"
proof -
  from assms obtain w paidAt where w: "withdrawalById s i = Some w" and d: "payDate c dto = Inr paidAt"
    unfolding pay_def by auto
  have "paidAt \<le> now c + 60000" using d unfolding payDate_def by auto
  then show thesis using assms that [of w] withdrawalById_in [OF w] w d
    unfolding pay_def by (auto simp: not_less split: if_splits dest: resolveBankAccount_cash)
qed

lemma payWrites_Inr:
  assumes "payWrites s c admin w wal code paidAt dto batch = Inr s'"
  obtains s1 s2 s3 j as f where
    "walletAdd s (wId wal) (- wdRial w) 0 = Inr s1"
    "s2 = completeTransaction (dropHold s1 (wdHold w)) (wdTransaction w) (wdFee w)"
    "postJournal s2 (now c) (payJournal w admin code paidAt) = Inr (s3, j)"
    "s' = (setWithdrawal s3 (wdId w) f)\<lparr>approvals := as\<rparr>"
    "f = (\<lambda>x. x\<lparr>wdStatus := WD_PROCESSED, wdProcessedBy := Some admin,
                wdPaidBy := Some admin, wdPaidAt := Some paidAt,
                wdBankReference := Some (trim (piReference dto)),
                wdPayoutMethod := Some (case piMethod dto of None \<Rightarrow> ''PAYA'' | Some m \<Rightarrow> m),
                wdSource := Some code, wdBatch := batch, wdJournal := Some j,
                wdNotes := noteOr (piNote dto) (wdNotes w)\<rparr>)"
  using assms that unfolding payWrites_def Let_def by (auto split: sum.splits prod.splits)

lemma completeTransaction_frame [simp]:
  "nextId (completeTransaction s i fee) = nextId s" "accounts (completeTransaction s i fee) = accounts s"
  "journals (completeTransaction s i fee) = journals s"
  "ledgerEntries (completeTransaction s i fee) = ledgerEntries s"
  "wallets (completeTransaction s i fee) = wallets s" "holds (completeTransaction s i fee) = holds s"
  "withdrawals (completeTransaction s i fee) = withdrawals s"
  by (simp_all add: completeTransaction_def split: option.splits)

lemma cash_code_not_control:
  "starts_with CASH_ROOT_CODE c \<Longrightarrow> c \<noteq> ''2010'' \<and> c \<noteq> ''2020''"
  by (auto simp: CASH_ROOT_CODE_def)

lemma not_cash_codes [simp]:
  "\<not> starts_with CASH_ROOT_CODE ''2010''" "\<not> starts_with CASH_ROOT_CODE ''2020''"
  by (simp_all add: CASH_ROOT_CODE_def)

lemma normalize_journalLine [simp]:
  "normalizeLine (journalLine c sd a) = \<lparr>lnCode = c, lnSide = sd, lnRial = a, lnGrams = 0, lnDescription = None\<rparr>"
  "normalizeLine (gramLine c sd g) = \<lparr>lnCode = c, lnSide = sd, lnRial = 0, lnGrams = g, lnDescription = None\<rparr>"
  by (simp_all add: normalizeLine_def journalLine_def gramLine_def toDecimal_def)

lemma payJournal_net:
  assumes "starts_with CASH_ROOT_CODE code"
  shows "netRial ''2010'' (inputLines (payJournal w admin code t)) = - wdRial w"
    and "netGrams ''2020'' (inputLines (payJournal w admin code t)) = 0"
  using cash_code_not_control [OF assms]
  by (auto simp: payJournal_def Let_def deltaSign_def isDebitNature_def)

lemma wf_payWrites:
  assumes wf: "wf_bank s" and w: "w \<in> set (withdrawals s)" and code: "starts_with CASH_ROOT_CODE code"
    and p: "payWrites s c admin w wal code paidAt dto batch = Inr s'"
  shows "wf_bank s'"
    and "totalRial s' = totalRial s - wdRial w" and "rialOf s' ''2010'' = rialOf s ''2010'' - wdRial w"
    and "totalGrams s' = totalGrams s" and "gramsOf s' ''2020'' = gramsOf s ''2020''"
proof -
  from payWrites_Inr [OF p] obtain s1 s2 s3 j f as where
    a: "walletAdd s (wId wal) (- wdRial w) 0 = Inr s1" and
    s2: "s2 = completeTransaction (dropHold s1 (wdHold w)) (wdTransaction w) (wdFee w)" and
    post: "postJournal s2 (now c) (payJournal w admin code paidAt) = Inr (s3, j)" and
    s': "s' = (setWithdrawal s3 (wdId w) f)\<lparr>approvals := as\<rparr>" and
    fd: "f = (\<lambda>x. x\<lparr>wdStatus := WD_PROCESSED, wdProcessedBy := Some admin,
                wdPaidBy := Some admin, wdPaidAt := Some paidAt,
                wdBankReference := Some (trim (piReference dto)),
                wdPayoutMethod := Some (case piMethod dto of None \<Rightarrow> ''PAYA'' | Some m \<Rightarrow> m),
                wdSource := Some code, wdBatch := batch, wdJournal := Some j,
                wdNotes := noteOr (piNote dto) (wdNotes w)\<rparr>)"
    by metis
  have f: "wdId (f w) = wdId w \<and> wdHold (f w) = wdHold w \<and> wdRial (f w) = wdRial w \<and> \<not> isOpen (f w) \<and>
       wdSource (f w) = Some code \<and> wdJournal (f w) = Some j"
    by (simp add: fd isOpen_def)
  note fr = walletAdd_frame [OF a] and pb = postJournal_bank [OF post]
  have x1: "wf_except {wdId w} s1" using wf_except_walletAdd [OF wf_bank_except [OF wf] a] .
  have x2: "wf_except {wdId w} s2"
    by (rule wf_except_same [OF wf_except_dropHold [OF x1, of w]]) (simp_all add: s2 w fr)
  have x3: "wf_except {wdId w} s3" using wf_except_post [OF x2 post] .
  have l2: "wf_ledger s2" using x2 by (rule wf_except_ledger)
  note rv = reversalLines_new [OF l2 post] and bal = books.post_rial [OF l2 post] books.post_grams [OF l2 post]
  have j: "j < nextId s3" using postJournal_Inr [OF post] pb(5) by (metis less_add_one)
  have "linked s w" using wf w by (rule wf_bank_linked)
  then have "linked s3 (f w)"
    using f code j rv payJournal_net [OF code] pb(5) unfolding linked_def
    by (auto simp: s2 fr)
  then have "wf_bank (setWithdrawal s3 (wdId w) f)"
    using f w pb fr by (intro wf_setWithdrawal [OF x3]) (simp_all add: s2)
  then show "wf_bank s'"
    unfolding wf_bank_def by (rule wf_except_same) (simp_all add: s')
  have ww: "wf_wallets (wallets s)" using wf by (rule wf_bank_wallets)
  have t: "totalRial s' = totalRial s1" "totalGrams s' = totalGrams s1"
    using totals_cong [of s' s1] pb fr by (simp_all add: s' s2)
  show "totalRial s' = totalRial s - wdRial w" "totalGrams s' = totalGrams s"
    using walletAdd_totals [OF a ww] by (simp_all add: t)
  have r: "rialOf s' = rialOf s3" "gramsOf s' = gramsOf s3" "rialOf s2 = rialOf s" "gramsOf s2 = gramsOf s"
    by (intro ext, simp add: rialOf_def gramsOf_def s' s2 fr)+
  show "rialOf s' ''2010'' = rialOf s ''2010'' - wdRial w" "gramsOf s' ''2020'' = gramsOf s ''2020''"
    using bal payJournal_net [OF code] by (simp_all add: r)
qed

lemma wf_pay:
  assumes wf: "wf_bank s" and p: "pay s c admin i dto batch = Inr (s', done)"
  shows "wf_bank s'" and "totalRial s' - rialOf s' ''2010'' = totalRial s - rialOf s ''2010''"
    and "totalGrams s' = totalGrams s" and "gramsOf s' ''2020'' = gramsOf s ''2020''"
proof -
  from pay_Inr [OF p] obtain w where w: "w \<in> set (withdrawals s)" and
    c: "s' = s \<or> (\<exists>code wal paidAt. starts_with CASH_ROOT_CODE code \<and>
          payWrites s c admin w wal code paidAt dto batch = Inr s')"
    by metis
  then have "wf_bank s' \<and> totalRial s' - rialOf s' ''2010'' = totalRial s - rialOf s ''2010'' \<and>
    totalGrams s' = totalGrams s \<and> gramsOf s' ''2020'' = gramsOf s ''2020''"
    using wf wf_payWrites [OF wf w] by auto
  then show "wf_bank s'" "totalRial s' - rialOf s' ''2010'' = totalRial s - rialOf s ''2010''"
    "totalGrams s' = totalGrams s" "gramsOf s' ''2020'' = gramsOf s ''2020''" by auto
qed

lemma payLoop_run:
  assumes "wf_bank s"
  shows "wf_bank (fst (payLoop s c admin refs dto batch is)) \<and>
    totalRial (fst (payLoop s c admin refs dto batch is)) -
      rialOf (fst (payLoop s c admin refs dto batch is)) ''2010'' = totalRial s - rialOf s ''2010'' \<and>
    totalGrams (fst (payLoop s c admin refs dto batch is)) = totalGrams s \<and>
    gramsOf (fst (payLoop s c admin refs dto batch is)) ''2020'' = gramsOf s ''2020''"
  using assms
proof (induction "is" arbitrary: s)
  case Nil
  then show ?case by simp
next
  case (Cons i "is")
  let ?r = "case refs i of None \<Rightarrow> [] | Some r \<Rightarrow> trim r"
  let ?p = "pay s c admin i (dto\<lparr>piReference := if ?r = [] then piReference dto else ?r\<rparr>) (Some batch)"
  show ?case
  proof (cases ?p)
    case (Inl e)
    then show ?thesis using Cons by (simp add: Let_def case_prod_beta)
  next
    case (Inr x)
    obtain s1 b where "?p = Inr (s1, b)" using Inr by (cases x) auto
    then show ?thesis using Cons.IH [of s1] wf_pay [OF Cons.prems, of c admin i _ _ s1 b]
      by (simp add: Let_def case_prod_beta)
  qed
qed

subsection \<open>Returned withdrawals\<close>

lemma markReturned_Inr:
  assumes "markReturned s c admin i reason = Inr (s', done)"
  obtains w where "w \<in> set (withdrawals s)" "wdId w = i" "5 \<le> length (trim reason)"
    "s' = s \<and> done \<and> wdStatus w = WD_RETURNED \<or>
     (\<exists>wal s1 s3 j. \<not> done \<and> wdStatus w = WD_PROCESSED \<and> walletOfUser s (wdUser w) = Some wal \<and>
        walletAdd s (wId wal) (wdRial w) 0 = Inr s1 \<and>
        postReturn (s1\<lparr>nextId := nextId s1 + 1,
                      transactions := transactions s1 @ [refundTransaction (nextId s1) c w wal]\<rparr>)
                   c admin w = Inr (s3, j) \<and>
        s' = setWithdrawal s3 (wdId w)
               (\<lambda>x. x\<lparr>wdStatus := WD_RETURNED, wdReason := Some (trim reason),
                      wdReturnJournal := Some j\<rparr>))"
proof -
  from assms obtain w where w: "withdrawalById s i = Some w" unfolding markReturned_def by auto
  then show thesis using assms that [of w] withdrawalById_in [OF w]
    unfolding markReturned_def Let_def by (auto split: if_splits prod.splits)
qed

lemma postReturn_posts:
  assumes "postReturn s c admin w = Inr (s', j)"
  obtains p where "postJournal s (now c) p = Inr (s', j)"
  using assms that unfolding postReturn_def
  by (cases "wdJournal w") (auto elim: reverseJournal_post)

lemma postReturn_balance:
  assumes wf: "wf_ledger s" and post: "postReturn s c admin w = Inr (s', j)"
    and l: "\<forall>c. wdSource w = Some c \<longrightarrow> starts_with CASH_ROOT_CODE c"
      "\<forall>j. wdJournal w = Some j \<longrightarrow> netRial ''2010'' (reversalLines s j) = wdRial w \<and>
        netGrams ''2020'' (reversalLines s j) = 0"
  shows "rialOf s' ''2010'' = rialOf s ''2010'' + wdRial w" and "gramsOf s' ''2020'' = gramsOf s ''2020''"
proof -
  have "rialOf s' ''2010'' = rialOf s ''2010'' + wdRial w \<and> gramsOf s' ''2020'' = gramsOf s ''2020''"
  proof (cases "wdJournal w")
    case None
    have p: "postJournal s (now c) (returnJournal w admin) = Inr (s', j)"
      using post None by (simp add: postReturn_def)
    have "netRial ''2010'' (inputLines (returnJournal w admin)) = wdRial w \<and>
      netGrams ''2020'' (inputLines (returnJournal w admin)) = 0"
      using l(1) cash_code_not_control
      by (auto simp: returnJournal_def deltaSign_def isDebitNature_def split: option.splits)
    then show ?thesis using books.post_rial [OF wf p] books.post_grams [OF wf p] by simp
  next
    case (Some k)
    obtain opts where "reverseJournal s (now c) k opts = Inr (s', j)"
      using post Some by (auto simp: postReturn_def)
    from reverseJournal_balance [OF wf this] l(2) Some show ?thesis by simp
  qed
  then show "rialOf s' ''2010'' = rialOf s ''2010'' + wdRial w" "gramsOf s' ''2020'' = gramsOf s ''2020''"
    by auto
qed

lemma wf_returnWrites:
  fixes s :: "'a bank_scheme"
  assumes wf: "wf_bank s" and w: "w \<in> set (withdrawals s)" and st: "wdStatus w = WD_PROCESSED"
    and a: "walletAdd s wid (wdRial w) 0 = Inr s1"
    and post: "postReturn (s1\<lparr>nextId := nextId s1 + 1, transactions := ts\<rparr>) c admin w = Inr (s3, j)"
      (is "postReturn ?s2 c admin w = _")
    and s': "s' = setWithdrawal s3 (wdId w) f"
    and f: "wdId (f w) = wdId w" "wdHold (f w) = wdHold w" "wdRial (f w) = wdRial w"
      "wdSource (f w) = wdSource w" "\<not> isOpen (f w)" "wdStatus (f w) \<noteq> WD_PROCESSED"
  shows "wf_bank s'" and "totalRial s' - rialOf s' ''2010'' = totalRial s - rialOf s ''2010''"
    and "totalGrams s' = totalGrams s" and "gramsOf s' ''2020'' = gramsOf s ''2020''"
proof -
  from postReturn_posts [OF post] obtain p where p: "postJournal ?s2 (now c) p = Inr (s3, j)" .
  note fr = walletAdd_frame [OF a] and pb = postJournal_bank [OF p]
  have x1: "wf_except {} s1" using wf_except_walletAdd [OF wf [unfolded wf_bank_def] a] .
  have x2: "wf_except {} ?s2" by (rule wf_except_same [OF x1]) simp_all
  have x3: "wf_except {} s3" using wf_except_post [OF x2 p] .
  have w3: "w \<in> set (withdrawals s3)" using w by (simp add: pb fr)
  have k: "linked s3 (f w)"
    using wf_bank_linked [OF x3 [folded wf_bank_def] w3] f by (rule linked_closed)
  show "wf_bank s'" unfolding s'
    by (rule wf_setWithdrawal) (use wf_except_mono [OF x3] w3 k f in simp_all)
  have r: "rialOf s' = rialOf s3" "gramsOf s' = gramsOf s3" "rialOf ?s2 = rialOf s" "gramsOf ?s2 = gramsOf s"
    by (intro ext, simp add: rialOf_def gramsOf_def s' fr)+
  have q: "reversalLines ?s2 = reversalLines s" by (intro ext) (simp add: reversalLines_def fr)
  have b: "rialOf s3 ''2010'' = rialOf ?s2 ''2010'' + wdRial w" "gramsOf s3 ''2020'' = gramsOf ?s2 ''2020''"
    by (rule postReturn_balance [OF wf_except_ledger [OF x2] post];
        use wf_bank_linked [OF wf w] st in \<open>unfold linked_def q, blast\<close>)+
  have "totalRial s' = totalRial s1" "totalGrams s' = totalGrams s1"
    using totals_cong [of s' s1] pb by (simp_all add: s')
  then show "totalRial s' - rialOf s' ''2010'' = totalRial s - rialOf s ''2010''"
    "totalGrams s' = totalGrams s" "gramsOf s' ''2020'' = gramsOf s ''2020''"
    using b walletAdd_totals [OF a wf_bank_wallets [OF wf]] unfolding r by simp_all
qed

lemma wf_markReturned:
  assumes wf: "wf_bank s" and m: "markReturned s c admin i reason = Inr (s', done)"
  shows "wf_bank s'" and "totalRial s' - rialOf s' ''2010'' = totalRial s - rialOf s ''2010''"
    and "totalGrams s' = totalGrams s" and "gramsOf s' ''2020'' = gramsOf s ''2020''"
proof -
  let ?f = "\<lambda>j x. x\<lparr>wdStatus := WD_RETURNED, wdReason := Some (trim reason),
                   wdReturnJournal := Some j\<rparr>"
  from markReturned_Inr [OF m] obtain w where w: "w \<in> set (withdrawals s)" and
    alt: "s' = s \<or> (\<exists>wid s1 s3 j ts. wdStatus w = WD_PROCESSED \<and>
        walletAdd s wid (wdRial w) 0 = Inr s1 \<and>
        postReturn (s1\<lparr>nextId := nextId s1 + 1, transactions := ts\<rparr>) c admin w = Inr (s3, j) \<and>
        s' = setWithdrawal s3 (wdId w) (?f j))"
    by metis
  have "wf_bank s' \<and> totalRial s' - rialOf s' ''2010'' = totalRial s - rialOf s ''2010'' \<and>
    totalGrams s' = totalGrams s \<and> gramsOf s' ''2020'' = gramsOf s ''2020''"
  proof (cases "s' = s")
    case True
    then show ?thesis using wf by simp
  next
    case False
    with alt obtain wid s1 s3 j ts where x: "wdStatus w = WD_PROCESSED"
      "walletAdd s wid (wdRial w) 0 = Inr s1"
      "postReturn (s1\<lparr>nextId := nextId s1 + 1, transactions := ts\<rparr>) c admin w = Inr (s3, j)"
      "s' = setWithdrawal s3 (wdId w) (?f j)" by blast
    then show ?thesis by (intro conjI wf_returnWrites [OF wf w x]) (simp_all add: isOpen_def)
  qed
  then show "wf_bank s'" "totalRial s' - rialOf s' ''2010'' = totalRial s - rialOf s ''2010''"
    "totalGrams s' = totalGrams s" "gramsOf s' ''2020'' = gramsOf s ''2020''" by auto
qed

subsection \<open>Manual adjustments\<close>

lemma postIf_bank:
  fixes s :: "'a bank_scheme"
  assumes "wf_bank s" "postIf b s t p = Inr s'"
  shows "wf_bank s'" and "wallets s' = wallets s"
    and "rialOf s' ''2010'' = rialOf s ''2010'' + (if b then netRial ''2010'' (inputLines p) else 0)"
    and "gramsOf s' ''2020'' = gramsOf s ''2020'' + (if b then netGrams ''2020'' (inputLines p) else 0)"
proof -
  have "wf_bank s' \<and> wallets s' = wallets s \<and>
    rialOf s' ''2010'' = rialOf s ''2010'' + (if b then netRial ''2010'' (inputLines p) else 0) \<and>
    gramsOf s' ''2020'' = gramsOf s ''2020'' + (if b then netGrams ''2020'' (inputLines p) else 0)"
  proof (cases b)
    case True
    then obtain j where j: "postJournal s t p = Inr (s', j)"
      using assms(2) unfolding postIf_def by auto
    have l: "wf_ledger s" using assms(1) by (rule wf_bank_ledger)
    show ?thesis
      using True assms(1) wf_except_post [OF _ j] postJournal_bank(1) [OF j]
        books.post_rial [OF l j] books.post_grams [OF l j] unfolding wf_bank_def by simp
  next
    case False
    then show ?thesis using assms by (simp add: postIf_def)
  qed
  then show "wf_bank s'" "wallets s' = wallets s"
    "rialOf s' ''2010'' = rialOf s ''2010'' + (if b then netRial ''2010'' (inputLines p) else 0)"
    "gramsOf s' ''2020'' = gramsOf s ''2020'' + (if b then netGrams ''2020'' (inputLines p) else 0)"
    by auto
qed

lemma adjust_net:
  "netRial ''2010'' (inputLines (adjustRialJournal admin t dr)) = dr"
  "netGrams ''2020'' (inputLines (adjustRialJournal admin t dr)) = 0"
  "netRial ''2010'' (inputLines (adjustGramJournal admin t dg)) = 0"
  "netGrams ''2020'' (inputLines (adjustGramJournal admin t dg)) = dg"
  by (simp_all add: adjustRialJournal_def adjustGramJournal_def deltaSign_def isDebitNature_def)

lemma adjustBalance_Inr:
  assumes "adjustBalance s c admin u dr dg = Inr s'"
  obtains w s1 s3 where
    "walletOfUser s u = Some w" "walletAdd s (wId w) dr dg = Inr s1"
    "postIf (dr \<noteq> 0) (s1\<lparr>nextId := nextId s1 + 1,
        transactions := transactions s1 @ [adjustTransaction (nextId s1) c w dr dg]\<rparr>)
       (now c) (adjustRialJournal admin (nextId s1) dr) = Inr s3"
    "postIf (dg \<noteq> 0) s3 (now c) (adjustGramJournal admin (nextId s1) dg) = Inr s'"
  using assms that unfolding adjustBalance_def Let_def by auto

lemma wf_adjustBalance:
  assumes wf: "wf_bank s" and p: "adjustBalance s c admin u dr dg = Inr s'"
  shows "wf_bank s'" and "totalRial s' - rialOf s' ''2010'' = totalRial s - rialOf s ''2010''"
    and "on_grid dg \<Longrightarrow> totalGrams s' - gramsOf s' ''2020'' = totalGrams s - gramsOf s ''2020''"
proof -
  from adjustBalance_Inr [OF p] obtain w s1 s3 where
    a: "walletAdd s (wId w) dr dg = Inr s1" and
    p1: "postIf (dr \<noteq> 0) (s1\<lparr>nextId := nextId s1 + 1,
        transactions := transactions s1 @ [adjustTransaction (nextId s1) c w dr dg]\<rparr>)
       (now c) (adjustRialJournal admin (nextId s1) dr) = Inr s3" (is "postIf _ ?s2 _ _ = _") and
    p2: "postIf (dg \<noteq> 0) s3 (now c) (adjustGramJournal admin (nextId s1) dg) = Inr s'" .
  note fr = walletAdd_frame [OF a]
  have x1: "wf_except {} s1" using wf_except_walletAdd [OF wf [unfolded wf_bank_def] a] .
  have x2: "wf_bank ?s2" unfolding wf_bank_def by (rule wf_except_same [OF x1]) simp_all
  note q1 = postIf_bank [OF x2 p1]
  note q2 = postIf_bank [OF q1(1) p2]
  have r: "rialOf ?s2 = rialOf s" "gramsOf ?s2 = gramsOf s"
    by (intro ext, simp add: rialOf_def gramsOf_def fr)+
  have t: "totalRial s' = totalRial s1" "totalGrams s' = totalGrams s1"
    using totals_cong [of s' s1] q1(2) q2(2) by simp_all
  note ta = walletAdd_totals [OF a wf_bank_wallets [OF wf]]
  show "wf_bank s'" by (rule q2(1))
  show "totalRial s' - rialOf s' ''2010'' = totalRial s - rialOf s ''2010''"
    using q1(3) q2(3) unfolding r by (simp add: t ta(1) adjust_net)
  show "totalGrams s' - gramsOf s' ''2020'' = totalGrams s - gramsOf s ''2020''" if "on_grid dg"
    using q1(4) q2(4) that unfolding r by (simp add: t ta(2) adjust_net)
qed

end
