(* ===== verification/Banking.thy ===== *)
theory Banking
  imports WalletAdmin
begin

section \<open>Withdrawals and transfers as one service\<close>

text \<open>
  The calls of \<open>WalletService\<close> and \<open>WalletAdminService\<close> that change state, as the steps
  of one service: the books against the wallets, the statuses of a withdrawal over any
  sequence of calls, and what a call does to the balance a user can still spend.
  \<open>gramsOfUnits\<close> reads a column of grams that is kept in ten-thousandths.
\<close>

definition gramsOfUnits :: "int \<Rightarrow> rat" where
  "gramsOfUnits n = of_int n / 10000"

lemma on_grid_units [simp]: "on_grid (gramsOfUnits n)"
  unfolding on_grid_iff gramsOfUnits_def by blast

datatype bank_op =
    Request nat nat int
  | Cancel nat nat
  | Transfer nat string rat
  | Approve nat nat "string option"
  | Pay nat nat pay_input "string option"
  | PayBatch nat "nat list" "nat \<Rightarrow> string option" pay_input string
  | Reject nat nat string
  | MarkReturned nat nat string
  | Adjust nat nat int rat

fun bank_step :: "'a bank_scheme \<Rightarrow> clock \<times> bank_op \<Rightarrow> 'a bank_scheme res" where
  "bank_step s (c, Request u b a) = stateOf (requestWithdrawal s c u b a)"
| "bank_step s (c, Cancel u i) = cancelMyWithdrawal s u i"
| "bank_step s (c, Transfer u card_no g) = internalTransfer s c u card_no g"
| "bank_step s (c, Approve a i note) = stateOf (approve s a i note)"
| "bank_step s (c, Pay a i dto batch) = stateOf (pay s c a i dto batch)"
| "bank_step s (c, PayBatch a ids refs dto batch) = stateOf (payBatch s c a ids refs dto batch)"
| "bank_step s (c, Reject a i reason) = stateOf (reject s a i reason)"
| "bank_step s (c, MarkReturned a i reason) = stateOf (markReturned s c a i reason)"
| "bank_step s (c, Adjust a u dr dg) = adjustBalance s c a u dr dg"

text \<open>
  The service takes the gram amount of a transfer or of a correction as it comes, with any number
  of decimals; the gram columns keep four. These are the calls whose amount does not fit them.
\<close>

fun offGrid :: "bank_op \<Rightarrow> bool" where
  "offGrid (Transfer u card_no g) = (\<not> on_grid g)"
| "offGrid (Adjust a u dr dg) = (\<not> on_grid dg)"
| "offGrid _ = False"

subsection \<open>The wallets and their control accounts\<close>

definition rialGap :: "'a bank_scheme \<Rightarrow> int" where
  "rialGap s = totalRial s - rialOf s ''2010''"

definition gramGap :: "'a bank_scheme \<Rightarrow> rat" where
  "gramGap s = totalGrams s - gramsOf s ''2020''"

lemma gaps_cong:
  "wallets s' = wallets s \<Longrightarrow> accounts s' = accounts s \<Longrightarrow> rialGap s' = rialGap s \<and> gramGap s' = gramGap s"
  by (simp add: rialGap_def gramGap_def totalRial_def totalGrams_def rialOf_def gramsOf_def)

lemma payBatch_loop:
  assumes "payBatch s c a ids refs dto batch = Inr (s', rs)"
  shows "s' = fst (payLoop s c a refs dto batch ids)"
  using assms unfolding payBatch_def by (auto split: if_splits)

lemma requestWithdrawal_frame:
  assumes "requestWithdrawal s c u b a = Inr (s', i)"
  shows "wallets s' = wallets s" "accounts s' = accounts s"
proof -
  from requestWithdrawal_Inr [OF assms] obtain ba w fee where
    "(s', i) = createWithdrawal s c u ba w a fee" by metis
  then have "s' = fst (createWithdrawal s c u ba w a fee)" by (metis fst_conv)
  then show "wallets s' = wallets s" "accounts s' = accounts s" by (simp_all add: createWithdrawal_frame)
qed

text \<open>
  A wallet is rounded to four decimals on every write, so a transfer that does not fit the
  columns rounds two wallets, and a correction rounds one against an exact posting.
\<close>

lemma walletAdd_rounding:
  assumes "walletAdd s wid dr dg = Inr s'" and "wf_wallets (wallets s)"
  shows "\<bar>totalGrams s' - (totalGrams s + dg)\<bar> \<le> 1/20000"
proof -
  from assms(1) obtain w where w: "walletById s wid = Some w" and
    s': "s' = s\<lparr>wallets := update_where (\<lambda>w. wId w = wid)
            (\<lambda>w. w\<lparr>wRial := wRial w + dr, wGrams := numeric4 (wGrams w + dg)\<rparr>) (wallets s)\<rparr>"
    by (rule walletAdd_Inr)
  note d = assms(2) [unfolded wf_wallets_def, THEN conjunct1] and f = w [unfolded walletById_def]
  have "totalGrams s' - (totalGrams s + dg) = numeric4 (wGrams w + dg) - (wGrams w + dg)"
    by (simp add: s' totalGrams_def sum_update_where_key [OF d f])
  then show ?thesis using numeric4_error [of "wGrams w + dg"] by (simp only:)
qed

lemma internalTransfer_rounding:
  assumes wf: "wf_bank s" and t: "internalTransfer s c u cardNo g = Inr s'"
  shows "\<bar>totalGrams s' - totalGrams s\<bar> \<le> 1/10000"
proof -
  from t obtain i j s1 s2 ts where
    a: "walletAdd s i 0 (- g) = Inr s1" "walletAdd s1 j 0 g = Inr s2"
    and s': "s' = s2\<lparr>nextId := nextId s + 2, transactions := ts\<rparr>"
    by (rule internalTransfer_writes)
  have w: "wf_wallets (wallets s)" "wf_wallets (wallets s1)"
    using wf wf_except_walletAdd [OF _ a(1)] unfolding wf_bank_def wf_except_def by blast+
  have "totalGrams s' = totalGrams s2" by (simp add: s' totalGrams_def)
  then show ?thesis
    using walletAdd_rounding [OF a(1) w(1)] walletAdd_rounding [OF a(2) w(2)] by linarith
qed

lemma adjustBalance_rounding:
  assumes wf: "wf_bank s" and p: "adjustBalance s c admin u dr dg = Inr s'"
  shows "\<bar>gramGap s' - gramGap s\<bar> \<le> 1/20000"
proof -
  from adjustBalance_Inr [OF p] obtain w s1 s3 where
    a: "walletAdd s (wId (w :: wallet)) dr dg = Inr s1" and
    p1: "postIf (dr \<noteq> 0) (s1\<lparr>nextId := nextId s1 + 1,
        transactions := transactions s1 @ [adjustTransaction (nextId s1) c w dr dg]\<rparr>)
       (now c) (adjustRialJournal admin (nextId s1) dr) = Inr s3" (is "postIf _ ?s2 _ _ = _") and
    p2: "postIf (dg \<noteq> 0) s3 (now c) (adjustGramJournal admin (nextId s1) dg) = Inr s'" .
  have x1: "wf_except {} s1" using wf_except_walletAdd [OF wf [unfolded wf_bank_def] a] .
  have x2: "wf_bank ?s2" unfolding wf_bank_def by (rule wf_except_same [OF x1]) simp_all
  note q1 = postIf_bank [OF x2 p1]
  note q2 = postIf_bank [OF q1(1) p2]
  have r: "gramsOf ?s2 = gramsOf s" by (intro ext, simp add: gramsOf_def walletAdd_frame [OF a])
  have t: "totalGrams s' = totalGrams s1" using totals_cong [of s' s1] q1(2) q2(2) by simp
  have "gramGap s' - gramGap s = totalGrams s1 - (totalGrams s + dg)"
    using q1(4) q2(4) unfolding r by (simp add: gramGap_def t adjust_net)
  then show ?thesis using walletAdd_rounding [OF a wf_bank_wallets [OF wf]] by simp
qed

text \<open>What a call can move gold and its control account apart by.\<close>

definition gramSlack :: "bank_op \<Rightarrow> rat" where
  "gramSlack x = (if offGrid x then 1/10000 else 0)"

lemma gramSlack_nonneg [simp]: "0 \<le> gramSlack x"
  by (simp add: gramSlack_def)

lemma bank_step_gaps:
  assumes "wf_bank s" "bank_step s (c, x) = Inr s'"
  shows "wf_bank s' \<and> rialGap s' = rialGap s \<and> \<bar>gramGap s' - gramGap s\<bar> \<le> gramSlack x"
proof (cases x)
  case (Request u b a)
  then obtain i where p: "requestWithdrawal s c u b a = Inr (s', i)" using assms(2) by auto
  show ?thesis
    using gaps_cong [OF requestWithdrawal_frame [OF p]] wf_requestWithdrawal [OF assms(1) p] by simp
next
  case (Cancel u i)
  then have p: "cancelMyWithdrawal s u i = Inr s'" using assms(2) by simp
  then have f: "wallets s' = wallets s" "accounts s' = accounts s"
    by (auto elim!: cancelMyWithdrawal_Inr)
  show ?thesis using gaps_cong [OF f] wf_cancelMyWithdrawal [OF assms(1) p] by simp
next
  case (Transfer u card_no g)
  then have t: "internalTransfer s c u card_no g = Inr s'" using assms(2) by simp
  have "rialOf s' = rialOf s" "gramsOf s' = gramsOf s"
    by (intro ext, simp add: rialOf_def gramsOf_def internalTransfer_totals(3) [OF assms(1) t])+
  then show ?thesis
    using internalTransfer_totals(1,2) [OF assms(1) t] internalTransfer_rounding [OF assms(1) t]
      wf_internalTransfer [OF assms(1) t] Transfer
    by (simp add: rialGap_def gramGap_def gramSlack_def)
next
  case (Approve a i nt)
  then obtain d where p: "approve s a i nt = Inr (s', d)" using assms(2) by auto
  then have f: "wallets s' = wallets s" "accounts s' = accounts s" by (auto elim!: approve_Inr)
  show ?thesis using gaps_cong [OF f] wf_approve [OF assms(1) p] by simp
next
  case (Pay a i dto batch)
  then obtain d where p: "pay s c a i dto batch = Inr (s', d)" using assms(2) by auto
  show ?thesis using wf_pay [OF assms(1) p] by (simp add: rialGap_def gramGap_def)
next
  case (PayBatch a ids refs dto batch)
  then obtain rs where p: "payBatch s c a ids refs dto batch = Inr (s', rs)" using assms(2) by auto
  show ?thesis using payLoop_run [OF assms(1), of c a refs dto batch ids]
    unfolding payBatch_loop [OF p] rialGap_def gramGap_def by simp
next
  case (Reject a i reason)
  then obtain d where p: "reject s a i reason = Inr (s', d)" using assms(2) by auto
  then have f: "wallets s' = wallets s" "accounts s' = accounts s" by (auto elim!: reject_Inr)
  show ?thesis using gaps_cong [OF f] wf_reject [OF assms(1) p] by simp
next
  case (MarkReturned a i reason)
  then obtain d where p: "markReturned s c a i reason = Inr (s', d)" using assms(2) by auto
  show ?thesis using wf_markReturned [OF assms(1) p] by (simp add: rialGap_def gramGap_def)
next
  case (Adjust a u dr dg)
  then have p: "adjustBalance s c a u dr dg = Inr s'" using assms(2) by simp
  show ?thesis using wf_adjustBalance [OF assms(1) p] adjustBalance_rounding [OF assms(1) p] Adjust
    by (simp add: rialGap_def gramGap_def gramSlack_def)
qed

lemma bank_step_moves:
  assumes "wf_bank s" "bank_step s p = Inr s'"
  shows "wf_bank s'" and "totalRial s' - rialOf s' ''2010'' = totalRial s - rialOf s ''2010''"
    and "\<bar>(totalGrams s' - gramsOf s' ''2020'') - (totalGrams s - gramsOf s ''2020'')\<bar> \<le> gramSlack (snd p)"
  using bank_step_gaps [of s "fst p" "snd p" s'] assms by (simp_all add: rialGap_def gramGap_def)

interpretation rial_control: control_account
    "bank_step :: 'a bank_scheme \<Rightarrow> clock \<times> bank_op \<Rightarrow> 'a bank_scheme res"
    wf_bank totalRial "\<lambda>s. rialOf s ''2010''"
  by unfold_locales (rule bank_step_moves; assumption)+

interpretation gram_control: drifting_account
    "bank_step :: 'a bank_scheme \<Rightarrow> clock \<times> bank_op \<Rightarrow> 'a bank_scheme res"
    wf_bank totalGrams "\<lambda>s. gramsOf s ''2020''" "\<lambda>p. gramSlack (snd p)"
  by unfold_locales (simp, rule bank_step_moves(3))

subsection \<open>The life of a withdrawal\<close>

inductive wd_next :: "withdrawal_status \<Rightarrow> withdrawal_status \<Rightarrow> bool" where
  approved: "wd_next WD_PENDING WD_APPROVED"
| cancelled: "wd_next WD_PENDING WD_CANCELLED"
| refused: "wd_next WD_PENDING WD_REJECTED"
| withdrawn: "wd_next WD_APPROVED WD_REJECTED"
| paid: "wd_next WD_APPROVED WD_PROCESSED"
| returned: "wd_next WD_PROCESSED WD_RETURNED"

inductive_cases wd_nextE: "wd_next a b"
inductive_simps wd_next_final [simp]:
  "wd_next WD_CANCELLED b" "wd_next WD_REJECTED b" "wd_next WD_RETURNED b"

definition evolves :: "withdrawal \<Rightarrow> withdrawal \<Rightarrow> bool" where
  "evolves w v \<longleftrightarrow>
     wd_next\<^sup>*\<^sup>* (wdStatus w) (wdStatus v) \<and> wdId v = wdId w \<and> wdUser v = wdUser w \<and>
     wdRial v = wdRial w \<and> wdFee v = wdFee w \<and> wdDestination v = wdDestination w"

definition history :: "'a bank_scheme \<Rightarrow> 'a bank_scheme \<Rightarrow> bool" where
  "history s s' \<longleftrightarrow> (\<forall>w \<in> set (withdrawals s). \<exists>v \<in> set (withdrawals s'). evolves w v)"

lemma evolves_refl [simp]: "evolves w w"
  by (simp add: evolves_def)

lemma history_refl: "history s s"
  unfolding history_def using evolves_refl by blast

lemma evolves_trans: "evolves u v \<Longrightarrow> evolves v w \<Longrightarrow> evolves u w"
  unfolding evolves_def by auto

lemma history_trans: "history s s1 \<Longrightarrow> history s1 s2 \<Longrightarrow> history s s2"
  unfolding history_def using evolves_trans by blast

lemma history_same: "set (withdrawals s) \<subseteq> set (withdrawals s') \<Longrightarrow> history s s'"
  unfolding history_def using evolves_refl by blast

lemma history_set:
  assumes "wf_bank s" "w \<in> set (withdrawals s)" "evolves w (f w)"
    and s': "withdrawals s' = update_where (\<lambda>v. wdId v = wdId w) f (withdrawals s)"
  shows "history s s'"
  unfolding history_def
proof
  fix v assume v: "v \<in> set (withdrawals s)"
  have r: "wf_requests (nextId s) (withdrawals s)" using assms(1) by (simp add: wf_bank_def wf_except_def)
  show "\<exists>u \<in> set (withdrawals s'). evolves v u"
  proof (cases "wdId v = wdId w")
    case True
    then have "v = w" using wf_requests_id [OF r v assms(2)] by simp
    then show ?thesis using v assms(3) by (auto simp: s' set_update_where)
  next
    case False
    then have "v \<in> set (withdrawals s')" using v by (auto simp: s' set_update_where image_iff)
    then show ?thesis using evolves_refl by blast
  qed
qed

lemma history_payWrites:
  assumes wf: "wf_bank s" and w: "w \<in> set (withdrawals s)" "wdStatus w = WD_APPROVED"
    and p: "payWrites s c admin w wal code paidAt dto batch = Inr s'"
  shows "history s s'"
proof -
  from payWrites_Inr [OF p] obtain s1 s2 s3 j f as where
    a: "walletAdd s (wId wal) (- wdRial w) 0 = Inr s1" and
    s2: "s2 = completeTransaction (dropHold s1 (wdHold w)) (wdTransaction w) (wdFee w)" and
    post: "postJournal s2 (now c) (payJournal w admin code paidAt) = Inr (s3, j)" and
    s': "s' = (setWithdrawal s3 (wdId w) f)\<lparr>approvals := as\<rparr>" and
    f: "f = (\<lambda>x. x\<lparr>wdStatus := WD_PROCESSED, wdProcessedBy := Some admin,
                wdPaidBy := Some admin, wdPaidAt := Some paidAt,
                wdBankReference := Some (trim (piReference dto)),
                wdPayoutMethod := Some (case piMethod dto of None \<Rightarrow> ''PAYA'' | Some m \<Rightarrow> m),
                wdSource := Some code, wdBatch := batch, wdJournal := Some j,
                wdNotes := noteOr (piNote dto) (wdNotes w)\<rparr>)"
    by metis
  show ?thesis
  proof (rule history_set [where f = f, OF wf w(1)])
    show "evolves w (f w)" using w(2) by (simp add: f evolves_def r_into_rtranclp paid)
    show "withdrawals s' = update_where (\<lambda>v. wdId v = wdId w) f (withdrawals s)"
      using postJournal_bank(4) [OF post] walletAdd_frame(7) [OF a]
      by (simp add: s' s2 withdrawals_setWithdrawal)
  qed
qed

lemma history_pay:
  assumes wf: "wf_bank s" and "pay s c admin i dto batch = Inr (s', d)"
  shows "history s s'"
proof -
  from pay_Inr [OF assms(2)] obtain w where "w \<in> set (withdrawals s)"
    "s' = s \<or> (\<exists>code wal paidAt. wdStatus w = WD_APPROVED \<and>
       payWrites s c admin w wal code paidAt dto batch = Inr s')" by metis
  then show ?thesis using history_payWrites [OF wf] history_refl by metis
qed

lemma history_payLoop:
  "wf_bank s \<Longrightarrow> history s (fst (payLoop s c admin refs dto batch is))"
proof (induction "is" arbitrary: s)
  case Nil
  then show ?case by (simp add: history_refl)
next
  case (Cons i "is")
  let ?r = "case refs i of None \<Rightarrow> [] | Some r \<Rightarrow> trim r"
  let ?d = "dto\<lparr>piReference := if ?r = [] then piReference dto else ?r\<rparr>"
  show ?case
  proof (cases "pay s c admin i ?d (Some batch)")
    case (Inl e)
    then show ?thesis using Cons by (simp add: Let_def case_prod_beta)
  next
    case (Inr x)
    obtain s1 b where p: "pay s c admin i ?d (Some batch) = Inr (s1, b)" using Inr by (cases x) auto
    have "history s s1" "wf_bank s1" using history_pay [OF Cons.prems p] wf_pay(1) [OF Cons.prems p] by auto
    then show ?thesis using Cons.IH [of s1] p history_trans
      by (simp add: Let_def case_prod_beta)
  qed
qed

lemma history_markReturned:
  assumes wf: "wf_bank s" and m: "markReturned s c admin i reason = Inr (s', d)"
  shows "history s s'"
proof -
  let ?f = "\<lambda>j x. x\<lparr>wdStatus := WD_RETURNED, wdReason := Some (trim reason), wdReturnJournal := Some j\<rparr>"
  from markReturned_Inr [OF m] obtain w where w: "w \<in> set (withdrawals s)" and
    alt: "s' = s \<or> (\<exists>wid s1 s3 j ts. wdStatus w = WD_PROCESSED \<and>
        walletAdd s wid (wdRial w) 0 = Inr s1 \<and>
        postReturn (s1\<lparr>nextId := nextId s1 + 1, transactions := ts\<rparr>) c admin w = Inr (s3, j) \<and>
        s' = setWithdrawal s3 (wdId w) (?f j))"
    by metis
  show ?thesis
  proof (cases "s' = s")
    case True
    then show ?thesis by (simp add: history_refl)
  next
    case False
    with alt obtain wid s1 s3 j ts where st: "wdStatus w = WD_PROCESSED" and
      a: "walletAdd s wid (wdRial w) 0 = Inr s1" and
      p: "postReturn (s1\<lparr>nextId := nextId s1 + 1, transactions := ts\<rparr>) c admin w = Inr (s3, j)" and
      s': "s' = setWithdrawal s3 (wdId w) (?f j)" by blast
    from postReturn_posts [OF p] obtain q where
      "postJournal (s1\<lparr>nextId := nextId s1 + 1, transactions := ts\<rparr>) (now c) q = Inr (s3, j)" .
    from postJournal_bank(4) [OF this] have "withdrawals s3 = withdrawals s"
      by (simp add: walletAdd_frame(7) [OF a])
    then show ?thesis using st
      by (intro history_set [where f = "?f j", OF wf w])
         (simp_all add: s' evolves_def r_into_rtranclp returned withdrawals_setWithdrawal)
  qed
qed

lemma history_request:
  assumes "requestWithdrawal s c u b a = Inr (s', i)"
  shows "history s s'"
proof -
  from requestWithdrawal_Inr [OF assms] obtain ba w fee where
    "(s', i) = createWithdrawal s c u ba w a fee" by metis
  then have "s' = fst (createWithdrawal s c u ba w a fee)" by (metis fst_conv)
  then show ?thesis
    by (intro history_same) (auto simp: createWithdrawal_def sequenceNext_def Let_def)
qed

lemma history_cancel:
  assumes wf: "wf_bank s" and "cancelMyWithdrawal s u i = Inr s'"
  shows "history s s'"
proof -
  let ?f = "\<lambda>x. x\<lparr>wdStatus := WD_CANCELLED\<rparr>"
  from assms(2) obtain w where w: "w \<in> set (withdrawals s)" and
    alt: "s' = s \<or> wdStatus w = WD_PENDING \<and>
     s' = setWithdrawal (setTransaction (dropHold s (wdHold w)) (wdTransaction w) TX_FAILED) (wdId w) ?f"
    by (rule cancelMyWithdrawal_Inr) blast
  then show ?thesis
  proof (elim disjE conjE)
    assume "wdStatus w = WD_PENDING" and
      s': "s' = setWithdrawal (setTransaction (dropHold s (wdHold w)) (wdTransaction w) TX_FAILED) (wdId w) ?f"
    then have "evolves w (?f w)" by (simp add: evolves_def r_into_rtranclp cancelled)
    then show ?thesis
      by (rule history_set [where f = ?f, OF wf w]) (simp add: s' withdrawals_setWithdrawal)
  qed (simp add: history_refl)
qed

lemma history_approve:
  assumes wf: "wf_bank s" and "approve s admin i nt = Inr (s', d)"
  shows "history s s'"
proof -
  from assms(2) obtain w f as where w: "w \<in> set (withdrawals s)" and
    f: "f = (\<lambda>x. x\<lparr>wdStatus := WD_APPROVED, wdReviewedBy := Some admin,
                    wdNotes := noteOr nt (wdNotes w)\<rparr>)" and
    alt: "s' = s \<or> wdStatus w = WD_PENDING \<and> s' = (setWithdrawal s (wdId w) f)\<lparr>approvals := as\<rparr>"
    by (rule approve_Inr) blast
  from alt show ?thesis
  proof (elim disjE conjE)
    assume "wdStatus w = WD_PENDING" and s': "s' = (setWithdrawal s (wdId w) f)\<lparr>approvals := as\<rparr>"
    then have "evolves w (f w)" by (simp add: f evolves_def r_into_rtranclp approved)
    then show ?thesis
      by (rule history_set [where f = f, OF wf w]) (simp add: s' withdrawals_setWithdrawal)
  qed (simp add: history_refl)
qed

lemma history_reject:
  assumes wf: "wf_bank s" and "reject s admin i reason = Inr (s', d)"
  shows "history s s'"
proof -
  from assms(2) obtain w f as where w: "w \<in> set (withdrawals s)" and
    f: "f = (\<lambda>x. x\<lparr>wdStatus := WD_REJECTED, wdReason := Some (trim reason),
                    wdNotes := Some (trim reason), wdProcessedBy := Some admin,
                    wdReviewedBy := Some admin\<rparr>)" and
    alt: "s' = s \<or> isOpen w \<and> s' = (setWithdrawal
       (setTransaction (dropHold s (wdHold w)) (wdTransaction w) TX_FAILED) (wdId w) f)\<lparr>approvals := as\<rparr>"
    by (rule reject_Inr) blast
  from alt show ?thesis
  proof (elim disjE conjE)
    assume "isOpen w" and s': "s' = (setWithdrawal
       (setTransaction (dropHold s (wdHold w)) (wdTransaction w) TX_FAILED) (wdId w) f)\<lparr>approvals := as\<rparr>"
    then have "evolves w (f w)" by (auto simp: isOpen_def f evolves_def r_into_rtranclp refused withdrawn)
    then show ?thesis
      by (rule history_set [where f = f, OF wf w]) (simp add: s' withdrawals_setWithdrawal)
  qed (simp add: history_refl)
qed

lemma postIf_withdrawals:
  fixes s :: "'a bank_scheme"
  shows "postIf b s t p = Inr s' \<Longrightarrow> withdrawals s' = withdrawals s"
  unfolding postIf_def by (auto split: if_splits dest: postJournal_bank(4))

lemma history_adjust:
  assumes "adjustBalance s c a u dr dg = Inr s'"
  shows "history s s'"
proof -
  from adjustBalance_Inr [OF assms] obtain w s1 s3 ts p q where
    a: "walletAdd s (wId (w::wallet)) dr dg = Inr s1" and
    p: "postIf (dr \<noteq> 0) (s1\<lparr>nextId := nextId s1 + 1, transactions := ts\<rparr>) (now c) p = Inr s3"
       "postIf (dg \<noteq> 0) s3 (now c) q = Inr s'" by metis
  show ?thesis
    by (rule history_same)
       (simp add: postIf_withdrawals [OF p(2)] postIf_withdrawals [OF p(1)] walletAdd_frame(7) [OF a])
qed

lemma history_transfer:
  assumes "internalTransfer s c u card_no g = Inr s'"
  shows "history s s'"
  by (rule internalTransfer_writes [OF assms], rule history_same) (simp add: walletAdd_frame(7))

lemma bank_step_history:
  assumes wf: "wf_bank s" and st: "bank_step s (c, x) = Inr s'"
  shows "history s s'"
  using st
  by (cases x)
     (auto dest: history_request history_cancel [OF wf] history_transfer history_approve [OF wf]
        history_pay [OF wf] history_reject [OF wf] history_markReturned [OF wf] history_adjust
        payBatch_loop intro: history_payLoop [OF wf])

interpretation withdrawal_life: evolving_service
    "bank_step :: 'a bank_scheme \<Rightarrow> clock \<times> bank_op \<Rightarrow> 'a bank_scheme res" wf_bank history
proof unfold_locales
  show "history s s1 \<Longrightarrow> history s1 s2 \<Longrightarrow> history s s2" for s s1 s2 :: "'a bank_scheme"
    by (rule history_trans)
  show "wf_bank s \<Longrightarrow> bank_step s p = Inr s' \<Longrightarrow> history s s'" for s p and s' :: "'a bank_scheme"
    using bank_step_history [of s "fst p" "snd p" s'] by simp
qed (rule history_refl)

subsection \<open>What a user can still spend\<close>

definition availableRial :: "'a bank_scheme \<Rightarrow> int \<Rightarrow> wallet \<Rightarrow> int" where
  "availableRial s t w = wRial w - heldRial s t (wId w)"

text \<open>The hold of a request, while it is in force at an instant.\<close>

definition liveHold :: "'a bank_scheme \<Rightarrow> int \<Rightarrow> withdrawal \<Rightarrow> bool" where
  "liveHold s t w \<longleftrightarrow> (\<exists>h \<in> set (holds s). wdHold w = Some (hId h) \<and> t < hExpires h)"

lemma heldRial_cong: "holds s' = holds s \<Longrightarrow> heldRial s' t i = heldRial s t i"
  by (simp add: heldRial_def)

lemma heldRial_createWithdrawal:
  "heldRial (fst (createWithdrawal s c u b w amount fee)) t i =
     heldRial s t i + (if i = wId w \<and> t < now c + 3650 * day_ms then amount else 0)"
  by (auto simp: createWithdrawal_def sequenceNext_def Let_def heldRial_def activeHold_def toDecimal_def)

lemma heldRial_dropHold:
  assumes "wf_bank s" "w \<in> set (withdrawals s)" "isOpen w" "ownerId (wallets s) (wdUser w) = Some wid"
  shows "heldRial (dropHold s (wdHold w)) t i =
     heldRial s t i - (if i = wid \<and> liveHold s t w then wdRial w else 0)"
proof -
  from wf_bank_linked [OF assms(1,2)] assms(3) obtain h where
    h: "h \<in> set (holds s)" "wdHold w = Some (hId h)" "hRial h = Some (wdRial w)"
       "ownerId (wallets s) (wdUser w) = Some (hWallet h)"
    unfolding linked_def by blast
  have d: "distinct (map hId (holds s))"
    using assms(1) by (simp add: wf_bank_def wf_except_def wf_holds_def)
  have f: "find (\<lambda>x. hId x = hId h) (holds s) = Some h" using find_unique [OF d h(1)] .
  have inj: "inj_on hId (set (holds s))" using d by (simp add: distinct_map)
  have e: "x = h" if "x \<in> set (holds s)" "hId x = hId h" for x
    by (rule inj_onD [OF inj that(2) that(1) h(1)])
  have l: "liveHold s t w \<longleftrightarrow> t < hExpires h"
  proof
    assume "liveHold s t w"
    then obtain x where x: "x \<in> set (holds s)" "hId x = hId h" "t < hExpires x"
      unfolding liveHold_def h(2) by auto
    from e [OF x(1,2)] x(3) show "t < hExpires h" by simp
  next
    assume "t < hExpires h"
    with h(1) show "liveHold s t w" unfolding liveHold_def h(2) by blast
  qed
  have "hWallet h = wid" using h(4) assms(4) by simp
  then show ?thesis
    using sum_where_delete_key [OF d f, of "activeHold t i" "\<lambda>h. toDecimal (hRial h)"] h(3)
    by (auto simp: dropHold_def h(2) heldRial_def activeHold_def l toDecimal_def)
qed

lemma heldRial_setTransaction [simp]: "heldRial (setTransaction s i st) t wid = heldRial s t wid"
  by (simp add: heldRial_def)

lemma heldRial_setWithdrawal [simp]: "heldRial (setWithdrawal s i f) t wid = heldRial s t wid"
  by (simp add: heldRial_def)

lemma usedRial_createWithdrawal:
  "usedRial (fst (createWithdrawal s c u b w amount fee)) u WITHDRAWAL {TX_PENDING, TX_COMPLETED} since =
     usedRial s u WITHDRAWAL {TX_PENDING, TX_COMPLETED} since + (if since \<le> now c then amount else 0)"
  by (auto simp: createWithdrawal_def sequenceNext_def Let_def usedRial_def toDecimal_def)

lemma assertWithinWithdrawalLimits_Inr:
  "assertWithinWithdrawalLimits s c u amount daily monthly = Inr () \<longleftrightarrow>
     of_int (usedRial s u WITHDRAWAL {TX_PENDING, TX_COMPLETED} (today c) + amount) \<le> daily \<and>
     of_int (usedRial s u WITHDRAWAL {TX_PENDING, TX_COMPLETED} (firstOfMonth c) + amount) \<le> monthly"
  unfolding assertWithinWithdrawalLimits_def Let_def by (auto simp: not_less)

lemma calcWithdrawalFee_max:
  assumes "0 < getNumber s ''withdrawal.fee_max_rial'' 0"
  shows "of_int (calcWithdrawalFee s a) \<le> getNumber s ''withdrawal.fee_max_rial'' 0 + 1/2"
proof -
  let ?mx = "getNumber s ''withdrawal.fee_max_rial'' 0"
  have "of_int (js_round x) \<le> x + 1/2" for x :: rat
    unfolding js_round_def by linarith
  then have b: "x \<le> ?mx \<Longrightarrow> of_int (js_round x) \<le> ?mx + 1/2" for x
    by (meson add_le_cancel_right order_trans)
  show ?thesis
    using assms unfolding calcWithdrawalFee_def Let_def
    by (auto simp: max_def intro: b)
qed

text \<open>The row a write to a wallet leaves.\<close>

lemma walletById_cong: "wallets s' = wallets s \<Longrightarrow> walletById s' i = walletById s i"
  by (simp add: walletById_def)

text \<open>Everything a payout that was not done before tells about its request and its wallet.\<close>

lemma pay_fresh:
  assumes wf: "wf_bank s" and p: "pay s c admin i dto batch = Inr (s', False)"
  obtains w wal code paidAt where
    "w \<in> set (withdrawals s)" "wdId w = i" "wdStatus w = WD_APPROVED"
    "dualControlThreshold s \<le> of_int (wdRial w) \<Longrightarrow> wdReviewedBy w \<noteq> Some admin"
    "walletOfUser s (wdUser w) = Some wal" "wdRial w \<le> wRial wal" "starts_with CASH_ROOT_CODE code"
    "payWrites s c admin w wal code paidAt dto batch = Inr s'"
  using pay_Inr [OF p] by (metis requiresDualControl_def)

lemma payWrites_row:
  assumes wf: "wf_bank s" and w: "w \<in> set (withdrawals s)" "walletOfUser s (wdUser w) = Some wal"
    and p: "payWrites s c admin w wal code paidAt dto batch = Inr s'"
  shows "walletById s' (wId wal) = Some (wal\<lparr>wRial := wRial wal - wdRial w\<rparr>)"
    and "wdStatus w = WD_APPROVED \<Longrightarrow> heldRial s' t (wId wal) =
           heldRial s t (wId wal) - (if liveHold s t w then wdRial w else 0)"
    and "\<exists>v. withdrawalById s' (wdId w) = Some v \<and> wdStatus v = WD_PROCESSED \<and> wdPaidBy v = Some admin"
proof -
  from payWrites_Inr [OF p] obtain s1 s2 s3 j f as where
    a: "walletAdd s (wId wal) (- wdRial w) 0 = Inr s1" and
    s2: "s2 = completeTransaction (dropHold s1 (wdHold w)) (wdTransaction w) (wdFee w)" and
    post: "postJournal s2 (now c) (payJournal w admin code paidAt) = Inr (s3, j)" and
    s': "s' = (setWithdrawal s3 (wdId w) f)\<lparr>approvals := as\<rparr>" and
    f: "f = (\<lambda>x. x\<lparr>wdStatus := WD_PROCESSED, wdProcessedBy := Some admin,
                wdPaidBy := Some admin, wdPaidAt := Some paidAt,
                wdBankReference := Some (trim (piReference dto)),
                wdPayoutMethod := Some (case piMethod dto of None \<Rightarrow> ''PAYA'' | Some m \<Rightarrow> m),
                wdSource := Some code, wdBatch := batch, wdJournal := Some j,
                wdNotes := noteOr (piNote dto) (wdNotes w)\<rparr>)"
    by metis
  note fr = walletAdd_frame [OF a] and pb = postJournal_bank [OF post]
  have wal: "wal \<in> set (wallets s)" using walletOfUser_in [OF w(2)] by simp
  have ww: "wf_wallets (wallets s)" using wf by (rule wf_bank_wallets)
  have by_id: "walletById s (wId wal) = Some wal" using ww wal by (rule walletById_of)
  have g: "numeric4 (wGrams wal) = wGrams wal" using ww wal by (simp add: wf_wallets_def)
  have "walletById s' (wId wal) = walletById s1 (wId wal)" by (rule walletById_cong) (simp add: s' pb s2)
  then show "walletById s' (wId wal) = Some (wal\<lparr>wRial := wRial wal - wdRial w\<rparr>)"
    using walletAdd_row(1) [OF a by_id] g by simp
  have h: "holds s' = holds (dropHold s (wdHold w))" by (simp add: s' pb s2 holds_dropHold fr)
  show "heldRial s' t (wId wal) = heldRial s t (wId wal) - (if liveHold s t w then wdRial w else 0)"
    if "wdStatus w = WD_APPROVED"
  proof -
    have "ownerId (wallets s) (wdUser w) = Some (wId wal)" using w(2) by (simp add: ownerId_def walletOfUser_def)
    from heldRial_dropHold [OF wf w(1) _ this, of t "wId wal"] that show ?thesis
      unfolding heldRial_cong [OF h] by (simp add: isOpen_def)
  qed
  have r: "wf_requests (nextId s) (withdrawals s)" using wf by (simp add: wf_bank_def wf_except_def)
  then have d: "distinct (map wdId (withdrawals s))" by (simp add: wf_requests_def)
  have "withdrawals s' = update_where (\<lambda>x. wdId x = wdId w) f (withdrawals s)"
    by (simp add: s' withdrawals_setWithdrawal pb s2 fr)
  then have "withdrawalById s' (wdId w) = Some (f w)"
    using find_unique [OF d w(1)] by (simp add: withdrawalById_def find_update_where_same f)
  then show "\<exists>v. withdrawalById s' (wdId w) = Some v \<and> wdStatus v = WD_PROCESSED \<and> wdPaidBy v = Some admin"
    by (simp add: f)
qed

lemma same_wallet_update:
  assumes "wf_wallets ws" "find (\<lambda>w. wId w = i) ws = Some w"
    and u: "\<And>x. wId (u x) = wId x" and v: "v (u w) = w"
  shows "update_where (\<lambda>w. wId w = i) v (update_where (\<lambda>w. wId w = i) u ws) = ws"
proof -
  have inj: "inj_on wId (set ws)" using assms(1) by (simp add: wf_wallets_def distinct_map)
  have w: "w \<in> set ws" "wId w = i" using find_SomeD [OF assms(2)] by auto
  have e: "x = w" if "x \<in> set ws" "wId x = i" for x
    by (rule inj_onD [OF inj _ that(1) w(1)]) (simp add: that w)
  have "(if wId (if wId x = i then u x else x) = i then v (if wId x = i then u x else x)
         else (if wId x = i then u x else x)) = x" if "x \<in> set ws" for x
    using e [OF that] u v by auto
  then show ?thesis unfolding update_where_def map_map comp_def by (intro map_idI) simp
qed

lemma find_map_same:
  assumes "\<And>x. q (g x) = q x" shows "find q (map g xs) = map_option g (find q xs)"
  by (induction xs) (auto simp: assms)

lemma walletAdd_back:
  assumes ww: "wf_wallets (wallets s)" and a: "walletAdd s wid (- d) 0 = Inr s1"
    and s2: "wallets s2 = wallets s1"
  shows "\<exists>s3. walletAdd s2 wid d 0 = Inr s3 \<and> wallets s3 = wallets s"
proof -
  from a obtain w where w: "walletById s wid = Some w" and
    s1: "wallets s1 = update_where (\<lambda>w. wId w = wid)
            (\<lambda>w. w\<lparr>wRial := wRial w + - d, wGrams := numeric4 (wGrams w + 0)\<rparr>) (wallets s)"
    by (rule walletAdd_Inr) simp
  let ?w = "w\<lparr>wRial := wRial w - d, wGrams := numeric4 (wGrams w)\<rparr>"
  have f: "find (\<lambda>w. wId w = wid) (wallets s) = Some w" using w by (simp add: walletById_def)
  have g: "on_grid (wGrams w)" "0 \<le> wRial w" "0 \<le> wGrams w"
    using find_SomeD [OF f] ww by (auto simp: wf_wallets_def)
  have "walletById s2 wid = Some ?w"
    using walletAdd_row(1) [OF a w] s2 by (simp add: walletById_def)
  then obtain s3 where s3: "walletAdd s2 wid d 0 = Inr s3"
    using g by (simp add: walletAdd_def)
  have "wallets s3 = update_where (\<lambda>w. wId w = wid)
            (\<lambda>w. w\<lparr>wRial := wRial w + d, wGrams := numeric4 (wGrams w + 0)\<rparr>) (wallets s2)"
    using s3 by (rule walletAdd_Inr) simp
  also have "\<dots> = wallets s"
    unfolding s2 s1 by (rule same_wallet_update [OF ww f]) (use g in simp_all)
  finally show ?thesis using s3 by blast
qed

lemma accounts_reversal_cong:
  assumes "accounts s' = accounts s" "journals s' = journals s" "ledgerEntries s' = ledgerEntries s"
  shows "reverseJournal s t j opts = Inr (x, k) \<Longrightarrow>
    \<exists>y k'. reverseJournal s' t j opts = Inr (y, k') \<and> accounts y = accounts x"
proof -
  assume "reverseJournal s t j opts = Inr (x, k)"
  from reverseJournal_post [OF this] obtain original where o:
    "find (\<lambda>x. jId x = j) (journals s) = Some original" "jId original = j" "jReversalOf original = None"
    "\<forall>x \<in> set (journals s). jReversalOf x \<noteq> Some j"
    "postJournal s t (reversalInput s original opts) = Inr (x, k)" by metis
  have q: "reversalInput s' original opts = reversalInput s original opts" (is "_ = ?q")
    by (simp add: reversalInput_def assms)
  have nr: "jiReversalOf ?q = Some (jId original)" by (simp add: reversalInput_def)
  have red: "redirectCash s' ?q ls = Inr ls" "redirectCash s ?q ls = Inr ls" for ls
    by (simp_all add: redirectCash_def nr)
  have dt: "assertJournalDate s' ?q = Inr ()" "assertJournalDate s ?q = Inr ()"
    by (simp_all add: assertJournalDate_def reversalInput_def)
  have tk: "reversalTaken s' ?q = reversalTaken s ?q" unfolding reversalTaken_def assms ..
  have "\<exists>y k'. postJournal s' t ?q = Inr (y, k') \<and> accounts y = accounts x"
    using o(5) unfolding postJournal_def Let_def by (auto simp: red dt tk assms)
  then show ?thesis
    using o unfolding reverseJournal_def by (simp add: assms q list_ex_iff)
qed

text \<open>The state after a payout, as the return of the money finds it.\<close>

lemma walletAdd_owner:
  assumes "walletAdd s wid dr dg = Inr s1" "walletOfUser s u = Some wal"
  shows "\<exists>v. walletOfUser s1 u = Some v \<and> wId v = wId wal"
proof -
  from assms(1) have "wallets s1 = update_where (\<lambda>w. wId w = wid)
      (\<lambda>w. w\<lparr>wRial := wRial w + dr, wGrams := numeric4 (wGrams w + dg)\<rparr>) (wallets s)"
    by (rule walletAdd_Inr) simp
  then have "ownerId (wallets s1) u = ownerId (wallets s) u" by (simp add: ownerId_update)
  then show ?thesis using assms(2) by (simp add: ownerId_def walletOfUser_def)
qed

lemma payWrites_after:
  fixes s :: "'a bank_scheme"
  assumes wf: "wf_bank s" and w: "w \<in> set (withdrawals s)" "walletOfUser s (wdUser w) = Some wal"
    and p: "payWrites s c admin w wal code paidAt dto batch = Inr s1"
  obtains v wal' s2 and sb sc :: "'a bank_scheme" and j where
    "withdrawalById s1 (wdId w) = Some v" "wdStatus v = WD_PROCESSED" "wdJournal v = Some j"
    "wdUser v = wdUser w" "wdRial v = wdRial w"
    "walletOfUser s1 (wdUser w) = Some wal'" "walletAdd s1 (wId wal') (wdRial w) 0 = Inr s2"
    "wallets s2 = wallets s"
    "wf_ledger sb" "accounts sb = accounts s"
    "postJournal sb (now c) (payJournal w admin code paidAt) = Inr (sc, j)"
    "accounts s1 = accounts sc" "journals s1 = journals sc" "ledgerEntries s1 = ledgerEntries sc"
proof -
  from payWrites_Inr [OF p] obtain sa sb sc j f as where
    a: "walletAdd s (wId wal) (- wdRial w) 0 = Inr sa" and
    sb: "sb = completeTransaction (dropHold sa (wdHold w)) (wdTransaction w) (wdFee w)" and
    post: "postJournal sb (now c) (payJournal w admin code paidAt) = Inr (sc, j)" and
    s1: "s1 = (setWithdrawal sc (wdId w) f)\<lparr>approvals := as\<rparr>" and
    f: "f = (\<lambda>x. x\<lparr>wdStatus := WD_PROCESSED, wdProcessedBy := Some admin,
                wdPaidBy := Some admin, wdPaidAt := Some paidAt,
                wdBankReference := Some (trim (piReference dto)),
                wdPayoutMethod := Some (case piMethod dto of None \<Rightarrow> ''PAYA'' | Some m \<Rightarrow> m),
                wdSource := Some code, wdBatch := batch, wdJournal := Some j,
                wdNotes := noteOr (piNote dto) (wdNotes w)\<rparr>)"
    by metis
  note fr = walletAdd_frame [OF a] and pb = postJournal_bank [OF post]
  have w1: "wallets s1 = wallets sa" by (simp add: s1 pb sb)
  from walletAdd_back [OF wf_bank_wallets [OF wf] a w1] obtain s2 where
    bk: "walletAdd s1 (wId wal) (wdRial w) 0 = Inr s2" "wallets s2 = wallets s" by blast
  from walletAdd_owner [OF a w(2)] obtain wal' where
    own: "walletOfUser s1 (wdUser w) = Some wal'" "wId wal' = wId wal"
    by (auto simp: walletOfUser_def w1)
  have d: "distinct (map wdId (withdrawals s))"
    using wf by (simp add: wf_bank_def wf_except_def wf_requests_def)
  have "withdrawals s1 = update_where (\<lambda>x. wdId x = wdId w) f (withdrawals s)"
    by (simp add: s1 withdrawals_setWithdrawal pb sb fr)
  then have row: "withdrawalById s1 (wdId w) = Some (f w)"
    using find_unique [OF d w(1)] by (simp add: withdrawalById_def find_update_where_same f)
  have l: "wf_ledger sb"
    by (rule ledger_part [OF wf_bank_ledger [OF wf]]) (simp_all add: sb fr)
  have v: "wdStatus (f w) = WD_PROCESSED" "wdJournal (f w) = Some j" "wdUser (f w) = wdUser w"
    "wdRial (f w) = wdRial w" by (simp_all add: f)
  have e: "accounts sb = accounts s" "accounts s1 = accounts sc" "journals s1 = journals sc"
    "ledgerEntries s1 = ledgerEntries sc" by (simp_all add: sb s1 fr)
  show thesis
    by (rule that [OF row v own(1) _ bk(2) l e(1) post e(2-4)]) (simp only: own(2) bk(1))
qed

text \<open>The bank sends the money of a payout back: books and wallets are as before.\<close>

lemma payWrites_return:
  fixes s :: "'a bank_scheme"
  assumes wf: "wf_bank s" and w: "w \<in> set (withdrawals s)" "walletOfUser s (wdUser w) = Some wal"
    and p: "payWrites s c admin w wal code paidAt dto batch = Inr s1"
    and reason: "5 \<le> length (trim reason)"
  shows "\<exists>s2. markReturned s1 c' admin' (wdId w) reason = Inr (s2, False) \<and>
           wallets s2 = wallets s \<and> accounts s2 = accounts s"
proof -
  obtain v wal' s2 and sb sc :: "'a bank_scheme" and j where
    v: "withdrawalById s1 (wdId w) = Some v" "wdStatus v = WD_PROCESSED" "wdJournal v = Some j"
    "wdUser v = wdUser w" "wdRial v = wdRial w" and
    own: "walletOfUser s1 (wdUser w) = Some wal'" and
    bk: "walletAdd s1 (wId wal') (wdRial w) 0 = Inr s2" "wallets s2 = wallets s" and
    post: "wf_ledger sb" "postJournal sb (now c) (payJournal w admin code paidAt) = Inr (sc, j)" and
    eq: "accounts s1 = accounts sc" "journals s1 = journals sc" "ledgerEntries s1 = ledgerEntries sc"
      "accounts sb = accounts s"
    by (rule payWrites_after [OF wf w p])
  let ?s3 = "s2\<lparr>nextId := nextId s2 + 1,
                transactions := transactions s2 @ [refundTransaction (nextId s2) c' v wal']\<rparr>"
  let ?opts = "\<lparr>roDescription = Some ''withdrawal returned by the bank'', roCreatedBy = Some admin',
             roRefType = Some ''WITHDRAWAL_RETURN'', roRefId = Some (wdId v)\<rparr>"
  have "jiReversalOf (payJournal w admin code paidAt) = None" by (simp add: payJournal_def Let_def)
  from reverse_after_post [OF post this, of "now c'" ?opts] obtain sr k where
    r: "reverseJournal sc (now c') j ?opts = Inr (sr, k)" "accounts sr = accounts sb" by blast
  have "accounts ?s3 = accounts sc" "journals ?s3 = journals sc" "ledgerEntries ?s3 = ledgerEntries sc"
    using walletAdd_frame [OF bk(1)] by (simp_all add: eq)
  from accounts_reversal_cong [OF this r(1)] obtain y k' where
    y: "reverseJournal ?s3 (now c') j ?opts = Inr (y, k')" "accounts y = accounts sr" by blast
  have "postReturn ?s3 c' admin' v = Inr (y, k')"
    using y(1) v(3) by (simp add: postReturn_def)
  moreover from postReturn_posts [OF this] obtain q where "postJournal ?s3 (now c') q = Inr (y, k')" .
  from postJournal_bank(1) [OF this] have "wallets y = wallets s" by (simp add: bk)
  ultimately show ?thesis
    using reason v own bk y(2) r(2) eq(4)
    by (simp add: markReturned_def Let_def not_less)
qed

subsection \<open>A small bank\<close>

text \<open>
  Two verified users with a wallet each, the accounts their operations use, and one verified
  bank account: the concrete state at which the properties below are instantiated.
\<close>

definition demoClock :: clock where
  "demoClock = \<lparr>now = 1000000, today = 500000, firstOfMonth = 100000\<rparr>"

definition demoWallet :: "nat \<Rightarrow> nat \<Rightarrow> string \<Rightarrow> int \<Rightarrow> rat \<Rightarrow> wallet" where
  "demoWallet i u c r g = \<lparr>wId = i, wUser = u, wCard = c, wRial = r, wGrams = g\<rparr>"

definition demoBankAccount :: bank_account where
  "demoBankAccount = \<lparr>baId = 30, baUser = 11, baVerified = True, baBank = ''bank'', baCard = [],
      baSheba = None, baNumber = ''1''\<rparr>"

definition demoBank :: bank where
  "demoBank =
     \<lparr>nextId = 100,
      accounts = [demoAccount 1 ''1010'' ASSET 3000000 0, demoAccount 2 ''1020'' ASSET 0 5,
                  demoAccount 3 ''2010'' LIABILITY 3000000 0, demoAccount 4 ''2020'' LIABILITY 0 5,
                  demoAccount 5 ''4090'' INCOME 0 0],
      journals = [], ledgerEntries = [], fiscalYears = [], lockedUntil = None,
      config = (\<lambda>_. None), configNum = (\<lambda>_. None),
      users = [\<lparr>uId = 11, uStatus = ACTIVE, uIdentity = Some ID_VERIFIED\<rparr>,
               \<lparr>uId = 12, uStatus = ACTIVE, uIdentity = Some ID_VERIFIED\<rparr>],
      bankAccounts = [demoBankAccount],
      wallets = [demoWallet 21 11 ''6219861000000001'' 2000000 3,
                 demoWallet 22 12 ''6219861000000002'' 1000000 2],
      holds = [], transactions = [], withdrawals = [], approvals = [],
      sequences = (\<lambda>_. 0), jalaliYear = 1404\<rparr>"

lemma wf_demoBank [simp]: "wf_bank demoBank"
  by (simp add: demoBank_def wf_bank_def wf_except_def wf_ledger_def wf_accounts_def wf_wallets_def
      wf_requests_def wf_holds_def demoAccount_def demoWallet_def on_grid_def)

lemma demoBank_reconciled:
  "totalRial demoBank = rialOf demoBank ''2010''" "totalGrams demoBank = gramsOf demoBank ''2020''"
  by (simp_all add: demoBank_def totalRial_def totalGrams_def rialOf_def gramsOf_def findAccount_def
      demoAccount_def demoWallet_def toDecimal_def)

text \<open>The bank with one request approved by administrator 1, and its payout by administrator 2.\<close>

definition demoApproved :: bank where
  "demoApproved = run bank_step demoBank [(demoClock, Request 11 30 500000), (demoClock, Approve 1 101 None)]"

definition demoPay :: pay_input where
  "demoPay = \<lparr>piSource = None, piMethod = None, piReference = ''R1'', piPaidAt = None, piNote = None\<rparr>"

lemma wf_demoApproved [simp]: "wf_bank demoApproved"
  unfolding demoApproved_def by (rule rial_control.run_inv) simp

subsection \<open>Properties\<close>

text \<open>The wallets and the books over any sequence of calls of staff and users.\<close>

lemma wallets_reconcile:
  assumes "wf_bank s" and "totalRial s = rialOf s ''2010''" and "totalGrams s = gramsOf s ''2020''"
  shows "totalRial (run bank_step s ops) = rialOf (run bank_step s ops) ''2010''"
    and "\<bar>totalGrams (run bank_step s ops) - gramsOf (run bank_step s ops) ''2020''\<bar>
      \<le> sum_list (map (\<lambda>p. gramSlack (snd p)) ops)"
  using rial_control.run_reconciled [OF assms(1,2)] gram_control.run_drift [OF assms(1), of ops] assms(3)
  by simp_all

text \<open>C20: The life of a withdrawal. Whatever calls follow, a withdrawal keeps its user, amount,
fee and destination and only moves along PENDING - APPROVED - PROCESSED - RETURNED, or to
CANCELLED or REJECTED before it is paid; a cancelled, rejected or returned one never changes its
status again, and a paid one can only be returned.\<close>

theorem withdrawal_life_cycle:
  assumes "wf_bank s" and "w \<in> set (withdrawals s)"
  shows "\<exists>v \<in> set (withdrawals (run bank_step s ops)).
    evolves w v \<and>
    (wdStatus w \<in> {WD_CANCELLED, WD_REJECTED, WD_RETURNED} \<longrightarrow> wdStatus v = wdStatus w) \<and>
    (wdStatus w = WD_PROCESSED \<longrightarrow> wdStatus v \<in> {WD_PROCESSED, WD_RETURNED})"
proof -
  from withdrawal_life.run_later [OF assms(1)] assms(2) obtain v where
    v: "v \<in> set (withdrawals (run bank_step s ops))" "evolves w v"
    unfolding history_def by blast
  have path: "wd_next\<^sup>*\<^sup>* (wdStatus w) (wdStatus v)" using v(2) by (simp add: evolves_def)
  have "wdStatus v = wdStatus w" if "wdStatus w \<in> {WD_CANCELLED, WD_REJECTED, WD_RETURNED}"
    using path that by (auto elim: converse_rtranclpE)
  moreover have "wdStatus v \<in> {WD_PROCESSED, WD_RETURNED}" if "wdStatus w = WD_PROCESSED"
    using path that by (auto elim!: converse_rtranclpE [where x = WD_PROCESSED] wd_nextE elim: converse_rtranclpE)
  ultimately show ?thesis using v by blast
qed

lemma demoApproved_row:
  "withdrawals demoApproved \<noteq> []" "wdStatus (hd (withdrawals demoApproved)) = WD_APPROVED"
  unfolding demoApproved_def by code_simp+

lemma withdrawal_life_cycle_witness:
  "\<exists>v \<in> set (withdrawals (run bank_step demoApproved [(demoClock, Pay 2 101 demoPay None)])).
     evolves (hd (withdrawals demoApproved)) v"
  using withdrawal_life_cycle [OF wf_demoApproved, of "hd (withdrawals demoApproved)"
      "[(demoClock, Pay 2 101 demoPay None)]"] demoApproved_row(1) by auto

text \<open>C30: An accepted withdrawal request lies between the configured minimum and maximum and
above its fee, is covered by the balance that earlier holds leave free, keeps the user within the
daily and the monthly limit, and reserves exactly its amount: no wallet changes and the available
balance falls by the amount, never below zero.\<close>

theorem request_reserves:
  assumes "requestWithdrawal s c u bankId amount = Inr (s', i)"
    and "today c \<le> now c" and "firstOfMonth c \<le> now c"
  shows "\<exists>w. walletOfUser s u = Some w \<and> walletOfUser s' u = Some w \<and> wallets s' = wallets s \<and>
    getNumber s ''withdrawal.min_amount'' 100000 \<le> of_int amount \<and>
    of_int amount \<le> getNumber s ''withdrawal.max_amount'' 2000000000 \<and>
    calcWithdrawalFee s amount < amount \<and>
    0 \<le> availableRial s' (now c) w \<and>
    availableRial s' (now c) w = availableRial s (now c) w - amount \<and>
    of_int (usedRial s' u WITHDRAWAL {TX_PENDING, TX_COMPLETED} (today c))
      \<le> getNumber s ''withdrawal.daily_limit'' 2000000000 \<and>
    of_int (usedRial s' u WITHDRAWAL {TX_PENDING, TX_COMPLETED} (firstOfMonth c))
      \<le> getNumber s ''withdrawal.monthly_limit'' 5000000000"
proof -
  from assms(1) obtain b w where
    r: "calcWithdrawalFee s amount < amount" "walletOfUser s u = Some w"
    "assertWithinWithdrawalLimits s c u amount
       (getNumber s ''withdrawal.daily_limit'' 2000000000)
       (getNumber s ''withdrawal.monthly_limit'' 5000000000) = Inr ()"
    "amount \<le> wRial w - heldRial s (now c) (wId w)"
    "getNumber s ''withdrawal.min_amount'' 100000 \<le> of_int amount"
    "of_int amount \<le> getNumber s ''withdrawal.max_amount'' 2000000000"
    and e: "(s', i) = createWithdrawal s c u b w amount (calcWithdrawalFee s amount)"
    by (rule requestWithdrawal_Inr)
  have s': "s' = fst (createWithdrawal s c u b w amount (calcWithdrawalFee s amount))"
    using e by (metis fst_conv)
  show ?thesis
    using r assms(2,3) unfolding s'
    by (simp add: createWithdrawal_frame walletOfUser_def availableRial_def heldRial_createWithdrawal
        usedRial_createWithdrawal assertWithinWithdrawalLimits_Inr)
qed

lemma request_reserves_witness:
  "\<exists>s' i w. requestWithdrawal demoBank demoClock 11 30 500000 = Inr (s', i) \<and>
     availableRial s' 1000000 w = availableRial demoBank 1000000 w - 500000"
proof -
  let ?r = "requestWithdrawal demoBank demoClock 11 30 500000"
  have "okRes ?r" by code_simp
  then obtain s' i where r: "?r = Inr (s', i)" unfolding okRes_def by (auto split: sum.splits)
  from request_reserves [OF r] show ?thesis using r by (auto simp: demoClock_def)
qed

lemma createWithdrawal_id:
  assumes "(s', i) = createWithdrawal s c u b w amount fee" and "wf_bank s"
  shows "find (\<lambda>x. wdId x = i \<and> wdUser x = u) (withdrawals s') = Some (last (withdrawals s'))"
    and "wdStatus (last (withdrawals s')) = WD_PENDING"
    and "wdHold (last (withdrawals s')) = Some (nextId s)"
    and "wdTransaction (last (withdrawals s')) = Some (nextId s + 2)"
    and "wdId (last (withdrawals s')) = nextId s + 1" "i = nextId s + 1"
proof -
  have "find (\<lambda>x. wdId x = nextId s + 1 \<and> wdUser x = u) (withdrawals s) = None"
    using assms(2) by (auto simp: find_None_iff wf_bank_def wf_except_def wf_requests_def)
  then show "find (\<lambda>x. wdId x = i \<and> wdUser x = u) (withdrawals s') = Some (last (withdrawals s'))"
    "wdStatus (last (withdrawals s')) = WD_PENDING"
    "wdHold (last (withdrawals s')) = Some (nextId s)"
    "wdTransaction (last (withdrawals s')) = Some (nextId s + 2)"
    "wdId (last (withdrawals s')) = nextId s + 1" "i = nextId s + 1"
    using assms(1) by (auto simp: createWithdrawal_def sequenceNext_def Let_def find_append)
qed

lemma createWithdrawal_tables:
  assumes "(s', i) = createWithdrawal s c u b w amount fee"
  shows "\<exists>h t. holds s' = holds s @ [h] \<and> hId h = nextId s \<and>
           transactions s' = transactions s @ [t] \<and> tId t = nextId s + 2"
  using assms by (auto simp: createWithdrawal_def sequenceNext_def Let_def)

lemma usedRial_failed:
  assumes "transactions s2 = ts @ [t\<lparr>tStatus := TX_FAILED\<rparr>]" "transactions s = ts"
  shows "usedRial s2 u WITHDRAWAL {TX_PENDING, TX_COMPLETED} since =
         usedRial s u WITHDRAWAL {TX_PENDING, TX_COMPLETED} since"
  by (simp add: usedRial_def assms)

text \<open>A user who cancels a request just made is where he was: the cancellation succeeds,
the holds and the wallets are those from before, and the request does not count against his
withdrawal limits. A second cancellation is accepted and changes nothing.\<close>

theorem request_then_cancel:
  assumes wf: "wf_bank s" and fresh: "\<forall>t \<in> set (transactions s). tId t < nextId s"
    and req: "requestWithdrawal s c u bankId amount = Inr (s1, i)"
  shows "\<exists>s2. cancelMyWithdrawal s1 u i = Inr s2 \<and> cancelMyWithdrawal s2 u i = Inr s2 \<and>
    holds s2 = holds s \<and> wallets s2 = wallets s \<and>
    usedRial s2 u WITHDRAWAL {TX_PENDING, TX_COMPLETED} since =
      usedRial s u WITHDRAWAL {TX_PENDING, TX_COMPLETED} since"
proof -
  from requestWithdrawal_Inr [OF req] obtain b w fee where
    e: "(s1, i) = createWithdrawal s c u b w amount fee" by metis
  note row = createWithdrawal_id [OF e wf]
  let ?w = "last (withdrawals s1)" and ?f = "\<lambda>x. x\<lparr>wdStatus := WD_CANCELLED\<rparr>"
  let ?m = "setTransaction (dropHold s1 (wdHold ?w)) (wdTransaction ?w) TX_FAILED"
  let ?s2 = "setWithdrawal ?m (wdId ?w) ?f"
  from createWithdrawal_tables [OF e] obtain h t where
    h: "holds s1 = holds s @ [h]" "hId h = nextId s" and
    t: "transactions s1 = transactions s @ [t]" "tId t = nextId s + 2" by blast
  have c1: "cancelMyWithdrawal s1 u i = Inr ?s2"
    by (simp add: cancelMyWithdrawal_def row(1,2))
  have "find (\<lambda>x. wdId x = i \<and> wdUser x = u) (withdrawals ?s2) =
      map_option (\<lambda>x. if wdId x = wdId ?w then ?f x else x)
        (find (\<lambda>x. wdId x = i \<and> wdUser x = u) (withdrawals s1))"
    unfolding withdrawals_setWithdrawal update_where_def
    by (simp only: setTransaction_frame dropHold_frame) (rule find_map_same, simp)
  then have c2: "cancelMyWithdrawal ?s2 u i = Inr ?s2"
    by (simp add: cancelMyWithdrawal_def row(1))
  have "\<forall>x \<in> set (holds s). hId x < nextId s"
    using wf by (simp add: wf_bank_def wf_except_def wf_holds_def)
  then have "holds ?s2 = holds s"
    by (auto simp: holds_dropHold row(3) h intro!: filter_True)
  moreover have "transactions ?s2 = transactions s @ [t\<lparr>tStatus := TX_FAILED\<rparr>]"
    using fresh t by (auto simp: setTransaction_def row(4) update_where_append intro!: update_where_none)
  moreover have "wallets ?s2 = wallets s" using requestWithdrawal_frame(1) [OF req] by simp
  ultimately show ?thesis using c1 c2 usedRial_failed by blast
qed

lemma request_then_cancel_witness:
  "\<exists>s1 i s2. requestWithdrawal demoBank demoClock 11 30 500000 = Inr (s1, i) \<and>
     cancelMyWithdrawal s1 11 i = Inr s2 \<and> holds s2 = holds demoBank"
proof -
  let ?r = "requestWithdrawal demoBank demoClock 11 30 500000"
  have "okRes ?r" by code_simp
  then obtain s' i where r: "?r = Inr (s', i)" unfolding okRes_def by (auto split: sum.splits)
  have "\<forall>t \<in> set (transactions demoBank). tId t < nextId demoBank" by (simp add: demoBank_def)
  from request_then_cancel [OF wf_demoBank this r] show ?thesis using r by blast
qed

text \<open>C14: A payout takes place only for an approved request, by an administrator other than the
one who approved it once the amount reaches the dual control threshold, and only when the wallet
covers it. It moves the wallet of the user and the control account 2010 down by the amount, gives
back the hold, so that the available balance of the user is what it was while the hold was in
force, and leaves the request PROCESSED with the payer recorded.\<close>

theorem payout_effect:
  assumes wf: "wf_bank s" and p: "pay s c admin i dto batch = Inr (s', False)"
  shows "\<exists>w wal v. w \<in> set (withdrawals s) \<and> wdId w = i \<and> wdStatus w = WD_APPROVED \<and>
    (dualControlThreshold s \<le> of_int (wdRial w) \<longrightarrow> wdReviewedBy w \<noteq> Some admin) \<and>
    walletOfUser s (wdUser w) = Some wal \<and> wdRial w \<le> wRial wal \<and>
    walletById s' (wId wal) = Some (wal\<lparr>wRial := wRial wal - wdRial w\<rparr>) \<and>
    rialOf s' ''2010'' = rialOf s ''2010'' - wdRial w \<and> totalRial s' = totalRial s - wdRial w \<and>
    (liveHold s t w \<longrightarrow>
       availableRial s' t (wal\<lparr>wRial := wRial wal - wdRial w\<rparr>) = availableRial s t wal) \<and>
    withdrawalById s' i = Some v \<and> wdStatus v = WD_PROCESSED \<and> wdPaidBy v = Some admin"
proof -
  from pay_fresh [OF wf p] obtain w wal code paidAt where
    w: "w \<in> set (withdrawals s)" "wdId w = i" "wdStatus w = WD_APPROVED"
    "dualControlThreshold s \<le> of_int (wdRial w) \<Longrightarrow> wdReviewedBy w \<noteq> Some admin" and
    wal: "walletOfUser s (wdUser w) = Some wal" "wdRial w \<le> wRial wal" and
    pw: "starts_with CASH_ROOT_CODE code" "payWrites s c admin w wal code paidAt dto batch = Inr s'"
    by metis
  note row = payWrites_row [OF wf w(1) wal(1) pw(2)] and tot = wf_payWrites [OF wf w(1) pw]
  from row(3) w(2) obtain v where
    "withdrawalById s' i = Some v" "wdStatus v = WD_PROCESSED" "wdPaidBy v = Some admin" by blast
  moreover have "availableRial s' t (wal\<lparr>wRial := wRial wal - wdRial w\<rparr>) = availableRial s t wal"
    if "liveHold s t w"
    using row(2) [OF w(3), of t] that by (simp add: availableRial_def)
  ultimately show ?thesis using w wal row(1) tot(2,3) by blast
qed

lemma demoPaid:
  obtains s' where "pay demoApproved demoClock 2 101 demoPay None = Inr (s', False)"
proof -
  have "(case pay demoApproved demoClock 2 101 demoPay None of Inl _ \<Rightarrow> False | Inr (_, d) \<Rightarrow> \<not> d)"
    unfolding demoApproved_def by code_simp
  then show thesis using that by (auto split: sum.splits)
qed

lemma payout_effect_witness:
  "\<exists>s'. pay demoApproved demoClock 2 101 demoPay None = Inr (s', False) \<and>
     (\<exists>w :: withdrawal. \<exists>v. wdId w = 101 \<and> rialOf s' ''2010'' = rialOf demoApproved ''2010'' - wdRial w \<and>
       withdrawalById s' 101 = Some v \<and> wdStatus v = WD_PROCESSED)"
proof -
  obtain s' where p: "pay demoApproved demoClock 2 101 demoPay None = Inr (s', False)"
    by (rule demoPaid)
  from payout_effect [OF wf_demoApproved p, of 0] obtain w :: withdrawal and v where
    "wdId w = 101" "rialOf s' ''2010'' = rialOf demoApproved ''2010'' - wdRial w"
    "withdrawalById s' 101 = Some v" "wdStatus v = WD_PROCESSED" by (elim exE conjE)
  then show ?thesis using p by blast
qed

text \<open>A request is paid at most once: after a payout, a further payout of the same request,
by whoever and with whatever valid input, reports that it was done and changes nothing.\<close>

theorem payout_once:
  assumes "wf_bank s" and "pay s c admin i dto batch = Inr (s', False)"
    and "trim (piReference dto') \<noteq> []" and "\<forall>m. piMethod dto' = Some m \<longrightarrow> m \<in> set PAYOUT_METHODS"
    and "payDate c' dto' = Inr t"
  shows "pay s' c' admin' i dto' batch' = Inr (s', True)"
proof -
  from pay_fresh [OF assms(1,2)] obtain w wal code paidAt where
    w: "w \<in> set (withdrawals s)" "wdId w = i" "walletOfUser s (wdUser w) = Some wal" and
    pw: "payWrites s c admin w wal code paidAt dto batch = Inr s'" by metis
  from payWrites_row(3) [OF assms(1) w(1,3) pw] w(2) obtain v where
    "withdrawalById s' i = Some v" "wdStatus v = WD_PROCESSED" by blast
  then show ?thesis using assms(3-5) by (auto simp: pay_def split: option.splits)
qed

lemma payout_once_witness:
  "\<exists>s'. pay demoApproved demoClock 2 101 demoPay None = Inr (s', False) \<and>
     pay s' demoClock 3 101 demoPay None = Inr (s', True)"
proof -
  obtain s' where p: "pay demoApproved demoClock 2 101 demoPay None = Inr (s', False)"
    by (rule demoPaid)
  have "trim (piReference demoPay) \<noteq> []" by (simp add: demoPay_def trim_def is_space_def)
  moreover have "\<forall>m. piMethod demoPay = Some m \<longrightarrow> m \<in> set PAYOUT_METHODS" by (simp add: demoPay_def)
  moreover have "payDate demoClock demoPay = Inr 1000000" by (simp add: payDate_def demoPay_def demoClock_def)
  ultimately show ?thesis using payout_once [OF wf_demoApproved p] p by blast
qed

text \<open>C15: When the bank sends the money of a payout back, recording the return always succeeds
and undoes the payout: every wallet and every account of the ledger has the balance it had before
the payout.\<close>

theorem payout_then_return:
  assumes "wf_bank s" and "pay s c admin i dto batch = Inr (s1, False)"
    and "5 \<le> length (trim reason)"
  shows "\<exists>s2. markReturned s1 c' admin' i reason = Inr (s2, False) \<and>
           wallets s2 = wallets s \<and> accounts s2 = accounts s"
proof -
  from pay_fresh [OF assms(1,2)] obtain w wal code paidAt where
    w: "w \<in> set (withdrawals s)" "wdId w = i" "walletOfUser s (wdUser w) = Some wal" and
    pw: "payWrites s c admin w wal code paidAt dto batch = Inr s1" by metis
  show ?thesis using payWrites_return [OF assms(1) w(1,3) pw assms(3)] w(2) by simp
qed

lemma payout_then_return_witness:
  "\<exists>s1 s2. pay demoApproved demoClock 2 101 demoPay None = Inr (s1, False) \<and>
     markReturned s1 demoClock 3 101 ''returned'' = Inr (s2, False) \<and>
     wallets s2 = wallets demoApproved \<and> accounts s2 = accounts demoApproved"
proof -
  obtain s1 where p: "pay demoApproved demoClock 2 101 demoPay None = Inr (s1, False)"
    by (rule demoPaid)
  have "5 \<le> length (trim ''returned'')" by (simp add: trim_def is_space_def)
  from payout_then_return [OF wf_demoApproved p this] p show ?thesis by blast
qed

lemma transfer_usedGrams:
  assumes "transactions s' = transactions s @
      [newTransfer i c sender TRANSFER_OUT g k, newTransfer k c dest TRANSFER_IN g i]"
    and "wUser sender = u" "since \<le> now c" "on_grid g"
  shows "usedGrams s' u TRANSFER_OUT {TX_COMPLETED} since =
         usedGrams s u TRANSFER_OUT {TX_COMPLETED} since + g"
  using assms by (simp add: usedGrams_def newTransfer_def toDecimal_def)

lemma assertWithinTransferLimit_Inr:
  "assertWithinTransferLimit s u g limit since = Inr () \<longleftrightarrow>
     limit \<le> 0 \<or> usedGrams s u TRANSFER_OUT {TX_COMPLETED} since + g \<le> limit"
  unfolding assertWithinTransferLimit_def by (auto simp: not_less)

text \<open>The two wallets of an accepted transfer differ and carry the amount over.\<close>

lemma transfer_rows:
  assumes wf: "wf_bank s" and s: "walletOfUser s u = Some sender" "wCard sender \<noteq> cardNo"
    and d: "find (\<lambda>w. wCard w = cardNo) (wallets s) = Some dest" and g: "on_grid g"
    and a: "walletAdd s (wId sender) 0 (- g) = Inr s1" "walletAdd s1 (wId dest) 0 g = Inr s2"
  shows "wId sender \<noteq> wId dest"
    and "walletById s2 (wId sender) = Some (sender\<lparr>wGrams := wGrams sender - g\<rparr>)"
    and "walletById s2 (wId dest) = Some (dest\<lparr>wGrams := wGrams dest + g\<rparr>)"
proof -
  have ww: "wf_wallets (wallets s)" using wf by (rule wf_bank_wallets)
  have in_s: "sender \<in> set (wallets s)" and in_d: "dest \<in> set (wallets s)" "wCard dest = cardNo"
    using walletOfUser_in [OF s(1)] find_SomeD [OF d] by auto
  have ids: "walletById s (wId sender) = Some sender" "walletById s (wId dest) = Some dest"
    using walletById_of [OF ww in_s] walletById_of [OF ww in_d(1)] by simp_all
  show ne: "wId sender \<noteq> wId dest"
  proof
    assume "wId sender = wId dest"
    then have "Some sender = Some dest" unfolding ids [symmetric] by (rule arg_cong)
    then show False using s(2) in_d(2) by blast
  qed
  have gr: "numeric4 (wGrams sender - g) = wGrams sender - g" "numeric4 (wGrams dest + g) = wGrams dest + g"
    using ww in_s in_d(1) g by (simp_all add: wf_wallets_def on_grid_add on_grid_diff)
  have "walletById s1 (wId dest) = Some dest" using walletAdd_row(2) [OF a(1) ids(1)] ne ids(2) by simp
  from walletAdd_row(1) [OF a(2) this] gr(2)
  show "walletById s2 (wId dest) = Some (dest\<lparr>wGrams := wGrams dest + g\<rparr>)" by simp
  from walletAdd_row(2) [OF a(2) \<open>walletById s1 (wId dest) = Some dest\<close>] ne
    walletAdd_row(1) [OF a(1) ids(1)] gr(1)
  show "walletById s2 (wId sender) = Some (sender\<lparr>wGrams := wGrams sender - g\<rparr>)" by simp
qed

text \<open>C23: A gold transfer of an amount with at most four decimals goes from the wallet of the
caller to a different wallet, whose owner is active and verified; it takes no more than the gold
that holds leave free and keeps the sender within the daily and monthly limits in force. The
sender loses and the recipient gains exactly the amount, so the total gold of all wallets is
unchanged.\<close>

theorem transfer_conserves:
  assumes wf: "wf_bank s" and tr: "internalTransfer s c u cardNo g = Inr s'" and g: "on_grid g"
    and "today c \<le> now c" and "firstOfMonth c \<le> now c"
  shows "\<exists>sender dest. walletOfUser s u = Some sender \<and> dest \<in> set (wallets s) \<and> wCard dest = cardNo \<and>
    wId sender \<noteq> wId dest \<and> 0 < g \<and> g \<le> wGrams sender - heldGrams s (now c) (wId sender) \<and>
    (\<exists>r \<in> set (users s). uId r = wUser dest \<and> uStatus r = ACTIVE \<and> uIdentity r = Some ID_VERIFIED) \<and>
    walletById s' (wId sender) = Some (sender\<lparr>wGrams := wGrams sender - g\<rparr>) \<and>
    walletById s' (wId dest) = Some (dest\<lparr>wGrams := wGrams dest + g\<rparr>) \<and>
    totalGrams s' = totalGrams s \<and> totalRial s' = totalRial s \<and>
    (let d = getNumber s ''transfer.daily_limit_grams'' 5 in
       d \<le> 0 \<or> usedGrams s' u TRANSFER_OUT {TX_COMPLETED} (today c) \<le> d) \<and>
    (let m = getNumber s ''transfer.monthly_limit_grams'' 20 in
       m \<le> 0 \<or> usedGrams s' u TRANSFER_OUT {TX_COMPLETED} (firstOfMonth c) \<le> m)"
proof -
  from tr obtain sender dest r s1 s2 where
    x: "0 < g" "walletOfUser s u = Some sender" "wCard sender \<noteq> cardNo"
    "find (\<lambda>w. wCard w = cardNo) (wallets s) = Some dest"
    "find (\<lambda>x. uId x = wUser dest) (users s) = Some r" "uStatus r = ACTIVE" "uIdentity r = Some ID_VERIFIED"
    "assertWithinTransferLimit s u g (getNumber s ''transfer.daily_limit_grams'' 5) (today c) = Inr ()"
    "assertWithinTransferLimit s u g (getNumber s ''transfer.monthly_limit_grams'' 20)
       (firstOfMonth c) = Inr ()"
    "g \<le> wGrams sender - heldGrams s (now c) (wId sender)"
    and a: "walletAdd s (wId sender) 0 (- g) = Inr s1" "walletAdd s1 (wId dest) 0 g = Inr s2"
    and s': "s' = s2\<lparr>nextId := nextId s + 2, transactions := transactions s2 @
              [newTransfer (nextId s) c sender TRANSFER_OUT g (nextId s + 1),
               newTransfer (nextId s + 1) c dest TRANSFER_IN g (nextId s)]\<rparr>"
    by (rule internalTransfer_Inr)
  note rows = transfer_rows [OF wf x(2-4) g a]
  have tx: "transactions s' = transactions s @
      [newTransfer (nextId s) c sender TRANSFER_OUT g (nextId s + 1),
       newTransfer (nextId s + 1) c dest TRANSFER_IN g (nextId s)]"
    by (simp add: s' walletAdd_frame(6) [OF a(1)] walletAdd_frame(6) [OF a(2)])
  have u: "wUser sender = u" using walletOfUser_in [OF x(2)] by simp
  note used = transfer_usedGrams [OF tx u assms(4) g] transfer_usedGrams [OF tx u assms(5) g]
  have "walletById s' i = walletById s2 i" for i by (rule walletById_cong) (simp add: s')
  then show ?thesis
    using x rows internalTransfer_totals(1,2) [OF wf tr] g used find_SomeD [OF x(4)] find_SomeD [OF x(5)]
    by (auto simp: assertWithinTransferLimit_Inr Let_def)
qed

lemma transfer_conserves_witness:
  "\<exists>s'. internalTransfer demoBank demoClock 11 ''6219861000000002'' (1/2) = Inr s' \<and>
     totalGrams s' = totalGrams demoBank"
proof -
  let ?r = "internalTransfer demoBank demoClock 11 ''6219861000000002'' (1/2)"
  have "okRes ?r" by code_simp
  then obtain s' where r: "?r = Inr s'" unfolding okRes_def by (auto split: sum.splits)
  have "on_grid (1/2)" by (simp add: on_grid_def)
  from transfer_conserves [OF wf_demoBank r this] have "totalGrams s' = totalGrams demoBank"
    by (auto simp: demoClock_def)
  then show ?thesis using r by blast
qed

text \<open>The restriction to four decimals is needed, and the service does not make it: a transfer
of 0.00015 gram is accepted, both wallets are rounded to four decimals on their own, and the total
gold of all wallets grows by 0.0001 gram.\<close>

theorem transfer_off_grid_mints:
  "case internalTransfer demoBank demoClock 11 ''6219861000000002'' (3/20000) of
     Inl _ \<Rightarrow> False
   | Inr s' \<Rightarrow> totalGrams s' = totalGrams demoBank + 1/10000"
  by code_simp

end
