(* ===== verification/Invoice.thy ===== *)
theory Invoice
  imports Wallet
begin

section \<open>Invoices and proforma invoices\<close>

text \<open>
  \<open>api/src/invoice/invoice.service.ts\<close>: issuing a document exactly once per source, its
  totals, and the rows built from a shop order (with the order discount shared over the rows),
  a consignment sale or a purchase of an agent, and a partner order. Rial amounts are whole
  numbers, as in every rial column. The snapshots of company and customer are kept only as far as
  they can refuse a document; titles, hash, QR code, rendering and the total in words are not
  modelled.
\<close>

subsection \<open>Data\<close>

datatype invoice_kind = INVOICE | PROFORMA

datatype invoice_status = IV_ISSUED | IV_PAID | IV_CONSUMED | IV_EXPIRED | IV_CANCELLED

datatype invoice_source =
  SRC_SHOP_ORDER | SRC_PHYSICAL_DELIVERY | SRC_DEPOSIT | SRC_AGENT_SALE | SRC_PARTNER_ORDER
  | SRC_AGENT_PURCHASE

record invoice_item =
  itRow :: nat
  itQuantity :: int
  itUnitPrice :: int
  itDiscount :: int
  itMaking :: int
  itFee :: int
  itTaxRate :: rat
  itTax :: int
  itTotal :: int

record invoice =
  ivId :: nat
  ivKind :: invoice_kind
  ivNumber :: string
  ivStatus :: invoice_status
  ivSource :: invoice_source
  ivSourceId :: nat
  ivUser :: "nat option"
  ivAgent :: "nat option"
  ivSubtotal :: int
  ivDiscount :: int
  ivFee :: int
  ivTax :: int
  ivTotal :: int
  ivExpires :: "int option"
  ivReason :: "string option"
  ivItems :: "invoice_item list"

record billing = bank +
  invoices :: "invoice list"
  agentIds :: "nat list"

record issue_params =
  ipKind :: invoice_kind
  ipSource :: invoice_source
  ipSourceId :: nat
  ipUser :: "nat option"
  ipAgent :: "nat option"
  ipItems :: "invoice_item list"
  ipExpires :: "int option"
  ipStatus :: "invoice_status option"

subsection \<open>Issuing\<close>

definition getText :: "'a ledger_scheme \<Rightarrow> string \<Rightarrow> string" where
  "getText s key = (case config s key of None \<Rightarrow> [] | Some v \<Rightarrow> v)"

definition buildCompanySnapshot :: "'a ledger_scheme \<Rightarrow> unit res" where
  "buildCompanySnapshot s =
     (if list_ex (\<lambda>k. getText s k = [])
           [''company.legal_name'', ''company.national_id'', ''company.registration_number'',
            ''company.address'']
      then Inl (BadRequest ''company details incomplete'') else Inr ())"

definition buildSnapshots :: "'a billing_scheme \<Rightarrow> nat option \<Rightarrow> nat option \<Rightarrow> unit res" where
  "buildSnapshots s user agent =
     (case buildCompanySnapshot s of Inl e \<Rightarrow> Inl e | Inr _ \<Rightarrow>
      (case agent of
         Some a \<Rightarrow> if a \<in> set (agentIds s) then Inr () else Inl (NotFound ''agent'')
       | None \<Rightarrow>
           if list_ex (\<lambda>x. Some (uId x) = user) (users s) then Inr () else Inl (NotFound ''user'')))"

definition sumItems :: "(invoice_item \<Rightarrow> int) \<Rightarrow> invoice_item list \<Rightarrow> int" where
  "sumItems f is = foldl (\<lambda>s i. s + f i) 0 is"

definition itemsSubtotal :: "invoice_item list \<Rightarrow> int" where
  "itemsSubtotal is = sumItems (\<lambda>i. itUnitPrice i * itQuantity i + itMaking i) is"

definition newInvoice :: "nat \<Rightarrow> string \<Rightarrow> issue_params \<Rightarrow> invoice" where
  "newInvoice i num p =
     \<lparr>ivId = i, ivKind = ipKind p, ivNumber = num,
      ivStatus = (case ipStatus p of None \<Rightarrow> IV_ISSUED | Some st \<Rightarrow> st),
      ivSource = ipSource p, ivSourceId = ipSourceId p, ivUser = ipUser p, ivAgent = ipAgent p,
      ivSubtotal = itemsSubtotal (ipItems p), ivDiscount = sumItems itDiscount (ipItems p),
      ivFee = sumItems itFee (ipItems p), ivTax = sumItems itTax (ipItems p),
      ivTotal = sumItems itTotal (ipItems p), ivExpires = ipExpires p, ivReason = None,
      ivItems = ipItems p\<rparr>"

text \<open>A document whose columns do not add up is only reported in the log, not refused.\<close>

definition columnsAdd :: "invoice \<Rightarrow> bool" where
  "columnsAdd v \<longleftrightarrow> ivSubtotal v - ivDiscount v + ivFee v + ivTax v = ivTotal v"

definition issue :: "'a billing_scheme \<Rightarrow> issue_params \<Rightarrow> ('a billing_scheme \<times> invoice) res" where
  "issue s p =
     (if ipItems p = [] then Inl (BadRequest ''document without items'')
      else if (ipUser p = None) = (ipAgent p = None)
      then Inl (BadRequest ''exactly one buyer'')
      else
      (case find (\<lambda>v. ivSource v = ipSource p \<and> ivSourceId v = ipSourceId p \<and> ivKind v = ipKind p)
              (invoices s) of
         Some v \<Rightarrow> Inr (s, v)
       | None \<Rightarrow>
           (case buildSnapshots s (ipUser p) (ipAgent p) of Inl e \<Rightarrow> Inl e | Inr _ \<Rightarrow>
            (let (s1, num) = sequenceNext s (if ipKind p = PROFORMA then ''PRF'' else ''INV'');
                 v = newInvoice (nextId s1) num p in
             Inr (s1\<lparr>nextId := nextId s1 + 1, invoices := invoices s1 @ [v]\<rparr>, v)))))"

definition setInvoice :: "'a billing_scheme \<Rightarrow> nat option \<Rightarrow> (invoice \<Rightarrow> invoice) \<Rightarrow> 'a billing_scheme" where
  "setInvoice s i f =
     (case i of
        None \<Rightarrow> s
      | Some k \<Rightarrow> s\<lparr>invoices := update_where (\<lambda>v. ivId v = k) f (invoices s)\<rparr>)"

text \<open>Voiding a document by the staff, with a reason; the answer says whether it was void already.\<close>

definition cancelInvoice :: "'a billing_scheme \<Rightarrow> nat \<Rightarrow> string \<Rightarrow> ('a billing_scheme \<times> bool) res" where
  "cancelInvoice s i reason =
     (if length (trim reason) < 10 then Inl (BadRequest ''reason too short'')
      else
      (case find (\<lambda>v. ivId v = i) (invoices s) of
         None \<Rightarrow> Inl (NotFound ''document'')
       | Some v \<Rightarrow>
           if ivStatus v = IV_CANCELLED then Inr (s, True)
           else if ivStatus v = IV_CONSUMED then Inl (Conflict ''consumed by an approved deposit'')
           else Inr (setInvoice s (Some i)
                  (\<lambda>v. v\<lparr>ivStatus := IV_CANCELLED, ivReason := Some (trim reason)\<rparr>), False)))"

subsection \<open>The discount of an order over its rows\<close>

text \<open>
  First every row gets its proportional share, rounded down to whole tomans (ten rials) and
  never more than the row; then the rest goes to the last rows that have room.
\<close>

definition discountShare :: "int \<Rightarrow> int \<Rightarrow> int \<Rightarrow> int" where
  "discountShare discount subtotal r = min ((discount * r) div (subtotal * 10) * 10) r"

text \<open>The second loop, on the rows from the last to the first.\<close>

fun giveRemainder :: "(int \<times> int) list \<Rightarrow> int \<Rightarrow> int list" where
  "giveRemainder [] r = []"
| "giveRemainder ((amount, got) # rows) r =
     (if 0 < r
      then (let add = min (amount - got) r in (got + add) # giveRemainder rows (r - add))
      else got # giveRemainder rows r)"

definition allocateDiscount :: "int list \<Rightarrow> int \<Rightarrow> int list" where
  "allocateDiscount lineTotals discount =
     (let subtotal = foldl (+) 0 lineTotals in
      if discount \<le> 0 \<or> subtotal \<le> 0 then map (\<lambda>_. 0) lineTotals
      else
        (let result = map (discountShare discount subtotal) lineTotals;
             remainder = discount - foldl (+) 0 result in
         rev (giveRemainder (rev (zip lineTotals result)) remainder)))"

subsection \<open>Rows of a shop order\<close>

record price_component =
  pcKey :: string
  pcAmount :: int
  pcRate :: rat

record breakdown =
  bdMaking :: int
  bdCommission :: int
  bdTax :: int
  bdTaxRate :: rat

fun includesText :: "string \<Rightarrow> string \<Rightarrow> bool" where
  "includesText [] sub = (sub = [])"
| "includesText (c # s) sub = (starts_with sub (c # s) \<or> includesText s sub)"

definition toLowerCase :: "string \<Rightarrow> string" where
  "toLowerCase s =
     map (\<lambda>c. if 65 \<le> (of_char c :: nat) \<and> (of_char c :: nat) \<le> 90 then char_of ((of_char c :: nat) + 32) else c) s"

definition addComponent :: "breakdown \<Rightarrow> price_component \<Rightarrow> breakdown" where
  "addComponent out r =
     (let key = toLowerCase (pcKey r) in
      if includesText key ''making'' then out\<lparr>bdMaking := bdMaking out + pcAmount r\<rparr>
      else if includesText key ''commission'' \<or> includesText key ''fee'' \<or> includesText key ''profit''
      then out\<lparr>bdCommission := bdCommission out + pcAmount r\<rparr>
      else if includesText key ''tax''
      then out\<lparr>bdTax := bdTax out + pcAmount r,
               bdTaxRate := if pcRate r \<noteq> 0 then pcRate r else bdTaxRate out\<rparr>
      else out)"

definition parseBreakdown :: "price_component list \<Rightarrow> breakdown" where
  "parseBreakdown rows =
     foldl addComponent \<lparr>bdMaking = 0, bdCommission = 0, bdTax = 0, bdTaxRate = 0\<rparr> rows"

record order_item =
  oiPrice :: int
  oiQuantity :: int
  oiBreakdown :: "price_component list"
  oiPackaging :: bool
  oiPackagingUnit :: int
  oiPackagingQuantity :: int
  oiPackagingRial :: int
  oiVariant :: "nat option"
  oiProduct :: "nat option"
  oiWeight :: "rat option"

record shop_order =
  soId :: nat
  soUser :: nat
  soItems :: "order_item list"
  soDiscount :: int
  soShippingMethod :: bool
  soShipping :: int
  soShippingWaived :: int

definition productRow :: "nat \<Rightarrow> order_item \<Rightarrow> int \<Rightarrow> invoice_item" where
  "productRow row it discount =
     (let b = parseBreakdown (oiBreakdown it);
          components = bdMaking b + bdCommission b + bdTax b;
          split = 0 < components \<and> components \<le> oiPrice it in
      \<lparr>itRow = row, itQuantity = oiQuantity it,
       itUnitPrice = (if split then oiPrice it - components else oiPrice it),
       itDiscount = discount,
       itMaking = (if split then bdMaking b * oiQuantity it else 0),
       itFee = (if split then bdCommission b * oiQuantity it else 0),
       itTaxRate = (if split then bdTaxRate b else 0),
       itTax = (if split then bdTax b * oiQuantity it else 0),
       itTotal = oiPrice it * oiQuantity it - discount\<rparr>)"

fun productRows :: "nat \<Rightarrow> order_item list \<Rightarrow> int list \<Rightarrow> invoice_item list" where
  "productRows n (it # items) (d # ds) = productRow n it d # productRows (n + 1) items ds"
| "productRows n _ _ = []"

fun packagingRows :: "nat \<Rightarrow> order_item list \<Rightarrow> invoice_item list" where
  "packagingRows n [] = []"
| "packagingRows n (it # items) =
     (if \<not> oiPackaging it \<or> oiPackagingQuantity it \<le> 0 then packagingRows n items
      else
        \<lparr>itRow = n, itQuantity = oiPackagingQuantity it, itUnitPrice = oiPackagingUnit it,
         itDiscount = oiPackagingUnit it * oiPackagingQuantity it - oiPackagingRial it,
         itMaking = 0, itFee = 0, itTaxRate = 0, itTax = 0, itTotal = oiPackagingRial it\<rparr>
        # packagingRows (n + 1) items)"

definition shippingRows :: "nat \<Rightarrow> 'o shop_order_scheme \<Rightarrow> invoice_item list" where
  "shippingRows n ord =
     (if soShippingMethod ord \<and> 0 < soShipping ord + soShippingWaived ord
      then [\<lparr>itRow = n, itQuantity = 1, itUnitPrice = soShipping ord + soShippingWaived ord,
             itDiscount = soShippingWaived ord, itMaking = 0, itFee = 0, itTaxRate = 0, itTax = 0,
             itTotal = soShipping ord\<rparr>]
      else [])"

definition shopOrderItems :: "'o shop_order_scheme \<Rightarrow> invoice_item list" where
  "shopOrderItems ord =
     (let lines = map (\<lambda>it. oiPrice it * oiQuantity it) (soItems ord);
          rows = productRows 1 (soItems ord) (allocateDiscount lines (soDiscount ord));
          rows' = rows @ packagingRows (length rows + 1) (soItems ord) in
      rows' @ shippingRows (length rows' + 1) ord)"

definition issueForShopOrder ::
  "'a billing_scheme \<Rightarrow> 'o shop_order_scheme \<Rightarrow> ('a billing_scheme \<times> invoice) res" where
  "issueForShopOrder s ord =
     issue s \<lparr>ipKind = INVOICE, ipSource = SRC_SHOP_ORDER, ipSourceId = soId ord,
              ipUser = Some (soUser ord), ipAgent = None, ipItems = shopOrderItems ord,
              ipExpires = None, ipStatus = Some IV_PAID\<rparr>"

subsection \<open>Documents of agents and partners\<close>

record agent_sale =
  asId :: nat
  asAgent :: nat
  asConsignment :: bool
  asNetPayable :: int
  asPremium :: int

definition issueForAgentSale :: "'a billing_scheme \<Rightarrow> agent_sale \<Rightarrow> ('a billing_scheme \<times> invoice) res" where
  "issueForAgentSale s sale =
     (if \<not> asConsignment sale then Inl (BadRequest ''only consignment sales are invoiced'')
      else
        (let net = asNetPayable sale; premium = min (asPremium sale) net in
         issue s \<lparr>ipKind = INVOICE, ipSource = SRC_AGENT_SALE, ipSourceId = asId sale,
                  ipUser = None, ipAgent = Some (asAgent sale),
                  ipItems = [\<lparr>itRow = 1, itQuantity = 1, itUnitPrice = net - premium,
                    itDiscount = 0, itMaking = premium, itFee = 0, itTaxRate = 0, itTax = 0,
                    itTotal = net\<rparr>],
                  ipExpires = None, ipStatus = Some IV_ISSUED\<rparr>))"

record purchase_row =
  prQuantity :: int
  prUnitGold :: int
  prUnitPremium :: int
  prLineTotal :: int

fun agentPurchaseItems :: "nat \<Rightarrow> purchase_row list \<Rightarrow> invoice_item list" where
  "agentPurchaseItems n [] = []"
| "agentPurchaseItems n (r # rs) =
     \<lparr>itRow = n, itQuantity = prQuantity r, itUnitPrice = prUnitGold r, itDiscount = 0,
      itMaking = prUnitPremium r * prQuantity r, itFee = 0, itTaxRate = 0, itTax = 0,
      itTotal = prLineTotal r\<rparr> # agentPurchaseItems (n + 1) rs"

record purchase_order =
  poId :: nat
  poAgent :: nat
  poRows :: "purchase_row list"
  poLockedUntil :: int
  poCredit :: bool

definition issueAgentPurchaseProforma ::
  "'a billing_scheme \<Rightarrow> purchase_order \<Rightarrow> ('a billing_scheme \<times> invoice) res" where
  "issueAgentPurchaseProforma s ord =
     issue s \<lparr>ipKind = PROFORMA, ipSource = SRC_AGENT_PURCHASE, ipSourceId = poId ord,
              ipUser = None, ipAgent = Some (poAgent ord),
              ipItems = agentPurchaseItems 1 (poRows ord),
              ipExpires = Some (poLockedUntil ord), ipStatus = Some IV_ISSUED\<rparr>"

definition issueAgentPurchaseInvoice ::
  "'a billing_scheme \<Rightarrow> purchase_order \<Rightarrow> ('a billing_scheme \<times> invoice) res" where
  "issueAgentPurchaseInvoice s ord =
     issue s \<lparr>ipKind = INVOICE, ipSource = SRC_AGENT_PURCHASE, ipSourceId = poId ord,
              ipUser = None, ipAgent = Some (poAgent ord),
              ipItems = agentPurchaseItems 1 (poRows ord),
              ipExpires = None,
              ipStatus = Some (if poCredit ord then IV_ISSUED else IV_PAID)\<rparr>"

record partner_order =
  ptId :: nat
  ptUser :: nat
  ptGoldValue :: int
  ptWage :: int
  ptFee :: int
  ptTax :: int

definition issueForPartnerOrder ::
  "'a billing_scheme \<Rightarrow> partner_order \<Rightarrow> ('a billing_scheme \<times> invoice) res" where
  "issueForPartnerOrder s p =
     issue s \<lparr>ipKind = INVOICE, ipSource = SRC_PARTNER_ORDER, ipSourceId = ptId p,
              ipUser = Some (ptUser p), ipAgent = None,
              ipItems = [\<lparr>itRow = 1, itQuantity = 1, itUnitPrice = ptGoldValue p, itDiscount = 0,
                itMaking = ptWage p, itFee = ptFee p, itTaxRate = 0, itTax = ptTax p,
                itTotal = ptGoldValue p + ptWage p + ptFee p + ptTax p\<rparr>],
              ipExpires = None, ipStatus = Some IV_PAID\<rparr>"

subsection \<open>The discount of an order is shared out exactly\<close>

lemma foldl_add_int: "foldl (+) a xs = a + sum_list (xs :: int list)"
  by (induction xs arbitrary: a) auto

definition fits :: "(int \<times> int) list \<Rightarrow> bool" where
  "fits rows \<longleftrightarrow> (\<forall>(amount, got) \<in> set rows. 0 \<le> got \<and> got \<le> amount)"

lemma length_giveRemainder [simp]: "length (giveRemainder rows r) = length rows"
  by (induction rows r rule: giveRemainder.induct) (auto simp: Let_def)

lemma fits_sums: "fits rows \<Longrightarrow> sum_list (map snd rows) \<le> sum_list (map fst rows)"
  unfolding fits_def by (induction rows) auto

lemma giveRemainder_sum:
  assumes "fits rows" "0 \<le> r"
  shows "sum_list (giveRemainder rows r) =
           sum_list (map snd rows) + min r (sum_list (map fst rows) - sum_list (map snd rows))"
  using assms
proof (induction rows r rule: giveRemainder.induct)
  case (1 r)
  then show ?case by simp
next
  case (2 amount got rows r)
  have rest: "sum_list (map snd rows) \<le> sum_list (map fst rows)"
    using fits_sums 2(3) by (auto simp: fits_def)
  show ?case
  proof (cases "0 < r")
    case True
    let ?add = "min (amount - got) r"
    have "sum_list (giveRemainder rows (r - ?add)) = sum_list (map snd rows) +
        min (r - ?add) (sum_list (map fst rows) - sum_list (map snd rows))"
      using 2(1) True 2(3) by (simp add: fits_def)
    then show ?thesis using True rest 2(3) by (auto simp: fits_def Let_def min_def)
  next
    case False
    then have "r = 0" using 2(4) by simp
    then show ?thesis using 2(2) 2(3) rest by (auto simp: fits_def)
  qed
qed

lemma giveRemainder_fits:
  assumes "fits rows" "0 \<le> r"
  shows "fits (zip (map fst rows) (giveRemainder rows r))"
  using assms
proof (induction rows r rule: giveRemainder.induct)
  case (1 r)
  then show ?case by (simp add: fits_def)
next
  case (2 amount got rows r)
  then show ?case by (auto simp: fits_def Let_def)
qed

lemma discountShare_bounds:
  assumes "0 \<le> d" "0 < t" "0 \<le> x"
  shows "0 \<le> discountShare d t x" "discountShare d t x \<le> x" "t * discountShare d t x \<le> d * x"
proof -
  have q: "0 \<le> (d * x) div (t * 10)" using assms by (simp add: pos_imp_zdiv_nonneg_iff)
  then show "0 \<le> discountShare d t x" "discountShare d t x \<le> x"
    using assms by (simp_all add: discountShare_def)
  have "t * discountShare d t x \<le> t * ((d * x) div (t * 10) * 10)"
    using assms by (intro mult_left_mono) (simp_all add: discountShare_def)
  also have "\<dots> = (t * 10) * ((d * x) div (t * 10))" by simp
  also have "\<dots> \<le> d * x" 
    using assms by (metis mult_pos_pos pos_mod_sign mult_div_mod_eq le_add_same_cancel1 zero_less_numeral)
  finally show "t * discountShare d t x \<le> d * x" .
qed

lemma shares_sum:
  assumes "0 \<le> d" "0 < t" "\<forall>x \<in> set ls. 0 \<le> x"
  shows "t * sum_list (map (discountShare d t) ls) \<le> d * sum_list ls"
  using assms(3) by (induction ls) (auto simp: distrib_left intro!: add_mono discountShare_bounds(3) assms(1,2))

lemma allocateDiscount_length [simp]: "length (allocateDiscount ls d) = length ls"
  by (simp add: allocateDiscount_def Let_def)

lemma allocateDiscount_sum:
  assumes "\<forall>x \<in> set ls. 0 \<le> x" "0 \<le> d"
  shows "sum_list (allocateDiscount ls d) = min d (sum_list ls)"
    and "list_all2 (\<lambda>x g. 0 \<le> g \<and> g \<le> x) ls (allocateDiscount ls d)"
proof -
  let ?t = "sum_list ls" and ?res = "map (discountShare d (sum_list ls)) ls"
  have t0: "0 \<le> ?t" using assms(1) by (intro sum_list_nonneg) auto
  have "sum_list (allocateDiscount ls d) = min d ?t \<and>
    list_all2 (\<lambda>x g. 0 \<le> g \<and> g \<le> x) ls (allocateDiscount ls d)"
  proof (cases "d \<le> 0 \<or> ?t \<le> 0")
    case True
    then have "allocateDiscount ls d = map (\<lambda>_. 0) ls"
      by (simp add: allocateDiscount_def Let_def foldl_add_int)
    moreover have "sum_list (map (\<lambda>_. 0 :: int) ls) = 0" by (induction ls) auto
    moreover have "list_all2 (\<lambda>x g. 0 \<le> g \<and> g \<le> x) ls (map (\<lambda>_. 0) ls)"
      using assms(1) by (induction ls) auto
    ultimately show ?thesis using True t0 assms(2) by auto
  next
    case False
    let ?rows = "rev (zip ls ?res)" and ?r = "d - sum_list ?res"
    have b: "\<forall>x \<in> set ls. 0 \<le> discountShare d ?t x \<and> discountShare d ?t x \<le> x"
      using assms False by (auto intro: discountShare_bounds)
    have fit: "fits ?rows" 
      using b by (auto simp: fits_def set_zip dest: nth_mem)
    have "?t * sum_list ?res \<le> ?t * d"
      using shares_sum [of d ?t ls] assms False by (simp add: mult.commute)
    then have r0: "0 \<le> ?r" using False t0 by (simp add: mult_le_cancel_left)
    have al: "allocateDiscount ls d = rev (giveRemainder ?rows ?r)"
      using False by (simp add: allocateDiscount_def Let_def foldl_add_int)
    have fst: "map fst ?rows = rev ls" and snd: "map snd ?rows = rev ?res" by (simp_all flip: rev_map)
    have "sum_list ?res \<le> ?t" using fits_sums [OF fit] unfolding fst snd by (simp add: sum_list_rev)
    then have "sum_list (allocateDiscount ls d) = min d ?t"
      using giveRemainder_sum [OF fit r0] unfolding al fst snd by (simp add: sum_list_rev min_def)
    moreover have "length (rev ls) = length (giveRemainder ?rows ?r)" by simp
    then have "list_all2 (\<lambda>x g. 0 \<le> g \<and> g \<le> x) (rev ls) (giveRemainder ?rows ?r)"
      using giveRemainder_fits [OF fit r0] unfolding fst list_all2_iff fits_def by blast
    ultimately show ?thesis
      using list_all2_rev [of "\<lambda>x g. 0 \<le> g \<and> g \<le> x" ls "rev (giveRemainder ?rows ?r)"]
      unfolding al rev_rev_ident by blast
  qed
  then show "sum_list (allocateDiscount ls d) = min d (sum_list ls)"
    "list_all2 (\<lambda>x g. 0 \<le> g \<and> g \<le> x) ls (allocateDiscount ls d)" by auto
qed

subsection \<open>Columns that add up\<close>

definition rowAdds :: "invoice_item \<Rightarrow> bool" where
  "rowAdds i \<longleftrightarrow>
     itUnitPrice i * itQuantity i + itMaking i - itDiscount i + itFee i + itTax i = itTotal i"

lemma sumItems_list: "sumItems f is = sum_list (map f is)"
proof -
  have "foldl (\<lambda>s i. s + f i) a is = a + sum_list (map f is)" for a
    by (induction "is" arbitrary: a) auto
  then show ?thesis by (simp add: sumItems_def)
qed

lemma rowsAdd_columns:
  assumes "\<forall>i \<in> set is. rowAdds i"
  shows "itemsSubtotal is - sumItems itDiscount is + sumItems itFee is + sumItems itTax is =
         sumItems itTotal is"
  using assms by (induction "is") (auto simp: sumItems_list itemsSubtotal_def rowAdds_def)

lemma productRow_adds: "rowAdds (productRow n it d)"
  by (auto simp: rowAdds_def productRow_def Let_def algebra_simps)

lemma productRows_adds: "i \<in> set (productRows n its ds) \<Longrightarrow> rowAdds i"
  by (induction n its ds rule: productRows.induct) (auto simp: productRow_adds)

lemma packagingRows_adds: "i \<in> set (packagingRows n its) \<Longrightarrow> rowAdds i"
  by (induction n its rule: packagingRows.induct) (auto simp: rowAdds_def split: if_splits)

lemma shippingRows_adds: "i \<in> set (shippingRows n ord) \<Longrightarrow> rowAdds i"
  by (auto simp: shippingRows_def rowAdds_def split: if_splits)

lemma shopOrderItems_adds: "i \<in> set (shopOrderItems ord) \<Longrightarrow> rowAdds i"
  by (auto simp: shopOrderItems_def Let_def dest: productRows_adds packagingRows_adds shippingRows_adds)

lemma sum_productRows:
  "length ds = length its \<Longrightarrow> sum_list (map itTotal (productRows n its ds)) =
     sum_list (map (\<lambda>it. oiPrice it * oiQuantity it) its) - sum_list ds"
  by (induction n its ds rule: productRows.induct) (auto simp: productRow_def Let_def)

lemma sum_packagingRows:
  "sum_list (map itTotal (packagingRows n its)) =
     sum_list (map oiPackagingRial (filter (\<lambda>it. oiPackaging it \<and> 0 < oiPackagingQuantity it) its))"
  by (induction n its rule: packagingRows.induct) auto

lemma sum_shippingRows:
  "0 \<le> soShipping ord \<Longrightarrow> 0 \<le> soShippingWaived ord \<Longrightarrow> sum_list (map itTotal (shippingRows n ord)) =
     (if soShippingMethod ord then soShipping ord else 0)"
  by (auto simp: shippingRows_def)

subsection \<open>Document numbers do not repeat\<close>

definition readDecimal :: "string \<Rightarrow> nat" where
  "readDecimal s = foldl (\<lambda>a c. 10 * a + digit_val c) 0 s"

lemma foldl_zeros: "foldl (\<lambda>a c. 10 * a + digit_val c) 0 (replicate n (CHR ''0'') @ s) = readDecimal s"
proof (induction n)
  case 0
  then show ?case by (simp add: readDecimal_def)
next
  case (Suc n)
  then show ?case by (simp add: digit_val_def)
qed

lemma digit_val_char: "d < 10 \<Longrightarrow> digit_val (char_of (48 + d)) = d"
  by (simp add: digit_val_def)

lemma readDecimal_decimal: "readDecimal (decimal n) = n"
proof (induction n rule: decimal.induct)
  case (1 n)
  show ?case
  proof (cases "n < 10")
    case True
    then show ?thesis by (simp add: decimal.simps [of n] readDecimal_def digit_val_char)
  next
    case False
    have "readDecimal (decimal n) = 10 * readDecimal (decimal (n div 10)) + n mod 10"
      using False digit_val_char [of "n mod 10"] by (subst decimal.simps) (simp add: readDecimal_def)
    then show ?thesis using 1 [OF False] by simp
  qed
qed

lemma readDecimal_pad: "readDecimal (padStart k (CHR ''0'') (decimal n)) = n"
  unfolding padStart_def readDecimal_def [of "_ @ _"] foldl_zeros by (rule readDecimal_decimal)

lemma documentNumber_inj: "documentNumber y p m = documentNumber y p n \<Longrightarrow> m = n"
proof -
  assume "documentNumber y p m = documentNumber y p n"
  then have "padStart 6 (CHR ''0'') (decimal m) = padStart 6 (CHR ''0'') (decimal n)"
    by (simp add: documentNumber_def)
  then show "m = n" using readDecimal_pad by metis
qed

lemma issue_fresh:
  assumes "issue s p = Inr (s', v)"
    and "find (\<lambda>v. ivSource v = ipSource p \<and> ivSourceId v = ipSourceId p \<and> ivKind v = ipKind p) (invoices s) = None"
  obtains i num where "v = newInvoice i num p" "invoices s' = invoices s @ [v]"
  using assms that unfolding issue_def by (auto simp: sequenceNext_def Let_def split: if_splits)

text \<open>Numbers drawn one after the other.\<close>

fun drawNumbers :: "'a bank_scheme \<Rightarrow> string \<Rightarrow> nat \<Rightarrow> string list" where
  "drawNumbers s prefix 0 = []"
| "drawNumbers s prefix (Suc n) =
     (let (s1, num) = sequenceNext s prefix in num # drawNumbers s1 prefix n)"

lemma drawNumbers_serials:
  "drawNumbers s p n = map (\<lambda>k. documentNumber (jalaliYear s) p (sequences s (p @ '':'' @ decimal (jalaliYear s)) + k))
     [1..<Suc n]"
proof (induction n arbitrary: s)
  case 0
  then show ?case by simp
next
  case (Suc n)
  have "[1..<Suc (Suc n)] = 1 # map Suc [1..<Suc n]"
    by (simp add: map_Suc_upt upt_conv_Cons del: upt_Suc)
  then show ?case by (simp add: Suc.IH sequenceNext_def Let_def comp_def del: upt_Suc)
qed

definition demoOrder :: shop_order where
  "demoOrder =
     \<lparr>soId = 7, soUser = 11,
      soItems = [\<lparr>oiPrice = 100, oiQuantity = 2, oiBreakdown =
                    [\<lparr>pcKey = ''making'', pcAmount = 10, pcRate = 0\<rparr>, \<lparr>pcKey = ''tax'', pcAmount = 5, pcRate = 10\<rparr>],
                  oiPackaging = True, oiPackagingUnit = 20, oiPackagingQuantity = 2, oiPackagingRial = 0,
                  oiVariant = Some 80, oiProduct = None, oiWeight = None\<rparr>,
                 \<lparr>oiPrice = 50, oiQuantity = 1, oiBreakdown = [], oiPackaging = False,
                  oiPackagingUnit = 0, oiPackagingQuantity = 0, oiPackagingRial = 0,
                  oiVariant = Some 80, oiProduct = None, oiWeight = None\<rparr>],
      soDiscount = 33, soShippingMethod = True, soShipping = 15, soShippingWaived = 0\<rparr>"

definition demoBilling :: billing where
  "demoBilling =
     \<lparr>nextId = 100, accounts = [], journals = [], ledgerEntries = [], fiscalYears = [],
      lockedUntil = None, config = (\<lambda>_. Some ''x''), configNum = (\<lambda>_. None),
      users = [\<lparr>uId = 11, uStatus = ACTIVE, uIdentity = Some ID_VERIFIED\<rparr>],
      bankAccounts = [], wallets = [], holds = [], transactions = [], withdrawals = [],
      approvals = [], sequences = (\<lambda>_. 0), jalaliYear = 1404, invoices = [], agentIds = []\<rparr>"

lemma demo_issued: obtains s' v where "issueForShopOrder demoBilling demoOrder = Inr (s', v)"
proof -
  have "(case issueForShopOrder demoBilling demoOrder of Inl _ \<Rightarrow> False | Inr _ \<Rightarrow> True)" by code_simp
  then show thesis using that by (auto split: sum.splits)
qed

subsection \<open>Properties\<close>

text \<open>The discount of an order is shared out exactly: the rows of the invoice together get the
whole discount (or the whole order, when the discount is larger), and no row gets a negative
discount or more than its own amount.\<close>

theorem discount_shared_exactly:
  assumes "\<forall>x \<in> set lineTotals. 0 \<le> x" and "0 \<le> discount"
  shows "sum_list (allocateDiscount lineTotals discount) = min discount (sum_list lineTotals) \<and>
    list_all2 (\<lambda>x g. 0 \<le> g \<and> g \<le> x) lineTotals (allocateDiscount lineTotals discount)"
  using allocateDiscount_sum [OF assms] by blast

lemma discount_shared_exactly_witness:
  "sum_list (allocateDiscount [200, 50] 33) = 33 \<and> allocateDiscount [200, 50] 33 = [20, 13]"
proof -
  have "\<forall>x \<in> set [200, 50 :: int]. 0 \<le> x" "(0::int) \<le> 33" by simp_all
  from discount_shared_exactly [OF this] show ?thesis
    by (simp add: allocateDiscount_def discountShare_def Let_def)
qed

text \<open>The invoice of a shop order always adds up: gross less discount plus fees plus tax is the
amount payable, whatever the price breakdowns of the items hold, and the amount payable is the sum
of the locked prices less the order discount, plus packaging and shipping.\<close>

theorem shop_invoice_adds_up:
  assumes "issueForShopOrder s ord = Inr (s', v)"
    and "\<forall>w \<in> set (invoices s). ivSource w \<noteq> SRC_SHOP_ORDER \<or> ivSourceId w \<noteq> soId ord"
    and "\<forall>it \<in> set (soItems ord). 0 \<le> oiPrice it \<and> 0 \<le> oiQuantity it"
    and "0 \<le> soDiscount ord" and "0 \<le> soShipping ord" and "0 \<le> soShippingWaived ord"
  shows "columnsAdd v \<and> v \<in> set (invoices s') \<and>
    (let lines = sum_list (map (\<lambda>it. oiPrice it * oiQuantity it) (soItems ord)) in
     ivTotal v = lines - min (soDiscount ord) lines
       + sum_list (map oiPackagingRial (filter (\<lambda>it. oiPackaging it \<and> 0 < oiPackagingQuantity it) (soItems ord)))
       + (if soShippingMethod ord then soShipping ord else 0))"
proof -
  let ?lines = "map (\<lambda>it. oiPrice it * oiQuantity it) (soItems ord)"
  have none: "find (\<lambda>v. ivSource v = SRC_SHOP_ORDER \<and> ivSourceId v = soId ord \<and> ivKind v = INVOICE)
      (invoices s) = None"
    using assms(2) by (auto simp: find_None_iff)
  obtain i num where v: "v = newInvoice i num \<lparr>ipKind = INVOICE, ipSource = SRC_SHOP_ORDER,
      ipSourceId = soId ord, ipUser = Some (soUser ord), ipAgent = None, ipItems = shopOrderItems ord,
      ipExpires = None, ipStatus = Some IV_PAID\<rparr>" and inv: "invoices s' = invoices s @ [v]"
    by (rule issue_fresh [OF assms(1) [unfolded issueForShopOrder_def]]) (simp_all add: none)
  have "columnsAdd v"
    unfolding columnsAdd_def v newInvoice_def
    using rowsAdd_columns [of "shopOrderItems ord"] shopOrderItems_adds [of _ ord] by simp
  moreover have "\<forall>x \<in> set ?lines. 0 \<le> x" using assms(3) by auto
  from allocateDiscount_sum(1) [OF this assms(4)]
  have "ivTotal v = sum_list ?lines - min (soDiscount ord) (sum_list ?lines)
       + sum_list (map oiPackagingRial (filter (\<lambda>it. oiPackaging it \<and> 0 < oiPackagingQuantity it) (soItems ord)))
       + (if soShippingMethod ord then soShipping ord else 0)"
    unfolding v newInvoice_def
    by (simp add: sumItems_list shopOrderItems_def Let_def sum_productRows sum_packagingRows
        sum_shippingRows assms(5,6))
  ultimately show ?thesis by (simp add: inv Let_def)
qed

lemma shop_invoice_adds_up_witness:
  "\<exists>s' v. issueForShopOrder demoBilling demoOrder = Inr (s', v) \<and> columnsAdd v \<and> ivTotal v = 232"
proof -
  obtain s' v where r: "issueForShopOrder demoBilling demoOrder = Inr (s', v)" by (rule demo_issued)
  have "columnsAdd v \<and> ivTotal v = 232"
    using shop_invoice_adds_up [OF r] by (simp add: demoBilling_def demoOrder_def)
  then show ?thesis using r by blast
qed

text \<open>A source gets one document of each kind: issuing again for the same kind and source, with
whatever rows, returns the document issued first and leaves the state as it is.\<close>

theorem issue_once:
  assumes "issue s p = Inr (s1, v)"
    and "ipKind q = ipKind p" and "ipSource q = ipSource p" and "ipSourceId q = ipSourceId p"
    and "ipItems q \<noteq> []" and "(ipUser q = None) \<noteq> (ipAgent q = None)"
  shows "issue s1 q = Inr (s1, v)"
proof (cases "find (\<lambda>v. ivSource v = ipSource p \<and> ivSourceId v = ipSourceId p \<and> ivKind v = ipKind p) (invoices s)")
  case None
  from issue_fresh [OF assms(1) None] obtain i num where
    "v = newInvoice i num p" "invoices s1 = invoices s @ [v]" .
  then show ?thesis using None assms(2-) by (simp add: issue_def find_append newInvoice_def)
next
  case (Some w)
  then have "s1 = s \<and> v = w" using assms(1) by (auto simp: issue_def split: if_splits)
  then show ?thesis using Some assms(2-) by (simp add: issue_def)
qed

lemma issue_once_witness:
  "\<exists>s' v. issueForShopOrder demoBilling demoOrder = Inr (s', v) \<and>
     issueForShopOrder s' (demoOrder\<lparr>soDiscount := 0\<rparr>) = Inr (s', v)"
proof -
  obtain s' v where r: "issueForShopOrder demoBilling demoOrder = Inr (s', v)" by (rule demo_issued)
  have ne: "shopOrderItems (demoOrder\<lparr>soDiscount := 0\<rparr>) \<noteq> []" by code_simp
  show ?thesis
    using issue_once [OF r [unfolded issueForShopOrder_def],
        of "\<lparr>ipKind = INVOICE, ipSource = SRC_SHOP_ORDER, ipSourceId = soId demoOrder,
              ipUser = Some (soUser demoOrder), ipAgent = None,
              ipItems = shopOrderItems (demoOrder\<lparr>soDiscount := 0\<rparr>),
              ipExpires = None, ipStatus = Some IV_PAID\<rparr>"] r ne
    by (auto simp: issueForShopOrder_def)
qed

text \<open>Document numbers of one series do not repeat: any number of numbers drawn one after the
other within a year are all different.\<close>

theorem document_numbers_distinct: "distinct (drawNumbers s prefix n)"
  unfolding drawNumbers_serials
  by (auto simp: distinct_map inj_on_def dest: documentNumber_inj)

end
