(* ===== verification/Calendar.thy ===== *)
theory Calendar
  imports Prelude
begin

section \<open>Check digits and working days\<close>

text \<open>
  \<open>api/src/common/utils\<close>: the Luhn check digit of a deposit tracking id
  (\<open>luhn.util.ts\<close>), the mod-97 check of an Iranian IBAN (\<open>iban.util.ts\<close>), and the working
  day arithmetic of \<open>jalali.util.ts\<close>. Text that may hold Persian digits is a list of code points
  (\<open>nat list\<close>). The conversion to the Jalali calendar is the third-party library
  \<open>jalaali-js\<close> and a parameter \<open>toJalaali\<close>: the year, month and day of an instant.
  The server runs in UTC.
\<close>

subsection \<open>Luhn\<close>

text \<open>The loop goes over the digits from the right, doubling every other one.\<close>

fun luhnLoop :: "int list \<Rightarrow> bool \<Rightarrow> int \<Rightarrow> int" where
  "luhnLoop [] double acc = acc"
| "luhnLoop (d # ds) double acc =
     (let d2 = (if double then (if 9 < d * 2 then d * 2 - 9 else d * 2) else d) in
      luhnLoop ds (\<not> double) (acc + d2))"

definition luhnCheckDigit :: "string \<Rightarrow> int" where
  "luhnCheckDigit payload =
     (10 - luhnLoop (rev (map (\<lambda>c. int (of_char c) - 48) payload)) True 0 mod 10) mod 10"

definition withLuhn :: "string \<Rightarrow> string" where
  "withLuhn payload = payload @ [char_of (48 + nat (luhnCheckDigit payload))]"

definition isValidLuhn :: "string \<Rightarrow> bool" where
  "isValidLuhn full \<longleftrightarrow>
     list_all is_digit full \<and> 2 \<le> length full \<and>
     luhnCheckDigit (butlast full) = int (digit_val (last full))"

subsection \<open>IBAN\<close>

definition isPersianDigit :: "nat \<Rightarrow> bool" where
  "isPersianDigit c \<longleftrightarrow> 1776 \<le> c \<and> c \<le> 1785"

definition isArabicDigit :: "nat \<Rightarrow> bool" where
  "isArabicDigit c \<longleftrightarrow> 1632 \<le> c \<and> c \<le> 1641"

definition isLatinDigit :: "nat \<Rightarrow> bool" where
  "isLatinDigit c \<longleftrightarrow> 48 \<le> c \<and> c \<le> 57"

definition isWhite :: "nat \<Rightarrow> bool" where
  "isWhite c \<longleftrightarrow> c \<in> {9, 10, 11, 12, 13, 32, 160, 5760, 8232, 8233, 8239, 8287, 12288, 65279}
     \<or> (8192 \<le> c \<and> c \<le> 8202)"

definition upperCode :: "nat \<Rightarrow> nat" where
  "upperCode c = (if 97 \<le> c \<and> c \<le> 122 then c - 32 else c)"

definition normalizeIban :: "nat list \<Rightarrow> nat list" where
  "normalizeIban raw =
     (let cleaned = map upperCode (filter (\<lambda>c. \<not> isWhite c \<and> c \<noteq> 45)
            (map (\<lambda>c. if isPersianDigit c then c - 1776 + 48 else c) raw)) in
      if take 2 cleaned = [73, 82] then cleaned else [73, 82] @ cleaned)"

definition ibanNumeric :: "nat list \<Rightarrow> nat list" where
  "ibanNumeric iban = map (\<lambda>c. c - 48) (drop 4 iban) @ [1, 8, 2, 7] @ map (\<lambda>c. c - 48) (take 2 (drop 2 iban))"

definition isValidIranIban :: "nat list \<Rightarrow> bool" where
  "isValidIranIban iban \<longleftrightarrow>
     length iban = 26 \<and> take 2 iban = [73, 82] \<and> list_all isLatinDigit (drop 2 iban) \<and>
     foldl (\<lambda>r d. (r * 10 + d) mod 97) 0 (ibanNumeric iban) = 1"

subsection \<open>Digits and dates\<close>

definition toPersianDigits :: "nat list \<Rightarrow> nat list" where
  "toPersianDigits = map (\<lambda>c. if isLatinDigit c then c - 48 + 1776 else c)"

definition toEnglishDigits :: "nat list \<Rightarrow> nat list" where
  "toEnglishDigits =
     map (\<lambda>c. if isPersianDigit c then c - 1776 + 48 else if isArabicDigit c then c - 1632 + 48 else c)"

fun latin :: "nat \<Rightarrow> nat list" where
  "latin n = (if n < 10 then [48 + n] else latin (n div 10) @ [48 + n mod 10])"

declare latin.simps [simp del]

definition pad2 :: "nat \<Rightarrow> nat list" where
  "pad2 n = replicate (2 - length (latin n)) 48 @ latin n"

definition dateKey :: "nat \<times> nat \<times> nat \<Rightarrow> nat list" where
  "dateKey j = (case j of (jy, jm, jd) \<Rightarrow> latin jy @ [47] @ pad2 jm @ [47] @ pad2 jd)"

definition trimText :: "nat list \<Rightarrow> nat list" where
  "trimText s = rev (dropWhile isWhite (rev (dropWhile isWhite s)))"

fun splitText :: "nat \<Rightarrow> nat list \<Rightarrow> nat list list" where
  "splitText sep [] = [[]]"
| "splitText sep (c # cs) =
     (if c = sep then [] # splitText sep cs
      else (case splitText sep cs of [] \<Rightarrow> [[c]] | p # ps \<Rightarrow> (c # p) # ps))"

definition parseHolidays :: "nat list \<Rightarrow> nat list list" where
  "parseHolidays raw =
     (if raw = [] then []
      else filter (\<lambda>s. s \<noteq> [])
             (map (\<lambda>s. toPersianDigits (toEnglishDigits (trimText s))) (splitText 44 raw)))"

text \<open>\<open>getDay\<close> in UTC: the epoch was a Thursday (4); Friday is 5.\<close>

definition getDay :: "int \<Rightarrow> int" where
  "getDay t = (t div day_ms + 4) mod 7"

definition isWorkingDay :: "(int \<Rightarrow> nat \<times> nat \<times> nat) \<Rightarrow> int \<Rightarrow> nat list list \<Rightarrow> bool" where
  "isWorkingDay toJalaali t holidays \<longleftrightarrow>
     getDay t \<noteq> 5 \<and> dateKey (toJalaali t) \<notin> set holidays"

text \<open>The loop with its counter of days tried (\<open>guard\<close>) and of working days found.\<close>

function workingLoop ::
  "(int \<Rightarrow> nat \<times> nat \<times> nat) \<Rightarrow> nat list list \<Rightarrow> int \<Rightarrow> int \<Rightarrow> nat \<Rightarrow> nat \<Rightarrow> int" where
  "workingLoop toJ holidays days t added guard =
     (if int added < days \<and> guard < 365
      then (let t' = t + day_ms in
            workingLoop toJ holidays days t'
              (if isWorkingDay toJ t' holidays then added + 1 else added) (guard + 1))
      else t)"
  by pat_completeness auto
termination
  by (relation "measure (\<lambda>(_, _, _, _, _, guard). 365 - guard)") auto

declare workingLoop.simps [simp del]

definition addWorkingDays ::
  "(int \<Rightarrow> nat \<times> nat \<times> nat) \<Rightarrow> int \<Rightarrow> int \<Rightarrow> nat list list \<Rightarrow> int" where
  "addWorkingDays toJ start days holidays = workingLoop toJ holidays days start 0 0"

subsection \<open>One wrong digit is caught\<close>

definition luhnValue :: "bool \<Rightarrow> int \<Rightarrow> int" where
  "luhnValue double d = (if double then (if 9 < d * 2 then d * 2 - 9 else d * 2) else d)"

lemma luhnLoop_add: "luhnLoop ds b s = s + luhnLoop ds b 0"
proof (induction ds arbitrary: b s)
  case Nil
  then show ?case by simp
next
  case (Cons d ds)
  show ?case
    using Cons [of "\<not> b" "s + luhnValue b d"] Cons [of "\<not> b" "luhnValue b d"]
    by (simp add: Let_def luhnValue_def)
qed

lemma luhnLoop_Cons: "luhnLoop (d # ds) b 0 = luhnValue b d + luhnLoop ds (\<not> b) 0"
  using luhnLoop_add [of ds "\<not> b" "luhnValue b d"] by (simp add: Let_def luhnValue_def)

lemma luhnLoop_update:
  assumes "i < length ds"
  shows "\<exists>b'. luhnLoop (ds[i := e]) b 0 = luhnLoop ds b 0 + (luhnValue b' e - luhnValue b' (ds ! i))"
  using assms
proof (induction ds arbitrary: i b)
  case Nil
  then show ?case by simp
next
  case (Cons d ds)
  show ?case
  proof (cases i)
    case 0
    then show ?thesis by (intro exI [of _ b]) (simp add: luhnLoop_Cons del: luhnLoop.simps)
  next
    case (Suc j)
    then obtain b' where "luhnLoop (ds[j := e]) (\<not> b) 0 =
        luhnLoop ds (\<not> b) 0 + (luhnValue b' e - luhnValue b' (ds ! j))"
      using Cons.IH [of j "\<not> b"] Cons.prems by auto
    then show ?thesis using Suc
      by (intro exI [of _ b']) (simp add: luhnLoop_Cons del: luhnLoop.simps)
  qed
qed

lemma luhnValue_inj:
  assumes "0 \<le> d" "d \<le> 9" "0 \<le> e" "e \<le> 9" "d \<noteq> e"
  shows "luhnValue b d mod 10 \<noteq> luhnValue b e mod 10"
proof -
  have r: "0 \<le> luhnValue b x \<and> luhnValue b x \<le> 9" if "0 \<le> x" "x \<le> 9" for x
    using that by (auto simp: luhnValue_def)
  then have "luhnValue b x mod 10 = luhnValue b x" if "0 \<le> x" "x \<le> 9" for x
    by (intro mod_pos_pos_trivial) (use r [OF that] in auto)
  moreover have "luhnValue b d \<noteq> luhnValue b e"
    using assms by (auto simp: luhnValue_def) presburger+
  ultimately show ?thesis using assms by simp
qed

lemma digit_value: "is_digit c \<Longrightarrow> 0 \<le> int (of_char c) - 48 \<and> int (of_char c) - 48 \<le> 9"
  by (simp add: is_digit_def)

lemma luhnCheckDigit_range: "0 \<le> luhnCheckDigit p \<and> luhnCheckDigit p \<le> 9"
  by (simp add: luhnCheckDigit_def)

lemma mod10_shift: "(x + (a - b)) mod 10 = x mod 10 \<Longrightarrow> a mod 10 = b mod (10 :: int)"
  by (simp add: mod_eq_dvd_iff)

lemma mod10_complement:
  assumes "(10 - x mod 10) mod 10 = (10 - y mod 10) mod (10 :: int)"
  shows "x mod 10 = y mod 10"
proof -
  have "10 dvd y mod 10 - x mod 10" using assms by (simp add: mod_eq_dvd_iff)
  then have "y mod 10 mod 10 = x mod 10 mod 10" unfolding mod_eq_dvd_iff .
  then show ?thesis by simp
qed

lemma luhnCheckDigit_differs:
  assumes p: "list_all is_digit p" "i < length p" and c: "is_digit c" "c \<noteq> p ! i"
  shows "luhnCheckDigit (p[i := c]) \<noteq> luhnCheckDigit p"
proof -
  let ?v = "\<lambda>c. int (of_char c) - 48" and ?ds = "rev (map (\<lambda>c. int (of_char c) - 48) p)"
  let ?j = "length p - Suc i"
  have j: "?j < length ?ds" using p(2) by simp
  have upd: "rev (map ?v (p[i := c])) = ?ds[?j := ?v c]"
    using p(2) by (simp add: map_update rev_update)
  have nth: "?ds ! ?j = ?v (p ! i)" using p(2) by (simp add: rev_nth)
  from luhnLoop_update [OF j, of "?v c" True] obtain b where
    b: "luhnLoop (?ds[?j := ?v c]) True 0 =
        luhnLoop ?ds True 0 + (luhnValue b (?v c) - luhnValue b (?v (p ! i)))"
    unfolding nth by blast
  have "is_digit (p ! i)" using p by (simp add: list_all_length)
  have ne: "?v c \<noteq> ?v (p ! i)" using c(2) by simp
  have "luhnValue b (?v c) mod 10 \<noteq> luhnValue b (?v (p ! i)) mod 10"
    using digit_value [OF c(1)] digit_value [OF \<open>is_digit (p ! i)\<close>] ne by (intro luhnValue_inj) auto
  then have "luhnLoop (?ds[?j := ?v c]) True 0 mod 10 \<noteq> luhnLoop ?ds True 0 mod 10"
    unfolding b using mod10_shift by blast
  then show ?thesis unfolding luhnCheckDigit_def upd using mod10_complement by blast
qed

lemma withLuhn_valid:
  assumes "list_all is_digit p" "p \<noteq> []"
  shows "isValidLuhn (withLuhn p)"
proof -
  obtain d where d: "luhnCheckDigit p = int d" "d \<le> 9"
    using luhnCheckDigit_range [of p] by (metis nat_le_iff nonneg_int_cases of_nat_le_iff of_nat_numeral)
  have "is_digit (char_of (48 + d))" using d(2) by (simp add: is_digit_def)
  moreover have "2 \<le> length (withLuhn p)" using assms(2) by (cases p) (simp_all add: withLuhn_def)
  ultimately show ?thesis
    using assms d by (simp add: isValidLuhn_def withLuhn_def digit_val_def)
qed

subsection \<open>Mod 97\<close>

definition readDigits :: "nat list \<Rightarrow> nat" where
  "readDigits ds = foldl (\<lambda>r d. r * 10 + d) 0 ds"

lemma foldl_mod97: "foldl (\<lambda>r d. (r * 10 + d) mod 97) (a mod 97) ds = foldl (\<lambda>r d. r * 10 + d) a ds mod (97::nat)"
proof (induction ds arbitrary: a)
  case Nil
  then show ?case by simp
next
  case (Cons d ds)
  have "(a mod 97 * 10 + d) mod 97 = (a * 10 + d) mod 97" by (metis mod_add_left_eq mod_mult_left_eq)
  then show ?case using Cons [of "a * 10 + d"] by simp
qed

lemma foldl_shift: "foldl (\<lambda>r d. r * 10 + d) (a::nat) ds = a * 10 ^ length ds + foldl (\<lambda>r d. r * 10 + d) 0 ds"
proof (induction ds arbitrary: a)
  case Nil
  then show ?case by simp
next
  case (Cons d ds)
  show ?case using Cons [of "a * 10 + d"] Cons [of d] by (simp add: algebra_simps)
qed

lemma readDigits_update:
  assumes "i < length ds"
  shows "int (readDigits (ds[i := e])) = int (readDigits ds) + (int e - int (ds ! i)) * 10 ^ (length ds - Suc i)"
proof -
  have split: "readDigits (xs @ d # ys) = readDigits xs * 10 ^ Suc (length ys) + d * 10 ^ length ys + readDigits ys" for xs d ys
    using foldl_shift [of "foldl (\<lambda>r d. r * 10 + d) 0 xs * 10 + d" ys]
    by (simp add: readDigits_def algebra_simps)
  have "ds = take i ds @ ds ! i # drop (Suc i) ds" "ds[i := e] = take i ds @ e # drop (Suc i) ds"
    using assms by (simp_all add: id_take_nth_drop upd_conv_take_nth_drop)
  then have "readDigits ds = readDigits (take i ds) * 10 ^ Suc (length ds - Suc i)
      + ds ! i * 10 ^ (length ds - Suc i) + readDigits (drop (Suc i) ds)"
    "readDigits (ds[i := e]) = readDigits (take i ds) * 10 ^ Suc (length ds - Suc i)
      + e * 10 ^ (length ds - Suc i) + readDigits (drop (Suc i) ds)"
    using split by (metis length_drop)+
  then show ?thesis by (simp add: algebra_simps)
qed

lemma mod97_update:
  assumes "i < length ds" "e \<noteq> ds ! i" "e \<le> 9" "ds ! i \<le> 9"
  shows "readDigits (ds[i := e]) mod 97 \<noteq> readDigits ds mod 97"
proof
  assume "readDigits (ds[i := e]) mod 97 = readDigits ds mod 97"
  then have "int (readDigits (ds[i := e])) mod 97 = int (readDigits ds) mod 97"
    by (metis of_nat_mod of_nat_numeral)
  then have "(97::int) dvd int (readDigits (ds[i := e])) - int (readDigits ds)"
    by (simp add: mod_eq_dvd_iff)
  then have "(97::int) dvd (int e - int (ds ! i)) * 10 ^ (length ds - Suc i)"
    unfolding readDigits_update [OF assms(1)] by simp
  moreover have "coprime (97::int) 10" by (simp add: coprime_iff_gcd_eq_1 gcd_non_0_int)
  then have "coprime (97::int) (10 ^ (length ds - Suc i))" by simp
  ultimately have "(97::int) dvd int e - int (ds ! i)" by (simp add: coprime_dvd_mult_left_iff)
  moreover have "int e - int (ds ! i) \<noteq> 0" using assms(2) by simp
  ultimately have "\<bar>97\<bar> \<le> \<bar>int e - int (ds ! i)\<bar>" by (intro dvd_imp_le_int)
  then show False using assms(3,4) by simp
qed

subsection \<open>Holidays\<close>

lemma latin_has_digit: "\<exists>c \<in> set (latin n). isLatinDigit c"
proof (induction n rule: latin.induct)
  case (1 n)
  then show ?case by (cases "n < 10") (subst latin.simps, simp add: isLatinDigit_def)+
qed

lemma dateKey_digit: "\<exists>c \<in> set (dateKey j). isLatinDigit c"
  using latin_has_digit by (cases j) (auto simp: dateKey_def)

lemma persian_no_latin: "c \<in> set (toPersianDigits s) \<Longrightarrow> \<not> isLatinDigit c"
  by (auto simp: toPersianDigits_def isLatinDigit_def)

lemma parseHolidays_no_latin: "h \<in> set (parseHolidays raw) \<Longrightarrow> c \<in> set h \<Longrightarrow> \<not> isLatinDigit c"
  by (auto simp: parseHolidays_def persian_no_latin split: if_splits)

lemma dateKey_not_holiday: "dateKey j \<notin> set (parseHolidays raw)"
  using dateKey_digit [of j] parseHolidays_no_latin by blast

subsection \<open>The working day loop\<close>

definition workingDays :: "(int \<Rightarrow> nat \<times> nat \<times> nat) \<Rightarrow> nat list list \<Rightarrow> int \<Rightarrow> nat \<Rightarrow> nat" where
  "workingDays toJ holidays t n =
     length (filter (\<lambda>k. isWorkingDay toJ (t + int k * day_ms) holidays) [1..<Suc n])"

lemma workingDays_Suc:
  "workingDays toJ hs t (Suc n) =
     (if isWorkingDay toJ (t + day_ms) hs then 1 else 0) + workingDays toJ hs (t + day_ms) n"
proof -
  have u: "[1..<Suc (Suc n)] = 1 # map Suc [1..<Suc n]"
    by (simp add: map_Suc_upt upt_conv_Cons del: upt_Suc)
  have "filter (\<lambda>k. isWorkingDay toJ (t + int k * day_ms) hs) (map Suc [1..<Suc n]) =
      map Suc (filter (\<lambda>k. isWorkingDay toJ (t + day_ms + int k * day_ms) hs) [1..<Suc n])"
    unfolding filter_map comp_def by (simp add: algebra_simps del: upt_Suc)
  then show ?thesis unfolding workingDays_def u by (simp del: upt_Suc)
qed

lemma workingLoop_days:
  "int added \<le> max 0 days \<Longrightarrow> guard \<le> 365 \<Longrightarrow> \<exists>n. workingLoop toJ hs days t added guard = t + int n * day_ms \<and>
     n \<le> 365 - guard \<and> int (added + workingDays toJ hs t n) \<le> max 0 days \<and>
     (days \<le> int (added + workingDays toJ hs t n) \<or> n = 365 - guard) \<and>
     (\<forall>m < n. int (added + workingDays toJ hs t m) < days)"
proof (induction toJ hs days t added guard rule: workingLoop.induct)
  case (1 toJ hs days t added guard)
  let ?t = "t + day_ms"
  let ?a = "if isWorkingDay toJ ?t hs then added + 1 else added"
  show ?case
  proof (cases "int added < days \<and> guard < 365")
    case True
    then have "int ?a \<le> max 0 days" "guard + 1 \<le> 365" by auto
    from 1(1) [OF True refl this] obtain n where n:
      "workingLoop toJ hs days ?t ?a (guard + 1) = ?t + int n * day_ms" "n \<le> 365 - (guard + 1)"
      "int (?a + workingDays toJ hs ?t n) \<le> max 0 days"
      "days \<le> int (?a + workingDays toJ hs ?t n) \<or> n = 365 - (guard + 1)"
      "\<forall>m < n. int (?a + workingDays toJ hs ?t m) < days" by blast
    have eq: "workingLoop toJ hs days t added guard = t + int (Suc n) * day_ms"
      using True n(1) by (subst workingLoop.simps) (simp add: Let_def algebra_simps)
    have wd: "added + workingDays toJ hs t (Suc m) = ?a + workingDays toJ hs ?t m" for m
      by (simp add: workingDays_Suc)
    have "int (added + workingDays toJ hs t m) < days" if "m < Suc n" for m
      using that True n(5) wd by (cases m) (auto simp: workingDays_def)
    then show ?thesis using n True unfolding eq by (intro exI [of _ "Suc n"]) (auto simp: wd)
  next
    case False
    then show ?thesis using 1(2,3)
      by (intro exI [of _ 0]) (auto simp: workingLoop.simps workingDays_def)
  qed
qed

lemma digit_val_inj:
  assumes "is_digit c" "is_digit k" "digit_val c = digit_val k" shows "c = k"
proof -
  have "(of_char c :: nat) = of_char k"
    using assms by (simp add: is_digit_def digit_val_def eq_diff_iff)
  then show ?thesis by simp
qed

subsection \<open>Properties\<close>

text \<open>A deposit tracking id with its check digit passes the check, and a wrong digit in any place
of it is always detected.\<close>

theorem luhn_detects_one_error:
  assumes "list_all is_digit p" and "p \<noteq> []"
  shows "isValidLuhn (withLuhn p) \<and>
    (\<forall>i c. i < length (withLuhn p) \<longrightarrow> is_digit c \<longrightarrow> c \<noteq> withLuhn p ! i \<longrightarrow>
       \<not> isValidLuhn ((withLuhn p)[i := c]))"
proof (intro conjI allI impI)
  show valid: "isValidLuhn (withLuhn p)" using assms by (rule withLuhn_valid)
  fix i c assume i: "i < length (withLuhn p)" and c: "is_digit c" "c \<noteq> withLuhn p ! i"
  obtain k where k: "withLuhn p = p @ [k]" by (simp add: withLuhn_def)
  have chk: "luhnCheckDigit p = int (digit_val k)" "is_digit k"
    using valid by (simp_all add: isValidLuhn_def k)
  show "\<not> isValidLuhn ((withLuhn p)[i := c])"
  proof (cases "i < length p")
    case True
    then have "luhnCheckDigit (p[i := c]) \<noteq> luhnCheckDigit p"
      using luhnCheckDigit_differs [OF assms(1) True c(1)] c(2) by (simp add: k nth_append)
    then show ?thesis using True chk(1) by (simp add: isValidLuhn_def k list_update_append)
  next
    case False
    then have "i = length p" using i by (simp add: k)
    moreover have "digit_val c \<noteq> digit_val k"
      using c chk(2) \<open>i = length p\<close> digit_val_inj [of c k] by (auto simp: k)
    ultimately show ?thesis using chk(1) by (simp add: isValidLuhn_def k list_update_append)
  qed
qed

lemma luhn_detects_one_error_witness:
  "isValidLuhn (withLuhn ''102300000000001'') \<and>
   \<not> isValidLuhn ((withLuhn ''102300000000001'')[3 := CHR ''7''])"
proof -
  let ?p = "''102300000000001''"
  have "list_all is_digit ?p" "?p \<noteq> []" by (simp_all add: is_digit_def)
  note l = luhn_detects_one_error [OF this]
  have "3 < length (withLuhn ?p)" "is_digit (CHR ''7'')" "CHR ''7'' \<noteq> withLuhn ?p ! 3" by code_simp+
  then show ?thesis using l by blast
qed

text \<open>Every single wrong digit in an IBAN is detected: changing one digit of the account part of
a valid IBAN gives an invalid one.\<close>

theorem iban_detects_one_error:
  assumes "isValidIranIban iban" and "4 \<le> i" and "i < 26" and "isLatinDigit c" and "c \<noteq> iban ! i"
  shows "\<not> isValidIranIban (iban[i := c])"
proof -
  have v: "length iban = 26" "list_all isLatinDigit (drop 2 iban)"
    "foldl (\<lambda>r d. (r * 10 + d) mod 97) 0 (ibanNumeric iban) = 1"
    using assms(1) by (simp_all add: isValidIranIban_def)
  have m: "foldl (\<lambda>r d. (r * 10 + d) mod 97) 0 xs = readDigits xs mod 97" for xs
    using foldl_mod97 [of 0 xs] by (simp add: readDigits_def)
  have two: "2 + (i - 2) = i" using assms(2) by simp
  have "drop 2 iban ! (i - 2) = iban ! (2 + (i - 2))" by (rule nth_drop) (simp add: v(1))
  then have "drop 2 iban ! (i - 2) = iban ! i" by (simp only: two)
  moreover have "i - 2 < length (drop 2 iban)" using assms(2,3) v(1) by simp
  ultimately have old: "isLatinDigit (iban ! i)" using v(2) by (metis list_all_length)
  have within: "i - 4 < 22" "2 \<le> i - 2" using assms(2,3) by linarith+
  have upd: "ibanNumeric (iban[i := c]) = (ibanNumeric iban)[i - 4 := c - 48]"
    using assms(2,3) v(1) within
    by (simp add: ibanNumeric_def drop_update_swap map_update list_update_append take_update_swap list_update_beyond)
  have nth: "ibanNumeric iban ! (i - 4) = iban ! i - 48" "i - 4 < length (ibanNumeric iban)"
    using assms(2,3) v(1) within by (simp_all add: ibanNumeric_def nth_append)
  have "readDigits ((ibanNumeric iban)[i - 4 := c - 48]) mod 97 \<noteq> readDigits (ibanNumeric iban) mod 97"
    using nth old assms(4,5) by (intro mod97_update) (auto simp: isLatinDigit_def)
  then show ?thesis using v(3) unfolding isValidIranIban_def upd m by auto
qed

lemma iban_detects_one_error_witness:
  "isValidIranIban (map of_char ''IR062960000000100324200001'') \<and>
   \<not> isValidIranIban ((map of_char ''IR062960000000100324200001'')[10 := 55])"
proof -
  have "isValidIranIban (map of_char ''IR062960000000100324200001'')" by code_simp
  moreover have "isLatinDigit 55" by (simp add: isLatinDigit_def)
  moreover have "55 \<noteq> map (of_char :: char \<Rightarrow> nat) ''IR062960000000100324200001'' ! 10" by code_simp
  moreover have "(4::nat) \<le> 10" "(10::nat) < 26" by simp_all
  ultimately show ?thesis using iban_detects_one_error by blast
qed

text \<open>
  The days that are no Friday, by the calendar: the first of January 1970 was a Thursday.
\<close>

definition isFriday :: "int \<Rightarrow> bool" where
  "isFriday t \<longleftrightarrow> t div day_ms mod 7 = 1"

definition nonFridays :: "int \<Rightarrow> nat \<Rightarrow> nat" where
  "nonFridays t n = length (filter (\<lambda>k. \<not> isFriday (t + int k * day_ms)) [1..<Suc n])"

lemma getDay_Friday: "getDay t = 5 \<longleftrightarrow> isFriday t"
proof -
  have "(d + 4) mod 7 = 5 \<longleftrightarrow> d mod 7 = 1" for d :: int by presburger
  then show ?thesis by (simp only: getDay_def isFriday_def)
qed

lemma nonFridays_working: "workingDays toJ (parseHolidays raw) t n = nonFridays t n"
  unfolding workingDays_def nonFridays_def
  using dateKey_not_holiday by (simp add: isWorkingDay_def getDay_Friday)

lemma nonFridays_week: "nonFridays t (n + 7) = nonFridays t n + 6"
proof -
  define y where "y = (t div day_ms + int n) mod 7"
  have f: "isFriday (t + int (n + k) * day_ms) \<longleftrightarrow> (y + int k) mod 7 = 1" for k
  proof -
    have "(t + int (n + k) * day_ms) div day_ms = t div day_ms + int n + int k" by simp
    then show ?thesis by (simp only: isFriday_def y_def mod_add_left_eq)
  qed
  have u: "[1..<Suc (n + 7)] = [1..<Suc n] @ map (\<lambda>k. n + k) [1, 2, 3, 4, 5, 6, 7]"
    by (simp add: eval_nat_numeral)
  have "0 \<le> y" "y < 7" by (simp_all add: y_def)
  then have "y \<in> {0..6}" by simp
  also have "{0..6} = {0, 1, 2, 3, 4, 5, 6 :: int}" by (simp add: set_upto [symmetric] upto_rec1 del: set_upto)
  finally have y: "y \<in> set [0, 1, 2, 3, 4, 5, 6]" by (simp only: list.set)
  have "list_all (\<lambda>y. length (filter (\<lambda>k. (y + int k) mod 7 \<noteq> 1) [1, 2, 3, 4, 5, 6, 7]) = 6) [0, 1, 2, 3, 4, 5, 6]"
    by code_simp
  then have "length (filter (\<lambda>k. (y + int k) mod 7 \<noteq> 1) [1, 2, 3, 4, 5, 6, 7]) = 6"
    using y unfolding list_all_iff by (rule bspec)
  then have "length (filter (\<lambda>k. \<not> isFriday (t + int k * day_ms)) (map (\<lambda>k. n + k) [1, 2, 3, 4, 5, 6, 7])) = 6"
    unfolding filter_map comp_def f length_map .
  then show ?thesis unfolding nonFridays_def u filter_append length_append by (simp only:)
qed

lemma nonFridays_weeks: "nonFridays t (7 * w) = 6 * w"
proof (induction w)
  case 0
  then show ?case by (simp add: nonFridays_def)
next
  case (Suc w)
  have "nonFridays t (7 * Suc w) = nonFridays t (7 * w + 7)" by (simp add: add.commute)
  then show ?case using Suc by (simp add: nonFridays_week)
qed

lemma nonFridays_year: "312 \<le> nonFridays t 365"
proof -
  have "nonFridays t 364 = 312" using nonFridays_weeks [of t 52] by simp
  moreover have "nonFridays t 364 \<le> nonFridays t (Suc 364)" by (simp only: nonFridays_def upt_Suc) simp
  ultimately show ?thesis by simp
qed

text \<open>C40: Adding working days skips the Fridays and nothing else. For up to 312 days the result is the start moved by
a whole number of days, at most 365, at the same time of day; exactly the requested number of the days passed are not
Fridays, and no earlier day would do. Official holidays do not count, whatever dates the setting
calendar.holidays lists, although the comment of the code says that they are skipped: the parser writes the dates
in Persian digits and the check looks them up in Latin digits.\<close>

theorem working_days_skip_fridays_only:
  assumes "0 \<le> days" and "days \<le> 312"
  shows "\<exists>n \<le> 365. addWorkingDays toJ t days (parseHolidays raw) = t + int n * day_ms \<and>
    int (nonFridays t n) = days \<and> (\<forall>m < n. int (nonFridays t m) < days)"
proof -
  have "int 0 \<le> max 0 days" "(0::nat) \<le> 365" by simp_all
  from workingLoop_days [OF this, of toJ "parseHolidays raw" t] obtain n where n: "n \<le> 365"
    "addWorkingDays toJ t days (parseHolidays raw) = t + int n * day_ms"
    "int (nonFridays t n) \<le> days" "days \<le> int (nonFridays t n) \<or> n = 365" "\<forall>m < n. int (nonFridays t m) < days"
    using assms(1) unfolding addWorkingDays_def nonFridays_working by auto
  have "days \<le> int (nonFridays t n)" using n(4) nonFridays_year [of t] assms(2) by auto
  with n show ?thesis by (intro exI [where x = n]) simp
qed

text \<open>Two working days from a Thursday, with the Saturday after it configured as a holiday.\<close>

lemma working_days_skip_fridays_only_witness:
  "addWorkingDays (\<lambda>t. (1348, 10, 11 + nat (t div day_ms))) 0 2 (parseHolidays (map of_char ''1348/10/13'')) = 3 * day_ms"
proof -
  have f: "nonFridays 0 0 = 0" "nonFridays 0 1 = 0" "nonFridays 0 2 = 1" "nonFridays 0 3 = 2" by code_simp+
  obtain n where n: "addWorkingDays (\<lambda>t. (1348, 10, 11 + nat (t div day_ms))) 0 2 (parseHolidays (map of_char ''1348/10/13'')) =
      0 + int n * day_ms" "int (nonFridays 0 n) = 2" "\<forall>m < n. int (nonFridays 0 m) < 2"
    using working_days_skip_fridays_only [of 2 "\<lambda>t. (1348, 10, 11 + nat (t div day_ms))" 0 "map of_char ''1348/10/13''"] by auto
  have "\<not> 3 < n" using n(3) f(4) by auto
  then have "n = 0 \<or> n = 1 \<or> n = 2 \<or> n = 3" by linarith
  then have "n = 3" using n(2) f by (elim disjE) simp_all
  then show ?thesis using n(1) by simp
qed

text \<open>The configured holidays have no effect: whatever the setting calendar.holidays
holds, a day is a working day exactly as if no holiday were configured, and adding working days
gives the same day. (The parser turns the digits of the setting into Persian digits, the check
compares them with a date in Latin digits.)\<close>

theorem holidays_never_apply:
  "isWorkingDay toJ t (parseHolidays raw) = isWorkingDay toJ t [] \<and>
   addWorkingDays toJ t days (parseHolidays raw) = addWorkingDays toJ t days []"
proof -
  have w: "isWorkingDay toJ u (parseHolidays raw) = isWorkingDay toJ u []" for u
    using dateKey_not_holiday by (simp add: isWorkingDay_def)
  have "workingLoop toJ (parseHolidays raw) days u a g = workingLoop toJ [] days u a g" for u a g
  proof (induction toJ "[] :: nat list list" days u a g rule: workingLoop.induct)
    case (1 toJ days u a g)
    have w: "isWorkingDay toJ u (parseHolidays raw) = isWorkingDay toJ u []" for u
      using dateKey_not_holiday by (simp add: isWorkingDay_def)
    show ?case
      by (subst (1 2) workingLoop.simps) (use 1 in \<open>simp add: w Let_def\<close>)
  qed
  then show ?thesis using w by (simp add: addWorkingDays_def)
qed

end
