(* ===== verification/Deposit.thy ===== *)
theory Deposit
  imports WalletAdmin Invoice Calendar
begin

section \<open>Deposits reviewed by staff\<close>

text \<open>
  \<open>api/src/deposit/\<close>: the state machine of a deposit request (\<open>deposit.state.ts\<close>), the
  calls of the user (\<open>deposit.service.ts\<close>: requests for large transfers with a proforma invoice,
  card-to-card and account-to-account deposits, receipts, cancellation), those of the staff
  (\<open>deposit-admin.service.ts\<close>: review, approval, which credits the wallet, rejection,
  request of a new receipt), the tracking id (\<open>deposit-tracking.service.ts\<close>) and the expiry job
  (\<open>deposit-expiry.cron.ts\<close>). The record \<open>desk\<close> adds the tables of the deposits to those of
  the wallets and invoices. The storage of receipt images is reduced to the checksum it returns;
  the random digits of a tracking id and the Jalali conversion are arguments. Lists, the detail
  views and the text messages to the user are not modelled.
\<close>

subsection \<open>The state machine\<close>

datatype deposit_status =
  PENDING_PAYMENT | RECEIPT_UPLOADED | UNDER_REVIEW | APPROVED | REJECTED | CANCELLED | EXPIRED

fun TRANSITIONS :: "deposit_status \<Rightarrow> deposit_status list" where
  "TRANSITIONS PENDING_PAYMENT = [RECEIPT_UPLOADED, CANCELLED, EXPIRED]"
| "TRANSITIONS RECEIPT_UPLOADED = [UNDER_REVIEW, CANCELLED]"
| "TRANSITIONS UNDER_REVIEW = [APPROVED, REJECTED, RECEIPT_UPLOADED]"
| "TRANSITIONS REJECTED = [RECEIPT_UPLOADED]"
| "TRANSITIONS APPROVED = []"
| "TRANSITIONS CANCELLED = []"
| "TRANSITIONS EXPIRED = []"

definition canTransition :: "deposit_status \<Rightarrow> deposit_status \<Rightarrow> bool" where
  "canTransition a b \<longleftrightarrow> b \<in> set (TRANSITIONS a)"

definition assertTransition :: "deposit_status \<Rightarrow> deposit_status \<Rightarrow> unit res" where
  "assertTransition a b =
     (if \<not> canTransition a b then Inl (Conflict ''status change not allowed'') else Inr ())"

definition MAX_REJECTIONS :: nat where
  "MAX_REJECTIONS = 3"

subsection \<open>Tables\<close>

datatype deposit_method =
  MT_ONLINE | MT_CARD_TO_CARD | MT_BANK_TRANSFER | MT_TRACKING_ID | MT_LARGE_TRANSFER | MT_DIRECT

datatype manual_method = CARD_TO_CARD | BANK_TRANSFER

record deposit =
  dpId :: nat
  dpNumber :: string
  dpUser :: nat
  dpWallet :: nat
  dpRial :: int
  dpMethod :: deposit_method
  dpStatus :: deposit_status
  dpTracking :: string
  dpProforma :: "nat option"
  dpTransaction :: "nat option"
  dpKey :: "string option"
  dpExpires :: int
  dpReviewedBy :: "nat option"
  dpReason :: "string option"
  dpRejections :: nat
  dpNotes :: "string option"
  dpCreated :: int

record deposit_receipt =
  rcDeposit :: nat
  rcChecksum :: string

text \<open>\<open>holidayText\<close> is the setting \<open>calendar.holidays\<close>, in code points.\<close>

record desk = billing +
  deposits :: "deposit list"
  receipts :: "deposit_receipt list"
  holidayText :: "nat list"

definition depositById :: "'a desk_scheme \<Rightarrow> nat \<Rightarrow> deposit option" where
  "depositById s i = find (\<lambda>d. dpId d = i) (deposits s)"

definition setDeposit :: "'a desk_scheme \<Rightarrow> nat \<Rightarrow> (deposit \<Rightarrow> deposit) \<Rightarrow> 'a desk_scheme" where
  "setDeposit s i f = s\<lparr>deposits := update_where (\<lambda>d. dpId d = i) f (deposits s)\<rparr>"

definition receiptCount :: "'a desk_scheme \<Rightarrow> nat \<Rightarrow> nat" where
  "receiptCount s i = count_where (\<lambda>r. rcDeposit r = i) (receipts s)"

definition getBoolean :: "'a ledger_scheme \<Rightarrow> string \<Rightarrow> bool \<Rightarrow> bool" where
  "getBoolean s key fallback =
     (let v = getText s key in if v = [] then fallback else v = ''true'' \<or> v = ''1'')"

definition isSafeInteger :: "int \<Rightarrow> bool" where
  "isSafeInteger x \<longleftrightarrow> \<bar>x\<bar> \<le> 2 ^ 53 - 1"

subsection \<open>The tracking id\<close>

text \<open>
  Four digits of the setting, eleven random digits, and the check digit. \<open>draws\<close> holds the
  random digits of the five attempts.
\<close>

definition trackingPrefix :: "'a ledger_scheme \<Rightarrow> string" where
  "trackingPrefix s =
     take 4 (padStart 4 (CHR ''0'') (filter is_digit
       (case config s ''proforma.tracking_prefix'' of None \<Rightarrow> ''1023'' | Some v \<Rightarrow> v)))"

fun firstFree :: "deposit list \<Rightarrow> string \<Rightarrow> string list \<Rightarrow> string res" where
  "firstFree ds prefix [] = Inl (Internal ''no unique tracking id'')"
| "firstFree ds prefix (body # draws) =
     (let candidate = withLuhn (prefix @ body) in
      if list_ex (\<lambda>d. dpTracking d = candidate) ds then firstFree ds prefix draws
      else Inr candidate)"

definition generate :: "'a desk_scheme \<Rightarrow> string list \<Rightarrow> string res" where
  "generate s draws = firstFree (deposits s) (trackingPrefix s) (take 5 draws)"

subsection \<open>Requests\<close>

definition assertIdentityVerified :: "'a bank_scheme \<Rightarrow> nat \<Rightarrow> unit res" where
  "assertIdentityVerified s u =
     (if Option.bind (find (\<lambda>x. uId x = u) (users s)) uIdentity \<noteq> Some ID_VERIFIED
      then Inl (Forbidden ''identity not verified'') else Inr ())"

definition assertHasVerifiedBankAccount :: "'a bank_scheme \<Rightarrow> nat \<Rightarrow> unit res" where
  "assertHasVerifiedBankAccount s u =
     (if count_where (\<lambda>b. baUser b = u \<and> baVerified b) (bankAccounts s) = 0
      then Inl (Forbidden ''BANK_ACCOUNT_REQUIRED'') else Inr ())"

definition newDeposit ::
  "nat \<Rightarrow> string \<Rightarrow> clock \<Rightarrow> nat \<Rightarrow> wallet \<Rightarrow> int \<Rightarrow> deposit_method \<Rightarrow> string \<Rightarrow> string option \<Rightarrow> int \<Rightarrow> deposit" where
  "newDeposit i num c u w amount m tracking key expires =
     \<lparr>dpId = i, dpNumber = num, dpUser = u, dpWallet = wId w, dpRial = amount, dpMethod = m,
      dpStatus = PENDING_PAYMENT, dpTracking = tracking, dpProforma = None, dpTransaction = None,
      dpKey = key, dpExpires = expires, dpReviewedBy = None, dpReason = None, dpRejections = 0,
      dpNotes = None, dpCreated = now c\<rparr>"

text \<open>
  The part of a transaction that draws the number and the tracking id and inserts the request;
  the unique index on the idempotency key refuses a key that is in the table.
\<close>

definition insertDeposit ::
  "'a desk_scheme \<Rightarrow> clock \<Rightarrow> string list \<Rightarrow> nat \<Rightarrow> wallet \<Rightarrow> int \<Rightarrow> deposit_method \<Rightarrow> string option
     \<Rightarrow> int \<Rightarrow> ('a desk_scheme \<times> nat) res" where
  "insertDeposit s c draws u w amount m key expires =
     (let (s1, num) = sequenceNext s ''DEP'' in
      (case generate s1 draws of Inl e \<Rightarrow> Inl e | Inr tracking \<Rightarrow>
       if key \<noteq> None \<and> list_ex (\<lambda>d. dpKey d = key) (deposits s1)
       then Inl (DbConstraint ''idempotency_key'')
       else
         (let i = nextId s1 in
          Inr (s1\<lparr>nextId := i + 1,
                  deposits := deposits s1 @ [newDeposit i num c u w amount m tracking key expires]\<rparr>, i))))"

text \<open>What a repeated idempotency key answers, before anything else is looked at.\<close>

definition byKey :: "'a desk_scheme \<Rightarrow> nat \<Rightarrow> string option \<Rightarrow> nat option res" where
  "byKey s u key =
     (case key of
        None \<Rightarrow> Inr None
      | Some k \<Rightarrow>
          if k = [] then Inr None
          else
          (case find (\<lambda>d. dpKey d = Some k) (deposits s) of
             None \<Rightarrow> Inr None
           | Some d \<Rightarrow>
               if dpUser d \<noteq> u then Inl (Forbidden ''idempotency_key_foreign'')
               else Inr (Some (dpId d))))"

definition proformaItem :: "int \<Rightarrow> invoice_item" where
  "proformaItem amount =
     \<lparr>itRow = 1, itQuantity = 1, itUnitPrice = amount, itDiscount = 0, itMaking = 0, itFee = 0,
      itTaxRate = 0, itTax = 0, itTotal = amount\<rparr>"

definition depositProforma :: "nat \<Rightarrow> nat \<Rightarrow> int \<Rightarrow> int \<Rightarrow> issue_params" where
  "depositProforma i u amount expires =
     \<lparr>ipKind = PROFORMA, ipSource = SRC_DEPOSIT, ipSourceId = i, ipUser = Some u, ipAgent = None,
      ipItems = [proformaItem amount], ipExpires = Some expires, ipStatus = None\<rparr>"

text \<open>
  A large transfer. The number of working days may be fractional in the settings; the loop then
  stops at the next whole day.
\<close>

definition createDeposit ::
  "(int \<Rightarrow> nat \<times> nat \<times> nat) \<Rightarrow> 'a desk_scheme \<Rightarrow> clock \<Rightarrow> string list \<Rightarrow> nat \<Rightarrow> int \<Rightarrow> string option
     \<Rightarrow> ('a desk_scheme \<times> nat) res" where
  "createDeposit toJ s c draws u amount key =
     (if \<not> isSafeInteger amount \<or> amount \<le> 0 then Inl (BadRequest ''amount'')
      else
      (case byKey s u key of Inl e \<Rightarrow> Inl e | Inr (Some i) \<Rightarrow> Inr (s, i) | Inr None \<Rightarrow>
       if \<not> getBoolean s ''deposit.large_transfer.enabled'' True
       then Inl (Forbidden ''large transfers are disabled'')
       else
       (case assertIdentityVerified s u of Inl e \<Rightarrow> Inl e | Inr _ \<Rightarrow>
       (case assertHasVerifiedBankAccount s u of Inl e \<Rightarrow> Inl e | Inr _ \<Rightarrow>
        if of_int amount < getNumber s ''deposit.large_transfer.min_amount'' 4000000000
        then Inl (BadRequest ''below the minimum'')
        else if getText s ''deposit.large_transfer.destination_owner'' = [] \<or>
                getText s ''deposit.large_transfer.destination_sheba'' = []
        then Inl (BadRequest ''destination account incomplete'')
        else
        (let expires = addWorkingDays toJ (now c)
               \<lceil>getNumber s ''proforma.validity_working_days'' 2\<rceil> (parseHolidays (holidayText s)) in
         (case walletOfUser s u of
            None \<Rightarrow> Inl (NotFound ''wallet'')
          | Some w \<Rightarrow>
              (case insertDeposit s c draws u w amount MT_LARGE_TRANSFER key expires of
                 Inl e \<Rightarrow> Inl e
               | Inr (s1, i) \<Rightarrow>
                   (case issue s1 (depositProforma i u amount expires) of
                      Inl e \<Rightarrow> Inl e
                    | Inr (s2, v) \<Rightarrow>
                        Inr (setDeposit s2 i (\<lambda>d. d\<lparr>dpProforma := Some (ivId v)\<rparr>), i))))))))
     )"

subsection \<open>Card to card and account to account\<close>

fun MANUAL_CONFIG_KEY :: "manual_method \<Rightarrow> string" where
  "MANUAL_CONFIG_KEY CARD_TO_CARD = ''card_to_card''"
| "MANUAL_CONFIG_KEY BANK_TRANSFER = ''bank_transfer''"

fun methodOf :: "manual_method \<Rightarrow> deposit_method" where
  "methodOf CARD_TO_CARD = MT_CARD_TO_CARD"
| "methodOf BANK_TRANSFER = MT_BANK_TRANSFER"

definition manualKey :: "manual_method \<Rightarrow> string \<Rightarrow> string" where
  "manualKey m field = ''deposit.'' @ MANUAL_CONFIG_KEY m @ ''.'' @ field"

definition manualDestination :: "'a ledger_scheme \<Rightarrow> manual_method \<Rightarrow> unit res" where
  "manualDestination s m =
     (if m = CARD_TO_CARD
      then (if getText s ''deposit.card_to_card.destination_card'' = []
            then Inl (BadRequest ''destination card missing'') else Inr ())
      else (if getText s ''deposit.bank_transfer.destination_sheba'' = [] \<and>
               getText s ''deposit.bank_transfer.destination_account'' = []
            then Inl (BadRequest ''destination account incomplete'') else Inr ()))"

text \<open>\<open>setHours(0, 0, 0, 0)\<close> on the server, whose time zone is UTC.\<close>

definition startOfUtcDay :: "int \<Rightarrow> int" where
  "startOfUtcDay t = t - t mod day_ms"

definition countedStatus :: "deposit_status list" where
  "countedStatus = [PENDING_PAYMENT, RECEIPT_UPLOADED, UNDER_REVIEW, APPROVED]"

definition usedDeposits :: "'a desk_scheme \<Rightarrow> nat \<Rightarrow> deposit_method \<Rightarrow> int \<Rightarrow> int" where
  "usedDeposits s u m since =
     sum_where (\<lambda>d. dpUser d = u \<and> dpMethod d = m \<and> since \<le> dpCreated d \<and> dpStatus d \<in> set countedStatus)
       dpRial (deposits s)"

definition assertManualAmount ::
  "'a desk_scheme \<Rightarrow> clock \<Rightarrow> nat \<Rightarrow> manual_method \<Rightarrow> int \<Rightarrow> unit res" where
  "assertManualAmount s c u m amount =
     (let mn = getNumber s (manualKey m ''min_amount'') 100000;
          mx = getNumber s (manualKey m ''max_amount'') (if m = CARD_TO_CARD then 150000000 else 0);
          daily = getNumber s (manualKey m ''daily_limit'') 0 in
      if of_int amount < mn then Inl (BadRequest ''below the minimum'')
      else if 0 < mx \<and> mx < of_int amount then Inl (BadRequest ''above the maximum'')
      else if daily \<le> 0 then Inr ()
      else if daily < of_int (usedDeposits s u (methodOf m) (startOfUtcDay (now c)) + amount)
      then Inl (BadRequest ''daily limit'') else Inr ())"

definition prepareManual ::
  "'a desk_scheme \<Rightarrow> clock \<Rightarrow> nat \<Rightarrow> manual_method \<Rightarrow> nat \<Rightarrow> int option \<Rightarrow> unit res" where
  "prepareManual s c u m cardId amount =
     (if \<not> getBoolean s (manualKey m ''enabled'') True then Inl (Forbidden ''method is disabled'')
      else
      (case assertIdentityVerified s u of Inl e \<Rightarrow> Inl e | Inr _ \<Rightarrow>
      (case find (\<lambda>b. baId b = cardId \<and> baUser b = u) (bankAccounts s) of
         None \<Rightarrow> Inl (NotFound ''bank card'')
       | Some b \<Rightarrow>
           if \<not> baVerified b then Inl (BadRequest ''only from your own verified card'')
           else
           (case manualDestination s m of Inl e \<Rightarrow> Inl e | Inr _ \<Rightarrow>
            (case amount of None \<Rightarrow> Inr () | Some x \<Rightarrow> assertManualAmount s c u m x)))))"

definition createManual ::
  "'a desk_scheme \<Rightarrow> clock \<Rightarrow> string list \<Rightarrow> nat \<Rightarrow> manual_method \<Rightarrow> int \<Rightarrow> nat \<Rightarrow> string option
     \<Rightarrow> ('a desk_scheme \<times> nat) res" where
  "createManual s c draws u m amount cardId key =
     (if \<not> isSafeInteger amount \<or> amount \<le> 0 then Inl (BadRequest ''amount'')
      else
      (case byKey s u key of Inl e \<Rightarrow> Inl e | Inr (Some i) \<Rightarrow> Inr (s, i) | Inr None \<Rightarrow>
      (case prepareManual s c u m cardId (Some amount) of Inl e \<Rightarrow> Inl e | Inr _ \<Rightarrow>
       (let hours = max 1 (getNumber s ''deposit.manual.receipt_window_hours'' 24);
            expires = now c + \<lfloor>hours * 60 * 60 * 1000\<rfloor> in
        (case walletOfUser s u of
           None \<Rightarrow> Inl (NotFound ''wallet'')
         | Some w \<Rightarrow> insertDeposit s c draws u w amount (methodOf m) key expires)))))"

subsection \<open>Receipts and cancellation\<close>

text \<open>
  The upload returns whether the same image (by its checksum) came with another request, which
  is only reported.
\<close>

definition uploadReceipt ::
  "'a desk_scheme \<Rightarrow> nat \<Rightarrow> nat \<Rightarrow> string \<Rightarrow> ('a desk_scheme \<times> bool) res" where
  "uploadReceipt s u depositId checksum =
     (case find (\<lambda>d. dpId d = depositId \<and> dpUser d = u) (deposits s) of
        None \<Rightarrow> Inl (NotFound ''deposit'')
      | Some d \<Rightarrow>
          (case assertTransition (dpStatus d) RECEIPT_UPLOADED of Inl e \<Rightarrow> Inl e | Inr _ \<Rightarrow>
           if MAX_REJECTIONS \<le> dpRejections d then Inl (BadRequest ''too many receipts'')
           else
             (let duplicate = list_ex (\<lambda>r. rcChecksum r = checksum \<and> rcDeposit r \<noteq> depositId) (receipts s) in
              Inr ((setDeposit s depositId (\<lambda>d. d\<lparr>dpStatus := RECEIPT_UPLOADED\<rparr>))
                     \<lparr>receipts := receipts s @ [\<lparr>rcDeposit = depositId, rcChecksum = checksum\<rparr>]\<rparr>,
                   duplicate))))"

definition cancelDeposit :: "'a desk_scheme \<Rightarrow> nat \<Rightarrow> nat \<Rightarrow> ('a desk_scheme \<times> bool) res" where
  "cancelDeposit s u depositId =
     (case find (\<lambda>d. dpId d = depositId \<and> dpUser d = u) (deposits s) of
        None \<Rightarrow> Inl (NotFound ''deposit'')
      | Some d \<Rightarrow>
          if dpStatus d = CANCELLED then Inr (s, True)
          else
          (case assertTransition (dpStatus d) CANCELLED of Inl e \<Rightarrow> Inl e | Inr _ \<Rightarrow>
             Inr (setInvoice (setDeposit s depositId (\<lambda>d. d\<lparr>dpStatus := CANCELLED\<rparr>)) (dpProforma d)
                    (\<lambda>v. v\<lparr>ivStatus := IV_CANCELLED, ivReason := Some ''deposit cancelled by the user''\<rparr>),
                  False)))"

subsection \<open>Review by the staff\<close>

definition resolveCashAccount :: "'a ledger_scheme \<Rightarrow> string option \<Rightarrow> string res" where
  "resolveCashAccount s code = resolveBankAccount s code (Some ''deposit.default_cash_account'')"

definition startReview :: "'a desk_scheme \<Rightarrow> nat \<Rightarrow> nat \<Rightarrow> ('a desk_scheme \<times> bool) res" where
  "startReview s admin depositId =
     (case depositById s depositId of
        None \<Rightarrow> Inl (NotFound ''deposit'')
      | Some d \<Rightarrow>
          if dpStatus d = UNDER_REVIEW then Inr (s, True)
          else
          (case assertTransition (dpStatus d) UNDER_REVIEW of Inl e \<Rightarrow> Inl e | Inr _ \<Rightarrow>
             Inr (setDeposit s depositId
                    (\<lambda>d. d\<lparr>dpStatus := UNDER_REVIEW, dpReviewedBy := Some admin\<rparr>), False)))"

definition depositTransaction :: "nat \<Rightarrow> clock \<Rightarrow> deposit \<Rightarrow> wallet \<Rightarrow> transaction" where
  "depositTransaction i c d w =
     \<lparr>tId = i, tUser = dpUser d, tWallet = wId w, tType = DEPOSIT, tStatus = TX_COMPLETED,
      tRial = Some (dpRial d), tGrams = None, tPrice = None, tFee = None, tTax = None,
      tCreated = now c, tRelated = None, tShopOrder = None\<rparr>"

definition depositJournal :: "deposit \<Rightarrow> nat \<Rightarrow> string \<Rightarrow> nat \<Rightarrow> journal_input" where
  "depositJournal d admin cash tid =
     \<lparr>jiDescription = ''bank deposit'', jiTotalRial = dpRial d, jiTotalGrams = 0,
      jiLines = [journalLine cash DEBIT (dpRial d), journalLine ''2010'' CREDIT (dpRial d)],
      jiSource = None, jiRefType = Some ''DEPOSIT'', jiRefId = Some (dpId d), jiEntryDate = None,
      jiCreatedBy = Some admin, jiReversalOf = None, jiTransaction = Some tid\<rparr>"

text \<open>The writes of an approval, with the wallet and the cash account resolved before.\<close>

definition approvalWrites ::
  "'a desk_scheme \<Rightarrow> clock \<Rightarrow> nat \<Rightarrow> deposit \<Rightarrow> wallet \<Rightarrow> string \<Rightarrow> string option \<Rightarrow> 'a desk_scheme res" where
  "approvalWrites s c admin d w cash n =
     (case walletAdd s (wId w) (dpRial d) 0 of Inl e \<Rightarrow> Inl e | Inr s1 \<Rightarrow>
      (let tid = nextId s1;
           s2 = s1\<lparr>nextId := tid + 1, transactions := transactions s1 @ [depositTransaction tid c d w]\<rparr> in
       (case postJournal s2 (now c) (depositJournal d admin cash tid) of
          Inl e \<Rightarrow> Inl e
        | Inr (s3, j) \<Rightarrow>
            Inr (setInvoice
              (setDeposit s3 (dpId d)
                (\<lambda>x. x\<lparr>dpStatus := APPROVED, dpTransaction := Some tid, dpReviewedBy := Some admin,
                       dpNotes := (case n of None \<Rightarrow> dpNotes d | Some t \<Rightarrow> Some (take 500 (trim t)))\<rparr>))
              (dpProforma d) (\<lambda>v. v\<lparr>ivStatus := IV_CONSUMED\<rparr>)))))"

definition approveDeposit ::
  "'a desk_scheme \<Rightarrow> clock \<Rightarrow> nat \<Rightarrow> nat \<Rightarrow> string option \<Rightarrow> string option \<Rightarrow> ('a desk_scheme \<times> bool) res" where
  "approveDeposit s c admin depositId n cashAccount =
     (case depositById s depositId of
        None \<Rightarrow> Inl (NotFound ''deposit'')
      | Some d \<Rightarrow>
          if dpStatus d = APPROVED then Inr (s, True)
          else
          (case assertTransition (dpStatus d) APPROVED of Inl e \<Rightarrow> Inl e | Inr _ \<Rightarrow>
           if receiptCount s depositId = 0 then Inl (BadRequest ''no receipt'')
           else
           (case walletById s (dpWallet d) of
              None \<Rightarrow> Inl (NotFound ''wallet'')
            | Some w \<Rightarrow>
                (case resolveCashAccount s cashAccount of Inl e \<Rightarrow> Inl e | Inr cash \<Rightarrow>
                (case approvalWrites s c admin d w cash n of Inl e \<Rightarrow> Inl e | Inr s' \<Rightarrow> Inr (s', False))))))"

text \<open>The rejection returns how many attempts are left, or nothing when it was repeated.\<close>

definition rejectDeposit ::
  "'a desk_scheme \<Rightarrow> nat \<Rightarrow> nat \<Rightarrow> string \<Rightarrow> ('a desk_scheme \<times> nat option) res" where
  "rejectDeposit s admin depositId reason =
     (if length (trim reason) < 10 then Inl (BadRequest ''reason too short'')
      else
      (case depositById s depositId of
         None \<Rightarrow> Inl (NotFound ''deposit'')
       | Some d \<Rightarrow>
           if dpStatus d = REJECTED then Inr (s, None)
           else
           (case assertTransition (dpStatus d) REJECTED of Inl e \<Rightarrow> Inl e | Inr _ \<Rightarrow>
            (let nextCount = dpRejections d + 1;
                 s1 = setDeposit s depositId
                   (\<lambda>d. d\<lparr>dpStatus := REJECTED, dpReason := Some (trim reason),
                          dpRejections := nextCount, dpReviewedBy := Some admin\<rparr>) in
             Inr (if MAX_REJECTIONS \<le> nextCount
                  then setInvoice s1 (dpProforma d)
                         (\<lambda>v. v\<lparr>ivStatus := IV_CANCELLED, ivReason := Some ''deposit rejected repeatedly''\<rparr>)
                  else s1, Some (MAX_REJECTIONS - nextCount))))))"

definition requestNewReceipt ::
  "'a desk_scheme \<Rightarrow> nat \<Rightarrow> nat \<Rightarrow> string option \<Rightarrow> 'a desk_scheme res" where
  "requestNewReceipt s admin depositId n =
     (case depositById s depositId of
        None \<Rightarrow> Inl (NotFound ''deposit'')
      | Some d \<Rightarrow>
          (case assertTransition (dpStatus d) RECEIPT_UPLOADED of Inl e \<Rightarrow> Inl e | Inr _ \<Rightarrow>
             Inr (setDeposit s depositId
                    (\<lambda>d. d\<lparr>dpStatus := RECEIPT_UPLOADED, dpNotes := map_option (\<lambda>t. take 500 (trim t)) n,
                           dpReviewedBy := Some admin\<rparr>))))"

subsection \<open>Expiry\<close>

text \<open>
  The hourly job reads up to 200 requests that are past their date (the query gives no order;
  the order of the table stands for it), then expires each in a transaction of its own after
  reading its status again.
\<close>

definition expireOne :: "'a desk_scheme \<Rightarrow> deposit \<Rightarrow> 'a desk_scheme" where
  "expireOne s d =
     (case depositById s (dpId d) of
        None \<Rightarrow> s
      | Some fresh \<Rightarrow>
          if dpStatus fresh \<noteq> PENDING_PAYMENT then s
          else setInvoice (setDeposit s (dpId d) (\<lambda>x. x\<lparr>dpStatus := EXPIRED\<rparr>)) (dpProforma d)
                 (\<lambda>v. v\<lparr>ivStatus := IV_EXPIRED, ivReason := Some ''validity passed''\<rparr>))"

definition expireStaleRequests :: "'a desk_scheme \<Rightarrow> clock \<Rightarrow> 'a desk_scheme" where
  "expireStaleRequests s c =
     foldl expireOne s
       (take 200 (filter (\<lambda>d. dpStatus d = PENDING_PAYMENT \<and> dpExpires d < now c) (deposits s)))"

subsection \<open>What each write changes\<close>

lemma setDeposit_frame [simp]:
  "nextId (setDeposit s i f) = nextId s" "accounts (setDeposit s i f) = accounts s"
  "journals (setDeposit s i f) = journals s" "ledgerEntries (setDeposit s i f) = ledgerEntries s"
  "wallets (setDeposit s i f) = wallets s" "holds (setDeposit s i f) = holds s"
  "withdrawals (setDeposit s i f) = withdrawals s" "invoices (setDeposit s i f) = invoices s"
  "transactions (setDeposit s i f) = transactions s" "receipts (setDeposit s i f) = receipts s"
  "deposits (setDeposit s i f) = update_where (\<lambda>d. dpId d = i) f (deposits s)"
  by (simp_all add: setDeposit_def)

lemma setInvoice_frame [simp]:
  "nextId (setInvoice s i f) = nextId s" "accounts (setInvoice s i f) = accounts s"
  "journals (setInvoice s i f) = journals s" "ledgerEntries (setInvoice s i f) = ledgerEntries s"
  "wallets (setInvoice s i f) = wallets s" "holds (setInvoice s i f) = holds s"
  "withdrawals (setInvoice s i f) = withdrawals s" "transactions (setInvoice s i f) = transactions s"
  by (simp_all add: setInvoice_def split: option.splits)

lemma setInvoice_desk [simp]:
  "deposits (setInvoice s i f) = deposits s" "receipts (setInvoice s i f) = receipts s"
  by (simp_all add: setInvoice_def split: option.splits)

text \<open>\<open>quiet s s'\<close>: no money moved, and identifiers only went up.\<close>

definition quiet :: "'a desk_scheme \<Rightarrow> 'a desk_scheme \<Rightarrow> bool" where
  "quiet s s' \<longleftrightarrow>
     nextId s \<le> nextId s' \<and> withdrawals s' = withdrawals s \<and> accounts s' = accounts s \<and>
     journals s' = journals s \<and> ledgerEntries s' = ledgerEntries s \<and> wallets s' = wallets s \<and>
     holds s' = holds s \<and> transactions s' = transactions s"

lemma quiet_refl [simp]: "quiet s s"
  by (simp add: quiet_def)

lemma quiet_trans: "quiet s s1 \<Longrightarrow> quiet s1 s2 \<Longrightarrow> quiet s s2"
  by (auto simp: quiet_def)

lemma quiet_wf: "quiet s s' \<Longrightarrow> wf_bank s \<Longrightarrow> wf_bank s'"
  unfolding wf_bank_def quiet_def by (rule wf_except_same) auto

lemma quiet_money:
  "quiet s s' \<Longrightarrow> totalRial s' = totalRial s \<and> totalGrams s' = totalGrams s \<and>
     rialOf s' = rialOf s \<and> gramsOf s' = gramsOf s"
  by (auto simp: quiet_def totalRial_def totalGrams_def rialOf_def gramsOf_def fun_eq_iff)

lemma issue_quiet:
  assumes "issue s p = Inr (s', v)"
  shows "quiet s s'" "deposits s' = deposits s" "receipts s' = receipts s"
proof -
  have "quiet s s' \<and> deposits s' = deposits s \<and> receipts s' = receipts s"
    using assms unfolding issue_def quiet_def
    by (auto simp: Let_def sequenceNext_def split: if_splits option.splits prod.splits)
  then show "quiet s s'" "deposits s' = deposits s" "receipts s' = receipts s" by auto
qed

lemma insertDeposit_Inr:
  assumes "insertDeposit s c draws u w amount m key expires = Inr (s', i)"
  obtains num tracking where "generate s draws = Inr tracking" "i = nextId s" "quiet s s'"
    "nextId s' = nextId s + 1" "receipts s' = receipts s" "users s' = users s"
    "deposits s' = deposits s @ [newDeposit i num c u w amount m tracking key expires]"
    "key = None \<or> (\<forall>d \<in> set (deposits s). dpKey d \<noteq> key)"
proof -
  have g: "generate (s\<lparr>sequences := q\<rparr>) draws = generate s draws" for q
    by (simp add: generate_def trackingPrefix_def)
  obtain q num where n: "sequenceNext s ''DEP'' = (s\<lparr>sequences := q\<rparr>, num)"
    by (simp add: sequenceNext_def Let_def)
  from assms obtain tracking where t: "generate s draws = Inr tracking"
    by (auto simp: insertDeposit_def n g split: if_splits)
  show thesis
    by (rule that [of tracking num])
       (use assms t in \<open>auto simp: insertDeposit_def n g quiet_def list_ex_iff Let_def split: if_splits\<close>)
qed

lemma byKey_Inr:
  assumes "byKey s u key = Inr (Some i)"
  obtains d where "d \<in> set (deposits s)" "dpUser d = u" "dpKey d = key" "dpId d = i"
  using assms that unfolding byKey_def
  by (auto split: option.splits if_splits dest!: find_SomeD)

lemma createDeposit_Inr:
  assumes "createDeposit toJ s c draws u amount key = Inr (s', i)"
  obtains (old) "s' = s" "byKey s u key = Inr (Some i)"
  | (new) w expires s1 s2 v where "0 < amount" "isSafeInteger amount"
      "getNumber s ''deposit.large_transfer.min_amount'' 4000000000 \<le> of_int amount"
      "assertIdentityVerified s u = Inr ()" "walletOfUser s u = Some w"
      "byKey s u key = Inr None"
      "expires = addWorkingDays toJ (now c) \<lceil>getNumber s ''proforma.validity_working_days'' 2\<rceil>
         (parseHolidays (holidayText s))"
      "insertDeposit s c draws u w amount MT_LARGE_TRANSFER key expires = Inr (s1, i)"
      "issue s1 (depositProforma i u amount expires) = Inr (s2, v)"
      "s' = setDeposit s2 i (\<lambda>d. d\<lparr>dpProforma := Some (ivId v)\<rparr>)"
proof -
  have a: "0 < amount" "isSafeInteger amount"
    using assms by (auto simp: createDeposit_def split: if_splits)
  from assms a obtain r where r: "byKey s u key = Inr r"
    by (auto simp: createDeposit_def split: if_splits sum.splits)
  show thesis
  proof (cases r)
    case (Some k)
    then show thesis using assms a r old by (simp add: createDeposit_def)
  next
    case None
    then show thesis using assms a r new
      by (auto simp: createDeposit_def Let_def not_less split: if_splits)
  qed
qed

lemma createManual_Inr:
  assumes "createManual s c draws u m amount cardId key = Inr (s', i)"
  obtains (old) "s' = s" "byKey s u key = Inr (Some i)"
  | (new) w expires where "0 < amount" "isSafeInteger amount" "walletOfUser s u = Some w"
      "byKey s u key = Inr None" "assertManualAmount s c u m amount = Inr ()"
      "insertDeposit s c draws u w amount (methodOf m) key expires = Inr (s', i)"
proof -
  have a: "0 < amount" "isSafeInteger amount"
    using assms by (auto simp: createManual_def split: if_splits)
  from assms a obtain r where r: "byKey s u key = Inr r"
    by (auto simp: createManual_def split: if_splits sum.splits)
  show thesis
  proof (cases r)
    case (Some k)
    then show thesis using assms a r old by (simp add: createManual_def)
  next
    case None
    then show thesis using assms a r new
      by (auto simp: createManual_def prepareManual_def Let_def not_less split: if_splits)
  qed
qed

lemma assertTransition_Inr [simp]: "assertTransition a b = Inr u \<longleftrightarrow> canTransition a b"
  by (simp add: assertTransition_def)

text \<open>What identifies a request and never changes.\<close>

definition same_request :: "deposit \<Rightarrow> deposit \<Rightarrow> bool" where
  "same_request d d' \<longleftrightarrow>
     dpId d' = dpId d \<and> dpNumber d' = dpNumber d \<and> dpUser d' = dpUser d \<and> dpWallet d' = dpWallet d \<and>
     dpRial d' = dpRial d \<and> dpMethod d' = dpMethod d \<and> dpTracking d' = dpTracking d \<and>
     dpKey d' = dpKey d \<and> dpCreated d' = dpCreated d"

lemma same_request_refl [simp]: "same_request d d"
  by (simp add: same_request_def)

lemma same_request_trans: "same_request a b \<Longrightarrow> same_request b c \<Longrightarrow> same_request a c"
  by (simp add: same_request_def)

text \<open>One request moves along the state machine, and no money moves.\<close>

definition status_step :: "'a desk_scheme \<Rightarrow> nat \<Rightarrow> deposit \<Rightarrow> (deposit \<Rightarrow> deposit) \<Rightarrow> 'a desk_scheme \<Rightarrow> bool" where
  "status_step s i d f s' \<longleftrightarrow>
     d \<in> set (deposits s) \<and> dpId d = i \<and> quiet s s' \<and> nextId s' = nextId s \<and>
     deposits s' = update_where (\<lambda>x. dpId x = i) f (deposits s) \<and>
     (\<forall>x. same_request x (f x)) \<and> canTransition (dpStatus d) (dpStatus (f d)) \<and>
     dpStatus (f d) \<noteq> APPROVED \<and> dpTransaction (f d) = dpTransaction d \<and>
     dpRejections (f d) = (if dpStatus (f d) = REJECTED then dpRejections d + 1 else dpRejections d)"

lemma depositById_in: "depositById s i = Some d \<Longrightarrow> d \<in> set (deposits s) \<and> dpId d = i"
  unfolding depositById_def by (auto dest: find_SomeD)

lemma uploadReceipt_step:
  assumes "uploadReceipt s u i cs = Inr (s', dup)"
  obtains d f where "status_step s i d f s'" "dpStatus (f d) = RECEIPT_UPLOADED"
    "dpUser d = u" "dpRejections d < MAX_REJECTIONS"
    "receipts s' = receipts s @ [\<lparr>rcDeposit = i, rcChecksum = cs\<rparr>]"
proof -
  let ?f = "\<lambda>d. d\<lparr>dpStatus := RECEIPT_UPLOADED\<rparr>"
  from assms obtain d where "find (\<lambda>d. dpId d = i \<and> dpUser d = u) (deposits s) = Some d"
    by (auto simp: uploadReceipt_def)
  with find_SomeD [OF this] assms have "status_step s i d ?f s'" "dpUser d = u"
    "dpRejections d < MAX_REJECTIONS" "receipts s' = receipts s @ [\<lparr>rcDeposit = i, rcChecksum = cs\<rparr>]"
    by (auto simp: uploadReceipt_def status_step_def same_request_def quiet_def Let_def)
  then show thesis by (intro that [of d ?f]) simp_all
qed

lemma cancelDeposit_step:
  assumes "cancelDeposit s u i = Inr (s', done)"
  obtains "s' = s" "done"
  | d f where "status_step s i d f s'" "dpStatus (f d) = CANCELLED" "dpUser d = u" "\<not> done"
      "receipts s' = receipts s"
proof -
  let ?f = "\<lambda>d. d\<lparr>dpStatus := CANCELLED\<rparr>"
  from assms obtain d where "find (\<lambda>d. dpId d = i \<and> dpUser d = u) (deposits s) = Some d"
    by (auto simp: cancelDeposit_def)
  with find_SomeD [OF this] assms have "s' = s \<and> done \<or> status_step s i d ?f s' \<and> dpUser d = u \<and> \<not> done
      \<and> receipts s' = receipts s"
    by (auto simp: cancelDeposit_def status_step_def same_request_def quiet_def split: if_splits)
  then show thesis using that(1) that(2) [of d ?f] by auto
qed

lemma startReview_step:
  assumes "startReview s a i = Inr (s', done)"
  obtains "s' = s" "done"
  | d f where "status_step s i d f s'" "dpStatus (f d) = UNDER_REVIEW" "receipts s' = receipts s"
proof -
  let ?f = "\<lambda>d. d\<lparr>dpStatus := UNDER_REVIEW, dpReviewedBy := Some a\<rparr>"
  from assms obtain d where "depositById s i = Some d"
    by (auto simp: startReview_def)
  with depositById_in [OF this] assms have "s' = s \<and> done \<or> status_step s i d ?f s' \<and> receipts s' = receipts s"
    by (auto simp: startReview_def status_step_def same_request_def quiet_def split: if_splits)
  then show thesis using that(1) that(2) [of d ?f] by auto
qed

lemma rejectDeposit_step:
  assumes "rejectDeposit s a i reason = Inr (s', left)"
  obtains "s' = s" "left = None"
  | d f where "status_step s i d f s'" "dpStatus (f d) = REJECTED" "left = Some (MAX_REJECTIONS - (dpRejections d + 1))"
      "dpReason (f d) = Some (trim reason)" "10 \<le> length (trim reason)" "receipts s' = receipts s"
      "depositById s i = Some d"
proof -
  from assms obtain d where d: "depositById s i = Some d"
    by (auto simp: rejectDeposit_def split: if_splits)
  let ?f = "\<lambda>x. x\<lparr>dpStatus := REJECTED, dpReason := Some (trim reason),
              dpRejections := dpRejections d + 1, dpReviewedBy := Some a\<rparr>"
  from d depositById_in [OF d] assms have "s' = s \<and> left = None \<or>
      status_step s i d ?f s' \<and> left = Some (MAX_REJECTIONS - (dpRejections d + 1)) \<and>
      10 \<le> length (trim reason) \<and> receipts s' = receipts s"
    by (auto simp: rejectDeposit_def Let_def status_step_def same_request_def quiet_def split: if_splits)
  then show thesis using that(1) that(2) [of d ?f] d by auto
qed

lemma requestNewReceipt_step:
  assumes "requestNewReceipt s a i n = Inr s'"
  obtains d f where "status_step s i d f s'" "dpStatus (f d) = RECEIPT_UPLOADED" "receipts s' = receipts s"
    "depositById s i = Some d"
proof -
  let ?f = "\<lambda>d. d\<lparr>dpStatus := RECEIPT_UPLOADED, dpNotes := map_option (\<lambda>t. take 500 (trim t)) n,
              dpReviewedBy := Some a\<rparr>"
  from assms obtain d where d: "depositById s i = Some d"
    by (auto simp: requestNewReceipt_def)
  with depositById_in [OF d] assms have "status_step s i d ?f s' \<and> receipts s' = receipts s"
    by (auto simp: requestNewReceipt_def status_step_def same_request_def quiet_def)
  then show thesis using that [of d ?f] d by auto
qed

lemma expireOne_step:
  obtains "expireOne s d = s"
  | x f where "status_step s (dpId d) x f (expireOne s d)" "dpStatus (f x) = EXPIRED"
      "receipts (expireOne s d) = receipts s"
proof -
  let ?f = "\<lambda>d. d\<lparr>dpStatus := EXPIRED\<rparr>"
  show thesis
  proof (cases "depositById s (dpId d)")
    case None
    then show thesis using that(1) by (simp add: expireOne_def)
  next
    case (Some x)
    then show thesis
      using that(1) that(2) [of x ?f] depositById_in [OF Some]
      by (cases "dpStatus x = PENDING_PAYMENT")
         (simp_all add: expireOne_def status_step_def same_request_def quiet_def canTransition_def)
  qed
qed

subsection \<open>Approval\<close>

lemma depositJournal_net:
  assumes "starts_with CASH_ROOT_CODE cash"
  shows "netRial ''2010'' (inputLines (depositJournal d admin cash tid)) = dpRial d"
    and "netGrams ''2020'' (inputLines (depositJournal d admin cash tid)) = 0"
  using cash_code_not_control [OF assms]
  by (auto simp: depositJournal_def deltaSign_def isDebitNature_def)

lemma resolveCashAccount_cash:
  "resolveCashAccount s code = Inr c \<Longrightarrow> starts_with CASH_ROOT_CODE c"
  unfolding resolveCashAccount_def by (rule resolveBankAccount_cash)

lemma postJournal_desk:
  fixes s :: "'a desk_scheme"
  assumes "postJournal s t p = Inr (s', j)"
  shows "deposits s' = deposits s" "receipts s' = receipts s" "invoices s' = invoices s"
  using postJournal_frame [OF assms] by auto

text \<open>What an approval writes: one credit of the amount, with the document and the transaction.\<close>

definition approval_step :: "'a desk_scheme \<Rightarrow> nat \<Rightarrow> deposit \<Rightarrow> 'a desk_scheme \<Rightarrow> bool" where
  "approval_step s i d s' \<longleftrightarrow>
     d \<in> set (deposits s) \<and> dpId d = i \<and> dpStatus d = UNDER_REVIEW \<and> receiptCount s i \<noteq> 0 \<and>
     (\<exists>s1 f tid c w. walletAdd s (dpWallet d) (dpRial d) 0 = Inr s1 \<and>
        walletById s (dpWallet d) = Some w \<and> tid = nextId s \<and>
        transactions s' = transactions s @ [depositTransaction tid c d w] \<and>
        wallets s' = wallets s1 \<and> nextId s' = nextId s + 2 \<and> receipts s' = receipts s \<and>
        deposits s' = update_where (\<lambda>x. dpId x = i) f (deposits s) \<and>
        (\<forall>x. same_request x (f x) \<and> dpStatus (f x) = APPROVED \<and> dpTransaction (f x) = Some tid \<and>
           dpRejections (f x) = dpRejections x) \<and>
        (\<forall>v \<in> set (invoices s'). dpProforma d = Some (ivId v) \<longrightarrow> ivStatus v = IV_CONSUMED) \<and>
        (wf_bank s \<longrightarrow> wf_bank s' \<and> totalRial s' = totalRial s + dpRial d \<and>
           rialOf s' ''2010'' = rialOf s ''2010'' + dpRial d \<and> totalGrams s' = totalGrams s \<and>
           gramsOf s' ''2020'' = gramsOf s ''2020''))"

lemma invoices_setInvoice:
  "invoices (setInvoice s (Some k) f) = map (\<lambda>v. if ivId v = k then f v else v) (invoices s)"
  by (simp add: setInvoice_def update_where_def)

lemma setInvoice_status:
  assumes "v \<in> set (invoices (setInvoice s p (\<lambda>v. v\<lparr>ivStatus := st\<rparr>)))" "p = Some (ivId v)"
  shows "ivStatus v = st"
proof -
  from assms obtain x where v: "v = (if ivId x = ivId v then x\<lparr>ivStatus := st\<rparr> else x)"
    by (auto simp only: invoices_setInvoice set_map)
  show ?thesis
  proof (cases "ivId x = ivId v")
    case True
    note v [unfolded if_P [OF True]]
    then show ?thesis by (metis invoice.select_convs(4) invoice.surjective invoice.update_convs(4))
  next
    case False
    from v [unfolded if_not_P [OF this]] have "v = x" .
    then show ?thesis using False by blast
  qed
qed

lemma approvalWrites_money:
  assumes wf: "wf_bank s" and cash: "starts_with CASH_ROOT_CODE cash"
    and a: "walletAdd s wid (dpRial d) 0 = Inr s1"
    and post: "postJournal (s1\<lparr>nextId := n, transactions := ts\<rparr>) t (depositJournal d admin cash tid) = Inr (s3, j)"
      (is "postJournal ?s2 _ _ = _")
    and n: "n = nextId s1 + 1" and q: "quiet s3 s'"
  shows "wf_bank s' \<and> totalRial s' = totalRial s + dpRial d \<and>
    rialOf s' ''2010'' = rialOf s ''2010'' + dpRial d \<and> totalGrams s' = totalGrams s \<and>
    gramsOf s' ''2020'' = gramsOf s ''2020''"
proof -
  have x1: "wf_except {} s1" using wf_except_walletAdd [OF wf [unfolded wf_bank_def] a] .
  have x2: "wf_except {} ?s2" by (rule wf_except_same [OF x1]) (simp_all add: n)
  have x3: "wf_bank s3" using wf_except_post [OF x2 post] unfolding wf_bank_def .
  note l2 = wf_except_ledger [OF x2]
  have "totalRial s3 = totalRial s1" "totalGrams s3 = totalGrams s1"
    using totals_cong [of s3 s1] postJournal_bank [OF post] by simp_all
  moreover have "rialOf ?s2 = rialOf s" "gramsOf ?s2 = gramsOf s"
    by (intro ext, simp add: rialOf_def gramsOf_def walletAdd_frame [OF a])+
  ultimately show ?thesis
    using quiet_wf [OF q x3] quiet_money [OF q] walletAdd_totals [OF a wf_bank_wallets [OF wf]]
      books.post_rial [OF l2 post] books.post_grams [OF l2 post] depositJournal_net [OF cash]
    by simp
qed

lemma approveDeposit_step:
  assumes "approveDeposit s c admin i n cash = Inr (s', done)"
  obtains (repeated) d where "s' = s" "done" "depositById s i = Some d" "dpStatus d = APPROVED"
  | (approved) d where "approval_step s i d s'" "\<not> done" "depositById s i = Some d"
proof -
  from assms obtain d where d: "depositById s i = Some d" by (auto simp: approveDeposit_def)
  show thesis
  proof (cases "dpStatus d = APPROVED")
    case True
    then show thesis using assms d repeated by (simp add: approveDeposit_def)
  next
    case False
    from assms d False obtain w code where st: "dpStatus d = UNDER_REVIEW" "receiptCount s i \<noteq> 0"
      and w: "walletById s (dpWallet d) = Some w" and code: "resolveCashAccount s cash = Inr code"
      and wr: "approvalWrites s c admin d w code n = Inr s'" and nd: "\<not> done"
      by (cases "dpStatus d") (auto simp: approveDeposit_def canTransition_def split: if_splits)
    have wid: "wId w = dpWallet d" using w by (auto simp: walletById_def dest: find_SomeD)
    from wr obtain s1 s3 j where a: "walletAdd s (dpWallet d) (dpRial d) 0 = Inr s1"
      and post: "postJournal (s1\<lparr>nextId := nextId s1 + 1,
          transactions := transactions s1 @ [depositTransaction (nextId s1) c d w]\<rparr>) (now c)
          (depositJournal d admin code (nextId s1)) = Inr (s3, j)"
      and s': "s' = setInvoice (setDeposit s3 (dpId d)
          (\<lambda>x. x\<lparr>dpStatus := APPROVED, dpTransaction := Some (nextId s1), dpReviewedBy := Some admin,
                 dpNotes := (case n of None \<Rightarrow> dpNotes d | Some t \<Rightarrow> Some (take 500 (trim t)))\<rparr>))
          (dpProforma d) (\<lambda>v. v\<lparr>ivStatus := IV_CONSUMED\<rparr>)"
      unfolding approvalWrites_def Let_def wid by (auto split: prod.splits)
    let ?f = "\<lambda>x. x\<lparr>dpStatus := APPROVED, dpTransaction := Some (nextId s), dpReviewedBy := Some admin,
                 dpNotes := (case n of None \<Rightarrow> dpNotes d | Some t \<Rightarrow> Some (take 500 (trim t)))\<rparr>"
    have q: "quiet s3 s'" by (simp add: s' quiet_def)
    note fr = walletAdd_frame [OF a] and pb = postJournal_bank [OF post] postJournal_desk [OF post]
    have sd: "deposits s1 = deposits s" "receipts s1 = receipts s"
      using a by (auto elim!: walletAdd_Inr)
    have money: "wf_bank s \<longrightarrow> wf_bank s' \<and> totalRial s' = totalRial s + dpRial d \<and>
           rialOf s' ''2010'' = rialOf s ''2010'' + dpRial d \<and> totalGrams s' = totalGrams s \<and>
           gramsOf s' ''2020'' = gramsOf s ''2020''"
      using approvalWrites_money [OF _ resolveCashAccount_cash [OF code] a post refl q] by blast
    have consumed: "\<forall>v \<in> set (invoices s'). dpProforma d = Some (ivId v) \<longrightarrow> ivStatus v = IV_CONSUMED"
    proof (intro ballI impI)
      fix v assume v: "v \<in> set (invoices s')" "dpProforma d = Some (ivId v)"
      show "ivStatus v = IV_CONSUMED" by (rule setInvoice_status [OF v(1) [unfolded s'] v(2)])
    qed
    have di: "d \<in> set (deposits s)" "dpId d = i" using depositById_in [OF d] by auto
    have writes: "transactions s' = transactions s @ [depositTransaction (nextId s) c d w]"
      "wallets s' = wallets s1" "nextId s' = nextId s + 2" "receipts s' = receipts s"
      "deposits s' = update_where (\<lambda>x. dpId x = i) ?f (deposits s)"
      by (simp_all add: s' fr pb sd di(2))
    have "approval_step s i d s'"
      unfolding approval_step_def
      by (intro conjI exI [of _ s1] exI [of _ ?f] exI [of _ "nextId s"] exI [of _ c] exI [of _ w])
         (fact di st w a money consumed writes refl | simp add: same_request_def)+
    then show thesis using nd d approved by blast
  qed
qed

subsection \<open>The invariant of the deposits and their calls\<close>

definition wf_desk :: "'a desk_scheme \<Rightarrow> bool" where
  "wf_desk s \<longleftrightarrow>
     wf_bank s \<and> distinct (map dpId (deposits s)) \<and> distinct (map dpTracking (deposits s)) \<and>
     (\<forall>d \<in> set (deposits s). dpId d < nextId s \<and> 0 < dpRial d \<and>
        (dpTransaction d = None \<longleftrightarrow> dpStatus d \<noteq> APPROVED))"

definition approvedRial :: "'a desk_scheme \<Rightarrow> int" where
  "approvedRial s = sum_where (\<lambda>d. dpStatus d = APPROVED) dpRial (deposits s)"

definition dp_evolves :: "deposit \<Rightarrow> deposit \<Rightarrow> bool" where
  "dp_evolves d d' \<longleftrightarrow>
     same_request d d' \<and> rtranclp canTransition (dpStatus d) (dpStatus d') \<and>
     dpRejections d \<le> dpRejections d' \<and>
     (dpTransaction d \<noteq> None \<longrightarrow> dpTransaction d' = dpTransaction d)"

definition deskHistory :: "'a desk_scheme \<Rightarrow> 'a desk_scheme \<Rightarrow> bool" where
  "deskHistory s s' \<longleftrightarrow> (\<forall>d \<in> set (deposits s). \<exists>d' \<in> set (deposits s'). dp_evolves d d')"

lemma dp_evolves_refl [simp]: "dp_evolves d d"
  by (simp add: dp_evolves_def)

lemma dp_evolves_trans: "dp_evolves a b \<Longrightarrow> dp_evolves b c \<Longrightarrow> dp_evolves a c"
  unfolding dp_evolves_def
  by (auto intro: same_request_trans rtranclp_trans order_trans)

lemma deskHistory_keep: "set (deposits s) \<subseteq> set (deposits s') \<Longrightarrow> deskHistory s s'"
  unfolding deskHistory_def using dp_evolves_refl by blast

lemma deskHistory_refl: "deskHistory s s"
  by (simp add: deskHistory_keep)

lemma deskHistory_trans: "deskHistory s s1 \<Longrightarrow> deskHistory s1 s2 \<Longrightarrow> deskHistory s s2"
  unfolding deskHistory_def by (meson dp_evolves_trans)

lemma find_deposit:
  "wf_desk s \<Longrightarrow> d \<in> set (deposits s) \<Longrightarrow> find (\<lambda>x. dpId x = dpId d) (deposits s) = Some d"
  by (rule find_unique) (simp_all add: wf_desk_def)

lemma deskHistory_update:
  assumes "wf_desk s" and "d \<in> set (deposits s)" and "dpId d = i"
    and "deposits s' = update_where (\<lambda>x. dpId x = i) f (deposits s)" and "dp_evolves d (f d)"
  shows "deskHistory s s'"
  unfolding deskHistory_def
proof
  fix x assume x: "x \<in> set (deposits s)"
  show "\<exists>d' \<in> set (deposits s'). dp_evolves x d'"
  proof (cases "dpId x = i")
    case True
    then have "x = d" using find_deposit [OF assms(1) x] find_deposit [OF assms(1,2)] assms(3) by simp
    then have "f d \<in> set (deposits s')" using x True unfolding assms(4) set_update_where by force
    then show ?thesis using assms(5) \<open>x = d\<close> by blast
  next
    case False
    then have "x \<in> set (deposits s')" using x unfolding assms(4) set_update_where by force
    then show ?thesis by (intro bexI [of _ x]) simp_all
  qed
qed

lemma wf_desk_update:
  assumes wf: "wf_desk s" and bank: "wf_bank s'" and n: "nextId s \<le> nextId s'"
    and d: "d \<in> set (deposits s)" "dpId d = i"
    and ds: "deposits s' = update_where (\<lambda>x. dpId x = i) f (deposits s)"
    and f: "\<And>x. same_request x (f x)" and t: "dpTransaction (f d) = None \<longleftrightarrow> dpStatus (f d) \<noteq> APPROVED"
  shows "wf_desk s'"
proof -
  have ids: "map dpId (deposits s') = map dpId (deposits s)"
    "map dpTracking (deposits s') = map dpTracking (deposits s)"
    unfolding ds using f by (auto simp: same_request_def intro!: map_update_where)
  have "x = d" if "x \<in> set (deposits s)" "dpId x = i" for x
    using find_deposit [OF wf that(1)] find_deposit [OF wf d(1)] d(2) that(2) by simp
  then have "\<forall>x \<in> set (deposits s'). dpId x < nextId s' \<and> 0 < dpRial x \<and>
      (dpTransaction x = None \<longleftrightarrow> dpStatus x \<noteq> APPROVED)"
    using wf n t f unfolding ds set_update_where wf_desk_def same_request_def by force
  then show ?thesis using wf bank ids unfolding wf_desk_def by simp
qed

lemma approvedRial_update:
  assumes "wf_desk s" and "d \<in> set (deposits s)" "dpId d = i"
    and "deposits s' = update_where (\<lambda>x. dpId x = i) f (deposits s)" and "dpRial (f d) = dpRial d"
  shows "approvedRial s' = approvedRial s +
    (if dpStatus (f d) = APPROVED then dpRial d else 0) - (if dpStatus d = APPROVED then dpRial d else 0)"
proof -
  have dd: "distinct (map dpId (deposits s))" using assms(1) by (simp add: wf_desk_def)
  have "find (\<lambda>x. dpId x = i) (deposits s) = Some d" using find_deposit [OF assms(1,2)] assms(3) by simp
  from sum_where_update_key [OF dd this, of "\<lambda>d. dpStatus d = APPROVED" dpRial f]
  show ?thesis unfolding approvedRial_def assms(4) assms(5) [symmetric] by (simp only: assms(5) add_diff_eq)
qed

text \<open>What every call does, in one statement.\<close>

definition desk_moves :: "'a desk_scheme \<Rightarrow> 'a desk_scheme \<Rightarrow> bool" where
  "desk_moves s s' \<longleftrightarrow>
     wf_desk s' \<and> deskHistory s s' \<and>
     totalRial s' - approvedRial s' = totalRial s - approvedRial s \<and>
     totalRial s' - rialOf s' ''2010'' = totalRial s - rialOf s ''2010'' \<and>
     totalGrams s' = totalGrams s \<and> gramsOf s' ''2020'' = gramsOf s ''2020''"

lemma desk_moves_refl: "wf_desk s \<Longrightarrow> desk_moves s s"
  by (simp add: desk_moves_def deskHistory_refl)

lemma desk_moves_trans: "desk_moves s s1 \<Longrightarrow> desk_moves s1 s2 \<Longrightarrow> desk_moves s s2"
  unfolding desk_moves_def by (auto intro: deskHistory_trans)

lemma canTransition_final [simp]:
  "\<not> canTransition APPROVED st" "\<not> canTransition CANCELLED st" "\<not> canTransition EXPIRED st"
  by (simp_all add: canTransition_def)

lemma status_step_moves:
  assumes wf: "wf_desk s" and st: "status_step s i d f s'"
  shows "desk_moves s s'"
proof -
  note st' = st [unfolded status_step_def]
  have na: "dpStatus d \<noteq> APPROVED" using st' by (metis canTransition_final(1))
  then have tn: "dpTransaction d = None" using wf st' by (simp add: wf_desk_def)
  have fd: "same_request d (f d)" using st' by blast
  have ev: "dp_evolves d (f d)"
    using st' tn fd unfolding dp_evolves_def by (auto intro: r_into_rtranclp)
  have "wf_desk s'"
    using st' tn quiet_wf [of s s'] wf
    by (intro wf_desk_update [OF wf]) (auto simp: wf_desk_def)
  moreover have "deskHistory s s'" using st' ev by (intro deskHistory_update [OF wf]) auto
  moreover have "approvedRial s' = approvedRial s"
    using approvedRial_update [OF wf, of d i s' f] st' na fd by (simp add: same_request_def)
  ultimately show ?thesis using quiet_money [of s s'] st' by (simp add: desk_moves_def)
qed

lemma approval_step_moves:
  assumes wf: "wf_desk s" and st: "approval_step s i d s'"
  shows "desk_moves s s'"
proof -
  have bank: "wf_bank s" using wf by (simp add: wf_desk_def)
  from st obtain f tid where d: "d \<in> set (deposits s)" "dpId d = i" "dpStatus d = UNDER_REVIEW"
    and ds: "deposits s' = update_where (\<lambda>x. dpId x = i) f (deposits s)" "nextId s' = nextId s + 2"
    and f: "\<And>x. same_request x (f x) \<and> dpStatus (f x) = APPROVED \<and> dpTransaction (f x) = Some tid \<and>
           dpRejections (f x) = dpRejections x"
    and m: "wf_bank s'" "totalRial s' = totalRial s + dpRial d"
       "rialOf s' ''2010'' = rialOf s ''2010'' + dpRial d" "totalGrams s' = totalGrams s"
       "gramsOf s' ''2020'' = gramsOf s ''2020''"
    using bank unfolding approval_step_def by blast
  have tn: "dpTransaction d = None" using wf d by (auto simp: wf_desk_def)
  have ev: "dp_evolves d (f d)"
    using f [of d] d tn unfolding dp_evolves_def by (auto intro!: r_into_rtranclp simp: canTransition_def)
  have "wf_desk s'" using f d m ds by (intro wf_desk_update [OF wf m(1) _ d(1,2) ds(1)]) auto
  moreover have "deskHistory s s'" by (rule deskHistory_update [OF wf d(1,2) ds(1) ev])
  moreover have "approvedRial s' = approvedRial s + dpRial d"
    using approvedRial_update [OF wf d(1,2) ds(1)] f [of d] d(3) by (simp add: same_request_def)
  ultimately show ?thesis using m by (simp add: desk_moves_def)
qed

lemma firstFree_fresh:
  "firstFree ds prefix draws = Inr t \<Longrightarrow>
     (\<exists>body \<in> set draws. t = withLuhn (prefix @ body)) \<and> t \<notin> dpTracking ` set ds"
  by (induction draws) (auto simp: Let_def list_ex_iff split: if_splits)

lemma new_moves:
  assumes wf: "wf_desk s" and q: "quiet s s'" and ds: "deposits s' = deposits s @ [d]"
    and d: "nextId s \<le> dpId d" "dpId d < nextId s'" "0 < dpRial d" "dpStatus d = PENDING_PAYMENT"
      "dpTransaction d = None" "dpTracking d \<notin> dpTracking ` set (deposits s)"
  shows "desk_moves s s'"
proof -
  have "wf_bank s'" using quiet_wf [OF q] wf by (simp add: wf_desk_def)
  moreover have "nextId s \<le> nextId s'" using q by (simp add: quiet_def)
  ultimately have "wf_desk s'" using wf d unfolding wf_desk_def ds by fastforce
  moreover have "deskHistory s s'" by (rule deskHistory_keep) (auto simp: ds)
  moreover have "approvedRial s' = approvedRial s" using d(4) by (simp add: approvedRial_def ds)
  ultimately show ?thesis using quiet_money [OF q] by (simp add: desk_moves_def)
qed


lemma insertDeposit_moves:
  assumes wf: "wf_desk s" and r: "insertDeposit s c draws u w amount m key expires = Inr (s', i)"
    and a: "0 < amount"
  shows "desk_moves s s'" and "\<exists>d. deposits s' = deposits s @ [d] \<and> dpId d = i \<and> nextId s \<le> i \<and>
    i < nextId s' \<and> dpRial d = amount \<and> dpUser d = u \<and> dpMethod d = m \<and> dpStatus d = PENDING_PAYMENT \<and>
    dpCreated d = now c \<and> dpKey d = key \<and> dpProforma d = None \<and> dpTransaction d = None \<and>
    dpTracking d \<notin> dpTracking ` set (deposits s) \<and> quiet s s'"
proof -
  from r obtain num tracking where g: "generate s draws = Inr tracking" and i: "i = nextId s"
    and q: "quiet s s'" and n: "nextId s' = nextId s + 1"
    and ds: "deposits s' = deposits s @ [newDeposit i num c u w amount m tracking key expires]"
    by (rule insertDeposit_Inr)
  have t: "tracking \<notin> dpTracking ` set (deposits s)"
    using g firstFree_fresh unfolding generate_def by blast
  show "desk_moves s s'" by (rule new_moves [OF wf q ds]) (use i n a t in \<open>auto simp: newDeposit_def\<close>)
  show "\<exists>d. deposits s' = deposits s @ [d] \<and> dpId d = i \<and> nextId s \<le> i \<and>
    i < nextId s' \<and> dpRial d = amount \<and> dpUser d = u \<and> dpMethod d = m \<and> dpStatus d = PENDING_PAYMENT \<and>
    dpCreated d = now c \<and> dpKey d = key \<and> dpProforma d = None \<and> dpTransaction d = None \<and>
    dpTracking d \<notin> dpTracking ` set (deposits s) \<and> quiet s s'"
    by (rule exI [of _ "newDeposit i num c u w amount m tracking key expires"])
       (use ds i n t q in \<open>auto simp: newDeposit_def\<close>)
qed

lemma createDeposit_moves:
  assumes wf: "wf_desk s" and r: "createDeposit toJ s c draws u amount key = Inr (s', i)"
  shows "desk_moves s s'"
  using r
proof (cases rule: createDeposit_Inr)
  case old
  then show ?thesis using wf by (simp add: desk_moves_refl)
next
  case (new w expires s1 s2 v)
  from insertDeposit_moves(2) [OF wf new(8,1)] obtain d where
    d: "deposits s1 = deposits s @ [d]" "dpId d = i" "nextId s \<le> i" "i < nextId s1" "dpRial d = amount"
      "dpStatus d = PENDING_PAYMENT" "dpTransaction d = None"
      "dpTracking d \<notin> dpTracking ` set (deposits s)" "quiet s s1" by blast
  note iq = issue_quiet [OF new(9)]
  have "quiet s s'" using d(9) iq(1) unfolding new(10) by (auto simp: quiet_def)
  moreover have "\<forall>x \<in> set (deposits s). dpId x \<noteq> i" using wf d(3) by (auto simp: wf_desk_def)
  then have "deposits s' = deposits s @ [d\<lparr>dpProforma := Some (ivId v)\<rparr>]"
    by (simp add: new(10) iq d(1,2) update_where_append update_where_none)
  moreover have "dpId d < nextId s'" using iq(1) d(2,4) by (auto simp: new(10) quiet_def)
  ultimately show ?thesis
    by (intro new_moves [OF wf, where d = "d\<lparr>dpProforma := Some (ivId v)\<rparr>"]) (use d new(1) in auto)
qed

lemma createManual_moves:
  assumes wf: "wf_desk s" and r: "createManual s c draws u m amount cardId key = Inr (s', i)"
  shows "desk_moves s s'"
  using r
proof (cases rule: createManual_Inr)
  case old
  then show ?thesis using wf by (simp add: desk_moves_refl)
next
  case (new w expires)
  show ?thesis by (rule insertDeposit_moves(1) [OF wf new(6,1)])
qed

lemma expireOne_moves: "wf_desk s \<Longrightarrow> desk_moves s (expireOne s d)"
  by (rule expireOne_step [of s d]) (auto intro: desk_moves_refl status_step_moves)

lemma expire_loop_moves: "wf_desk s \<Longrightarrow> desk_moves s (foldl expireOne s ds)"
proof (induction ds arbitrary: s)
  case Nil
  then show ?case by (simp add: desk_moves_refl)
next
  case (Cons d ds)
  have m: "desk_moves s (expireOne s d)" using Cons.prems by (rule expireOne_moves)
  then have "wf_desk (expireOne s d)" by (simp add: desk_moves_def)
  from desk_moves_trans [OF m Cons.IH [OF this]] show ?case by simp
qed

subsection \<open>Sequences of calls\<close>

datatype desk_op =
    CreateDeposit "string list" nat int "string option"
  | CreateManual "string list" nat manual_method int nat "string option"
  | UploadReceipt nat nat string
  | CancelDeposit nat nat
  | StartReview nat nat
  | ApproveDeposit nat nat "string option" "string option"
  | RejectDeposit nat nat string
  | RequestNewReceipt nat nat "string option"
  | ExpireStale

fun desk_step :: "(int \<Rightarrow> nat \<times> nat \<times> nat) \<Rightarrow> 'a desk_scheme \<Rightarrow> clock \<times> desk_op \<Rightarrow> 'a desk_scheme res" where
  "desk_step toJ s (c, CreateDeposit draws u amount key) = stateOf (createDeposit toJ s c draws u amount key)"
| "desk_step toJ s (c, CreateManual draws u m amount card_id key) =
     stateOf (createManual s c draws u m amount card_id key)"
| "desk_step toJ s (c, UploadReceipt u i cs) = stateOf (uploadReceipt s u i cs)"
| "desk_step toJ s (c, CancelDeposit u i) = stateOf (cancelDeposit s u i)"
| "desk_step toJ s (c, StartReview a i) = stateOf (startReview s a i)"
| "desk_step toJ s (c, ApproveDeposit a i n cash) = stateOf (approveDeposit s c a i n cash)"
| "desk_step toJ s (c, RejectDeposit a i reason) = stateOf (rejectDeposit s a i reason)"
| "desk_step toJ s (c, RequestNewReceipt a i n) = requestNewReceipt s a i n"
| "desk_step toJ s (c, ExpireStale) = Inr (expireStaleRequests s c)"

lemma desk_step_moves:
  assumes wf: "wf_desk s" and r: "desk_step toJ s (c, x) = Inr s'"
  shows "desk_moves s s'"
proof (cases x)
  case (CreateDeposit draws u amount key)
  then show ?thesis using r createDeposit_moves [OF wf] by auto
next
  case (CreateManual draws u m amount card_id key)
  then show ?thesis using r createManual_moves [OF wf] by auto
next
  case (UploadReceipt u i cs)
  then show ?thesis using r by (auto elim!: uploadReceipt_step intro: status_step_moves [OF wf])
next
  case (CancelDeposit u i)
  then show ?thesis using r desk_moves_refl [OF wf]
    by (auto elim!: cancelDeposit_step intro: status_step_moves [OF wf])
next
  case (StartReview a i)
  then show ?thesis using r desk_moves_refl [OF wf]
    by (auto elim!: startReview_step intro: status_step_moves [OF wf])
next
  case (ApproveDeposit a i n cash)
  then show ?thesis using r desk_moves_refl [OF wf]
    by (auto elim!: approveDeposit_step intro: approval_step_moves [OF wf])
next
  case (RejectDeposit a i reason)
  then show ?thesis using r desk_moves_refl [OF wf]
    by (auto elim!: rejectDeposit_step intro: status_step_moves [OF wf])
next
  case (RequestNewReceipt a i n)
  then show ?thesis using r by (auto elim!: requestNewReceipt_step intro: status_step_moves [OF wf])
next
  case ExpireStale
  then show ?thesis using r expire_loop_moves [OF wf] by (auto simp: expireStaleRequests_def)
qed

lemma desk_step_moves':
  assumes "wf_desk s" "desk_step toJ s p = Inr s'"
  shows "wf_desk s'" and "deskHistory s s'" and "totalRial s' - approvedRial s' = totalRial s - approvedRial s"
    and "totalRial s' - rialOf s' ''2010'' = totalRial s - rialOf s ''2010''"
  using desk_step_moves [of s toJ "fst p" "snd p" s'] assms by (simp_all add: desk_moves_def)

interpretation desk_approved: control_account
    "desk_step toJ :: 'a desk_scheme \<Rightarrow> clock \<times> desk_op \<Rightarrow> 'a desk_scheme res"
    wf_desk totalRial approvedRial for toJ
  by unfold_locales (rule desk_step_moves'; assumption)+

interpretation desk_control: control_account
    "desk_step toJ :: 'a desk_scheme \<Rightarrow> clock \<times> desk_op \<Rightarrow> 'a desk_scheme res"
    wf_desk totalRial "\<lambda>s. rialOf s ''2010''" for toJ
  by unfold_locales (rule desk_step_moves'; assumption)+

interpretation deposit_life: evolving_service
    "desk_step toJ :: 'a desk_scheme \<Rightarrow> clock \<times> desk_op \<Rightarrow> 'a desk_scheme res" wf_desk deskHistory for toJ
  by unfold_locales (auto intro: deskHistory_refl deskHistory_trans desk_step_moves')

subsection \<open>Facts on single calls\<close>

lemma depositById_update:
  assumes "depositById s i = Some d" and "deposits s' = update_where (\<lambda>x. dpId x = i) f (deposits s)"
    and "\<And>x. dpId (f x) = dpId x"
  shows "depositById s' i = Some (f d)"
  using assms find_update_where_same [of dpId f i "deposits s"] by (simp add: depositById_def)

lemma status_step_row:
  assumes "wf_desk s" and "status_step s i d f s'"
  shows "depositById s i = Some d" and "depositById s' i = Some (f d)"
proof -
  show "depositById s i = Some d"
    using assms find_deposit [OF assms(1), of d] by (auto simp: status_step_def depositById_def)
  then show "depositById s' i = Some (f d)"
    by (rule depositById_update) (use assms(2) in \<open>auto simp: status_step_def same_request_def\<close>)
qed

lemma find_own_deposit:
  assumes "wf_desk s" and "depositById s i = Some d" and "dpUser d = u"
  shows "find (\<lambda>d. dpId d = i \<and> dpUser d = u) (deposits s) = Some d"
proof -
  have "find (\<lambda>d. dpId d = i \<and> dpUser d = u) ds = Some d"
    if "find (\<lambda>d. dpId d = i) ds = Some d" for ds
    using that by (induction ds) (auto simp: assms(3) split: if_splits)
  then show ?thesis using assms(2) by (simp add: depositById_def)
qed

lemma generate_valid:
  assumes "generate s draws = Inr t" and b: "\<forall>b \<in> set draws. length b = 11 \<and> list_all is_digit b"
  shows "length t = 16 \<and> isValidLuhn t \<and> t \<notin> dpTracking ` set (deposits s)"
proof -
  let ?p = "trackingPrefix s"
  have zero: "is_digit (CHR ''0'')" by (simp add: is_digit_def)
  have pl: "length ?p = 4" by (simp add: trackingPrefix_def padStart_def)
  have "list_all is_digit (filter is_digit x)" for x by (simp add: list_all_iff)
  then have pd: "list_all is_digit ?p"
    unfolding trackingPrefix_def padStart_def using zero
    by (auto simp: list_all_iff dest!: in_set_takeD)
  from firstFree_fresh [OF assms(1) [unfolded generate_def]] obtain body where
    body: "body \<in> set draws" "t = withLuhn (?p @ body)" "t \<notin> dpTracking ` set (deposits s)"
    by (auto dest!: in_set_takeD)
  have "list_all is_digit (?p @ body)" using pd b body(1) by simp
  then have "isValidLuhn t" unfolding body(2) by (rule withLuhn_valid) (use pl in auto)
  moreover have "length t = 16" using pl b body(1) by (simp add: body(2) withLuhn_def)
  ultimately show ?thesis using body(3) by simp
qed

text \<open>Expiry: a request that is not past its date, or no longer waits for payment, is left alone.\<close>

definition stale :: "clock \<Rightarrow> deposit \<Rightarrow> bool" where
  "stale c d \<longleftrightarrow> dpStatus d = PENDING_PAYMENT \<and> dpExpires d < now c"

lemma deposits_expireOne:
  "deposits (expireOne s x) =
     (case depositById s (dpId x) of
        Some d \<Rightarrow> if dpStatus d = PENDING_PAYMENT
                then update_where (\<lambda>y. dpId y = dpId x) (\<lambda>y. y\<lparr>dpStatus := EXPIRED\<rparr>) (deposits s)
                else deposits s
      | None \<Rightarrow> deposits s)"
  by (simp add: expireOne_def split: option.splits)

lemma expire_loop_deposits:
  assumes "distinct (map dpId (deposits s))" and "set ds \<subseteq> set (deposits s)"
    and "distinct (map dpId ds)" and "\<forall>d \<in> set ds. dpStatus d = PENDING_PAYMENT"
  shows "deposits (foldl expireOne s ds) =
    map (\<lambda>d. if dpId d \<in> dpId ` set ds then d\<lparr>dpStatus := EXPIRED\<rparr> else d) (deposits s)"
  using assms
proof (induction ds arbitrary: s)
  case Nil
  then show ?case by simp
next
  case (Cons x ds)
  let ?f = "\<lambda>y. y\<lparr>dpStatus := EXPIRED\<rparr>"
  have x: "depositById s (dpId x) = Some x"
    unfolding depositById_def using Cons.prems(1,2) by (intro find_unique) auto
  have e: "deposits (expireOne s x) = update_where (\<lambda>y. dpId y = dpId x) ?f (deposits s)"
    using x Cons.prems(4) by (simp add: deposits_expireOne)
  have ids: "map dpId (deposits (expireOne s x)) = map dpId (deposits s)"
    unfolding e by (intro map_update_where) simp
  have sub: "set ds \<subseteq> set (deposits (expireOne s x))"
  proof
    fix d assume d: "d \<in> set ds"
    then have "dpId d \<noteq> dpId x" using Cons.prems(3) by (auto simp: image_iff)
    moreover have "d \<in> set (deposits s)" using d Cons.prems(2) by auto
    ultimately show "d \<in> set (deposits (expireOne s x))" unfolding e set_update_where by force
  qed
  have "deposits (foldl expireOne (expireOne s x) ds) =
      map (\<lambda>d. if dpId d \<in> dpId ` set ds then ?f d else d) (deposits (expireOne s x))"
    by (rule Cons.IH) (use Cons.prems ids sub in simp_all)
  also have "\<dots> = map (\<lambda>d. if dpId d \<in> dpId ` set (x # ds) then ?f d else d) (deposits s)"
    unfolding e update_where_def map_map by (rule map_cong) auto
  finally show ?case by simp
qed

lemma expire_deposits:
  assumes "wf_desk s"
  shows "deposits (expireStaleRequests s c) =
    map (\<lambda>d. if d \<in> set (take 200 (filter (stale c) (deposits s))) then d\<lparr>dpStatus := EXPIRED\<rparr> else d)
      (deposits s)"
proof -
  let ?ds = "take 200 (filter (stale c) (deposits s))"
  have st: "stale c = (\<lambda>d. dpStatus d = PENDING_PAYMENT \<and> dpExpires d < now c)"
    by (auto simp: stale_def)
  have dist: "distinct (map dpId (deposits s))" using assms by (simp add: wf_desk_def)
  have sub: "set ?ds \<subseteq> set (deposits s)" by (auto dest: in_set_takeD)
  have "distinct (map dpId (filter (stale c) (deposits s)))" using dist by (simp add: distinct_map_filter)
  then have dd: "distinct (map dpId ?ds)" by (simp add: take_map [symmetric])
  have mem: "dpId d \<in> dpId ` set ?ds \<longleftrightarrow> d \<in> set ?ds" if "d \<in> set (deposits s)" for d
    using inj_on_image_mem_iff [of dpId "set (deposits s)" d "set ?ds"] dist sub that
    by (simp add: distinct_map)
  have pend: "\<forall>d \<in> set ?ds. dpStatus d = PENDING_PAYMENT"
    by (auto simp: stale_def dest: in_set_takeD)
  have "deposits (expireStaleRequests s c) =
      map (\<lambda>d. if dpId d \<in> dpId ` set ?ds then d\<lparr>dpStatus := EXPIRED\<rparr> else d) (deposits s)"
    unfolding expireStaleRequests_def st [symmetric]
    by (rule expire_loop_deposits [OF dist sub dd pend])
  also have "\<dots> = map (\<lambda>d. if d \<in> set ?ds then d\<lparr>dpStatus := EXPIRED\<rparr> else d) (deposits s)"
    by (rule map_cong [OF refl]) (simp only: mem)
  finally show ?thesis .
qed

subsection \<open>A concrete desk\<close>

definition demoDesk :: desk where
  "demoDesk =
     \<lparr>nextId = 100,
      accounts = [demoAccount 1 ''1010'' ASSET 3000000 0, demoAccount 2 ''2010'' LIABILITY 3000000 0],
      journals = [], ledgerEntries = [], fiscalYears = [], lockedUntil = None,
      config = (\<lambda>k. if starts_with ''company.'' k \<or> starts_with ''deposit.large_transfer.destination'' k
                        \<or> starts_with ''deposit.card_to_card.destination'' k then Some ''x'' else None),
      configNum = (\<lambda>k. if k = ''deposit.card_to_card.daily_limit'' then Some 1000000 else None),
      users = [\<lparr>uId = 11, uStatus = ACTIVE, uIdentity = Some ID_VERIFIED\<rparr>],
      bankAccounts = [\<lparr>baId = 30, baUser = 11, baVerified = True, baBank = ''bank'', baCard = [],
        baSheba = None, baNumber = ''1''\<rparr>],
      wallets = [\<lparr>wId = 21, wUser = 11, wCard = ''1'', wRial = 3000000, wGrams = 0\<rparr>],
      holds = [], transactions = [], withdrawals = [], approvals = [],
      sequences = (\<lambda>_. 0), jalaliYear = 1404, invoices = [], agentIds = [],
      deposits = [], receipts = [], holidayText = []\<rparr>"

lemma wf_demoDesk [simp]: "wf_desk demoDesk"
  by (simp add: demoDesk_def wf_desk_def wf_bank_def wf_except_def wf_ledger_def wf_accounts_def
      wf_wallets_def wf_requests_def wf_holds_def demoAccount_def)

definition deskClock :: clock where
  "deskClock = \<lparr>now = 1000000, today = 500000, firstOfMonth = 100000\<rparr>"

definition demoJalali :: "int \<Rightarrow> nat \<times> nat \<times> nat" where
  "demoJalali t = (1404, 1, nat (t div day_ms) + 1)"

text \<open>A large transfer (request 100, proforma 101), its receipt and the start of its review; and a
  desk with one request under review.\<close>

definition demoOps :: "(clock \<times> desk_op) list" where
  "demoOps = map (Pair deskClock)
     [CreateDeposit [''00000000001''] 11 4000000000 None, UploadReceipt 11 100 ''sum'', StartReview 5 100]"

definition demoReviewed :: desk where
  "demoReviewed = demoDesk
     \<lparr>nextId := 103,
      deposits := [\<lparr>dpId = 100, dpNumber = ''AG-1404-DEP-000001'', dpUser = 11, dpWallet = 21,
        dpRial = 4000000000, dpMethod = MT_LARGE_TRANSFER, dpStatus = UNDER_REVIEW,
        dpTracking = ''1023000000000018'', dpProforma = None, dpTransaction = None, dpKey = None,
        dpExpires = 2000000, dpReviewedBy = Some 5, dpReason = None, dpRejections = 0, dpNotes = None,
        dpCreated = 1000000\<rparr>],
      receipts := [\<lparr>rcDeposit = 100, rcChecksum = ''sum''\<rparr>]\<rparr>"

lemma wf_demoReviewed [simp]: "wf_desk demoReviewed"
  by (simp add: demoReviewed_def demoDesk_def wf_desk_def wf_bank_def wf_except_def wf_ledger_def
      wf_accounts_def wf_wallets_def wf_requests_def wf_holds_def demoAccount_def)

lemma demoReviewed_row:
  "deposits demoReviewed \<noteq> []" "dpStatus (hd (deposits demoReviewed)) = UNDER_REVIEW"
  "dpId (hd (deposits demoReviewed)) = 100"
  unfolding demoReviewed_def by code_simp+

subsection \<open>Properties\<close>

text \<open>C6: Deposits are credited exactly once. Over every sequence of requests, uploads,
cancellations, reviews, approvals (repeated ones too), rejections, requests of new receipts and
runs of the expiry job, what the wallets gain in total is the total of the requests that became
approved, and account 2010 grows by the same amount; tracking ids stay distinct.\<close>

theorem deposits_credit_once:
  assumes "wf_desk s"
  shows "wf_desk (run (desk_step toJ) s ops) \<and> distinct (map dpTracking (deposits (run (desk_step toJ) s ops))) \<and>
    totalRial (run (desk_step toJ) s ops) - totalRial s =
      approvedRial (run (desk_step toJ) s ops) - approvedRial s \<and>
    rialOf (run (desk_step toJ) s ops) ''2010'' - rialOf s ''2010'' =
      totalRial (run (desk_step toJ) s ops) - totalRial s"
  using desk_approved.run_inv [OF assms, of toJ ops] desk_approved.run_difference [OF assms, of toJ ops]
    desk_control.run_difference [OF assms, of toJ ops]
  by (simp add: wf_desk_def)

lemma deposits_credit_once_witness:
  "(let s = run (desk_step demoJalali) demoDesk (demoOps @ map (Pair deskClock)
        [ApproveDeposit 5 100 None None, ApproveDeposit 5 100 None None]) in
    totalRial s - totalRial demoDesk = approvedRial s \<and> approvedRial s = 4000000000)"
proof -
  let ?s = "run (desk_step demoJalali) demoDesk (demoOps @ map (Pair deskClock)
        [ApproveDeposit 5 100 None None, ApproveDeposit 5 100 None None])"
  have "totalRial ?s - totalRial demoDesk = approvedRial ?s - approvedRial demoDesk"
    using deposits_credit_once [OF wf_demoDesk] by blast
  moreover have "approvedRial demoDesk = 0" by code_simp
  moreover have "approvedRial ?s = 4000000000" by code_simp
  ultimately show ?thesis by (simp only: Let_def simp_thms diff_0_right)
qed

text \<open>The life of a deposit. Whatever calls follow, a request keeps its user, wallet, amount,
method and tracking id, its status only moves along the table of transitions, its count of
rejections never falls; an approved, cancelled or expired request keeps its status for ever, and an
approved one keeps the transaction that credited it.\<close>

theorem deposit_life_cycle:
  assumes "wf_desk s" and "d \<in> set (deposits s)"
  shows "\<exists>d' \<in> set (deposits (run (desk_step toJ) s ops)).
    same_request d d' \<and> rtranclp canTransition (dpStatus d) (dpStatus d') \<and>
    dpRejections d \<le> dpRejections d' \<and>
    (dpStatus d \<in> {APPROVED, CANCELLED, EXPIRED} \<longrightarrow> dpStatus d' = dpStatus d) \<and>
    (dpStatus d = APPROVED \<longrightarrow> dpTransaction d' = dpTransaction d)"
proof -
  from deposit_life.run_later [OF assms(1)] assms(2) obtain d' where
    d': "d' \<in> set (deposits (run (desk_step toJ) s ops))" "dp_evolves d d'"
    unfolding deskHistory_def by blast
  have path: "rtranclp canTransition (dpStatus d) (dpStatus d')" using d'(2) by (simp add: dp_evolves_def)
  have "dpStatus d' = dpStatus d" if "dpStatus d \<in> {APPROVED, CANCELLED, EXPIRED}"
    using path that by (auto elim: converse_rtranclpE)
  moreover have "dpTransaction d \<noteq> None" if "dpStatus d = APPROVED"
    using assms that by (simp add: wf_desk_def)
  ultimately show ?thesis using d' unfolding dp_evolves_def by blast
qed

lemma deposit_life_cycle_witness:
  "\<exists>d' \<in> set (deposits (run (desk_step demoJalali) demoReviewed [(deskClock, CancelDeposit 11 100)])).
     same_request (hd (deposits demoReviewed)) d' \<and> dpStatus d' = UNDER_REVIEW"
proof -
  have "hd (deposits demoReviewed) \<in> set (deposits demoReviewed)" using demoReviewed_row(1) by simp
  from deposit_life_cycle [OF wf_demoReviewed this, of demoJalali "[(deskClock, CancelDeposit 11 100)]"]
  obtain d' where "d' \<in> set (deposits (run (desk_step demoJalali) demoReviewed [(deskClock, CancelDeposit 11 100)]))"
    "same_request (hd (deposits demoReviewed)) d'" by blast
  moreover have "list_all (\<lambda>d'. dpStatus d' = UNDER_REVIEW)
      (deposits (run (desk_step demoJalali) demoReviewed [(deskClock, CancelDeposit 11 100)]))"
    unfolding demoReviewed_def by code_simp
  ultimately show ?thesis by (auto simp: list_all_iff)
qed

text \<open>C32: What an approval does. A request is only approved from review and with a receipt; then
its wallet gets exactly the amount of the request, no other wallet changes, a completed deposit
transaction is recorded, account 2010 grows by the amount, the proforma is consumed, and approving
it again changes nothing.\<close>

theorem deposit_approval_effect:
  assumes "wf_desk s" and "approveDeposit s c admin i n cash = Inr (s', False)"
  shows "\<exists>d d' w t. depositById s i = Some d \<and> dpStatus d = UNDER_REVIEW \<and> 0 < receiptCount s i \<and>
    depositById s' i = Some d' \<and> dpStatus d' = APPROVED \<and> same_request d d' \<and>
    walletById s (dpWallet d) = Some w \<and>
    walletById s' (dpWallet d) = Some (w\<lparr>wRial := wRial w + dpRial d\<rparr>) \<and>
    (\<forall>j. j \<noteq> dpWallet d \<longrightarrow> walletById s' j = walletById s j) \<and>
    transactions s' = transactions s @ [t] \<and> tType t = DEPOSIT \<and> tRial t = Some (dpRial d) \<and>
    dpTransaction d' = Some (tId t) \<and> rialOf s' ''2010'' = rialOf s ''2010'' + dpRial d \<and>
    (\<forall>v \<in> set (invoices s'). dpProforma d = Some (ivId v) \<longrightarrow> ivStatus v = IV_CONSUMED) \<and>
    approveDeposit s' c2 admin2 i n2 cash2 = Inr (s', True)"
  using assms(2)
proof (cases rule: approveDeposit_step)
  case repeated
  then show ?thesis by simp
next
  case (approved d)
  have bank: "wf_bank s" using assms(1) by (simp add: wf_desk_def)
  from approved(1) bank obtain s1 f c' w where
    st: "dpStatus d = UNDER_REVIEW" "receiptCount s i \<noteq> 0" and
    a: "walletAdd s (dpWallet d) (dpRial d) 0 = Inr s1" and w: "walletById s (dpWallet d) = Some w" and
    tr: "transactions s' = transactions s @ [depositTransaction (nextId s) c' d w]" and
    ws: "wallets s' = wallets s1" and
    ds: "deposits s' = update_where (\<lambda>x. dpId x = i) f (deposits s)" and
    f: "\<And>x. same_request x (f x)" "\<And>x. dpStatus (f x) = APPROVED" "\<And>x. dpTransaction (f x) = Some (nextId s)" and
    inv: "\<forall>v \<in> set (invoices s'). dpProforma d = Some (ivId v) \<longrightarrow> ivStatus v = IV_CONSUMED" and
    m: "rialOf s' ''2010'' = rialOf s ''2010'' + dpRial d"
    unfolding approval_step_def by metis
  have d': "depositById s' i = Some (f d)"
    by (rule depositById_update [OF approved(3) ds]) (use f in \<open>simp add: same_request_def\<close>)
  have wb: "walletById s' j = walletById s1 j" for j by (simp add: walletById_def ws)
  have "on_grid (wGrams w)" using w wf_bank_wallets [OF bank]
    by (auto simp: walletById_def wf_wallets_def dest!: find_SomeD)
  then have "walletById s' (dpWallet d) = Some (w\<lparr>wRial := wRial w + dpRial d\<rparr>)"
    using walletAdd_row(1) [OF a w] by (simp add: wb)
  moreover have "\<forall>j. j \<noteq> dpWallet d \<longrightarrow> walletById s' j = walletById s j"
    using walletAdd_row(2) [OF a w] by (simp add: wb)
  moreover have "approveDeposit s' c2 admin2 i n2 cash2 = Inr (s', True)"
    using d' f(2) by (simp add: approveDeposit_def)
  ultimately show ?thesis
    using approved(3) st d' w f tr inv m
    by (intro exI [of _ d] exI [of _ "f d"] exI [of _ w] exI [of _ "depositTransaction (nextId s) c' d w"])
       (simp add: depositTransaction_def)
qed

lemma deposit_approval_effect_witness:
  "\<exists>s' d. approveDeposit demoReviewed deskClock 5 100 None None = Inr (s', False) \<and>
     depositById demoReviewed 100 = Some d \<and> rialOf s' ''2010'' = rialOf demoReviewed ''2010'' + dpRial d"
proof -
  let ?r = "approveDeposit demoReviewed deskClock 5 100 None None"
  have "(case ?r of Inl _ \<Rightarrow> False | Inr (_, done) \<Rightarrow> \<not> done)"
    unfolding demoReviewed_def by code_simp
  then obtain s' where r: "?r = Inr (s', False)" by (cases ?r) auto
  from deposit_approval_effect [OF wf_demoReviewed r] r show ?thesis by blast
qed

text \<open>The attempts left that a rejection reports are true: after it, the owner can upload
another receipt exactly when attempts are left.\<close>

theorem rejection_attempts_left:
  assumes "wf_desk s" and "rejectDeposit s admin i reason = Inr (s', Some k)"
    and "depositById s i = Some d"
  shows "(\<exists>s'' dup. uploadReceipt s' (dpUser d) i cs = Inr (s'', dup)) \<longleftrightarrow> 0 < k"
  using assms(2)
proof (cases rule: rejectDeposit_step)
  case 1
  then show ?thesis by simp
next
  case (2 x f)
  then have x: "x = d" using assms(3) by simp
  have wf': "wf_desk s'" using status_step_moves [OF assms(1) 2(1)] by (simp add: desk_moves_def)
  note row = status_step_row(2) [OF assms(1) 2(1)]
  have u: "dpUser (f x) = dpUser d" "dpRejections (f x) = dpRejections d + 1"
    using 2(1,2) x by (auto simp: status_step_def same_request_def)
  have "find (\<lambda>d'. dpId d' = i \<and> dpUser d' = dpUser d) (deposits s') = Some (f x)"
    by (rule find_own_deposit [OF wf' row u(1)])
  then show ?thesis using 2(2,3) u(2) x
    by (auto simp: uploadReceipt_def Let_def canTransition_def MAX_REJECTIONS_def)
qed

lemma rejection_attempts_left_witness:
  "\<exists>s'. rejectDeposit demoReviewed 5 100 ''blurred picture'' = Inr (s', Some 2) \<and>
     (\<exists>s'' dup. uploadReceipt s' 11 100 ''sum2'' = Inr (s'', dup))"
proof -
  let ?r = "rejectDeposit demoReviewed 5 100 ''blurred picture''"
  have "(case ?r of Inl _ \<Rightarrow> False | Inr (_, left) \<Rightarrow> left = Some 2)"
    unfolding demoReviewed_def by code_simp
  then obtain s' where r: "?r = Inr (s', Some 2)" by (cases ?r) auto
  have "(case depositById demoReviewed 100 of None \<Rightarrow> False | Some d \<Rightarrow> dpUser d = 11)"
    unfolding demoReviewed_def by code_simp
  then obtain d where d: "depositById demoReviewed 100 = Some d" "dpUser d = 11"
    by (auto split: option.splits)
  from rejection_attempts_left [OF wf_demoReviewed r d(1), of "''sum2''"] d(2) r show ?thesis by auto
qed

text \<open>Asking for a new receipt shuts the owner out: the request is then in a status from
which no upload is allowed, so the receipt that was asked for cannot be sent, and without a
receipt on file it cannot be approved either.\<close>

theorem new_receipt_not_accepted:
  assumes "wf_desk s" and "requestNewReceipt s admin i n = Inr s'" and "depositById s i = Some d"
  shows "uploadReceipt s' (dpUser d) i cs = Inl (Conflict ''status change not allowed'') \<and>
    (\<exists>e. approveDeposit s' c admin2 i n2 cash = Inl e)"
  using assms(2)
proof (cases rule: requestNewReceipt_step)
  case (1 x f)
  then have x: "x = d" using assms(3) by simp
  have wf': "wf_desk s'" using status_step_moves [OF assms(1) 1(1)] by (simp add: desk_moves_def)
  note row = status_step_row(2) [OF assms(1) 1(1)]
  have u: "dpUser (f x) = dpUser d"
    using 1(1) x by (auto simp: status_step_def same_request_def)
  have "find (\<lambda>d'. dpId d' = i \<and> dpUser d' = dpUser d) (deposits s') = Some (f x)"
    by (rule find_own_deposit [OF wf' row u])
  then show ?thesis using 1(2) row
    by (simp add: uploadReceipt_def approveDeposit_def assertTransition_def canTransition_def)
qed

lemma new_receipt_not_accepted_witness:
  "\<exists>s'. requestNewReceipt demoReviewed 5 100 None = Inr s' \<and>
     uploadReceipt s' 11 100 ''sum2'' = Inl (Conflict ''status change not allowed'')"
proof -
  let ?r = "requestNewReceipt demoReviewed 5 100 None"
  have "(case ?r of Inl _ \<Rightarrow> False | Inr _ \<Rightarrow> True)"
    unfolding demoReviewed_def by code_simp
  then obtain s' where r: "?r = Inr s'" by (cases ?r) auto
  have "(case depositById demoReviewed 100 of None \<Rightarrow> False | Some d \<Rightarrow> dpUser d = 11)"
    unfolding demoReviewed_def by code_simp
  then obtain d where d: "depositById demoReviewed 100 = Some d" "dpUser d = 11"
    by (auto split: option.splits)
  from new_receipt_not_accepted [OF wf_demoReviewed r d(1), of "''sum2''"] d(2) r show ?thesis by auto
qed

text \<open>The limits of card-to-card and account-to-account deposits hold: an accepted new
request is between the minimum and the maximum of its method, and with it the open and approved
requests of the user by this method since midnight (UTC) stay within the daily limit.\<close>

theorem manual_deposit_within_limits:
  assumes "wf_desk s" and "createManual s c draws u m amount cardId key = Inr (s', i)"
    and "byKey s u key = Inr None" and "0 \<le> now c"
  shows "getNumber s (manualKey m ''min_amount'') 100000 \<le> of_int amount \<and>
    (0 < getNumber s (manualKey m ''max_amount'') (if m = CARD_TO_CARD then 150000000 else 0) \<longrightarrow>
       of_int amount \<le> getNumber s (manualKey m ''max_amount'') (if m = CARD_TO_CARD then 150000000 else 0)) \<and>
    (0 < getNumber s (manualKey m ''daily_limit'') 0 \<longrightarrow>
       of_int (usedDeposits s' u (methodOf m) (startOfUtcDay (now c))) \<le> getNumber s (manualKey m ''daily_limit'') 0)"
  using assms(2)
proof (cases rule: createManual_Inr)
  case old
  then show ?thesis using assms(3) by simp
next
  case (new w expires)
  from insertDeposit_moves(2) [OF assms(1) new(6,1)] obtain d where
    d: "deposits s' = deposits s @ [d]" "dpRial d = amount" "dpUser d = u" "dpMethod d = methodOf m"
      "dpStatus d = PENDING_PAYMENT" "dpCreated d = now c" by blast
  have "0 \<le> now c mod day_ms" by simp
  then have "startOfUtcDay (now c) \<le> now c" by (simp add: startOfUtcDay_def)
  then have "usedDeposits s' u (methodOf m) (startOfUtcDay (now c)) =
      usedDeposits s u (methodOf m) (startOfUtcDay (now c)) + amount"
    using d by (simp add: usedDeposits_def countedStatus_def)
  then show ?thesis using new(5)
    by (auto simp: assertManualAmount_def Let_def not_less not_le split: if_splits)
qed

lemma manual_deposit_within_limits_witness:
  "\<exists>s' i. createManual demoDesk deskClock [''00000000001''] 11 CARD_TO_CARD 400000 30 None = Inr (s', i) \<and>
     usedDeposits s' 11 MT_CARD_TO_CARD 0 \<le> 1000000"
proof -
  let ?r = "createManual demoDesk deskClock [''00000000001''] 11 CARD_TO_CARD 400000 30 None"
  have "(case ?r of Inl _ \<Rightarrow> False | Inr _ \<Rightarrow> True)" by code_simp
  then obtain s' i where r: "?r = Inr (s', i)" by (cases ?r) auto
  have "byKey demoDesk 11 None = Inr None" by (simp add: byKey_def)
  moreover have "0 \<le> now deskClock" by (simp add: deskClock_def)
  moreover have "getNumber demoDesk (manualKey CARD_TO_CARD ''daily_limit'') 0 = 1000000" by code_simp
  moreover have "startOfUtcDay (now deskClock) = 0" by (simp add: startOfUtcDay_def deskClock_def)
  ultimately have "of_int (usedDeposits s' 11 MT_CARD_TO_CARD 0) \<le> (1000000 :: rat)"
    using manual_deposit_within_limits [OF wf_demoDesk r] by simp
  then show ?thesis using r by (auto simp: of_int_le_numeral_iff)
qed

text \<open>The expiry job touches nothing but stale requests, and with at most 200 of them it
expires them all: a request that has a receipt, or is not past its date, stays exactly as it is.\<close>

theorem expiry_exact:
  assumes "wf_desk s" and "length (filter (stale c) (deposits s)) \<le> 200"
  shows "deposits (expireStaleRequests s c) =
      map (\<lambda>d. if stale c d then d\<lparr>dpStatus := EXPIRED\<rparr> else d) (deposits s) \<and>
    wallets (expireStaleRequests s c) = wallets s"
proof -
  have "take 200 (filter (stale c) (deposits s)) = filter (stale c) (deposits s)" using assms(2) by simp
  then have "deposits (expireStaleRequests s c) =
      map (\<lambda>d. if stale c d then d\<lparr>dpStatus := EXPIRED\<rparr> else d) (deposits s)"
    using expire_deposits [OF assms(1), of c] by (auto intro: map_cong)
  moreover have "wallets (foldl expireOne s ds) = wallets s" for ds
    by (induction ds arbitrary: s) (auto simp: expireOne_def split: option.splits)
  ultimately show ?thesis by (simp add: expireStaleRequests_def)
qed

lemma expiry_exact_witness:
  "wallets (expireStaleRequests demoReviewed (deskClock\<lparr>now := 2 ^ 50\<rparr>)) = wallets demoReviewed \<and>
   map dpStatus (deposits (expireStaleRequests demoReviewed (deskClock\<lparr>now := 2 ^ 50\<rparr>))) = [UNDER_REVIEW]"
proof -
  have l: "length (filter (stale (deskClock\<lparr>now := 2 ^ 50\<rparr>)) (deposits demoReviewed)) \<le> 200"
    "map (\<lambda>d. dpStatus (if stale (deskClock\<lparr>now := 2 ^ 50\<rparr>) d then d\<lparr>dpStatus := EXPIRED\<rparr> else d))
      (deposits demoReviewed) = [UNDER_REVIEW]"
    unfolding demoReviewed_def by code_simp+
  from expiry_exact [OF wf_demoReviewed l(1)] l(2) show ?thesis by (simp add: comp_def)
qed

text \<open>A tracking id has sixteen digits with a correct check digit and belongs to no earlier
request, for every outcome of the random digits.\<close>

theorem tracking_id_valid:
  assumes "generate s draws = Inr t" and "\<forall>b \<in> set draws. length b = 11 \<and> list_all is_digit b"
  shows "length t = 16 \<and> isValidLuhn t \<and> (\<forall>d \<in> set (deposits s). dpTracking d \<noteq> t)"
  using generate_valid [OF assms] by auto

lemma tracking_id_valid_witness:
  "\<exists>t. generate demoReviewed [''00000000001'', ''00000000002''] = Inr t \<and> isValidLuhn t"
proof -
  let ?r = "generate demoReviewed [''00000000001'', ''00000000002'']"
  have "(case ?r of Inl _ \<Rightarrow> False | Inr _ \<Rightarrow> True)" unfolding demoReviewed_def by code_simp
  then obtain t where r: "?r = Inr t" by (cases ?r) auto
  have "\<forall>b \<in> set [''00000000001'', ''00000000002'']. length b = 11 \<and> list_all is_digit b"
    by (simp add: is_digit_def)
  from tracking_id_valid [OF r this] r show ?thesis by blast
qed

end
