(* ===== verification/Price.thy ===== *)
theory Price
  imports Prelude
begin

section \<open>The gold price\<close>

text \<open>
  \<open>api/src/market/price.service.ts\<close>: the job that fetches the price every thirty seconds behind
  a circuit breaker, the check that holds back a price that jumps too far from the last one until
  three fetches confirm it, the cache with its time to live, and the quote offered for trading.
  The answer of the price source (already parsed) is an argument; the cache is assumed to answer.
  Of the fields of the service, \<open>isFetching\<close> is false between two runs of the job and is left out.
  The history of prices and the push to the web clients are not modelled.
\<close>

subsection \<open>State\<close>

definition SUSPECT_FLAG_TTL_SECONDS :: int where "SUSPECT_FLAG_TTL_SECONDS = 120"
definition DEFAULT_MAX_JUMP_PERCENT :: rat where "DEFAULT_MAX_JUMP_PERCENT = 5"
definition JUMP_CONFIRMATIONS :: nat where "JUMP_CONFIRMATIONS = 3"
definition JUMP_CONFIRM_TOLERANCE :: rat where "JUMP_CONFIRM_TOLERANCE = 1 / 100"
definition REFERENCE_MAX_AGE_MS :: int where "REFERENCE_MAX_AGE_MS = 30 * 60 * 1000"
definition REDIS_TTL_SECONDS :: int where "REDIS_TTL_SECONDS = 35"
definition TALASEA_TO_RIAL_FACTOR :: rat where "TALASEA_TO_RIAL_FACTOR = 10000"
definition MAX_FAILURES_BEFORE_BACKOFF :: nat where "MAX_FAILURES_BEFORE_BACKOFF = 5"
definition BACKOFF_MS :: int where "BACKOFF_MS = 5 * 60 * 1000"

text \<open>A price offered to callers (the cached payload and the tradable quote).\<close>

record price_quote =
  qPrice :: int
  qFetched :: int
  qDisableBuy :: bool
  qDisableSell :: bool

text \<open>The parsed answer of the source, in thousands of tomans; \<open>None\<close> for a price that is no number.\<close>

record source_quote =
  sqPrice :: "rat option"
  sqDisableBuy :: bool
  sqDisableSell :: bool

record price_state =
  psCache :: "(price_quote \<times> int) option"
  psSuspect :: "int option"
  psMarket :: "(int \<times> int) option"
  psFailures :: nat
  psOpened :: "int option"
  psPending :: "(int \<times> nat) option"

text \<open>An entry of the cache with its expiry.\<close>

definition alive :: "int \<Rightarrow> int \<Rightarrow> bool" where
  "alive t expires \<longleftrightarrow> t < expires"

subsection \<open>The circuit breaker\<close>

definition isCircuitOpen :: "price_state \<Rightarrow> int \<Rightarrow> bool \<times> price_state" where
  "isCircuitOpen p t =
     (case psOpened p of
        None \<Rightarrow> (False, p)
      | Some t0 \<Rightarrow>
          if BACKOFF_MS \<le> t - t0 then (False, p\<lparr>psOpened := None, psFailures := 0\<rparr>) else (True, p))"

definition registerFailure :: "price_state \<Rightarrow> int \<Rightarrow> price_state" where
  "registerFailure p t =
     (let n = psFailures p + 1 in
      if MAX_FAILURES_BEFORE_BACKOFF \<le> n \<and> psOpened p = None
      then p\<lparr>psFailures := n, psOpened := Some t\<rparr> else p\<lparr>psFailures := n\<rparr>)"

definition fetchFromTalasea ::
  "price_state \<Rightarrow> int \<Rightarrow> source_quote option \<Rightarrow> (rat \<times> bool \<times> bool) option \<times> price_state" where
  "fetchFromTalasea p t answer =
     (case answer of
        None \<Rightarrow> (None, registerFailure p t)
      | Some q \<Rightarrow>
          (case sqPrice q of
             None \<Rightarrow> (None, registerFailure p t)
           | Some x \<Rightarrow>
               if x \<le> 0 then (None, registerFailure p t)
               else (Some (x, sqDisableBuy q, sqDisableSell q), p\<lparr>psFailures := 0, psOpened := None\<rparr>)))"

subsection \<open>Jumps of the price\<close>

definition jumpPercent :: "int \<Rightarrow> int \<Rightarrow> rat" where
  "jumpPercent price reference = \<bar>of_int price - of_int reference\<bar> / of_int reference * 100"

definition acceptPrice :: "price_state \<Rightarrow> bool \<times> price_state" where
  "acceptPrice p = (True, p\<lparr>psPending := None, psSuspect := None\<rparr>)"

text \<open>Division by a pending price of zero gives infinity or no number, which is within no tolerance.\<close>

definition confirms :: "int \<Rightarrow> int \<Rightarrow> bool" where
  "confirms price pending \<longleftrightarrow>
     pending \<noteq> 0 \<and> \<bar>of_int price - of_int pending\<bar> / of_int pending \<le> JUMP_CONFIRM_TOLERANCE"

definition nextPending :: "(int \<times> nat) option \<Rightarrow> int \<Rightarrow> int \<times> nat" where
  "nextPending pending price =
     (case pending of
        None \<Rightarrow> (price, 1)
      | Some (p, n) \<Rightarrow> if confirms price p then (p, n + 1) else (price, 1))"

definition passesDeviationCheck :: "price_state \<Rightarrow> rat \<Rightarrow> int \<Rightarrow> int \<Rightarrow> bool \<times> price_state" where
  "passesDeviationCheck p maxJump t price =
     (case psMarket p of
        None \<Rightarrow> acceptPrice p
      | Some (reference, fetched) \<Rightarrow>
          if maxJump \<le> 0 \<or> REFERENCE_MAX_AGE_MS < t - fetched then acceptPrice p
          else if reference \<le> 0 then acceptPrice p
          else if jumpPercent price reference \<le> maxJump then acceptPrice p
          else
            (let (q, n) = nextPending (psPending p) price in
             if JUMP_CONFIRMATIONS \<le> n then acceptPrice (p\<lparr>psPending := Some (q, n)\<rparr>)
             else (False, p\<lparr>psPending := Some (q, n), psSuspect := Some (t + SUSPECT_FLAG_TTL_SECONDS * 1000)\<rparr>)))"

subsection \<open>The job and the quotes\<close>

definition fetchAndStorePrice :: "rat \<Rightarrow> price_state \<Rightarrow> int \<times> source_quote option \<Rightarrow> price_state" where
  "fetchAndStorePrice maxJump p e =
     (case e of (t, answer) \<Rightarrow>
      (case isCircuitOpen p t of
         (True, p1) \<Rightarrow> p1
       | (False, p1) \<Rightarrow>
           (case fetchFromTalasea p1 t answer of
              (None, p2) \<Rightarrow> p2
            | (Some (x, noBuy, noSell), p2) \<Rightarrow>
                (let price = round_half_up (x * TALASEA_TO_RIAL_FACTOR) in
                 (case passesDeviationCheck p2 maxJump t price of
                    (False, p3) \<Rightarrow> p3
                  | (True, p3) \<Rightarrow>
                      p3\<lparr>psMarket := Some (price, t),
                         psCache := Some (\<lparr>qPrice = price, qFetched = t, qDisableBuy = noBuy,
                                           qDisableSell = noSell\<rparr>, t + REDIS_TTL_SECONDS * 1000)\<rparr>)))))"

definition fromMarket :: "price_state \<Rightarrow> price_quote option" where
  "fromMarket p =
     (case psMarket p of
        None \<Rightarrow> None
      | Some (price, fetched) \<Rightarrow>
          Some \<lparr>qPrice = price, qFetched = fetched, qDisableBuy = False, qDisableSell = False\<rparr>)"

definition getGoldPriceResponse :: "price_state \<Rightarrow> int \<Rightarrow> price_quote option" where
  "getGoldPriceResponse p t =
     (case psCache p of
        Some (q, expires) \<Rightarrow> if alive t expires then Some q else fromMarket p
      | None \<Rightarrow> fromMarket p)"

definition getTradableGoldQuote :: "price_state \<Rightarrow> int \<Rightarrow> price_quote option" where
  "getTradableGoldQuote p t =
     (if (case psSuspect p of None \<Rightarrow> False | Some expires \<Rightarrow> alive t expires) then None
      else getGoldPriceResponse p t)"

text \<open>Reading the current price puts what it took from the database into the cache.\<close>

definition getCurrentGoldPriceDecimal :: "price_state \<Rightarrow> int \<Rightarrow> int option \<times> price_state" where
  "getCurrentGoldPriceDecimal p t =
     (case (case psCache p of
              Some (q, expires) \<Rightarrow> if alive t expires then Some q else None
            | None \<Rightarrow> None) of
        Some q \<Rightarrow> (Some (qPrice q), p)
      | None \<Rightarrow>
          (case fromMarket p of
             None \<Rightarrow> (None, p)
           | Some q \<Rightarrow> (Some (qPrice q), p\<lparr>psCache := Some (q, t + REDIS_TTL_SECONDS * 1000)\<rparr>)))"

subsection \<open>What a run of the job changes\<close>

lemmas price_constants = SUSPECT_FLAG_TTL_SECONDS_def DEFAULT_MAX_JUMP_PERCENT_def JUMP_CONFIRMATIONS_def
  JUMP_CONFIRM_TOLERANCE_def REFERENCE_MAX_AGE_MS_def REDIS_TTL_SECONDS_def TALASEA_TO_RIAL_FACTOR_def
  MAX_FAILURES_BEFORE_BACKOFF_def BACKOFF_MS_def

text \<open>
  The breaker is open when five or more failures are counted (that they came in a row is \<open>streak\<close> below), and a
  pending jump has fewer than three confirmations.
\<close>

definition wf_price :: "price_state \<Rightarrow> bool" where
  "wf_price p \<longleftrightarrow>
     (psOpened p = None \<longleftrightarrow> psFailures p < MAX_FAILURES_BEFORE_BACKOFF) \<and>
     (\<forall>q n. psPending p = Some (q, n) \<longrightarrow> 0 \<le> q \<and> 0 < n \<and> n < JUMP_CONFIRMATIONS) \<and>
     (\<forall>q t. psMarket p = Some (q, t) \<longrightarrow> 0 \<le> q) \<and>
     (\<forall>q t. psCache p = Some (q, t) \<longrightarrow> 0 \<le> qPrice q)"


lemma isCircuitOpen_cases:
  "isCircuitOpen p t = (True, p) \<and> (\<exists>t0. psOpened p = Some t0 \<and> t - t0 < BACKOFF_MS) \<or>
   isCircuitOpen p t = (False, p) \<and> psOpened p = None \<or>
   isCircuitOpen p t = (False, p\<lparr>psOpened := None, psFailures := 0\<rparr>) \<and>
     (\<exists>t0. psOpened p = Some t0 \<and> BACKOFF_MS \<le> t - t0)"
  by (cases "psOpened p") (auto simp: isCircuitOpen_def)

lemma isCircuitOpen_keeps:
  "isCircuitOpen p t = (b, p') \<Longrightarrow> psCache p' = psCache p \<and> psSuspect p' = psSuspect p \<and>
     psMarket p' = psMarket p \<and> psPending p' = psPending p"
  using isCircuitOpen_cases [of p t] by auto

lemma fetchFromTalasea_keeps:
  "fetchFromTalasea p t answer = (r, p') \<Longrightarrow> psCache p' = psCache p \<and> psSuspect p' = psSuspect p \<and>
     psMarket p' = psMarket p \<and> psPending p' = psPending p"
  by (auto simp: fetchFromTalasea_def registerFailure_def Let_def split: option.splits if_splits)

text \<open>A run of the job, by its outcome.\<close>

lemma fetch_cases:
  obtains (quiet) "psCache (fetchAndStorePrice maxJump p (t, answer)) = psCache p"
      "psSuspect (fetchAndStorePrice maxJump p (t, answer)) = psSuspect p"
      "psMarket (fetchAndStorePrice maxJump p (t, answer)) = psMarket p"
      "psPending (fetchAndStorePrice maxJump p (t, answer)) = psPending p"
      "psOpened p \<noteq> None \<or> (\<forall>q x. answer = Some q \<longrightarrow> sqPrice q = Some x \<longrightarrow> x \<le> 0)"
  | (checked) p2 x noBuy noSell price ok p3 where
      "fetchFromTalasea (snd (isCircuitOpen p t)) t answer = (Some (x, noBuy, noSell), p2)"
      "0 < x" "price = round_half_up (x * TALASEA_TO_RIAL_FACTOR)"
      "psCache p2 = psCache p" "psSuspect p2 = psSuspect p" "psMarket p2 = psMarket p" "psPending p2 = psPending p"
      "psOpened p2 = None" "psFailures p2 = 0"
      "passesDeviationCheck p2 maxJump t price = (ok, p3)"
      "fetchAndStorePrice maxJump p (t, answer) =
         (if ok then p3\<lparr>psMarket := Some (price, t),
            psCache := Some (\<lparr>qPrice = price, qFetched = t, qDisableBuy = noBuy, qDisableSell = noSell\<rparr>,
                             t + REDIS_TTL_SECONDS * 1000)\<rparr> else p3)"
proof -
  obtain b p1 where c: "isCircuitOpen p t = (b, p1)" by fastforce
  obtain r p2 where f: "fetchFromTalasea p1 t answer = (r, p2)" by fastforce
  note k1 = isCircuitOpen_keeps [OF c] and k2 = fetchFromTalasea_keeps [OF f]
  show thesis
  proof (cases "b \<or> r = None")
    case True
    have bad: "psOpened p \<noteq> None \<or> (\<forall>q x. answer = Some q \<longrightarrow> sqPrice q = Some x \<longrightarrow> x \<le> 0)"
    proof (cases b)
      case True
      then show ?thesis using c isCircuitOpen_cases [of p t] by auto
    next
      case False
      then have "r = None" using True by simp
      then show ?thesis using f by (auto simp: fetchFromTalasea_def split: option.splits if_splits)
    qed
    show thesis using True quiet [OF _ _ _ _ bad] c f k1 k2
      by (cases b) (auto simp: fetchAndStorePrice_def)
  next
    case False
    then obtain x noBuy noSell where r: "r = Some (x, noBuy, noSell)" by (cases r) auto
    have x: "0 < x" "psOpened p2 = None" "psFailures p2 = 0"
      using f r by (auto simp: fetchFromTalasea_def split: option.splits if_splits)
    obtain ok p3 where d: "passesDeviationCheck p2 maxJump t (round_half_up (x * TALASEA_TO_RIAL_FACTOR)) = (ok, p3)"
      by fastforce
    show thesis
      by (rule checked [of x noBuy noSell p2 "round_half_up (x * TALASEA_TO_RIAL_FACTOR)" ok p3])
         (use False c f r d x k1 k2 in \<open>auto simp: fetchAndStorePrice_def Let_def split: bool.splits\<close>)
  qed
qed

text \<open>The check, by its outcome.\<close>

lemma passes_cases:
  assumes "passesDeviationCheck p maxJump t price = (ok, p')"
  obtains (accepted) "ok" "psPending p' = None" "psSuspect p' = None" "psMarket p' = psMarket p"
      "psCache p' = psCache p" "psOpened p' = psOpened p" "psFailures p' = psFailures p"
      "\<And>reference fetched. psMarket p = Some (reference, fetched) \<Longrightarrow> 0 < maxJump \<Longrightarrow>
         t - fetched \<le> REFERENCE_MAX_AGE_MS \<Longrightarrow> 0 < reference \<Longrightarrow>
         jumpPercent price reference \<le> maxJump \<or>
         (\<exists>q n. psPending p = Some (q, n) \<and> JUMP_CONFIRMATIONS \<le> n + 1 \<and> confirms price q)"
  | (held) reference fetched q n where "\<not> ok" "psMarket p = Some (reference, fetched)"
      "maxJump < jumpPercent price reference" "nextPending (psPending p) price = (q, n)" "n < JUMP_CONFIRMATIONS"
      "p' = p\<lparr>psPending := Some (q, n), psSuspect := Some (t + SUSPECT_FLAG_TTL_SECONDS * 1000)\<rparr>"
proof (cases ok)
  case True
  have c: "JUMP_CONFIRMATIONS \<le> n \<Longrightarrow> nextPending m price = (q, n) \<Longrightarrow>
      \<exists>q n. m = Some (q, n) \<and> JUMP_CONFIRMATIONS \<le> n + 1 \<and> confirms price q" for m q n
    by (auto simp: nextPending_def JUMP_CONFIRMATIONS_def split: option.splits if_splits)
  show thesis
    by (rule accepted)
       (use True assms c in \<open>auto simp: passesDeviationCheck_def acceptPrice_def Let_def not_le
          split: option.splits prod.splits if_splits\<close>)
next
  case False
  then show thesis using assms held
    by (auto simp: passesDeviationCheck_def acceptPrice_def Let_def not_le
        split: option.splits prod.splits if_splits)
qed

subsection \<open>The invariant over runs of the job\<close>

lemma nextPending_bounds:
  assumes "nextPending m price = (q, n)" and "0 \<le> price" and "\<forall>q n. m = Some (q, n) \<longrightarrow> 0 \<le> q"
  shows "0 \<le> q \<and> 0 < n"
  using assms by (auto simp: nextPending_def split: option.splits if_splits)

lemma breaker_wf:
  assumes "wf_price p" and "isCircuitOpen p t = (b, p1)"
  shows "wf_price p1" and "\<not> b \<Longrightarrow> psOpened p1 = None"
  using assms isCircuitOpen_cases [of p t] by (auto simp: wf_price_def MAX_FAILURES_BEFORE_BACKOFF_def)

lemma failure_wf: "wf_price p \<Longrightarrow> psOpened p = None \<Longrightarrow> wf_price (registerFailure p t)"
  by (auto simp: wf_price_def registerFailure_def Let_def)

lemma fetchFromTalasea_None: "fetchFromTalasea p t answer = (None, p') \<Longrightarrow> p' = registerFailure p t"
  by (auto simp: fetchFromTalasea_def split: option.splits if_splits)

lemma fetch_wf:
  assumes wf: "wf_price p"
  shows "wf_price (fetchAndStorePrice maxJump p e)"
proof -
  obtain t answer where e: "e = (t, answer)" by fastforce
  obtain b p1 where c: "isCircuitOpen p t = (b, p1)" by fastforce
  obtain r p2 where f: "fetchFromTalasea p1 t answer = (r, p2)" by fastforce
  note w1 = breaker_wf [OF wf c] and k2 = fetchFromTalasea_keeps [OF f]
  show ?thesis
  proof (cases "b \<or> r = None")
    case True
    then show ?thesis using c f w1 failure_wf [OF w1(1)] fetchFromTalasea_None [of p1 t answer p2]
      by (cases b) (auto simp: fetchAndStorePrice_def e)
  next
    case False
    then obtain x noBuy noSell where r: "r = Some (x, noBuy, noSell)" by (cases r) auto
    have x: "0 < x" "psOpened p2 = None" "psFailures p2 = 0"
      using f r by (auto simp: fetchFromTalasea_def split: option.splits if_splits)
    have w2: "wf_price p2" using w1(1) k2 x(2,3) by (simp add: wf_price_def MAX_FAILURES_BEFORE_BACKOFF_def)
    let ?price = "round_half_up (x * TALASEA_TO_RIAL_FACTOR)"
    have price: "0 \<le> ?price"
      using x(1) by (intro round_half_up_nonneg) (simp add: TALASEA_TO_RIAL_FACTOR_def)
    obtain ok p3 where d: "passesDeviationCheck p2 maxJump t ?price = (ok, p3)" by fastforce
    have eq: "fetchAndStorePrice maxJump p e =
         (if ok then p3\<lparr>psMarket := Some (?price, t),
            psCache := Some (\<lparr>qPrice = ?price, qFetched = t, qDisableBuy = noBuy, qDisableSell = noSell\<rparr>,
                             t + REDIS_TTL_SECONDS * 1000)\<rparr> else p3)"
      using False c f r d by (auto simp: fetchAndStorePrice_def Let_def e split: bool.splits)
    from d show ?thesis
    proof (cases rule: passes_cases)
      case accepted
      then show ?thesis using w2 price unfolding eq by (simp add: wf_price_def)
    next
      case (held reference fetched q n)
      have "\<forall>q n. psPending p2 = Some (q, n) \<longrightarrow> 0 \<le> q" using w2 by (simp add: wf_price_def)
      from nextPending_bounds [OF held(4) price this] show ?thesis
        using held w2 price unfolding eq by (simp add: wf_price_def)
    qed
  qed
qed

interpretation price_job: service
    "\<lambda>p e. Inr (fetchAndStorePrice maxJump p e) :: price_state res" wf_price for maxJump
  by unfold_locales (auto intro: fetch_wf)

definition runJob :: "rat \<Rightarrow> price_state \<Rightarrow> (int \<times> source_quote option) list \<Rightarrow> price_state" where
  "runJob maxJump p es = foldl (fetchAndStorePrice maxJump) p es"

lemma runJob_run: "runJob maxJump p es = run (\<lambda>p e. Inr (fetchAndStorePrice maxJump p e) :: price_state res) p es"
  unfolding runJob_def by (induction es arbitrary: p) (simp_all add: try_step_def)

definition demoPrice :: price_state where
  "demoPrice = \<lparr>psCache = None, psSuspect = None, psMarket = Some (100000000, 1000), psFailures = 0,
                psOpened = None, psPending = None\<rparr>"

definition demoAnswer :: "rat \<Rightarrow> source_quote option" where
  "demoAnswer x = Some \<lparr>sqPrice = Some x, sqDisableBuy = True, sqDisableSell = False\<rparr>"

subsection \<open>The breaker over runs of the job\<close>

text \<open>An answer that the job counts as a failure.\<close>

definition failing :: "source_quote option \<Rightarrow> bool" where
  "failing answer \<longleftrightarrow> (\<forall>q x. answer = Some q \<longrightarrow> sqPrice q = Some x \<longrightarrow> x \<le> 0)"

lemma failing_simps [simp]:
  "failing None" "failing (Some q) \<longleftrightarrow> (case sqPrice q of None \<Rightarrow> True | Some x \<Rightarrow> x \<le> 0)"
  by (auto simp: failing_def split: option.split)

text \<open>One run of the job, seen from the breaker.\<close>

lemma job_open:
  assumes "psOpened p = Some t0" "t - t0 < BACKOFF_MS"
  shows "fetchAndStorePrice maxJump p (t, answer) = p"
  using assms by (simp add: fetchAndStorePrice_def isCircuitOpen_def)

lemma passes_breaker:
  assumes "passesDeviationCheck p maxJump t price = (ok, p')"
  shows "psOpened p' = psOpened p" "psFailures p' = psFailures p"
  using passes_cases [OF assms] by (metis price_state.ext_inject price_state.surjective
      price_state.update_convs(2,6) price_state.select_convs(4,5))+

lemma job_attempt:
  assumes "\<And>t0. psOpened p = Some t0 \<Longrightarrow> BACKOFF_MS \<le> t - t0"
  defines "n \<equiv> (if psOpened p = None then psFailures p else 0)"
  shows "psFailures (fetchAndStorePrice maxJump p (t, answer)) = (if failing answer then n + 1 else 0)"
    and "psOpened (fetchAndStorePrice maxJump p (t, answer)) = (if failing answer \<and> 5 \<le> n + 1 then Some t else None)"
proof -
  obtain p1 where c: "isCircuitOpen p t = (False, p1)" "psOpened p1 = None" "psFailures p1 = n"
    using isCircuitOpen_cases [of p t] assms(1) by (auto simp: n_def)
  have "psFailures (fetchAndStorePrice maxJump p (t, answer)) = (if failing answer then n + 1 else 0) \<and>
    psOpened (fetchAndStorePrice maxJump p (t, answer)) = (if failing answer \<and> 5 \<le> n + 1 then Some t else None)"
  proof (cases "failing answer")
    case True
    then have "fetchFromTalasea p1 t answer = (None, registerFailure p1 t)"
      by (cases answer) (auto simp: fetchFromTalasea_def split: option.splits)
    then show ?thesis using True c
      by (simp add: fetchAndStorePrice_def registerFailure_def Let_def MAX_FAILURES_BEFORE_BACKOFF_def)
  next
    case False
    then obtain q x where a: "answer = Some q" "sqPrice q = Some x" "\<not> x \<le> 0" by (auto simp: failing_def)
    let ?p2 = "p1\<lparr>psFailures := 0, psOpened := None\<rparr>"
    obtain ok p3 where d: "passesDeviationCheck ?p2 maxJump t (round_half_up (x * TALASEA_TO_RIAL_FACTOR)) = (ok, p3)"
      by fastforce
    have "psOpened p3 = None" "psFailures p3 = 0" using passes_breaker [OF d] by simp_all
    then show ?thesis using False a c(1) d
      by (cases ok) (simp_all add: fetchAndStorePrice_def fetchFromTalasea_def Let_def)
  qed
  then show "psFailures (fetchAndStorePrice maxJump p (t, answer)) = (if failing answer then n + 1 else 0)"
    "psOpened (fetchAndStorePrice maxJump p (t, answer)) = (if failing answer \<and> 5 \<le> n + 1 then Some t else None)"
    by blast+
qed

text \<open>
  What the state of the breaker says of the answers so far: the counter is the length of a run of failures
  at their end, and an open breaker has seen five failures in a row, the last when it opened, and after
  them only moments at which the job did not ask.
\<close>

definition streak :: "(int \<times> source_quote option) list \<Rightarrow> price_state \<Rightarrow> bool" where
  "streak es p \<longleftrightarrow>
     (case psOpened p of
        None \<Rightarrow> psFailures p < 5 \<and>
          (\<exists>pre bad. es = pre @ bad \<and> length bad = psFailures p \<and> list_all (\<lambda>e. failing (snd e)) bad)
      | Some t0 \<Rightarrow> \<exists>pre bad post. es = pre @ bad @ post \<and> length bad = 5 \<and> list_all (\<lambda>e. failing (snd e)) bad \<and>
          fst (last bad) = t0 \<and> (\<forall>e \<in> set post. fst e - t0 < BACKOFF_MS))"

lemma streak_step:
  assumes "streak es p"
  shows "streak (es @ [e]) (fetchAndStorePrice maxJump p e)"
proof -
  obtain t answer where e: "e = (t, answer)" by fastforce
  show ?thesis
  proof (cases "\<exists>t0. psOpened p = Some t0 \<and> t - t0 < BACKOFF_MS")
    case True
    then obtain t0 where t0: "psOpened p = Some t0" "t - t0 < BACKOFF_MS" by blast
    then obtain pre bad post where "es = pre @ bad @ post" "length bad = 5" "list_all (\<lambda>e. failing (snd e)) bad"
        "fst (last bad) = t0" "\<forall>e \<in> set post. fst e - t0 < BACKOFF_MS"
      using assms by (auto simp: streak_def)
    then have "\<exists>pre bad post'. es @ [e] = pre @ bad @ post' \<and> length bad = 5 \<and> list_all (\<lambda>e. failing (snd e)) bad \<and>
        fst (last bad) = t0 \<and> (\<forall>e \<in> set post'. fst e - t0 < BACKOFF_MS)"
      using t0(2) by (intro exI [where x = pre] exI [where x = bad] exI [where x = "post @ [e]"]) (auto simp: e)
    then show ?thesis using t0 by (simp add: e job_open streak_def)
  next
    case False
    define n where "n = (if psOpened p = None then psFailures p else 0)"
    note j = job_attempt [of p t maxJump answer, folded n_def]
    have j': "psFailures (fetchAndStorePrice maxJump p e) = (if failing answer then n + 1 else 0)"
      "psOpened (fetchAndStorePrice maxJump p e) = (if failing answer \<and> 5 \<le> n + 1 then Some t else None)"
      using j False by (auto simp: e not_less)
    have n: "n < 5" and "\<exists>pre bad. es = pre @ bad \<and> length bad = n \<and> list_all (\<lambda>e. failing (snd e)) bad"
      using assms by (auto simp: streak_def n_def split: option.splits)
    then obtain pre bad where b: "es = pre @ bad" "length bad = n" "list_all (\<lambda>e. failing (snd e)) bad" by blast
    show ?thesis
    proof (cases "failing answer")
      case True
      have b': "es @ [e] = pre @ (bad @ [e])" "length (bad @ [e]) = n + 1" "list_all (\<lambda>e. failing (snd e)) (bad @ [e])"
        "fst (last (bad @ [e])) = t" using b True by (simp_all add: e)
      show ?thesis
      proof (cases "5 \<le> n + 1")
        case True
        then have "length (bad @ [e]) = 5" using b'(2) n by simp
        then have "\<exists>pre bad post. es @ [e] = pre @ bad @ post \<and> length bad = 5 \<and> list_all (\<lambda>e. failing (snd e)) bad \<and>
            fst (last bad) = t \<and> (\<forall>e \<in> set post. fst e - t < BACKOFF_MS)"
          using b' by (intro exI [where x = pre] exI [where x = "bad @ [e]"] exI [where x = "[]"]) simp
        then show ?thesis using True \<open>failing answer\<close> by (simp add: streak_def j')
      next
        case False
        then show ?thesis using b'(1-3) \<open>failing answer\<close> unfolding streak_def j'
          by (simp only: if_True if_False simp_thms option.case) fastforce
      qed
    next
      case False
      then have "psOpened (fetchAndStorePrice maxJump p e) = None" "psFailures (fetchAndStorePrice maxJump p e) = 0"
        by (simp_all add: j')
      then show ?thesis by (simp add: streak_def)
    qed
  qed
qed

lemma runJob_snoc: "runJob maxJump p (es @ [e]) = fetchAndStorePrice maxJump (runJob maxJump p es) e"
  by (simp add: runJob_def)

lemma runJob_streak:
  assumes "psOpened p = None" "psFailures p = 0"
  shows "streak es (runJob maxJump p es)"
proof (induction es rule: rev_induct)
  case Nil
  then show ?case using assms by (simp add: streak_def runJob_def)
next
  case (snoc e es)
  then show ?case unfolding runJob_snoc by (rule streak_step)
qed

lemma failures_open:
  assumes "psOpened p = None" "psFailures p < 5" "list_all (\<lambda>e. failing (snd e)) bad" "5 \<le> psFailures p + length bad"
  shows "\<exists>k < length bad. psOpened (runJob maxJump p (take (Suc k) bad)) = Some (fst (bad ! k))"
  using assms
proof (induction bad arbitrary: p)
  case Nil
  then show ?case by simp
next
  case (Cons e bad)
  let ?p = "fetchAndStorePrice maxJump p e"
  have f: "failing (snd e)" "list_all (\<lambda>e. failing (snd e)) bad" using Cons.prems(3) by simp_all
  have j: "psFailures ?p = psFailures p + 1" "psOpened ?p = (if 5 \<le> psFailures p + 1 then Some (fst e) else None)"
    using job_attempt [of p "fst e" maxJump "snd e"] Cons.prems(1) f(1) by simp_all
  show ?case
  proof (cases "5 \<le> psFailures p + 1")
    case True
    then show ?thesis using j(2) by (intro exI [where x = 0]) (simp add: runJob_def)
  next
    case False
    have "5 \<le> psFailures ?p + length bad" using Cons.prems(4) j(1) by simp
    with Cons.IH [of ?p] False j f(2) obtain k where
      "k < length bad" "psOpened (runJob maxJump ?p (take (Suc k) bad)) = Some (fst (bad ! k))" by auto
    then show ?thesis by (intro exI [where x = "Suc k"]) (simp add: runJob_def)
  qed
qed

subsection \<open>Properties\<close>

text \<open>C39: Five failures in a row, and nothing less, open the circuit breaker. From a fresh start, whatever
the source answers and whenever the job runs: if the breaker is open, five answers in a row failed, the last of them at the moment
it opened, and every run since then came within five minutes of it. While it is closed, five more failing answers in a
row open it, at the latest with the fifth. While it is open and five minutes have not passed the job asks nothing and
changes nothing; and the first good answer after that, or at any time while it is closed, closes it and forgets all failures.\<close>

theorem breaker_opens_after_five:
  assumes "psOpened p = None" "psFailures p = 0"
  shows "(psOpened (runJob maxJump p es) = Some t0 \<longrightarrow>
      (\<exists>pre bad post. es = pre @ bad @ post \<and> length bad = 5 \<and> list_all (\<lambda>e. failing (snd e)) bad \<and>
         fst (last bad) = t0 \<and> (\<forall>e \<in> set post. fst e - t0 < 5 * 60 * 1000))) \<and>
    (psOpened (runJob maxJump p es) = None \<and> length again = 5 \<and> list_all (\<lambda>e. failing (snd e)) again \<longrightarrow>
      (\<exists>k < 5. psOpened (runJob maxJump p (es @ take (Suc k) again)) = Some (fst (again ! k)))) \<and>
    (psOpened (runJob maxJump p es) = Some t0 \<and> t - t0 < 5 * 60 * 1000 \<longrightarrow>
      runJob maxJump p (es @ [(t, answer)]) = runJob maxJump p es) \<and>
    (\<not> failing answer \<and> (\<forall>t0. psOpened (runJob maxJump p es) = Some t0 \<longrightarrow> 5 * 60 * 1000 \<le> t - t0) \<longrightarrow>
      psOpened (runJob maxJump p (es @ [(t, answer)])) = None \<and> psFailures (runJob maxJump p (es @ [(t, answer)])) = 0)"
proof (intro conjI impI)
  let ?q = "runJob maxJump p es"
  note s = runJob_streak [OF assms, of es maxJump]
  have ms: "BACKOFF_MS = 5 * 60 * 1000" by (simp add: BACKOFF_MS_def)
  show "\<exists>pre bad post. es = pre @ bad @ post \<and> length bad = 5 \<and> list_all (\<lambda>e. failing (snd e)) bad \<and>
      fst (last bad) = t0 \<and> (\<forall>e \<in> set post. fst e - t0 < 5 * 60 * 1000)" if "psOpened ?q = Some t0"
    using s that unfolding streak_def ms by simp
  show "\<exists>k < 5. psOpened (runJob maxJump p (es @ take (Suc k) again)) = Some (fst (again ! k))"
    if m: "psOpened ?q = None \<and> length again = 5 \<and> list_all (\<lambda>e. failing (snd e)) again"
    using failures_open [of ?q again maxJump] m s by (auto simp: runJob_def streak_def)
  show "runJob maxJump p (es @ [(t, answer)]) = ?q" if "psOpened ?q = Some t0 \<and> t - t0 < 5 * 60 * 1000"
    unfolding runJob_snoc using that by (intro job_open [where ?t0.0 = t0]) (simp_all add: ms)
  show "psOpened (runJob maxJump p (es @ [(t, answer)])) = None" "psFailures (runJob maxJump p (es @ [(t, answer)])) = 0"
    if "\<not> failing answer \<and> (\<forall>t0. psOpened ?q = Some t0 \<longrightarrow> 5 * 60 * 1000 \<le> t - t0)"
    unfolding runJob_snoc using that job_attempt [of ?q t maxJump answer] by (simp_all add: ms)
qed

text \<open>Four failures and a good answer leave the breaker closed; the fifth failure after that opens it.\<close>

definition shakyAnswers :: "(int \<times> source_quote option) list" where
  "shakyAnswers = [(0, None), (30000, None), (60000, None), (90000, None), (120000, demoAnswer 10000)]"

definition deadSource :: "(int \<times> source_quote option) list" where
  "deadSource = [(150000, None), (180000, None), (210000, None), (240000, None), (270000, None)]"

lemma breaker_opens_after_five_witness:
  "\<exists>k < 5. psOpened (runJob 5 demoPrice (shakyAnswers @ take (Suc k) deadSource)) = Some (fst (deadSource ! k))"
proof -
  have d: "psOpened demoPrice = None" "psFailures demoPrice = 0" by (simp_all add: demoPrice_def)
  have o: "psOpened (runJob 5 demoPrice shakyAnswers) = None" by code_simp
  have b: "length deadSource = 5" "list_all (\<lambda>e. failing (snd e)) deadSource" by (simp_all add: deadSource_def)
  show ?thesis using breaker_opens_after_five [OF d, of 5 shakyAnswers 0 deadSource 0 None] o b by blast
qed



text \<open>The closed-market flags of the source live only as long as the cache: when no answer
arrives for 35 seconds, the stored price is offered for trading with both flags cleared, even if the
source had stopped buying or selling with its last answer.\<close>

theorem closed_market_flag_lost:
  assumes "psMarket (fetchAndStorePrice maxJump p (t, answer)) \<noteq> psMarket p"
    and "t + 35000 \<le> t'"
  shows "\<exists>q. getTradableGoldQuote (fetchAndStorePrice maxJump p (t, answer)) t' = Some q \<and>
    \<not> qDisableBuy q \<and> \<not> qDisableSell q \<and> qFetched q = t"
proof (cases rule: fetch_cases [of maxJump p t answer])
  case quiet
  then show ?thesis using assms(1) by simp
next
  case (checked p2 x noBuy noSell price ok p3)
  from checked(10) show ?thesis
  proof (cases rule: passes_cases)
    case accepted
    then show ?thesis using assms(2)
      by (simp add: checked(11) getTradableGoldQuote_def getGoldPriceResponse_def fromMarket_def alive_def
          REDIS_TTL_SECONDS_def)
  next
    case (held reference' fetched' q n)
    then show ?thesis using assms(1) checked(6) by (simp add: checked(11))
  qed
qed

lemma closed_market_flag_lost_witness:
  "\<exists>q. getTradableGoldQuote (fetchAndStorePrice 5 demoPrice (31000, demoAnswer 10001)) 70000 = Some q \<and>
     \<not> qDisableBuy q"
proof -
  have "psMarket (fetchAndStorePrice 5 demoPrice (31000, demoAnswer 10001)) \<noteq> psMarket demoPrice" by code_simp
  moreover have "(31000::int) + 35000 \<le> 70000" by simp
  ultimately show ?thesis using closed_market_flag_lost by blast
qed

end
