(* ===== verification/Trading.thy ===== *)
theory Trading
  imports Banking Deposit Price
begin

section \<open>Buying and selling gold\<close>

text \<open>
  \<open>api/src/market/trading.service.ts\<close>: the price lock, which fixes price, fee and tax for a short
  time, and the order, which uses the lock once, moves rial and gold between the wallet of the user
  and the books, and is reported to the supervisor. The record \<open>market\<close> adds the locks, the orders
  and the state of the price service to the tables of the wallets and deposits. Gram amounts of
  locks and orders are kept in ten-thousandths of a gram, the unit of their columns. The supervisor
  (\<open>zarpayesh\<close>) is an argument: its reply, or nothing when reporting is off. The form data shown to
  the user and the list of orders are not modelled.
\<close>

subsection \<open>Tables\<close>

datatype metal = GOLD | SILVER

datatype order_side = BUY | SELL

datatype order_status = OR_PENDING | OR_COMPLETED | OR_CANCELLED

record price_lock =
  plId :: nat
  plUser :: nat
  plMetal :: metal
  plUnits :: int
  plSide :: order_side
  plPrice :: int
  plFee :: int
  plTax :: int
  plExpires :: int
  plUsed :: bool

record order =
  orId :: nat
  orUser :: nat
  orLock :: "nat option"
  orSide :: order_side
  orUnits :: int
  orPrice :: int
  orTotal :: int
  orFee :: int
  orTax :: int
  orStatus :: order_status

record market = desk +
  priceLocks :: "price_lock list"
  orders :: "order list"
  prices :: price_state

record trade_config =
  tcMin :: rat
  tcMax :: rat
  tcSpread :: rat
  tcLockSec :: rat
  tcFee :: rat
  tcTax :: rat
  tcMaxAge :: rat
  tcRespect :: bool

subsection \<open>Amounts\<close>

definition roundRial :: "rat \<Rightarrow> int" where
  "roundRial v = round_half_up v"

definition feeKey :: "order_side \<Rightarrow> string" where
  "feeKey sd = (if sd = BUY then ''fee.buy_gold'' else ''fee.sell_gold'')"

definition taxKey :: "order_side \<Rightarrow> string" where
  "taxKey sd = (if sd = BUY then ''tax.buy'' else ''tax.sell'')"

definition netPayable :: "order_side \<Rightarrow> int \<Rightarrow> int \<Rightarrow> int \<Rightarrow> int" where
  "netPayable sd gross fee tax = (if sd = BUY then gross + fee + tax else gross - fee - tax)"

definition computeAmounts :: "order_side \<Rightarrow> rat \<Rightarrow> int \<Rightarrow> rat \<Rightarrow> rat \<Rightarrow> int \<times> int \<times> int \<times> int" where
  "computeAmounts sd grams price feePercent taxPercent =
     (let gross = roundRial (grams * of_int price);
          fee = roundRial (of_int gross * feePercent / 100);
          tax = roundRial (of_int gross * taxPercent / 100) in
      (gross, fee, tax, netPayable sd gross fee tax))"

definition getTradeConfig :: "'a ledger_scheme \<Rightarrow> order_side \<Rightarrow> trade_config" where
  "getTradeConfig s sd =
     \<lparr>tcMin = getNumber s ''trade.gold.min_grams'' (1/10),
      tcMax = getNumber s ''trade.gold.max_grams'' 1000,
      tcSpread = getNumber s ''trade.gold.spread_percent'' 0,
      tcLockSec = min (max (getNumber s ''trade.lock_duration_seconds'' 120) 30) 600,
      tcFee = getNumber s (feeKey sd) 1, tcTax = getNumber s (taxKey sd) 0,
      tcMaxAge = max (getNumber s ''trade.gold.max_price_age_seconds'' 180) 60,
      tcRespect = getBoolean s ''trade.gold.respect_source_disable'' True\<rparr>"

definition effectivePrice :: "order_side \<Rightarrow> int \<Rightarrow> rat \<Rightarrow> int" where
  "effectivePrice sd price spread =
     (if sd = BUY then round_up (of_int price * (1 + spread / 100))
      else round_down (of_int price * (1 - spread / 100)))"

subsection \<open>Checks\<close>

definition assertServiceEnabled :: "'a ledger_scheme \<Rightarrow> unit res" where
  "assertServiceEnabled s =
     (if \<not> getBoolean s ''service.melted_gold.enabled'' True
      then Inl (Forbidden ''service disabled'') else Inr ())"

definition assertUserVerified :: "'a bank_scheme \<Rightarrow> nat \<Rightarrow> unit res" where
  "assertUserVerified s u =
     (case find (\<lambda>x. uId x = u) (users s) of
        None \<Rightarrow> Inl (NotFound ''user'')
      | Some x \<Rightarrow>
          if uStatus x \<noteq> ACTIVE then Inl (Forbidden ''account not active'')
          else if uIdentity x \<noteq> Some ID_VERIFIED then Inl (Forbidden ''identity not verified'')
          else Inr ())"

definition sideType :: "order_side \<Rightarrow> transaction_type" where
  "sideType sd = (if sd = BUY then BUY_GOLD else SELL_GOLD)"

definition assertWithinDailyLimit ::
  "'a bank_scheme \<Rightarrow> clock \<Rightarrow> nat \<Rightarrow> order_side \<Rightarrow> rat \<Rightarrow> unit res" where
  "assertWithinDailyLimit s c u sd grams =
     (let limit = getNumber s
            (if sd = BUY then ''trade.gold.daily_buy_limit_grams'' else ''trade.gold.daily_sell_limit_grams'') 50 in
      if limit \<le> 0 then Inr ()
      else if limit < usedGrams s u (sideType sd) {TX_COMPLETED} (today c) + grams
      then Inl (BadRequest ''daily trade limit'') else Inr ())"

definition assertWithinMonthlyLimit ::
  "'a bank_scheme \<Rightarrow> clock \<Rightarrow> nat \<Rightarrow> order_side \<Rightarrow> rat \<Rightarrow> unit res" where
  "assertWithinMonthlyLimit s c u sd grams =
     (let limit = getNumber s
            (if sd = BUY then ''trade.gold.monthly_buy_limit_grams'' else ''trade.gold.monthly_sell_limit_grams'') 500 in
      if limit \<le> 0 then Inr ()
      else if limit < usedGrams s u (sideType sd) {TX_COMPLETED} (firstOfMonth c) + grams
      then Inl (BadRequest ''monthly trade limit'') else Inr ())"

subsection \<open>The price lock\<close>

text \<open>
  \<open>reportable\<close> is \<open>None\<close> when reporting to the supervisor is off, otherwise whether the user can
  be reported; then grams are cut to whole milligrams, else to the four decimals of the column.
\<close>

definition lockUnits :: "unit res option \<Rightarrow> rat \<Rightarrow> int" where
  "lockUnits reportable grams =
     (if reportable = None then round_down (grams * 10000) else round_down (grams * 1000) * 10)"

definition checkQuote :: "trade_config \<Rightarrow> clock \<Rightarrow> order_side \<Rightarrow> price_quote option \<Rightarrow> int res" where
  "checkQuote cfg c sd quote =
     (case quote of
        None \<Rightarrow> Inl (BadRequest ''no price'')
      | Some q \<Rightarrow>
          if qPrice q \<le> 0 then Inl (BadRequest ''no price'')
          else if tcMaxAge cfg < of_int (now c - qFetched q) / 1000 then Inl (BadRequest ''stale price'')
          else if tcRespect cfg \<and> (if sd = BUY then qDisableBuy q else qDisableSell q)
          then Inl (BadRequest ''market closed'')
          else Inr (qPrice q))"

definition lockPrice ::
  "'a market_scheme \<Rightarrow> clock \<Rightarrow> unit res option \<Rightarrow> nat \<Rightarrow> order_side \<Rightarrow> rat \<Rightarrow> ('a market_scheme \<times> nat) res" where
  "lockPrice s c reportable u sd grams =
     (case assertUserVerified s u of Inl e \<Rightarrow> Inl e | Inr _ \<Rightarrow>
     (case assertServiceEnabled s of Inl e \<Rightarrow> Inl e | Inr _ \<Rightarrow>
      if grams \<le> 0 then Inl (BadRequest ''amount'')
      else if 1000000 < grams then Inl (BadRequest ''amount out of range'')
      else
      (case (case reportable of None \<Rightarrow> Inr () | Some r \<Rightarrow> r) of Inl e \<Rightarrow> Inl e | Inr _ \<Rightarrow>
       (let units = lockUnits reportable grams; g = gramsOfUnits units; cfg = getTradeConfig s sd in
        if units \<le> 0 then Inl (BadRequest ''amount'')
        else if g < tcMin cfg then Inl (BadRequest ''below the minimum'')
        else if tcMax cfg < g then Inl (BadRequest ''above the maximum'')
        else
        (case assertWithinDailyLimit s c u sd g of Inl e \<Rightarrow> Inl e | Inr _ \<Rightarrow>
        (case assertWithinMonthlyLimit s c u sd g of Inl e \<Rightarrow> Inl e | Inr _ \<Rightarrow>
        (case checkQuote cfg c sd (getTradableGoldQuote (prices s) (now c)) of Inl e \<Rightarrow> Inl e | Inr current \<Rightarrow>
         (let price = effectivePrice sd current (tcSpread cfg) in
          if price \<le> 0 then Inl (BadRequest ''price calculation'')
          else
          (case computeAmounts sd g price (tcFee cfg) (tcTax cfg) of (gross, fee, tax, payable) \<Rightarrow>
           if sd = SELL \<and> payable < 0 then Inl (BadRequest ''price calculation'')
           else
             (let i = nextId s in
              Inr (s\<lparr>nextId := i + 1, priceLocks := priceLocks s @
                     [\<lparr>plId = i, plUser = u, plMetal = GOLD, plUnits = units, plSide = sd, plPrice = price,
                       plFee = fee, plTax = tax, plExpires = now c + \<lfloor>tcLockSec cfg * 1000\<rfloor>,
                       plUsed = False\<rparr>]\<rparr>, i)))))))))))"

subsection \<open>The order\<close>

definition lockById :: "'a market_scheme \<Rightarrow> nat \<Rightarrow> price_lock option" where
  "lockById s i = find (\<lambda>l. plId l = i) (priceLocks s)"

text \<open>The amounts of an order: those of the lock, or with today's rates when both are zero.\<close>

definition orderFees :: "'a ledger_scheme \<Rightarrow> price_lock \<Rightarrow> int \<times> int" where
  "orderFees s l =
     (if plFee l = 0 \<and> plTax l = 0
      then (case computeAmounts (plSide l) (gramsOfUnits (plUnits l)) (plPrice l)
              (getNumber s (feeKey (plSide l)) 1) (getNumber s (taxKey (plSide l)) 0) of
              (_, fee, tax, _) \<Rightarrow> (fee, tax))
      else (plFee l, plTax l))"

definition tradeTransaction ::
  "nat \<Rightarrow> clock \<Rightarrow> wallet \<Rightarrow> transaction_type \<Rightarrow> int \<Rightarrow> rat option \<Rightarrow> int option \<Rightarrow> int option \<Rightarrow> int option
     \<Rightarrow> nat option \<Rightarrow> transaction" where
  "tradeTransaction i c w ty rial grams price fee tax related =
     \<lparr>tId = i, tUser = wUser w, tWallet = wId w, tType = ty, tStatus = TX_COMPLETED, tRial = Some rial,
      tGrams = grams, tPrice = price, tFee = fee, tTax = tax, tCreated = now c, tRelated = related, tShopOrder = None\<rparr>"

definition bothLine :: "string \<Rightarrow> side \<Rightarrow> int \<Rightarrow> rat \<Rightarrow> line_input" where
  "bothLine code sd rial grams =
     \<lparr>liCode = code, liSide = sd, liRial = Some rial, liGrams = Some grams, liDescription = None\<rparr>"

definition tradeLines :: "order_side \<Rightarrow> int \<Rightarrow> rat \<Rightarrow> int \<Rightarrow> int \<Rightarrow> line_input list" where
  "tradeLines sd gross grams fee tax =
     (if sd = BUY
      then [journalLine ''2010'' DEBIT (gross + fee + tax), bothLine ''2020'' CREDIT gross grams,
            gramLine ''1090'' DEBIT grams]
      else [bothLine ''2020'' DEBIT gross grams, journalLine ''2010'' CREDIT (gross - fee - tax),
            gramLine ''1090'' CREDIT grams])
     @ (if 0 < fee then [journalLine ''4010'' CREDIT fee] else [])
     @ (if 0 < tax then [journalLine ''2030'' CREDIT tax] else [])"

definition postDoubleEntryAccounting ::
  "'a ledger_scheme \<Rightarrow> clock \<Rightarrow> order_side \<Rightarrow> nat \<Rightarrow> int \<Rightarrow> rat \<Rightarrow> int \<Rightarrow> int \<Rightarrow> ('a ledger_scheme \<times> nat) res" where
  "postDoubleEntryAccounting s c sd orderId gross grams fee tax =
     postJournal s (now c)
       \<lparr>jiDescription = ''gold order'', jiTotalRial = gross, jiTotalGrams = grams,
        jiLines = tradeLines sd gross grams fee tax, jiSource = None, jiRefType = Some ''ORDER'',
        jiRefId = Some orderId, jiEntryDate = None, jiCreatedBy = None, jiReversalOf = None,
        jiTransaction = None\<rparr>"

text \<open>The writes of an order, with the wallet and the fees found before.\<close>

definition orderWrites ::
  "'a market_scheme \<Rightarrow> clock \<Rightarrow> nat \<Rightarrow> price_lock \<Rightarrow> wallet \<Rightarrow> int \<Rightarrow> int \<Rightarrow> int \<Rightarrow> ('a market_scheme \<times> order) res" where
  "orderWrites s c u l w gross fee tax =
     (let oid = nextId s; mid = oid + 1; g = gramsOfUnits (plUnits l); sd = plSide l;
          ord = \<lparr>orId = oid, orUser = u, orLock = Some (plId l), orSide = sd, orUnits = plUnits l,
                 orPrice = plPrice l, orTotal = gross, orFee = fee, orTax = tax, orStatus = OR_COMPLETED\<rparr>;
          main = tradeTransaction mid c w (sideType sd) gross (Some g) (Some (plPrice l)) (Some fee) (Some tax) None;
          more_txs = (if 0 < fee then [tradeTransaction (oid + 2) c w FEE fee None None None None (Some mid)] else [])
                 @ (if 0 < tax then [tradeTransaction (oid + 3) c w TAX tax None None None None (Some mid)] else []);
          payable = netPayable sd gross fee tax in
      if list_ex (\<lambda>o'. orLock o' = Some (plId l)) (orders s) then Inl (DbConstraint ''P2002'')
      else
      (case walletAdd (s\<lparr>nextId := oid + 4, orders := orders s @ [ord],
                        transactions := transactions s @ main # more_txs,
                        priceLocks := update_where (\<lambda>x. plId x = plId l) (\<lambda>x. x\<lparr>plUsed := True\<rparr>) (priceLocks s)\<rparr>)
              (wId w) (if sd = BUY then - payable else payable) (if sd = BUY then g else - g) of
         Inl e \<Rightarrow> Inl e
       | Inr s1 \<Rightarrow>
           (case postDoubleEntryAccounting s1 c sd oid gross g fee tax of
              Inl e \<Rightarrow> Inl e
            | Inr (s2, _) \<Rightarrow> Inr (s2, ord))))"

text \<open>The body of the transaction.\<close>

definition orderTransaction ::
  "'a market_scheme \<Rightarrow> clock \<Rightarrow> nat \<Rightarrow> nat \<Rightarrow> ('a market_scheme \<times> order \<times> bool) res" where
  "orderTransaction s c u lockId =
     (case lockById s lockId of
        None \<Rightarrow> Inl (NotFound ''price lock'')
      | Some l \<Rightarrow>
          if plUser l \<noteq> u then Inl (Forbidden ''price_lock.not_owned'')
          else if plUsed l then
            (case find (\<lambda>o'. orLock o' = Some (plId l) \<and> orUser o' = u) (orders s) of
               Some o' \<Rightarrow> if orStatus o' = OR_COMPLETED then Inr (s, o', True)
                          else Inl (BadRequest ''price_lock.replay'')
             | None \<Rightarrow> Inl (BadRequest ''price_lock.replay''))
          else if plMetal l \<noteq> GOLD then Inl (BadRequest ''not a gold lock'')
          else if plExpires l \<le> now c then Inl (BadRequest ''price lock expired'')
          else
          (let (fee, tax) = orderFees s l; g = gramsOfUnits (plUnits l);
               gross = roundRial (g * of_int (plPrice l));
               payable = netPayable (plSide l) gross fee tax in
           (case walletOfUser s u of
              None \<Rightarrow> Inl (NotFound ''wallet'')
            | Some w \<Rightarrow>
                (case assertWithinDailyLimit s c u (plSide l) g of Inl e \<Rightarrow> Inl e | Inr _ \<Rightarrow>
                (case assertWithinMonthlyLimit s c u (plSide l) g of Inl e \<Rightarrow> Inl e | Inr _ \<Rightarrow>
                 if plSide l = BUY \<and> wRial w - heldRial s (now c) (wId w) < payable
                 then Inl (BadRequest ''insufficient balance'')
                 else if plSide l = SELL \<and> wGrams w - heldGrams s (now c) (wId w) < g
                 then Inl (BadRequest ''insufficient gold'')
                 else
                 (case orderWrites s c u l w gross fee tax of Inl e \<Rightarrow> Inl e
                  | Inr (s', ord) \<Rightarrow> Inr (s', ord, False)))))))"

fun translateDbError :: "err \<Rightarrow> err" where
  "translateDbError (Conflict m) = Internal ''order processing''"
| "translateDbError (DbConstraint m) =
     (if m = ''P2002'' then Internal ''order processing'' else BadRequest ''order processing'')"
| "translateDbError e = e"

text \<open>
  \<open>supervisor\<close> is \<open>None\<close> when reporting is off, otherwise the replies to the reservation before the
  transaction and to the approval at its end; a refused approval rolls the transaction back.
\<close>

definition createOrder ::
  "'a market_scheme \<Rightarrow> clock \<Rightarrow> (unit res \<times> unit res) option \<Rightarrow> nat \<Rightarrow> nat \<Rightarrow> ('a market_scheme \<times> order \<times> bool) res" where
  "createOrder s c supervisor u lockId =
     (case assertUserVerified s u of Inl e \<Rightarrow> Inl e | Inr _ \<Rightarrow>
      (case find (\<lambda>o'. orLock o' = Some lockId \<and> orUser o' = u \<and> orStatus o' = OR_COMPLETED) (orders s) of
         Some o' \<Rightarrow> Inr (s, o', True)
       | None \<Rightarrow>
           (case assertServiceEnabled s of Inl e \<Rightarrow> Inl e | Inr _ \<Rightarrow>
            (case (case supervisor of None \<Rightarrow> Inr () | Some (reserved, _) \<Rightarrow> reserved) of Inl e \<Rightarrow> Inl e | Inr _ \<Rightarrow>
             (case orderTransaction s c u lockId of
                Inl e \<Rightarrow> Inl (translateDbError e)
              | Inr (s', ord, done) \<Rightarrow>
                  if done then Inr (s', ord, True)
                  else
                  (case (case supervisor of None \<Rightarrow> Inr () | Some (_, approved) \<Rightarrow> approved) of
                     Inl e \<Rightarrow> Inl (translateDbError e)
                   | Inr _ \<Rightarrow> Inr (s', ord, False)))))))"

subsection \<open>What an order writes\<close>

lemma tradeLines_net:
  "netRial ''2010'' (map normalizeLine (tradeLines sd gross g fee tax)) =
     (if sd = BUY then - netPayable sd gross fee tax else netPayable sd gross fee tax)"
  "netGrams ''2020'' (map normalizeLine (tradeLines sd gross g fee tax)) = (if sd = BUY then g else - g)"
  "netGrams ''1090'' (map normalizeLine (tradeLines sd gross g fee tax)) = (if sd = BUY then g else - g)"
  by (simp_all add: tradeLines_def netPayable_def bothLine_def normalizeLine_def journalLine_def gramLine_def
      toDecimal_def deltaSign_def isDebitNature_def)

lemma orderTransaction_cases:
  assumes "orderTransaction s c u lockId = Inr (s', ord, done)"
  obtains (old) "s' = s" "done" "ord \<in> set (orders s)" "orLock ord = Some lockId" "orUser ord = u" "orStatus ord = OR_COMPLETED"
  | (new) l w fee tax gross where "\<not> done" "lockById s lockId = Some l" "plUser l = u" "\<not> plUsed l"
      "plMetal l = GOLD" "now c < plExpires l" "(fee, tax) = orderFees s l"
      "gross = roundRial (gramsOfUnits (plUnits l) * of_int (plPrice l))"
      "walletOfUser s u = Some w"
      "assertWithinDailyLimit s c u (plSide l) (gramsOfUnits (plUnits l)) = Inr ()"
      "assertWithinMonthlyLimit s c u (plSide l) (gramsOfUnits (plUnits l)) = Inr ()"
      "plSide l = BUY \<longrightarrow> netPayable BUY gross fee tax \<le> wRial w - heldRial s (now c) (wId w)"
      "plSide l = SELL \<longrightarrow> gramsOfUnits (plUnits l) \<le> wGrams w - heldGrams s (now c) (wId w)"
      "orderWrites s c u l w gross fee tax = Inr (s', ord)"
proof -
  from assms obtain l where l: "lockById s lockId = Some l" "plUser l = u"
    by (auto simp: orderTransaction_def split: if_splits)
  have lid: "plId l = lockId" using l(1) by (auto simp: lockById_def dest: find_SomeD)
  show thesis
  proof (cases "plUsed l")
    case True
    then obtain o' where f: "find (\<lambda>o'. orLock o' = Some (plId l) \<and> orUser o' = u) (orders s) = Some o'"
      using assms l by (auto simp: orderTransaction_def split: option.splits)
    then show thesis using assms l True find_SomeD [OF f] old lid
      by (auto simp: orderTransaction_def split: if_splits)
  next
    case False
    obtain fee tax where ft: "(fee, tax) = orderFees s l" by (metis surj_pair)
    then show thesis using assms l False new
      by (auto simp: orderTransaction_def Let_def not_le not_less split: if_splits prod.splits)
  qed
qed

lemma createOrder_cases:
  assumes "createOrder s c sv u lockId = Inr (s', ord, done)"
  obtains (old) "s' = s" "done" "ord \<in> set (orders s)" "orLock ord = Some lockId" "orUser ord = u" "orStatus ord = OR_COMPLETED"
  | (new) "\<not> done" "orderTransaction s c u lockId = Inr (s', ord, False)" "assertUserVerified s u = Inr ()"
      "\<forall>r. sv = Some r \<longrightarrow> r = (Inr (), Inr ())"
proof (cases "find (\<lambda>o'. orLock o' = Some lockId \<and> orUser o' = u \<and> orStatus o' = OR_COMPLETED) (orders s)")
  case (Some o')
  then show thesis using assms find_SomeD [OF Some] old by (auto simp: createOrder_def)
next
  case None
  from assms None obtain s1 o1 d1 where t: "orderTransaction s c u lockId = Inr (s1, o1, d1)"
    by (auto simp: createOrder_def split: sum.splits)
  show thesis
  proof (cases d1)
    case True
    from t [unfolded True] show thesis
    proof (cases rule: orderTransaction_cases)
      case old
      then show thesis using None assms t True by (auto simp: find_None_iff)
    next
      case (new l w fee tax gross)
      then show thesis using True by simp
    qed
  next
    case False
    then show thesis using assms None t new
      by (auto simp: createOrder_def split: sum.splits option.splits prod.splits)
  qed
qed

text \<open>The writes, with the state before the wallet is changed.\<close>

definition beforeWallet :: "'a market_scheme \<Rightarrow> order list \<Rightarrow> transaction list \<Rightarrow> price_lock list \<Rightarrow> 'a market_scheme" where
  "beforeWallet s os ts ls = s\<lparr>nextId := nextId s + 4, orders := os, transactions := ts, priceLocks := ls\<rparr>"

lemma orderWrites_Inr:
  assumes "orderWrites s c u l w gross fee tax = Inr (s', ord)"
  obtains s0 s1 j g rest where "g = gramsOfUnits (plUnits l)"
    "ord = \<lparr>orId = nextId s, orUser = u, orLock = Some (plId l), orSide = plSide l, orUnits = plUnits l,
            orPrice = plPrice l, orTotal = gross, orFee = fee, orTax = tax, orStatus = OR_COMPLETED\<rparr>"
    "\<forall>o' \<in> set (orders s). orLock o' \<noteq> Some (plId l)"
    "s0 = beforeWallet s (orders s @ [ord])
        (transactions s @ tradeTransaction (nextId s + 1) c w (sideType (plSide l)) gross (Some g)
            (Some (plPrice l)) (Some fee) (Some tax) None # rest)
        (update_where (\<lambda>x. plId x = plId l) (\<lambda>x. x\<lparr>plUsed := True\<rparr>) (priceLocks s))"
    "\<forall>t \<in> set rest. tType t \<in> {FEE, TAX}"
    "walletAdd s0 (wId w) (if plSide l = BUY then - netPayable (plSide l) gross fee tax
        else netPayable (plSide l) gross fee tax) (if plSide l = BUY then g else - g) = Inr s1"
    "postDoubleEntryAccounting s1 c (plSide l) (nextId s) gross g fee tax = Inr (s', j)"
proof -
  let ?g = "gramsOfUnits (plUnits l)"
  let ?rest = "(if 0 < fee then [tradeTransaction (nextId s + 2) c w FEE fee None None None None (Some (nextId s + 1))] else [])
                 @ (if 0 < tax then [tradeTransaction (nextId s + 3) c w TAX tax None None None None (Some (nextId s + 1))] else [])"
  have r: "\<forall>t \<in> set ?rest. tType t \<in> {FEE, TAX}" by (auto simp: tradeTransaction_def)
  let ?ord = "\<lparr>orId = nextId s, orUser = u, orLock = Some (plId l), orSide = plSide l, orUnits = plUnits l,
            orPrice = plPrice l, orTotal = gross, orFee = fee, orTax = tax, orStatus = OR_COMPLETED\<rparr>"
  let ?s0 = "beforeWallet s (orders s @ [?ord])
        (transactions s @ tradeTransaction (nextId s + 1) c w (sideType (plSide l)) gross (Some ?g)
            (Some (plPrice l)) (Some fee) (Some tax) None # ?rest)
        (update_where (\<lambda>x. plId x = plId l) (\<lambda>x. x\<lparr>plUsed := True\<rparr>) (priceLocks s))"
  from assms obtain s1 j where "\<not> list_ex (\<lambda>o'. orLock o' = Some (plId l)) (orders s)" and
    wa: "walletAdd ?s0 (wId w) (if plSide l = BUY then - netPayable (plSide l) gross fee tax
        else netPayable (plSide l) gross fee tax) (if plSide l = BUY then ?g else - ?g) = Inr s1" and
    po: "postDoubleEntryAccounting s1 c (plSide l) (nextId s) gross ?g fee tax = Inr (s', j)" and ord: "ord = ?ord"
    by (simp only: orderWrites_def Let_def beforeWallet_def if_Inl_Inr case_sum_Inr)
       (auto split: prod.splits)
  then have nd: "\<forall>o' \<in> set (orders s). orLock o' \<noteq> Some (plId l)" by (simp add: list_ex_iff)
  show thesis by (rule that [OF refl ord nd _ r _ po]) (use wa in \<open>simp_all only: ord\<close>)
qed

lemma postJournal_market:
  fixes s :: "'a market_scheme"
  assumes "postJournal s t p = Inr (s', j)"
  shows "orders s' = orders s" "priceLocks s' = priceLocks s" "config s' = config s"
    "configNum s' = configNum s" "prices s' = prices s"
  using postJournal_frame [OF assms] by auto

lemma orderWrites_effect:
  fixes s :: "'a market_scheme"
  assumes wf: "wf_bank s" and ow: "orderWrites s c u l w gross fee tax = Inr (s', ord)"
    and g: "g = gramsOfUnits (plUnits l)" and sd: "sd = plSide l"
    and n: "n = netPayable sd gross fee tax" and w: "walletById s (wId w) = Some w"
  shows "wf_bank s'"
    and "totalRial s' = totalRial s + (if sd = BUY then - n else n)"
    and "rialOf s' ''2010'' = rialOf s ''2010'' + (if sd = BUY then - n else n)"
    and "totalGrams s' = totalGrams s + (if sd = BUY then g else - g)"
    and "gramsOf s' ''2020'' = gramsOf s ''2020'' + (if sd = BUY then g else - g)"
    and "gramsOf s' ''1090'' = gramsOf s ''1090'' + (if sd = BUY then g else - g)"
    and "walletById s' (wId w) = Some (w\<lparr>wRial := wRial w + (if sd = BUY then - n else n),
           wGrams := wGrams w + (if sd = BUY then g else - g)\<rparr>)"
    and "i \<noteq> wId w \<Longrightarrow> walletById s' i = walletById s i"
    and "orders s' = orders s @ [ord]" and "users s' = users s" and "holds s' = holds s"
    and "priceLocks s' = update_where (\<lambda>x. plId x = plId l) (\<lambda>x. x\<lparr>plUsed := True\<rparr>) (priceLocks s)"
    and "\<exists>rest. transactions s' = transactions s @ tradeTransaction (nextId s + 1) c w (sideType sd) gross
           (Some g) (Some (plPrice l)) (Some fee) (Some tax) None # rest \<and> (\<forall>t \<in> set rest. tType t \<in> {FEE, TAX})"
    and "nextId s' = nextId s + 5"
proof -
  let ?dr = "if sd = BUY then - n else n" and ?dg = "if sd = BUY then g else - g"
  from orderWrites_Inr [OF ow] obtain s0 s1 j rest where
    s0: "s0 = beforeWallet s (orders s @ [ord])
        (transactions s @ tradeTransaction (nextId s + 1) c w (sideType sd) gross (Some g)
            (Some (plPrice l)) (Some fee) (Some tax) None # rest)
        (update_where (\<lambda>x. plId x = plId l) (\<lambda>x. x\<lparr>plUsed := True\<rparr>) (priceLocks s))" and
    rest: "\<forall>t \<in> set rest. tType t \<in> {FEE, TAX}" and
    a: "walletAdd s0 (wId w) ?dr ?dg = Inr s1" and
    po: "postDoubleEntryAccounting s1 c sd (nextId s) gross g fee tax = Inr (s', j)"
    unfolding g [symmetric] sd [symmetric] n by metis
  note p = po [unfolded postDoubleEntryAccounting_def]
  have x0: "wf_except {} s0"
    by (rule wf_except_same [OF wf [unfolded wf_bank_def]]) (simp_all add: s0 beforeWallet_def)
  have x1: "wf_except {} s1" using wf_except_walletAdd [OF x0 a] .
  show "wf_bank s'" using wf_except_post [OF x1 p] unfolding wf_bank_def .
  note fr = walletAdd_frame [OF a] and pb = postJournal_bank [OF p] postJournal_market [OF p]
  have w0: "wallets s0 = wallets s" by (simp add: s0 beforeWallet_def)
  note t0 = totals_cong [OF w0]
  have dg: "on_grid ?dg" by (simp add: g)
  note ta = walletAdd_totals(1) [OF a wf_bank_wallets [OF x0 [folded wf_bank_def]]]
    walletAdd_totals(2) [OF a wf_bank_wallets [OF x0 [folded wf_bank_def]] dg]
  show "totalRial s' = totalRial s + ?dr" "totalGrams s' = totalGrams s + ?dg"
    using totals_cong [of s' s1] pb(1) ta t0 by simp_all
  note l1 = wf_except_ledger [OF x1]
  have r1: "rialOf s1 = rialOf s" "gramsOf s1 = gramsOf s"
    by (intro ext, simp add: rialOf_def gramsOf_def fr s0 beforeWallet_def)+
  have net: "netRial ''2010'' (map normalizeLine (tradeLines sd gross g fee tax)) = ?dr"
    using tradeLines_net(1) by (simp add: n)
  have codes: "\<not> starts_with CASH_ROOT_CODE ''1090''" by (simp add: CASH_ROOT_CODE_def)
  show "rialOf s' ''2010'' = rialOf s ''2010'' + ?dr"
    using books.post_rial [OF l1 p, of "''2010''"] net by (simp add: r1)
  show "gramsOf s' ''2020'' = gramsOf s ''2020'' + ?dg" "gramsOf s' ''1090'' = gramsOf s ''1090'' + ?dg"
    using books.post_grams [OF l1 p, of "''2020''"] books.post_grams [OF l1 p, of "''1090''"] codes tradeLines_net(2,3)
    by (simp_all add: r1)
  have wb: "walletById s' k = walletById s1 k" "walletById s0 k = walletById s k" for k
    by (simp_all add: walletById_def pb w0)
  have "on_grid (wGrams w)" using w wf_bank_wallets [OF wf]
    by (auto simp: walletById_def wf_wallets_def dest!: find_SomeD)
  then have "numeric4 (wGrams w + ?dg) = wGrams w + ?dg" using dg by (intro numeric4_on_grid on_grid_add)
  then show "walletById s' (wId w) = Some (w\<lparr>wRial := wRial w + ?dr, wGrams := wGrams w + ?dg\<rparr>)"
    using walletAdd_row(1) [OF a, of w] w by (simp add: wb)
  show "walletById s' i = walletById s i" if "i \<noteq> wId w"
    using walletAdd_row(2) [OF a, of w i] w that by (simp add: wb)
  have s1: "orders s1 = orders s0" "users s1 = users s0" "priceLocks s1 = priceLocks s0"
    using a by (auto elim!: walletAdd_Inr)
  show "orders s' = orders s @ [ord]" "users s' = users s" "holds s' = holds s" "nextId s' = nextId s + 5"
    "priceLocks s' = update_where (\<lambda>x. plId x = plId l) (\<lambda>x. x\<lparr>plUsed := True\<rparr>) (priceLocks s)"
    by (simp_all add: pb s1 fr) (simp_all add: s0 beforeWallet_def)
  have "transactions s' = transactions s @ tradeTransaction (nextId s + 1) c w (sideType sd) gross
           (Some g) (Some (plPrice l)) (Some fee) (Some tax) None # rest"
    by (simp add: pb fr) (simp add: s0 beforeWallet_def)
  then show "\<exists>rest. transactions s' = transactions s @ tradeTransaction (nextId s + 1) c w (sideType sd) gross
           (Some g) (Some (plPrice l)) (Some fee) (Some tax) None # rest \<and> (\<forall>t \<in> set rest. tType t \<in> {FEE, TAX})"
    using rest by blast
qed

lemma checkQuote_Inr:
  "checkQuote cfg c sd quote = Inr price \<Longrightarrow>
     \<exists>q. quote = Some q \<and> qPrice q = price \<and> 0 < price \<and>
       of_int (now c - qFetched q) / 1000 \<le> tcMaxAge cfg \<and>
       (tcRespect cfg \<longrightarrow> \<not> (if sd = BUY then qDisableBuy q else qDisableSell q))"
  by (auto simp: checkQuote_def not_less not_le split: option.splits if_splits)

lemma lockPrice_Inr:
  assumes "lockPrice s c rep u sd grams = Inr (s', i)"
  obtains cfg units current price gross fee tax payable where
    "assertUserVerified s u = Inr ()" "0 < grams" "cfg = getTradeConfig s sd" "units = lockUnits rep grams"
    "0 < units" "tcMin cfg \<le> gramsOfUnits units" "gramsOfUnits units \<le> tcMax cfg"
    "checkQuote cfg c sd (getTradableGoldQuote (prices s) (now c)) = Inr current"
    "price = effectivePrice sd current (tcSpread cfg)" "0 < price"
    "computeAmounts sd (gramsOfUnits units) price (tcFee cfg) (tcTax cfg) = (gross, fee, tax, payable)"
    "sd = SELL \<longrightarrow> 0 \<le> payable" "i = nextId s"
    "s' = s\<lparr>nextId := i + 1, priceLocks := priceLocks s @
                     [\<lparr>plId = i, plUser = u, plMetal = GOLD, plUnits = units, plSide = sd, plPrice = price,
                       plFee = fee, plTax = tax, plExpires = now c + \<lfloor>tcLockSec cfg * 1000\<rfloor>,
                       plUsed = False\<rparr>]\<rparr>"
proof -
  let ?cfg = "getTradeConfig s sd"
  obtain current where q: "checkQuote ?cfg c sd (getTradableGoldQuote (prices s) (now c)) = Inr current"
    using assms by (cases "checkQuote ?cfg c sd (getTradableGoldQuote (prices s) (now c))")
      (auto simp: lockPrice_def Let_def)
  obtain gross fee tax payable where m: "computeAmounts sd (gramsOfUnits (lockUnits rep grams))
       (effectivePrice sd current (tcSpread ?cfg)) (tcFee ?cfg) (tcTax ?cfg) = (gross, fee, tax, payable)"
    by (rule prod_cases4)
  show thesis
    by (rule that [OF _ _ refl refl _ _ _ q refl _ m])
       (use assms q m in \<open>auto simp: lockPrice_def Let_def not_less not_le\<close>)
qed

subsection \<open>Calls and their invariant\<close>

datatype market_op =
    LockPrice "unit res option" nat order_side rat
  | PlaceOrder "(unit res \<times> unit res) option" nat nat
  | FetchPrice "source_quote option"

definition maxJumpPercent :: "'a ledger_scheme \<Rightarrow> rat" where
  "maxJumpPercent s = getNumber s ''trade.gold.max_price_jump_percent'' DEFAULT_MAX_JUMP_PERCENT"

fun market_step :: "'a market_scheme \<Rightarrow> clock \<times> market_op \<Rightarrow> 'a market_scheme res" where
  "market_step s (c, LockPrice rep u sd grams) = stateOf (lockPrice s c rep u sd grams)"
| "market_step s (c, PlaceOrder sv u lockId) = stateOf (createOrder s c sv u lockId)"
| "market_step s (c, FetchPrice answer) =
     Inr (s\<lparr>prices := fetchAndStorePrice (maxJumpPercent s) (prices s) (now c, answer)\<rparr>)"

text \<open>An order carries the terms of its lock.\<close>

definition carries :: "price_lock \<Rightarrow> order \<Rightarrow> bool" where
  "carries l o' \<longleftrightarrow>
     orLock o' = Some (plId l) \<and> orUser o' = plUser l \<and> orSide o' = plSide l \<and> orUnits o' = plUnits l \<and>
     orPrice o' = plPrice l \<and> orTotal o' = roundRial (gramsOfUnits (plUnits l) * of_int (plPrice l)) \<and>
     (plFee l \<noteq> 0 \<or> plTax l \<noteq> 0 \<longrightarrow> orFee o' = plFee l \<and> orTax o' = plTax l)"

definition wf_market :: "'a market_scheme \<Rightarrow> bool" where
  "wf_market s \<longleftrightarrow>
     wf_bank s \<and> distinct (map plId (priceLocks s)) \<and> (\<forall>l \<in> set (priceLocks s). plId l < nextId s) \<and>
     distinct (map orLock (orders s)) \<and>
     (\<forall>o' \<in> set (orders s). \<exists>l \<in> set (priceLocks s). plUsed l \<and> carries l o')"

lemma carries_used [simp]: "carries (l\<lparr>plUsed := b\<rparr>) o' = carries l o'"
  by (simp add: carries_def)

lemma wf_market_lock:
  assumes wf: "wf_market s" and r: "lockPrice s c rep u sd grams = Inr (s', i)"
  shows "wf_market s'" and "orders s' = orders s"
proof -
  from lockPrice_Inr [OF r] obtain l where s': "s' = s\<lparr>nextId := nextId s + 1, priceLocks := priceLocks s @ [l]\<rparr>"
    and l: "plId l = nextId s" by (metis price_lock.select_convs(1))
  have "wf_bank s'" unfolding wf_bank_def
    by (rule wf_except_same [of _ s]) (use wf in \<open>simp_all add: s' wf_market_def wf_bank_def\<close>)
  then show "wf_market s'" using wf l unfolding wf_market_def by (auto simp: s')
  show "orders s' = orders s" by (simp add: s')
qed

lemma lockById_in: "lockById s i = Some l \<Longrightarrow> l \<in> set (priceLocks s) \<and> plId l = i"
  unfolding lockById_def by (auto dest: find_SomeD)

lemma orderFees_kept: "(fee, tax) = orderFees s l \<Longrightarrow> plFee l \<noteq> 0 \<or> plTax l \<noteq> 0 \<Longrightarrow> fee = plFee l \<and> tax = plTax l"
  by (auto simp: orderFees_def split: if_splits)

lemma wallet_of_user_by_id:
  assumes "wf_bank s" and "walletOfUser s u = Some w"
  shows "walletById s (wId w) = Some w"
  using walletById_of [OF wf_bank_wallets [OF assms(1)]] walletOfUser_in [OF assms(2)] by blast

lemma wf_market_order:
  assumes wf: "wf_market s" and r: "orderTransaction s c u i = Inr (s', ord, False)"
  shows "wf_market s'" and "orders s' = orders s @ [ord]"
proof -
  have bank: "wf_bank s" using wf by (simp add: wf_market_def)
  from r obtain l w fee tax gross where l: "lockById s i = Some l" "plUser l = u"
    and ft: "(fee, tax) = orderFees s l" and gr: "gross = roundRial (gramsOfUnits (plUnits l) * of_int (plPrice l))"
    and w: "walletOfUser s u = Some w" and ow: "orderWrites s c u l w gross fee tax = Inr (s', ord)"
    by (cases rule: orderTransaction_cases) blast+
  note eff = orderWrites_effect [OF bank ow refl refl refl wallet_of_user_by_id [OF bank w]]
  show os: "orders s' = orders s @ [ord]" by (rule eff(9))
  from orderWrites_Inr [OF ow] have ord: "ord = \<lparr>orId = nextId s, orUser = u, orLock = Some (plId l), orSide = plSide l, orUnits = plUnits l,
            orPrice = plPrice l, orTotal = gross, orFee = fee, orTax = tax, orStatus = OR_COMPLETED\<rparr>"
    and fresh: "\<forall>o' \<in> set (orders s). orLock o' \<noteq> Some (plId l)" by metis+
  have c: "carries l ord" using l(2) gr orderFees_kept [OF ft] by (simp add: carries_def ord)
  have ls: "priceLocks s' = update_where (\<lambda>x. plId x = plId l) (\<lambda>x. x\<lparr>plUsed := True\<rparr>) (priceLocks s)"
    by (rule eff(12))
  have used: "\<exists>l' \<in> set (priceLocks s'). plUsed l' \<and> carries l' o'"
    if "x \<in> set (priceLocks s)" "carries x o'" "plUsed x \<or> plId x = plId l" for x o'
  proof (cases "plId x = plId l")
    case True
    then have "x\<lparr>plUsed := True\<rparr> \<in> set (priceLocks s')" using that(1) unfolding ls set_update_where by force
    then show ?thesis using that(2) by (intro bexI [of _ "x\<lparr>plUsed := True\<rparr>"]) simp_all
  next
    case False
    then have "x \<in> set (priceLocks s')" using that(1) unfolding ls set_update_where by force
    then show ?thesis using that(2,3) False by blast
  qed
  have "\<forall>o' \<in> set (orders s'). \<exists>l \<in> set (priceLocks s'). plUsed l \<and> carries l o'"
  proof
    fix o' assume "o' \<in> set (orders s')"
    then consider "o' \<in> set (orders s)" | "o' = ord" by (auto simp: os)
    then show "\<exists>l \<in> set (priceLocks s'). plUsed l \<and> carries l o'"
    proof cases
      case 1
      then obtain x where "x \<in> set (priceLocks s)" "plUsed x" "carries x o'"
        using wf by (auto simp: wf_market_def)
      then show ?thesis using used by blast
    next
      case 2
      then show ?thesis using used [of l ord] c lockById_in [OF l(1)] by blast
    qed
  qed
  moreover have "map plId (priceLocks s') = map plId (priceLocks s)"
    unfolding ls by (rule map_update_where) simp
  moreover have "distinct (map orLock (orders s'))"
    using wf fresh by (auto simp: wf_market_def os ord)
  moreover have "\<forall>x \<in> set (priceLocks s'). plId x < nextId s'"
    using wf by (auto simp: wf_market_def eff(14) ls set_update_where)
  ultimately show "wf_market s'" using wf eff(1) by (simp add: wf_market_def)
qed

lemma market_step_wf:
  assumes wf: "wf_market s" and r: "market_step s (c, x) = Inr s'"
  shows "wf_market s' \<and> set (orders s) \<subseteq> set (orders s')"
proof (cases x)
  case (LockPrice rep u sd grams)
  then show ?thesis using r wf_market_lock [OF wf] by auto
next
  case (PlaceOrder sv u i)
  then obtain ord fin where p: "createOrder s c sv u i = Inr (s', ord, fin)" using r by auto
  from p show ?thesis
  proof (cases rule: createOrder_cases)
    case old
    then show ?thesis using wf by simp
  next
    case new
    then show ?thesis using wf_market_order [OF wf new(2)] by auto
  qed
next
  case (FetchPrice answer)
  then have s': "s' = s\<lparr>prices := fetchAndStorePrice (maxJumpPercent s) (prices s) (now c, answer)\<rparr>"
    using r by simp
  have "wf_bank s'" unfolding wf_bank_def
    by (rule wf_except_same [of _ s]) (use wf in \<open>simp_all add: s' wf_market_def wf_bank_def\<close>)
  then show ?thesis using wf by (simp add: wf_market_def s')
qed

interpretation market_orders: evolving_service
    "market_step :: 'a market_scheme \<Rightarrow> clock \<times> market_op \<Rightarrow> 'a market_scheme res" wf_market
    "\<lambda>s s'. set (orders s) \<subseteq> set (orders s')"
proof unfold_locales
  fix s s' :: "'a market_scheme" and p
  assume "wf_market s" "market_step s p = Inr s'"
  then show "wf_market s'" "set (orders s) \<subseteq> set (orders s')"
    using market_step_wf [of s "fst p" "snd p" s'] by simp_all
qed auto

text \<open>Money and gold in the wallets move with their control accounts.\<close>

lemma market_step_money:
  assumes wf: "wf_bank s" and r: "market_step s (c, x) = Inr s'"
  shows "wf_bank s' \<and> rialGap s' = rialGap s \<and> gramGap s' = gramGap s"
proof -
  have same: "wf_bank s' \<and> rialGap s' = rialGap s \<and> gramGap s' = gramGap s"
    if "nextId s \<le> nextId s'" "withdrawals s' = withdrawals s" "accounts s' = accounts s" "journals s' = journals s"
      "ledgerEntries s' = ledgerEntries s" "wallets s' = wallets s" "holds s' = holds s"
    using wf_except_same [of "{}" s s'] gaps_cong [of s' s] wf that unfolding wf_bank_def by blast
  show ?thesis
  proof (cases x)
    case (LockPrice rep u sd grams)
    then obtain i where p: "lockPrice s c rep u sd grams = Inr (s', i)" using r by auto
    from lockPrice_Inr [OF p] obtain l where "s' = s\<lparr>nextId := nextId s + 1, priceLocks := priceLocks s @ [l]\<rparr>"
      by metis
    then show ?thesis by (intro same) simp_all
  next
    case (PlaceOrder sv u i)
    then obtain ord fin where p: "createOrder s c sv u i = Inr (s', ord, fin)" using r by auto
    from p show ?thesis
    proof (cases rule: createOrder_cases)
      case old
      then show ?thesis using wf by simp
    next
      case new
      from new(2) obtain l w fee tax gross where w: "walletOfUser s u = Some w"
        and ow: "orderWrites s c u l w gross fee tax = Inr (s', ord)"
        by (cases rule: orderTransaction_cases) blast+
      note eff = orderWrites_effect [OF wf ow refl refl refl wallet_of_user_by_id [OF wf w]]
      show ?thesis using eff(1-5) by (simp add: rialGap_def gramGap_def)
    qed
  next
    case (FetchPrice answer)
    then show ?thesis using r by (intro same) auto
  qed
qed

subsection \<open>Limits and prices\<close>

lemma assertWithinDailyLimit_Inr:
  "assertWithinDailyLimit s c u sd g = Inr () \<longleftrightarrow>
     (let d = getNumber s (if sd = BUY then ''trade.gold.daily_buy_limit_grams'' else ''trade.gold.daily_sell_limit_grams'') 50
      in d \<le> 0 \<or> usedGrams s u (sideType sd) {TX_COMPLETED} (today c) + g \<le> d)"
  unfolding assertWithinDailyLimit_def Let_def by (auto simp: not_less)

lemma assertWithinMonthlyLimit_Inr:
  "assertWithinMonthlyLimit s c u sd g = Inr () \<longleftrightarrow>
     (let m = getNumber s (if sd = BUY then ''trade.gold.monthly_buy_limit_grams'' else ''trade.gold.monthly_sell_limit_grams'') 500
      in m \<le> 0 \<or> usedGrams s u (sideType sd) {TX_COMPLETED} (firstOfMonth c) + g \<le> m)"
  unfolding assertWithinMonthlyLimit_def Let_def by (auto simp: not_less)

lemma usedGrams_trade:
  assumes "transactions s' = transactions s @ tradeTransaction i c w (sideType sd) gross (Some g) p f t None # rest"
    and "\<forall>x \<in> set rest. tType x \<in> {FEE, TAX}" and "wUser w = u" and "since \<le> now c"
  shows "usedGrams s' u (sideType sd) {TX_COMPLETED} since = usedGrams s u (sideType sd) {TX_COMPLETED} since + g"
proof -
  have z: "sum_where (\<lambda>x. tUser x = u \<and> tType x = sideType sd \<and> tStatus x \<in> {TX_COMPLETED} \<and> since \<le> tCreated x)
      (\<lambda>x. toDecimal (tGrams x)) rest = 0"
    using assms(2) by (induction rest) (auto simp: sideType_def)
  show ?thesis using z assms(3,4) unfolding usedGrams_def assms(1)
    by (simp add: tradeTransaction_def toDecimal_def)
qed

lemma effectivePrice_buy: "0 \<le> price \<Longrightarrow> 0 \<le> spread \<Longrightarrow> price \<le> effectivePrice BUY price spread"
proof -
  assume a: "0 \<le> price" "0 \<le> spread"
  have "of_int price * 1 \<le> of_int price * (1 + spread / 100)" using a by (intro mult_left_mono) simp_all
  also have "\<dots> \<le> of_int (effectivePrice BUY price spread)"
    using a by (simp add: effectivePrice_def round_up_ge)
  finally show ?thesis by simp
qed

lemma effectivePrice_sell:
  assumes "0 \<le> price" "0 \<le> spread" "spread \<le> 100"
  shows "effectivePrice SELL price spread \<le> price"
proof -
  have "of_int (effectivePrice SELL price spread) \<le> of_int price * (1 - spread / 100)"
    using assms unfolding effectivePrice_def by (simp add: round_down_le)
  also have "\<dots> \<le> of_int price * 1" using assms by (intro mult_left_mono) simp_all
  finally show ?thesis by simp
qed

lemma computeAmounts_mono:
  assumes "0 \<le> g" "p \<le> q" "0 \<le> p"
  shows "roundRial (g * of_int p) \<le> roundRial (g * of_int q)" "0 \<le> roundRial (g * of_int p)"
  using assms unfolding roundRial_def by (auto intro!: round_half_up_mono mult_left_mono round_half_up_nonneg)

subsection \<open>A concrete market\<close>

definition demoMarket :: market where
  "demoMarket =
     \<lparr>nextId = 100,
      accounts = [demoAccount 1 ''1010'' ASSET 3000000 0, demoAccount 2 ''2010'' LIABILITY 3000000 0,
        demoAccount 3 ''2020'' LIABILITY 0 5, demoAccount 4 ''1090'' ASSET 0 5,
        demoAccount 5 ''4010'' INCOME 0 0, demoAccount 6 ''2030'' LIABILITY 0 0],
      journals = [], ledgerEntries = [], fiscalYears = [], lockedUntil = None,
      config = (\<lambda>_. None), configNum = (\<lambda>_. None),
      users = [\<lparr>uId = 11, uStatus = ACTIVE, uIdentity = Some ID_VERIFIED\<rparr>],
      bankAccounts = [], wallets = [\<lparr>wId = 21, wUser = 11, wCard = ''1'', wRial = 3000000, wGrams = 5\<rparr>],
      holds = [], transactions = [], withdrawals = [], approvals = [],
      sequences = (\<lambda>_. 0), jalaliYear = 1404, invoices = [], agentIds = [],
      deposits = [], receipts = [], holidayText = [],
      priceLocks = [\<lparr>plId = 50, plUser = 11, plMetal = GOLD, plUnits = 20000, plSide = BUY, plPrice = 1000000,
                     plFee = 20000, plTax = 0, plExpires = 2000000, plUsed = False\<rparr>],
      orders = [],
      prices = \<lparr>psCache = None, psSuspect = None, psMarket = Some (1000000, 990000), psFailures = 0,
                psOpened = None, psPending = None\<rparr>\<rparr>"

lemma wf_demoMarket [simp]: "wf_market demoMarket" "wf_bank demoMarket"
  by (simp_all add: demoMarket_def wf_market_def wf_bank_def wf_except_def wf_ledger_def wf_accounts_def
      wf_wallets_def wf_requests_def wf_holds_def demoAccount_def on_grid_def)

subsection \<open>Properties\<close>

text \<open>C10: What an order does. An accepted order uses a lock of the same user that is unused and not
expired, on the terms of that lock; a purchase takes from the wallet no more rial, and a sale no more
gold, than holds leave free; exactly the payable amount and the grams of the lock move, in one wallet
only, with the books (gold owed to users and its coverage move together); and the user stays within
the daily and monthly limits in force.\<close>

theorem trade_effect:
  assumes wf: "wf_market s" and r: "createOrder s c sv u lockId = Inr (s', ord, False)"
    and t: "today c \<le> now c" "firstOfMonth c \<le> now c"
  shows "\<exists>l w. lockById s lockId = Some l \<and> plUser l = u \<and> \<not> plUsed l \<and> now c < plExpires l \<and>
    carries l ord \<and> walletOfUser s u = Some w \<and>
    (let n = netPayable (orSide ord) (orTotal ord) (orFee ord) (orTax ord); g = gramsOfUnits (orUnits ord);
         sd = orSide ord;
         d = getNumber s (if sd = BUY then ''trade.gold.daily_buy_limit_grams'' else ''trade.gold.daily_sell_limit_grams'') 50;
         m = getNumber s (if sd = BUY then ''trade.gold.monthly_buy_limit_grams'' else ''trade.gold.monthly_sell_limit_grams'') 500 in
     (sd = BUY \<longrightarrow> n \<le> wRial w - heldRial s (now c) (wId w)) \<and>
     (sd = SELL \<longrightarrow> g \<le> wGrams w - heldGrams s (now c) (wId w)) \<and>
     walletById s' (wId w) = Some (w\<lparr>wRial := wRial w + (if sd = BUY then - n else n),
        wGrams := wGrams w + (if sd = BUY then g else - g)\<rparr>) \<and>
     (\<forall>i. i \<noteq> wId w \<longrightarrow> walletById s' i = walletById s i) \<and>
     rialOf s' ''2010'' = rialOf s ''2010'' + (if sd = BUY then - n else n) \<and>
     gramsOf s' ''2020'' = gramsOf s ''2020'' + (if sd = BUY then g else - g) \<and>
     gramsOf s' ''1090'' - gramsOf s' ''2020'' = gramsOf s ''1090'' - gramsOf s ''2020'' \<and>
     (d \<le> 0 \<or> usedGrams s' u (sideType sd) {TX_COMPLETED} (today c) \<le> d) \<and>
     (m \<le> 0 \<or> usedGrams s' u (sideType sd) {TX_COMPLETED} (firstOfMonth c) \<le> m))"
  using r
proof (cases rule: createOrder_cases)
  case new
  have bank: "wf_bank s" using wf by (simp add: wf_market_def)
  from new(2) show ?thesis
  proof (cases rule: orderTransaction_cases)
    case (new l w fee tax gross)
    note w = wallet_of_user_by_id [OF bank new(9)]
    note eff = orderWrites_effect [OF bank new(14) refl refl refl w]
    from orderWrites_Inr [OF new(14)] have ord: "ord = \<lparr>orId = nextId s, orUser = u, orLock = Some (plId l),
        orSide = plSide l, orUnits = plUnits l, orPrice = plPrice l, orTotal = gross, orFee = fee, orTax = tax,
        orStatus = OR_COMPLETED\<rparr>" by metis
    have c: "carries l ord" using new(3,8) orderFees_kept [OF new(7)] by (simp add: carries_def ord)
    obtain rest where tx: "transactions s' = transactions s @ tradeTransaction (nextId s + 1) c w (sideType (plSide l)) gross
           (Some (gramsOfUnits (plUnits l))) (Some (plPrice l)) (Some fee) (Some tax) None # rest"
      "\<forall>t \<in> set rest. tType t \<in> {FEE, TAX}" using eff(13) by blast
    have u: "wUser w = u" using walletOfUser_in [OF new(9)] by simp
    note used = usedGrams_trade [OF tx u t(1)] usedGrams_trade [OF tx u t(2)]
    show ?thesis
      by (intro exI [of _ l] exI [of _ w])
         (use new(2-6,9-13) c eff(3,5-8) used in
           \<open>simp add: Let_def ord assertWithinDailyLimit_Inr assertWithinMonthlyLimit_Inr\<close>)
  qed simp
qed simp

lemma trade_effect_witness:
  "\<exists>s' ord. createOrder demoMarket deskClock None 11 50 = Inr (s', ord, False) \<and> orFee ord = 20000 \<and>
     rialOf s' ''2010'' = 3000000 - 2020000"
proof -
  let ?r = "createOrder demoMarket deskClock None 11 50"
  have "(case ?r of Inl _ \<Rightarrow> False | Inr (_, ord, fin) \<Rightarrow> \<not> fin \<and> orFee ord = 20000 \<and> orSide ord = BUY \<and>
      netPayable BUY (orTotal ord) (orFee ord) (orTax ord) = 2020000)" by code_simp
  then obtain s' ord where r: "?r = Inr (s', ord, False)" and o': "orFee ord = 20000" "orSide ord = BUY"
      "netPayable BUY (orTotal ord) (orFee ord) (orTax ord) = 2020000" by (cases ?r) auto
  have "rialOf demoMarket ''2010'' = 3000000" by code_simp
  moreover have "today deskClock \<le> now deskClock" "firstOfMonth deskClock \<le> now deskClock"
    by (simp_all add: deskClock_def)
  ultimately have "rialOf s' ''2010'' = 3000000 - 2020000"
    using trade_effect [OF wf_demoMarket(1) r] o' by (auto simp: Let_def)
  then show ?thesis using r o' by blast
qed

text \<open>Confirming an order twice charges once: the second call, whenever it comes, returns the
same order and leaves everything as it is.\<close>

theorem order_once:
  assumes "wf_market s" and r: "createOrder s c sv u lockId = Inr (s', ord, False)"
  shows "createOrder s' c2 sv2 u lockId = Inr (s', ord, True)"
  using r
proof (cases rule: createOrder_cases)
  case new
  note v = new(3)
  have bank: "wf_bank s" using assms(1) by (simp add: wf_market_def)
  from new(2) show ?thesis
  proof (cases rule: orderTransaction_cases)
    case (new l w fee tax gross)
    note eff = orderWrites_effect [OF bank new(14) refl refl refl wallet_of_user_by_id [OF bank new(9)]]
    have li: "plId l = lockId" using lockById_in [OF new(2)] by simp
    from orderWrites_Inr [OF new(14)] have ord: "ord = \<lparr>orId = nextId s, orUser = u, orLock = Some (plId l),
        orSide = plSide l, orUnits = plUnits l, orPrice = plPrice l, orTotal = gross, orFee = fee, orTax = tax,
        orStatus = OR_COMPLETED\<rparr>" and fresh: "\<forall>o' \<in> set (orders s). orLock o' \<noteq> Some (plId l)" by metis+
    have "find (\<lambda>o'. orLock o' = Some lockId \<and> orUser o' = u \<and> orStatus o' = OR_COMPLETED) (orders s) = None"
      using fresh li by (auto simp: find_None_iff)
    then have "find (\<lambda>o'. orLock o' = Some lockId \<and> orUser o' = u \<and> orStatus o' = OR_COMPLETED) (orders s') = Some ord"
      by (simp add: eff(9) find_append) (simp add: ord li)
    moreover have "assertUserVerified s' u = Inr ()" using v by (simp add: assertUserVerified_def eff(10))
    ultimately show ?thesis by (simp add: createOrder_def)
  qed simp
qed simp

lemma order_once_witness:
  "\<exists>s' ord. createOrder demoMarket deskClock None 11 50 = Inr (s', ord, False) \<and>
     createOrder s' deskClock None 11 50 = Inr (s', ord, True)"
proof -
  let ?r = "createOrder demoMarket deskClock None 11 50"
  have "(case ?r of Inl _ \<Rightarrow> False | Inr (_, _, fin) \<Rightarrow> \<not> fin)" by code_simp
  then obtain s' ord where r: "?r = Inr (s', ord, False)" by (cases ?r) auto
  from order_once [OF wf_demoMarket(1) r] r show ?thesis by blast
qed

text \<open>C21: Orders follow their locks, over every sequence of price locks, orders (repeated and
refused ones too) and price updates: no two orders use the same lock, every order has the side,
grams, price and total of a used lock of its user, with the fee and tax of the lock unless both were
zero, and an order once placed is never changed or lost.\<close>

theorem orders_follow_locks:
  assumes "wf_market s"
  shows "distinct (map orLock (orders (run market_step s ops))) \<and>
    (\<forall>o' \<in> set (orders (run market_step s ops)). \<exists>l \<in> set (priceLocks (run market_step s ops)). plUsed l \<and> carries l o') \<and>
    set (orders s) \<subseteq> set (orders (run market_step s ops))"
  using market_orders.run_inv [OF assms, of ops] market_orders.run_later [OF assms, of ops]
  by (simp add: wf_market_def)

lemma orders_follow_locks_witness:
  "distinct (map orLock (orders (run market_step demoMarket
     (map (Pair deskClock) [PlaceOrder None 11 50, PlaceOrder None 11 50, LockPrice None 11 SELL 1]))))"
  using orders_follow_locks [OF wf_demoMarket(1)] by blast

text \<open>C22: A price lock is safe for the house. It is only given at a quote that is not older than the
maximum age and not held back by a price jump. While the setting to respect the flags of the source is on, the quote also
does not carry the flag that closes its side; with the setting off the flag is not looked at, and a quote
read back from the database carries none. With a spread between 0 and
100 percent a purchase is never locked below, nor a sale above, the price of that quote; and the
grams locked are positive and no more than was asked for.\<close>

theorem locked_price_is_safe:
  assumes "lockPrice s c rep u sd grams = Inr (s', i)"
    and "0 \<le> getNumber s ''trade.gold.spread_percent'' 0" and "getNumber s ''trade.gold.spread_percent'' 0 \<le> 100"
  shows "\<exists>l q. priceLocks s' = priceLocks s @ [l] \<and> plId l = i \<and> plUser l = u \<and> plSide l = sd \<and> \<not> plUsed l \<and>
    getTradableGoldQuote (prices s) (now c) = Some q \<and> 0 < qPrice q \<and>
    of_int (now c - qFetched q) / 1000 \<le> tcMaxAge (getTradeConfig s sd) \<and>
    (tcRespect (getTradeConfig s sd) \<longrightarrow> \<not> (if sd = BUY then qDisableBuy q else qDisableSell q)) \<and>
    (sd = BUY \<longrightarrow> qPrice q \<le> plPrice l) \<and> (sd = SELL \<longrightarrow> plPrice l \<le> qPrice q) \<and>
    0 < plUnits l \<and> gramsOfUnits (plUnits l) \<le> grams \<and> plExpires l \<le> now c + 600000"
proof -
  from assms(1) obtain cfg units current price gross fee tax payable where
    x: "0 < grams" "cfg = getTradeConfig s sd" "units = lockUnits rep grams" "0 < units"
      "checkQuote cfg c sd (getTradableGoldQuote (prices s) (now c)) = Inr current"
      "price = effectivePrice sd current (tcSpread cfg)" "i = nextId s"
      "s' = s\<lparr>nextId := i + 1, priceLocks := priceLocks s @
                     [\<lparr>plId = i, plUser = u, plMetal = GOLD, plUnits = units, plSide = sd, plPrice = price,
                       plFee = fee, plTax = tax, plExpires = now c + \<lfloor>tcLockSec cfg * 1000\<rfloor>,
                       plUsed = False\<rparr>]\<rparr>" by (rule lockPrice_Inr)
  from checkQuote_Inr [OF x(5)] obtain q where q: "getTradableGoldQuote (prices s) (now c) = Some q"
    "qPrice q = current" "0 < current" "of_int (now c - qFetched q) / 1000 \<le> tcMaxAge cfg"
    "tcRespect cfg \<longrightarrow> \<not> (if sd = BUY then qDisableBuy q else qDisableSell q)" by blast
  have sp: "tcSpread cfg = getNumber s ''trade.gold.spread_percent'' 0" by (simp add: x(2) getTradeConfig_def)
  have b: "sd = BUY \<Longrightarrow> current \<le> price" "sd = SELL \<Longrightarrow> price \<le> current"
    using effectivePrice_buy [of current "tcSpread cfg"] effectivePrice_sell [of current "tcSpread cfg"] assms(2,3) q(3)
    by (simp_all add: x(6) sp)
  have g: "gramsOfUnits units \<le> grams"
  proof (cases "rep = None")
    case True
    then have "of_int units \<le> grams * 10000" using round_down_le [of "grams * 10000"] x(1) by (simp add: x(3) lockUnits_def)
    then show ?thesis by (simp add: gramsOfUnits_def)
  next
    case False
    then have "of_int units \<le> (grams * 1000) * 10" using round_down_le [of "grams * 1000"] x(1) by (auto simp: x(3) lockUnits_def)
    then show ?thesis by (simp add: gramsOfUnits_def)
  qed
  have "tcLockSec cfg * 1000 \<le> 600000" by (simp add: x(2) getTradeConfig_def)
  then have "\<lfloor>tcLockSec cfg * 1000\<rfloor> \<le> 600000" by linarith
  then show ?thesis using x b q g by auto
qed

lemma locked_price_is_safe_witness:
  "\<exists>s' i q. lockPrice demoMarket deskClock None 11 SELL 1 = Inr (s', i) \<and>
     getTradableGoldQuote (prices demoMarket) (now deskClock) = Some q \<and>
     (\<exists>l. priceLocks s' = priceLocks demoMarket @ [l] \<and> plPrice l \<le> qPrice q)"
proof -
  let ?r = "lockPrice demoMarket deskClock None 11 SELL 1"
  have "(case ?r of Inl _ \<Rightarrow> False | Inr _ \<Rightarrow> True)" by code_simp
  then obtain s' i where r: "?r = Inr (s', i)" by (cases ?r) auto
  have "getNumber demoMarket ''trade.gold.spread_percent'' 0 = 0" by code_simp
  then show ?thesis using locked_price_is_safe [OF r] r by force
qed

text \<open>Buying and selling back at one price never gains: with a spread between 0 and 100 percent
and fees and taxes that are not negative, what the sale of some grams pays is never more than what
their purchase costs.\<close>

theorem no_free_round_trip:
  assumes "0 \<le> g" and "0 < p" and "0 \<le> spread" and "spread \<le> 100"
    and "0 \<le> feeB" "0 \<le> taxB" "0 \<le> feeS" "0 \<le> taxS"
    and "computeAmounts BUY g (effectivePrice BUY p spread) feeB taxB = (gb, fb, tb, cost)"
    and "computeAmounts SELL g (effectivePrice SELL p spread) feeS taxS = (gs, fs, ts, gain)"
  shows "gain \<le> cost"
proof -
  have sell: "effectivePrice SELL p spread \<le> p" "p \<le> effectivePrice BUY p spread"
    using effectivePrice_sell [of p spread] effectivePrice_buy [of p spread] assms by simp_all
  have nn: "0 \<le> effectivePrice SELL p spread"
    using assms unfolding effectivePrice_def by (simp add: round_down_nonneg)
  have "gs \<le> gb" "0 \<le> gs"
    using computeAmounts_mono [OF assms(1) order_trans [OF sell] nn] assms(9,10)
    by (auto simp: computeAmounts_def Let_def)
  moreover have "0 \<le> fs" "0 \<le> ts" "0 \<le> fb" "0 \<le> tb"
    using assms(5-10) calculation by (auto simp: computeAmounts_def Let_def roundRial_def intro!: round_half_up_nonneg)
  ultimately show ?thesis using assms(9,10) by (auto simp: computeAmounts_def Let_def netPayable_def)
qed

lemma no_free_round_trip_witness:
  "snd (snd (snd (computeAmounts SELL (3/2) (effectivePrice SELL 1000001 1) 1 0))) \<le>
   snd (snd (snd (computeAmounts BUY (3/2) (effectivePrice BUY 1000001 1) 1 0)))"
proof -
  have h: "(0::rat) \<le> 3/2" "(0::int) < 1000001" "(0::rat) \<le> 1" "(1::rat) \<le> 100" "(0::rat) \<le> 0" by simp_all
  show ?thesis
    by (cases "computeAmounts SELL (3/2) (effectivePrice SELL 1000001 1) 1 0",
        cases "computeAmounts BUY (3/2) (effectivePrice BUY 1000001 1) 1 0")
       (use no_free_round_trip [OF h(1-4) h(3) h(5) h(3) h(5)] in auto)
qed

end
