(* ===== verification/ShopPrice.thy ===== *)
theory ShopPrice
  imports Wallet "HOL-Library.Product_Lexorder"
begin

section \<open>The prices of the shop\<close>

text \<open>
  The arithmetic of the shop, free of any state: the discount of a code
  (\<open>discount/discount.service.ts\<close>), the charges for packaging (\<open>packaging/packaging.service.ts\<close>),
  the delivery fee (\<open>shipping/shipping-calculator.ts\<close>, with the comparison of city names of
  \<open>shipping/iran-provinces.ts\<close>), the price of a product (\<open>catalog/pricing-engine.service.ts\<close>) and the
  plan by which gold of the wallet pays for a bar (\<open>shop-orders/gold-bar-delivery.service.ts\<close>).
  Persian text is a list of code points. Labels, names and the messages shown to the customer are
  left out; the reason why a delivery method is refused is kept as a short tag.
\<close>

subsection \<open>Discount codes\<close>

datatype discount_type = PERCENT | FIXED

record discount_code =
  dcId :: nat
  dcCode :: string
  dcType :: discount_type
  dcValue :: rat
  dcMax :: "int option"
  dcMin :: "int option"
  dcStarts :: "int option"
  dcExpires :: "int option"
  dcLimit :: "int option"
  dcPerUser :: "int option"
  dcActive :: bool
  dcUser :: "nat option"

definition toUpperCase :: "string \<Rightarrow> string" where
  "toUpperCase s =
     map (\<lambda>c. if 97 \<le> (of_char c :: nat) \<and> (of_char c :: nat) \<le> 122 then char_of ((of_char c :: nat) - 32) else c) s"

text \<open>The code after its Persian digits became Latin ones.\<close>

definition normalizeCode :: "string \<Rightarrow> string" where
  "normalizeCode raw = toUpperCase (filter (\<lambda>c. \<not> is_space c) (trim raw))"

definition computeDiscountRial :: "discount_code \<Rightarrow> int \<Rightarrow> int" where
  "computeDiscountRial code subtotal =
     (let d = (if dcType code = PERCENT then of_int subtotal * dcValue code / 100 else dcValue code);
          d' = (case dcMax code of
                  None \<Rightarrow> d
                | Some m \<Rightarrow> if dcType code = PERCENT then min d (of_int m) else d);
          rounded = \<lfloor>min d' (of_int subtotal) / 10\<rfloor> * 10 in
      max 0 rounded)"

subsection \<open>Packaging\<close>

record packaging_option =
  pkId :: nat
  pkPrice :: int
  pkPerUnit :: bool
  pkEligible :: bool
  pkThreshold :: "int option"
  pkDefault :: bool

record packaging_charge =
  pcOption :: packaging_option
  pcQuantity :: int
  pcUnit :: int
  pcList :: int
  pcCharged :: int
  pcFree :: bool
  pcEffective :: "int option"

record packaging_summary =
  psLines :: "nat \<Rightarrow> packaging_charge option"
  psList :: int
  psCharged :: int
  psWaived :: int
  psNext :: "int option"

definition effectiveThreshold :: "packaging_option \<Rightarrow> int \<Rightarrow> int option" where
  "effectiveThreshold opt global =
     (if \<not> pkEligible opt then None
      else (case pkThreshold opt of
              Some t \<Rightarrow> if 0 < t then Some t else if 0 < global then Some global else None
            | None \<Rightarrow> if 0 < global then Some global else None))"

definition pick :: "packaging_option list \<Rightarrow> nat option \<Rightarrow> packaging_option option" where
  "pick options selected =
     (if options = [] then None
      else (case (case selected of None \<Rightarrow> None | Some i \<Rightarrow> find (\<lambda>x. pkId x = i) options) of
              Some x \<Rightarrow> Some x
            | None \<Rightarrow> (case find pkDefault options of Some x \<Rightarrow> Some x | None \<Rightarrow> Some (hd options))))"

definition packagingCharge :: "packaging_option \<Rightarrow> int \<Rightarrow> int \<Rightarrow> int \<Rightarrow> packaging_charge" where
  "packagingCharge opt quantity subtotal global =
     (let q = (if pkPerUnit opt then max 1 quantity else 1);
          list = pkPrice opt * q;
          threshold = effectiveThreshold opt global;
          free = (0 < list \<and> (case threshold of None \<Rightarrow> False | Some t \<Rightarrow> t \<le> subtotal)) in
      \<lparr>pcOption = opt, pcQuantity = q, pcUnit = pkPrice opt, pcList = list,
       pcCharged = (if free then 0 else list), pcFree = free, pcEffective = threshold\<rparr>)"

definition addCharge :: "int \<Rightarrow> int \<Rightarrow> packaging_summary \<Rightarrow> nat \<times> packaging_option option \<times> int \<Rightarrow> packaging_summary" where
  "addCharge subtotal global r input =
     (case input of
        (_, None, _) \<Rightarrow> r
      | (key, Some opt, quantity) \<Rightarrow>
          (let c = packagingCharge opt quantity subtotal global in
           \<lparr>psLines = (psLines r)(key \<mapsto> c), psList = psList r + pcList c,
            psCharged = psCharged r + pcCharged c, psWaived = psWaived r,
            psNext = (if \<not> pcFree c \<and> 0 < pcList c
                      then (case pcEffective c of
                              None \<Rightarrow> psNext r
                            | Some t \<Rightarrow> Some (case psNext r of None \<Rightarrow> t | Some n \<Rightarrow> min n t))
                      else psNext r)\<rparr>))"

definition computeCharges :: "(nat \<times> packaging_option option \<times> int) list \<Rightarrow> int \<Rightarrow> int \<Rightarrow> packaging_summary" where
  "computeCharges inputs subtotal global =
     (let r = foldl (addCharge subtotal global)
                \<lparr>psLines = (\<lambda>_. None), psList = 0, psCharged = 0, psWaived = 0, psNext = None\<rparr> inputs in
      r\<lparr>psWaived := psList r - psCharged r\<rparr>)"

subsection \<open>Names of cities\<close>

definition whiteSpace :: "nat \<Rightarrow> bool" where
  "whiteSpace c \<longleftrightarrow> 9 \<le> c \<and> c \<le> 13 \<or> c \<in> {32, 0xa0, 0x1680, 0x2028, 0x2029, 0x202f, 0x205f, 0x3000, 0xfeff}
     \<or> 0x2000 \<le> c \<and> c \<le> 0x200a"

definition persianLetter :: "nat \<Rightarrow> nat" where
  "persianLetter c =
     (if c = 0x64a then 0x6cc else if c = 0x643 then 0x6a9
      else if c \<in> {0x622, 0x623, 0x625} then 0x627 else if c = 0x629 then 0x647 else c)"

text \<open>A leading word for province, county or town, when a blank follows it.\<close>

definition dropPlaceWord :: "nat list \<Rightarrow> nat list" where
  "dropPlaceWord t =
     (let u = dropWhile whiteSpace t in
      case find (\<lambda>w. take (length w) u = w \<and> (case drop (length w) u of [] \<Rightarrow> False | c # _ \<Rightarrow> whiteSpace c))
             [[0x627, 0x633, 0x62a, 0x627, 0x646],
              [0x634, 0x647, 0x631, 0x633, 0x62a, 0x627, 0x646],
              [0x634, 0x647, 0x631]] of
        None \<Rightarrow> t
      | Some w \<Rightarrow> dropWhile whiteSpace (drop (length w) u))"

definition normalizeFa :: "nat list option \<Rightarrow> nat list" where
  "normalizeFa value =
     (let t = (case value of None \<Rightarrow> [] | Some t \<Rightarrow> t);
          letters = filter (\<lambda>c. c \<noteq> 0x640 \<and> \<not> (0x64b \<le> c \<and> c \<le> 0x652)) (map persianLetter t);
          core = filter (\<lambda>c. \<not> whiteSpace c \<and> c \<notin> {0x200c, 0x200f, 0x200e, 45}) (dropPlaceWord letters) in
      map (\<lambda>c. if 65 \<le> c \<and> c \<le> 90 then c + 32 else c) core)"

subsection \<open>Delivery\<close>

datatype fee_payment = PREPAID | ON_DELIVERY | CUSTOMER_CHOICE

record calc_zone =
  znId :: nat
  znProvinces :: "string list"
  znCities :: "nat list list"
  znOrder :: int

record calc_rate =
  rtId :: nat
  rtMethod :: nat
  rtZone :: nat
  rtBase :: int
  rtBaseWeight :: int
  rtStep :: int
  rtStepWeight :: int
  rtPercent :: rat
  rtMin :: "int option"
  rtMax :: "int option"
  rtFreeAbove :: "int option"
  rtMaxWeight :: "int option"
  rtMaxOrder :: "int option"
  rtPayment :: fee_payment
  rtActive :: bool

record calc_method =
  smId :: nat
  smOrder :: int
  smPostalCode :: bool

record destination =
  dsProvince :: "string option"
  dsCity :: "nat list option"
  dsPostal :: "string option"

record parcel =
  plWeight :: rat
  plValue :: int

record shipping_option =
  opMethod :: nat
  opZone :: nat
  opRate :: nat
  opReason :: "string option"
  opFee :: int
  opFree :: bool
  opPayment :: fee_payment

definition opAvailable :: "shipping_option \<Rightarrow> bool" where
  "opAvailable x \<longleftrightarrow> opReason x = None"

text \<open>How well a zone fits a destination: 3 by city, 2 by province, 1 for the rest, -1 not at all.\<close>

definition zoneSpecificity :: "calc_zone \<Rightarrow> destination \<Rightarrow> int" where
  "zoneSpecificity z d =
     (let provinces = znProvinces z;
          cities = filter (\<lambda>t. t \<noteq> []) (map (\<lambda>t. normalizeFa (Some t)) (znCities z)) in
      if provinces \<noteq> [] \<and>
         (case dsProvince d of None \<Rightarrow> True | Some p \<Rightarrow> p = [] \<or> p \<notin> set provinces) then - 1
      else if cities \<noteq> [] then
        (let city = normalizeFa (dsCity d) in if city \<noteq> [] \<and> city \<in> set cities then 3 else - 1)
      else if provinces \<noteq> [] then 2 else 1)"

definition matchZones :: "calc_zone list \<Rightarrow> destination \<Rightarrow> calc_zone list" where
  "matchZones zones d =
     map fst (sort_key (\<lambda>(z, score). (- score, znOrder z))
       (filter (\<lambda>(z, score). 0 < score) (map (\<lambda>z. (z, zoneSpecificity z d)) zones)))"

text \<open>The step is a whole number of rials, as every amount of the shop.\<close>

definition roundUp :: "rat \<Rightarrow> int \<Rightarrow> int" where
  "roundUp x step = (if step = 0 \<or> step \<le> 1 then \<lceil>x\<rceil> else \<lceil>x / of_int step\<rceil> * step)"

definition weightSteps :: "calc_rate \<Rightarrow> rat \<Rightarrow> int" where
  "weightSteps r weight =
     (let extra = max 0 (weight - of_int (max 0 (rtBaseWeight r))) in
      if 0 < extra \<and> 0 < rtStep r then \<lceil>extra / of_int (max 1 (rtStepWeight r))\<rceil> else 0)"

definition rateFee :: "calc_rate \<Rightarrow> parcel \<Rightarrow> rat" where
  "rateFee r p =
     of_int (rtBase r) + of_int (weightSteps r (plWeight p)) * of_int (rtStep r) +
     of_int (max 0 (plValue p)) * max 0 (rtPercent r) / 100"

definition clampFee :: "calc_rate \<Rightarrow> rat \<Rightarrow> rat" where
  "clampFee r fee =
     (let fee1 = (case rtMin r of None \<Rightarrow> fee | Some m \<Rightarrow> max fee (of_int m));
          fee2 = (case rtMax r of None \<Rightarrow> fee1 | Some m \<Rightarrow> if 0 < m then min fee1 (of_int m) else fee1) in
      max 0 fee2)"

definition computeRateFee :: "calc_rate \<Rightarrow> parcel \<Rightarrow> int \<Rightarrow> int" where
  "computeRateFee r p roundUpRial =
     (let fee = clampFee r (rateFee r p) in if 0 < fee then roundUp fee roundUpRial else 0)"

text \<open>The first zone of the list with a rate of the method, active or not.\<close>

fun firstRate :: "calc_rate list \<Rightarrow> nat \<Rightarrow> calc_zone list \<Rightarrow> (calc_zone \<times> calc_rate) option" where
  "firstRate rates m [] = None"
| "firstRate rates m (z # zones) =
     (case find (\<lambda>r. rtMethod r = m \<and> rtZone r = znId z) rates of
        Some r \<Rightarrow> Some (z, r)
      | None \<Rightarrow> firstRate rates m zones)"

definition unavailableReason :: "calc_method \<Rightarrow> calc_rate \<Rightarrow> destination \<Rightarrow> parcel \<Rightarrow> string option" where
  "unavailableReason m r d p =
     (if (case rtMaxWeight r of None \<Rightarrow> False | Some w \<Rightarrow> of_int w < plWeight p) then Some ''too heavy''
      else if (case rtMaxOrder r of None \<Rightarrow> False | Some v \<Rightarrow> v < plValue p) then Some ''too valuable''
      else if smPostalCode m \<and>
        (case dsPostal d of None \<Rightarrow> True | Some c \<Rightarrow> length c \<noteq> 10 \<or> \<not> list_all is_digit c)
      then Some ''postal code''
      else None)"

definition methodOption ::
  "calc_zone list \<Rightarrow> calc_rate list \<Rightarrow> destination \<Rightarrow> parcel \<Rightarrow> int \<Rightarrow> calc_method \<Rightarrow> shipping_option option" where
  "methodOption zones rates d p roundUpRial m =
     (case firstRate rates (smId m) zones of
        None \<Rightarrow> None
      | Some (z, r) \<Rightarrow>
          if \<not> rtActive r then None
          else Some \<lparr>opMethod = smId m, opZone = znId z, opRate = rtId r,
            opReason = unavailableReason m r d p, opFee = computeRateFee r p roundUpRial,
            opFree = (case rtFreeAbove r of None \<Rightarrow> False | Some t \<Rightarrow> 0 < t \<and> t \<le> plValue p),
            opPayment = rtPayment r\<rparr>)"

definition quoteShippingOptions ::
  "destination \<Rightarrow> parcel \<Rightarrow> calc_zone list \<Rightarrow> calc_rate list \<Rightarrow> calc_method list \<Rightarrow> int \<Rightarrow> shipping_option list" where
  "quoteShippingOptions d p zones rates methods roundUpRial =
     List.map_filter (methodOption (matchZones zones d) rates d p roundUpRial) (sort_key smOrder methods)"

record shipping_charge =
  scShipping :: int
  scWaived :: int
  scOnDelivery :: bool
  scEstimate :: int

definition resolveShippingCharge :: "shipping_option \<Rightarrow> bool \<Rightarrow> shipping_charge" where
  "resolveShippingCharge x wantsPayOnDelivery =
     (if opFee x \<le> 0 then \<lparr>scShipping = 0, scWaived = 0, scOnDelivery = False, scEstimate = 0\<rparr>
      else if opFree x
      then \<lparr>scShipping = 0, scWaived = opFee x, scOnDelivery = False, scEstimate = opFee x\<rparr>
      else
        (let later = (opPayment x = ON_DELIVERY \<or> opPayment x = CUSTOMER_CHOICE \<and> wantsPayOnDelivery) in
         \<lparr>scShipping = (if later then 0 else opFee x), scWaived = 0, scOnDelivery = later,
          scEstimate = opFee x\<rparr>))"

subsection \<open>The price of a product\<close>

record price_link =
  lkBase :: string
  lkType :: string
  lkValue :: rat
  lkKey :: string

record product =
  pdId :: nat
  pdActive :: bool
  pdCategoryActive :: bool
  pdIngot :: bool
  pdPurity :: "string option"
  pdBasePrice :: "rat option"
  pdLinks :: "price_link list"
  pdRange :: bool
  pdMin :: "rat option"
  pdMax :: "rat option"
  pdStep :: "rat option"

record pricing_line =
  prlKey :: string
  prlValue :: rat
  prlAmount :: int

record pricing_result =
  prGoldPrice :: "int option"
  prGoldValue :: int
  prLines :: "pricing_line list"
  prFinal :: int

text \<open>Whole tomans: multiples of ten rials.\<close>

definition toRial :: "rat \<Rightarrow> int" where
  "toRial v = round_half_up (v / 10) * 10"

definition readKarat :: "string \<Rightarrow> nat option" where
  "readKarat purity =
     (case purity of
        [] \<Rightarrow> None
      | c # ds \<Rightarrow>
          if c = CHR ''K'' \<and> (length ds = 1 \<or> length ds = 2) \<and> list_all is_digit ds
          then Some (foldl (\<lambda>n d. 10 * n + digit_val d) 0 ds) else None)"

text \<open>
  The price of a gram of the given purity from the price of a gram of 18 carat; \<open>prec\<close> is the
  rounding of the decimal library to its significant digits.
\<close>

definition resolveGoldPricePerGram ::
  "(rat \<Rightarrow> rat) \<Rightarrow> 'a ledger_scheme \<Rightarrow> rat option \<Rightarrow> string \<Rightarrow> rat res" where
  "resolveGoldPricePerGram prec s current purity =
     (let price18 = toDecimal current in
      if price18 \<le> 0 then Inl (BadRequest ''no gold price'')
      else if purity = ''K18'' then Inr price18
      else
      (case readKarat purity of
         None \<Rightarrow> Inl (BadRequest ''unsupported purity'')
       | Some k \<Rightarrow>
           if k = 0 \<or> 24 < k then Inl (BadRequest ''unsupported purity'')
           else
             (let factor = getNumber s (''gold.purity.'' @ decimal k) (prec (of_nat k / 18)) in
              if factor \<le> 0 then Inl (BadRequest ''purity factor'')
              else Inr (prec (price18 * factor)))))"

definition linkAmount :: "rat \<Rightarrow> rat \<Rightarrow> price_link \<Rightarrow> rat" where
  "linkAmount goldValue running l =
     (let base = (if lkBase l = ''GOLD_VALUE'' then goldValue
                  else if lkBase l = ''RUNNING_TOTAL'' then running else 0) in
      if lkType l = ''PERCENT'' then base * lkValue l / 100 else lkValue l)"

fun pricingLines :: "rat \<Rightarrow> rat \<Rightarrow> price_link list \<Rightarrow> rat \<times> pricing_line list" where
  "pricingLines goldValue running [] = (running, [])"
| "pricingLines goldValue running (l # ls) =
     (let amount = linkAmount goldValue running l;
          (final, lines) = pricingLines goldValue (running + amount) ls in
      (final, \<lparr>prlKey = lkKey l, prlValue = lkValue l, prlAmount = toRial amount\<rparr> # lines))"

definition calculateForProduct ::
  "(rat \<Rightarrow> rat) \<Rightarrow> 'a ledger_scheme \<Rightarrow> rat option \<Rightarrow> product option \<Rightarrow> rat \<Rightarrow> pricing_result res" where
  "calculateForProduct prec s current pr weight =
     (if weight < 0 then Inl (BadRequest ''negative weight'')
      else
      (case pr of
         None \<Rightarrow> Inl (BadRequest ''product not found'')
       | Some p \<Rightarrow>
           (case (case pdPurity p of None \<Rightarrow> None | Some k \<Rightarrow> if k = [] then None else Some k) of
              Some k \<Rightarrow>
                if weight = 0 then Inl (BadRequest ''weight of a gold product'')
                else
                (case resolveGoldPricePerGram prec s current k of
                   Inl e \<Rightarrow> Inl e
                 | Inr g \<Rightarrow>
                     (let (final, lines) = pricingLines (g * weight) (g * weight) (pdLinks p) in
                      if final < 0 then Inl (BadRequest ''negative price'')
                      else Inr \<lparr>prGoldPrice = Some (toRial g), prGoldValue = toRial (g * weight),
                                prLines = lines, prFinal = toRial final\<rparr>))
            | None \<Rightarrow>
                (let v = toDecimal (pdBasePrice p) in
                 if v < 0 then Inl (BadRequest ''negative base price'')
                 else
                   (let (final, lines) = pricingLines v v (pdLinks p) in
                    if final < 0 then Inl (BadRequest ''negative price'')
                    else Inr \<lparr>prGoldPrice = None, prGoldValue = toRial v,
                              prLines = lines, prFinal = toRial final\<rparr>)))))"

subsection \<open>Paying for a bar with gold of the wallet\<close>

record gold_bar_plan =
  gpForBarGrams :: rat
  gpForBarRial :: int
  gpDifference :: int
  gpShipping :: int
  gpShortfall :: rat
  gpExtraGrams :: rat
  gpExtraRial :: int
  gpRialWallet :: int
  gpGateway :: int
  gpAppliedGrams :: rat
  gpAppliedRial :: int

definition decimals_up :: "nat \<Rightarrow> rat \<Rightarrow> rat" where
  "decimals_up n x = of_int (round_up (x * 10 ^ n)) / 10 ^ n"

text \<open>The extra gold for what remains, and its value.\<close>

definition extraGold :: "bool \<Rightarrow> int \<Rightarrow> int \<Rightarrow> rat \<Rightarrow> rat \<times> int" where
  "extraGold wanted remaining rate extraAvailable =
     (if wanted \<and> 0 < remaining \<and> 0 < rate
      then
        (let needed = decimals_up 4 (of_int remaining / of_int rate) in
         if needed \<le> extraAvailable then (needed, remaining)
         else if 0 < extraAvailable
         then (extraAvailable, min (round_down (extraAvailable * of_int rate)) remaining)
         else (0, 0))
      else (0, 0))"

definition planGoldBarPayment ::
  "int \<Rightarrow> rat \<Rightarrow> int \<Rightarrow> rat \<Rightarrow> int \<Rightarrow> bool \<Rightarrow> bool \<Rightarrow> int \<Rightarrow> gold_bar_plan" where
  "planGoldBarPayment price weight rate goldAvailable rialAvailable useExtraGold useRialWallet shippingRial =
     (let available = max 0 (decimals_down 4 goldAvailable);
          barGrams = min available weight;
          barRial = min (round_down (barGrams * of_int rate)) price;
          shipping = max 0 shippingRial;
          difference = price - barRial + shipping;
          (extraGrams, extraRial) = extraGold useExtraGold difference rate (available - barGrams);
          remaining = difference - extraRial;
          fromWallet = (if useRialWallet \<and> 0 < remaining then min (max 0 rialAvailable) remaining else 0) in
      \<lparr>gpForBarGrams = barGrams, gpForBarRial = barRial, gpDifference = difference, gpShipping = shipping,
       gpShortfall = max 0 (weight - barGrams), gpExtraGrams = extraGrams, gpExtraRial = extraRial,
       gpRialWallet = fromWallet, gpGateway = remaining - fromWallet,
       gpAppliedGrams = barGrams + extraGrams, gpAppliedRial = barRial + extraRial\<rparr>)"

subsection \<open>Facts about the plan\<close>

lemma on_grid_decimals_down [simp]: "on_grid (decimals_down 4 x)"
  unfolding on_grid_iff decimals_down_def by (rule exI) simp

lemma on_grid_decimals_up [simp]: "on_grid (decimals_up 4 x)"
  unfolding on_grid_iff decimals_up_def by (rule exI) simp

lemma decimals_up_ge: "0 \<le> x \<Longrightarrow> x \<le> decimals_up n x"
  using round_up_ge [of "x * 10 ^ n"] by (simp add: decimals_up_def le_divide_eq)

lemma extraGold_bounds:
  assumes "extraGold wanted rest rate extra = (g, v)" and "0 \<le> extra" and "0 \<le> rest"
  shows "0 \<le> g" "g \<le> extra" "0 \<le> v" "v \<le> rest" "of_int v \<le> g * of_int rate" 
    "on_grid extra \<Longrightarrow> on_grid g" "wanted \<Longrightarrow> 0 < rate \<Longrightarrow> v < rest \<Longrightarrow> g = extra"
proof -
  let ?n = "decimals_up 4 (of_int rest / of_int rate)"
  consider "(g, v) = (?n, rest)" "?n \<le> extra" "0 < rate" "0 < rest"
    | "(g, v) = (extra, min (round_down (extra * of_int rate)) rest)" "0 < extra" "0 < rate" "0 < rest"
    | "(g, v) = (0, 0)" "\<not> wanted \<or> rest \<le> 0 \<or> rate \<le> 0 \<or> extra \<le> 0"
    using assms(1) by (auto simp: extraGold_def Let_def not_less split: if_splits)
  then have "0 \<le> g \<and> g \<le> extra \<and> 0 \<le> v \<and> v \<le> rest \<and> of_int v \<le> g * of_int rate \<and>
    (on_grid extra \<longrightarrow> on_grid g) \<and> (wanted \<longrightarrow> 0 < rate \<longrightarrow> v < rest \<longrightarrow> g = extra)"
  proof cases
    case 1
    then have n: "of_int rest / of_int rate \<le> ?n" by (intro decimals_up_ge) simp
    then have "of_int rest \<le> ?n * of_int rate" using 1 by (simp add: divide_le_eq)
    moreover have "0 \<le> ?n"
      by (rule order_trans [OF _ n]) (use 1 in \<open>simp add: divide_nonneg_nonneg\<close>)
    ultimately show ?thesis using 1 by simp
  next
    case 2
    have p: "0 \<le> extra * of_int rate" using 2 by simp
    have "0 \<le> round_down (extra * of_int rate)" "of_int (round_down (extra * of_int rate)) \<le> extra * of_int rate"
      using round_down_le [OF p] round_down_nonneg [OF p] by simp_all
    then show ?thesis using 2 by (simp add: min_le_iff_disj)
  next
    case 3
    then have "g = 0" "v = 0" by simp_all
    moreover have "extra = 0" if "wanted" "0 < rate" "0 < rest" using 3(2) that assms(2) by linarith
    ultimately show ?thesis using assms(2,3) by simp
  qed
  then show "0 \<le> g" "g \<le> extra" "0 \<le> v" "v \<le> rest" "of_int v \<le> g * of_int rate" 
    "on_grid extra \<Longrightarrow> on_grid g" "wanted \<Longrightarrow> 0 < rate \<Longrightarrow> v < rest \<Longrightarrow> g = extra" by blast+
qed

lemma planGoldBarPayment_parts:
  fixes avail :: rat and rial ship :: int and x y :: bool
  assumes "0 \<le> price" "0 \<le> weight" "0 \<le> rate"
  defines "a \<equiv> max 0 (decimals_down 4 avail)" and "p \<equiv> planGoldBarPayment price weight rate avail rial x y ship"
  shows "gpForBarGrams p = min a weight" "gpForBarRial p = min (round_down (min a weight * of_int rate)) price"
    "gpDifference p = price - gpForBarRial p + max 0 ship" "0 \<le> gpDifference p"
    "extraGold x (gpDifference p) rate (a - min a weight) = (gpExtraGrams p, gpExtraRial p)"
    "0 \<le> gpForBarRial p" "of_int (gpForBarRial p) \<le> gpForBarGrams p * of_int rate"
    "gpAppliedGrams p = gpForBarGrams p + gpExtraGrams p" "gpAppliedRial p = gpForBarRial p + gpExtraRial p"
    "gpRialWallet p = (if y \<and> 0 < gpDifference p - gpExtraRial p
       then min (max 0 rial) (gpDifference p - gpExtraRial p) else 0)"
    "gpGateway p = gpDifference p - gpExtraRial p - gpRialWallet p"
proof -
  define b where "b = min (round_down (min a weight * of_int rate)) price"
  define d where "d = price - b + max 0 ship"
  obtain g v where e: "extraGold x d rate (a - min a weight) = (g, v)" by fastforce
  have p: "0 \<le> min a weight * of_int rate" using assms(2,3) by (simp add: a_def)
  have "p = \<lparr>gpForBarGrams = min a weight, gpForBarRial = b, gpDifference = d, gpShipping = max 0 ship,
      gpShortfall = max 0 (weight - min a weight), gpExtraGrams = g, gpExtraRial = v,
      gpRialWallet = (if y \<and> 0 < d - v then min (max 0 rial) (d - v) else 0),
      gpGateway = d - v - (if y \<and> 0 < d - v then min (max 0 rial) (d - v) else 0),
      gpAppliedGrams = min a weight + g, gpAppliedRial = b + v\<rparr>"
    by (simp only: p_def planGoldBarPayment_def Let_def a_def [symmetric] b_def [symmetric]
        d_def [symmetric] e case_prod_conv)
  note f = this gold_bar_plan.simps
  show "gpForBarGrams p = min a weight" "gpForBarRial p = min (round_down (min a weight * of_int rate)) price"
    "gpDifference p = price - gpForBarRial p + max 0 ship" 
    "extraGold x (gpDifference p) rate (a - min a weight) = (gpExtraGrams p, gpExtraRial p)"
    "gpAppliedGrams p = gpForBarGrams p + gpExtraGrams p" "gpAppliedRial p = gpForBarRial p + gpExtraRial p"
    "gpRialWallet p = (if y \<and> 0 < gpDifference p - gpExtraRial p
       then min (max 0 rial) (gpDifference p - gpExtraRial p) else 0)"
    "gpGateway p = gpDifference p - gpExtraRial p - gpRialWallet p"
    by (simp_all only: f b_def [symmetric] d_def [symmetric] e)
  have "0 \<le> b" "of_int b \<le> min a weight * of_int rate"
    using round_down_nonneg [OF p] round_down_le [OF p] assms(1)
    by (simp_all add: b_def of_int_min min.coboundedI1)
  then show "0 \<le> gpDifference p" "0 \<le> gpForBarRial p" "of_int (gpForBarRial p) \<le> gpForBarGrams p * of_int rate"
    by (simp_all add: f d_def b_def)
qed

lemma plan_facts:
  assumes "0 \<le> price" "0 \<le> weight" "0 \<le> rate" "on_grid weight"
    and "p = planGoldBarPayment price weight rate avail rial x y ship"
  shows "gpAppliedRial p + gpRialWallet p + gpGateway p = price + max 0 ship \<and>
    0 \<le> gpAppliedRial p \<and> 0 \<le> gpRialWallet p \<and> 0 \<le> gpGateway p \<and>
    0 \<le> gpAppliedGrams p \<and> gpAppliedGrams p \<le> max 0 avail \<and> on_grid (gpAppliedGrams p) \<and>
    gpRialWallet p \<le> max 0 rial \<and> of_int (gpAppliedRial p) \<le> gpAppliedGrams p * of_int rate \<and>
    (x \<and> 0 < rate \<and> 0 < gpRialWallet p + gpGateway p \<longrightarrow> gpAppliedGrams p = max 0 (decimals_down 4 avail))"
proof -
  define a where "a = max 0 (decimals_down 4 avail)"
  note parts = planGoldBarPayment_parts [OF assms(1-3), where avail = avail and rial = rial and x = x and y = y and ship = ship,
      folded assms(5) a_def]
  have a: "on_grid a" "0 \<le> a" by (auto simp: a_def max_def)
  then have grid: "on_grid (min a weight)" "on_grid (a - min a weight)"
    using assms(4) by (auto simp: min_def)
  have "a \<le> max 0 avail"
  proof (cases "0 \<le> avail")
    case True
    then show ?thesis using decimals_down_le [OF True, of 4] by (simp add: a_def)
  next
    case False
    then have "round_down (avail * 10 ^ 4) \<le> 0" unfolding round_down_def by (simp add: ceiling_le_iff)
    then show ?thesis by (simp add: a_def decimals_down_def divide_le_eq)
  qed
  moreover have extra: "0 \<le> a - min a weight" by simp
  note b = extraGold_bounds [OF parts(5) extra parts(4)]
  have "of_int (gpAppliedRial p) \<le> gpAppliedGrams p * of_int rate"
    using b(5) parts(7) by (simp add: parts(8,9) distrib_right)
  moreover have "on_grid (gpAppliedGrams p)"
    unfolding parts(8) parts(1) by (rule on_grid_add [OF grid(1) b(6) [OF grid(2)]])
  moreover have "gpAppliedGrams p \<le> a" "0 \<le> gpAppliedGrams p"
    using b(1,2) a(2) assms(2) unfolding parts(8) parts(1) by simp_all
  moreover have "0 \<le> gpAppliedRial p" using b(3) parts(6) by (simp add: parts(9))
  moreover have w: "0 \<le> gpRialWallet p" "0 \<le> gpGateway p" "gpRialWallet p \<le> max 0 rial"
    unfolding parts(11) parts(10) using b(4) by (auto split: if_split)
  moreover have "gpAppliedRial p + gpRialWallet p + gpGateway p = price + max 0 ship"
    by (simp add: parts(9,11,3))
  moreover have "gpAppliedGrams p = a" if "x" "0 < rate" "0 < gpRialWallet p + gpGateway p"
  proof -
    have "gpExtraRial p < gpDifference p" using that(3) parts(11) by simp
    then show ?thesis using b(7) [OF that(1,2)] by (simp add: parts(8,1))
  qed
  ultimately show ?thesis unfolding a_def by simp
qed

text \<open>The plan for a bar is exact. Gold, rial of the wallet and gateway together pay the price of the
bar and the delivery; no part is negative, no more gold or rial is taken than the wallet has free, gold is
never valued above the rate, the grams taken are whole ten-thousandths, and when extra gold is allowed the
wallet pays rial only after all the gold is used.\<close>

theorem gold_bar_plan_exact:
  assumes "0 \<le> price" "0 \<le> weight" "0 \<le> rate" "on_grid weight"
    and "p = planGoldBarPayment price weight rate avail rial x y ship"
  shows "gpAppliedRial p + gpRialWallet p + gpGateway p = price + max 0 ship \<and>
    0 \<le> gpAppliedRial p \<and> 0 \<le> gpRialWallet p \<and> 0 \<le> gpGateway p \<and>
    0 \<le> gpAppliedGrams p \<and> gpAppliedGrams p \<le> max 0 avail \<and> on_grid (gpAppliedGrams p) \<and>
    gpRialWallet p \<le> max 0 rial \<and> of_int (gpAppliedRial p) \<le> gpAppliedGrams p * of_int rate \<and>
    (x \<and> 0 < rate \<and> 0 < gpRialWallet p + gpGateway p \<longrightarrow> gpAppliedGrams p = max 0 (decimals_down 4 avail))"
  using plan_facts [OF assms] by blast

lemma gold_bar_plan_exact_witness:
  "(let p = planGoldBarPayment 1000000 1 900000 (3/2) 40000 True True 20000 in
    gpAppliedRial p + gpRialWallet p + gpGateway p = 1020000 \<and> gpGateway p = 0 \<and> gpAppliedGrams p = 11334/10000)"
proof -
  define p where "p = planGoldBarPayment 1000000 1 900000 (3/2) 40000 True True 20000"
  have "on_grid 1" by code_simp
  note g = gold_bar_plan_exact [OF _ _ _ this p_def]
  have "gpGateway p = 0 \<and> gpAppliedGrams p = 11334/10000" unfolding p_def by code_simp
  then show ?thesis using g by (simp add: p_def [symmetric])
qed

subsection \<open>Facts about discounts, packaging and delivery\<close>

lemma computeDiscountRial_bounds:
  assumes "0 \<le> subtotal"
  shows "0 \<le> computeDiscountRial code subtotal" "computeDiscountRial code subtotal \<le> subtotal"
    "10 dvd computeDiscountRial code subtotal"
    "dcType code = PERCENT \<Longrightarrow> dcMax code = Some m \<Longrightarrow> 0 \<le> m \<Longrightarrow> computeDiscountRial code subtotal \<le> m"
proof -
  have f: "\<lfloor>x / 10\<rfloor> * 10 \<le> n" if "x \<le> of_int n" for x :: rat and n
  proof -
    have "of_int (\<lfloor>x / 10\<rfloor> * 10) \<le> x" using of_int_floor_le [of "x / 10"] by simp
    then show ?thesis using that by (metis of_int_le_iff order_trans)
  qed
  show "0 \<le> computeDiscountRial code subtotal" "10 dvd computeDiscountRial code subtotal"
    by (auto simp: computeDiscountRial_def Let_def max_def)
  show "computeDiscountRial code subtotal \<le> subtotal"
    unfolding computeDiscountRial_def Let_def using assms f [OF min.cobounded2] by simp
  show "computeDiscountRial code subtotal \<le> m" 
    if "dcType code = PERCENT" "dcMax code = Some m" "0 \<le> m"
    unfolding computeDiscountRial_def Let_def using that
    by (auto intro!: f simp: min.coboundedI1)
qed

lemma packagingCharge_bounds:
  assumes "0 \<le> pkPrice x"
  shows "0 \<le> pcCharged (packagingCharge x q s g)" "pcCharged (packagingCharge x q s g) \<le> pcList (packagingCharge x q s g)"
proof -
  have "0 \<le> pkPrice x * (if pkPerUnit x then max 1 q else 1)" using assms by simp
  then show "0 \<le> pcCharged (packagingCharge x q s g)"
    "pcCharged (packagingCharge x q s g) \<le> pcList (packagingCharge x q s g)"
    by (simp_all add: packagingCharge_def Let_def)
qed

lemma addCharge_sums:
  "psList (addCharge s g r (k, x, q)) = psList r + (case x of None \<Rightarrow> 0 | Some p \<Rightarrow> pcList (packagingCharge p q s g))"
  "psCharged (addCharge s g r (k, x, q)) =
     psCharged r + (case x of None \<Rightarrow> 0 | Some p \<Rightarrow> pcCharged (packagingCharge p q s g))"
  "psLines (addCharge s g r (k, x, q)) =
     (case x of None \<Rightarrow> psLines r | Some p \<Rightarrow> (psLines r)(k \<mapsto> packagingCharge p q s g))"
  by (simp_all add: addCharge_def Let_def split: option.split)

lemma charges_fold:
  fixes inputs :: "(nat \<times> packaging_option option \<times> int) list"
  shows "psCharged (foldl (addCharge s g) r inputs) = psCharged r +
    (\<Sum>(k, x, q)\<leftarrow>inputs. case x of None \<Rightarrow> 0 | Some p \<Rightarrow> pcCharged (packagingCharge p q s g))"
    and "psList (foldl (addCharge s g) r inputs) = psList r +
    (\<Sum>(k, x, q)\<leftarrow>inputs. case x of None \<Rightarrow> 0 | Some p \<Rightarrow> pcList (packagingCharge p q s g))"
    and "k \<notin> fst ` set inputs \<Longrightarrow> psLines (foldl (addCharge s g) r inputs) k = psLines r k"
  by (induction inputs arbitrary: r) (auto simp: addCharge_sums split: option.split)

lemma charges_lines:
  assumes "distinct (map fst inputs)" "(k, x, q) \<in> set inputs"
  shows "psLines (foldl (addCharge s g) r inputs) k =
    (case x of None \<Rightarrow> psLines r k | Some p \<Rightarrow> Some (packagingCharge p q s g))"
  using assms
proof (induction inputs arbitrary: r)
  case (Cons i inputs)
  show ?case
  proof (cases "i = (k, x, q)")
    case True
    then have "k \<notin> fst ` set inputs" using Cons.prems(1) by auto
    then show ?thesis using True charges_fold(3) by (auto simp: addCharge_sums split: option.split)
  next
    case False
    then have i: "(k, x, q) \<in> set inputs" "fst i \<noteq> k" using Cons.prems by (auto simp: image_iff)
    obtain k' x' q' where "i = (k', x', q')" by (cases i) auto
    then have "psLines (addCharge s g r i) k = psLines r k"
      using i(2) by (auto simp: addCharge_sums split: option.split)
    then show ?thesis using Cons i(1) by (simp split: option.split)
  qed
qed simp

lemma roundUp_ge: "x \<le> of_int (roundUp x k)"
proof (cases "k \<le> 1")
  case True
  then show ?thesis by (simp add: roundUp_def)
next
  case False
  have "x / of_int k \<le> of_int \<lceil>x / of_int k\<rceil>" by (rule le_of_int_ceiling)
  moreover have "0 < (of_int k :: rat)" using False by simp
  ultimately have "x \<le> of_int \<lceil>x / of_int k\<rceil> * of_int k" by (simp only: pos_divide_le_eq)
  then show ?thesis using False by (simp add: roundUp_def)
qed

lemma roundUp_mono: "x \<le> y \<Longrightarrow> roundUp x k \<le> roundUp y k"
  by (auto simp: roundUp_def intro!: ceiling_mono mult_right_mono divide_right_mono)

lemma roundUp_dvd: "1 < k \<Longrightarrow> k dvd roundUp x k"
  by (simp add: roundUp_def)

lemma roundUp_less: "1 < k \<Longrightarrow> of_int (roundUp x k) < x + of_int k"
proof -
  assume k: "1 < k"
  have "of_int \<lceil>x / of_int k\<rceil> < x / of_int k + 1" by linarith
  then have "of_int \<lceil>x / of_int k\<rceil> * of_int k < (x / of_int k + 1) * of_int k"
    using k by (intro mult_strict_right_mono) simp_all
  then show ?thesis using k by (simp add: roundUp_def distrib_right)
qed

lemma weightSteps_mono:
  assumes "w \<le> w'"
  shows "0 \<le> weightSteps r w \<and> weightSteps r w \<le> weightSteps r w'"
proof -
  define c where "c = (of_int (max 1 (rtStepWeight r)) :: rat)"
  define e where "e w = max 0 (w - of_int (max 0 (rtBaseWeight r)))" for w :: rat
  have c: "0 < c" by (simp add: c_def)
  have e: "e w \<le> e w'" using assms by (simp add: e_def)
  have n: "0 \<le> \<lceil>e v / c\<rceil>" if "0 < e v" for v
    using divide_pos_pos [OF that c] by linarith
  have eq: "weightSteps r v = (if 0 < e v \<and> 0 < rtStep r then \<lceil>e v / c\<rceil> else 0)" for v
    by (simp only: weightSteps_def Let_def e_def c_def)
  have "\<lceil>e w / c\<rceil> \<le> \<lceil>e w' / c\<rceil>" using e c by (intro ceiling_mono divide_right_mono) simp_all
  then show ?thesis unfolding eq using e n by (auto simp del: le_ceiling_iff zero_le_ceiling)
qed

lemma rateFee_mono:
  assumes "0 \<le> rtStep r" "plWeight p \<le> plWeight q" "plValue p \<le> plValue q"
  shows "rateFee r p \<le> rateFee r q"
proof -
  have "of_int (weightSteps r (plWeight p)) * of_int (rtStep r) \<le>
      (of_int (weightSteps r (plWeight q)) * of_int (rtStep r) :: rat)"
    using weightSteps_mono [OF assms(2), of r] assms(1) by (intro mult_right_mono) simp_all
  moreover have "of_int (max 0 (plValue p)) * max 0 (rtPercent r) / 100 \<le>
      of_int (max 0 (plValue q)) * max 0 (rtPercent r) / (100 :: rat)"
    using assms(3) by (intro divide_right_mono mult_right_mono) simp_all
  ultimately show ?thesis by (simp add: rateFee_def)
qed

lemma clampFee_mono: "x \<le> y \<Longrightarrow> clampFee r x \<le> clampFee r y"
  by (auto simp: clampFee_def Let_def min_def max_def split: option.split)

lemma computeRateFee_clamp: "computeRateFee r p k = (if 0 < clampFee r (rateFee r p) then roundUp (clampFee r (rateFee r p)) k else 0)"
  by (simp add: computeRateFee_def Let_def)

lemma computeRateFee_ge: "clampFee r (rateFee r p) \<le> of_int (computeRateFee r p k)"
  using roundUp_ge by (simp add: computeRateFee_clamp)

lemma clampFee_range:
  "0 \<le> clampFee r x" "rtMin r = Some m \<Longrightarrow> (\<And>u. rtMax r = Some u \<Longrightarrow> m \<le> u) \<Longrightarrow> of_int m \<le> clampFee r x"
  "rtMax r = Some u \<Longrightarrow> 0 < u \<Longrightarrow> clampFee r x \<le> of_int u"
  by (auto simp: clampFee_def Let_def min_def max_def split: option.split)

text \<open>A delivery fee is never negative, is rounded up to the step, is at least the minimum of its rate
and at most the maximum rounded up, and never falls when the parcel gets heavier or more valuable.\<close>

theorem delivery_fee_bounds:
  assumes "1 < k" "0 \<le> rtStep r" "plWeight p \<le> plWeight q" "plValue p \<le> plValue q"
  shows "0 \<le> computeRateFee r p k \<and> k dvd computeRateFee r p k \<and>
    (\<forall>m. rtMin r = Some m \<and> (\<forall>u. rtMax r = Some u \<longrightarrow> m \<le> u) \<longrightarrow> m \<le> computeRateFee r p k) \<and>
    (\<forall>u. rtMax r = Some u \<and> 0 < u \<longrightarrow> computeRateFee r p k \<le> roundUp (of_int u) k) \<and>
    of_int (computeRateFee r p k) < clampFee r (rateFee r p) + of_int k \<and>
    computeRateFee r p k \<le> computeRateFee r q k"
proof -
  let ?f = "clampFee r (rateFee r p)" and ?g = "clampFee r (rateFee r q)"
  have fg: "?f \<le> ?g" by (rule clampFee_mono [OF rateFee_mono [OF assms(2-4)]])
  have pos: "0 \<le> roundUp x k" if "0 \<le> x" for x
    using order_trans [OF that roundUp_ge [of x k]] by simp
  have "m \<le> computeRateFee r p k" if "rtMin r = Some m" "\<forall>u. rtMax r = Some u \<longrightarrow> m \<le> u" for m
    using order_trans [OF clampFee_range(2) [OF that(1)] computeRateFee_ge [of r p k]] that(2) by simp
  moreover have "computeRateFee r p k \<le> roundUp (of_int u) k" if "rtMax r = Some u" "0 < u" for u
    using roundUp_mono [OF clampFee_range(3) [OF that]] pos [of "of_int u"] that
    by (simp add: computeRateFee_clamp)
  moreover have "computeRateFee r p k \<le> computeRateFee r q k"
    using roundUp_mono [OF fg, of k] fg pos [of ?g] by (simp add: computeRateFee_clamp)
  moreover have "of_int (computeRateFee r p k) < ?f + of_int k"
    using roundUp_less [OF assms(1), of ?f] clampFee_range(1) [of r "rateFee r p"] assms(1)
    by (auto simp: computeRateFee_clamp)
  moreover have "0 \<le> computeRateFee r p k" "k dvd computeRateFee r p k"
    using pos [of ?f] roundUp_dvd [OF assms(1)] by (simp_all add: computeRateFee_clamp)
  ultimately show ?thesis by blast
qed

subsection \<open>The zone that decides\<close>

lemma hd_insort_key: "hd (insort_key f x xs) = (if xs = [] \<or> f x \<le> f (hd xs) then x else hd xs)"
  by (cases xs) auto

text \<open>A stable sort puts the first of the smallest elements in front.\<close>

lemma hd_sort_key: "xs \<noteq> [] \<Longrightarrow> hd (sort_key f xs) = arg_min_list f xs"
proof (induction f xs rule: arg_min_list.induct)
  case (2 f x y zs)
  have "insort_key f y (foldr (insort_key f) zs []) \<noteq> []" by (metis insort_not_Nil)
  then show ?case using 2
    by (simp add: hd_insort_key [of f x] sort_key_def Let_def del: foldr.simps split: if_split)
      (simp add: hd_insort_key)
qed simp_all

definition rateOf :: "calc_rate list \<Rightarrow> nat \<Rightarrow> calc_zone \<Rightarrow> calc_rate option" where
  "rateOf rates m z = find (\<lambda>r. rtMethod r = m \<and> rtZone r = znId z) rates"

lemma firstRate_filter:
  "firstRate rates m zones =
     (case filter (\<lambda>z. rateOf rates m z \<noteq> None) zones of
        [] \<Rightarrow> None
      | z # _ \<Rightarrow> Some (z, the (rateOf rates m z)))"
  by (induction zones) (auto simp: rateOf_def split: option.split)

lemma matchZones_sorted:
  "matchZones zones d = sort_key (\<lambda>z. (- zoneSpecificity z d, znOrder z)) (filter (\<lambda>z. 0 < zoneSpecificity z d) zones)"
proof -
  let ?p = "\<lambda>z. (z, zoneSpecificity z d)" and ?k = "\<lambda>(z, score :: int). (- score, znOrder z)"
  have "filter (\<lambda>(z, score). 0 < score) (map ?p zones) = map ?p (filter (\<lambda>z. 0 < zoneSpecificity z d) zones)"
    by (simp add: filter_map comp_def)
  moreover have "sort_key ?k (map ?p zs) = map ?p (sort_key (\<lambda>z. ?k (?p z)) zs)" for zs
  proof (induction zs)
    case (Cons z zs)
    have "insort_key ?k (?p z) (map ?p ys) = map ?p (insort_key (\<lambda>z. ?k (?p z)) z ys)" for ys
      by (induction ys) auto
    then show ?case using Cons by (simp add: sort_key_def)
  qed simp
  ultimately show ?thesis by (simp add: matchZones_def comp_def)
qed

text \<open>The reference: of the zones that fit and have a rate of the method, the one of the highest
specificity, then of the smallest order, then the first of the list.\<close>

definition bestZone :: "calc_rate list \<Rightarrow> nat \<Rightarrow> calc_zone list \<Rightarrow> destination \<Rightarrow> calc_zone option" where
  "bestZone rates m zones d =
     (case filter (\<lambda>z. 0 < zoneSpecificity z d \<and> rateOf rates m z \<noteq> None) zones of
        [] \<Rightarrow> None
      | z # zs \<Rightarrow> Some (arg_min_list (\<lambda>z. (- zoneSpecificity z d, znOrder z)) (z # zs)))"

definition bestOption ::
  "destination \<Rightarrow> parcel \<Rightarrow> calc_zone list \<Rightarrow> calc_rate list \<Rightarrow> int \<Rightarrow> calc_method \<Rightarrow> shipping_option option" where
  "bestOption d p zones rates k m =
     (case bestZone rates (smId m) zones d of
        None \<Rightarrow> None
      | Some z \<Rightarrow>
          (case rateOf rates (smId m) z of
             None \<Rightarrow> None
           | Some r \<Rightarrow>
               if rtActive r
               then Some \<lparr>opMethod = smId m, opZone = znId z, opRate = rtId r,
                 opReason = unavailableReason m r d p, opFee = computeRateFee r p k,
                 opFree = (case rtFreeAbove r of None \<Rightarrow> False | Some t \<Rightarrow> 0 < t \<and> t \<le> plValue p),
                 opPayment = rtPayment r\<rparr>
               else None))"

lemma firstRate_best:
  "firstRate rates m (matchZones zones d) =
     map_option (\<lambda>z. (z, the (rateOf rates m z))) (bestZone rates m zones d)"
proof -
  let ?k = "\<lambda>z. (- zoneSpecificity z d, znOrder z)"
  let ?zs = "filter (\<lambda>z. 0 < zoneSpecificity z d \<and> rateOf rates m z \<noteq> None) zones"
  have "filter (\<lambda>z. rateOf rates m z \<noteq> None) (matchZones zones d) = sort_key ?k ?zs"
    by (simp add: matchZones_sorted filter_sort conj_commute)
  then have f: "firstRate rates m (matchZones zones d) =
      (case sort_key ?k ?zs of [] \<Rightarrow> None | z # _ \<Rightarrow> Some (z, the (rateOf rates m z)))"
    by (simp only: firstRate_filter)
  show ?thesis
  proof (cases "?zs")
    case Nil
    then show ?thesis unfolding f bestZone_def by simp
  next
    case (Cons z zs)
    then have ne: "?zs \<noteq> []" by (simp only: list.distinct simp_thms)
    have "length (sort_key ?k ?zs) = length ?zs" by (rule length_sort)
    then have "sort_key ?k ?zs \<noteq> []" using ne by (simp only: length_greater_0_conv [symmetric])
    then obtain y ys where y: "sort_key ?k ?zs = y # ys" by (cases "sort_key ?k ?zs") blast+
    have "y = arg_min_list ?k (z # zs)" using hd_sort_key [OF ne, of ?k] unfolding y list.sel unfolding Cons .
    moreover have "sort_key ?k (z # zs) = y # ys" using y unfolding Cons .
    ultimately show ?thesis by (simp only: f bestZone_def Cons list.case option.map)
  qed
qed

lemma bestZone_Some:
  assumes "bestZone rates m zones d = Some z"
  shows "z \<in> set zones" "0 < zoneSpecificity z d" "rateOf rates m z \<noteq> None"
    "z' \<in> set zones \<Longrightarrow> 0 < zoneSpecificity z' d \<Longrightarrow> rateOf rates m z' \<noteq> None \<Longrightarrow>
       zoneSpecificity z' d < zoneSpecificity z d \<or>
       zoneSpecificity z' d = zoneSpecificity z d \<and> znOrder z \<le> znOrder z'"
proof -
  let ?k = "\<lambda>z. (- zoneSpecificity z d, znOrder z)"
  let ?zs = "filter (\<lambda>z. 0 < zoneSpecificity z d \<and> rateOf rates m z \<noteq> None) zones"
  have zs: "?zs \<noteq> []" "z = arg_min_list ?k ?zs"
    using assms by (auto simp: bestZone_def split: list.splits)
  have "z \<in> set ?zs" unfolding zs(2) by (rule arg_min_list_in [OF zs(1)])
  then show "z \<in> set zones" "0 < zoneSpecificity z d" "rateOf rates m z \<noteq> None" by simp_all
  have m: "?k z = Min (?k ` set ?zs)" unfolding zs(2) by (rule f_arg_min_list_f [OF zs(1)])
  show "zoneSpecificity z' d < zoneSpecificity z d \<or>
       zoneSpecificity z' d = zoneSpecificity z d \<and> znOrder z \<le> znOrder z'"
    if "z' \<in> set zones" "0 < zoneSpecificity z' d" "rateOf rates m z' \<noteq> None"
  proof -
    have "?k z \<le> ?k z'" unfolding m by (rule Min_le) (use that in auto)
    then show ?thesis by (auto simp: less_eq_prod_def)
  qed
qed

text \<open>The delivery options offered are those of the reference. Sorting the zones that fit and taking
the first with a rate gives for each method the zone of the highest specificity, then of the smallest
order; an inactive rate there withdraws the method instead of falling back to a wider zone.\<close>

theorem delivery_by_best_zone:
  "quoteShippingOptions d p zones rates methods k =
     List.map_filter (bestOption d p zones rates k) (sort_key smOrder methods)"
proof -
  have "methodOption (matchZones zones d) rates d p k = bestOption d p zones rates k"
  proof (rule ext)
    fix m
    show "methodOption (matchZones zones d) rates d p k m = bestOption d p zones rates k m"
    using bestZone_Some(3) [of rates "smId m" zones d]
    by (auto simp: methodOption_def bestOption_def firstRate_best split: option.split)
  qed
  then show ?thesis by (simp add: quoteShippingOptions_def)
qed

subsection \<open>Facts about product prices\<close>

lemma round_half_up_ge: "of_int n \<le> x \<Longrightarrow> n \<le> round_half_up x"
  using round_half_up_mono [of "of_int n" x] by simp

lemma toRial_mono: "x \<le> y \<Longrightarrow> toRial x \<le> toRial y"
  by (auto simp: toRial_def intro!: round_half_up_mono mult_right_mono divide_right_mono)

lemma toRial_tomans: "10 dvd toRial x"
  by (simp add: toRial_def)

lemma linkAmount_mono:
  assumes "0 \<le> lkValue l" "0 \<le> g" "g \<le> g'" "0 \<le> r" "r \<le> r'"
  shows "0 \<le> linkAmount g r l \<and> linkAmount g r l \<le> linkAmount g' r' l"
  using assms by (auto simp: linkAmount_def Let_def intro!: divide_right_mono mult_right_mono)

lemma pricingLines_mono:
  assumes "\<forall>l \<in> set ls. 0 \<le> lkValue l" "0 \<le> g" "g \<le> g'" "0 \<le> r" "r \<le> r'"
  shows "r \<le> fst (pricingLines g r ls) \<and> fst (pricingLines g r ls) \<le> fst (pricingLines g' r' ls)"
  using assms
proof (induction ls arbitrary: r r')
  case (Cons l ls)
  have a: "0 \<le> linkAmount g r l" "linkAmount g r l \<le> linkAmount g' r' l"
    using linkAmount_mono [of l g g' r r'] Cons.prems by simp_all
  have "r + linkAmount g r l \<le> fst (pricingLines g (r + linkAmount g r l) ls) \<and>
    fst (pricingLines g (r + linkAmount g r l) ls) \<le> fst (pricingLines g' (r' + linkAmount g' r' l) ls)"
    by (rule Cons.IH) (use Cons.prems a in auto)
  then show ?case using a by (auto simp: Let_def split: prod.split)
qed simp

lemma calculateForProduct_gold:
  assumes "pdPurity pd = Some k" "k \<noteq> []"
  shows "calculateForProduct prec s cur (Some pd) w =
    (if w < 0 then Inl (BadRequest ''negative weight'')
     else if w = 0 then Inl (BadRequest ''weight of a gold product'')
     else
     (case resolveGoldPricePerGram prec s cur k of
        Inl e \<Rightarrow> Inl e
      | Inr g \<Rightarrow>
          (if fst (pricingLines (g * w) (g * w) (pdLinks pd)) < 0 then Inl (BadRequest ''negative price'')
           else Inr \<lparr>prGoldPrice = Some (toRial g), prGoldValue = toRial (g * w),
                     prLines = snd (pricingLines (g * w) (g * w) (pdLinks pd)),
                     prFinal = toRial (fst (pricingLines (g * w) (g * w) (pdLinks pd)))\<rparr>)))"
  using assms by (simp add: calculateForProduct_def Let_def split_def split: sum.split)

lemma resolveGoldPricePerGram_pos:
  assumes "resolveGoldPricePerGram prec s cur k = Inr g" and "\<And>x. 0 < x \<Longrightarrow> 0 < prec x"
  shows "0 < g"
  using assms by (auto simp: resolveGoldPricePerGram_def Let_def not_le split: if_splits option.splits)

text \<open>The price of a gold product is a whole number of tomans, is never below the value of its gold
when no component of its price is negative, and never falls when the weight grows: a heavier piece is
priced too, and at least as high.\<close>

theorem product_price_monotone:
  assumes "calculateForProduct prec s cur (Some pd) w = Inr r" and "pdPurity pd = Some k" "k \<noteq> []"
    and "\<forall>l \<in> set (pdLinks pd). 0 \<le> lkValue l" and "\<And>x. 0 < x \<Longrightarrow> 0 < prec x" and "w \<le> w'"
  shows "10 dvd prFinal r \<and> prGoldValue r \<le> prFinal r \<and>
    (\<exists>r'. calculateForProduct prec s cur (Some pd) w' = Inr r' \<and> prFinal r \<le> prFinal r')"
proof -
  note calc = calculateForProduct_gold [OF assms(2,3)]
  from assms(1) obtain g where w: "0 < w" and g: "resolveGoldPricePerGram prec s cur k = Inr g"
    and r: "prFinal r = toRial (fst (pricingLines (g * w) (g * w) (pdLinks pd)))" "prGoldValue r = toRial (g * w)"
    unfolding calc by (auto simp: not_less split: if_splits sum.splits)
  have "0 < g" by (rule resolveGoldPricePerGram_pos [OF g assms(5)])
  then have gw: "0 \<le> g * w" "g * w \<le> g * w'" using w assms(6) by simp_all
  note m = pricingLines_mono [OF assms(4) gw gw]
  have "calculateForProduct prec s cur (Some pd) w' =
      Inr \<lparr>prGoldPrice = Some (toRial g), prGoldValue = toRial (g * w'),
           prLines = snd (pricingLines (g * w') (g * w') (pdLinks pd)),
           prFinal = toRial (fst (pricingLines (g * w') (g * w') (pdLinks pd)))\<rparr>"
    unfolding calc using w assms(6) g m gw by (simp add: not_less)
  then show ?thesis using r m toRial_mono toRial_tomans by auto
qed

definition demoRate :: calc_rate where
  "demoRate = \<lparr>rtId = 1, rtMethod = 2, rtZone = 3, rtBase = 500000, rtBaseWeight = 1000, rtStep = 100000,
     rtStepWeight = 500, rtPercent = 1/5, rtMin = Some 550000, rtMax = Some 900000, rtFreeAbove = None,
     rtMaxWeight = None, rtMaxOrder = None, rtPayment = PREPAID, rtActive = True\<rparr>"

lemma delivery_fee_bounds_witness:
  "let p = \<lparr>plWeight = 1200, plValue = 12345678\<rparr>; q = \<lparr>plWeight = 2600, plValue = 98765432\<rparr> in
   computeRateFee demoRate p 10000 = 630000 \<and> computeRateFee demoRate q 10000 = 900000 \<and>
   computeRateFee demoRate p 10000 \<le> computeRateFee demoRate q 10000"
proof -
  define p where "p = \<lparr>plWeight = 1200, plValue = 12345678\<rparr>"
  define q where "q = \<lparr>plWeight = 2600, plValue = 98765432\<rparr>"
  have "computeRateFee demoRate p 10000 = 630000" "computeRateFee demoRate q 10000 = 900000"
    unfolding p_def q_def by code_simp+
  moreover have "computeRateFee demoRate p 10000 \<le> computeRateFee demoRate q 10000"
    using delivery_fee_bounds [of 10000 demoRate p q] by (simp add: demoRate_def p_def q_def)
  ultimately show ?thesis by (simp add: p_def q_def)
qed

definition demoProduct :: product where
  "demoProduct = \<lparr>pdId = 70, pdActive = True, pdCategoryActive = True, pdIngot = True,
     pdPurity = Some ''K24'', pdBasePrice = None,
     pdLinks = [\<lparr>lkBase = ''GOLD_VALUE'', lkType = ''PERCENT'', lkValue = 7, lkKey = ''making''\<rparr>,
                \<lparr>lkBase = ''RUNNING_TOTAL'', lkType = ''PERCENT'', lkValue = 9, lkKey = ''tax''\<rparr>],
     pdRange = False, pdMin = None, pdMax = None, pdStep = None\<rparr>"

lemma product_price_monotone_witness:
  "\<exists>r r'. calculateForProduct (\<lambda>x. x) demoBooks (Some 90000000) (Some demoProduct) 1 = Inr r \<and>
     calculateForProduct (\<lambda>x. x) demoBooks (Some 90000000) (Some demoProduct) (5/2) = Inr r' \<and>
     prFinal r = 139956000 \<and> prFinal r \<le> prFinal r'"
proof -
  obtain r where r: "calculateForProduct (\<lambda>x. x) demoBooks (Some 90000000) (Some demoProduct) 1 = Inr r"
      "prFinal r = 139956000"
  proof -
    have "map_sum id prFinal (calculateForProduct (\<lambda>x. x) demoBooks (Some 90000000) (Some demoProduct) 1)
        = Inr 139956000" by code_simp
    then show thesis using that by (auto simp: map_sum_def split: sum.splits)
  qed
  have "pdPurity demoProduct = Some ''K24''" "\<forall>l \<in> set (pdLinks demoProduct). 0 \<le> lkValue l"
    by (simp_all add: demoProduct_def)
  from product_price_monotone [OF r(1) this(1) _ this(2), of "5/2"] r show ?thesis by auto
qed

end
