(* ===== verification/Shop.thy ===== *)
theory Shop
  imports Trading ShopPrice
begin

section \<open>The orders of the shop\<close>

text \<open>
  \<open>api/src/shop-orders/shop-orders.service.ts\<close> with what it calls: the checks of a discount code
  (\<open>discount/discount.service.ts\<close>), the choice of a delivery method (\<open>shipping/shipping.service.ts\<close>),
  the cost of sold bars (\<open>accounting/inventory-accounting.service.ts\<close>). The checkout turns a cart into an
  order and takes the goods from stock; the order is paid from the wallet, at a bank gateway, or with both;
  it is cancelled by the user, by staff (with a refund to the wallet) or when it was not paid in time. The
  record \<open>shop\<close> adds the tables of the shop to those of the wallets, invoices, deposits and the market.

  A call that commits and then fails, such as a payment whose gateway does not answer, gives both
  the state it leaves and the error, so these calls return a pair. The answers of the bank gateway are
  arguments. Carts are filled elsewhere; the cart and the address are read in the same step as the
  transaction that uses them. Not modelled: the replies remembered for a repeated request key, free text
  (names, notes, reasons), the history of statuses, notifications, and the recipients of the items.
\<close>

subsection \<open>Tables\<close>

record variant =
  vaId :: nat
  vaProduct :: nat
  vaStock :: int
  vaWeight :: rat
  vaAdjust :: int

record cart_item =
  ciId :: nat
  ciUser :: nat
  ciVariant :: "nat option"
  ciProduct :: "nat option"
  ciQuantity :: int
  ciPrice :: "int option"
  ciExpires :: "int option"
  ciWeight :: "rat option"
  ciBreakdown :: "price_component list"
  ciPackaging :: "nat option"

text \<open>\<open>adProvince\<close> is the code of the province that \<open>resolveProvinceCode\<close> finds for the address.\<close>

record address =
  adId :: nat
  adUser :: nat
  adDeleted :: bool
  adProvince :: "string option"
  adCity :: "nat list option"
  adPostal :: "string option"

datatype shop_order_status =
  SO_PENDING_PAYMENT | SO_PAID | SO_PROCESSING | SO_SHIPPED | SO_DELIVERED | SO_CANCELLED

text \<open>
  The columns of an order that its calls read. Those that only record its course are left out: the times of payment,
  processing, sending, delivery and cancellation, the tracking code, the reason of a cancellation, the notes of staff.
\<close>

record order_row = shop_order +
  soStatus :: shop_order_status
  soNumber :: string
  soAddress :: nat
  soSubtotal :: int
  soPackaging :: int
  soPackagingWaived :: int
  soTotal :: int
  soCode :: "nat option"
  soMelted :: bool
  soGoldGrams :: rat
  soGoldRial :: int
  soGoldRate :: "int option"
  soOnDelivery :: bool
  soEstimate :: "int option"
  soCreated :: int

datatype payment_method = PM_WALLET | PM_BANK_GATEWAY

datatype payment_status = PY_PENDING | PY_SUCCESS | PY_FAILED

datatype gateway_provider = ZARINPAL | BEHPARDAKHT

record payment =
  pyId :: nat
  pyUser :: nat
  pyOrder :: "nat option"
  pyRial :: int
  pyMethod :: payment_method
  pyStatus :: payment_status
  pyProvider :: "gateway_provider option"
  pyRef :: "string option"

text \<open>\<open>packagingLinks\<close> holds the active packaging options of the products in their display order, the
delivery tables the active rows that customers may choose from, \<open>goldQuotes\<close> the locked prices of
bars that the key-value store keeps.\<close>

record gold_quote =
  gqId :: nat
  gqUser :: nat
  gqVariant :: nat
  gqWeight :: rat
  gqPrice :: int
  gqRate :: int
  gqBreakdown :: "price_component list"
  gqExpires :: int

record shop = market +
  products :: "product list"
  variants :: "variant list"
  cartItems :: "cart_item list"
  addresses :: "address list"
  shopOrders :: "order_row list"
  payments :: "payment list"
  discountCodes :: "discount_code list"
  packagingLinks :: "(nat \<times> packaging_option) list"
  shipMethods :: "calc_method list"
  shipZones :: "calc_zone list"
  shipRates :: "calc_rate list"
  goldQuotes :: "gold_quote list"

definition orderById :: "'a shop_scheme \<Rightarrow> nat \<Rightarrow> order_row option" where
  "orderById s i = find (\<lambda>x. soId x = i) (shopOrders s)"

definition variantById :: "'a shop_scheme \<Rightarrow> nat \<Rightarrow> variant option" where
  "variantById s i = find (\<lambda>v. vaId v = i) (variants s)"

definition productById :: "'a shop_scheme \<Rightarrow> nat \<Rightarrow> product option" where
  "productById s i = find (\<lambda>p. pdId p = i) (products s)"

definition setOrder :: "'a shop_scheme \<Rightarrow> nat \<Rightarrow> (order_row \<Rightarrow> order_row) \<Rightarrow> 'a shop_scheme" where
  "setOrder s i f = s\<lparr>shopOrders := update_where (\<lambda>x. soId x = i) f (shopOrders s)\<rparr>"

definition addStock :: "'a shop_scheme \<Rightarrow> nat option \<Rightarrow> int \<Rightarrow> 'a shop_scheme" where
  "addStock s v q =
     (case v of
        None \<Rightarrow> s
      | Some i \<Rightarrow> s\<lparr>variants := update_where (\<lambda>x. vaId x = i) (\<lambda>x. x\<lparr>vaStock := vaStock x + q\<rparr>) (variants s)\<rparr>)"

definition releaseStock :: "'a shop_scheme \<Rightarrow> order_item list \<Rightarrow> 'a shop_scheme" where
  "releaseStock s its = foldl (\<lambda>s it. addStock s (oiVariant it) (oiQuantity it)) s its"

subsection \<open>Discount codes\<close>

text \<open>Orders that use up the quota of a code: all but the cancelled ones.\<close>

definition codeUses :: "'a shop_scheme \<Rightarrow> nat \<Rightarrow> nat" where
  "codeUses s i = count_where (\<lambda>x. soCode x = Some i \<and> soStatus x \<noteq> SO_CANCELLED) (shopOrders s)"

definition codeUsesBy :: "'a shop_scheme \<Rightarrow> nat \<Rightarrow> nat \<Rightarrow> nat" where
  "codeUsesBy s i u =
     count_where (\<lambda>x. soCode x = Some i \<and> soUser x = u \<and> soStatus x \<noteq> SO_CANCELLED) (shopOrders s)"

definition evaluate :: "'a shop_scheme \<Rightarrow> clock \<Rightarrow> string \<Rightarrow> nat \<Rightarrow> int \<Rightarrow> (discount_code \<times> int) res" where
  "evaluate s c raw u subtotal =
     (let code = normalizeCode raw in
      if code = [] then Inl (BadRequest ''no code'')
      else
      (case find (\<lambda>d. dcCode d = code) (discountCodes s) of
         None \<Rightarrow> Inl (BadRequest ''unknown code'')
       | Some d \<Rightarrow>
           if \<not> dcActive d then Inl (BadRequest ''inactive code'')
           else if (case dcStarts d of None \<Rightarrow> False | Some t \<Rightarrow> now c < t) then Inl (BadRequest ''not yet valid'')
           else if (case dcExpires d of None \<Rightarrow> False | Some t \<Rightarrow> t \<le> now c) then Inl (BadRequest ''expired code'')
           else if (case dcUser d of None \<Rightarrow> False | Some v \<Rightarrow> v \<noteq> u) then Inl (BadRequest ''code of another user'')
           else if (case dcMin d of None \<Rightarrow> False | Some m \<Rightarrow> subtotal < m) then Inl (BadRequest ''below the minimum'')
           else if (case dcLimit d of None \<Rightarrow> False | Some l \<Rightarrow> l \<le> int (codeUses s (dcId d)))
           then Inl (BadRequest ''code used up'')
           else if (case dcPerUser d of None \<Rightarrow> False | Some l \<Rightarrow> l \<le> int (codeUsesBy s (dcId d) u))
           then Inl (BadRequest ''code used by this user'')
           else
             (let discount = computeDiscountRial d subtotal in
              if discount \<le> 0 then Inl (BadRequest ''no discount'') else Inr (d, discount))))"

subsection \<open>Delivery\<close>

record shipping_selection =
  seMethod :: nat
  seCharge :: shipping_charge
  seWeight :: rat

definition tareGrams :: "'a ledger_scheme \<Rightarrow> rat" where
  "tareGrams s = max 0 (getNumber s ''shop.shipping.parcel_tare_grams'' 300)"

definition roundUpRial :: "'a ledger_scheme \<Rightarrow> int" where
  "roundUpRial s = max 0 (round_half_up (getNumber s ''shop.shipping.round_up_rial'' 10000))"

definition quoteForAddress ::
  "'a shop_scheme \<Rightarrow> address \<Rightarrow> rat \<Rightarrow> int \<Rightarrow> rat \<times> shipping_option list \<times> bool" where
  "quoteForAddress s a itemsWeight value =
     (let weight = of_int (js_round ((max 0 itemsWeight + tareGrams s) * 100)) / 100 in
      if (case adProvince a of None \<Rightarrow> True | Some p \<Rightarrow> p = []) then (weight, [], True)
      else (weight,
            quoteShippingOptions \<lparr>dsProvince = adProvince a, dsCity = adCity a, dsPostal = adPostal a\<rparr>
              \<lparr>plWeight = weight, plValue = value\<rparr> (shipZones s) (shipRates s) (shipMethods s) (roundUpRial s),
            False))"

text \<open>\<open>later\<close> is the wish to pay on delivery.\<close>

definition resolveForCheckout ::
  "'a shop_scheme \<Rightarrow> address \<Rightarrow> rat \<Rightarrow> int \<Rightarrow> nat option \<Rightarrow> bool \<Rightarrow> shipping_selection option res" where
  "resolveForCheckout s a itemsWeight value methodId later =
     (if \<not> getBoolean s ''shop.shipping.enabled'' True then Inr None
      else
      (case quoteForAddress s a itemsWeight value of
         (weight, options, missing) \<Rightarrow>
           if missing then Inl (BadRequest ''province missing'')
           else
           (case methodId of
              None \<Rightarrow> Inl (BadRequest ''no delivery method chosen'')
            | Some m \<Rightarrow>
                (case find (\<lambda>x. opMethod x = m) options of
                   None \<Rightarrow> Inl (BadRequest ''delivery method not offered'')
                 | Some x \<Rightarrow>
                     if \<not> opAvailable x then Inl (BadRequest ''delivery method not available'')
                     else if later \<and> opPayment x = PREPAID \<and> \<not> opFree x \<and> 0 < opFee x
                     then Inl (BadRequest ''payment on delivery not offered'')
                     else Inr (Some \<lparr>seMethod = m, seCharge = resolveShippingCharge x later,
                                    seWeight = weight\<rparr>)))))"

definition parcelOf :: "'a shop_scheme \<Rightarrow> cart_item list \<Rightarrow> rat \<times> int" where
  "parcelOf s items =
     ((\<Sum>i\<leftarrow>items. (case (case ciVariant i of None \<Rightarrow> None | Some v \<Rightarrow> variantById s v) of
                     Some v \<Rightarrow> vaWeight v | None \<Rightarrow> toDecimal (ciWeight i)) * of_int (ciQuantity i)),
      (\<Sum>i\<leftarrow>items. toDecimal (ciPrice i) * ciQuantity i))"

subsection \<open>The checkout\<close>

text \<open>The product of an item of the cart: that of its variant, else its own.\<close>

definition itemProductId :: "'a shop_scheme \<Rightarrow> cart_item \<Rightarrow> nat option" where
  "itemProductId s i =
     (case (case ciVariant i of None \<Rightarrow> None | Some v \<Rightarrow> variantById s v) of
        Some v \<Rightarrow> Some (vaProduct v) | None \<Rightarrow> ciProduct i)"

definition itemProduct :: "'a shop_scheme \<Rightarrow> cart_item \<Rightarrow> product option" where
  "itemProduct s i = (case itemProductId s i of None \<Rightarrow> None | Some p \<Rightarrow> productById s p)"

definition requestedOf :: "cart_item list \<Rightarrow> nat \<Rightarrow> int" where
  "requestedOf items v = sum_where (\<lambda>i. ciVariant i = Some v) ciQuantity items"

text \<open>The checks of one item.\<close>

definition checkItem :: "'a shop_scheme \<Rightarrow> cart_item list \<Rightarrow> cart_item \<Rightarrow> unit res" where
  "checkItem s items i =
     (if toDecimal (ciPrice i) \<le> 0 then Inl (BadRequest ''invalid locked price'')
      else
      (case ciVariant i of
         Some v \<Rightarrow>
           (case variantById s v of
              None \<Rightarrow> Inl (NotFound ''variant'')
            | Some x \<Rightarrow>
                if productById s (vaProduct x) = None then Inl (NotFound ''variant'')
                else if vaStock x < requestedOf items v then Inl (BadRequest ''out of stock'')
                else Inr ())
       | None \<Rightarrow> if itemProduct s i = None then Inl (NotFound ''product'') else Inr ()))"

fun checkItems :: "'a shop_scheme \<Rightarrow> cart_item list \<Rightarrow> cart_item list \<Rightarrow> unit res" where
  "checkItems s items [] = Inr ()"
| "checkItems s items (i # is) =
     (case checkItem s items i of Inl e \<Rightarrow> Inl e | Inr _ \<Rightarrow> checkItems s items is)"

definition optionsOf :: "'a shop_scheme \<Rightarrow> nat option \<Rightarrow> packaging_option list" where
  "optionsOf s p = (case p of None \<Rightarrow> [] | Some i \<Rightarrow> map snd (filter (\<lambda>l. fst l = i) (packagingLinks s)))"

text \<open>A chosen packaging that is no longer offered is refused, not replaced.\<close>

fun packagingInputs ::
  "'a shop_scheme \<Rightarrow> cart_item list \<Rightarrow> (nat \<times> packaging_option option \<times> int) list res" where
  "packagingInputs s [] = Inr []"
| "packagingInputs s (i # is) =
     (let options = optionsOf s (itemProductId s i) in
      if options \<noteq> [] \<and>
         (case ciPackaging i of None \<Rightarrow> False | Some k \<Rightarrow> \<not> list_ex (\<lambda>x. pkId x = k) options)
      then Inl (BadRequest ''packaging not offered'')
      else
      (case packagingInputs s is of Inl e \<Rightarrow> Inl e
       | Inr rest \<Rightarrow> Inr ((ciId i, pick options (ciPackaging i), ciQuantity i) # rest)))"

definition getGlobalFreeThresholdRial :: "'a ledger_scheme \<Rightarrow> int" where
  "getGlobalFreeThresholdRial s =
     (let v = getNumber s ''shop.packaging.free_threshold_rial'' 0 in if 0 < v then \<lfloor>v\<rfloor> else 0)"

text \<open>The row of an item, with the charge for its packaging.\<close>

definition newItem :: "packaging_summary \<Rightarrow> cart_item \<Rightarrow> order_item" where
  "newItem pk i =
     (let charge = psLines pk (ciId i) in
      \<lparr>oiPrice = toDecimal (ciPrice i), oiQuantity = ciQuantity i, oiBreakdown = ciBreakdown i,
       oiPackaging = (charge \<noteq> None),
       oiPackagingUnit = (case charge of None \<Rightarrow> 0 | Some x \<Rightarrow> pcUnit x),
       oiPackagingQuantity = (case charge of None \<Rightarrow> 0 | Some x \<Rightarrow> pcQuantity x),
       oiPackagingRial = (case charge of None \<Rightarrow> 0 | Some x \<Rightarrow> pcCharged x),
       oiVariant = ciVariant i,
       oiProduct = (if ciVariant i = None then ciProduct i else None),
       oiWeight = (if ciVariant i = None then Some (toDecimal (ciWeight i)) else None)\<rparr>)"

definition selectionCharge :: "shipping_selection option \<Rightarrow> int" where
  "selectionCharge sel = (case sel of None \<Rightarrow> 0 | Some x \<Rightarrow> scShipping (seCharge x))"

definition newOrder ::
  "nat \<Rightarrow> string \<Rightarrow> clock \<Rightarrow> nat \<Rightarrow> nat \<Rightarrow> order_item list \<Rightarrow> int \<Rightarrow> int \<Rightarrow> nat option \<Rightarrow> packaging_summary
     \<Rightarrow> shipping_selection option \<Rightarrow> order_row" where
  "newOrder i num c u addr its subtotal discount code pk sel =
     \<lparr>soId = i, soUser = u, soItems = its, soDiscount = discount,
      soShippingMethod = (sel \<noteq> None), soShipping = selectionCharge sel,
      soShippingWaived = (case sel of None \<Rightarrow> 0 | Some x \<Rightarrow> scWaived (seCharge x)),
      soStatus = SO_PENDING_PAYMENT, soNumber = num, soAddress = addr, soSubtotal = subtotal,
      soPackaging = psCharged pk, soPackagingWaived = psWaived pk,
      soTotal = subtotal - discount + psCharged pk + selectionCharge sel,
      soCode = code, soMelted = False, soGoldGrams = 0, soGoldRial = 0, soGoldRate = None,
      soOnDelivery = (case sel of None \<Rightarrow> False | Some x \<Rightarrow> scOnDelivery (seCharge x)),
      soEstimate = (case sel of None \<Rightarrow> None | Some x \<Rightarrow> Some (scEstimate (seCharge x))),
      soCreated = now c\<rparr>"

definition takeStock :: "'a shop_scheme \<Rightarrow> order_item list \<Rightarrow> 'a shop_scheme" where
  "takeStock s its = foldl (\<lambda>s it. addStock s (oiVariant it) (- oiQuantity it)) s its"

text \<open>The discount of the checkout: none without a code.\<close>

definition checkoutDiscount :: "'a shop_scheme \<Rightarrow> clock \<Rightarrow> string option \<Rightarrow> nat \<Rightarrow> int \<Rightarrow> (nat option \<times> int) res" where
  "checkoutDiscount s c code u subtotal =
     (if (case code of None \<Rightarrow> True | Some t \<Rightarrow> trim t = []) then Inr (None, 0)
      else (case evaluate s c (case code of None \<Rightarrow> [] | Some t \<Rightarrow> t) u subtotal of
              Inl e \<Rightarrow> Inl e
            | Inr (d, discount) \<Rightarrow> Inr (Some (dcId d), discount)))"

definition placeOrder ::
  "'a shop_scheme \<Rightarrow> clock \<Rightarrow> nat \<Rightarrow> nat \<Rightarrow> cart_item list \<Rightarrow> shipping_selection option \<Rightarrow> string option
     \<Rightarrow> ('a shop_scheme \<times> nat) res" where
  "placeOrder s c u addr items sel code =
     (case checkItems s items items of Inl e \<Rightarrow> Inl e | Inr _ \<Rightarrow>
      (let subtotal = (\<Sum>i\<leftarrow>items. toDecimal (ciPrice i) * ciQuantity i) in
       case checkoutDiscount s c code u subtotal of Inl e \<Rightarrow> Inl e
       | Inr (codeId, discount) \<Rightarrow>
           (case packagingInputs s items of Inl e \<Rightarrow> Inl e
            | Inr inputs \<Rightarrow>
                (let pk = computeCharges inputs subtotal (getGlobalFreeThresholdRial s);
                     (s1, num) = sequenceNext s ''SHO'';
                     i = nextId s1;
                     its = map (newItem pk) items;
                     s2 = takeStock (s1\<lparr>nextId := i + 1,
                       shopOrders := shopOrders s1 @ [newOrder i num c u addr its subtotal discount codeId pk sel]\<rparr>) its
                 in Inr (s2\<lparr>cartItems := delete_where (\<lambda>x. ciUser x = u) (cartItems s2)\<rparr>, i)))))"

definition checkout ::
  "'a shop_scheme \<Rightarrow> clock \<Rightarrow> nat \<Rightarrow> nat \<Rightarrow> nat option \<Rightarrow> bool \<Rightarrow> string option \<Rightarrow> ('a shop_scheme \<times> nat) res" where
  "checkout s c u addressId methodId later code =
     (case find (\<lambda>a. adId a = addressId \<and> adUser a = u \<and> \<not> adDeleted a) (addresses s) of
        None \<Rightarrow> Inl (NotFound ''address'')
      | Some a \<Rightarrow>
          (let items = filter (\<lambda>i. ciUser i = u) (cartItems s) in
           if items = [] then Inl (BadRequest ''empty cart'')
           else if list_ex (\<lambda>i. case ciExpires i of None \<Rightarrow> True | Some t \<Rightarrow> t < now c) items
           then Inl (BadRequest ''locked prices expired'')
           else if list_ex (\<lambda>i. case itemProduct s i of None \<Rightarrow> True
                                | Some p \<Rightarrow> \<not> pdActive p \<or> \<not> pdCategoryActive p) items
           then Inl (BadRequest ''product not available'')
           else
           (case resolveForCheckout s a (fst (parcelOf s items)) (snd (parcelOf s items)) methodId later of
              Inl e \<Rightarrow> Inl e
            | Inr sel \<Rightarrow> placeOrder s c u addressId items sel code)))"

subsection \<open>The books of a sale\<close>

definition buildSaleJournalLines :: "int \<Rightarrow> int \<Rightarrow> int \<Rightarrow> int \<Rightarrow> int \<Rightarrow> int \<Rightarrow> line_input list" where
  "buildSaleJournalLines walletRial gatewayRial discount subtotal packaging shipping =
     (if 0 < walletRial then [journalLine ''2010'' DEBIT walletRial] else []) @
     (if 0 < gatewayRial then [journalLine ''1010'' DEBIT gatewayRial] else []) @
     (if 0 < discount then [journalLine ''5030'' DEBIT discount] else []) @
     [journalLine ''4020'' CREDIT subtotal] @
     (if 0 < packaging then [journalLine ''4030'' CREDIT packaging] else []) @
     (if 0 < shipping then [journalLine ''4035'' CREDIT shipping] else [])"

definition saleJournal :: "order_row \<Rightarrow> int \<Rightarrow> int \<Rightarrow> journal_input" where
  "saleJournal x walletRial gatewayRial =
     \<lparr>jiDescription = ''shop sale'', jiTotalRial = soSubtotal x + soPackaging x + soShipping x, jiTotalGrams = 0,
      jiLines = buildSaleJournalLines walletRial gatewayRial (soDiscount x) (soSubtotal x) (soPackaging x) (soShipping x),
      jiSource = None, jiRefType = None, jiRefId = None, jiEntryDate = None, jiCreatedBy = None,
      jiReversalOf = None, jiTransaction = None\<rparr>"

text \<open>The weight of the bars of an order, counted for the items that name a product themselves.\<close>

definition itemBarGrams :: "'a shop_scheme \<Rightarrow> order_item \<Rightarrow> rat" where
  "itemBarGrams s it =
     (case (case oiProduct it of None \<Rightarrow> None | Some p \<Rightarrow> productById s p) of
        None \<Rightarrow> 0
      | Some p \<Rightarrow>
          if (case pdPurity p of None \<Rightarrow> True | Some k \<Rightarrow> k = []) then 0
          else toDecimal (case oiWeight it of
                 Some w \<Rightarrow> Some w
               | None \<Rightarrow> map_option vaWeight (case oiVariant it of None \<Rightarrow> None | Some v \<Rightarrow> variantById s v))
               * of_int (oiQuantity it))"

definition shopOrderBarGrams :: "'a shop_scheme \<Rightarrow> order_row \<Rightarrow> rat" where
  "shopOrderBarGrams s x = (\<Sum>it\<leftarrow>soItems x. itemBarGrams s it)"

definition cogsOf :: "'a ledger_scheme \<Rightarrow> nat \<Rightarrow> journal option" where
  "cogsOf s i =
     find (\<lambda>j. jRefType j = Some ''SHOP_COGS'' \<and> jRefId j = Some i \<and> jReversalOf j = None \<and>
            \<not> list_ex (\<lambda>k. jReversalOf k = Some (jId j)) (journals s)) (journals s)"

definition cogsJournal :: "nat \<Rightarrow> int \<Rightarrow> rat \<Rightarrow> journal_input" where
  "cogsJournal i cost grams =
     \<lparr>jiDescription = ''cost of bars sold'', jiTotalRial = cost, jiTotalGrams = grams,
      jiLines = [bothLine ''5060'' DEBIT cost grams, bothLine ''1025'' CREDIT cost grams],
      jiSource = Some INVENTORY, jiRefType = Some ''SHOP_COGS'', jiRefId = Some i, jiEntryDate = None,
      jiCreatedBy = None, jiReversalOf = None, jiTransaction = None\<rparr>"

definition postShopCogs :: "(rat \<Rightarrow> rat) \<Rightarrow> 'a shop_scheme \<Rightarrow> clock \<Rightarrow> order_row \<Rightarrow> 'a shop_scheme res" where
  "postShopCogs prec s c x =
     (let grams = shopOrderBarGrams s x in
      if grams \<le> 0 then Inr s
      else if cogsOf s (soId x) \<noteq> None then Inr s
      else stateOf (postJournal s (now c) (cogsJournal (soId x) (averageCostRial prec s ''1025'' grams) grams)))"

definition reverseShopCogs :: "'a shop_scheme \<Rightarrow> clock \<Rightarrow> nat \<Rightarrow> 'a shop_scheme res" where
  "reverseShopCogs s c i =
     (case cogsOf s i of
        None \<Rightarrow> Inr s
      | Some j \<Rightarrow>
          stateOf (reverseJournal s (now c) (jId j)
            \<lparr>roDescription = Some ''cost of bars: order cancelled'', roCreatedBy = None,
             roRefType = None, roRefId = None\<rparr>))"

text \<open>Gold of the wallet becomes rial credit for the purchase; \<open>back\<close> is the way back at a cancellation.\<close>

definition conversionJournal :: "nat \<Rightarrow> rat \<Rightarrow> int \<Rightarrow> bool \<Rightarrow> journal_input" where
  "conversionJournal i grams rial undo =
     (let d = (if undo then CREDIT else DEBIT); k = (if undo then DEBIT else CREDIT) in
      \<lparr>jiDescription = ''gold for a bar'', jiTotalRial = rial, jiTotalGrams = grams,
       jiLines = [bothLine ''2020'' d rial grams, journalLine ''2010'' k rial, gramLine ''1090'' k grams],
       jiSource = None, jiRefType = Some ''ORDER'', jiRefId = Some i, jiEntryDate = None,
       jiCreatedBy = None, jiReversalOf = None, jiTransaction = None\<rparr>)"

definition postGoldConversionJournal ::
  "'a shop_scheme \<Rightarrow> clock \<Rightarrow> nat \<Rightarrow> rat \<Rightarrow> int \<Rightarrow> bool \<Rightarrow> 'a shop_scheme res" where
  "postGoldConversionJournal s c i grams rial undo =
     (if grams \<le> 0 then Inr s else stateOf (postJournal s (now c) (conversionJournal i grams rial undo)))"

subsection \<open>Payments\<close>

definition shopTransaction ::
  "nat \<Rightarrow> clock \<Rightarrow> nat \<Rightarrow> nat \<Rightarrow> transaction_type \<Rightarrow> int option \<Rightarrow> rat option \<Rightarrow> nat \<Rightarrow> transaction" where
  "shopTransaction i c u w ty rial grams ord =
     \<lparr>tId = i, tUser = u, tWallet = w, tType = ty, tStatus = TX_COMPLETED, tRial = rial, tGrams = grams,
      tPrice = None, tFee = None, tTax = None, tCreated = now c, tRelated = None, tShopOrder = Some ord\<rparr>"

definition addTransaction ::
  "'a bank_scheme \<Rightarrow> (nat \<Rightarrow> transaction) \<Rightarrow> 'a bank_scheme" where
  "addTransaction s f = s\<lparr>nextId := nextId s + 1, transactions := transactions s @ [f (nextId s)]\<rparr>"

definition addPayment :: "'a shop_scheme \<Rightarrow> (nat \<Rightarrow> payment) \<Rightarrow> 'a shop_scheme" where
  "addPayment s f = s\<lparr>nextId := nextId s + 1, payments := payments s @ [f (nextId s)]\<rparr>"

definition addHold :: "'a bank_scheme \<Rightarrow> (nat \<Rightarrow> hold) \<Rightarrow> 'a bank_scheme" where
  "addHold s f = s\<lparr>nextId := nextId s + 1, holds := holds s @ [f (nextId s)]\<rparr>"

definition walletPayment :: "nat \<Rightarrow> nat \<Rightarrow> int \<Rightarrow> payment_status \<Rightarrow> nat \<Rightarrow> payment" where
  "walletPayment u ord amount st i =
     \<lparr>pyId = i, pyUser = u, pyOrder = Some ord, pyRial = amount, pyMethod = PM_WALLET, pyStatus = st,
      pyProvider = None, pyRef = None\<rparr>"

definition setPayments :: "'a shop_scheme \<Rightarrow> (payment \<Rightarrow> bool) \<Rightarrow> payment_status \<Rightarrow> 'a shop_scheme" where
  "setPayments s p st = s\<lparr>payments := update_where p (\<lambda>x. x\<lparr>pyStatus := st\<rparr>) (payments s)\<rparr>"

definition orderHold :: "'a bank_scheme \<Rightarrow> nat \<Rightarrow> hold_type \<Rightarrow> hold option" where
  "orderHold s ord ty = find (\<lambda>h. hRef h = Some ord \<and> hType h = ty) (holds s)"

definition dropOrderHolds :: "'a bank_scheme \<Rightarrow> nat \<Rightarrow> hold_type \<Rightarrow> 'a bank_scheme" where
  "dropOrderHolds s ord ty = s\<lparr>holds := delete_where (\<lambda>h. hRef h = Some ord \<and> hType h = ty) (holds s)\<rparr>"

text \<open>The hold on rial is found and deleted by its id, those on gold all at once.\<close>

definition releaseOrderWalletHold :: "'a shop_scheme \<Rightarrow> nat \<Rightarrow> 'a shop_scheme" where
  "releaseOrderWalletHold s ord =
     setPayments (dropOrderHolds (dropHold s (map_option hId (orderHold s ord HOLD_ORDER))) ord HOLD_ORDER_GOLD)
       (\<lambda>p. pyOrder p = Some ord \<and> pyMethod p = PM_WALLET \<and> pyStatus p = PY_PENDING) PY_FAILED"

text \<open>Giving up an unpaid order: goods back, holds and pending payments closed.\<close>

definition closeUnpaid :: "'a shop_scheme \<Rightarrow> order_row \<Rightarrow> 'a shop_scheme" where
  "closeUnpaid s x =
     setOrder (setPayments (releaseOrderWalletHold (releaseStock s (soItems x)) (soId x))
         (\<lambda>p. pyOrder p = Some (soId x) \<and> pyStatus p = PY_PENDING) PY_FAILED)
       (soId x) (\<lambda>y. y\<lparr>soStatus := SO_CANCELLED\<rparr>)"

definition cancelUnpaidGoldOrder :: "'a shop_scheme \<Rightarrow> nat \<Rightarrow> 'a shop_scheme" where
  "cancelUnpaidGoldOrder s i =
     (case orderById s i of
        None \<Rightarrow> s
      | Some x \<Rightarrow> if soStatus x = SO_PENDING_PAYMENT then closeUnpaid s x else s)"

definition captureGoldLeg :: "'a shop_scheme \<Rightarrow> clock \<Rightarrow> order_row \<Rightarrow> bool \<Rightarrow> 'a shop_scheme res" where
  "captureGoldLeg s c x requireHold =
     (if soGoldGrams x \<le> 0 then Inr s
      else
      (case walletOfUser s (soUser x) of
         None \<Rightarrow> Inl (NotFound ''wallet'')
       | Some w \<Rightarrow>
           (let h = orderHold s (soId x) HOLD_ORDER_GOLD in
            if requireHold \<and> (case h of None \<Rightarrow> True | Some k \<Rightarrow> hExpires k \<le> now c)
            then Inl (Conflict ''gold hold missing or expired'')
            else if wGrams w < soGoldGrams x then Inl (Conflict ''insufficient gold'')
            else
            (case walletAdd s (wId w) 0 (- soGoldGrams x) of Inl e \<Rightarrow> Inl e
             | Inr s1 \<Rightarrow>
                 postGoldConversionJournal
                   (addTransaction (dropHold s1 (map_option hId h))
                      (\<lambda>i. shopTransaction i c (soUser x) (wId w) PHYSICAL_DELIVERY (Some (soGoldRial x))
                             (Some (soGoldGrams x)) (soId x)))
                   c (soId x) (soGoldGrams x) (soGoldRial x) False))))"

definition shopDbError :: "err \<Rightarrow> err" where
  "shopDbError e =
     (case e of
        BadRequest m \<Rightarrow> BadRequest m | NotFound m \<Rightarrow> NotFound m | Forbidden m \<Rightarrow> Forbidden m
      | Conflict m \<Rightarrow> Conflict m
      | _ \<Rightarrow> BadRequest ''order could not be processed'')"

text \<open>The transaction of a payment from the wallet; what the caller checked before is not checked again.\<close>

definition captureWalletOnly ::
  "(rat \<Rightarrow> rat) \<Rightarrow> 'a shop_scheme \<Rightarrow> clock \<Rightarrow> nat \<Rightarrow> nat \<Rightarrow> int \<Rightarrow> 'a shop_scheme res" where
  "captureWalletOnly prec s c u i amount =
     (case walletOfUser s u of
        None \<Rightarrow> Inl (NotFound ''wallet'')
      | Some w \<Rightarrow>
          (case orderById s i of
             None \<Rightarrow> Inl (NotFound ''order'')
           | Some x \<Rightarrow>
               if wRial w < amount then Inl (BadRequest ''insufficient balance'')
               else
               (case walletAdd s (wId w) (- amount) 0 of Inl e \<Rightarrow> Inl (shopDbError e)
                | Inr s1 \<Rightarrow>
                    (let s2 = addTransaction (addPayment s1 (walletPayment u i amount PY_SUCCESS))
                                (\<lambda>t. shopTransaction t c u (wId w) SHOP_PURCHASE (Some amount) None i) in
                     case postJournal s2 (now c) (saleJournal x amount 0) of Inl e \<Rightarrow> Inl (shopDbError e)
                     | Inr (s3, _) \<Rightarrow>
                         (case postShopCogs prec s3 c x of Inl e \<Rightarrow> Inl (shopDbError e)
                          | Inr s4 \<Rightarrow>
                              (case issueForShopOrder (setOrder s4 i (\<lambda>y. y\<lparr>soStatus := SO_PAID\<rparr>)) x of
                                 Inl e \<Rightarrow> Inl (shopDbError e)
                               | Inr (s5, _) \<Rightarrow> Inr s5))))))"

definition reserveWalletHold ::
  "'a shop_scheme \<Rightarrow> clock \<Rightarrow> nat \<Rightarrow> nat \<Rightarrow> int \<Rightarrow> 'a shop_scheme res" where
  "reserveWalletHold s c u i amount =
     (case walletOfUser s u of
        None \<Rightarrow> Inl (NotFound ''wallet'')
      | Some w \<Rightarrow>
          if wRial w - heldRial s (now c) (wId w) < amount then Inl (BadRequest ''insufficient balance'')
          else
            (let s1 = addHold (dropOrderHolds s i HOLD_ORDER)
                        (\<lambda>h. \<lparr>hId = h, hWallet = wId w, hRial = Some amount, hGrams = None, hType = HOLD_ORDER,
                             hRef = Some i, hExpires = now c + 15 * 60 * 1000\<rparr>) in
             Inr (case find (\<lambda>p. pyOrder p = Some i \<and> pyMethod p = PM_WALLET \<and> pyStatus p = PY_PENDING) (payments s1) of
                    Some p \<Rightarrow> s1\<lparr>payments := update_where (\<lambda>q. pyId q = pyId p) (\<lambda>q. q\<lparr>pyRial := amount\<rparr>) (payments s1)\<rparr>
                  | None \<Rightarrow> addPayment s1 (walletPayment u i amount PY_PENDING))))"

text \<open>The gateway's answer: the reference of the payment page it opened, or an error. A
reference is unique for its provider.\<close>

definition beginGatewayPayment ::
  "'a shop_scheme \<Rightarrow> nat \<Rightarrow> nat \<Rightarrow> int \<Rightarrow> gateway_provider \<Rightarrow> string res \<Rightarrow> 'a shop_scheme res" where
  "beginGatewayPayment s u i amount provider answer =
     (case answer of
        Inl e \<Rightarrow> Inl e
      | Inr ref \<Rightarrow>
          if list_ex (\<lambda>p. pyProvider p = Some provider \<and> pyRef p = Some ref) (payments s)
          then Inl (DbConstraint ''P2002'')
          else Inr (addPayment s (\<lambda>k. \<lparr>pyId = k, pyUser = u, pyOrder = Some i, pyRial = amount,
                 pyMethod = PM_BANK_GATEWAY, pyStatus = PY_PENDING, pyProvider = Some provider,
                 pyRef = Some ref\<rparr>)))"

datatype pay_mode =
    BY_WALLET
  | BY_GATEWAY gateway_provider
  | MIXED int int gateway_provider

text \<open>The reads before the payment: \<open>None\<close> for an order that is paid already, else its total.\<close>

definition payChecks :: "'a shop_scheme \<Rightarrow> nat \<Rightarrow> nat \<Rightarrow> int option res" where
  "payChecks s u i =
     (case find (\<lambda>x. soId x = i \<and> soUser x = u) (shopOrders s) of
        None \<Rightarrow> Inl (NotFound ''order'')
      | Some x \<Rightarrow>
          if soStatus x = SO_PAID then Inr None
          else if soStatus x \<noteq> SO_PENDING_PAYMENT then Inl (Conflict ''not payable'')
          else if soMelted x then Inl (Conflict ''gold order'')
          else Inr (Some (soTotal x)))"

text \<open>The answer tells whether the order is paid (\<open>True\<close>) or the user goes to the gateway.\<close>

definition payOrder ::
  "(rat \<Rightarrow> rat) \<Rightarrow> 'a shop_scheme \<Rightarrow> clock \<Rightarrow> nat \<Rightarrow> nat \<Rightarrow> pay_mode \<Rightarrow> string res \<Rightarrow> 'a shop_scheme \<times> bool res" where
  "payOrder prec s c u i mode answer =
     (case payChecks s u i of
        Inl e \<Rightarrow> (s, Inl e)
      | Inr None \<Rightarrow> (s, Inr True)
      | Inr (Some due) \<Rightarrow>
          if mode = BY_WALLET \<or> due \<le> 0
          then (case captureWalletOnly prec s c u i due of Inl e \<Rightarrow> (s, Inl e) | Inr s' \<Rightarrow> (s', Inr True))
          else
          (case mode of
             BY_WALLET \<Rightarrow> (s, Inr True)
           | BY_GATEWAY provider \<Rightarrow>
               (case beginGatewayPayment s u i due provider answer of
                  Inl e \<Rightarrow> (s, Inl e) | Inr s' \<Rightarrow> (s', Inr False))
           | MIXED fromWallet fromGateway provider \<Rightarrow>
               if fromWallet + fromGateway \<noteq> due then (s, Inl (BadRequest ''amounts do not add up''))
               else if fromWallet \<le> 0 \<or> fromGateway \<le> 0 then (s, Inl (BadRequest ''both amounts must be positive''))
               else
               (case reserveWalletHold s c u i fromWallet of
                  Inl e \<Rightarrow> (s, Inl e)
                | Inr s1 \<Rightarrow>
                    (case beginGatewayPayment s1 u i fromGateway provider answer of
                       Inl e \<Rightarrow> (releaseOrderWalletHold s1 i, Inl e)
                     | Inr s2 \<Rightarrow> (s2, Inr False)))))"

text \<open>The wallet's part of a payment at the gateway: what its hold reserves is taken. The answer is
the wallet the purchase is recorded for and the amount taken from it.\<close>

definition takeWalletLeg :: "'a shop_scheme \<Rightarrow> clock \<Rightarrow> payment \<Rightarrow> nat \<Rightarrow> ('a shop_scheme \<times> nat \<times> int) res" where
  "takeWalletLeg s c p i =
     (case find (\<lambda>q. pyOrder q = Some i \<and> pyMethod q = PM_WALLET \<and> pyStatus q = PY_PENDING) (payments s) of
        Some leg \<Rightarrow>
          (case orderHold s i HOLD_ORDER of
             None \<Rightarrow> Inl (Conflict ''hold missing or expired'')
           | Some h \<Rightarrow>
               if hExpires h \<le> now c then Inl (Conflict ''hold missing or expired'')
               else
               (case walletById s (hWallet h) of
                  None \<Rightarrow> Inl (NotFound ''wallet'')
                | Some w \<Rightarrow>
                    (let amount = toDecimal (hRial h) in
                     if wRial w < amount then Inl (Conflict ''insufficient balance'')
                     else
                     (case walletAdd s (wId w) (- amount) 0 of Inl e \<Rightarrow> Inl e
                      | Inr s1 \<Rightarrow>
                          Inr (setPayments (dropHold s1 (Some (hId h))) (\<lambda>q. pyId q = pyId leg) PY_SUCCESS,
                               wId w, amount)))))
      | None \<Rightarrow>
          (case walletOfUser s (pyUser p) of
             None \<Rightarrow> Inl (NotFound ''wallet'')
           | Some w \<Rightarrow> Inr (s, wId w, 0)))"

text \<open>The transaction that a verified payment \<open>p\<close> of the order \<open>i\<close> commits.\<close>

definition finalizePayment ::
  "(rat \<Rightarrow> rat) \<Rightarrow> 'a shop_scheme \<Rightarrow> clock \<Rightarrow> payment \<Rightarrow> nat \<Rightarrow> 'a shop_scheme res" where
  "finalizePayment prec s c p i =
     (let s0 = setPayments s (\<lambda>q. pyId q = pyId p) PY_SUCCESS in
      case takeWalletLeg s0 c p i of Inl e \<Rightarrow> Inl e
      | Inr (s1, w, fromWallet) \<Rightarrow>
          (case orderById s1 i of
             None \<Rightarrow> Inl (NotFound ''order'')
           | Some x \<Rightarrow>
               if soStatus x = SO_PAID then Inr s1
               else if soStatus x \<noteq> SO_PENDING_PAYMENT then Inl (Conflict ''order cannot be paid'')
               else
               (case captureGoldLeg s1 c x True of Inl e \<Rightarrow> Inl e
                | Inr s2 \<Rightarrow>
                    (case postJournal s2 (now c)
                            (saleJournal x (fromWallet + soGoldRial x) (soTotal x - fromWallet - soGoldRial x)) of
                       Inl e \<Rightarrow> Inl e
                     | Inr (s3, _) \<Rightarrow>
                         (case postShopCogs prec s3 c x of Inl e \<Rightarrow> Inl e
                          | Inr s4 \<Rightarrow>
                              Inr (setOrder
                                (addTransaction s4 (\<lambda>t. shopTransaction t c (pyUser p) w SHOP_PURCHASE
                                   (Some (soTotal x - soGoldRial x)) None i))
                                i (\<lambda>y. y\<lparr>soStatus := SO_PAID\<rparr>)))))))"

text \<open>The invoice is issued after the payment, in a transaction of its own whose failure is only logged.\<close>

definition tryInvoice :: "'a shop_scheme \<Rightarrow> nat \<Rightarrow> 'a shop_scheme" where
  "tryInvoice s i =
     (case orderById s i of
        None \<Rightarrow> s
      | Some x \<Rightarrow> (case issueForShopOrder s x of Inl _ \<Rightarrow> s | Inr (s', _) \<Rightarrow> s'))"

text \<open>The way back from the gateway; \<open>verified\<close> is what the gateway says of the payment. The
answer tells whether the payment succeeded and whether it was known before.\<close>

definition handleGatewayCallback ::
  "(rat \<Rightarrow> rat) \<Rightarrow> 'a shop_scheme \<Rightarrow> clock \<Rightarrow> gateway_provider \<Rightarrow> string \<Rightarrow> bool \<Rightarrow> 'a shop_scheme \<times> (bool \<times> bool) res" where
  "handleGatewayCallback prec s c provider ref verified =
     (case find (\<lambda>p. pyProvider p = Some provider \<and> pyRef p = Some ref) (payments s) of
        None \<Rightarrow> (s, Inl (NotFound ''payment''))
      | Some p \<Rightarrow>
          (case pyOrder p of
             None \<Rightarrow> (s, Inl (NotFound ''payment''))
           | Some i \<Rightarrow>
               if pyStatus p = PY_SUCCESS then (s, Inr (True, True))
               else if pyStatus p = PY_FAILED then (s, Inr (False, True))
               else if \<not> verified then
                 (let s1 = releaseOrderWalletHold (setPayments s (\<lambda>q. pyId q = pyId p) PY_FAILED) i in
                  (if (case orderById s i of None \<Rightarrow> False | Some x \<Rightarrow> soMelted x)
                   then cancelUnpaidGoldOrder s1 i else s1, Inr (False, False)))
               else
               (case finalizePayment prec s c p i of
                  Inl e \<Rightarrow> (s, Inl (shopDbError e))
                | Inr s1 \<Rightarrow> (tryInvoice s1 i, Inr (True, False)))))"

subsection \<open>Cancelling and processing\<close>

definition cancelByUser :: "'a shop_scheme \<Rightarrow> nat \<Rightarrow> nat \<Rightarrow> ('a shop_scheme \<times> bool) res" where
  "cancelByUser s u i =
     (case find (\<lambda>x. soId x = i \<and> soUser x = u) (shopOrders s) of
        None \<Rightarrow> Inl (NotFound ''order'')
      | Some x \<Rightarrow>
          if soStatus x = SO_CANCELLED then Inr (s, True)
          else if soStatus x \<noteq> SO_PENDING_PAYMENT then Inl (Conflict ''only unpaid orders'')
          else Inr (closeUnpaid s x, False))"

definition processOrder :: "'a shop_scheme \<Rightarrow> nat \<Rightarrow> ('a shop_scheme \<times> bool) res" where
  "processOrder s i =
     (case orderById s i of
        None \<Rightarrow> Inl (NotFound ''order'')
      | Some x \<Rightarrow>
          if soStatus x = SO_PROCESSING then Inr (s, True)
          else if soStatus x \<noteq> SO_PAID then Inl (Conflict ''only paid orders'')
          else Inr (setOrder s i (\<lambda>y. y\<lparr>soStatus := SO_PROCESSING\<rparr>), False))"

definition refundLines :: "order_row \<Rightarrow> int \<Rightarrow> line_input list" where
  "refundLines x refund =
     [journalLine ''4020'' DEBIT (soSubtotal x)] @
     (if 0 < soPackaging x then [journalLine ''4030'' DEBIT (soPackaging x)] else []) @
     (if 0 < soShipping x then [journalLine ''4035'' DEBIT (soShipping x)] else []) @
     (if 0 < refund + soGoldRial x then [journalLine ''2010'' CREDIT (refund + soGoldRial x)] else []) @
     (if 0 < soDiscount x then [journalLine ''5030'' CREDIT (soDiscount x)] else [])"

definition refundJournal :: "order_row \<Rightarrow> int \<Rightarrow> journal_input" where
  "refundJournal x refund =
     \<lparr>jiDescription = ''refund of a cancelled order'',
      jiTotalRial = soSubtotal x + soPackaging x + soShipping x, jiTotalGrams = 0,
      jiLines = refundLines x refund, jiSource = None, jiRefType = None, jiRefId = None, jiEntryDate = None,
      jiCreatedBy = None, jiReversalOf = None, jiTransaction = None\<rparr>"

text \<open>Gold that paid for the order comes back as gold.\<close>

definition refundGold :: "'a shop_scheme \<Rightarrow> clock \<Rightarrow> order_row \<Rightarrow> wallet \<Rightarrow> 'a shop_scheme res" where
  "refundGold s c x w =
     (if 0 < soGoldGrams x
      then
        (case walletAdd s (wId w) 0 (soGoldGrams x) of Inl e \<Rightarrow> Inl e
         | Inr s1 \<Rightarrow>
             postGoldConversionJournal
               (addTransaction s1 (\<lambda>t. shopTransaction t c (soUser x) (wId w) REFUND None (Some (soGoldGrams x)) (soId x)))
               c (soId x) (soGoldGrams x) (soGoldRial x) True)
      else Inr s)"

definition refundRial :: "'a shop_scheme \<Rightarrow> clock \<Rightarrow> order_row \<Rightarrow> wallet \<Rightarrow> int \<Rightarrow> 'a shop_scheme res" where
  "refundRial s c x w refund =
     (if 0 < refund
      then
        (case walletAdd s (wId w) refund 0 of Inl e \<Rightarrow> Inl e
         | Inr s1 \<Rightarrow>
             Inr (addTransaction s1 (\<lambda>t. shopTransaction t c (soUser x) (wId w) REFUND (Some refund) None (soId x))))
      else Inr s)"

definition refundOrder :: "'a shop_scheme \<Rightarrow> clock \<Rightarrow> order_row \<Rightarrow> 'a shop_scheme res" where
  "refundOrder s c x =
     (case walletOfUser s (soUser x) of
        None \<Rightarrow> Inl (NotFound ''wallet'')
      | Some w \<Rightarrow>
          if list_ex (\<lambda>t. tShopOrder t = Some (soId x) \<and> tType t = REFUND \<and> tStatus t = TX_COMPLETED) (transactions s)
          then Inr s
          else
            (let refund = soTotal x - soGoldRial x in
             case refundGold s c x w of Inl e \<Rightarrow> Inl e
             | Inr s1 \<Rightarrow>
                 (case refundRial s1 c x w refund of Inl e \<Rightarrow> Inl e
                  | Inr s2 \<Rightarrow>
                      (case postJournal s2 (now c) (refundJournal x refund) of Inl e \<Rightarrow> Inl e
                       | Inr (s3, _) \<Rightarrow> reverseShopCogs s3 c (soId x)))))"

definition adminCancel :: "'a shop_scheme \<Rightarrow> clock \<Rightarrow> nat \<Rightarrow> ('a shop_scheme \<times> bool) res" where
  "adminCancel s c i =
     (case orderById s i of
        None \<Rightarrow> Inl (NotFound ''order'')
      | Some x \<Rightarrow>
          if soStatus x = SO_CANCELLED then Inr (s, True)
          else if soStatus x = SO_SHIPPED \<or> soStatus x = SO_DELIVERED then Inl (Conflict ''already sent'')
          else
            (let s1 = releaseOrderWalletHold (releaseStock s (soItems x)) i in
             case (if soStatus x = SO_PAID \<or> soStatus x = SO_PROCESSING then refundOrder s1 c x else Inr s1) of
               Inl e \<Rightarrow> Inl e
             | Inr s2 \<Rightarrow>
                 Inr (setOrder (setPayments s2 (\<lambda>p. pyOrder p = Some i \<and> pyStatus p = PY_PENDING) PY_FAILED)
                        i (\<lambda>y. y\<lparr>soStatus := SO_CANCELLED\<rparr>), False)))"

definition PENDING_PAYMENT_TTL_MINUTES :: int where "PENDING_PAYMENT_TTL_MINUTES = 30"

text \<open>The job reads the stale orders first and then closes each that is still unpaid.\<close>

definition expireOrder :: "'a shop_scheme \<Rightarrow> order_row \<Rightarrow> 'a shop_scheme" where
  "expireOrder s x =
     (case orderById s (soId x) of
        None \<Rightarrow> s
      | Some y \<Rightarrow> if soStatus y \<noteq> SO_PENDING_PAYMENT then s else closeUnpaid s x)"

definition expireStaleOrders :: "'a shop_scheme \<Rightarrow> clock \<Rightarrow> 'a shop_scheme" where
  "expireStaleOrders s c =
     foldl expireOrder s
       (filter (\<lambda>x. soStatus x = SO_PENDING_PAYMENT \<and> soCreated x < now c - PENDING_PAYMENT_TTL_MINUTES * 60 * 1000)
          (shopOrders s))"
end
