(* ===== verification/GoldBar.thy ===== *)
theory GoldBar
  imports Shop
begin

section \<open>Bars paid with gold of the wallet\<close>

text \<open>
  \<open>api/src/shop-orders/gold-bar-delivery.service.ts\<close>: the physical delivery of gold. A user picks
  a bar of the shop; its price and the rate for the user's gold are locked for a short time; the order
  takes gold of the wallet up to the weight of the bar, then more gold, rial of the wallet and a gateway
  for the rest. An order that needs no gateway is paid in the transaction that creates it; otherwise gold
  and rial are held until the gateway answers. The list of bars, the list of orders and the display
  of the plan only read and are left out, and so is the display of delivery options in a quote.
\<close>

definition HOLD_MINUTES :: int where "HOLD_MINUTES = 15"

definition minGoldGrams :: "'a ledger_scheme \<Rightarrow> rat" where
  "minGoldGrams s = getNumber s ''physical_delivery.min_gold_grams'' (1/2)"

definition quoteTtlSeconds :: "'a ledger_scheme \<Rightarrow> rat" where
  "quoteTtlSeconds s = min (max (getNumber s ''trade.lock_duration_seconds'' 120) 30) 600"

definition goldRateRial :: "'a market_scheme \<Rightarrow> clock \<Rightarrow> int res" where
  "goldRateRial s c =
     (case getTradableGoldQuote (prices s) (now c) of
        None \<Rightarrow> Inl (BadRequest ''no price'')
      | Some q \<Rightarrow>
          if qPrice q \<le> 0 then Inl (BadRequest ''no price'')
          else if max (getNumber s ''trade.gold.max_price_age_seconds'' 180) 60 < of_int (now c - qFetched q) / 1000
          then Inl (BadRequest ''stale price'')
          else Inr (round_down (of_int (qPrice q) * (1 - getNumber s ''trade.gold.spread_percent'' 0 / 100))))"

definition assertEligibleUser :: "'a bank_scheme \<Rightarrow> nat \<Rightarrow> unit res" where
  "assertEligibleUser s u =
     (case find (\<lambda>x. uId x = u) (users s) of
        None \<Rightarrow> Inl (NotFound ''user'')
      | Some x \<Rightarrow>
          if uStatus x \<noteq> ACTIVE then Inl (Forbidden ''account not active'')
          else if uIdentity x \<noteq> Some ID_VERIFIED then Inl (Forbidden ''identity not verified'')
          else if \<not> getBoolean s ''service.gold_ingot.enabled'' True then Inl (Forbidden ''service disabled'')
          else Inr ())"

text \<open>What the active holds leave free, in gold and in rial.\<close>

definition goldAvailable :: "'a bank_scheme \<Rightarrow> clock \<Rightarrow> wallet \<Rightarrow> rat" where
  "goldAvailable s c w = max 0 (wGrams w - heldGrams s (now c) (wId w))"

definition rialAvailable :: "'a bank_scheme \<Rightarrow> clock \<Rightarrow> wallet \<Rightarrow> int" where
  "rialAvailable s c w = max 0 (wRial w - heldRial s (now c) (wId w))"

definition availableBar :: "'a shop_scheme \<Rightarrow> nat \<Rightarrow> variant option" where
  "availableBar s v =
     find (\<lambda>x. vaId x = v \<and> 0 < vaStock x \<and>
        (case productById s (vaProduct x) of None \<Rightarrow> False
         | Some p \<Rightarrow> pdActive p \<and> pdIngot p \<and> pdCategoryActive p)) (variants s)"

definition lineComponent :: "pricing_line \<Rightarrow> price_component" where
  "lineComponent l = \<lparr>pcKey = prlKey l, pcAmount = prlAmount l, pcRate = prlValue l\<rparr>"

text \<open>The price of a variant; reading the gold price may refresh the cache.\<close>

definition priceVariant ::
  "(rat \<Rightarrow> rat) \<Rightarrow> 'a shop_scheme \<Rightarrow> clock \<Rightarrow> variant \<Rightarrow> 'a shop_scheme \<times> (int \<times> price_component list) res" where
  "priceVariant prec s c v =
     (let pr = productById s (vaProduct v);
          gold = (case pr of None \<Rightarrow> False | Some p \<Rightarrow> pdPurity p \<noteq> None \<and> pdPurity p \<noteq> Some []) \<and> 0 < vaWeight v;
          (current, cached) = (if gold then getCurrentGoldPriceDecimal (prices s) (now c) else (None, prices s)) in
      (s\<lparr>prices := cached\<rparr>,
       case calculateForProduct prec s (map_option of_int current) pr (vaWeight v) of
         Inl e \<Rightarrow> Inl e
       | Inr r \<Rightarrow>
           (let price = prFinal r + vaAdjust v in
            if price \<le> 0 then Inl (BadRequest ''no price for the bar'')
            else Inr (price, map lineComponent (prLines r)))))"

definition quoteBar ::
  "(rat \<Rightarrow> rat) \<Rightarrow> 'a shop_scheme \<Rightarrow> clock \<Rightarrow> nat \<Rightarrow> nat \<Rightarrow> 'a shop_scheme \<times> nat res" where
  "quoteBar prec s c u v =
     (case assertEligibleUser s u of Inl e \<Rightarrow> (s, Inl e) | Inr _ \<Rightarrow>
      (case availableBar s v of
         None \<Rightarrow> (s, Inl (NotFound ''bar''))
       | Some x \<Rightarrow>
           (case goldRateRial s c of Inl e \<Rightarrow> (s, Inl e) | Inr rate \<Rightarrow>
           (case walletOfUser s u of None \<Rightarrow> (s, Inl (NotFound ''wallet'')) | Some w \<Rightarrow>
           (case priceVariant prec s c x of
              (s1, Inl e) \<Rightarrow> (s1, Inl e)
            | (s1, Inr (price, breakdown)) \<Rightarrow>
                if goldAvailable s c w < minGoldGrams s then (s1, Inl (BadRequest ''not enough gold''))
                else
                  (s1\<lparr>nextId := nextId s1 + 1,
                      goldQuotes := goldQuotes s1 @
                        [\<lparr>gqId = nextId s1, gqUser = u, gqVariant = v, gqWeight = vaWeight x, gqPrice = price,
                          gqRate = rate, gqBreakdown = breakdown,
                          gqExpires = now c + \<lfloor>quoteTtlSeconds s * 1000\<rfloor>\<rparr>]\<rparr>,
                   Inr (nextId s1)))))))"

definition readQuote :: "'a shop_scheme \<Rightarrow> clock \<Rightarrow> nat \<Rightarrow> nat \<Rightarrow> gold_quote res" where
  "readQuote s c u q =
     (case find (\<lambda>x. gqId x = q) (goldQuotes s) of
        None \<Rightarrow> Inl (BadRequest ''quote expired'')
      | Some x \<Rightarrow>
          if gqUser x \<noteq> u \<or> gqExpires x \<le> now c then Inl (BadRequest ''quote expired'') else Inr x)"

definition barItem :: "gold_quote \<Rightarrow> order_item" where
  "barItem q =
     \<lparr>oiPrice = gqPrice q, oiQuantity = 1, oiBreakdown = gqBreakdown q, oiPackaging = False,
      oiPackagingUnit = 0, oiPackagingQuantity = 0, oiPackagingRial = 0,
      oiVariant = Some (gqVariant q), oiProduct = None, oiWeight = None\<rparr>"

definition barOrder ::
  "nat \<Rightarrow> string \<Rightarrow> clock \<Rightarrow> nat \<Rightarrow> nat \<Rightarrow> gold_quote \<Rightarrow> gold_bar_plan \<Rightarrow> shipping_selection option \<Rightarrow> order_row" where
  "barOrder i num c u addr q plan sel =
     \<lparr>soId = i, soUser = u, soItems = [barItem q], soDiscount = 0,
      soShippingMethod = (sel \<noteq> None), soShipping = selectionCharge sel,
      soShippingWaived = (case sel of None \<Rightarrow> 0 | Some x \<Rightarrow> scWaived (seCharge x)),
      soStatus = SO_PENDING_PAYMENT, soNumber = num, soAddress = addr, soSubtotal = gqPrice q,
      soPackaging = 0, soPackagingWaived = 0, soTotal = gqPrice q + selectionCharge sel,
      soCode = None, soMelted = True, soGoldGrams = numeric4 (gpAppliedGrams plan), soGoldRial = gpAppliedRial plan,
      soGoldRate = Some (gqRate q),
      soOnDelivery = (case sel of None \<Rightarrow> False | Some x \<Rightarrow> scOnDelivery (seCharge x)),
      soEstimate = (case sel of None \<Rightarrow> None | Some x \<Rightarrow> Some (scEstimate (seCharge x))),
      soCreated = now c\<rparr>"

text \<open>The rial part of an order that needs no gateway.\<close>

definition takeRial :: "'a shop_scheme \<Rightarrow> clock \<Rightarrow> nat \<Rightarrow> nat \<Rightarrow> nat \<Rightarrow> int \<Rightarrow> 'a shop_scheme res" where
  "takeRial s c u i wid rial =
     (if rial \<le> 0 then Inr s
      else
      (case walletById s wid of
         None \<Rightarrow> Inl (NotFound ''wallet'')
       | Some w \<Rightarrow>
           if wRial w < rial then Inl (BadRequest ''insufficient balance'')
           else
           (case walletAdd s wid (- rial) 0 of Inl e \<Rightarrow> Inl e
            | Inr s1 \<Rightarrow>
                Inr (addTransaction (addPayment s1 (walletPayment u i rial PY_SUCCESS))
                  (\<lambda>t. shopTransaction t c u wid SHOP_PURCHASE (Some rial) None i)))))"

definition captureWithoutGateway ::
  "(rat \<Rightarrow> rat) \<Rightarrow> 'a shop_scheme \<Rightarrow> clock \<Rightarrow> order_row \<Rightarrow> nat \<Rightarrow> gold_bar_plan \<Rightarrow> 'a shop_scheme res" where
  "captureWithoutGateway prec s c x wid plan =
     (case captureGoldLeg s c x False of Inl e \<Rightarrow> Inl e
      | Inr s1 \<Rightarrow>
          (case takeRial s1 c (soUser x) (soId x) wid (gpRialWallet plan) of Inl e \<Rightarrow> Inl e
           | Inr s2 \<Rightarrow>
               (case postJournal s2 (now c) (saleJournal x (gpRialWallet plan + soGoldRial x) 0) of Inl e \<Rightarrow> Inl e
                | Inr (s3, _) \<Rightarrow>
                    (case postShopCogs prec s3 c x of Inl e \<Rightarrow> Inl e
                     | Inr s4 \<Rightarrow>
                         (case issueForShopOrder (setOrder s4 (soId x) (\<lambda>y. y\<lparr>soStatus := SO_PAID\<rparr>)) x of
                            Inl e \<Rightarrow> Inl e
                          | Inr (s5, _) \<Rightarrow> Inr s5)))))"

text \<open>Gold and rial held until the gateway answers.\<close>

definition reserveParts :: "'a shop_scheme \<Rightarrow> clock \<Rightarrow> nat \<Rightarrow> nat \<Rightarrow> nat \<Rightarrow> gold_bar_plan \<Rightarrow> 'a shop_scheme" where
  "reserveParts s c u i wid plan =
     (let expires = now c + HOLD_MINUTES * 60 * 1000;
          s1 = addHold s (\<lambda>h. \<lparr>hId = h, hWallet = wid, hRial = None, hGrams = Some (numeric4 (gpAppliedGrams plan)),
                 hType = HOLD_ORDER_GOLD, hRef = Some i, hExpires = expires\<rparr>) in
      if 0 < gpRialWallet plan
      then addPayment
             (addHold s1 (\<lambda>h. \<lparr>hId = h, hWallet = wid, hRial = Some (gpRialWallet plan), hGrams = None,
                hType = HOLD_ORDER, hRef = Some i, hExpires = expires\<rparr>))
             (walletPayment u i (gpRialWallet plan) PY_PENDING)
      else s1)"

text \<open>The transaction that creates the order; the answer is the order, its plan and whether it is paid.\<close>

definition createBarOrder ::
  "(rat \<Rightarrow> rat) \<Rightarrow> 'a shop_scheme \<Rightarrow> clock \<Rightarrow> nat \<Rightarrow> gold_quote \<Rightarrow> nat \<Rightarrow> bool \<Rightarrow> bool \<Rightarrow> bool
     \<Rightarrow> shipping_selection option \<Rightarrow> ('a shop_scheme \<times> nat \<times> gold_bar_plan \<times> bool) res" where
  "createBarOrder prec s c u q addr useExtraGold useRialWallet hasGateway sel =
     (case availableBar s (gqVariant q) of
        None \<Rightarrow> Inl (Conflict ''bar sold out'')
      | Some _ \<Rightarrow>
          (case walletOfUser s u of None \<Rightarrow> Inl (NotFound ''wallet'') | Some w \<Rightarrow>
           if goldAvailable s c w < minGoldGrams s then Inl (BadRequest ''not enough gold'')
           else
             (let plan = planGoldBarPayment (gqPrice q) (gqWeight q) (gqRate q) (goldAvailable s c w)
                           (rialAvailable s c w) useExtraGold useRialWallet (selectionCharge sel) in
              if 0 < gpGateway plan \<and> \<not> hasGateway then Inl (BadRequest ''choose a gateway'')
              else
                (let (s1, num) = sequenceNext s ''SHO'';
                     i = nextId s1;
                     x = barOrder i num c u addr q plan sel;
                     s2 = takeStock (s1\<lparr>nextId := i + 1, shopOrders := shopOrders s1 @ [x]\<rparr>) (soItems x) in
                 if gpGateway plan \<le> 0
                 then (case captureWithoutGateway prec s2 c x (wId w) plan of
                         Inl e \<Rightarrow> Inl e | Inr s3 \<Rightarrow> Inr (s3, i, plan, True))
                 else Inr (reserveParts s2 c u i (wId w) plan, i, plan, False)))))"

definition dropQuote :: "'a shop_scheme \<Rightarrow> nat \<Rightarrow> 'a shop_scheme" where
  "dropQuote s q = s\<lparr>goldQuotes := delete_where (\<lambda>x. gqId x = q) (goldQuotes s)\<rparr>"

definition orderBar ::
  "(rat \<Rightarrow> rat) \<Rightarrow> 'a shop_scheme \<Rightarrow> clock \<Rightarrow> nat \<Rightarrow> nat \<Rightarrow> nat \<Rightarrow> bool \<Rightarrow> bool \<Rightarrow> gateway_provider option
     \<Rightarrow> nat option \<Rightarrow> bool \<Rightarrow> string res \<Rightarrow> 'a shop_scheme \<times> (nat \<times> bool) res" where
  "orderBar prec s c u quoteId addressId useExtraGold useRialWallet provider methodId later answer =
     (case assertEligibleUser s u of Inl e \<Rightarrow> (s, Inl e) | Inr _ \<Rightarrow>
      (case readQuote s c u quoteId of Inl e \<Rightarrow> (s, Inl e) | Inr q \<Rightarrow>
       (case find (\<lambda>a. adId a = addressId \<and> adUser a = u \<and> \<not> adDeleted a) (addresses s) of
          None \<Rightarrow> (s, Inl (NotFound ''address''))
        | Some a \<Rightarrow>
            (case resolveForCheckout s a (gqWeight q) (gqPrice q) methodId later of Inl e \<Rightarrow> (s, Inl e)
             | Inr sel \<Rightarrow>
                 (case createBarOrder prec s c u q addressId useExtraGold useRialWallet (provider \<noteq> None) sel of
                    Inl e \<Rightarrow> (s, Inl e)
                  | Inr (s1, i, plan, paid) \<Rightarrow>
                      (let s2 = dropQuote s1 quoteId in
                       if paid then (s2, Inr (i, True))
                       else
                       (case provider of
                          None \<Rightarrow> (cancelUnpaidGoldOrder s2 i, Inl (Internal ''no gateway''))
                        | Some g \<Rightarrow>
                            (case beginGatewayPayment s2 u i (gpGateway plan) g answer of
                               Inl e \<Rightarrow> (cancelUnpaidGoldOrder s2 i, Inl e)
                             | Inr s3 \<Rightarrow> (s3, Inr (i, False))))))))))"
end
