(* ===== verification/ShopFacts.thy ===== *)
theory ShopFacts
  imports GoldBar
begin

section \<open>What the writes of the shop change\<close>

text \<open>
  For every write of \<open>Shop\<close> and \<open>GoldBar\<close>: the tables it leaves alone, the money it moves in the
  wallets and in the control accounts 2010 and 2020, and the invariant \<open>shop_ok\<close> of the shop (orders
  that add up, stock that is never negative, holds and quotes with sensible amounts).
\<close>

subsection \<open>Writes that move no money\<close>

text \<open>\<open>calm\<close> writes leave wallets, books and withdrawals alone and keep the holds of withdrawals.\<close>

definition calm :: "'a bank_scheme \<Rightarrow> 'a bank_scheme \<Rightarrow> bool" where
  "calm s s' \<longleftrightarrow>
     nextId s \<le> nextId s' \<and> withdrawals s' = withdrawals s \<and> accounts s' = accounts s \<and>
     journals s' = journals s \<and> ledgerEntries s' = ledgerEntries s \<and> wallets s' = wallets s \<and>
     (wf_holds (nextId s) (holds s) \<longrightarrow>
        wf_holds (nextId s') (holds s') \<and>
        (\<forall>h \<in> set (holds s). hType h = HOLD_WITHDRAWAL \<longrightarrow> h \<in> set (holds s')))"

lemma calm_refl [simp, intro]: "calm s s"
  by (simp add: calm_def)

lemma calm_trans: "calm s s1 \<Longrightarrow> calm s1 s2 \<Longrightarrow> calm s s2"
  unfolding calm_def by auto

lemma calm_wf:
  assumes "calm s s'" and wf: "wf_bank s"
  shows "wf_bank s'"
proof -
  have c: "nextId s \<le> nextId s'" "withdrawals s' = withdrawals s" "accounts s' = accounts s"
    "journals s' = journals s" "ledgerEntries s' = ledgerEntries s" "wallets s' = wallets s"
    and h: "wf_holds (nextId s') (holds s')" "h \<in> set (holds s) \<Longrightarrow> hType h = HOLD_WITHDRAWAL \<Longrightarrow> h \<in> set (holds s')" for h
    using assms by (auto simp: calm_def wf_bank_def wf_except_def)
  have "linked s' w" if "w \<in> set (withdrawals s)" for w
    by (rule linked_keep [OF wf_bank_linked [OF wf that] c(1)]) (auto simp: c reversalLines_def h(2))
  moreover have "wf_requests (nextId s') (withdrawals s)"
    using wf wf_requests_mono [OF _ c(1)] by (auto simp: wf_bank_def wf_except_def)
  moreover have "wf_ledger s'" by (rule ledger_part [OF wf_bank_ledger [OF wf] c(3-5,1)])
  ultimately show ?thesis using wf h(1) by (simp add: wf_bank_def wf_except_def c)
qed

lemma calm_quiet: "quiet s s' \<Longrightarrow> calm s s'"
  unfolding quiet_def calm_def using wf_holds_mono by auto

lemma calm_same_holds:
  assumes "nextId s \<le> nextId s'" "withdrawals s' = withdrawals s" "accounts s' = accounts s"
    "journals s' = journals s" "ledgerEntries s' = ledgerEntries s" "wallets s' = wallets s" "holds s' = holds s"
  shows "calm s s'"
  using assms wf_holds_mono unfolding calm_def by auto

lemma setOrder_frame [simp]:
  "nextId (setOrder s i f) = nextId s" "withdrawals (setOrder s i f) = withdrawals s"
  "accounts (setOrder s i f) = accounts s" "journals (setOrder s i f) = journals s"
  "ledgerEntries (setOrder s i f) = ledgerEntries s" "wallets (setOrder s i f) = wallets s"
  "holds (setOrder s i f) = holds s" "payments (setOrder s i f) = payments s" "variants (setOrder s i f) = variants s"
  by (simp_all add: setOrder_def)

lemma addStock_frame [simp]:
  "nextId (addStock s v q) = nextId s" "withdrawals (addStock s v q) = withdrawals s"
  "accounts (addStock s v q) = accounts s" "journals (addStock s v q) = journals s"
  "ledgerEntries (addStock s v q) = ledgerEntries s" "wallets (addStock s v q) = wallets s"
  "holds (addStock s v q) = holds s" "payments (addStock s v q) = payments s"
  "shopOrders (addStock s v q) = shopOrders s" "transactions (addStock s v q) = transactions s"
  "cartItems (addStock s v q) = cartItems s" "packagingLinks (addStock s v q) = packagingLinks s"
  "goldQuotes (addStock s v q) = goldQuotes s" "discountCodes (addStock s v q) = discountCodes s"
  "products (addStock s v q) = products s" "configNum (addStock s v q) = configNum s"
  "prices (addStock s v q) = prices s" "users (addStock s v q) = users s" "invoices (addStock s v q) = invoices s"
  "config (addStock s v q) = config s" "agentIds (addStock s v q) = agentIds s"
  by (simp_all add: addStock_def split: option.split)

lemma stock_fold_frame [simp]:
  fixes its :: "order_item list"
  shows "nextId (foldl (\<lambda>s it. addStock s (f it) (g it)) s its) = nextId s"
  "withdrawals (foldl (\<lambda>s it. addStock s (f it) (g it)) s its) = withdrawals s"
  "accounts (foldl (\<lambda>s it. addStock s (f it) (g it)) s its) = accounts s"
  "journals (foldl (\<lambda>s it. addStock s (f it) (g it)) s its) = journals s"
  "ledgerEntries (foldl (\<lambda>s it. addStock s (f it) (g it)) s its) = ledgerEntries s"
  "wallets (foldl (\<lambda>s it. addStock s (f it) (g it)) s its) = wallets s"
  "holds (foldl (\<lambda>s it. addStock s (f it) (g it)) s its) = holds s"
  "payments (foldl (\<lambda>s it. addStock s (f it) (g it)) s its) = payments s"
  "shopOrders (foldl (\<lambda>s it. addStock s (f it) (g it)) s its) = shopOrders s"
  "transactions (foldl (\<lambda>s it. addStock s (f it) (g it)) s its) = transactions s"
  "cartItems (foldl (\<lambda>s it. addStock s (f it) (g it)) s its) = cartItems s"
  "packagingLinks (foldl (\<lambda>s it. addStock s (f it) (g it)) s its) = packagingLinks s"
  "goldQuotes (foldl (\<lambda>s it. addStock s (f it) (g it)) s its) = goldQuotes s"
  "discountCodes (foldl (\<lambda>s it. addStock s (f it) (g it)) s its) = discountCodes s"
  "products (foldl (\<lambda>s it. addStock s (f it) (g it)) s its) = products s"
  "configNum (foldl (\<lambda>s it. addStock s (f it) (g it)) s its) = configNum s"
  "prices (foldl (\<lambda>s it. addStock s (f it) (g it)) s its) = prices s"
  "users (foldl (\<lambda>s it. addStock s (f it) (g it)) s its) = users s"
  "invoices (foldl (\<lambda>s it. addStock s (f it) (g it)) s its) = invoices s"
  "config (foldl (\<lambda>s it. addStock s (f it) (g it)) s its) = config s"
  "agentIds (foldl (\<lambda>s it. addStock s (f it) (g it)) s its) = agentIds s"
  by (induction its arbitrary: s) simp_all

lemma setPayments_frame [simp]:
  "nextId (setPayments s p st) = nextId s" "withdrawals (setPayments s p st) = withdrawals s"
  "accounts (setPayments s p st) = accounts s" "journals (setPayments s p st) = journals s"
  "ledgerEntries (setPayments s p st) = ledgerEntries s" "wallets (setPayments s p st) = wallets s"
  "holds (setPayments s p st) = holds s" "shopOrders (setPayments s p st) = shopOrders s"
  "variants (setPayments s p st) = variants s" "transactions (setPayments s p st) = transactions s"
  "cartItems (setPayments s p st) = cartItems s" "packagingLinks (setPayments s p st) = packagingLinks s"
  "goldQuotes (setPayments s p st) = goldQuotes s" "configNum (setPayments s p st) = configNum s"
  "invoices (setPayments s p st) = invoices s" "products (setPayments s p st) = products s"
  "discountCodes (setPayments s p st) = discountCodes s"
  by (simp_all add: setPayments_def)

lemma addPayment_frame [simp]:
  "nextId (addPayment s f) = nextId s + 1" "withdrawals (addPayment s f) = withdrawals s"
  "accounts (addPayment s f) = accounts s" "journals (addPayment s f) = journals s"
  "ledgerEntries (addPayment s f) = ledgerEntries s" "wallets (addPayment s f) = wallets s"
  "holds (addPayment s f) = holds s" "shopOrders (addPayment s f) = shopOrders s"
  "variants (addPayment s f) = variants s" "transactions (addPayment s f) = transactions s"
  "cartItems (addPayment s f) = cartItems s" "packagingLinks (addPayment s f) = packagingLinks s"
  "goldQuotes (addPayment s f) = goldQuotes s" "configNum (addPayment s f) = configNum s"
  "payments (addPayment s f) = payments s @ [f (nextId s)]"
  "invoices (addPayment s f) = invoices s" "products (addPayment s f) = products s"
  "discountCodes (addPayment s f) = discountCodes s"
  by (simp_all add: addPayment_def)

lemma addTransaction_frame [simp]:
  "nextId (addTransaction s f) = nextId s + 1" "withdrawals (addTransaction s f) = withdrawals s"
  "accounts (addTransaction s f) = accounts s" "journals (addTransaction s f) = journals s"
  "ledgerEntries (addTransaction s f) = ledgerEntries s" "wallets (addTransaction s f) = wallets s"
  "holds (addTransaction s f) = holds s" "transactions (addTransaction s f) = transactions s @ [f (nextId s)]"
  by (simp_all add: addTransaction_def)

lemma addHold_frame [simp]:
  "nextId (addHold s f) = nextId s + 1" "withdrawals (addHold s f) = withdrawals s"
  "accounts (addHold s f) = accounts s" "journals (addHold s f) = journals s"
  "ledgerEntries (addHold s f) = ledgerEntries s" "wallets (addHold s f) = wallets s"
  "holds (addHold s f) = holds s @ [f (nextId s)]" "transactions (addHold s f) = transactions s"
  by (simp_all add: addHold_def)

lemma dropOrderHolds_frame [simp]:
  "nextId (dropOrderHolds s i ty) = nextId s" "withdrawals (dropOrderHolds s i ty) = withdrawals s"
  "accounts (dropOrderHolds s i ty) = accounts s" "journals (dropOrderHolds s i ty) = journals s"
  "ledgerEntries (dropOrderHolds s i ty) = ledgerEntries s" "wallets (dropOrderHolds s i ty) = wallets s"
  "set (holds (dropOrderHolds s i ty)) = {h \<in> set (holds s). \<not> (hRef h = Some i \<and> hType h = ty)}"
  "transactions (dropOrderHolds s i ty) = transactions s"
  by (simp_all add: dropOrderHolds_def)

text \<open>The parts of the shop that the writes to wallets, holds and books leave alone.\<close>

lemma bank_write_frame [simp]:
  fixes s :: "'a shop_scheme"
  shows "shopOrders (addTransaction s f) = shopOrders s" "variants (addTransaction s f) = variants s"
    "payments (addTransaction s f) = payments s" "cartItems (addTransaction s f) = cartItems s"
    "packagingLinks (addTransaction s f) = packagingLinks s" "goldQuotes (addTransaction s f) = goldQuotes s"
    "configNum (addTransaction s f) = configNum s" "products (addTransaction s f) = products s"
    "discountCodes (addTransaction s f) = discountCodes s" "discountCodes (addHold s g) = discountCodes s"
    "discountCodes (dropOrderHolds s i ty) = discountCodes s" "discountCodes (dropHold s k) = discountCodes s"
    "products (addHold s g) = products s" "products (dropOrderHolds s i ty) = products s"
    "products (dropHold s k) = products s"
    "shopOrders (addHold s g) = shopOrders s" "variants (addHold s g) = variants s"
    "payments (addHold s g) = payments s" "cartItems (addHold s g) = cartItems s"
    "packagingLinks (addHold s g) = packagingLinks s" "goldQuotes (addHold s g) = goldQuotes s"
    "configNum (addHold s g) = configNum s"
    "shopOrders (dropOrderHolds s i ty) = shopOrders s" "variants (dropOrderHolds s i ty) = variants s"
    "payments (dropOrderHolds s i ty) = payments s" "cartItems (dropOrderHolds s i ty) = cartItems s"
    "packagingLinks (dropOrderHolds s i ty) = packagingLinks s" "goldQuotes (dropOrderHolds s i ty) = goldQuotes s"
    "configNum (dropOrderHolds s i ty) = configNum s"
    "shopOrders (dropHold s k) = shopOrders s" "variants (dropHold s k) = variants s"
    "payments (dropHold s k) = payments s" "cartItems (dropHold s k) = cartItems s"
    "packagingLinks (dropHold s k) = packagingLinks s" "goldQuotes (dropHold s k) = goldQuotes s"
    "configNum (dropHold s k) = configNum s"
  by (simp_all add: addTransaction_def addHold_def dropOrderHolds_def dropHold_def split: option.split)

lemma calm_setOrder [intro]: "calm s (setOrder s i f)"
  and calm_addStock [intro]: "calm s (addStock s v q)"
  and calm_releaseStock [intro]: "calm s (releaseStock s its)"
  and calm_takeStock [intro]: "calm s (takeStock s its)"
  and calm_setPayments [intro]: "calm s (setPayments s p st)"
  and calm_addPayment [intro]: "calm s (addPayment s g)"
  and calm_addTransaction [intro]: "calm s (addTransaction s h)"
  by (rule calm_same_holds; simp add: releaseStock_def takeStock_def)+

lemma calm_dropHold:
  assumes "\<And>h. h \<in> set (holds s) \<Longrightarrow> Some (hId h) = i \<Longrightarrow> wf_holds (nextId s) (holds s) \<Longrightarrow> hType h \<noteq> HOLD_WITHDRAWAL"
  shows "calm s (dropHold s i)"
  using assms unfolding calm_def wf_holds_def by (auto simp: holds_dropHold distinct_map_filter)

lemma orderHold_in: "orderHold s i ty = Some h \<Longrightarrow> h \<in> set (holds s) \<and> hRef h = Some i \<and> hType h = ty"
  unfolding orderHold_def by (auto dest: find_SomeD)

lemma calm_dropOrderHold:
  assumes "ty \<noteq> HOLD_WITHDRAWAL"
  shows "calm s (dropHold s (map_option hId (orderHold s i ty)))"
proof (rule calm_dropHold)
  fix h
  assume h: "h \<in> set (holds s)" "Some (hId h) = map_option hId (orderHold s i ty)"
    and wf: "wf_holds (nextId s) (holds s)"
  then obtain k where k: "orderHold s i ty = Some k" "hId h = hId k" by (cases "orderHold s i ty") auto
  note o = orderHold_in [OF k(1)]
  have "inj_on hId (set (holds s))" using wf by (simp add: wf_holds_def distinct_map)
  then have "h = k" by (rule inj_onD) (use k(2) h(1) o in simp_all)
  then show "hType h \<noteq> HOLD_WITHDRAWAL" using o assms by simp
qed

lemma calm_dropOrderHolds: "ty \<noteq> HOLD_WITHDRAWAL \<Longrightarrow> calm s (dropOrderHolds s i ty)"
  unfolding calm_def wf_holds_def by (auto simp: dropOrderHolds_def distinct_map_delete_where)

lemma calm_addHold: "(\<And>i. hId (f i) = i) \<Longrightarrow> calm s (addHold s f)"
  unfolding calm_def wf_holds_def by (fastforce simp: addHold_def)

lemma calm_release [intro]: "calm s (releaseOrderWalletHold s i)"
  unfolding releaseOrderWalletHold_def
  by (rule calm_trans [OF calm_dropOrderHold calm_trans [OF calm_dropOrderHolds calm_setPayments]]) simp_all

lemma calm_closeUnpaid [intro]: "calm s (closeUnpaid s x)"
  unfolding closeUnpaid_def
  by (rule calm_trans [OF calm_releaseStock calm_trans [OF calm_release
        calm_trans [OF calm_setPayments calm_setOrder]]])

lemma calm_cancelUnpaid [intro]: "calm s (cancelUnpaidGoldOrder s i)"
  unfolding cancelUnpaidGoldOrder_def by (auto split: option.split)

lemma calm_expire [intro]: "calm s (expireStaleOrders s c)"
proof -
  have "calm s (foldl expireOrder s xs)" for xs
  proof (induction xs arbitrary: s)
    case (Cons x xs)
    have "calm s (expireOrder s x)" unfolding expireOrder_def by (auto split: option.split)
    then show ?case using calm_trans Cons.IH by auto
  qed simp
  then show ?thesis by (simp add: expireStaleOrders_def)
qed

lemma calm_sequenceNext: "sequenceNext s p = (s', num) \<Longrightarrow> calm s s'"
  by (auto simp: sequenceNext_def Let_def intro!: calm_same_holds)

lemma calm_issue: "issueForShopOrder s x = Inr (s', v) \<Longrightarrow> calm s s'"
  for s s' :: "'a shop_scheme"
  unfolding issueForShopOrder_def by (rule calm_quiet [OF issue_quiet(1)])

lemma calm_tryInvoice [intro]: "calm s (tryInvoice s i)"
  unfolding tryInvoice_def by (auto split: option.split sum.split intro: calm_issue)

lemma calm_payments: "calm s (s\<lparr>payments := ps\<rparr>)" for s :: "'a shop_scheme"
  by (rule calm_same_holds) simp_all

lemma calm_reserveWalletHold:
  assumes "reserveWalletHold s c u i amount = Inr s'"
  shows "calm s s'"
proof -
  obtain w where w: "walletOfUser s u = Some w"
    using assms by (auto simp: reserveWalletHold_def split: option.splits)
  define s1 where "s1 = addHold (dropOrderHolds s i HOLD_ORDER)
    (\<lambda>h. \<lparr>hId = h, hWallet = wId w, hRial = Some amount, hGrams = None, hType = HOLD_ORDER,
          hRef = Some i, hExpires = now c + 15 * 60 * 1000\<rparr>)"
  have "calm s s1" unfolding s1_def by (rule calm_trans [OF calm_dropOrderHolds calm_addHold]) simp_all
  moreover have "s' = addPayment s1 (walletPayment u i amount PY_PENDING) \<or> (\<exists>ps. s' = s1\<lparr>payments := ps\<rparr>)"
    using assms w unfolding reserveWalletHold_def s1_def
    by (simp add: Let_def split: if_splits option.splits) blast+
  then have "calm s1 s'" using calm_payments by blast
  ultimately show ?thesis by (rule calm_trans)
qed

lemma calm_beginGatewayPayment: "beginGatewayPayment s u i amount g answer = Inr s' \<Longrightarrow> calm s s'"
  unfolding beginGatewayPayment_def by (auto split: sum.splits if_splits)


lemma release_frame [simp]:
  "shopOrders (releaseOrderWalletHold s i) = shopOrders s" "variants (releaseOrderWalletHold s i) = variants s"
  "cartItems (releaseOrderWalletHold s i) = cartItems s" "packagingLinks (releaseOrderWalletHold s i) = packagingLinks s"
  "goldQuotes (releaseOrderWalletHold s i) = goldQuotes s" "configNum (releaseOrderWalletHold s i) = configNum s"
  "discountCodes (releaseOrderWalletHold s i) = discountCodes s" "nextId (releaseOrderWalletHold s i) = nextId s"
  "products (releaseOrderWalletHold s i) = products s"
  "set (holds (releaseOrderWalletHold s i)) \<subseteq> set (holds s)"
  by (auto simp: releaseOrderWalletHold_def holds_dropHold)

subsection \<open>Writes that move money\<close>

text \<open>
  \<open>bank_write s s' r k g q\<close>: the wallets gain \<open>r\<close> rial and \<open>g\<close> grams in total, account 2010
  gains \<open>k\<close> rial and account 2020 \<open>q\<close> grams. \<open>bank_ok\<close> adds to the invariant of the bank that
  taking back the cost of a sale touches neither account.
\<close>

definition cogs_clean :: "'a ledger_scheme \<Rightarrow> bool" where
  "cogs_clean s \<longleftrightarrow>
     (\<forall>j \<in> set (journals s). jRefType j = Some ''SHOP_COGS'' \<longrightarrow>
        netRial ''2010'' (reversalLines s (jId j)) = 0 \<and> netGrams ''2020'' (reversalLines s (jId j)) = 0)"

definition bank_ok :: "'a bank_scheme \<Rightarrow> bool" where
  "bank_ok s \<longleftrightarrow> wf_bank s \<and> cogs_clean s"

definition holds_ok :: "hold list \<Rightarrow> bool" where
  "holds_ok hs \<longleftrightarrow> (\<forall>h \<in> set hs. hType h = HOLD_ORDER \<longrightarrow> 0 \<le> toDecimal (hRial h))"

definition bank_write :: "'a bank_scheme \<Rightarrow> 'a bank_scheme \<Rightarrow> int \<Rightarrow> int \<Rightarrow> rat \<Rightarrow> rat \<Rightarrow> bool" where
  "bank_write s s' r k g q \<longleftrightarrow>
     bank_ok s' \<and> nextId s \<le> nextId s' \<and> (holds_ok (holds s) \<longrightarrow> holds_ok (holds s')) \<and>
     totalRial s' = totalRial s + r \<and> rialOf s' ''2010'' = rialOf s ''2010'' + k \<and>
     totalGrams s' = totalGrams s + g \<and> gramsOf s' ''2020'' = gramsOf s ''2020'' + q"

lemma bank_write_trans:
  "bank_write s s1 r k g q \<Longrightarrow> bank_write s1 s2 r' k' g' q' \<Longrightarrow> bank_write s s2 (r + r') (k + k') (g + g') (q + q')"
  unfolding bank_write_def by (auto simp: add.assoc)

lemma bank_write_ok: "bank_write s s' r k g q \<Longrightarrow> bank_ok s'"
  by (simp add: bank_write_def)

lemma bank_write_calm:
  assumes ok: "bank_ok s" and c: "calm s s'" and h: "holds_ok (holds s) \<Longrightarrow> holds_ok (holds s')"
  shows "bank_write s s' 0 0 0 0"
proof -
  have e: "accounts s' = accounts s" "journals s' = journals s" "ledgerEntries s' = ledgerEntries s"
    "wallets s' = wallets s" "nextId s \<le> nextId s'" using c by (simp_all add: calm_def)
  have "cogs_clean s'" using ok by (simp add: bank_ok_def cogs_clean_def e reversalLines_cong [OF e(1,3)])
  then show ?thesis using calm_wf [OF c] ok h totals_cong [OF e(4)]
    by (simp add: bank_write_def bank_ok_def e rialOf_def gramsOf_def)
qed

lemma bank_write_quiet: "bank_ok s \<Longrightarrow> calm s s' \<Longrightarrow> holds s' = holds s \<Longrightarrow> bank_write s s' 0 0 0 0"
  by (rule bank_write_calm) simp_all

lemma bank_write_wallet:
  assumes ok: "bank_ok s" and a: "walletAdd s w r g = Inr s'" and g: "on_grid g"
  shows "bank_write s s' r 0 g 0"
proof -
  have wf: "wf_except {} s" using ok by (simp add: bank_ok_def wf_bank_def)
  note f = walletAdd_frame [OF a]
  note t = walletAdd_totals [OF a wf_bank_wallets [OF wf [folded wf_bank_def]]]
  have "cogs_clean s'" using ok by (simp add: bank_ok_def cogs_clean_def f(3) reversalLines_cong [OF f(2,4)])
  moreover have "rialOf s' = rialOf s" "gramsOf s' = gramsOf s" by (simp_all add: fun_eq_iff rialOf_def gramsOf_def f(2))
  ultimately show ?thesis using wf_except_walletAdd [OF wf a] t(1) t(2) [OF g]
    unfolding bank_write_def bank_ok_def wf_bank_def by (simp only: f(1,5) add_0_right order_refl simp_thms)
qed

lemma control_not_cash: "\<not> starts_with CASH_ROOT_CODE ''2010''" "\<not> starts_with CASH_ROOT_CODE ''2020''"
  by (simp_all add: CASH_ROOT_CODE_def)

text \<open>A document; one for the cost of a sale must leave the two accounts alone.\<close>

lemma bank_write_post:
  fixes s :: "'a bank_scheme"
  assumes ok: "bank_ok s" and p: "postJournal s t p = Inr (s', j)"
    and c: "jiRefType p = Some ''SHOP_COGS'' \<Longrightarrow> netRial ''2010'' (inputLines p) = 0 \<and> netGrams ''2020'' (inputLines p) = 0"
    and k: "netRial ''2010'' (inputLines p) = k" and q: "netGrams ''2020'' (inputLines p) = q"
  shows "bank_write s s' 0 k 0 q"
proof -
  have wf: "wf_except {} s" "wf_ledger s" using ok wf_bank_ledger by (auto simp: bank_ok_def wf_bank_def)
  note b = postJournal_balance [OF wf(2) p control_not_cash(1)] postJournal_balance [OF wf(2) p control_not_cash(2)]
  note f = postJournal_bank [OF p]
  have js: "j = nextId s" "journals s' = journals s @ [newJournal (nextId s) t p]"
    by (rule postJournal_effect [OF wf(2) p], simp)+
  have "jId x < nextId s" if "x \<in> set (journals s)" for x using wf(2) that by (simp add: wf_ledger_def)
  moreover have "netRial ''2010'' (reversalLines s' j) = 0 \<and> netGrams ''2020'' (reversalLines s' j) = 0"
    if "jiRefType p = Some ''SHOP_COGS''"
    using c [OF that] reversalLines_new [OF wf(2) p control_not_cash(1)] reversalLines_new [OF wf(2) p control_not_cash(2)]
    by simp
  ultimately have "cogs_clean s'"
    using ok reversalLines_old [OF wf(2) p] unfolding cogs_clean_def bank_ok_def js by (auto simp: newJournal_def)
  then show ?thesis using wf_except_post [OF wf(1) p] b totals_cong [OF f(1)]
    by (simp add: bank_write_def bank_ok_def wf_bank_def f k q)
qed

text \<open>The shop's own tables through writes to wallets, books and invoices.\<close>

definition same_shop :: "'a shop_scheme \<Rightarrow> 'a shop_scheme \<Rightarrow> bool" where
  "same_shop s s' \<longleftrightarrow>
     products s' = products s \<and> variants s' = variants s \<and> cartItems s' = cartItems s \<and> shopOrders s' = shopOrders s \<and>
     discountCodes s' = discountCodes s \<and> packagingLinks s' = packagingLinks s \<and> goldQuotes s' = goldQuotes s \<and>
     configNum s' = configNum s"

lemma same_shop_refl [simp, intro]: "same_shop s s"
  by (simp add: same_shop_def)

lemma same_shop_trans: "same_shop s s1 \<Longrightarrow> same_shop s1 s2 \<Longrightarrow> same_shop s s2"
  by (simp add: same_shop_def)

lemma same_shop_wallet: "walletAdd s w r g = Inr s' \<Longrightarrow> same_shop s s' \<and> payments s' = payments s"
  by (auto elim!: walletAdd_Inr simp: same_shop_def)

lemma same_shop_post: "postJournal s t p = Inr (s', j) \<Longrightarrow> same_shop s s' \<and> payments s' = payments s"
  by (auto dest!: postJournal_frame simp: same_shop_def)

lemma same_shop_issue: "issueForShopOrder s x = Inr (s', v) \<Longrightarrow> same_shop s s' \<and> payments s' = payments s \<and> holds s' = holds s"
  unfolding issueForShopOrder_def issue_def same_shop_def
  by (auto simp: Let_def sequenceNext_def split: if_splits option.splits prod.splits)


subsection \<open>The documents of the shop\<close>

lemmas line_defs = journalLine_def bothLine_def gramLine_def normalizeLine_def deltaSign_def isDebitNature_def toDecimal_def

lemma sale_net:
  "netRial ''2010'' (inputLines (saleJournal x a b)) = (if 0 < a then - a else 0)"
  "netGrams ''2020'' (inputLines (saleJournal x a b)) = 0"
  by (simp_all add: saleJournal_def buildSaleJournalLines_def line_defs)

lemma conversion_net:
  "netRial ''2010'' (inputLines (conversionJournal i g r undo)) = (if undo then - r else r)"
  "netGrams ''2020'' (inputLines (conversionJournal i g r undo)) = (if undo then g else - g)"
  by (simp_all add: conversionJournal_def Let_def line_defs)

lemma refund_net:
  "netRial ''2010'' (inputLines (refundJournal x a)) = (if 0 < a + soGoldRial x then a + soGoldRial x else 0)"
  "netGrams ''2020'' (inputLines (refundJournal x a)) = 0"
  by (simp_all add: refundJournal_def refundLines_def line_defs)

lemma cogs_net:
  "netRial ''2010'' (inputLines (cogsJournal i cost g)) = 0" "netGrams ''2020'' (inputLines (cogsJournal i cost g)) = 0"
  by (simp_all add: cogsJournal_def line_defs)

text \<open>A write that leaves the tables of the shop alone, too.\<close>

definition shop_write :: "'a shop_scheme \<Rightarrow> 'a shop_scheme \<Rightarrow> int \<Rightarrow> int \<Rightarrow> rat \<Rightarrow> rat \<Rightarrow> bool" where
  "shop_write s s' r k g q \<longleftrightarrow> bank_write s s' r k g q \<and> same_shop s s'"

lemma shop_write_trans:
  "shop_write s s1 r k g q \<Longrightarrow> shop_write s1 s2 r' k' g' q' \<Longrightarrow>
   shop_write s s2 (r + r') (k + k') (g + g') (q + q')"
  unfolding shop_write_def using bank_write_trans same_shop_trans by blast

lemma shop_write_ok: "shop_write s s' r k g q \<Longrightarrow> bank_ok s'"
  unfolding shop_write_def by (auto dest: bank_write_ok)

lemma shop_write_refl: "bank_ok s \<Longrightarrow> shop_write s s 0 0 0 0"
  by (simp add: shop_write_def bank_write_def)

lemma shop_write_wallet: "bank_ok s \<Longrightarrow> walletAdd s w r g = Inr s' \<Longrightarrow> on_grid g \<Longrightarrow> shop_write s s' r 0 g 0"
  unfolding shop_write_def using bank_write_wallet same_shop_wallet by blast

lemma shop_write_sale:
  assumes "bank_ok s" "postJournal s t (saleJournal x a b) = Inr (s', j)" "0 \<le> a"
  shows "shop_write s s' 0 (- a) 0 0"
proof -
  have "jiRefType (saleJournal x a b) \<noteq> Some ''SHOP_COGS''" by (simp add: saleJournal_def)
  then show ?thesis unfolding shop_write_def
    using bank_write_post [OF assms(1,2) _ sale_net] same_shop_post [OF assms(2)] assms(3) by (cases "a = 0") auto
qed

lemma shop_write_quiet: "bank_ok s \<Longrightarrow> calm s s' \<Longrightarrow> holds s' = holds s \<Longrightarrow> same_shop s s' \<Longrightarrow> shop_write s s' 0 0 0 0"
  by (simp add: shop_write_def bank_write_quiet)

lemma shop_write_conversion:
  assumes "bank_ok s" "postGoldConversionJournal s c i g r undo = Inr s'" "0 < g"
  shows "shop_write s s' 0 (if undo then - r else r) 0 (if undo then g else - g)"
proof -
  obtain j where p: "postJournal s (now c) (conversionJournal i g r undo) = Inr (s', j)"
    using assms(2,3) by (auto simp: postGoldConversionJournal_def)
  have "jiRefType (conversionJournal i g r undo) \<noteq> Some ''SHOP_COGS''" by (simp add: conversionJournal_def Let_def)
  then show ?thesis unfolding shop_write_def
    using bank_write_post [OF assms(1) p _ conversion_net] same_shop_post [OF p] by blast
qed

lemma shop_write_cogs:
  assumes "bank_ok s" "postShopCogs prec s c x = Inr s'"
  shows "shop_write s s' 0 0 0 0"
proof (cases "s' = s")
  case False
  then obtain cost g j where p: "postJournal s (now c) (cogsJournal (soId x) cost g) = Inr (s', j)"
    using assms(2) by (auto simp: postShopCogs_def Let_def split: if_splits)
  show ?thesis unfolding shop_write_def
    using bank_write_post [OF assms(1) p _ cogs_net] cogs_net same_shop_post [OF p] by blast
qed (simp add: shop_write_refl assms)

lemma shop_write_uncogs:
  assumes ok: "bank_ok s" and r: "reverseShopCogs s c i = Inr s'"
  shows "shop_write s s' 0 0 0 0"
proof (cases "cogsOf s i")
  case None
  then show ?thesis using r ok by (simp add: reverseShopCogs_def shop_write_refl)
next
  case (Some jr)
  then obtain k opts where rv: "reverseJournal s (now c) (jId jr) opts = Inr (s', k)"
    using r by (auto simp: reverseShopCogs_def)
  have jr: "jr \<in> set (journals s)" "jRefType jr = Some ''SHOP_COGS''"
    using Some unfolding cogsOf_def by (auto dest: find_SomeD)
  from reverseJournal_post [OF rv] obtain original where
    o: "jId original = jId jr" and p: "postJournal s (now c) (reversalInput s original opts) = Inr (s', k)"
    by metis
  have l: "inputLines (reversalInput s original opts) = reversalLines s (jId jr)"
    by (simp add: reversalInput_def reversalLines_def o)
  have n: "netRial ''2010'' (reversalLines s (jId jr)) = 0" "netGrams ''2020'' (reversalLines s (jId jr)) = 0"
    using ok jr by (auto simp: bank_ok_def cogs_clean_def)
  show ?thesis unfolding shop_write_def
    using bank_write_post [OF ok p, of 0 0] same_shop_post [OF p] n unfolding l by simp
qed

lemma shop_write_transaction: "bank_ok s \<Longrightarrow> shop_write s (addTransaction s f) 0 0 0 0"
  by (rule shop_write_quiet) (auto simp: same_shop_def)

lemma shop_write_payment: "bank_ok s \<Longrightarrow> shop_write s (addPayment s f) 0 0 0 0"
  by (rule shop_write_quiet) (auto simp: same_shop_def)

lemma shop_write_payments: "bank_ok s \<Longrightarrow> shop_write s (setPayments s p st) 0 0 0 0"
  by (rule shop_write_quiet) (auto simp: same_shop_def)

lemma shop_write_issue: "bank_ok s \<Longrightarrow> issueForShopOrder s x = Inr (s', v) \<Longrightarrow> shop_write s s' 0 0 0 0"
  by (rule shop_write_quiet) (auto dest: calm_issue same_shop_issue)

lemma shop_write_drop:
  assumes "bank_ok s" "\<And>h. h \<in> set (holds s) \<Longrightarrow> Some (hId h) = i \<Longrightarrow> wf_holds (nextId s) (holds s) \<Longrightarrow> hType h \<noteq> HOLD_WITHDRAWAL"
  shows "shop_write s (dropHold s i) 0 0 0 0"
proof -
  have "bank_write s (dropHold s i) 0 0 0 0"
    by (rule bank_write_calm [OF assms(1) calm_dropHold [OF assms(2)]])
       (auto simp: holds_ok_def holds_dropHold)
  then show ?thesis by (simp add: shop_write_def same_shop_def dropHold_def split: option.split)
qed

subsection \<open>The invariant of the shop\<close>

definition qtyOf :: "order_item list \<Rightarrow> nat \<Rightarrow> int" where
  "qtyOf its v = sum_where (\<lambda>it. oiVariant it = Some v) oiQuantity its"

definition restock :: "(nat \<Rightarrow> int) \<Rightarrow> variant list \<Rightarrow> variant list" where
  "restock q vs = map (\<lambda>v. v\<lparr>vaStock := vaStock v + q (vaId v)\<rparr>) vs"

definition order_ok :: "nat \<Rightarrow> order_row \<Rightarrow> bool" where
  "order_ok n x \<longleftrightarrow>
     soId x < n \<and> soTotal x = soSubtotal x - soDiscount x + soPackaging x + soShipping x \<and>
     0 \<le> soSubtotal x \<and> 0 \<le> soDiscount x \<and> 0 \<le> soPackaging x \<and> 0 \<le> soShipping x \<and>
     0 \<le> soGoldRial x \<and> soGoldRial x \<le> soTotal x \<and> 0 \<le> soGoldGrams x \<and> on_grid (soGoldGrams x) \<and>
     (soGoldGrams x = 0 \<longrightarrow> soGoldRial x = 0) \<and> (\<not> soMelted x \<longrightarrow> soGoldGrams x = 0) \<and>
     (\<forall>it \<in> set (soItems x). 0 \<le> oiQuantity it)"

definition orders_ok :: "nat \<Rightarrow> order_row list \<Rightarrow> bool" where
  "orders_ok n xs \<longleftrightarrow> distinct (map soId xs) \<and> (\<forall>x \<in> set xs. order_ok n x)"

definition quote_ok :: "gold_quote \<Rightarrow> bool" where
  "quote_ok q \<longleftrightarrow> 0 \<le> gqPrice q \<and> 0 \<le> gqWeight q \<and> on_grid (gqWeight q) \<and> 0 \<le> gqRate q"

definition variants_ok :: "variant list \<Rightarrow> bool" where
  "variants_ok vs \<longleftrightarrow>
     distinct (map vaId vs) \<and> (\<forall>v \<in> set vs. 0 \<le> vaStock v \<and> 0 \<le> vaWeight v \<and> on_grid (vaWeight v))"

text \<open>What the forms of the shop check on the rows that others write.\<close>

definition inputs_ok :: "'a shop_scheme \<Rightarrow> bool" where
  "inputs_ok s \<longleftrightarrow>
     (\<forall>i \<in> set (cartItems s). 0 < ciQuantity i) \<and> (\<forall>l \<in> set (packagingLinks s). 0 \<le> pkPrice (snd l)) \<and>
     variants_ok (variants s) \<and> (\<forall>q \<in> set (goldQuotes s). quote_ok q) \<and>
     getNumber s ''trade.gold.spread_percent'' 0 \<le> 100"

definition shop_ok :: "'a shop_scheme \<Rightarrow> bool" where
  "shop_ok s \<longleftrightarrow> bank_ok s \<and> orders_ok (nextId s) (shopOrders s) \<and> holds_ok (holds s) \<and> inputs_ok s"

lemma orders_ok_mono: "orders_ok n xs \<Longrightarrow> n \<le> m \<Longrightarrow> orders_ok m xs"
  unfolding orders_ok_def by (auto simp: order_ok_def)

lemma orders_ok_status: "orders_ok n xs \<Longrightarrow> orders_ok n (update_where (\<lambda>x. soId x = i) (\<lambda>x. x\<lparr>soStatus := st\<rparr>) xs)"
proof -
  have "order_ok n (x\<lparr>soStatus := st\<rparr>) = order_ok n x" for x by (simp add: order_ok_def)
  then show "orders_ok n xs \<Longrightarrow> ?thesis"
    unfolding orders_ok_def by (auto simp: set_update_where)
qed

lemma orders_ok_unique: "orders_ok n xs \<Longrightarrow> x \<in> set xs \<Longrightarrow> y \<in> set xs \<Longrightarrow> soId x = soId y \<Longrightarrow> x = y"
  unfolding orders_ok_def by (auto simp: distinct_map dest: inj_onD)

lemma orderById_in: "orderById s i = Some x \<Longrightarrow> x \<in> set (shopOrders s) \<and> soId x = i"
  unfolding orderById_def by (auto dest: find_SomeD)

lemma order_of_user:
  assumes "orders_ok n (shopOrders s)" "find (\<lambda>x. soId x = i \<and> soUser x = u) (shopOrders s) = Some x"
  shows "x \<in> set (shopOrders s)" "soId x = i" "soUser x = u" "orderById s i = Some x"
proof -
  show x: "x \<in> set (shopOrders s)" "soId x = i" "soUser x = u" using assms(2) by (auto dest: find_SomeD)
  show "orderById s i = Some x"
    using find_unique [of soId "shopOrders s" x] assms(1) x by (simp add: orderById_def orders_ok_def)
qed

lemma inputs_ok_same: "same_shop s s' \<Longrightarrow> inputs_ok s \<Longrightarrow> inputs_ok s'"
  by (simp add: same_shop_def inputs_ok_def getNumber_def)

lemma shop_ok_write: "shop_ok s \<Longrightarrow> shop_write s s' r k g q \<Longrightarrow> shop_ok s'"
  unfolding shop_ok_def shop_write_def
  using inputs_ok_same [of s s'] orders_ok_mono by (auto simp: bank_write_def same_shop_def)

lemma shop_ok_setOrder: "shop_ok s \<Longrightarrow> shop_ok (setOrder s i (\<lambda>y. y\<lparr>soStatus := st\<rparr>))"
  using bank_write_quiet [OF _ calm_setOrder] orders_ok_status [of "nextId s" "shopOrders s"]
  unfolding shop_ok_def by (auto simp: bank_write_def) (simp_all add: setOrder_def inputs_ok_def getNumber_def)

subsection \<open>Stock\<close>

lemma restock_id [simp]: "restock (\<lambda>_. 0) vs = vs"
  by (simp add: restock_def)

lemma restock_restock: "restock p (restock q vs) = restock (\<lambda>v. q v + p v) vs"
  by (simp add: restock_def add.assoc)

lemma restock_ids [simp]: "map vaId (restock q vs) = map vaId vs"
  by (simp add: restock_def comp_def)

lemma addStock_restock:
  "variants (addStock s v q) = restock (\<lambda>i. if v = Some i then q else 0) (variants s)"
proof (cases v)
  case (Some j)
  have "update_where (\<lambda>x. vaId x = j) (\<lambda>x. x\<lparr>vaStock := vaStock x + q\<rparr>) vs =
      restock (\<lambda>i. if Some j = Some i then q else 0) vs" for vs
    by (induction vs) (auto simp: restock_def)
  then show ?thesis by (simp add: addStock_def Some)
qed (simp add: addStock_def)

lemma stock_fold:
  "variants (foldl (\<lambda>s it. addStock s (oiVariant it) (f * oiQuantity it)) s its) =
     restock (\<lambda>v. f * qtyOf its v) (variants s)"
proof (induction its arbitrary: s)
  case Nil
  then show ?case by (simp add: qtyOf_def)
next
  case (Cons it its)
  then show ?case
    by (simp add: addStock_restock restock_restock qtyOf_def)
       (rule arg_cong2 [where f = restock], auto simp: algebra_simps)
qed

lemma variants_releaseStock: "variants (releaseStock s its) = restock (qtyOf its) (variants s)"
  using stock_fold [of 1 s its] by (simp add: releaseStock_def)

lemma variants_takeStock: "variants (takeStock s its) = restock (\<lambda>v. - qtyOf its v) (variants s)"
  using stock_fold [of "-1" s its] by (simp add: takeStock_def)

end
