(* ===== verification/ShopMoves.thy ===== *)
theory ShopMoves
  imports ShopFacts
begin

section \<open>The calls of the shop as chains of moves\<close>

text \<open>
  Each call of the shop orders and of the gold bars is shown to be a chain of abstract moves
  (\<open>shop_move\<close>): an order is opened, its status advances, or neither. What holds of every move holds
  of every call, so the properties of the shop are proved on moves.
\<close>

subsection \<open>The moves of the shop\<close>

text \<open>
  Every call is a chain of four kinds of moves: an order is opened, its status advances, rial leaves a
  wallet that is not booked (the label \<open>l\<close>), or nothing changes that matters to orders and stock. In
  each move the difference between wallets and control accounts changes by the label only.
\<close>

definition order_edge :: "shop_order_status \<Rightarrow> shop_order_status \<Rightarrow> bool" where
  "order_edge a b \<longleftrightarrow>
     a = SO_PENDING_PAYMENT \<and> b = SO_PAID \<or> a = SO_PAID \<and> b = SO_PROCESSING \<or>
     a \<in> {SO_PAID, SO_PROCESSING} \<and> b = SO_SHIPPED \<or> a = SO_SHIPPED \<and> b = SO_DELIVERED \<or>
     a \<in> {SO_PENDING_PAYMENT, SO_PAID, SO_PROCESSING} \<and> b = SO_CANCELLED"

definition within_limits :: "'a shop_scheme \<Rightarrow> order_row \<Rightarrow> bool" where
  "within_limits s x \<longleftrightarrow>
     (\<forall>i. soCode x = Some i \<longrightarrow>
        (\<exists>d \<in> set (discountCodes s). dcId d = i \<and>
           (\<forall>l. dcLimit d = Some l \<longrightarrow> int (codeUses s i) < l) \<and>
           (\<forall>l. dcPerUser d = Some l \<longrightarrow> int (codeUsesBy s i (soUser x)) < l)))"

inductive shop_move :: "'a shop_scheme \<Rightarrow> int \<Rightarrow> 'a shop_scheme \<Rightarrow> bool" where
  Stay: "shop_move s l s'"
    if "shop_ok s'" "shopOrders s' = shopOrders s" "variants s' = variants s" "discountCodes s' = discountCodes s"
      "rialGap s' = rialGap s - l" "gramGap s' = gramGap s"
| Open: "shop_move s 0 s'"
    if "shop_ok s'" "shopOrders s' = shopOrders s @ [x]" "soStatus x = SO_PENDING_PAYMENT" "within_limits s x"
      "variants s' = restock (\<lambda>v. - qtyOf (soItems x) v) (variants s)" "discountCodes s' = discountCodes s"
      "rialGap s' = rialGap s" "gramGap s' = gramGap s"
| Advance: "shop_move s 0 s'"
    if "shop_ok s'" "x \<in> set (shopOrders s)" "order_edge (soStatus x) st"
      "shopOrders s' = update_where (\<lambda>y. soId y = soId x) (\<lambda>y. y\<lparr>soStatus := st\<rparr>) (shopOrders s)"
      "variants s' = (if st = SO_CANCELLED then restock (qtyOf (soItems x)) (variants s) else variants s)"
      "discountCodes s' = discountCodes s" "rialGap s' = rialGap s" "gramGap s' = gramGap s"

inductive shop_moves :: "'a shop_scheme \<Rightarrow> int \<Rightarrow> 'a shop_scheme \<Rightarrow> bool" where
  Done: "shop_moves s 0 s"
| Step: "shop_moves s (k + l) s2" if "shop_move s k s1" "shop_moves s1 l s2"

lemma moves_one: "shop_move s l s' \<Longrightarrow> shop_moves s l s'"
  using Step [OF _ Done] by fastforce

lemma moves_trans: "shop_moves s k s1 \<Longrightarrow> shop_moves s1 l s2 \<Longrightarrow> shop_moves s (k + l) s2"
  by (induction rule: shop_moves.induct) (auto simp: add.assoc intro: Step)

lemma moves_trans0: "shop_moves s 0 s1 \<Longrightarrow> shop_moves s1 0 s2 \<Longrightarrow> shop_moves s 0 s2"
  using moves_trans by fastforce

lemma move_ok: "shop_move s l s' \<Longrightarrow> shop_ok s'"
  by (cases rule: shop_move.cases) auto

lemma moves_ok: "shop_moves s l s' \<Longrightarrow> shop_ok s \<Longrightarrow> shop_ok s'"
  by (induction rule: shop_moves.induct) (auto dest: move_ok)

lemma gaps_write:
  "shop_write s s' r k g q \<Longrightarrow> rialGap s' = rialGap s + (r - k) \<and> gramGap s' = gramGap s + (g - q)"
  by (auto simp: shop_write_def bank_write_def rialGap_def gramGap_def)

lemma stay_write:
  assumes "shop_ok s" "shop_write s s' r k g g"
  shows "shop_moves s (k - r) s'"
  by (rule moves_one, rule Stay [OF shop_ok_write [OF assms]])
     (use assms(2) gaps_write [OF assms(2)] in \<open>auto simp: shop_write_def same_shop_def\<close>)

lemma stay0: "shop_ok s \<Longrightarrow> shop_write s s' 0 0 0 0 \<Longrightarrow> shop_moves s 0 s'"
  using stay_write by fastforce

lemma gaps_setOrder [simp]: "rialGap (setOrder s i f) = rialGap s" "gramGap (setOrder s i f) = gramGap s"
  by (simp_all add: rialGap_def gramGap_def totalRial_def totalGrams_def rialOf_def gramsOf_def)

text \<open>Money is moved and booked, the status advances, and more writes follow.\<close>

lemma settle:
  assumes ok: "shop_ok s" and w: "shop_write s s4 r r g g" and x: "x \<in> set (shopOrders s)"
    and e: "order_edge (soStatus x) st" "st \<noteq> SO_CANCELLED"
    and f: "shop_write (setOrder s4 (soId x) (\<lambda>y. y\<lparr>soStatus := st\<rparr>)) s6 0 0 0 0"
  shows "shop_moves s 0 s6"
proof (rule moves_one, rule Advance [OF _ x e(1)])
  let ?s5 = "setOrder s4 (soId x) (\<lambda>y. y\<lparr>soStatus := st\<rparr>)"
  have ok5: "shop_ok ?s5" by (rule shop_ok_setOrder [OF shop_ok_write [OF ok w]])
  then show "shop_ok s6" by (rule shop_ok_write [OF _ f])
  have c: "same_shop s s4" "same_shop ?s5 s6" using w f by (simp_all add: shop_write_def)
  show "shopOrders s6 = update_where (\<lambda>y. soId y = soId x) (\<lambda>y. y\<lparr>soStatus := st\<rparr>) (shopOrders s)"
    "variants s6 = (if st = SO_CANCELLED then restock (qtyOf (soItems x)) (variants s) else variants s)"
    "discountCodes s6 = discountCodes s"
    using c e(2) by (simp_all add: same_shop_def setOrder_def)
  show "rialGap s6 = rialGap s" "gramGap s6 = gramGap s"
    using gaps_write [OF w] gaps_write [OF f] by simp_all
qed

lemma settle_last:
  assumes "shop_ok s" "shop_write s s4 r r g g" "x \<in> set (shopOrders s)" "order_edge (soStatus x) st" "st \<noteq> SO_CANCELLED"
  shows "shop_moves s 0 (setOrder s4 (soId x) (\<lambda>y. y\<lparr>soStatus := st\<rparr>))"
proof -
  have "shop_ok (setOrder s4 (soId x) (\<lambda>y. y\<lparr>soStatus := st\<rparr>))"
    by (rule shop_ok_setOrder [OF shop_ok_write [OF assms(1,2)]])
  then show ?thesis by (intro settle [OF assms] shop_write_refl) (simp add: shop_ok_def)
qed

lemma case_sum_map_Inr [simp]:
  "(case r of Inl e \<Rightarrow> Inl (g e) | Inr x \<Rightarrow> f x) = Inr y \<longleftrightarrow> (\<exists>x. r = Inr x \<and> f x = Inr y)"
  by (cases r) auto

subsection \<open>Payments\<close>

lemma captureWalletOnly_Inr:
  assumes "captureWalletOnly prec s c u i amount = Inr s'" "orderById s i = Some x"
  obtains w s1 s2 s3 j s4 v where "walletOfUser s u = Some w" "amount \<le> wRial w"
    "walletAdd s (wId w) (- amount) 0 = Inr s1"
    "s2 = addTransaction (addPayment s1 (walletPayment u i amount PY_SUCCESS))
                    (\<lambda>t. shopTransaction t c u (wId w) SHOP_PURCHASE (Some amount) None i)"
    "postJournal s2 (now c) (saleJournal x amount 0) = Inr (s3, j)" "postShopCogs prec s3 c x = Inr s4"
    "issueForShopOrder (setOrder s4 i (\<lambda>y. y\<lparr>soStatus := SO_PAID\<rparr>)) x = Inr (s', v)"
  using assms unfolding captureWalletOnly_def by (auto simp: Let_def not_less)

lemma capture_moves:
  assumes ok: "shop_ok s" and x: "orderById s i = Some x" "soStatus x = SO_PENDING_PAYMENT" "soTotal x = amount"
    and r: "captureWalletOnly prec s c u i amount = Inr s'"
  shows "shop_moves s 0 s'"
proof -
  obtain w s1 s2 s3 j s4 v where w: "walletOfUser s u = Some w"
    and a: "walletAdd s (wId w) (- amount) 0 = Inr s1"
    and s2: "s2 = addTransaction (addPayment s1 (walletPayment u i amount PY_SUCCESS))
                    (\<lambda>t. shopTransaction t c u (wId w) SHOP_PURCHASE (Some amount) None i)"
    and p: "postJournal s2 (now c) (saleJournal x amount 0) = Inr (s3, j)"
    and g: "postShopCogs prec s3 c x = Inr s4"
    and v: "issueForShopOrder (setOrder s4 i (\<lambda>y. y\<lparr>soStatus := SO_PAID\<rparr>)) x = Inr (s', v)"
    using captureWalletOnly_Inr [OF r x(1)] by metis
  note xin = orderById_in [OF x(1)]
  have am: "0 \<le> amount" using ok xin x(3) by (fastforce simp: shop_ok_def orders_ok_def order_ok_def)
  have b: "bank_ok s" using ok by (simp add: shop_ok_def)
  have w1: "shop_write s s1 (- amount) 0 0 0" by (rule shop_write_wallet [OF b a]) simp
  have w2: "shop_write s1 s2 0 0 0 0" unfolding s2
    using shop_write_trans [OF shop_write_payment [OF shop_write_ok [OF w1]] shop_write_transaction] shop_write_ok
      shop_write_payment [OF shop_write_ok [OF w1]] by fastforce
  have w3: "shop_write s2 s3 0 (- amount) 0 0" by (rule shop_write_sale [OF shop_write_ok [OF w2] p am])
  have w4: "shop_write s3 s4 0 0 0 0" by (rule shop_write_cogs [OF shop_write_ok [OF w3] g])
  have w: "shop_write s s4 (- amount) (- amount) 0 0"
    using shop_write_trans [OF shop_write_trans [OF shop_write_trans [OF w1 w2] w3] w4] by simp
  have "bank_ok (setOrder s4 i (\<lambda>y. y\<lparr>soStatus := SO_PAID\<rparr>))"
    using shop_ok_setOrder [OF shop_ok_write [OF ok w]] by (simp add: shop_ok_def)
  note f = shop_write_issue [OF this v]
  show ?thesis by (rule settle [OF ok w, of x SO_PAID]) (use xin x(2) f in \<open>auto simp: order_edge_def\<close>)
qed

lemma shop_ok_bank: "shop_ok s \<Longrightarrow> bank_ok s"
  by (simp add: shop_ok_def)

lemma shop_ok_order: "shop_ok s \<Longrightarrow> orderById s i = Some x \<Longrightarrow> order_ok (nextId s) x"
  by (auto simp: shop_ok_def orders_ok_def dest: orderById_in)

lemma shop_write_dropOrder:
  assumes ok: "bank_ok s" and ty: "ty \<noteq> HOLD_WITHDRAWAL"
  shows "shop_write s (dropHold s (map_option hId (orderHold s i ty))) 0 0 0 0"
proof -
  have "bank_write s (dropHold s (map_option hId (orderHold s i ty))) 0 0 0 0"
    by (rule bank_write_calm [OF ok calm_dropOrderHold [OF ty]]) (auto simp: holds_ok_def holds_dropHold)
  then show ?thesis by (simp add: shop_write_def same_shop_def dropHold_def split: option.split)
qed

lemma takeLeg_write:
  assumes ok: "shop_ok s" and t: "takeWalletLeg s c p i = Inr (s1, w, a)"
  shows "shop_write s s1 (- a) 0 0 0" "0 \<le> a"
proof -
  have "shop_write s s1 (- a) 0 0 0 \<and> 0 \<le> a"
  proof (cases "find (\<lambda>q. pyOrder q = Some i \<and> pyMethod q = PM_WALLET \<and> pyStatus q = PY_PENDING) (payments s)")
    case None
    then show ?thesis using t shop_write_refl [OF shop_ok_bank [OF ok]] by (auto simp: takeWalletLeg_def)
  next
    case (Some leg)
    then obtain h and v :: wallet and s0 where h: "orderHold s i HOLD_ORDER = Some h" and a: "a = toDecimal (hRial h)"
      and w: "walletAdd s (wId v) (- a) 0 = Inr s0"
      and s1: "s1 = setPayments (dropHold s0 (Some (hId h))) (\<lambda>q. pyId q = pyId leg) PY_SUCCESS"
      using t by (auto simp: takeWalletLeg_def Let_def)
    have w1: "shop_write s s0 (- a) 0 0 0" by (rule shop_write_wallet [OF shop_ok_bank [OF ok] w]) simp
    have "orderHold s0 i HOLD_ORDER = Some h" using h by (simp add: orderHold_def walletAdd_frame [OF w])
    then have w2: "shop_write s0 (dropHold s0 (Some (hId h))) 0 0 0 0"
      using shop_write_dropOrder [OF shop_write_ok [OF w1], of HOLD_ORDER i] by simp
    have "0 \<le> a" using orderHold_in [OF h] ok by (auto simp: a shop_ok_def holds_ok_def)
    then show ?thesis unfolding s1
      using shop_write_trans [OF shop_write_trans [OF w1 w2] shop_write_payments [OF shop_write_ok [OF w2]]] by simp
  qed
  then show "shop_write s s1 (- a) 0 0 0" "0 \<le> a" by simp_all
qed

lemma goldLeg_write:
  assumes ok: "bank_ok s" and x: "order_ok n x" and r: "captureGoldLeg s c x b = Inr s'"
  shows "shop_write s s' 0 (soGoldRial x) (- soGoldGrams x) (- soGoldGrams x)"
proof (cases "soGoldGrams x \<le> 0")
  case True
  then have "soGoldGrams x = 0" "soGoldRial x = 0" using x by (auto simp: order_ok_def)
  then show ?thesis using r shop_write_refl [OF ok] by (simp add: captureGoldLeg_def)
next
  case False
  let ?h = "map_option hId (orderHold s (soId x) HOLD_ORDER_GOLD)"
  obtain w :: wallet and s1 f where a: "walletAdd s (wId w) 0 (- soGoldGrams x) = Inr s1"
    and p: "postGoldConversionJournal (addTransaction (dropHold s1 ?h) f) c (soId x) (soGoldGrams x) (soGoldRial x) False = Inr s'"
    using r False by (auto simp: captureGoldLeg_def Let_def)
  have g: "on_grid (- soGoldGrams x)" using x by (simp add: order_ok_def)
  note w1 = shop_write_wallet [OF ok a g]
  have "orderHold s1 (soId x) HOLD_ORDER_GOLD = orderHold s (soId x) HOLD_ORDER_GOLD"
    by (simp add: orderHold_def walletAdd_frame [OF a])
  then have w2: "shop_write s1 (dropHold s1 ?h) 0 0 0 0"
    using shop_write_dropOrder [OF shop_write_ok [OF w1], of HOLD_ORDER_GOLD "soId x"] by simp
  note w3 = shop_write_transaction [OF shop_write_ok [OF w2], of f]
  have w4: "shop_write (addTransaction (dropHold s1 ?h) f) s' 0 (soGoldRial x) 0 (- soGoldGrams x)"
    using shop_write_conversion [OF shop_write_ok [OF w3] p] False by simp
  show ?thesis using shop_write_trans [OF shop_write_trans [OF shop_write_trans [OF w1 w2] w3] w4] by simp
qed

text \<open>What a callback takes from a wallet for an order that is already paid.\<close>

definition stray :: "'a shop_scheme \<Rightarrow> clock \<Rightarrow> payment \<Rightarrow> nat \<Rightarrow> int" where
  "stray s c p i =
     (if (case orderById s i of None \<Rightarrow> False | Some x \<Rightarrow> soStatus x = SO_PAID)
      then (case takeWalletLeg (setPayments s (\<lambda>q. pyId q = pyId p) PY_SUCCESS) c p i of
              Inl _ \<Rightarrow> 0 | Inr (_, _, a) \<Rightarrow> a)
      else 0)"

lemma finalize_moves:
  assumes ok: "shop_ok s" and r: "finalizePayment prec s c p i = Inr s'"
  shows "shop_moves s (stray s c p i) s'"
proof -
  let ?s0 = "setPayments s (\<lambda>q. pyId q = pyId p) PY_SUCCESS"
  obtain s1 w a x where t: "takeWalletLeg ?s0 c p i = Inr (s1, w, a)" and x1: "orderById s1 i = Some x"
    and rest: "(if soStatus x = SO_PAID then Inr s1
               else if soStatus x \<noteq> SO_PENDING_PAYMENT then Inl (Conflict ''order cannot be paid'')
               else
               (case captureGoldLeg s1 c x True of Inl e \<Rightarrow> Inl e
                | Inr s2 \<Rightarrow>
                    (case postJournal s2 (now c)
                            (saleJournal x (a + soGoldRial x) (soTotal x - a - soGoldRial x)) of
                       Inl e \<Rightarrow> Inl e
                     | Inr (s3, _) \<Rightarrow>
                         (case postShopCogs prec s3 c x of Inl e \<Rightarrow> Inl e
                          | Inr s4 \<Rightarrow>
                              Inr (setOrder
                                (addTransaction s4 (\<lambda>t. shopTransaction t c (pyUser p) w SHOP_PURCHASE
                                   (Some (soTotal x - soGoldRial x)) None i))
                                i (\<lambda>y. y\<lparr>soStatus := SO_PAID\<rparr>)))))) = Inr s'"
    using r by (auto simp: finalizePayment_def Let_def)
  have w0: "shop_write s ?s0 0 0 0 0" by (rule shop_write_payments [OF shop_ok_bank [OF ok]])
  have ok0: "shop_ok ?s0" by (rule shop_ok_write [OF ok w0])
  note w1 = takeLeg_write [OF ok0 t]
  have w01: "shop_write s s1 (- a) 0 0 0" using shop_write_trans [OF w0 w1(1)] by simp
  have x: "orderById s i = Some x" using x1 w01 by (simp add: orderById_def shop_write_def same_shop_def)
  show ?thesis
  proof (cases "soStatus x = SO_PAID")
    case True
    then show ?thesis using rest stay_write [OF ok w01] x t by (simp add: stray_def)
  next
    case False
    then obtain s2 s3 j s4 f where pend: "soStatus x = SO_PENDING_PAYMENT"
      and g: "captureGoldLeg s1 c x True = Inr s2"
      and p: "postJournal s2 (now c) (saleJournal x (a + soGoldRial x) (soTotal x - a - soGoldRial x)) = Inr (s3, j)"
      and cg: "postShopCogs prec s3 c x = Inr s4"
      and s': "s' = setOrder (addTransaction s4 f) i (\<lambda>y. y\<lparr>soStatus := SO_PAID\<rparr>)"
      using rest by (auto intro: that)
    note xo = shop_ok_order [OF ok x]
    have w2: "shop_write s1 s2 0 (soGoldRial x) (- soGoldGrams x) (- soGoldGrams x)"
      by (rule goldLeg_write [OF shop_write_ok [OF w01] xo g])
    have "0 \<le> a + soGoldRial x" using w1(2) xo by (simp add: order_ok_def)
    note w3 = shop_write_sale [OF shop_write_ok [OF w2] p this]
    note w4 = shop_write_cogs [OF shop_write_ok [OF w3] cg]
    note w5 = shop_write_transaction [OF shop_write_ok [OF w4], of f]
    have w: "shop_write s (addTransaction s4 f) (- a) (- a) (- soGoldGrams x) (- soGoldGrams x)"
      using shop_write_trans [OF shop_write_trans [OF shop_write_trans [OF shop_write_trans [OF w01 w2] w3] w4] w5]
      by simp
    have z: "stray s c p i = 0" using x False by (simp add: stray_def)
    show ?thesis using settle_last [OF ok w, of x SO_PAID] orderById_in [OF x] pend
      by (auto simp: s' z order_edge_def)
  qed
qed

lemma tryInvoice_moves: "shop_ok s \<Longrightarrow> shop_moves s 0 (tryInvoice s i)"
  unfolding tryInvoice_def
  by (auto split: option.split sum.split intro: Done stay0 shop_write_issue shop_ok_bank)

subsection \<open>Giving up an unpaid order\<close>

lemma shop_ok_calm:
  assumes "shop_ok s" "calm s s'" "holds_ok (holds s) \<Longrightarrow> holds_ok (holds s')"
    "orders_ok (nextId s) (shopOrders s')" "inputs_ok s'"
  shows "shop_ok s'" "rialGap s' = rialGap s" "gramGap s' = gramGap s"
proof -
  have b: "bank_write s s' 0 0 0 0" by (rule bank_write_calm [OF shop_ok_bank [OF assms(1)] assms(2,3)])
  then show "shop_ok s'" using assms(1,3-5) orders_ok_mono by (auto simp: shop_ok_def bank_write_def)
  show "rialGap s' = rialGap s" "gramGap s' = gramGap s"
    using b by (simp_all add: bank_write_def rialGap_def gramGap_def)
qed

lemma variants_ok_restock:
  assumes "variants_ok vs" "\<And>v. v \<in> set vs \<Longrightarrow> 0 \<le> vaStock v + q (vaId v)"
  shows "variants_ok (restock q vs)"
  using assms unfolding variants_ok_def restock_def by (auto simp: comp_def)

lemma qtyOf_nonneg: "order_ok n x \<Longrightarrow> 0 \<le> qtyOf (soItems x) v"
  unfolding order_ok_def qtyOf_def sum_where_def by (auto intro!: sum_list_nonneg)

lemma releaseStock_frame [simp]:
  "shopOrders (releaseStock s its) = shopOrders s" "cartItems (releaseStock s its) = cartItems s"
  "packagingLinks (releaseStock s its) = packagingLinks s" "goldQuotes (releaseStock s its) = goldQuotes s"
  "configNum (releaseStock s its) = configNum s" "discountCodes (releaseStock s its) = discountCodes s"
  "holds (releaseStock s its) = holds s" "nextId (releaseStock s its) = nextId s"
  by (simp_all add: releaseStock_def)

text \<open>Goods and holds of an order are given back, money is moved and booked, and the order ends.\<close>

lemma cancel_moves:
  assumes ok: "shop_ok s" and x: "x \<in> set (shopOrders s)" and e: "order_edge (soStatus x) SO_CANCELLED"
    and w: "shop_write (releaseOrderWalletHold (releaseStock s (soItems x)) (soId x)) s2 r r g g"
  shows "shop_moves s 0 (setOrder (setPayments s2 p st) (soId x) (\<lambda>y. y\<lparr>soStatus := SO_CANCELLED\<rparr>))"
proof (rule moves_one, rule Advance [OF _ x e])
  let ?s1 = "releaseOrderWalletHold (releaseStock s (soItems x)) (soId x)"
  have v: "variants ?s1 = restock (qtyOf (soItems x)) (variants s)" by (simp add: variants_releaseStock)
  have q: "0 \<le> qtyOf (soItems x) i" for i using ok x qtyOf_nonneg by (auto simp: shop_ok_def orders_ok_def)
  have "variants_ok (variants ?s1)" unfolding v
    by (rule variants_ok_restock) (use ok q in \<open>auto simp: shop_ok_def inputs_ok_def variants_ok_def\<close>)
  then have i: "inputs_ok ?s1" using ok by (simp add: shop_ok_def inputs_ok_def getNumber_def)
  have c: "calm s ?s1" by (rule calm_trans [OF calm_releaseStock calm_release])
  have h: "holds_ok (holds s) \<Longrightarrow> holds_ok (holds ?s1)"
    using release_frame(10) [of "releaseStock s (soItems x)" "soId x"] unfolding holds_ok_def by auto
  have o: "orders_ok (nextId s) (shopOrders ?s1)" using ok by (simp add: shop_ok_def)
  note s1 = shop_ok_calm [OF ok c h o i]
  note s2 = shop_ok_write [OF s1(1) w]
  note w3 = shop_write_payments [OF shop_ok_bank [OF s2], of p st]
  show "shop_ok (setOrder (setPayments s2 p st) (soId x) (\<lambda>y. y\<lparr>soStatus := SO_CANCELLED\<rparr>))"
    by (rule shop_ok_setOrder [OF shop_ok_write [OF s2 w3]])
  have f: "same_shop ?s1 (setPayments s2 p st)" using same_shop_trans w w3 by (auto simp: shop_write_def)
  show "shopOrders (setOrder (setPayments s2 p st) (soId x) (\<lambda>y. y\<lparr>soStatus := SO_CANCELLED\<rparr>)) =
      update_where (\<lambda>y. soId y = soId x) (\<lambda>y. y\<lparr>soStatus := SO_CANCELLED\<rparr>) (shopOrders s)"
    "discountCodes (setOrder (setPayments s2 p st) (soId x) (\<lambda>y. y\<lparr>soStatus := SO_CANCELLED\<rparr>)) = discountCodes s"
    "variants (setOrder (setPayments s2 p st) (soId x) (\<lambda>y. y\<lparr>soStatus := SO_CANCELLED\<rparr>)) =
      (if SO_CANCELLED = SO_CANCELLED then restock (qtyOf (soItems x)) (variants s) else variants s)"
    using f v by (simp_all add: setOrder_def same_shop_def)
  show "rialGap (setOrder (setPayments s2 p st) (soId x) (\<lambda>y. y\<lparr>soStatus := SO_CANCELLED\<rparr>)) = rialGap s"
    "gramGap (setOrder (setPayments s2 p st) (soId x) (\<lambda>y. y\<lparr>soStatus := SO_CANCELLED\<rparr>)) = gramGap s"
    using s1(2,3) gaps_write [OF w] gaps_write [OF w3] by simp_all
qed

lemma released_ok:
  assumes ok: "shop_ok s" and x: "x \<in> set (shopOrders s)"
  shows "bank_ok (releaseOrderWalletHold (releaseStock s (soItems x)) i)"
  using bank_write_calm [OF shop_ok_bank [OF ok] calm_trans [OF calm_releaseStock calm_release]]
    release_frame(10) [of "releaseStock s (soItems x)" i]
  by (auto simp: bank_write_def holds_ok_def)

lemma close_moves:
  assumes ok: "shop_ok s" and x: "x \<in> set (shopOrders s)" and p: "soStatus x = SO_PENDING_PAYMENT"
  shows "shop_moves s 0 (closeUnpaid s x)"
proof -
  have e: "order_edge (soStatus x) SO_CANCELLED" by (simp add: p order_edge_def)
  show ?thesis unfolding closeUnpaid_def by (rule cancel_moves [OF ok x e shop_write_refl [OF released_ok [OF ok x]]])
qed

lemma cancelUnpaid_moves: "shop_ok s \<Longrightarrow> shop_moves s 0 (cancelUnpaidGoldOrder s i)"
  unfolding cancelUnpaidGoldOrder_def
  by (cases "orderById s i") (simp_all add: Done close_moves orderById_in)

lemma cancelByUser_moves:
  assumes ok: "shop_ok s" and r: "cancelByUser s u i = Inr (s', b)"
  shows "shop_moves s 0 s'"
proof -
  obtain x where x: "find (\<lambda>x. soId x = i \<and> soUser x = u) (shopOrders s) = Some x"
    and s': "s' = s \<or> soStatus x = SO_PENDING_PAYMENT \<and> s' = closeUnpaid s x"
    using r by (auto simp: cancelByUser_def split: if_splits)
  from s' show ?thesis using Done close_moves [OF ok, of x] find_SomeD [OF x] by blast
qed

lemma process_moves:
  assumes ok: "shop_ok s" and r: "processOrder s i = Inr (s', b)"
  shows "shop_moves s 0 s'"
proof -
  obtain x where x: "orderById s i = Some x"
    and s': "s' = s \<or> soStatus x = SO_PAID \<and> s' = setOrder s i (\<lambda>y. y\<lparr>soStatus := SO_PROCESSING\<rparr>)"
    using r by (auto simp: processOrder_def split: if_splits)
  from s' show ?thesis
    using settle_last [OF ok shop_write_refl [OF shop_ok_bank [OF ok]], of x SO_PROCESSING] orderById_in [OF x] Done
    by (auto simp: order_edge_def)
qed

lemma refund_write:
  assumes ok: "bank_ok s" and x: "order_ok n x" and r: "refundOrder s c x = Inr s'"
  shows "\<exists>r g. shop_write s s' r r g g"
proof (cases "list_ex (\<lambda>t. tShopOrder t = Some (soId x) \<and> tType t = REFUND \<and> tStatus t = TX_COMPLETED) (transactions s)")
  case True
  then show ?thesis using r shop_write_refl [OF ok] by (auto simp: refundOrder_def)
next
  case False
  let ?r = "soTotal x - soGoldRial x" and ?g = "soGoldGrams x"
  obtain w s1 s2 s3 j where g: "refundGold s c x w = Inr s1" and rr: "refundRial s1 c x w ?r = Inr s2"
    and p: "postJournal s2 (now c) (refundJournal x ?r) = Inr (s3, j)" and cg: "reverseShopCogs s3 c (soId x) = Inr s'"
    using r False by (auto simp: refundOrder_def Let_def)
  have r0: "0 \<le> ?r" "0 \<le> soGoldRial x" "on_grid ?g" "0 \<le> ?g" "?g = 0 \<Longrightarrow> soGoldRial x = 0"
    using x by (simp_all add: order_ok_def)
  have w1: "shop_write s s1 0 (- soGoldRial x) ?g ?g"
  proof (cases "0 < ?g")
    case True
    then obtain t f where a: "walletAdd s (wId w) 0 ?g = Inr t"
      and q: "postGoldConversionJournal (addTransaction t f) c (soId x) ?g (soGoldRial x) True = Inr s1"
      using g by (auto simp: refundGold_def)
    note u1 = shop_write_wallet [OF ok a r0(3)]
    note u2 = shop_write_transaction [OF shop_write_ok [OF u1], of f]
    note u3 = shop_write_conversion [OF shop_write_ok [OF u2] q True]
    show ?thesis using shop_write_trans [OF shop_write_trans [OF u1 u2] u3] by simp
  next
    case False
    then have "?g = 0" using r0(4) by simp
    then show ?thesis using g shop_write_refl [OF ok] r0(5) by (simp add: refundGold_def)
  qed
  note b1 = shop_write_ok [OF w1]
  have w2: "shop_write s1 s2 ?r 0 0 0"
  proof (cases "0 < ?r")
    case True
    then obtain t f where a: "walletAdd s1 (wId w) ?r 0 = Inr t" and s2: "s2 = addTransaction t f"
      using rr by (auto simp: refundRial_def)
    have u1: "shop_write s1 t ?r 0 0 0" by (rule shop_write_wallet [OF b1 a]) simp
    show ?thesis using shop_write_trans [OF u1 shop_write_transaction [OF shop_write_ok [OF u1]]] by (simp add: s2)
  next
    case False
    then show ?thesis using rr r0(1) shop_write_refl [OF b1] by (simp add: refundRial_def)
  qed
  have "jiRefType (refundJournal x ?r) \<noteq> Some ''SHOP_COGS''" by (simp add: refundJournal_def)
  then have "bank_write s2 s3 0 (if 0 < ?r + soGoldRial x then ?r + soGoldRial x else 0) 0 0"
    using bank_write_post [OF shop_write_ok [OF w2] p _ refund_net] by simp
  then have w3: "shop_write s2 s3 0 (?r + soGoldRial x) 0 0"
    using same_shop_post [OF p] r0(1,2) by (cases "?r + soGoldRial x = 0") (auto simp: shop_write_def)
  note w4 = shop_write_uncogs [OF shop_write_ok [OF w3] cg]
  show ?thesis using shop_write_trans [OF shop_write_trans [OF shop_write_trans [OF w1 w2] w3] w4] by auto
qed

lemma adminCancel_moves:
  assumes ok: "shop_ok s" and r: "adminCancel s c i = Inr (s', b)"
  shows "shop_moves s 0 s'"
proof -
  obtain x where x: "orderById s i = Some x" using r by (auto simp: adminCancel_def)
  note xin = orderById_in [OF x]
  let ?s1 = "releaseOrderWalletHold (releaseStock s (soItems x)) i"
  note b1 = released_ok [OF ok conjunct1 [OF xin], of i]
  show ?thesis
  proof (cases "soStatus x = SO_CANCELLED")
    case True
    then show ?thesis using r x Done by (auto simp: adminCancel_def)
  next
    case False
    then obtain s2 where nd: "soStatus x \<noteq> SO_SHIPPED" "soStatus x \<noteq> SO_DELIVERED"
      and rf: "(if soStatus x = SO_PAID \<or> soStatus x = SO_PROCESSING then refundOrder ?s1 c x else Inr ?s1) = Inr s2"
      and s': "s' = setOrder (setPayments s2 (\<lambda>p. pyOrder p = Some i \<and> pyStatus p = PY_PENDING) PY_FAILED)
                 i (\<lambda>y. y\<lparr>soStatus := SO_CANCELLED\<rparr>)"
      using r x by (auto simp: adminCancel_def Let_def simp del: if_Inl_Inr split: if_split_asm)
    obtain r g where w: "shop_write ?s1 s2 r r g g"
      using rf refund_write [OF b1 shop_ok_order [OF ok x]] shop_write_refl [OF b1] by (auto split: if_split_asm)
    have e: "order_edge (soStatus x) SO_CANCELLED" using False nd by (cases "soStatus x") (auto simp: order_edge_def)
    show ?thesis unfolding s' using cancel_moves [OF ok _ e] w xin by blast
  qed
qed

lemma reserve_shape:
  assumes "reserveWalletHold s c u i amount = Inr s'"
  shows "same_shop s s'"
    "set (holds s') \<subseteq> insert \<lparr>hId = nextId s, hWallet = the (ownerId (wallets s) u), hRial = Some amount, hGrams = None,
       hType = HOLD_ORDER, hRef = Some i, hExpires = now c + 15 * 60 * 1000\<rparr> (set (holds s))"
proof -
  obtain w where w: "walletOfUser s u = Some w"
    using assms by (auto simp: reserveWalletHold_def)
  define s1 where "s1 = addHold (dropOrderHolds s i HOLD_ORDER)
    (\<lambda>h. \<lparr>hId = h, hWallet = wId w, hRial = Some amount, hGrams = None, hType = HOLD_ORDER,
          hRef = Some i, hExpires = now c + 15 * 60 * 1000\<rparr>)"
  have s': "s' = addPayment s1 (walletPayment u i amount PY_PENDING) \<or> (\<exists>ps. s' = s1\<lparr>payments := ps\<rparr>)"
    using assms w unfolding reserveWalletHold_def s1_def
    by (simp add: Let_def split: if_splits option.splits) blast+
  have o: "ownerId (wallets s) u = Some (wId w)" using w by (simp add: walletOfUser_def ownerId_def)
  have "same_shop s s1" by (simp add: same_shop_def s1_def)
  moreover have "same_shop s1 s'" using s' by (auto simp: same_shop_def)
  ultimately show "same_shop s s'" by (rule same_shop_trans)
  have "set (holds s') = set (holds s1)" using s' by auto
  then show "set (holds s') \<subseteq> insert \<lparr>hId = nextId s, hWallet = the (ownerId (wallets s) u), hRial = Some amount, hGrams = None,
       hType = HOLD_ORDER, hRef = Some i, hExpires = now c + 15 * 60 * 1000\<rparr> (set (holds s))"
    by (auto simp: s1_def o)
qed

lemma shop_write_reserve:
  assumes "bank_ok s" "reserveWalletHold s c u i amount = Inr s'" "0 \<le> amount"
  shows "shop_write s s' 0 0 0 0"
  unfolding shop_write_def
proof
  show "bank_write s s' 0 0 0 0"
    by (rule bank_write_calm [OF assms(1) calm_reserveWalletHold [OF assms(2)]])
       (use reserve_shape(2) [OF assms(2)] assms(3) in \<open>auto simp: holds_ok_def toDecimal_def\<close>)
qed (rule reserve_shape(1) [OF assms(2)])

lemma shop_write_release:
  assumes "bank_ok s" shows "shop_write s (releaseOrderWalletHold s i) 0 0 0 0"
proof -
  have "holds_ok (holds s) \<Longrightarrow> holds_ok (holds (releaseOrderWalletHold s i))"
    using release_frame(10) [of s i] unfolding holds_ok_def by blast
  note b = bank_write_calm [OF assms calm_release this]
  show ?thesis unfolding shop_write_def by (intro conjI b) (simp_all add: same_shop_def)
qed

lemma shop_write_begin: "bank_ok s \<Longrightarrow> beginGatewayPayment s u i amount g answer = Inr s' \<Longrightarrow> shop_write s s' 0 0 0 0"
  unfolding beginGatewayPayment_def by (auto split: if_splits simp: shop_write_payment)

lemma payChecks_due:
  assumes "orders_ok (nextId s) (shopOrders s)" "payChecks s u i = Inr (Some due)"
  obtains x where "orderById s i = Some x" "soUser x = u" "soStatus x = SO_PENDING_PAYMENT" "\<not> soMelted x" "soTotal x = due"
proof -
  obtain x where x: "find (\<lambda>x. soId x = i \<and> soUser x = u) (shopOrders s) = Some x"
    using assms(2) by (auto simp: payChecks_def)
  show thesis using assms(2) x order_of_user [OF assms(1) x] that by (auto simp: payChecks_def split: if_splits)
qed

lemma payOrder_moves:
  assumes ok: "shop_ok s" and r: "payOrder prec s c u i mode answer = (s', a)"
  shows "shop_moves s 0 s'"
proof (cases "payChecks s u i")
  case (Inr p)
  show ?thesis
  proof (cases p)
    case None
    then show ?thesis using r Inr Done by (auto simp: payOrder_def)
  next
    case (Some due)
    have o: "orders_ok (nextId s) (shopOrders s)" using ok by (simp add: shop_ok_def)
    from payChecks_due [OF o Inr [unfolded Some]] obtain x where
      x: "orderById s i = Some x" "soStatus x = SO_PENDING_PAYMENT" "soTotal x = due" by metis
    note pay = r [unfolded payOrder_def Inr Some, simplified]
    show ?thesis
    proof (cases "mode = BY_WALLET \<or> due \<le> 0")
      case True
      then show ?thesis using pay Done capture_moves [OF ok x] by (auto split: sum.splits)
    next
      case False
      note b = shop_ok_bank [OF ok]
      show ?thesis
      proof (cases mode)
        case BY_WALLET
        then show ?thesis using False by simp
      next
        case (BY_GATEWAY g)
        then show ?thesis using pay False Done stay0 [OF ok shop_write_begin [OF b]] by (auto split: sum.splits)
      next
        case (MIXED fromWallet fromGateway g)
        show ?thesis
        proof (cases "\<exists>s1. reserveWalletHold s c u i fromWallet = Inr s1 \<and> 0 < fromWallet \<and>
            (s' = releaseOrderWalletHold s1 i \<or> beginGatewayPayment s1 u i fromGateway g answer = Inr s')")
          case True
          then obtain s1 where r1: "reserveWalletHold s c u i fromWallet = Inr s1" "0 < fromWallet"
            and s': "s' = releaseOrderWalletHold s1 i \<or> beginGatewayPayment s1 u i fromGateway g answer = Inr s'" by blast
          have w1: "shop_write s s1 0 0 0 0" using shop_write_reserve [OF b r1(1)] r1(2) by simp
          have "shop_write s1 s' 0 0 0 0"
            using s' shop_write_release [OF shop_write_ok [OF w1]] shop_write_begin [OF shop_write_ok [OF w1]] by auto
          then show ?thesis using stay0 [OF ok] shop_write_trans [OF w1] by fastforce
        next
          case False
          then have "s' = s" using pay MIXED \<open>\<not> (mode = BY_WALLET \<or> due \<le> 0)\<close>
            by (auto split: sum.splits if_splits)
          then show ?thesis by (simp add: Done)
        qed
      qed
    qed
  qed
qed (use r in \<open>auto simp: payOrder_def intro: Done\<close>)

subsection \<open>The gateway\<close>

text \<open>The rial a callback takes without booking it: that of an already paid order whose payment is verified.\<close>

definition strayRial :: "'a shop_scheme \<Rightarrow> clock \<Rightarrow> gateway_provider \<Rightarrow> string \<Rightarrow> bool \<Rightarrow> int" where
  "strayRial s c provider ref verified =
     (case find (\<lambda>p. pyProvider p = Some provider \<and> pyRef p = Some ref) (payments s) of
        None \<Rightarrow> 0
      | Some p \<Rightarrow>
          (case pyOrder p of
             None \<Rightarrow> 0
           | Some i \<Rightarrow> if pyStatus p = PY_PENDING \<and> verified then stray s c p i else 0))"

lemma callback_moves:
  assumes ok: "shop_ok s" and r: "handleGatewayCallback prec s c provider ref verified = (s', a)"
  shows "shop_moves s (strayRial s c provider ref verified) s'"
proof (cases "find (\<lambda>p. pyProvider p = Some provider \<and> pyRef p = Some ref) (payments s)")
  case None
  then show ?thesis using r by (auto simp: handleGatewayCallback_def strayRial_def intro: Done)
next
  case p: (Some p)
  show ?thesis
  proof (cases "pyOrder p")
    case None
    then show ?thesis using r p by (auto simp: handleGatewayCallback_def strayRial_def intro: Done)
  next
    case i: (Some i)
    show ?thesis
    proof (cases "pyStatus p = PY_PENDING \<and> verified")
      case True
      show ?thesis
      proof (cases "finalizePayment prec s c p i")
        case (Inl e)
        have "stray s c p i = 0"
          using Inl unfolding stray_def finalizePayment_def Let_def
          by (auto simp: orderById_def dest!: takeLeg_write(1) [OF shop_ok_write [OF ok shop_write_payments [OF shop_ok_bank [OF ok]]]]
              split: option.splits if_splits sum.splits prod.splits) (auto simp: shop_write_def same_shop_def)
        then show ?thesis using Inl r p i True by (auto simp: handleGatewayCallback_def strayRial_def intro: Done)
      next
        case (Inr s1)
        note m = finalize_moves [OF ok Inr]
        have "shop_moves s (stray s c p i) (tryInvoice s1 i)"
          using moves_trans [OF m tryInvoice_moves [OF moves_ok [OF m ok]]] by simp
        then show ?thesis using Inr r p i True by (auto simp: handleGatewayCallback_def strayRial_def)
      qed
    next
      case False
      let ?s1 = "releaseOrderWalletHold (setPayments s (\<lambda>q. pyId q = pyId p) PY_FAILED) i"
      note w1 = shop_write_payments [OF shop_ok_bank [OF ok], of "\<lambda>q. pyId q = pyId p" PY_FAILED]
      have w: "shop_write s ?s1 0 0 0 0"
        using shop_write_trans [OF w1 shop_write_release [OF shop_write_ok [OF w1]]] by simp
      have "shop_moves s 0 s'"
        using False r p i Done stay0 [OF ok w] moves_trans0 [OF stay0 [OF ok w] cancelUnpaid_moves [OF shop_ok_write [OF ok w]]]
        by (cases "pyStatus p") (auto simp: handleGatewayCallback_def Let_def split: if_splits)
      then show ?thesis using p i False by (auto simp: strayRial_def)
    qed
  qed
qed

subsection \<open>The expiry job\<close>

definition sameItems :: "'a shop_scheme \<Rightarrow> order_row \<Rightarrow> bool" where
  "sameItems s x \<longleftrightarrow> (\<forall>y. orderById s (soId x) = Some y \<longrightarrow> soItems y = soItems x)"

lemma closeUnpaid_same: "soId x = soId y \<Longrightarrow> soItems x = soItems y \<Longrightarrow> closeUnpaid s x = closeUnpaid s y"
  by (simp add: closeUnpaid_def)

lemma shopOrders_close:
  "shopOrders (closeUnpaid s x) = update_where (\<lambda>y. soId y = soId x) (\<lambda>y. y\<lparr>soStatus := SO_CANCELLED\<rparr>) (shopOrders s)"
  by (simp add: closeUnpaid_def setOrder_def)

lemma orderById_status:
  assumes "shopOrders s' = update_where (\<lambda>y. soId y = i) (\<lambda>y. y\<lparr>soStatus := st\<rparr>) (shopOrders s)"
  shows "orderById s' j = (if j = i then map_option (\<lambda>y. y\<lparr>soStatus := st\<rparr>) (orderById s j) else orderById s j)"
  unfolding orderById_def assms
  using find_update_where_same [of soId "\<lambda>y. y\<lparr>soStatus := st\<rparr>" i "shopOrders s"]
    find_update_where_other [of "\<lambda>y. soId y = i" "\<lambda>y. soId y = j" "\<lambda>y. y\<lparr>soStatus := st\<rparr>" "shopOrders s"]
  by auto

lemma expire_moves:
  assumes ok: "shop_ok s"
  shows "shop_moves s 0 (expireStaleOrders s c)"
proof -
  have step: "shop_moves s 0 (expireOrder s x) \<and> (\<forall>y. sameItems s y \<longrightarrow> sameItems (expireOrder s x) y)"
    if "shop_ok s" "sameItems s x" for s :: "'a shop_scheme" and x
  proof (cases "orderById s (soId x)")
    case (Some y)
    show ?thesis
    proof (cases "soStatus y = SO_PENDING_PAYMENT")
      case True
      have e: "expireOrder s x = closeUnpaid s y"
        using that(2) Some True orderById_in [OF Some] closeUnpaid_same [of x y s]
        by (simp add: expireOrder_def sameItems_def)
      show ?thesis unfolding e using close_moves [OF that(1) _ True] orderById_in [OF Some]
        by (auto simp: sameItems_def orderById_status [OF shopOrders_close])
    qed (simp add: expireOrder_def Some Done)
  qed (simp add: expireOrder_def Done)
  have loop: "shop_moves s 0 (foldl expireOrder s xs)" if "shop_ok s" "\<forall>x \<in> set xs. sameItems s x"
    for s :: "'a shop_scheme" and xs
    using that
  proof (induction xs arbitrary: s)
    case (Cons x xs)
    have x: "shop_moves s 0 (expireOrder s x)" "\<forall>y \<in> set xs. sameItems (expireOrder s x) y"
      using step [of s x] Cons.prems by auto
    then show ?case using moves_trans0 [OF x(1) Cons.IH [OF moves_ok [OF x(1) Cons.prems(1)] x(2)]] by simp
  qed (simp add: Done)
  have "sameItems s x" if "x \<in> set (shopOrders s)" for x
    using that ok orders_ok_unique [of "nextId s" "shopOrders s"] orderById_in [of s "soId x"]
    unfolding sameItems_def shop_ok_def by metis
  then show ?thesis unfolding expireStaleOrders_def by (intro loop ok) auto
qed

subsection \<open>Opening an order\<close>

lemma selectionCharge_nonneg:
  assumes "resolveForCheckout s a g v m later = Inr sel"
  shows "0 \<le> selectionCharge sel"
proof -
  have "0 \<le> scShipping (resolveShippingCharge x b)" for x b
    by (auto simp: resolveShippingCharge_def Let_def)
  then show ?thesis
    using assms unfolding resolveForCheckout_def selectionCharge_def
    by (fastforce split: if_splits option.splits prod.splits)
qed

lemma checkItems_each: "checkItems s items is = Inr () \<Longrightarrow> i \<in> set is \<Longrightarrow> checkItem s items i = Inr ()"
  by (induction s items "is" rule: checkItems.induct) auto

lemma checkItem_Inr:
  assumes "checkItem s items i = Inr ()"
  shows "0 < toDecimal (ciPrice i)"
    and "ciVariant i = Some v \<Longrightarrow> \<exists>x. variantById s v = Some x \<and> requestedOf items v \<le> vaStock x"
  using assms unfolding checkItem_def by (auto split: if_splits option.splits)

lemma pick_in: "pick xs k = Some x \<Longrightarrow> x \<in> set xs"
  unfolding pick_def by (auto split: if_splits option.splits dest: find_SomeD)

lemma packagingInputs_prices:
  assumes "packagingInputs s items = Inr inputs" "\<forall>l \<in> set (packagingLinks s). 0 \<le> pkPrice (snd l)"
  shows "\<forall>(k, x, q) \<in> set inputs. \<forall>p. x = Some p \<longrightarrow> 0 \<le> pkPrice p"
  using assms
proof (induction s items arbitrary: inputs rule: packagingInputs.induct)
  case (2 s i "is")
  let ?o = "optionsOf s (itemProductId s i)"
  from 2(2) obtain rest where r: "packagingInputs s is = Inr rest"
    and i: "inputs = (ciId i, pick ?o (ciPackaging i), ciQuantity i) # rest"
    and n: "\<not> (?o \<noteq> [] \<and> (case ciPackaging i of None \<Rightarrow> False | Some k \<Rightarrow> \<not> list_ex (\<lambda>x. pkId x = k) ?o))"
    by (auto simp: Let_def)
  have "0 \<le> pkPrice p" if "pick ?o (ciPackaging i) = Some p" for p
    using pick_in [OF that] 2(3) by (auto simp: optionsOf_def split: option.splits)
  then show ?case using 2(1) [OF refl n r 2(3)] by (auto simp: i)
qed simp

lemma computeCharges_nonneg:
  assumes "\<forall>(k, x, q) \<in> set inputs. \<forall>p. x = Some p \<longrightarrow> 0 \<le> pkPrice p"
  shows "0 \<le> psCharged (computeCharges inputs sub g)"
proof -
  have "0 \<le> (\<Sum>(k, x, q)\<leftarrow>inputs. case x of None \<Rightarrow> 0 | Some p \<Rightarrow> pcCharged (packagingCharge p q sub g))"
  proof (rule sum_list_nonneg)
    fix v assume "v \<in> set (map (\<lambda>(k, x, q). case x of None \<Rightarrow> 0 | Some p \<Rightarrow> pcCharged (packagingCharge p q sub g)) inputs)"
    then obtain k x q where i: "(k, x, q) \<in> set inputs"
      and v: "v = (case x of None \<Rightarrow> 0 | Some p \<Rightarrow> pcCharged (packagingCharge p q sub g))" by auto
    show "0 \<le> v" using assms i by (cases x) (auto simp: v packagingCharge_bounds(1))
  qed
  then show ?thesis by (simp add: computeCharges_def Let_def charges_fold(1))
qed

lemma evaluate_Inr:
  assumes "evaluate s c raw u sub = Inr (d, v)"
  shows "d \<in> set (discountCodes s)" "v = computeDiscountRial d sub" "0 < v"
    "\<And>l. dcLimit d = Some l \<Longrightarrow> int (codeUses s (dcId d)) < l"
    "\<And>l. dcPerUser d = Some l \<Longrightarrow> int (codeUsesBy s (dcId d) u) < l"
  using assms unfolding evaluate_def Let_def
  by (auto split: if_splits option.splits dest: find_SomeD)

lemma checkoutDiscount_Inr:
  assumes "checkoutDiscount s c code u sub = Inr (k, v)" "0 \<le> sub"
  shows "0 \<le> v" "v \<le> sub"
    "k = Some i \<Longrightarrow> \<exists>d \<in> set (discountCodes s). dcId d = i \<and> (\<forall>l. dcLimit d = Some l \<longrightarrow> int (codeUses s i) < l) \<and>
       (\<forall>l. dcPerUser d = Some l \<longrightarrow> int (codeUsesBy s i u) < l)"
proof -
  have "k = None \<and> v = 0 \<or> (\<exists>d raw. k = Some (dcId d) \<and> evaluate s c raw u sub = Inr (d, v))"
    using assms(1) by (auto simp: checkoutDiscount_def split: if_splits)
  then consider "k = None" "v = 0" | d raw where "k = Some (dcId d)" "evaluate s c raw u sub = Inr (d, v)" by blast
  then have "0 \<le> v \<and> v \<le> sub \<and> (k = Some i \<longrightarrow> (\<exists>d \<in> set (discountCodes s). dcId d = i \<and>
      (\<forall>l. dcLimit d = Some l \<longrightarrow> int (codeUses s i) < l) \<and>
       (\<forall>l. dcPerUser d = Some l \<longrightarrow> int (codeUsesBy s i u) < l)))"
  proof cases
    case 2
    then show ?thesis using evaluate_Inr [OF 2(2)] computeDiscountRial_bounds [OF assms(2)] by auto
  qed (use assms(2) in simp)
  then show "0 \<le> v" "v \<le> sub"
    "k = Some i \<Longrightarrow> \<exists>d \<in> set (discountCodes s). dcId d = i \<and> (\<forall>l. dcLimit d = Some l \<longrightarrow> int (codeUses s i) < l) \<and>
       (\<forall>l. dcPerUser d = Some l \<longrightarrow> int (codeUsesBy s i u) < l)" by simp_all
qed

lemma qtyOf_newItems: "qtyOf (map (newItem pk) items) v = requestedOf items v"
  unfolding qtyOf_def requestedOf_def
  by (induction items) (simp_all add: newItem_def Let_def)

lemma takeStock_frame [simp]:
  "shopOrders (takeStock s its) = shopOrders s" "cartItems (takeStock s its) = cartItems s"
  "packagingLinks (takeStock s its) = packagingLinks s" "goldQuotes (takeStock s its) = goldQuotes s"
  "configNum (takeStock s its) = configNum s" "discountCodes (takeStock s its) = discountCodes s"
  "holds (takeStock s its) = holds s" "nextId (takeStock s its) = nextId s"
  by (simp_all add: takeStock_def)

text \<open>A new order whose goods are in stock.\<close>

lemma open_moves:
  assumes ok: "shop_ok s" and sq: "sequenceNext s ''SHO'' = (s1, num)"
    and x: "order_ok (nextId s + 1) x" "soId x = nextId s" "soStatus x = SO_PENDING_PAYMENT" "within_limits s x"
    and v: "\<And>v. v \<in> set (variants s) \<Longrightarrow> qtyOf (soItems x) (vaId v) \<le> vaStock v"
    and s': "s' = takeStock (s1\<lparr>nextId := nextId s + 1, shopOrders := shopOrders s1 @ [x]\<rparr>) (soItems x)"
  shows "shop_move s 0 (s'\<lparr>cartItems := filter p (cartItems s')\<rparr>)" "shop_move s 0 s'"
proof -
  have s1: "s1 = s\<lparr>sequences := sequences s1\<rparr>" using sq by (auto simp: sequenceNext_def Let_def)
  have e: "shopOrders s1 = shopOrders s" "variants s1 = variants s" "cartItems s1 = cartItems s"
    "packagingLinks s1 = packagingLinks s" "goldQuotes s1 = goldQuotes s" "configNum s1 = configNum s"
    "discountCodes s1 = discountCodes s" "holds s1 = holds s" "nextId s1 = nextId s"
    by (subst s1, simp)+
  have "calm s1 (s1\<lparr>nextId := nextId s + 1, shopOrders := shopOrders s1 @ [x]\<rparr>)"
    by (rule calm_same_holds) (simp_all add: e)
  then have c: "calm s s'" unfolding s' using calm_trans [OF calm_sequenceNext [OF sq]] calm_trans calm_takeStock by blast
  have "variants_ok (restock (\<lambda>v. - qtyOf (soItems x) v) (variants s))"
    by (rule variants_ok_restock) (use ok v in \<open>auto simp: shop_ok_def inputs_ok_def\<close>)
  then have i: "inputs_ok s'" using ok by (simp add: shop_ok_def inputs_ok_def getNumber_def s' e variants_takeStock)
  have "orders_ok (nextId s + 1) (shopOrders s @ [x])"
    using ok x(1,2) orders_ok_mono [of "nextId s" "shopOrders s" "nextId s + 1"]
    by (auto simp: shop_ok_def orders_ok_def order_ok_def)
  then have o: "orders_ok (nextId s') (shopOrders s')" by (simp add: s' e)
  have b: "bank_write s s' 0 0 0 0"
    by (rule bank_write_calm [OF shop_ok_bank [OF ok] c]) (simp add: s' e)
  then have ok': "shop_ok s'" using o i ok by (simp add: shop_ok_def bank_write_def)
  have g: "rialGap s' = rialGap s" "gramGap s' = gramGap s" using b by (simp_all add: bank_write_def rialGap_def gramGap_def)
  show m: "shop_move s 0 s'"
    by (rule Open [OF ok' _ x(3,4) _ _ g]) (simp_all add: s' e variants_takeStock)
  let ?s2 = "s'\<lparr>cartItems := filter p (cartItems s')\<rparr>"
  have c2: "calm s' ?s2" by (rule calm_same_holds) simp_all
  have i2: "inputs_ok ?s2" using i by (auto simp: inputs_ok_def getNumber_def)
  note k = shop_ok_calm [OF ok' c2 _ _ i2]
  show "shop_move s 0 ?s2"
    by (rule Open [OF k(1) _ x(3,4)]) (use ok' k(2,3) g in \<open>simp_all add: s' e variants_takeStock shop_ok_def\<close>)
qed

lemma checkout_moves:
  assumes ok: "shop_ok s" and r: "checkout s c u addr m later code = Inr (s', i)"
  shows "shop_moves s 0 s'"
proof -
  let ?items = "filter (\<lambda>i. ciUser i = u) (cartItems s)"
  obtain a sel where sel: "resolveForCheckout s a (fst (parcelOf s ?items)) (snd (parcelOf s ?items)) m later = Inr sel"
    and p: "placeOrder s c u addr ?items sel code = Inr (s', i)"
    using r by (auto simp: checkout_def Let_def)
  define sub where "sub = (\<Sum>i\<leftarrow>?items. toDecimal (ciPrice i) * ciQuantity i)"
  obtain k v inputs s1 num where ch: "checkItems s ?items ?items = Inr ()"
    and d: "checkoutDiscount s c code u sub = Inr (k, v)" and pi: "packagingInputs s ?items = Inr inputs"
    and sq: "sequenceNext s ''SHO'' = (s1, num)"
    and s': "s' = (let pk = computeCharges inputs sub (getGlobalFreeThresholdRial s); its = map (newItem pk) ?items;
        s2 = takeStock (s1\<lparr>nextId := nextId s1 + 1,
            shopOrders := shopOrders s1 @ [newOrder (nextId s1) num c u addr its sub v k pk sel]\<rparr>) its
        in s2\<lparr>cartItems := delete_where (\<lambda>x. ciUser x = u) (cartItems s2)\<rparr>)"
    using p unfolding placeOrder_def sub_def [symmetric]
    by (cases "sequenceNext s ''SHO''") (auto simp: Let_def)
  let ?pk = "computeCharges inputs sub (getGlobalFreeThresholdRial s)"
  let ?x = "newOrder (nextId s) num c u addr (map (newItem ?pk) ?items) sub v k ?pk sel"
  have n: "nextId s1 = nextId s" using sq by (auto simp: sequenceNext_def Let_def)
  have q: "0 < ciQuantity i" if "i \<in> set ?items" for i using ok that by (simp add: shop_ok_def inputs_ok_def)
  note each = checkItem_Inr [OF checkItems_each [OF ch]]
  have "0 \<le> sub" unfolding sub_def by (rule sum_list_nonneg) (use q each(1) in \<open>fastforce intro: mult_nonneg_nonneg less_imp_le\<close>)
  note dd = checkoutDiscount_Inr [OF d this]
  have pc: "0 \<le> psCharged ?pk"
    by (rule computeCharges_nonneg, rule packagingInputs_prices [OF pi]) (use ok in \<open>simp add: shop_ok_def inputs_ok_def\<close>)
  note sh = selectionCharge_nonneg [OF sel]
  have "0 \<le> oiQuantity it" if "it \<in> set (map (newItem ?pk) ?items)" for it
    using that q by (fastforce simp: newItem_def Let_def)
  then have xo: "order_ok (nextId s + 1) ?x"
    using \<open>0 \<le> sub\<close> dd(1,2) pc sh by (simp add: order_ok_def newOrder_def)
  have lim: "within_limits s ?x" using dd(3) by (auto simp: within_limits_def newOrder_def)
  have st: "qtyOf (soItems ?x) (vaId w) \<le> vaStock w" if w: "w \<in> set (variants s)" for w
  proof (cases "\<exists>i \<in> set ?items. ciVariant i = Some (vaId w)")
    case True
    then obtain i y where "variantById s (vaId w) = Some y" "requestedOf ?items (vaId w) \<le> vaStock y" using each(2) by blast
    moreover have "variantById s (vaId w) = Some w" unfolding variantById_def
      by (rule find_unique [OF _ w]) (use ok in \<open>simp add: shop_ok_def inputs_ok_def variants_ok_def\<close>)
    ultimately show ?thesis by (simp add: newOrder_def qtyOf_newItems)
  next
    case False
    then have "requestedOf ?items (vaId w) = 0"
      unfolding requestedOf_def sum_where_def by (simp add: filter_empty_conv)
    moreover have "0 \<le> vaStock w" using ok w by (simp add: shop_ok_def inputs_ok_def variants_ok_def)
    ultimately show ?thesis by (simp add: newOrder_def qtyOf_newItems)
  qed
  show ?thesis
    by (rule moves_one)
       (use open_moves(1) [OF ok sq xo _ _ lim st refl, of "\<lambda>x. ciUser x \<noteq> u"] in
         \<open>simp add: s' n Let_def newOrder_def delete_where_def\<close>)
qed

subsection \<open>Bars\<close>

lemma stay_tables:
  assumes ok: "shop_ok s" and c: "calm s s'" and h: "holds s' = holds s"
    and t: "shopOrders s' = shopOrders s" "variants s' = variants s" "discountCodes s' = discountCodes s"
    and i: "inputs_ok s'"
  shows "shop_moves s 0 s'"
proof (rule moves_one, rule Stay [OF _ t])
  have o: "orders_ok (nextId s) (shopOrders s')" using ok t by (simp add: shop_ok_def)
  have hh: "holds_ok (holds s) \<Longrightarrow> holds_ok (holds s')" by (simp add: h)
  show "shop_ok s'" "rialGap s' = rialGap s - 0" "gramGap s' = gramGap s"
    using shop_ok_calm [OF ok c hh o i] by simp_all
qed

lemma goldRateRial_nonneg:
  assumes "goldRateRial s c = Inr r" "getNumber s ''trade.gold.spread_percent'' 0 \<le> 100"
  shows "0 \<le> r"
proof -
  obtain q :: price_quote where q: "0 < qPrice q" "r = round_down (of_int (qPrice q) * (1 - getNumber s ''trade.gold.spread_percent'' 0 / 100))"
    using assms(1) by (auto simp: goldRateRial_def not_le)
  have "0 \<le> of_int (qPrice q) * (1 - getNumber s ''trade.gold.spread_percent'' 0 / 100)"
    using q(1) assms(2) by (intro mult_nonneg_nonneg) simp_all
  then show ?thesis unfolding q(2) by (rule round_down_nonneg)
qed

lemma priceVariant_shape:
  assumes "priceVariant prec s c v = (s1, a)"
  shows "\<exists>cached. s1 = s\<lparr>prices := cached\<rparr>" "a = Inr (price, lines) \<Longrightarrow> 0 < price"
proof -
  show "\<exists>cached. s1 = s\<lparr>prices := cached\<rparr>"
    using assms unfolding priceVariant_def Let_def by (cases s) (auto split: prod.splits)
  show "a = Inr (price, lines) \<Longrightarrow> 0 < price"
    using assms unfolding priceVariant_def Let_def by (auto split: prod.splits sum.splits if_splits)
qed

lemma availableBar_in: "availableBar s i = Some v \<Longrightarrow> v \<in> set (variants s) \<and> vaId v = i \<and> 0 < vaStock v"
  unfolding availableBar_def by (auto dest: find_SomeD)

lemma quoteBar_shape:
  assumes "quoteBar prec s c u v = (s', a)"
  shows "s' = s \<or> (\<exists>cached. s' = s\<lparr>prices := cached\<rparr>) \<or>
    (\<exists>x rate price w lines cached. availableBar s v = Some x \<and> goldRateRial s c = Inr rate \<and> 0 < price \<and>
       walletOfUser s u = Some w \<and> minGoldGrams s \<le> goldAvailable s c w \<and>
       s' = s\<lparr>prices := cached, nextId := nextId s + 1,
              goldQuotes := goldQuotes s @
                        [\<lparr>gqId = nextId s, gqUser = u, gqVariant = v, gqWeight = vaWeight x, gqPrice = price,
                          gqRate = rate, gqBreakdown = lines,
                          gqExpires = now c + \<lfloor>quoteTtlSeconds s * 1000\<rfloor>\<rparr>]\<rparr>)"
proof -
  consider "s' = s" | x rate w where "availableBar s v = Some x" "goldRateRial s c = Inr rate" "walletOfUser s u = Some w"
    using assms unfolding quoteBar_def by (auto split: sum.splits option.splits)
  then show ?thesis
  proof cases
    case (2 x rate w)
    obtain s1 r where p: "priceVariant prec s c x = (s1, r)" by fastforce
    obtain cached where s1: "s1 = s\<lparr>prices := cached\<rparr>" using priceVariant_shape(1) [OF p] by blast
    show ?thesis
    proof (cases r)
      case (Inl e)
      then show ?thesis using assms 2 p s1 by (auto simp: quoteBar_def split: sum.splits)
    next
      case (Inr y)
      obtain price lines where y: "y = (price, lines)" by fastforce
      have "0 < price" using priceVariant_shape(2) [OF p] Inr y by blast
      have "s' = s \<or> s' = s\<lparr>prices := cached\<rparr> \<or> minGoldGrams s \<le> goldAvailable s c w \<and>
          s' = s\<lparr>prices := cached, nextId := nextId s + 1,
              goldQuotes := goldQuotes s @
                        [\<lparr>gqId = nextId s, gqUser = u, gqVariant = v, gqWeight = vaWeight x, gqPrice = price,
                          gqRate = rate, gqBreakdown = lines,
                          gqExpires = now c + \<lfloor>quoteTtlSeconds s * 1000\<rfloor>\<rparr>]\<rparr>"
        using assms 2 p s1 Inr y by (auto simp: quoteBar_def not_less split: sum.splits if_splits)
      then show ?thesis using \<open>0 < price\<close> 2 by blast
    qed
  qed simp
qed

lemma quoteBar_moves:
  assumes ok: "shop_ok s" and r: "quoteBar prec s c u v = (s', a)"
  shows "shop_moves s 0 s'"
  using quoteBar_shape [OF r]
proof (elim disjE exE conjE)
  assume "s' = s" then show ?thesis by (simp add: Done)
next
  fix cached assume s': "s' = s\<lparr>prices := cached\<rparr>"
  have "calm s s'" by (rule calm_same_holds) (simp_all add: s')
  then show ?thesis by (rule stay_tables [OF ok]) (use ok in \<open>simp_all add: s' shop_ok_def inputs_ok_def getNumber_def\<close>)
next
  fix x rate price w lines cached
  assume a: "availableBar s v = Some x" "goldRateRial s c = Inr rate" "0 < price" and
    s': "s' = s\<lparr>prices := cached, nextId := nextId s + 1,
              goldQuotes := goldQuotes s @
                        [\<lparr>gqId = nextId s, gqUser = u, gqVariant = v, gqWeight = vaWeight x, gqPrice = price,
                          gqRate = rate, gqBreakdown = lines,
                          gqExpires = now c + \<lfloor>quoteTtlSeconds s * 1000\<rfloor>\<rparr>]\<rparr>"
  have i: "inputs_ok s" using ok by (simp add: shop_ok_def)
  have "0 \<le> rate" by (rule goldRateRial_nonneg [OF a(2)]) (use i in \<open>simp add: inputs_ok_def\<close>)
  moreover have "0 \<le> vaWeight x" "on_grid (vaWeight x)"
    using availableBar_in [OF a(1)] i by (auto simp: inputs_ok_def variants_ok_def)
  ultimately have "inputs_ok s'" using i a(3) by (simp add: s' inputs_ok_def quote_ok_def getNumber_def)
  moreover have "calm s s'" by (rule calm_same_holds) (simp_all add: s')
  ultimately show ?thesis by (intro stay_tables [OF ok]) (simp_all add: s')
qed

lemma dropQuote_moves:
  assumes ok: "shop_ok s" shows "shop_moves s 0 (dropQuote s q)"
proof (rule stay_tables [OF ok])
  show "calm s (dropQuote s q)" by (rule calm_same_holds) (simp_all add: dropQuote_def)
qed (use ok in \<open>auto simp: dropQuote_def shop_ok_def inputs_ok_def getNumber_def delete_where_def\<close>)

lemma barOrder_ok:
  assumes q: "quote_ok q" and sel: "0 \<le> selectionCharge sel"
    and p: "plan = planGoldBarPayment (gqPrice q) (gqWeight q) (gqRate q) avail rial a b (selectionCharge sel)"
  shows "order_ok (i + 1) (barOrder i num c u addr q plan sel)"
    and "soGoldGrams (barOrder i num c u addr q plan sel) = gpAppliedGrams plan"
    and "gpAppliedRial plan + gpRialWallet plan + gpGateway plan = soTotal (barOrder i num c u addr q plan sel)"
    and "0 \<le> gpRialWallet plan" "0 \<le> gpGateway plan"
proof -
  note f = plan_facts [OF _ _ _ _ p]
  have q': "0 \<le> gqPrice q" "0 \<le> gqWeight q" "0 \<le> gqRate q" "on_grid (gqWeight q)" using q by (simp_all add: quote_ok_def)
  note f = f [OF q']
  have n: "numeric4 (gpAppliedGrams plan) = gpAppliedGrams plan" using f by (intro numeric4_on_grid) blast
  then show "soGoldGrams (barOrder i num c u addr q plan sel) = gpAppliedGrams plan" by (simp add: barOrder_def)
  show t: "gpAppliedRial plan + gpRialWallet plan + gpGateway plan = soTotal (barOrder i num c u addr q plan sel)"
    "0 \<le> gpRialWallet plan" "0 \<le> gpGateway plan"
    using f sel by (simp_all add: barOrder_def)
  have "gpAppliedRial plan = 0" if "gpAppliedGrams plan = 0"
  proof -
    have "of_int (gpAppliedRial plan) \<le> (0 :: rat)" "0 \<le> gpAppliedRial plan" using f that by auto
    then show ?thesis by simp
  qed
  moreover have "gpAppliedRial plan \<le> gqPrice q + selectionCharge sel" using t by (simp add: barOrder_def)
  ultimately show "order_ok (i + 1) (barOrder i num c u addr q plan sel)"
    using f q' sel unfolding order_ok_def by (simp add: barOrder_def n barItem_def)
qed

lemma captureBar_moves:
  assumes ok: "shop_ok s" and x: "x \<in> set (shopOrders s)" "soStatus x = SO_PENDING_PAYMENT"
    and p: "0 \<le> gpRialWallet plan"
    and r: "captureWithoutGateway prec s c x wid plan = Inr s'"
  shows "shop_moves s 0 s'"
proof -
  obtain s1 s2 s3 j s4 v where g: "captureGoldLeg s c x False = Inr s1"
    and t: "takeRial s1 c (soUser x) (soId x) wid (gpRialWallet plan) = Inr s2"
    and po: "postJournal s2 (now c) (saleJournal x (gpRialWallet plan + soGoldRial x) 0) = Inr (s3, j)"
    and cg: "postShopCogs prec s3 c x = Inr s4"
    and iv: "issueForShopOrder (setOrder s4 (soId x) (\<lambda>y. y\<lparr>soStatus := SO_PAID\<rparr>)) x = Inr (s', v)"
    using r by (auto simp: captureWithoutGateway_def)
  have xo: "order_ok (nextId s) x" using ok x by (simp add: shop_ok_def orders_ok_def)
  note w1 = goldLeg_write [OF shop_ok_bank [OF ok] xo g]
  let ?r = "gpRialWallet plan"
  have w2: "shop_write s1 s2 (- ?r) 0 0 0"
  proof (cases "?r \<le> 0")
    case True
    then show ?thesis using t p shop_write_refl [OF shop_write_ok [OF w1]] by (simp add: takeRial_def)
  next
    case False
    then obtain u f h where a: "walletAdd s1 wid (- ?r) 0 = Inr u" and s2: "s2 = addTransaction (addPayment u f) h"
      using t by (auto simp: takeRial_def)
    have u1: "shop_write s1 u (- ?r) 0 0 0" by (rule shop_write_wallet [OF shop_write_ok [OF w1] a]) simp
    note u2 = shop_write_payment [OF shop_write_ok [OF u1], of f]
    show ?thesis using shop_write_trans [OF shop_write_trans [OF u1 u2] shop_write_transaction [OF shop_write_ok [OF u2]]]
      by (simp add: s2)
  qed
  have "0 \<le> ?r + soGoldRial x" using p xo by (simp add: order_ok_def)
  note w3 = shop_write_sale [OF shop_write_ok [OF w2] po this]
  note w4 = shop_write_cogs [OF shop_write_ok [OF w3] cg]
  have w: "shop_write s s4 (- ?r) (- ?r) (- soGoldGrams x) (- soGoldGrams x)"
    using shop_write_trans [OF shop_write_trans [OF shop_write_trans [OF w1 w2] w3] w4] by simp
  note f = shop_write_issue [OF shop_ok_bank [OF shop_ok_setOrder [OF shop_ok_write [OF ok w]]] iv]
  show ?thesis by (rule settle [OF ok w x(1) _ _ f]) (simp_all add: x(2) order_edge_def)
qed

lemma reserveParts_moves:
  assumes ok: "shop_ok s" shows "shop_moves s 0 (reserveParts s c u i wid plan)"
proof -
  let ?f = "\<lambda>h. \<lparr>hId = h, hWallet = wid, hRial = None, hGrams = Some (numeric4 (gpAppliedGrams plan)),
                 hType = HOLD_ORDER_GOLD, hRef = Some i, hExpires = now c + HOLD_MINUTES * 60 * 1000\<rparr>"
  let ?g = "\<lambda>h. \<lparr>hId = h, hWallet = wid, hRial = Some (gpRialWallet plan), hGrams = None,
                hType = HOLD_ORDER, hRef = Some i, hExpires = now c + HOLD_MINUTES * 60 * 1000\<rparr>"
  have w1: "shop_write s (addHold s ?f) 0 0 0 0"
    unfolding shop_write_def
    by (intro conjI bank_write_calm [OF shop_ok_bank [OF ok] calm_addHold]) (auto simp: holds_ok_def same_shop_def)
  have w2: "shop_write (addHold s ?f) (addHold (addHold s ?f) ?g) 0 0 0 0" if "0 < gpRialWallet plan"
    unfolding shop_write_def
    by (intro conjI bank_write_calm [OF shop_write_ok [OF w1] calm_addHold])
       (use that in \<open>auto simp: holds_ok_def same_shop_def toDecimal_def\<close>)
  show ?thesis
  proof (cases "0 < gpRialWallet plan")
    case True
    note w = shop_write_trans [OF shop_write_trans [OF w1 w2 [OF True]] shop_write_payment [OF shop_write_ok [OF w2 [OF True]]]]
    show ?thesis using stay0 [OF ok] w True by (simp add: reserveParts_def Let_def)
  qed (use stay0 [OF ok w1] in \<open>simp add: reserveParts_def Let_def\<close>)
qed

lemma createBar_moves:
  assumes ok: "shop_ok s" and q: "quote_ok q" and sel: "0 \<le> selectionCharge sel"
    and r: "createBarOrder prec s c u q addr a b g sel = Inr (s', i, plan, paid)"
  shows "shop_moves s 0 s'"
proof -
  obtain v w where v: "availableBar s (gqVariant q) = Some v" and w: "walletOfUser s u = Some w"
    using r by (auto simp: createBarOrder_def)
  let ?plan = "planGoldBarPayment (gqPrice q) (gqWeight q) (gqRate q) (goldAvailable s c w)
                           (rialAvailable s c w) a b (selectionCharge sel)"
  obtain s1 num where sq: "sequenceNext s ''SHO'' = (s1, num)" by fastforce
  have n: "nextId s1 = nextId s" using sq by (auto simp: sequenceNext_def Let_def)
  let ?x = "barOrder (nextId s) num c u addr q ?plan sel"
  let ?s2 = "takeStock (s1\<lparr>nextId := nextId s + 1, shopOrders := shopOrders s1 @ [?x]\<rparr>) (soItems ?x)"
  have s': "s' = reserveParts ?s2 c u (nextId s) (wId w) ?plan \<or> captureWithoutGateway prec ?s2 c ?x (wId w) ?plan = Inr s'"
    using r v w unfolding createBarOrder_def
    by (auto simp: Let_def sq n split: if_split_asm)
  note xo = barOrder_ok [OF q sel refl]
  have st: "qtyOf (soItems ?x) (vaId y) \<le> vaStock y" if y: "y \<in> set (variants s)" for y
  proof -
    have vo: "variants_ok (variants s)" using ok by (simp add: shop_ok_def inputs_ok_def)
    have "vaId y = gqVariant q \<Longrightarrow> y = v"
      using availableBar_in [OF v] y vo inj_onD [of vaId "set (variants s)" y v] by (auto simp: variants_ok_def distinct_map)
    then show ?thesis using availableBar_in [OF v] y vo
      by (auto simp: qtyOf_def sum_where_def barOrder_def barItem_def variants_ok_def)
  qed
  have o: "shop_move s 0 ?s2"
    by (rule open_moves(2) [OF ok sq xo(1) _ _ _ st refl]) (simp_all add: barOrder_def within_limits_def)
  have x: "?x \<in> set (shopOrders ?s2)" "soStatus ?x = SO_PENDING_PAYMENT" by (simp_all add: barOrder_def)
  have "shop_moves ?s2 0 s'"
    using s' reserveParts_moves [OF move_ok [OF o]] captureBar_moves [OF move_ok [OF o] x xo(4)] by blast
  then show ?thesis using moves_trans0 [OF moves_one [OF o]] by blast
qed

lemma orderBar_moves:
  assumes ok: "shop_ok s" and r: "orderBar prec s c u k addr a b provider m later answer = (s', res)"
  shows "shop_moves s 0 s'"
proof (cases "s' = s")
  case False
  then obtain q and ad :: address and sel s1 i plan paid where q: "readQuote s c u k = Inr q"
    and sel: "resolveForCheckout s ad (gqWeight q) (gqPrice q) m later = Inr sel"
    and cr: "createBarOrder prec s c u q addr a b (provider \<noteq> None) sel = Inr (s1, i, plan, paid)"
    and s': "s' = dropQuote s1 k \<or> s' = cancelUnpaidGoldOrder (dropQuote s1 k) i \<or>
       (\<exists>g. beginGatewayPayment (dropQuote s1 k) u i (gpGateway plan) g answer = Inr s')"
    using r unfolding orderBar_def Let_def
    by (auto split: sum.splits option.splits if_splits prod.splits) blast
  have "q \<in> set (goldQuotes s)" using q by (auto simp: readQuote_def dest: find_SomeD)
  then have qo: "quote_ok q" using ok by (simp add: shop_ok_def inputs_ok_def)
  note m1 = createBar_moves [OF ok qo selectionCharge_nonneg [OF sel] cr]
  note ok1 = moves_ok [OF m1 ok]
  note m2 = dropQuote_moves [OF ok1, of k]
  note ok2 = moves_ok [OF m2 ok1]
  have "shop_moves (dropQuote s1 k) 0 s'"
    using s' Done cancelUnpaid_moves [OF ok2] stay0 [OF ok2 shop_write_begin [OF shop_ok_bank [OF ok2]]] by blast
  then show ?thesis using moves_trans0 [OF m1 moves_trans0 [OF m2]] by blast
qed (simp add: Done)

end
