(* ===== verification/Cart.thy ===== *)
theory Cart
  imports ShopMoves
begin

section \<open>The cart\<close>

text \<open>
  \<open>api/src/cart/cart.service.ts\<close>: items are added, changed and removed; each change runs the price
  engine and locks the price of the item for a quarter of an hour, and expired items are dropped. A
  user has one cart, so an item carries its user. The calls are not transactions, but after the first
  write nothing fails. The views of the cart only read.
\<close>

definition CART_LOCK_MINUTES :: int where "CART_LOCK_MINUTES = 15"

definition WEIGHT_EPSILON :: rat where "WEIGHT_EPSILON = 1 / 10000"

text \<open>What a request to add or change an item holds.\<close>

record cart_input =
  caVariant :: "nat option"
  caProduct :: "nat option"
  caWeight :: "rat option"
  caQuantity :: int
  caPackaging :: "nat option"

definition validInput :: "cart_input \<Rightarrow> bool" where
  "validInput d \<longleftrightarrow> 1 \<le> caQuantity d \<and> (case caWeight d of None \<Rightarrow> True | Some w \<Rightarrow> 1 / 100 \<le> w)"

definition itemById :: "'a shop_scheme \<Rightarrow> nat \<Rightarrow> cart_item option" where
  "itemById s i = find (\<lambda>x. ciId x = i) (cartItems s)"

definition setItem :: "'a shop_scheme \<Rightarrow> nat \<Rightarrow> (cart_item \<Rightarrow> cart_item) \<Rightarrow> 'a shop_scheme" where
  "setItem s i f = s\<lparr>cartItems := update_where (\<lambda>x. ciId x = i) f (cartItems s)\<rparr>"

definition addCartItem :: "'a shop_scheme \<Rightarrow> cart_item \<Rightarrow> 'a shop_scheme" where
  "addCartItem s x = s\<lparr>nextId := nextId s + 1, cartItems := cartItems s @ [x]\<rparr>"

definition resolvePackagingSelection :: "'a shop_scheme \<Rightarrow> nat \<Rightarrow> nat option \<Rightarrow> nat option res" where
  "resolvePackagingSelection s p selected =
     (let options = optionsOf s (Some p) in
      if (case selected of None \<Rightarrow> False | Some k \<Rightarrow> \<not> list_ex (\<lambda>x. pkId x = k) options)
      then Inl (BadRequest ''packaging not offered'')
      else Inr (map_option pkId (pick options selected)))"

definition otherLinesQuantity :: "'a shop_scheme \<Rightarrow> nat \<Rightarrow> nat \<Rightarrow> nat option \<Rightarrow> int" where
  "otherLinesQuantity s u v except =
     sum_where (\<lambda>i. ciUser i = u \<and> ciVariant i = Some v \<and> Some (ciId i) \<noteq> except) ciQuantity (cartItems s)"

definition activeProduct :: "'a shop_scheme \<Rightarrow> nat \<Rightarrow> product option" where
  "activeProduct s p =
     (case productById s p of None \<Rightarrow> None | Some x \<Rightarrow> if pdActive x \<and> pdCategoryActive x then Some x else None)"

text \<open>The answer is the item that was added or whose quantity grew. One variant with different
packagings has an item for each.\<close>

definition addFixedVariantItem :: "'a shop_scheme \<Rightarrow> nat \<Rightarrow> cart_input \<Rightarrow> nat \<Rightarrow> ('a shop_scheme \<times> nat) res" where
  "addFixedVariantItem s u d v =
     (case variantById s v of
        None \<Rightarrow> Inl (NotFound ''product'')
      | Some x \<Rightarrow>
          if activeProduct s (vaProduct x) = None then Inl (NotFound ''product'')
          else if vaStock x \<le> 0 then Inl (BadRequest ''out of stock'')
          else
          (case resolvePackagingSelection s (vaProduct x) (caPackaging d) of Inl e \<Rightarrow> Inl e
           | Inr pk \<Rightarrow>
               (let old = find (\<lambda>i. ciUser i = u \<and> ciVariant i = Some v \<and> ciPackaging i = pk) (cartItems s);
                    quantity = (case old of None \<Rightarrow> 0 | Some i \<Rightarrow> ciQuantity i) + caQuantity d in
                if vaStock x < otherLinesQuantity s u v (map_option ciId old) + quantity
                then Inl (BadRequest ''not enough in stock'')
                else
                (case old of
                   Some i \<Rightarrow> Inr (setItem s (ciId i) (\<lambda>y. y\<lparr>ciQuantity := quantity\<rparr>), ciId i)
                 | None \<Rightarrow>
                     Inr (addCartItem s \<lparr>ciId = nextId s, ciUser = u, ciVariant = Some v, ciProduct = None,
                            ciQuantity = caQuantity d, ciPrice = None, ciExpires = None, ciWeight = None,
                            ciBreakdown = [], ciPackaging = pk\<rparr>, nextId s)))))"

definition assertWeightInRange :: "product \<Rightarrow> rat option \<Rightarrow> unit res" where
  "assertWeightInRange p weight =
     (case weight of
        None \<Rightarrow> Inl (BadRequest ''invalid weight'')
      | Some w \<Rightarrow>
          if w \<le> 0 then Inl (BadRequest ''invalid weight'')
          else
          (case (pdMin p, pdMax p) of
             (Some lo, Some hi) \<Rightarrow>
               (let step = (case pdStep p of None \<Rightarrow> 1 / 10 | Some x \<Rightarrow> x) in
                if lo \<le> 0 \<or> hi \<le> 0 \<or> hi \<le> lo then Inl (BadRequest ''invalid weight range'')
                else if w < lo - WEIGHT_EPSILON \<or> hi + WEIGHT_EPSILON < w then Inl (BadRequest ''weight out of range'')
                else if step \<le> 0 then Inl (BadRequest ''invalid step'')
                else
                  (let n = (w - lo) / step in
                   if WEIGHT_EPSILON < \<bar>n - of_int (js_round n)\<bar> then Inl (BadRequest ''weight off the steps'')
                   else Inr ()))
           | _ \<Rightarrow> Inl (BadRequest ''invalid weight range'')))"

definition addWeightRangeItem :: "'a shop_scheme \<Rightarrow> nat \<Rightarrow> cart_input \<Rightarrow> nat \<Rightarrow> ('a shop_scheme \<times> nat) res" where
  "addWeightRangeItem s u d p =
     (case caWeight d of
        None \<Rightarrow> Inl (BadRequest ''weight required'')
      | Some w \<Rightarrow>
          (case activeProduct s p of
             None \<Rightarrow> Inl (NotFound ''product'')
           | Some x \<Rightarrow>
               if \<not> pdRange x then Inl (BadRequest ''not sold by weight'')
               else
               (case assertWeightInRange x (Some w) of Inl e \<Rightarrow> Inl e | Inr _ \<Rightarrow>
               (case resolvePackagingSelection s p (caPackaging d) of Inl e \<Rightarrow> Inl e
                | Inr pk \<Rightarrow>
                    (case find (\<lambda>i. ciUser i = u \<and> ciProduct i = Some p \<and> ciWeight i = Some w \<and> ciPackaging i = pk)
                            (cartItems s) of
                       Some i \<Rightarrow> Inr (setItem s (ciId i) (\<lambda>y. y\<lparr>ciQuantity := ciQuantity y + caQuantity d\<rparr>), ciId i)
                     | None \<Rightarrow>
                         Inr (addCartItem s \<lparr>ciId = nextId s, ciUser = u, ciVariant = None, ciProduct = Some p,
                                ciQuantity = caQuantity d, ciPrice = None, ciExpires = None,
                                ciWeight = Some (numeric4 w), ciBreakdown = [], ciPackaging = pk\<rparr>, nextId s))))))"

subsection \<open>The locked price\<close>

text \<open>The price engine; reading the gold price may refresh the cache. A missing weight is not a number.\<close>

definition enginePrice ::
  "(rat \<Rightarrow> rat) \<Rightarrow> 'a shop_scheme \<Rightarrow> clock \<Rightarrow> nat \<Rightarrow> rat option \<Rightarrow> 'a shop_scheme \<times> pricing_result res" where
  "enginePrice prec s c p weight =
     (case weight of
        None \<Rightarrow> (s, Inl (BadRequest ''invalid weight''))
      | Some w \<Rightarrow>
          (let pr = productById s p;
               gold = (case pr of None \<Rightarrow> False | Some x \<Rightarrow> pdPurity x \<noteq> None \<and> pdPurity x \<noteq> Some []) \<and> 0 < w;
               (current, cached) = (if gold then getCurrentGoldPriceDecimal (prices s) (now c) else (None, prices s)) in
           (s\<lparr>prices := cached\<rparr>, calculateForProduct prec s (map_option of_int current) pr w)))"

text \<open>When the engine fails, the base price of the product is locked instead.\<close>

definition lockPriceForItem :: "(rat \<Rightarrow> rat) \<Rightarrow> 'a shop_scheme \<Rightarrow> clock \<Rightarrow> nat \<Rightarrow> 'a shop_scheme" where
  "lockPriceForItem prec s c i =
     (case itemById s i of
        None \<Rightarrow> s
      | Some x \<Rightarrow>
          (case (case ciVariant x of
                   Some v \<Rightarrow> map_option (\<lambda>y. (vaProduct y, Some (vaWeight y), vaAdjust y)) (variantById s v)
                 | None \<Rightarrow> map_option (\<lambda>p. (p, ciWeight x, 0)) (ciProduct x)) of
             None \<Rightarrow> s
           | Some (p, weight, adjust) \<Rightarrow>
               (case enginePrice prec s c p weight of
                  (s1, r) \<Rightarrow>
                    (let (price, breakdown) =
                       (case r of
                          Inr q \<Rightarrow> (prFinal q + adjust, map lineComponent (prLines q))
                        | Inl _ \<Rightarrow>
                            (round_half_up (case productById s p of None \<Rightarrow> 0 | Some y \<Rightarrow> toDecimal (pdBasePrice y)) + adjust, [])) in
                     setItem s1 i (\<lambda>y. y\<lparr>ciPrice := Some price, ciBreakdown := breakdown,
                                        ciExpires := Some (now c + CART_LOCK_MINUTES * 60 * 1000)\<rparr>)))))"

subsection \<open>The calls\<close>

definition purgeExpiredItems :: "'a shop_scheme \<Rightarrow> clock \<Rightarrow> nat \<Rightarrow> 'a shop_scheme" where
  "purgeExpiredItems s c u =
     s\<lparr>cartItems := delete_where (\<lambda>i. ciUser i = u \<and>
        (case ciExpires i of None \<Rightarrow> False | Some t \<Rightarrow> t < now c)) (cartItems s)\<rparr>"

definition expireAllStaleCartItems :: "'a shop_scheme \<Rightarrow> clock \<Rightarrow> 'a shop_scheme" where
  "expireAllStaleCartItems s c =
     s\<lparr>cartItems := delete_where (\<lambda>i. case ciExpires i of None \<Rightarrow> False | Some t \<Rightarrow> t < now c) (cartItems s)\<rparr>"

definition addItem :: "(rat \<Rightarrow> rat) \<Rightarrow> 'a shop_scheme \<Rightarrow> clock \<Rightarrow> nat \<Rightarrow> cart_input \<Rightarrow> 'a shop_scheme res" where
  "addItem prec s c u d =
     (if \<not> validInput d then Inl (BadRequest ''invalid input'')
      else
      (case (case (caVariant d, caProduct d) of
               (Some v, None) \<Rightarrow> addFixedVariantItem s u d v
             | (None, Some p) \<Rightarrow> addWeightRangeItem s u d p
             | _ \<Rightarrow> Inl (BadRequest ''either a variant or a product'')) of
         Inl e \<Rightarrow> Inl e
       | Inr (s1, i) \<Rightarrow> Inr (purgeExpiredItems (lockPriceForItem prec s1 c i) c u)))"

text \<open>The packaging and the weight of an item after a change; what the request leaves out stays.\<close>

definition newPackaging :: "'a shop_scheme \<Rightarrow> cart_input \<Rightarrow> cart_item \<Rightarrow> nat option res" where
  "newPackaging s d x =
     (case (caPackaging d, itemProductId s x) of
        (Some k, Some p) \<Rightarrow> resolvePackagingSelection s p (Some k)
      | _ \<Rightarrow> Inr (ciPackaging x))"

definition newWeight :: "cart_input \<Rightarrow> cart_item \<Rightarrow> rat option" where
  "newWeight d x = (case caWeight d of None \<Rightarrow> ciWeight x | Some w \<Rightarrow> Some w)"

definition updateItem :: "(rat \<Rightarrow> rat) \<Rightarrow> 'a shop_scheme \<Rightarrow> clock \<Rightarrow> nat \<Rightarrow> nat \<Rightarrow> cart_input \<Rightarrow> 'a shop_scheme res" where
  "updateItem prec s c u i d =
     (if \<not> validInput d then Inl (BadRequest ''invalid input'')
      else
      (case find (\<lambda>x. ciId x = i \<and> ciUser x = u) (cartItems s) of
         None \<Rightarrow> Inl (NotFound ''item'')
       | Some x \<Rightarrow>
           (case newPackaging s d x of Inl e \<Rightarrow> Inl e
            | Inr pk \<Rightarrow>
                (case ciVariant x of
                   Some v \<Rightarrow>
                     (case variantById s v of
                        None \<Rightarrow> Inl (NotFound ''variant'')
                      | Some y \<Rightarrow>
                          if vaStock y < otherLinesQuantity s u v (Some i) + caQuantity d
                          then Inl (BadRequest ''not enough in stock'')
                          else
                            Inr (purgeExpiredItems (lockPriceForItem prec
                              (setItem s i (\<lambda>z. z\<lparr>ciQuantity := caQuantity d, ciPackaging := pk\<rparr>)) c i) c u))
                 | None \<Rightarrow>
                     (case (case ciProduct x of None \<Rightarrow> None | Some p \<Rightarrow> productById s p) of
                        None \<Rightarrow> Inl (NotFound ''product'')
                      | Some p \<Rightarrow>
                          if \<not> pdRange p then Inl (BadRequest ''not sold by weight'')
                          else
                            (case assertWeightInRange p (newWeight d x) of Inl e \<Rightarrow> Inl e
                             | Inr _ \<Rightarrow>
                                 Inr (purgeExpiredItems (lockPriceForItem prec
                                   (setItem s i (\<lambda>z. z\<lparr>ciQuantity := caQuantity d,
                                      ciWeight := map_option numeric4 (newWeight d x), ciPackaging := pk\<rparr>)) c i) c u)))))))"

definition removeItem :: "'a shop_scheme \<Rightarrow> clock \<Rightarrow> nat \<Rightarrow> nat \<Rightarrow> 'a shop_scheme res" where
  "removeItem s c u i =
     (if list_ex (\<lambda>x. ciId x = i \<and> ciUser x = u) (cartItems s)
      then Inr (purgeExpiredItems (s\<lparr>cartItems := delete_where (\<lambda>x. ciId x = i) (cartItems s)\<rparr>) c u)
      else Inl (NotFound ''item''))"

definition clearCart :: "'a shop_scheme \<Rightarrow> clock \<Rightarrow> nat \<Rightarrow> 'a shop_scheme" where
  "clearCart s c u = purgeExpiredItems (s\<lparr>cartItems := delete_where (\<lambda>x. ciUser x = u) (cartItems s)\<rparr>) c u"

subsection \<open>The calls as moves\<close>

text \<open>Calls of the cart write the items of the cart, with positive quantities, and the cache of prices.\<close>

definition cart_write :: "'a shop_scheme \<Rightarrow> 'a shop_scheme \<Rightarrow> bool" where
  "cart_write s s' \<longleftrightarrow>
     (\<exists>n cs p. s' = s\<lparr>nextId := n, cartItems := cs, prices := p\<rparr> \<and> nextId s \<le> n \<and>
        ((\<forall>i \<in> set (cartItems s). 0 < ciQuantity i) \<longrightarrow> (\<forall>i \<in> set cs. 0 < ciQuantity i)))"

lemma cart_write_trans: "cart_write s s1 \<Longrightarrow> cart_write s1 s2 \<Longrightarrow> cart_write s s2"
  unfolding cart_write_def by fastforce

lemma cart_write_moves:
  assumes ok: "shop_ok s" and w: "cart_write s s'"
  shows "shop_moves s 0 s'"
proof -
  obtain n cs p where s': "s' = s\<lparr>nextId := n, cartItems := cs, prices := p\<rparr>" "nextId s \<le> n"
    and q: "(\<forall>i \<in> set (cartItems s). 0 < ciQuantity i) \<longrightarrow> (\<forall>i \<in> set cs. 0 < ciQuantity i)"
    using w by (auto simp: cart_write_def)
  have "calm s s'" by (rule calm_same_holds) (simp_all add: s')
  then show ?thesis
    by (rule stay_tables [OF ok]) (use ok q in \<open>simp_all add: s' shop_ok_def inputs_ok_def getNumber_def\<close>)
qed

lemma cart_write_items:
  assumes "\<And>i. i \<in> set cs \<Longrightarrow> i \<in> set (cartItems s) \<or> 0 < ciQuantity i"
  shows "cart_write s (s\<lparr>cartItems := cs\<rparr>)"
  unfolding cart_write_def using assms
  by (intro exI [of _ "nextId s"] exI [of _ cs] exI [of _ "prices s"]) auto

lemma cart_write_purge [intro]: "cart_write s (purgeExpiredItems s c u)"
  unfolding purgeExpiredItems_def by (rule cart_write_items) (auto simp: delete_where_def)

lemma cart_write_expire [intro]: "cart_write s (expireAllStaleCartItems s c)"
  unfolding expireAllStaleCartItems_def by (rule cart_write_items) (auto simp: delete_where_def)

lemma cart_write_setItem:
  assumes "\<And>x. x \<in> set (cartItems s) \<Longrightarrow> \<forall>y \<in> set (cartItems s). 0 < ciQuantity y \<Longrightarrow> 0 < ciQuantity (f x)"
  shows "cart_write s (setItem s i f)"
  unfolding cart_write_def setItem_def using assms
  by (intro exI [of _ "nextId s"] exI [of _ "update_where (\<lambda>x. ciId x = i) f (cartItems s)"] exI [of _ "prices s"])
     (auto simp: set_update_where)

lemma cart_write_add: "0 < ciQuantity x \<Longrightarrow> cart_write s (addCartItem s x)"
  unfolding cart_write_def addCartItem_def
  by (intro exI [of _ "nextId s + 1"] exI [of _ "cartItems s @ [x]"] exI [of _ "prices s"]) auto

lemma cart_write_prices: "cart_write s (s\<lparr>prices := p\<rparr>)"
  unfolding cart_write_def by (intro exI [of _ "nextId s"] exI [of _ "cartItems s"] exI [of _ p]) auto

lemma enginePrice_state: "enginePrice prec s c p w = (s1, r) \<Longrightarrow> \<exists>q. s1 = s\<lparr>prices := q\<rparr>"
  by (auto simp: enginePrice_def Let_def split: option.splits prod.splits intro: exI [of _ "prices s"])

lemma cart_write_lock [intro]: "cart_write s (lockPriceForItem prec s c i)"
proof -
  have "cart_write s (setItem s1 i (\<lambda>y. y\<lparr>ciPrice := a, ciBreakdown := b, ciExpires := e\<rparr>))"
    if "enginePrice prec s c p w = (s1, r)" for p w s1 r a b e
  proof -
    have "cart_write s s1" using enginePrice_state [OF that] cart_write_prices by auto
    then show ?thesis by (rule cart_write_trans [OF _ cart_write_setItem]) simp
  qed
  moreover have "cart_write s s" using cart_write_prices [of s "prices s"] by simp
  ultimately show ?thesis
    unfolding lockPriceForItem_def by (auto simp: Let_def split: option.splits prod.splits)
qed

lemma addFixed_write:
  assumes q: "0 < caQuantity d" and r: "addFixedVariantItem s u d v = Inr (s', i)"
  shows "cart_write s s'"
  using r q by (auto simp: addFixedVariantItem_def Let_def dest!: find_SomeD split: option.splits if_splits
      intro!: cart_write_setItem cart_write_add add_pos_pos)

lemma addRange_write:
  assumes q: "0 < caQuantity d" and r: "addWeightRangeItem s u d p = Inr (s', i)"
  shows "cart_write s s'"
  using r q by (auto simp: addWeightRangeItem_def Let_def split: option.splits if_splits
      intro!: cart_write_setItem cart_write_add add_pos_pos)

lemma cart_write_locked: "cart_write s s1 \<Longrightarrow> cart_write s (purgeExpiredItems (lockPriceForItem prec s1 c i) c u)"
  using cart_write_trans by blast

lemma addItem_write:
  assumes r: "addItem prec s c u d = Inr s'"
  shows "cart_write s s'"
proof -
  have q: "0 < caQuantity d" using r by (auto simp: addItem_def validInput_def)
  show ?thesis using r
    by (auto simp: addItem_def split: option.splits intro: cart_write_locked addFixed_write [OF q] addRange_write [OF q])
qed

lemma updateItem_write:
  assumes r: "updateItem prec s c u i d = Inr s'"
  shows "cart_write s s'"
proof -
  have q: "0 < caQuantity d" using r by (auto simp: updateItem_def validInput_def)
  obtain f where f: "s' = purgeExpiredItems (lockPriceForItem prec (setItem s i f) c i) c u" "\<And>x. ciQuantity (f x) = caQuantity d"
    using r by (auto simp: updateItem_def Let_def split: option.splits)
  show ?thesis unfolding f(1) by (rule cart_write_locked, rule cart_write_setItem) (simp add: f(2) q)
qed

lemma removeItem_write: "removeItem s c u i = Inr s' \<Longrightarrow> cart_write s s'"
  by (auto simp: removeItem_def delete_where_def intro!: cart_write_trans [OF cart_write_items cart_write_purge] split: if_splits)

lemma clearCart_write: "cart_write s (clearCart s c u)"
  unfolding clearCart_def
  by (rule cart_write_trans [OF cart_write_items cart_write_purge]) (auto simp: delete_where_def)

end
