(* ===== verification/Delivery.thy ===== *)
theory Delivery
  imports ShopMoves
begin

section \<open>Sending and handing over\<close>

text \<open>
  \<open>api/src/shop-orders/shop-order-fulfillment.service.ts\<close>: the delivery methods that staff maintain, the
  sending of an order, and its handing over with the code that the customer got, by staff or through the
  link of the courier. The code is stored encrypted and read back with the key of its order; the model
  keeps it in the clear. The hash of the courier's token is an argument. Texts that only display
  (descriptions, names of people, notes), time stamps of the order and messages are not modelled.
\<close>

subsection \<open>Tables\<close>

datatype ship_type = POST | COURIER | EXPRESS | PICKUP

record ship_method =
  mdId :: nat
  mdCode :: string
  mdName :: "nat list"
  mdType :: ship_type
  mdTemplate :: "string option"
  mdTracking :: bool
  mdDelivery :: bool
  mdCourier :: bool
  mdDays :: "int option"
  mdPhone :: "string option"
  mdActive :: bool
  mdSort :: int
  mdCarrier :: "nat option"
  mdCheckout :: bool
  mdPostal :: bool

datatype shipping_status = IN_TRANSIT | DELIVERED

datatype confirm_via = DELIVERY_CODE | COURIER_LINK | ADMIN_OVERRIDE

record shipment =
  shId :: nat
  shOrder :: nat
  shMethod :: nat
  shTracking :: "string option"
  shPhone :: "nat list option"
  shCode :: "nat list option"
  shAttempts :: int
  shToken :: "string option"
  shExpires :: "int option"
  shStatus :: shipping_status
  shVia :: "confirm_via option"
  shDelivered :: "int option"

record store = shop +
  methods :: "ship_method list"
  carriers :: "nat list"
  shipments :: "shipment list"

definition methodById :: "'a store_scheme \<Rightarrow> nat \<Rightarrow> ship_method option" where
  "methodById s i = find (\<lambda>m. mdId m = i) (methods s)"

text \<open>The latest shipment of an order.\<close>

definition shipmentOf :: "'a store_scheme \<Rightarrow> nat \<Rightarrow> shipment option" where
  "shipmentOf s i = find (\<lambda>x. shOrder x = i) (rev (shipments s))"

definition setShipment :: "'a store_scheme \<Rightarrow> nat \<Rightarrow> (shipment \<Rightarrow> shipment) \<Rightarrow> 'a store_scheme" where
  "setShipment s i f = s\<lparr>shipments := update_where (\<lambda>x. shId x = i) f (shipments s)\<rparr>"

subsection \<open>Delivery methods\<close>

text \<open>What a form of the panel holds: \<open>None\<close> for a field that it leaves out.\<close>

record method_input =
  miCode :: "string option"
  miName :: "nat list option"
  miType :: "ship_type option"
  miTemplate :: "string option option"
  miTracking :: "bool option"
  miDelivery :: "bool option"
  miCourier :: "bool option"
  miDays :: "int option option"
  miPhone :: "string option option"
  miActive :: "bool option"
  miSort :: "int option"
  miCarrier :: "nat option option"
  miCheckout :: "bool option"
  miPostal :: "bool option"

definition blank :: "'b list option \<Rightarrow> bool" where
  "blank x \<longleftrightarrow> (case x of None \<Rightarrow> True | Some t \<Rightarrow> t = [])"

definition isWordChar :: "char \<Rightarrow> bool" where
  "isWordChar c \<longleftrightarrow>
     (let n = of_char c :: nat in 65 \<le> n \<and> n \<le> 90 \<or> 97 \<le> n \<and> n \<le> 122) \<or> is_digit c \<or> c = CHR ''_'' \<or> c = CHR ''-''"

definition includesText :: "string \<Rightarrow> string \<Rightarrow> bool" where
  "includesText p t \<longleftrightarrow> list_ex (\<lambda>n. starts_with p (drop n t)) [0..<length t + 1]"

definition validateMethod :: "'a store_scheme \<Rightarrow> method_input \<Rightarrow> unit res" where
  "validateMethod s d =
     (if (case miCarrier d of Some (Some k) \<Rightarrow> k \<notin> set (carriers s) | _ \<Rightarrow> False)
      then Inl (BadRequest ''carrier not found'')
      else if (case miCode d of None \<Rightarrow> False
               | Some t \<Rightarrow> \<not> (list_all isWordChar (trim t) \<and> 2 \<le> length (trim t) \<and> length (trim t) \<le> 30))
      then Inl (BadRequest ''invalid code'')
      else if (case miTemplate d of
                 Some (Some t) \<Rightarrow> t \<noteq> [] \<and>
                   (let u = trim t in
                    \<not> (starts_with ''http://'' u \<or> starts_with ''https://'' u) \<or> \<not> includesText ''{code}'' u)
               | _ \<Rightarrow> False)
      then Inl (BadRequest ''invalid tracking address'')
      else if (case miPhone d of
                 Some (Some t) \<Rightarrow> t \<noteq> [] \<and>
                   \<not> (list_all (\<lambda>c. is_digit c \<or> c = CHR ''+'' \<or> c = CHR ''-'' \<or> isWhite (of_char c)) t \<and>
                      5 \<le> length t \<and> length t \<le> 20)
               | _ \<Rightarrow> False)
      then Inl (BadRequest ''invalid phone'')
      else Inr ())"

definition orKeep :: "'b option \<Rightarrow> 'b \<Rightarrow> 'b" where
  "orKeep x old = (case x of None \<Rightarrow> old | Some v \<Rightarrow> v)"

definition trimOrNull :: "string option \<Rightarrow> string option" where
  "trimOrNull x = (case x of None \<Rightarrow> None | Some t \<Rightarrow> if trim t = [] then None else Some (trim t))"

text \<open>The fields that are given replace those of the row.\<close>

definition cleanMethod :: "method_input \<Rightarrow> ship_method \<Rightarrow> ship_method" where
  "cleanMethod d m =
     m\<lparr>mdTemplate := orKeep (map_option trimOrNull (miTemplate d)) (mdTemplate m),
       mdTracking := orKeep (miTracking d) (mdTracking m), mdDelivery := orKeep (miDelivery d) (mdDelivery m),
       mdCourier := orKeep (miCourier d) (mdCourier m), mdDays := orKeep (miDays d) (mdDays m),
       mdPhone := orKeep (map_option trimOrNull (miPhone d)) (mdPhone m),
       mdActive := orKeep (miActive d) (mdActive m), mdSort := orKeep (miSort d) (mdSort m),
       mdCarrier := orKeep (miCarrier d) (mdCarrier m), mdCheckout := orKeep (miCheckout d) (mdCheckout m),
       mdPostal := orKeep (miPostal d) (mdPostal m)\<rparr>"

text \<open>A new row with the defaults of its columns.\<close>

definition newMethod :: "nat \<Rightarrow> string \<Rightarrow> nat list \<Rightarrow> ship_type \<Rightarrow> ship_method" where
  "newMethod i code name ty =
     \<lparr>mdId = i, mdCode = code, mdName = name, mdType = ty, mdTemplate = None, mdTracking = False,
      mdDelivery = True, mdCourier = False, mdDays = None, mdPhone = None, mdActive = True, mdSort = 0,
      mdCarrier = None, mdCheckout = True, mdPostal = False\<rparr>"

definition createMethod :: "'a store_scheme \<Rightarrow> method_input \<Rightarrow> ('a store_scheme \<times> nat) res" where
  "createMethod s d =
     (if blank (miCode d) \<or> blank (miName d) \<or> miType d = None
      then Inl (BadRequest ''code, name and type are required'')
      else
      (case validateMethod s d of Inl e \<Rightarrow> Inl e | Inr _ \<Rightarrow>
       (let code = toUpperCase (trim (the (miCode d))); i = nextId s in
        if list_ex (\<lambda>m. mdCode m = code) (methods s) then Inl (Conflict ''code in use'')
        else
          Inr (s\<lparr>nextId := i + 1,
                 methods := methods s @
                   [cleanMethod d (newMethod i code (trimText (the (miName d))) (the (miType d)))]\<rparr>, i))))"

definition updateMethod :: "'a store_scheme \<Rightarrow> nat \<Rightarrow> method_input \<Rightarrow> 'a store_scheme res" where
  "updateMethod s i d =
     (case methodById s i of
        None \<Rightarrow> Inl (NotFound ''method'')
      | Some _ \<Rightarrow>
          (case validateMethod s d of Inl e \<Rightarrow> Inl e | Inr _ \<Rightarrow>
             Inr (s\<lparr>methods := update_where (\<lambda>m. mdId m = i)
                    (\<lambda>m. (cleanMethod d m)
                       \<lparr>mdName := (if blank (miName d) then mdName m else trimText (the (miName d))),
                        mdType := orKeep (miType d) (mdType m)\<rparr>) (methods s)\<rparr>)))"

subsection \<open>Sending\<close>

definition MAX_DELIVERY_CODE_ATTEMPTS :: int where "MAX_DELIVERY_CODE_ATTEMPTS = 5"

definition COURIER_LINK_TTL_DAYS :: int where "COURIER_LINK_TTL_DAYS = 14"

definition normalizeIranMobile :: "nat list \<Rightarrow> nat list option" where
  "normalizeIranMobile raw =
     (let digits = filter isLatinDigit (toEnglishDigits raw);
          l = (if take 4 digits = [48, 48, 57, 56] then drop 4 digits
               else if take 2 digits = [57, 56] \<and> length digits = 12 then drop 2 digits else digits);
          local = (if length l = 10 \<and> take 1 l = [57] then 48 # l else l) in
      if take 2 local = [48, 57] \<and> length local = 11 \<and> list_all isLatinDigit local then Some local else None)"

text \<open>Six digits drawn at random, a number below a million.\<close>

definition deliveryDigits :: "nat \<Rightarrow> nat list" where
  "deliveryDigits n = replicate (6 - length (latin n)) 48 @ latin n"

record ship_input =
  siMethod :: nat
  siTracking :: "string option"
  siPhone :: "nat list option"

text \<open>The checks before the transaction: the method, the tracking code and the phone of the courier.\<close>

definition shipChecks ::
  "'a store_scheme \<Rightarrow> ship_input \<Rightarrow> (ship_method \<times> string option \<times> nat list option) res" where
  "shipChecks s d =
     (case methodById s (siMethod d) of
        None \<Rightarrow> Inl (BadRequest ''method not valid'')
      | Some m \<Rightarrow>
          if \<not> mdActive m then Inl (BadRequest ''method not valid'')
          else
            (let tracking = trimOrNull (siTracking d) in
             if mdTracking m \<and> tracking = None then Inl (BadRequest ''tracking code required'')
             else
             (case (if (case siPhone d of None \<Rightarrow> True | Some t \<Rightarrow> trimText t = []) then Inr None
                    else (case normalizeIranMobile (the (siPhone d)) of
                            None \<Rightarrow> Inl (BadRequest ''invalid phone of the courier'') | Some p \<Rightarrow> Inr (Some p))) of
                Inl e \<Rightarrow> Inl e
              | Inr phone \<Rightarrow>
                  if mdCourier m \<and> phone = None then Inl (BadRequest ''phone of the courier required'')
                  else Inr (m, tracking, phone))))"

text \<open>\<open>hash\<close> is SHA-256; \<open>draw\<close> and \<open>token\<close> are random.\<close>

definition newShipment ::
  "(string \<Rightarrow> string) \<Rightarrow> clock \<Rightarrow> nat \<Rightarrow> nat \<Rightarrow> ship_method \<Rightarrow> string option \<Rightarrow> nat list option \<Rightarrow> nat \<Rightarrow> string \<Rightarrow> shipment" where
  "newShipment hash c k i m tracking phone draw token =
     (let link = mdCourier m \<and> phone \<noteq> None in
      \<lparr>shId = k, shOrder = i, shMethod = mdId m, shTracking = tracking, shPhone = phone,
       shCode = (if mdDelivery m then Some (deliveryDigits draw) else None), shAttempts = 0,
       shToken = (if link then Some (hash token) else None),
       shExpires = (if link then Some (now c + COURIER_LINK_TTL_DAYS * day_ms) else None),
       shStatus = IN_TRANSIT, shVia = None, shDelivered = None\<rparr>)"

text \<open>The answer tells whether the order was sent before.\<close>

definition ship ::
  "(string \<Rightarrow> string) \<Rightarrow> 'a store_scheme \<Rightarrow> clock \<Rightarrow> nat \<Rightarrow> ship_input \<Rightarrow> nat \<Rightarrow> string \<Rightarrow> ('a store_scheme \<times> bool) res" where
  "ship hash s c i d draw token =
     (case shipChecks s d of Inl e \<Rightarrow> Inl e
      | Inr (m, tracking, phone) \<Rightarrow>
          (case orderById s i of
             None \<Rightarrow> Inl (NotFound ''order'')
           | Some x \<Rightarrow>
               if soStatus x = SO_SHIPPED then Inr (s, True)
               else if soStatus x \<noteq> SO_PROCESSING \<and> soStatus x \<noteq> SO_PAID then Inl (Conflict ''cannot be sent'')
               else
                 Inr (setOrder
                        (s\<lparr>nextId := nextId s + 1,
                           shipments := shipments s @ [newShipment hash c (nextId s) i m tracking phone draw token]\<rparr>) i
                        (\<lambda>y. y\<lparr>soStatus := SO_SHIPPED\<rparr>), False)))"

subsection \<open>Handing over\<close>

text \<open>Persian digits become Latin ones, everything else but digits is dropped.\<close>

definition givenDigits :: "nat list option \<Rightarrow> nat list" where
  "givenDigits code =
     filter isLatinDigit (map (\<lambda>c. if isPersianDigit c then c - 1776 + 48 else c)
       (case code of None \<Rightarrow> [] | Some t \<Rightarrow> t))"

text \<open>A wrong code is counted and then refused, so the call returns a state and an answer.\<close>

definition confirmDelivery ::
  "'a store_scheme \<Rightarrow> clock \<Rightarrow> nat \<Rightarrow> nat list option \<Rightarrow> confirm_via \<Rightarrow> 'a store_scheme \<times> bool res" where
  "confirmDelivery s c i code via =
     (case orderById s i of
        None \<Rightarrow> (s, Inl (NotFound ''order''))
      | Some x \<Rightarrow>
          if soStatus x = SO_DELIVERED then (s, Inr True)
          else if soStatus x \<noteq> SO_SHIPPED then (s, Inl (Conflict ''not sent yet''))
          else
          (case shipmentOf s i of
             None \<Rightarrow> (setOrder s i (\<lambda>y. y\<lparr>soStatus := SO_DELIVERED\<rparr>), Inr False)
           | Some h \<Rightarrow>
               if via \<noteq> ADMIN_OVERRIDE \<and> shCode h \<noteq> None \<and> MAX_DELIVERY_CODE_ATTEMPTS \<le> shAttempts h
               then (s, Inl (Forbidden ''code locked''))
               else if via \<noteq> ADMIN_OVERRIDE \<and> shCode h \<noteq> None \<and> shCode h \<noteq> Some (givenDigits code)
               then (setShipment s (shId h) (\<lambda>y. y\<lparr>shAttempts := shAttempts y + 1\<rparr>), Inl (BadRequest ''wrong code''))
               else
                 (setOrder (setShipment s (shId h)
                    (\<lambda>y. y\<lparr>shStatus := DELIVERED, shDelivered := Some (now c), shVia := Some via,
                           shExpires := Some (now c)\<rparr>))
                    i (\<lambda>y. y\<lparr>soStatus := SO_DELIVERED\<rparr>), Inr False)))"

definition deliverWithCode :: "'a store_scheme \<Rightarrow> clock \<Rightarrow> nat \<Rightarrow> nat list option \<Rightarrow> 'a store_scheme \<times> bool res" where
  "deliverWithCode s c i code = confirmDelivery s c i code DELIVERY_CODE"

definition deliverOverride :: "'a store_scheme \<Rightarrow> clock \<Rightarrow> nat \<Rightarrow> nat list \<Rightarrow> 'a store_scheme \<times> bool res" where
  "deliverOverride s c i reason =
     (if length (trimText reason) < 10 then (s, Inl (BadRequest ''reason too short''))
      else confirmDelivery s c i None ADMIN_OVERRIDE)"

definition resendDeliveryCode ::
  "'a store_scheme \<Rightarrow> nat \<Rightarrow> bool \<Rightarrow> nat \<Rightarrow> ('a store_scheme \<times> bool) res" where
  "resendDeliveryCode s i regenerate draw =
     (case orderById s i of
        None \<Rightarrow> Inl (NotFound ''order'')
      | Some x \<Rightarrow>
          if soStatus x \<noteq> SO_SHIPPED then Inl (Conflict ''only orders on the way'')
          else
          (case shipmentOf s i of
             None \<Rightarrow> Inl (Conflict ''no shipment'')
           | Some h \<Rightarrow>
               if regenerate \<or> shCode h = None \<or> MAX_DELIVERY_CODE_ATTEMPTS \<le> shAttempts h
               then Inr (setShipment s (shId h)
                      (\<lambda>y. y\<lparr>shCode := Some (deliveryDigits draw), shAttempts := 0\<rparr>), True)
               else Inr (s, False)))"

definition findByCourierToken :: "(string \<Rightarrow> string) \<Rightarrow> 'a store_scheme \<Rightarrow> string \<Rightarrow> shipment res" where
  "findByCourierToken hash s token =
     (if \<not> (list_all isWordChar token \<and> 20 \<le> length token \<and> length token \<le> 64)
      then Inl (NotFound ''link not valid'')
      else
      (case find (\<lambda>x. shToken x = Some (hash token)) (shipments s) of
         None \<Rightarrow> Inl (NotFound ''link not valid'')
       | Some h \<Rightarrow> if orderById s (shOrder h) = None then Inl (NotFound ''link not valid'') else Inr h))"

definition courierConfirm ::
  "(string \<Rightarrow> string) \<Rightarrow> 'a store_scheme \<Rightarrow> clock \<Rightarrow> string \<Rightarrow> nat list option \<Rightarrow> 'a store_scheme \<times> bool res" where
  "courierConfirm hash s c token code =
     (case findByCourierToken hash s token of
        Inl e \<Rightarrow> (s, Inl e)
      | Inr h \<Rightarrow>
          if (case shExpires h of None \<Rightarrow> True | Some t \<Rightarrow> t < now c) then (s, Inl (Forbidden ''link expired''))
          else confirmDelivery s c (shOrder h) code COURIER_LINK)"

subsection \<open>The calls as moves\<close>

lemma shop_write_shipments:
  assumes "bank_ok s" "nextId s \<le> n"
  shows "shop_write s (s\<lparr>nextId := n, shipments := xs\<rparr>) 0 0 0 0"
  by (rule shop_write_quiet [OF assms(1) calm_same_holds]) (use assms(2) in \<open>simp_all add: same_shop_def\<close>)

lemma shop_write_setShipment: "bank_ok s \<Longrightarrow> shop_write s (setShipment s i f) 0 0 0 0"
  by (rule shop_write_quiet [OF _ calm_same_holds]) (simp_all add: setShipment_def same_shop_def)

lemma shop_write_methods:
  assumes "bank_ok s" "nextId s \<le> n"
  shows "shop_write s (s\<lparr>nextId := n, methods := xs\<rparr>) 0 0 0 0"
  by (rule shop_write_quiet [OF assms(1) calm_same_holds]) (use assms(2) in \<open>simp_all add: same_shop_def\<close>)

lemma createMethod_moves: "shop_ok s \<Longrightarrow> createMethod s d = Inr (s', i) \<Longrightarrow> shop_moves s 0 s'"
  by (auto simp: createMethod_def Let_def shop_ok_bank intro!: stay0 shop_write_methods)

lemma updateMethod_moves:
  assumes ok: "shop_ok s" and r: "updateMethod s i d = Inr s'"
  shows "shop_moves s 0 s'"
proof -
  obtain xs where s': "s' = s\<lparr>nextId := nextId s, methods := xs\<rparr>" using r by (auto simp: updateMethod_def)
  show ?thesis unfolding s' by (rule stay0 [OF ok shop_write_methods [OF shop_ok_bank [OF ok]]]) simp
qed

lemma ship_moves:
  assumes ok: "shop_ok s" and r: "ship hash s c i d draw token = Inr (s', b)"
  shows "shop_moves s 0 s'"
proof -
  obtain m tr ph x where k: "shipChecks s d = Inr (m, tr, ph)" and x: "orderById s i = Some x"
    using r by (auto simp: ship_def)
  note xin = orderById_in [OF x]
  show ?thesis
  proof (cases "soStatus x = SO_SHIPPED")
    case False
    let ?s = "s\<lparr>nextId := nextId s + 1, shipments := shipments s @ [newShipment hash c (nextId s) i m tr ph draw token]\<rparr>"
    have s': "s' = setOrder ?s i (\<lambda>y. y\<lparr>soStatus := SO_SHIPPED\<rparr>)" and st: "soStatus x = SO_PROCESSING \<or> soStatus x = SO_PAID"
      using r False by (simp_all add: ship_def k x) (blast+)?
    have w: "shop_write s ?s 0 0 0 0" by (rule shop_write_shipments [OF shop_ok_bank [OF ok]]) simp
    show ?thesis using settle_last [OF ok w, of x SO_SHIPPED] xin st by (auto simp: s' order_edge_def)
  qed (use r k x in \<open>simp add: ship_def Done\<close>)
qed

lemma confirm_moves:
  assumes ok: "shop_ok s" and r: "confirmDelivery s c i code via = (s', a)"
  shows "shop_moves s 0 s'"
proof (cases "orderById s i")
  case (Some x)
  note xin = orderById_in [OF Some]
  note b = shop_ok_bank [OF ok]
  have go: "shop_moves s 0 (setOrder s4 i (\<lambda>y. y\<lparr>soStatus := SO_DELIVERED\<rparr>))"
    if "shop_write s s4 0 0 0 0" "soStatus x = SO_SHIPPED" for s4
    using settle_last [OF ok that(1), of x SO_DELIVERED] xin that(2) by (auto simp: order_edge_def)
  show ?thesis
    using r Some go [OF shop_write_refl [OF b]] go [OF shop_write_setShipment [OF b]]
      stay0 [OF ok shop_write_setShipment [OF b]] Done [of s]
    by (auto simp: confirmDelivery_def split: if_splits option.splits)
qed (use r in \<open>simp add: confirmDelivery_def Done\<close>)

lemma override_moves: "shop_ok s \<Longrightarrow> deliverOverride s c i reason = (s', a) \<Longrightarrow> shop_moves s 0 s'"
  using confirm_moves by (auto simp: deliverOverride_def Done split: if_splits)

lemma courier_moves: "shop_ok s \<Longrightarrow> courierConfirm hash s c token code = (s', a) \<Longrightarrow> shop_moves s 0 s'"
  using confirm_moves by (auto simp: courierConfirm_def Done split: if_splits sum.splits)

lemma resend_moves:
  assumes ok: "shop_ok s" and r: "resendDeliveryCode s i regenerate draw = Inr (s', b)"
  shows "shop_moves s 0 s'"
  using r stay0 [OF ok shop_write_setShipment [OF shop_ok_bank [OF ok]]] Done [of s]
  by (auto simp: resendDeliveryCode_def split: if_splits)

end
