(* ===== verification/ShopRuns.thy ===== *)
theory ShopRuns
  imports Cart Delivery
begin

section \<open>The shop as a whole\<close>

text \<open>
  One step per call of the shop orders and gold bars (\<open>shop_step\<close>), what chains of moves keep, the
  interpretations of the interfaces for sequences of calls, and the properties of the shop.
\<close>

subsection \<open>Calls\<close>

datatype shop_op =
    Checkout nat nat "nat option" bool "string option"
  | Pay nat nat pay_mode "string res"
  | Callback gateway_provider string bool
  | CancelByUser nat nat
  | Process nat
  | AdminCancel nat
  | ExpireStale
  | QuoteBar nat nat
  | OrderBar nat nat nat bool bool "gateway_provider option" "nat option" bool "string res"
  | AddItem nat cart_input
  | UpdateItem nat nat cart_input
  | RemoveItem nat nat
  | ClearCart nat
  | ViewCart nat
  | ExpireCarts
  | CreateMethod method_input
  | UpdateMethod nat method_input
  | Ship nat ship_input nat string
  | DeliverWithCode nat "nat list option"
  | DeliverOverride nat "nat list"
  | ResendCode nat bool nat
  | CourierConfirm string "nat list option"

text \<open>What the calls are given from outside: the precision of divisions and the hash function.\<close>

type_synonym shop_env = "(rat \<Rightarrow> rat) \<times> (string \<Rightarrow> string)"

fun shop_step :: "shop_env \<Rightarrow> 'a store_scheme \<Rightarrow> clock \<times> shop_op \<Rightarrow> 'a store_scheme res" where
  "shop_step (prec, hash) s (c, Checkout u addr m later code) = stateOf (checkout s c u addr m later code)"
| "shop_step (prec, hash) s (c, Pay u i mode answer) = Inr (fst (payOrder prec s c u i mode answer))"
| "shop_step (prec, hash) s (c, Callback provider ref verified) = Inr (fst (handleGatewayCallback prec s c provider ref verified))"
| "shop_step (prec, hash) s (c, CancelByUser u i) = stateOf (cancelByUser s u i)"
| "shop_step (prec, hash) s (c, Process i) = stateOf (processOrder s i)"
| "shop_step (prec, hash) s (c, AdminCancel i) = stateOf (adminCancel s c i)"
| "shop_step (prec, hash) s (c, ExpireStale) = Inr (expireStaleOrders s c)"
| "shop_step (prec, hash) s (c, QuoteBar u v) = Inr (fst (quoteBar prec s c u v))"
| "shop_step (prec, hash) s (c, OrderBar u q addr extra rial provider m later answer) =
     Inr (fst (orderBar prec s c u q addr extra rial provider m later answer))"
| "shop_step (prec, hash) s (c, AddItem u d) = addItem prec s c u d"
| "shop_step (prec, hash) s (c, UpdateItem u i d) = updateItem prec s c u i d"
| "shop_step (prec, hash) s (c, RemoveItem u i) = removeItem s c u i"
| "shop_step (prec, hash) s (c, ClearCart u) = Inr (clearCart s c u)"
| "shop_step (prec, hash) s (c, ViewCart u) = Inr (purgeExpiredItems s c u)"
| "shop_step (prec, hash) s (c, ExpireCarts) = Inr (expireAllStaleCartItems s c)"
| "shop_step (prec, hash) s (c, CreateMethod d) = stateOf (createMethod s d)"
| "shop_step (prec, hash) s (c, UpdateMethod i d) = updateMethod s i d"
| "shop_step (prec, hash) s (c, Ship i d draw token) = stateOf (ship hash s c i d draw token)"
| "shop_step (prec, hash) s (c, DeliverWithCode i code) = Inr (fst (deliverWithCode s c i code))"
| "shop_step (prec, hash) s (c, DeliverOverride i reason) = Inr (fst (deliverOverride s c i reason))"
| "shop_step (prec, hash) s (c, ResendCode i regenerate draw) = stateOf (resendDeliveryCode s i regenerate draw)"
| "shop_step (prec, hash) s (c, CourierConfirm token code) = Inr (fst (courierConfirm hash s c token code))"

text \<open>The rial that a call takes without booking it.\<close>

fun strayOf :: "'a shop_scheme \<Rightarrow> clock \<times> shop_op \<Rightarrow> int" where
  "strayOf s (c, Callback provider ref verified) = strayRial s c provider ref verified"
| "strayOf s _ = 0"

lemma shop_step_moves:
  assumes ok: "shop_ok s" and r: "shop_step (prec, hash) s (c, x) = Inr s'"
  shows "shop_moves s (strayOf s (c, x)) s'"
proof (cases x)
  case (Checkout u addr m later code)
  then show ?thesis using r checkout_moves [OF ok] by auto
next
  case (Pay u i mode answer)
  then show ?thesis using r payOrder_moves [OF ok prod.collapse [symmetric]] by auto
next
  case (Callback provider ref verified)
  then show ?thesis using r callback_moves [OF ok prod.collapse [symmetric]] by auto
next
  case (CancelByUser u i)
  then show ?thesis using r cancelByUser_moves [OF ok] by auto
next
  case (Process i)
  then show ?thesis using r process_moves [OF ok] by auto
next
  case (AdminCancel i)
  then show ?thesis using r adminCancel_moves [OF ok] by auto
next
  case ExpireStale
  then show ?thesis using r expire_moves [OF ok] by auto
next
  case (QuoteBar u v)
  then show ?thesis using r quoteBar_moves [OF ok prod.collapse [symmetric]] by auto
next
  case (OrderBar u q addr extra rial provider m later answer)
  then show ?thesis using r orderBar_moves [OF ok prod.collapse [symmetric]] by auto
next
  case (AddItem u d)
  then show ?thesis using r by (auto intro: cart_write_moves [OF ok] addItem_write)
next
  case (UpdateItem u i d)
  then show ?thesis using r by (auto intro: cart_write_moves [OF ok] updateItem_write)
next
  case (RemoveItem u i)
  then show ?thesis using r by (auto intro: cart_write_moves [OF ok] removeItem_write)
next
  case (ClearCart u)
  then show ?thesis using r by (auto intro: cart_write_moves [OF ok] clearCart_write)
next
  case (ViewCart u)
  then show ?thesis using r by (auto intro: cart_write_moves [OF ok] cart_write_purge)
next
  case ExpireCarts
  then show ?thesis using r by (auto intro: cart_write_moves [OF ok] cart_write_expire)
next
  case (CreateMethod d)
  then show ?thesis using r createMethod_moves [OF ok] by (auto simp: deliverWithCode_def)
next
  case (UpdateMethod i d)
  then show ?thesis using r updateMethod_moves [OF ok] by (auto simp: deliverWithCode_def)
next
  case (Ship i d draw token)
  then show ?thesis using r ship_moves [OF ok] by (auto simp: deliverWithCode_def)
next
  case (DeliverWithCode i code)
  then show ?thesis using r confirm_moves [OF ok prod.collapse [symmetric]] by (auto simp: deliverWithCode_def)
next
  case (DeliverOverride i reason)
  then show ?thesis using r override_moves [OF ok prod.collapse [symmetric]] by (auto simp: deliverWithCode_def)
next
  case (ResendCode i regenerate draw)
  then show ?thesis using r resend_moves [OF ok] by (auto simp: deliverWithCode_def)
next
  case (CourierConfirm token code)
  then show ?thesis using r courier_moves [OF ok prod.collapse [symmetric]] by (auto simp: deliverWithCode_def)
qed

lemma shop_step_chain: "shop_ok s \<Longrightarrow> shop_step env s p = Inr s' \<Longrightarrow> shop_moves s (strayOf s p) s'"
  using shop_step_moves by (cases p; cases env) auto

subsection \<open>What chains of moves keep\<close>

lemma moves_gaps: "shop_moves s l s' \<Longrightarrow> rialGap s' = rialGap s - l \<and> gramGap s' = gramGap s"
proof (induction rule: shop_moves.induct)
  case (Step s k s1 l s2)
  then have "rialGap s1 = rialGap s - k \<and> gramGap s1 = gramGap s" by (cases rule: shop_move.cases) auto
  then show ?case using Step by simp
qed simp

lemma shop_move_orders:
  assumes "shop_move s l s'"
  obtains "shopOrders s' = shopOrders s"
  | x where "shopOrders s' = shopOrders s @ [x]" "soStatus x = SO_PENDING_PAYMENT" "within_limits s x" "shop_ok s'"
  | x st where "x \<in> set (shopOrders s)" "order_edge (soStatus x) st"
      "shopOrders s' = update_where (\<lambda>y. soId y = soId x) (\<lambda>y. y\<lparr>soStatus := st\<rparr>) (shopOrders s)"
  using assms by (cases rule: shop_move.cases) blast+

text \<open>The life of the orders, abstractly: a status for each number.\<close>

type_synonym order_lives = "nat \<Rightarrow> shop_order_status option"

definition lives :: "'a shop_scheme \<Rightarrow> order_lives" where
  "lives s i = map_option soStatus (orderById s i)"

inductive life_move :: "order_lives \<Rightarrow> order_lives \<Rightarrow> bool" where
  Born: "life_move m (m(i \<mapsto> SO_PENDING_PAYMENT))" if "m i = None"
| Aged: "life_move m (m(i \<mapsto> b))" if "m i = Some a" "order_edge a b"

lemma orderById_of:
  assumes "shop_ok s" "x \<in> set (shopOrders s)" shows "orderById s (soId x) = Some x"
  unfolding orderById_def by (rule find_unique [OF _ assms(2)]) (use assms(1) in \<open>simp add: shop_ok_def orders_ok_def\<close>)

lemma move_lives:
  assumes ok: "shop_ok s" and m: "shop_move s l s'"
  shows "lives s' = lives s \<or> life_move (lives s) (lives s')"
  using m
proof (cases rule: shop_move_orders)
  case 1
  then show ?thesis by (simp add: lives_def fun_eq_iff orderById_def)
next
  case (2 x)
  have d: "distinct (map soId (shopOrders s @ [x]))" using 2(1,4) by (simp add: shop_ok_def orders_ok_def)
  then have n: "orderById s (soId x) = None" by (auto simp: orderById_def find_None_iff image_iff)
  have "orderById s' j = (if j = soId x then Some x else orderById s j)" for j
    using n by (auto simp: orderById_def 2(1) find_append split: option.split)
  then have "lives s' = (lives s)(soId x \<mapsto> SO_PENDING_PAYMENT)" by (auto simp: lives_def 2(2))
  moreover have "lives s (soId x) = None" using n by (simp add: lives_def)
  ultimately show ?thesis using Born by metis
next
  case (3 x st)
  note x = orderById_of [OF ok 3(1)]
  have "lives s' = (lives s)(soId x \<mapsto> st)"
    by (rule ext) (simp add: lives_def orderById_status [OF 3(3)] x)
  moreover have "lives s (soId x) = Some (soStatus x)" by (simp add: lives_def x)
  ultimately show ?thesis using Aged [OF _ 3(2)] by metis
qed

lemma moves_lives: "shop_moves s l s' \<Longrightarrow> shop_ok s \<Longrightarrow> life_move\<^sup>*\<^sup>* (lives s) (lives s')"
proof (induction rule: shop_moves.induct)
  case (Step s k s1 l s2)
  then show ?case using move_lives [OF Step.prems Step.hyps(1)] move_ok [OF Step.hyps(1)]
    by (auto intro: converse_rtranclp_into_rtranclp)
qed simp

text \<open>Apart from its status an order never changes.\<close>

definition kept :: "order_row list \<Rightarrow> order_row list \<Rightarrow> bool" where
  "kept xs ys \<longleftrightarrow> (\<exists>zs. map (soStatus_update (\<lambda>_. SO_PAID)) ys = map (soStatus_update (\<lambda>_. SO_PAID)) xs @ zs)"

lemma kept_trans: "kept xs ys \<Longrightarrow> kept ys zs \<Longrightarrow> kept xs zs"
  unfolding kept_def by auto

lemma kept_status: "kept xs (update_where p (\<lambda>y. y\<lparr>soStatus := st\<rparr>) xs)"
proof -
  have "map (soStatus_update (\<lambda>_. SO_PAID)) (update_where p (\<lambda>y. y\<lparr>soStatus := st\<rparr>) xs) = map (soStatus_update (\<lambda>_. SO_PAID)) xs"
    by (induction xs) simp_all
  then show ?thesis by (simp add: kept_def)
qed

lemma move_kept: "shop_move s l s' \<Longrightarrow> kept (shopOrders s) (shopOrders s')"
  by (cases rule: shop_move_orders, assumption) (simp_all add: kept_status, simp_all add: kept_def)

lemma moves_kept: "shop_moves s l s' \<Longrightarrow> kept (shopOrders s) (shopOrders s')"
proof (induction rule: shop_moves.induct)
  case (Step s k s1 l s2)
  then show ?case using kept_trans move_kept by blast
qed (simp add: kept_def)

text \<open>Stock and what the living orders hold of each variant.\<close>

definition reserved :: "order_row list \<Rightarrow> nat \<Rightarrow> int" where
  "reserved xs v = sum_where (\<lambda>x. soStatus x \<noteq> SO_CANCELLED) (\<lambda>x. qtyOf (soItems x) v) xs"

definition goods :: "'a shop_scheme \<Rightarrow> (nat \<times> int) list" where
  "goods s = map (\<lambda>v. (vaId v, vaStock v + reserved (shopOrders s) (vaId v))) (variants s)"

lemma goods_restock:
  assumes "variants s' = restock q (variants s)"
    "\<And>v. reserved (shopOrders s') v = reserved (shopOrders s) v - q v"
  shows "goods s' = goods s"
  by (simp add: goods_def assms restock_def)

lemma move_goods:
  assumes ok: "shop_ok s" and m: "shop_move s l s'"
  shows "goods s' = goods s"
  using m
proof (cases rule: shop_move.cases)
  case Stay
  then show ?thesis by (simp add: goods_def)
next
  case (Open x)
  show ?thesis by (rule goods_restock [OF Open(6)]) (simp add: Open reserved_def sum_where_def)
next
  case (Advance x st)
  have d: "distinct (map soId (shopOrders s))" using ok by (simp add: shop_ok_def orders_ok_def)
  have f: "find (\<lambda>y. soId y = soId x) (shopOrders s) = Some x" using orderById_of [OF ok Advance(3)] by (simp add: orderById_def)
  have "soStatus x \<noteq> SO_CANCELLED" using Advance(4) by (auto simp: order_edge_def)
  then have r: "reserved (shopOrders s') v =
      reserved (shopOrders s) v - (if st = SO_CANCELLED then qtyOf (soItems x) v else 0)" for v
    unfolding reserved_def Advance(5) by (subst sum_where_update_key [OF d f]) simp
  show ?thesis by (rule goods_restock [where q = "\<lambda>v. if st = SO_CANCELLED then qtyOf (soItems x) v else 0"])
      (use Advance(6) r in auto)
qed

lemma moves_goods: "shop_moves s l s' \<Longrightarrow> shop_ok s \<Longrightarrow> goods s' = goods s"
proof (induction rule: shop_moves.induct)
  case (Step s k s1 l s2)
  then show ?case using move_goods move_ok by metis
qed simp

text \<open>Living orders never use a code more often than its limits allow.\<close>

definition codes_ok :: "'a shop_scheme \<Rightarrow> bool" where
  "codes_ok s \<longleftrightarrow>
     distinct (map dcId (discountCodes s)) \<and>
     (\<forall>d \<in> set (discountCodes s).
        (\<forall>l. dcLimit d = Some l \<longrightarrow> int (codeUses s (dcId d)) \<le> l) \<and>
        (\<forall>l u. dcPerUser d = Some l \<longrightarrow> int (codeUsesBy s (dcId d) u) \<le> l))"

definition uses :: "(order_row \<Rightarrow> bool) \<Rightarrow> order_row list \<Rightarrow> nat" where
  "uses q xs = count_where (\<lambda>x. q x \<and> soStatus x \<noteq> SO_CANCELLED) xs"

lemma codeUses_uses:
  "codeUses s i = uses (\<lambda>x. soCode x = Some i) (shopOrders s)"
  "codeUsesBy s i u = uses (\<lambda>x. soCode x = Some i \<and> soUser x = u) (shopOrders s)"
  by (simp_all add: codeUses_def codeUsesBy_def uses_def conj_assoc)

lemma uses_status:
  assumes "\<And>x. q (x\<lparr>soStatus := st\<rparr>) = q x" and "\<And>x. x \<in> set xs \<Longrightarrow> p x \<Longrightarrow> soStatus x \<noteq> SO_CANCELLED"
  shows "uses q (update_where p (\<lambda>x. x\<lparr>soStatus := st\<rparr>) xs) \<le> uses q xs"
  using assms(2) by (induction xs) (auto simp: uses_def count_where_def assms(1))

lemma uses_snoc: "uses q (xs @ [x]) = uses q xs + (if q x \<and> soStatus x \<noteq> SO_CANCELLED then 1 else 0)"
  by (simp add: uses_def count_where_def)

lemma codes_ok_less:
  assumes "codes_ok s" "discountCodes s' = discountCodes s"
    and "\<And>i. codeUses s' i \<le> codeUses s i" "\<And>i u. codeUsesBy s' i u \<le> codeUsesBy s i u"
  shows "codes_ok s'"
  unfolding codes_ok_def assms(2)
proof (intro conjI ballI allI impI)
  show "distinct (map dcId (discountCodes s))" using assms(1) by (simp add: codes_ok_def)
  fix d l assume "d \<in> set (discountCodes s)" "dcLimit d = Some l"
  then have "int (codeUses s (dcId d)) \<le> l" using assms(1) by (simp add: codes_ok_def)
  then show "int (codeUses s' (dcId d)) \<le> l" using assms(3) [of "dcId d"] by simp
next
  fix d l u assume "d \<in> set (discountCodes s)" "dcPerUser d = Some l"
  then have "int (codeUsesBy s (dcId d) u) \<le> l" using assms(1) by (simp add: codes_ok_def)
  then show "int (codeUsesBy s' (dcId d) u) \<le> l" using assms(4) [of "dcId d" u] by simp
qed

lemma codes_ok_open:
  assumes c: "codes_ok s" and e: "discountCodes s' = discountCodes s" "shopOrders s' = shopOrders s @ [x]"
    and w: "within_limits s x"
  shows "codes_ok s'"
proof -
  have lim: "(\<forall>l. dcLimit d = Some l \<longrightarrow> int (codeUses s (dcId d)) < l) \<and>
      (\<forall>l. dcPerUser d = Some l \<longrightarrow> int (codeUsesBy s (dcId d) (soUser x)) < l)"
    if d: "d \<in> set (discountCodes s)" "soCode x = Some (dcId d)" for d
  proof -
    obtain d' where d': "d' \<in> set (discountCodes s)" "dcId d' = dcId d"
      "\<forall>l. dcLimit d' = Some l \<longrightarrow> int (codeUses s (dcId d)) < l"
      "\<forall>l. dcPerUser d' = Some l \<longrightarrow> int (codeUsesBy s (dcId d) (soUser x)) < l"
      using w d(2) unfolding within_limits_def by blast
    have "d' = d" using c d(1) d'(1,2) inj_onD [of dcId "set (discountCodes s)" d' d]
      by (auto simp: codes_ok_def distinct_map)
    then show ?thesis using d'(3,4) by simp
  qed
  have old: "\<And>l. d \<in> set (discountCodes s) \<Longrightarrow> dcLimit d = Some l \<Longrightarrow> int (codeUses s (dcId d)) \<le> l"
    "\<And>l u. d \<in> set (discountCodes s) \<Longrightarrow> dcPerUser d = Some l \<Longrightarrow> int (codeUsesBy s (dcId d) u) \<le> l" for d
    using c by (simp_all add: codes_ok_def)
  show ?thesis unfolding codes_ok_def e(1) codeUses_uses e(2) uses_snoc
    using lim old c unfolding codes_ok_def codeUses_uses by (fastforce split: if_split)
qed

lemma move_codes:
  assumes ok: "shop_ok s" "codes_ok s" and m: "shop_move s l s'"
  shows "codes_ok s'"
  using m
proof (cases rule: shop_move.cases)
  case Stay
  then show ?thesis by (intro codes_ok_less [OF ok(2)]) (simp_all add: codeUses_uses)
next
  case (Open x)
  then show ?thesis by (intro codes_ok_open [OF ok(2)])
next
  case (Advance x st)
  have "soStatus y \<noteq> SO_CANCELLED" if "y \<in> set (shopOrders s)" "soId y = soId x" for y
    using orders_ok_unique [of "nextId s" "shopOrders s" y x] ok(1) that Advance(3,4) by (auto simp: shop_ok_def order_edge_def)
  then have "uses q (shopOrders s') \<le> uses q (shopOrders s)" if "\<And>x. q (x\<lparr>soStatus := st\<rparr>) = q x" for q
    unfolding Advance(5) by (intro uses_status that)
  then show ?thesis using Advance(7) by (intro codes_ok_less [OF ok(2)]) (simp_all add: codeUses_uses)
qed

lemma moves_codes: "shop_moves s l s' \<Longrightarrow> shop_ok s \<Longrightarrow> codes_ok s \<Longrightarrow> codes_ok s'"
proof (induction rule: shop_moves.induct)
  case (Step s k s1 l s2)
  then show ?case using move_codes move_ok by metis
qed simp

subsection \<open>Sequences of calls\<close>

interpretation shop_run: conserving_service "shop_step env :: 'a store_scheme \<Rightarrow> clock \<times> shop_op \<Rightarrow> 'a store_scheme res"
    shop_ok goods for env
  by unfold_locales (use moves_ok moves_goods shop_step_chain in blast)+

interpretation shop_codes: service "shop_step env :: 'a store_scheme \<Rightarrow> clock \<times> shop_op \<Rightarrow> 'a store_scheme res"
    "\<lambda>s. shop_ok s \<and> codes_ok s" for env
  by unfold_locales (use moves_ok moves_codes shop_step_chain in blast)

definition shop_later :: "'a shop_scheme \<Rightarrow> 'a shop_scheme \<Rightarrow> bool" where
  "shop_later s s' \<longleftrightarrow> life_move\<^sup>*\<^sup>* (lives s) (lives s') \<and> kept (shopOrders s) (shopOrders s')"

interpretation shop_lives: evolving_service "shop_step env :: 'a store_scheme \<Rightarrow> clock \<times> shop_op \<Rightarrow> 'a store_scheme res"
    shop_ok shop_later for env
proof unfold_locales
  fix s s' :: "'a store_scheme" and p
  assume "shop_ok s" "shop_step env s p = Inr s'"
  then show "shop_later s s'" using shop_step_chain moves_lives moves_kept unfolding shop_later_def by blast
qed (auto simp: shop_later_def kept_def intro: rtranclp_trans)

text \<open>A run that also counts the rial taken without being booked.\<close>

definition counted_step ::
  "shop_env \<Rightarrow> 'a store_scheme \<times> int \<Rightarrow> clock \<times> shop_op \<Rightarrow> ('a store_scheme \<times> int) res" where
  "counted_step env st p =
     (case shop_step env (fst st) p of Inl e \<Rightarrow> Inl e | Inr s' \<Rightarrow> Inr (s', snd st + strayOf (fst st) p))"

lemma counted_chain:
  assumes "shop_ok (fst st)" "counted_step env st p = Inr st'"
  shows "\<exists>l. shop_moves (fst st) l (fst st') \<and> snd st' = snd st + l \<and> l = strayOf (fst st) p"
  using assms shop_step_chain unfolding counted_step_def by fastforce

interpretation shop_rial: control_account
    "counted_step env :: 'a store_scheme \<times> int \<Rightarrow> clock \<times> shop_op \<Rightarrow> ('a store_scheme \<times> int) res"
    "\<lambda>st. shop_ok (fst st)" "\<lambda>st. totalRial (fst st) + snd st" "\<lambda>st. rialOf (fst st) ''2010''" for env
proof unfold_locales
  fix st st' :: "'a store_scheme \<times> int" and p
  assume a: "shop_ok (fst st)" "counted_step env st p = Inr st'"
  from counted_chain [OF a] obtain l where m: "shop_moves (fst st) l (fst st')" "snd st' = snd st + l" by blast
  show "shop_ok (fst st')" by (rule moves_ok [OF m(1) a(1)])
  show "totalRial (fst st') + snd st' - rialOf (fst st') ''2010'' = totalRial (fst st) + snd st - rialOf (fst st) ''2010''"
    using moves_gaps [OF m(1)] m(2) by (simp add: rialGap_def)
qed

interpretation shop_grams: control_account
    "shop_step env :: 'a store_scheme \<Rightarrow> clock \<times> shop_op \<Rightarrow> 'a store_scheme res"
    shop_ok totalGrams "\<lambda>s. gramsOf s ''2020''" for env
proof unfold_locales
  fix s s' :: "'a store_scheme" and p
  assume "shop_ok s" "shop_step env s p = Inr s'"
  then show "totalGrams s' - gramsOf s' ''2020'' = totalGrams s - gramsOf s ''2020''"
    using moves_gaps shop_step_chain by (fastforce simp: gramGap_def)
qed

lemma counted_run: "fst (run (counted_step env) st ps) = run (shop_step env) (fst st) ps"
  by (induction ps arbitrary: st) (auto simp: counted_step_def try_step_def split: sum.splits)

end
