(* ===== verification/ShopProps.thy ===== *)
theory ShopProps
  imports ShopRuns
begin

section \<open>The properties of the shop\<close>

text \<open>
  What a payment from the wallet and a refund do, to the last account, and the properties of the shop
  over single calls and over sequences of calls, with a concrete shop for their witnesses.
\<close>


subsection \<open>Payment from the wallet and refund, to the last account\<close>

text \<open>Accounts outside the cash tree and the books of sold bars.\<close>

definition plain :: "string \<Rightarrow> bool" where
  "plain c \<longleftrightarrow> \<not> starts_with CASH_ROOT_CODE c \<and> c \<noteq> ''1025'' \<and> c \<noteq> ''5060''"

lemma cogs_plain: "plain c \<Longrightarrow> netRial c (inputLines (cogsJournal i cost g)) = 0"
  by (auto simp: plain_def cogsJournal_def line_defs)

lemma uncogs_bank: 
  assumes "bank_ok s" "postShopCogs prec s c x = Inr s'"
  shows "wallets s' = wallets s" "transactions s' = transactions s" "plain k \<Longrightarrow> rialOf s' k = rialOf s k"
proof -
  have "wallets s' = wallets s \<and> transactions s' = transactions s \<and> (plain k \<longrightarrow> rialOf s' k = rialOf s k)"
  proof (cases "s' = s")
    case False
    then obtain cost g j where p: "postJournal s (now c) (cogsJournal (soId x) cost g) = Inr (s', j)"
      using assms(2) by (auto simp: postShopCogs_def Let_def split: if_splits)
    have wf: "wf_ledger s" using assms(1) wf_bank_ledger by (auto simp: bank_ok_def)
    show ?thesis using postJournal_bank [OF p] postJournal_balance(1) [OF wf p] cogs_plain by (auto simp: plain_def)
  qed simp
  then show "wallets s' = wallets s" "transactions s' = transactions s" "plain k \<Longrightarrow> rialOf s' k = rialOf s k" by blast+
qed

lemma issue_bank:
  fixes s :: "'a shop_scheme"
  assumes "issueForShopOrder s x = Inr (s', v)"
  shows "wallets s' = wallets s" "rialOf s' = rialOf s" "transactions s' = transactions s"
proof -
  have q: "calm s s'" by (rule calm_issue [OF assms])
  then show "wallets s' = wallets s" "rialOf s' = rialOf s" by (auto simp: calm_def rialOf_def fun_eq_iff)
  show "transactions s' = transactions s"
    using assms unfolding issueForShopOrder_def issue_def
    by (auto simp: Let_def sequenceNext_def split: if_splits option.splits prod.splits)
qed

lemma setOrder_bank [simp]: "rialOf (setOrder s i f) = rialOf s" "transactions (setOrder s i f) = transactions s"
  by (simp_all add: fun_eq_iff rialOf_def) (simp add: setOrder_def)

lemma walletOfUser_row:
  assumes "wf_bank s" "walletOfUser s u = Some w"
  shows "walletById s (wId w) = Some w" "0 \<le> wRial w" "numeric4 (wGrams w) = wGrams w"
proof -
  have w: "w \<in> set (wallets s)" using walletOfUser_in [OF assms(2)] by blast
  have "distinct (map wId (wallets s))" using wf_bank_wallets [OF assms(1)] by (simp add: wf_wallets_def)
  then show "walletById s (wId w) = Some w" unfolding walletById_def by (rule find_unique) (rule w)
  show "0 \<le> wRial w" "numeric4 (wGrams w) = wGrams w"
    using wf_bank_wallets [OF assms(1)] w by (auto simp: wf_wallets_def)
qed

lemma capture_effect:
  assumes ok: "shop_ok s" and x: "orderById s i = Some x" "soTotal x = amount"
    and r: "captureWalletOnly prec s c u i amount = Inr s'"
  obtains w where "walletOfUser s u = Some w" "amount \<le> wRial w"
    "walletById s' (wId w) = Some (w\<lparr>wRial := wRial w - amount\<rparr>)"
    "\<And>j. j \<noteq> wId w \<Longrightarrow> walletById s' j = walletById s j"
    "\<And>k. plain k \<Longrightarrow> rialOf s' k = rialOf s k + netRial k (inputLines (saleJournal x amount 0))"
    "\<exists>t. transactions s' = transactions s @ [shopTransaction t c u (wId w) SHOP_PURCHASE (Some amount) None i]"
    "variants s' = variants s" "shop_ok s'"
    "shopOrders s' = update_where (\<lambda>y. soId y = i) (\<lambda>y. y\<lparr>soStatus := SO_PAID\<rparr>) (shopOrders s)"
proof -
  from captureWalletOnly_Inr [OF r x(1)] obtain w s1 s2 s3 j s4 v where
    w: "walletOfUser s u = Some w" "amount \<le> wRial w" and a: "walletAdd s (wId w) (- amount) 0 = Inr s1"
    and s2: "s2 = addTransaction (addPayment s1 (walletPayment u i amount PY_SUCCESS))
                    (\<lambda>t. shopTransaction t c u (wId w) SHOP_PURCHASE (Some amount) None i)"
    and p: "postJournal s2 (now c) (saleJournal x amount 0) = Inr (s3, j)"
    and g: "postShopCogs prec s3 c x = Inr s4"
    and v: "issueForShopOrder (setOrder s4 i (\<lambda>y. y\<lparr>soStatus := SO_PAID\<rparr>)) x = Inr (s', v)" by metis
  have am: "0 \<le> amount" using shop_ok_order [OF ok x(1)] x(2) by (simp add: order_ok_def)
  note b = shop_ok_bank [OF ok]
  have w1: "shop_write s s1 (- amount) 0 0 0" by (rule shop_write_wallet [OF b a]) simp
  note wp = shop_write_payment [OF shop_write_ok [OF w1], of "walletPayment u i amount PY_SUCCESS"]
  have w2: "shop_write s1 s2 0 0 0 0" unfolding s2
    using shop_write_trans [OF wp shop_write_transaction [OF shop_write_ok [OF wp]]] by simp
  have w3: "shop_write s2 s3 0 (- amount) 0 0" by (rule shop_write_sale [OF shop_write_ok [OF w2] p am])
  have w4: "shop_write s3 s4 0 0 0 0" by (rule shop_write_cogs [OF shop_write_ok [OF w3] g])
  have w04: "shop_write s s4 (- amount) (- amount) 0 0"
    using shop_write_trans [OF shop_write_trans [OF shop_write_trans [OF w1 w2] w3] w4] by simp
  note ok5 = shop_ok_setOrder [OF shop_ok_write [OF ok w04], of i SO_PAID]
  note w5 = shop_write_issue [OF shop_ok_bank [OF ok5] v]
  have wl: "wallets s' = wallets s1"
    using issue_bank(1) [OF v] uncogs_bank(1) [OF shop_write_ok [OF w3] g] postJournal_bank(1) [OF p] by (simp add: s2)
  have wb: "wf_bank s" using b by (simp add: bank_ok_def)
  note row = walletOfUser_row [OF wb w(1)] walletAdd_row [OF a walletOfUser_row(1) [OF wb w(1)]]
  have l2: "wf_ledger s2" using shop_write_ok [OF w2] wf_bank_ledger by (auto simp: bank_ok_def)
  have r2: "rialOf s2 k = rialOf s k" for k by (simp add: rialOf_def s2 walletAdd_frame [OF a])
  have bk: "rialOf s' k = rialOf s k + netRial k (inputLines (saleJournal x amount 0))" if "plain k" for k
    using that issue_bank(2) [OF v] uncogs_bank(3) [OF shop_write_ok [OF w3] g that] postJournal_balance(1) [OF l2 p, of k] r2
    by (simp add: plain_def)
  have t: "\<exists>t. transactions s' = transactions s @ [shopTransaction t c u (wId w) SHOP_PURCHASE (Some amount) None i]"
    using issue_bank(3) [OF v] uncogs_bank(2) [OF shop_write_ok [OF w3] g] postJournal_bank(3) [OF p]
    by (auto simp: s2 walletAdd_frame [OF a] addPayment_def)
  have sh: "same_shop s s4" "same_shop (setOrder s4 i (\<lambda>y. y\<lparr>soStatus := SO_PAID\<rparr>)) s'"
    using w04 w5 by (simp_all add: shop_write_def)
  show thesis
    by (rule that [OF w _ _ bk t _ shop_ok_write [OF ok5 w5]])
       (use row sh wl in \<open>simp_all add: walletById_def same_shop_def setOrder_def\<close>)
qed




lemma release_bank [simp]:
  "wallets (releaseOrderWalletHold (releaseStock s its) i) = wallets s"
  "transactions (releaseOrderWalletHold (releaseStock s its) i) = transactions s"
  "rialOf (releaseOrderWalletHold (releaseStock s its) i) = rialOf s"
  "journals (releaseOrderWalletHold (releaseStock s its) i) = journals s"
  "accounts (releaseOrderWalletHold (releaseStock s its) i) = accounts s"
  "ledgerEntries (releaseOrderWalletHold (releaseStock s its) i) = ledgerEntries s"
  using calm_trans [OF calm_releaseStock calm_release, of s its i]
  by (simp_all add: calm_def fun_eq_iff rialOf_def)
     (simp add: releaseOrderWalletHold_def setPayments_def releaseStock_def)


subsection \<open>A concrete shop\<close>

definition demoItem :: order_item where
  "demoItem =
     \<lparr>oiPrice = 500000, oiQuantity = 1, oiBreakdown = [], oiPackaging = False, oiPackagingUnit = 0,
      oiPackagingQuantity = 0, oiPackagingRial = 0, oiVariant = Some 61, oiProduct = None, oiWeight = None\<rparr>"

text \<open>An unpaid order of user 11, worth 500000 rial.\<close>

definition unpaidOrder :: order_row where
  "unpaidOrder =
     \<lparr>soId = 95, soUser = 11, soItems = [demoItem], soDiscount = 0, soShippingMethod = False, soShipping = 0,
      soShippingWaived = 0, soStatus = SO_PENDING_PAYMENT, soNumber = ''AG-1404-SHO-000001'', soAddress = 80,
      soSubtotal = 500000, soPackaging = 0, soPackagingWaived = 0, soTotal = 500000, soCode = None,
      soMelted = False, soGoldGrams = 0, soGoldRial = 0, soGoldRate = None, soOnDelivery = False,
      soEstimate = None, soCreated = 990000\<rparr>"

text \<open>That order, a cart with two bars, and a code that may be used once.\<close>

definition demoShop :: store where
  "demoShop =
     \<lparr>nextId = 100,
      accounts = [demoAccount 1 ''1010'' ASSET 3000000 0, demoAccount 2 ''2010'' LIABILITY 3000000 0,
        demoAccount 3 ''2020'' LIABILITY 0 5, demoAccount 4 ''1090'' ASSET 0 5,
        demoAccount 5 ''4020'' INCOME 0 0, demoAccount 6 ''4030'' INCOME 0 0, demoAccount 7 ''4035'' INCOME 0 0,
        demoAccount 8 ''5030'' EXPENSE 0 0, demoAccount 9 ''5060'' EXPENSE 0 0, demoAccount 10 ''1025'' ASSET 900000 3],
      journals = [], ledgerEntries = [], fiscalYears = [], lockedUntil = None,
      config = (\<lambda>k. Some (if k = ''shop.shipping.enabled'' then ''false'' else ''x'')), configNum = (\<lambda>_. None),
      users = [\<lparr>uId = 11, uStatus = ACTIVE, uIdentity = Some ID_VERIFIED\<rparr>],
      bankAccounts = [], wallets = [\<lparr>wId = 21, wUser = 11, wCard = ''1'', wRial = 3000000, wGrams = 5\<rparr>],
      holds = [], transactions = [], withdrawals = [], approvals = [],
      sequences = (\<lambda>_. 1), jalaliYear = 1404, invoices = [], agentIds = [],
      deposits = [], receipts = [], holidayText = [], priceLocks = [], orders = [],
      prices = \<lparr>psCache = None, psSuspect = None, psMarket = Some (1000000, 990000), psFailures = 0,
                psOpened = None, psPending = None\<rparr>,
      products = [\<lparr>pdId = 60, pdActive = True, pdCategoryActive = True, pdIngot = True, pdPurity = Some ''24'',
                   pdBasePrice = None, pdLinks = [], pdRange = False, pdMin = None, pdMax = None, pdStep = None\<rparr>],
      variants = [\<lparr>vaId = 61, vaProduct = 60, vaStock = 4, vaWeight = 1, vaAdjust = 0\<rparr>],
      cartItems = [\<lparr>ciId = 70, ciUser = 11, ciVariant = Some 61, ciProduct = None, ciQuantity = 2,
                    ciPrice = Some 500000, ciExpires = Some 2000000, ciWeight = None, ciBreakdown = [], ciPackaging = None\<rparr>],
      addresses = [\<lparr>adId = 80, adUser = 11, adDeleted = False, adProvince = Some ''THR'', adCity = None, adPostal = None\<rparr>],
      shopOrders = [unpaidOrder], payments = [],
      discountCodes = [\<lparr>dcId = 90, dcCode = ''ONCE'', dcType = PERCENT, dcValue = 10, dcMax = None, dcMin = None,
                        dcStarts = None, dcExpires = None, dcLimit = Some 1, dcPerUser = None, dcActive = True,
                        dcUser = None\<rparr>],
      packagingLinks = [], shipMethods = [], shipZones = [], shipRates = [], goldQuotes = [], methods = [], carriers = [], shipments = []\<rparr>"

lemma demoShop_ok [simp]: "shop_ok demoShop" "codes_ok demoShop"
  by (simp_all add: demoShop_def shop_ok_def bank_ok_def cogs_clean_def wf_bank_def wf_except_def wf_ledger_def
      wf_accounts_def wf_wallets_def wf_requests_def wf_holds_def demoAccount_def on_grid_def orders_ok_def order_ok_def
      unpaidOrder_def demoItem_def holds_ok_def inputs_ok_def variants_ok_def getNumber_def codes_ok_def
      codeUses_def codeUsesBy_def count_where_def)

lemma demoShop_money: "totalRial demoShop = rialOf demoShop ''2010''" "totalGrams demoShop = gramsOf demoShop ''2020''"
  by code_simp+

subsection \<open>Properties\<close>

text \<open>C2: The shop keeps the books straight. Over every sequence of calls of the shop (checkout, payment,
gateway answers, cancelling, expiry, gold bars), with failing calls rolled back, orders, holds and stock
stay well formed, the gold of the wallets equals account 2020, and the rial of the wallets equals account
2010 but for the rial that gateway answers for orders paid already took from a wallet without a booking;
where no such answer comes in, the two are equal.\<close>

theorem shop_reconciles:
  fixes s :: "'a store_scheme"
  assumes "shop_ok s" and "totalRial s = rialOf s ''2010''" and "totalGrams s = gramsOf s ''2020''"
  shows "shop_ok (run (shop_step env) s ops) \<and>
    totalGrams (run (shop_step env) s ops) = gramsOf (run (shop_step env) s ops) ''2020'' \<and>
    (let (s', stray) = run (counted_step env) (s, 0) ops in
     s' = run (shop_step env) s ops \<and> totalRial s' + stray = rialOf s' ''2010'')"
proof -
  have r: "totalRial (fst (run (counted_step env) (s, 0) ops)) + snd (run (counted_step env) (s, 0) ops) =
      rialOf (fst (run (counted_step env) (s, 0) ops)) ''2010''"
    using shop_rial.run_reconciled [of "(s, 0)" env ops] assms(1,2) by simp
  show ?thesis
    using shop_run.run_inv [OF assms(1)] shop_grams.run_reconciled [OF assms(1,3)] r counted_run [of env "(s, 0)" ops]
    by (simp add: case_prod_unfold)
qed

lemma shop_reconciles_witness:
  "totalGrams (run (shop_step (id, id)) demoShop [(deskClock, Pay 11 95 BY_WALLET (Inr ''r'')), (deskClock, AdminCancel 95)]) =
   gramsOf (run (shop_step (id, id)) demoShop [(deskClock, Pay 11 95 BY_WALLET (Inr ''r'')), (deskClock, AdminCancel 95)]) ''2020''"
  using shop_reconciles [OF demoShop_ok(1) demoShop_money] by blast

lemma kept_in:
  assumes "kept xs ys" "x \<in> set xs"
  shows "\<exists>y \<in> set ys. \<exists>st. y = x\<lparr>soStatus := st\<rparr>"
proof -
  obtain zs where e: "map (soStatus_update (\<lambda>_. SO_PAID)) ys = map (soStatus_update (\<lambda>_. SO_PAID)) xs @ zs"
    using assms(1) by (auto simp: kept_def)
  have "soStatus_update (\<lambda>_. SO_PAID) x \<in> set (map (soStatus_update (\<lambda>_. SO_PAID)) ys)" unfolding e using assms(2) by simp
  then obtain y where y: "y \<in> set ys" "y\<lparr>soStatus := SO_PAID\<rparr> = x\<lparr>soStatus := SO_PAID\<rparr>" by auto
  have "y = y\<lparr>soStatus := SO_PAID\<rparr>\<lparr>soStatus := soStatus y\<rparr>" by simp
  also have "\<dots> = x\<lparr>soStatus := soStatus y\<rparr>" unfolding y(2) by simp
  finally show ?thesis using y(1) by blast
qed

text \<open>C12: The life of the orders, as a refinement. Seen as a map from order numbers to statuses, every
sequence of calls is a sequence of steps of the abstract machine in which an order is born unpaid, is
paid, is taken up by staff, and may be cancelled before it is sent. And an order once placed stays on file with
what was agreed: its user, number, address and items with their prices, the amounts, the discount code, the gold it is
paid with, the way it is shipped and its time. (The columns that record the course of an order, which the code writes along with the status,
are no part of the model: the times of payment, processing, sending, delivery and cancellation, the reason of a
cancellation, the tracking code and the notes.)\<close>

theorem orders_refine_life_cycle:
  assumes "shop_ok s"
  shows "life_move\<^sup>*\<^sup>* (lives s) (lives (run (shop_step env) s ops)) \<and>
    (\<forall>i x. orderById s i = Some x \<longrightarrow>
      (\<exists>y. orderById (run (shop_step env) s ops) i = Some y \<and>
         soUser y = soUser x \<and> soNumber y = soNumber x \<and> soAddress y = soAddress x \<and> soItems y = soItems x \<and>
         soSubtotal y = soSubtotal x \<and> soDiscount y = soDiscount x \<and> soPackaging y = soPackaging x \<and>
         soPackagingWaived y = soPackagingWaived x \<and> soShipping y = soShipping x \<and> soShippingWaived y = soShippingWaived x \<and>
         soTotal y = soTotal x \<and> soCode y = soCode x \<and>
         soMelted y = soMelted x \<and> soGoldGrams y = soGoldGrams x \<and> soGoldRial y = soGoldRial x \<and> soGoldRate y = soGoldRate x \<and>
         soShippingMethod y = soShippingMethod x \<and> soOnDelivery y = soOnDelivery x \<and> soEstimate y = soEstimate x \<and>
         soCreated y = soCreated x))"
proof (intro conjI allI impI)
  let ?f = "run (shop_step env) s ops"
  note l = shop_lives.run_later [OF assms, of env ops, unfolded shop_later_def]
  show "life_move\<^sup>*\<^sup>* (lives s) (lives ?f)" using l by blast
  fix i x
  assume x: "orderById s i = Some x"
  from kept_in [OF conjunct2 [OF l]] orderById_in [OF x] obtain y st where
    y: "y \<in> set (shopOrders ?f)" "y = x\<lparr>soStatus := st\<rparr>" by blast
  have "orderById ?f i = Some y"
    using orderById_of [OF shop_run.run_inv [OF assms] y(1)] orderById_in [OF x] y(2) by simp
  then show "\<exists>y. orderById ?f i = Some y \<and>
         soUser y = soUser x \<and> soNumber y = soNumber x \<and> soAddress y = soAddress x \<and> soItems y = soItems x \<and>
         soSubtotal y = soSubtotal x \<and> soDiscount y = soDiscount x \<and> soPackaging y = soPackaging x \<and>
         soPackagingWaived y = soPackagingWaived x \<and> soShipping y = soShipping x \<and> soShippingWaived y = soShippingWaived x \<and>
         soTotal y = soTotal x \<and> soCode y = soCode x \<and>
         soMelted y = soMelted x \<and> soGoldGrams y = soGoldGrams x \<and> soGoldRial y = soGoldRial x \<and> soGoldRate y = soGoldRate x \<and>
         soShippingMethod y = soShippingMethod x \<and> soOnDelivery y = soOnDelivery x \<and> soEstimate y = soEstimate x \<and>
         soCreated y = soCreated x"
    by (intro exI [where x = y]) (simp add: y(2))
qed

lemma orders_refine_life_cycle_witness:
  "life_move\<^sup>*\<^sup>* (lives demoShop) (lives (run (shop_step (id, id)) demoShop [(deskClock, CancelByUser 11 95)]))"
  using orders_refine_life_cycle [OF demoShop_ok(1)] by blast

text \<open>C13: No bar is sold twice. Over every sequence of calls the stock of each variant and what its
orders that are not cancelled hold add up to the same number, and no stock is ever negative.\<close>

theorem stock_conserved:
  assumes "shop_ok s"
  shows "goods (run (shop_step env) s ops) = goods s \<and>
    list_all (\<lambda>v. 0 \<le> vaStock v) (variants (run (shop_step env) s ops))"
proof -
  have "shop_ok (run (shop_step env) s ops)" by (rule shop_run.run_inv [OF assms])
  then show ?thesis using shop_run.run_quantity [OF assms]
    by (auto simp: shop_ok_def inputs_ok_def variants_ok_def list_all_iff)
qed

lemma stock_conserved_witness:
  "goods (run (shop_step (id, id)) demoShop [(deskClock, Checkout 11 80 None False None)]) = [(61, 5)]"
proof -
  have "goods demoShop = [(61, 5)]" by code_simp
  from trans [OF conjunct1 [OF stock_conserved [OF demoShop_ok(1)]] this] show ?thesis .
qed

text \<open>Discount codes are never overused. Over every sequence of calls, of any users, the orders that
are not cancelled use each code no more often than its limits allow, in total and for each user.\<close>

theorem codes_within_limits:
  assumes "shop_ok s" and "codes_ok s"
  shows "codes_ok (run (shop_step env) s ops)"
  using shop_codes.run_inv assms by blast

lemma codes_within_limits_witness:
  "codes_ok (run (shop_step (id, id)) demoShop [(deskClock, Checkout 11 80 None False (Some ''once''))])"
  by (rule codes_within_limits [OF demoShop_ok])

lemma sale_nets:
  assumes "order_ok n x"
  shows "netRial ''2010'' (inputLines (saleJournal x (soTotal x) 0)) = - soTotal x"
    "netRial ''4020'' (inputLines (saleJournal x (soTotal x) 0)) = soSubtotal x"
    "netRial ''4030'' (inputLines (saleJournal x (soTotal x) 0)) = soPackaging x"
    "netRial ''4035'' (inputLines (saleJournal x (soTotal x) 0)) = soShipping x"
    "netRial ''5030'' (inputLines (saleJournal x (soTotal x) 0)) = soDiscount x"
  using assms by (auto simp: order_ok_def saleJournal_def buildSaleJournalLines_def line_defs)

lemma plain_codes [simp]: "plain ''2010''" "plain ''4020''" "plain ''4030''" "plain ''4035''" "plain ''5030''"
  by (simp_all add: plain_def CASH_ROOT_CODE_def)

lemma pay_by_wallet:
  assumes ok: "shop_ok s" and r: "payOrder prec s c u i BY_WALLET answer = (s', Inr paid)"
  obtains x where "orderById s i = Some x" "soUser x = u" "paid"
    "soStatus x = SO_PAID \<and> s' = s \<or>
     soStatus x = SO_PENDING_PAYMENT \<and> \<not> soMelted x \<and> captureWalletOnly prec s c u i (soTotal x) = Inr s'"
proof -
  obtain x where f: "find (\<lambda>x. soId x = i \<and> soUser x = u) (shopOrders s) = Some x"
    using r by (auto simp: payOrder_def payChecks_def split: option.splits)
  have "orders_ok (nextId s) (shopOrders s)" using ok by (simp add: shop_ok_def)
  note x = order_of_user [OF this f]
  show thesis
    by (rule that [OF x(4,3)])
      (use r f in \<open>auto simp: payOrder_def payChecks_def split: if_splits sum.splits\<close>)
qed

lemma orderById_paid:
  assumes "orderById s i = Some x" "shopOrders s' = update_where (\<lambda>y. soId y = i) (\<lambda>y. y\<lparr>soStatus := st\<rparr>) (shopOrders s)"
  shows "orderById s' i = Some (x\<lparr>soStatus := st\<rparr>)"
  using orderById_in [OF assms(1)] orderById_status [of s' "soId x" st s i] assms by auto

text \<open>C11: Paying an order from the wallet. An order that is paid already stays as it is. Otherwise the
order was unpaid and worth no more than the wallet holds; exactly its total leaves this one wallet;
account 2010 falls by it, sales, packaging, delivery and discounts are booked in full, the purchase is
recorded, the order is paid and the stock stays.\<close>

theorem wallet_payment_effect:
  assumes ok: "shop_ok s" and r: "payOrder prec s c u i BY_WALLET answer = (s', Inr paid)"
  shows "\<exists>x. orderById s i = Some x \<and> soUser x = u \<and> paid \<and>
    (if soStatus x = SO_PAID then s' = s
     else soStatus x = SO_PENDING_PAYMENT \<and> \<not> soMelted x \<and>
       (\<exists>w. walletOfUser s u = Some w \<and> soTotal x \<le> wRial w \<and>
         walletById s' (wId w) = Some (w\<lparr>wRial := wRial w - soTotal x\<rparr>) \<and>
         (\<forall>j. j \<noteq> wId w \<longrightarrow> walletById s' j = walletById s j) \<and>
         (\<exists>t. transactions s' = transactions s @ [shopTransaction t c u (wId w) SHOP_PURCHASE (Some (soTotal x)) None i])) \<and>
       rialOf s' ''2010'' = rialOf s ''2010'' - soTotal x \<and> rialOf s' ''4020'' = rialOf s ''4020'' + soSubtotal x \<and>
       rialOf s' ''4030'' = rialOf s ''4030'' + soPackaging x \<and> rialOf s' ''4035'' = rialOf s ''4035'' + soShipping x \<and>
       rialOf s' ''5030'' = rialOf s ''5030'' + soDiscount x \<and>
       orderById s' i = Some (x\<lparr>soStatus := SO_PAID\<rparr>) \<and> variants s' = variants s)"
  using ok r
proof (cases rule: pay_by_wallet)
  case (1 x)
  show ?thesis
  proof (cases "soStatus x = SO_PAID")
    case False
    then have p: "captureWalletOnly prec s c u i (soTotal x) = Inr s'" "soStatus x = SO_PENDING_PAYMENT" "\<not> soMelted x"
      using 1(4) by auto
    obtain w :: wallet where w: "walletOfUser s u = Some w" "soTotal x \<le> wRial w"
        "walletById s' (wId w) = Some (w\<lparr>wRial := wRial w - soTotal x\<rparr>)"
      and others: "\<And>j. j \<noteq> wId w \<Longrightarrow> walletById s' j = walletById s j"
      and k: "\<And>k. plain k \<Longrightarrow> rialOf s' k = rialOf s k + netRial k (inputLines (saleJournal x (soTotal x) 0))"
      and t: "\<exists>t. transactions s' = transactions s @ [shopTransaction t c u (wId w) SHOP_PURCHASE (Some (soTotal x)) None i]"
      and v: "variants s' = variants s" "shop_ok s'"
      and o: "shopOrders s' = update_where (\<lambda>y. soId y = i) (\<lambda>y. y\<lparr>soStatus := SO_PAID\<rparr>) (shopOrders s)"
      by (rule capture_effect [OF ok 1(1) refl p(1)], rule that) blast+
    note b = k [OF plain_codes(1)] k [OF plain_codes(2)] k [OF plain_codes(3)] k [OF plain_codes(4)] k [OF plain_codes(5)]
    note b' = b [unfolded sale_nets [OF shop_ok_order [OF ok 1(1)]] add_uminus_conv_diff]
    show ?thesis
    proof (intro exI [of _ x] conjI 1(1-3))
      show "if soStatus x = SO_PAID then s' = s
        else soStatus x = SO_PENDING_PAYMENT \<and> \<not> soMelted x \<and>
          (\<exists>w. walletOfUser s u = Some w \<and> soTotal x \<le> wRial w \<and>
            walletById s' (wId w) = Some (w\<lparr>wRial := wRial w - soTotal x\<rparr>) \<and>
            (\<forall>j. j \<noteq> wId w \<longrightarrow> walletById s' j = walletById s j) \<and>
            (\<exists>t. transactions s' = transactions s @ [shopTransaction t c u (wId w) SHOP_PURCHASE (Some (soTotal x)) None i])) \<and>
          rialOf s' ''2010'' = rialOf s ''2010'' - soTotal x \<and> rialOf s' ''4020'' = rialOf s ''4020'' + soSubtotal x \<and>
          rialOf s' ''4030'' = rialOf s ''4030'' + soPackaging x \<and> rialOf s' ''4035'' = rialOf s ''4035'' + soShipping x \<and>
          rialOf s' ''5030'' = rialOf s ''5030'' + soDiscount x \<and>
          orderById s' i = Some (x\<lparr>soStatus := SO_PAID\<rparr>) \<and> variants s' = variants s"
        unfolding if_not_P [OF False] by (intro conjI exI [of _ w] w p(2,3) b' v(1) t orderById_paid [OF 1(1) o]) (simp add: others)
    qed
  qed (use 1 in auto)
qed





definition stale :: "clock \<Rightarrow> order_row \<Rightarrow> bool" where
  "stale c x \<longleftrightarrow> soStatus x = SO_PENDING_PAYMENT \<and> soCreated x < now c - 30 * 60 * 1000"

text \<open>No payment of the order \<open>i\<close> waits for an answer.\<close>

definition settled :: "nat \<Rightarrow> payment list \<Rightarrow> bool" where
  "settled i ps \<longleftrightarrow> (\<forall>p \<in> set ps. pyOrder p = Some i \<longrightarrow> pyStatus p \<noteq> PY_PENDING)"

lemma settled_failed: "settled i (payments s) \<Longrightarrow> settled i (payments (setPayments s q PY_FAILED))"
  by (auto simp: settled_def setPayments_def set_update_where)

lemma payments_release [simp]:
  "payments (releaseOrderWalletHold (releaseStock s its) i) =
   payments (setPayments s (\<lambda>p. pyOrder p = Some i \<and> pyMethod p = PM_WALLET \<and> pyStatus p = PY_PENDING) PY_FAILED)"
  by (simp add: releaseOrderWalletHold_def setPayments_def releaseStock_def)

lemma payments_close:
  "payments (closeUnpaid s x) = payments (setPayments
     (setPayments s (\<lambda>p. pyOrder p = Some (soId x) \<and> pyMethod p = PM_WALLET \<and> pyStatus p = PY_PENDING) PY_FAILED)
     (\<lambda>p. pyOrder p = Some (soId x) \<and> pyStatus p = PY_PENDING) PY_FAILED)"
  unfolding closeUnpaid_def setOrder_frame setPayments_def by (simp add: setPayments_def)

lemma settled_close: "settled (soId x) (payments (closeUnpaid s x))"
  by (auto simp: payments_close settled_def setPayments_def set_update_where)

lemma settled_close_keep: "settled i (payments s) \<Longrightarrow> settled i (payments (closeUnpaid s x))"
  by (simp add: payments_close settled_failed)

lemma expireOrder_orders:
  "orderById (expireOrder s x) i =
     (case orderById s i of None \<Rightarrow> None
      | Some y \<Rightarrow> Some (if i = soId x \<and> soStatus y = SO_PENDING_PAYMENT then y\<lparr>soStatus := SO_CANCELLED\<rparr> else y))"
proof -
  have "orderById (closeUnpaid s x) i =
      (if i = soId x then map_option (\<lambda>y. y\<lparr>soStatus := SO_CANCELLED\<rparr>) (orderById s i) else orderById s i)"
    by (rule orderById_status) (simp add: closeUnpaid_def setOrder_def releaseStock_def)
  then show ?thesis by (auto simp: expireOrder_def split: option.split)
qed

lemma settled_expire:
  "settled i (payments s) \<Longrightarrow> settled i (payments (expireOrder s x))"
  "soId x = i \<Longrightarrow> orderById s i = Some y \<Longrightarrow> soStatus y = SO_PENDING_PAYMENT \<Longrightarrow> settled i (payments (expireOrder s x))"
  by (auto simp: expireOrder_def settled_close_keep settled_close split: option.split)

lemma expire_fold:
  "orderById (foldl expireOrder s xs) i =
     (case orderById s i of None \<Rightarrow> None
      | Some y \<Rightarrow> Some (if i \<in> soId ` set xs \<and> soStatus y = SO_PENDING_PAYMENT then y\<lparr>soStatus := SO_CANCELLED\<rparr> else y))"
  "settled i (payments s) \<or> (\<exists>y. orderById s i = Some y \<and> soStatus y = SO_PENDING_PAYMENT) \<and> i \<in> soId ` set xs \<Longrightarrow>
     settled i (payments (foldl expireOrder s xs))"
proof (induction xs arbitrary: s)
  case (Cons x xs)
  { case 1 then show ?case using Cons.IH(1) by (auto simp: expireOrder_orders split: option.split) }
  { case 2
    then have "settled i (payments (expireOrder s x)) \<or>
        (\<exists>y. orderById (expireOrder s x) i = Some y \<and> soStatus y = SO_PENDING_PAYMENT) \<and> i \<in> soId ` set xs"
      by (cases "i = soId x") (auto simp: expireOrder_orders intro: settled_expire)
    then show ?case using Cons.IH(2) by simp }
qed (auto split: option.split)

text \<open>What the expiry of unpaid orders does. Exactly the orders that are unpaid for more than half an
hour are cancelled, all others stay as they are; no payment of a cancelled order waits any more, its
goods are back in stock, and no wallet and no account moves.\<close>

theorem unpaid_orders_expire:
  assumes ok: "shop_ok s"
  shows "(case orderById s i of
      None \<Rightarrow> orderById (expireStaleOrders s c) i = None
    | Some x \<Rightarrow>
        if stale c x
        then orderById (expireStaleOrders s c) i = Some (x\<lparr>soStatus := SO_CANCELLED\<rparr>) \<and>
             settled i (payments (expireStaleOrders s c))
        else orderById (expireStaleOrders s c) i = Some x) \<and>
    goods (expireStaleOrders s c) = goods s \<and>
    wallets (expireStaleOrders s c) = wallets s \<and> accounts (expireStaleOrders s c) = accounts s"
proof -
  have mem: "i \<in> soId ` set (filter (\<lambda>x. soStatus x = SO_PENDING_PAYMENT \<and>
        soCreated x < now c - PENDING_PAYMENT_TTL_MINUTES * 60 * 1000) (shopOrders s)) \<longleftrightarrow> stale c x"
    if x: "orderById s i = Some x" for x
  proof -
    have "y = x" if "y \<in> set (shopOrders s)" "soId y = i" for y
      using orderById_of [OF ok that(1)] that(2) x by simp
    then show ?thesis using orderById_in [OF x] by (auto simp: stale_def PENDING_PAYMENT_TTL_MINUTES_def)
  qed
  have "calm s (expireStaleOrders s c)" by (rule calm_expire)
  then have bank: "wallets (expireStaleOrders s c) = wallets s" "accounts (expireStaleOrders s c) = accounts s"
    by (simp_all add: calm_def)
  have "goods (expireStaleOrders s c) = goods s" by (rule moves_goods [OF expire_moves [OF ok] ok])
  then show ?thesis
    using bank mem expire_fold(1) [of s _ i] expire_fold(2) [of i s]
    by (auto simp: expireStaleOrders_def stale_def split: option.split)
qed

lemma unpaid_orders_expire_witness:
  "orderById (expireStaleOrders demoShop \<lparr>now = 3000000, today = 0, firstOfMonth = 0\<rparr>) 95 =
   Some (unpaidOrder\<lparr>soStatus := SO_CANCELLED\<rparr>)"
proof -
  have "orderById demoShop 95 = Some unpaidOrder" "stale \<lparr>now = 3000000, today = 0, firstOfMonth = 0\<rparr> unpaidOrder"
    by code_simp+
  then show ?thesis using unpaid_orders_expire [OF demoShop_ok(1), where i = 95 and c = "\<lparr>now = 3000000, today = 0, firstOfMonth = 0\<rparr>"]
    by simp
qed

text \<open>C19: Every order gets an end. Whatever calls came in between, the next run of the expiry job after
half an hour leaves no order unpaid: by then it was paid, cancelled, or the job cancels it and its goods
go back to stock.\<close>

theorem orders_get_an_end:
  assumes ok: "shop_ok s" and x: "orderById s i = Some x" "soCreated x < now c - 30 * 60 * 1000"
  shows "\<exists>st. orderById (run (shop_step env) s (ops @ [(c, ExpireStale)])) i = Some (x\<lparr>soStatus := st\<rparr>) \<and>
    st \<noteq> SO_PENDING_PAYMENT"
proof -
  let ?m = "run (shop_step env) s ops"
  have ok': "shop_ok ?m" by (rule shop_run.run_inv [OF ok])
  have "kept (shopOrders s) (shopOrders ?m)" using shop_lives.run_later [OF ok] by (simp add: shop_later_def)
  from kept_in [OF this] obtain y st where y: "y \<in> set (shopOrders ?m)" "y = x\<lparr>soStatus := st\<rparr>"
    using orderById_in [OF x(1)] by blast
  then have y': "orderById ?m i = Some y" using orderById_of [OF ok' y(1)] orderById_in [OF x(1)] by simp
  have r: "run (shop_step env) s (ops @ [(c, ExpireStale)]) = expireStaleOrders ?m c"
    by (cases env) (simp add: run_append try_step_def)
  show ?thesis
  proof (cases "stale c y")
    case True
    then show ?thesis using unpaid_orders_expire [OF ok', where i = i and c = c] y' y(2) by (auto simp: r intro!: exI [of _ SO_CANCELLED])
  next
    case False
    then show ?thesis using unpaid_orders_expire [OF ok', where i = i and c = c] y' y(2) x(2)
      by (auto simp: r stale_def intro!: exI [of _ st])
  qed
qed

lemma orders_get_an_end_witness:
  "\<exists>st. orderById (run (shop_step (id, id)) demoShop ([(deskClock, Checkout 11 80 None False None)] @
      [(\<lparr>now = 3000000, today = 0, firstOfMonth = 0\<rparr>, ExpireStale)])) 95 = Some (unpaidOrder\<lparr>soStatus := st\<rparr>) \<and>
    st \<noteq> SO_PENDING_PAYMENT"
  by (rule orders_get_an_end [OF demoShop_ok(1)]; code_simp)

lemma demo_paid: obtains s' where "payOrder id demoShop deskClock 11 95 BY_WALLET (Inr ''r'') = (s', Inr True)"
proof -
  have "(case payOrder id demoShop deskClock 11 95 BY_WALLET (Inr ''r'') of (_, Inr b) \<Rightarrow> b | _ \<Rightarrow> False)" by code_simp
  then show thesis using that by (auto split: prod.splits sum.splits)
qed

lemma demo_order: "orderById demoShop 95 = Some unpaidOrder"
  by code_simp

lemma wallet_payment_effect_witness:
  "\<exists>s'. payOrder id demoShop deskClock 11 95 BY_WALLET (Inr ''r'') = (s', Inr True) \<and>
     rialOf s' ''2010'' = rialOf demoShop ''2010'' - 500000"
proof (rule demo_paid)
  fix s' assume r: "payOrder id demoShop deskClock 11 95 BY_WALLET (Inr ''r'') = (s', Inr True)"
  have "soStatus unpaidOrder = SO_PENDING_PAYMENT" "soTotal unpaidOrder = 500000" by code_simp+
  then have "rialOf s' ''2010'' = rialOf demoShop ''2010'' - 500000"
    using wallet_payment_effect [OF demoShop_ok(1) r] unfolding demo_order by auto
  then show ?thesis using r by blast
qed


subsection \<open>Payments that go wrong\<close>

lemma find_update_keeps:
  assumes "find p xs = Some x" "\<not> q x" "\<And>y. q y \<Longrightarrow> \<not> p (f y)"
  shows "find p (update_where q f xs) = Some x"
  using assms(1,2) by (induction xs) (auto simp: assms(3) split: if_splits)

lemma find_none_update:
  assumes "find p xs = None" "\<And>y. q y \<Longrightarrow> \<not> p (f y)"
  shows "find p (update_where q f xs) = None"
  using assms(1) by (induction xs) (auto simp: assms(2) split: if_splits)

lemma tryInvoice_bank:
  fixes s :: "'a shop_scheme"
  shows "wallets (tryInvoice s i) = wallets s" "accounts (tryInvoice s i) = accounts s"
    "transactions (tryInvoice s i) = transactions s" "payments (tryInvoice s i) = payments s"
  using calm_tryInvoice [of s i]
  by (auto simp: calm_def tryInvoice_def issue_bank(3) same_shop_issue split: option.split sum.split)

text \<open>C36: A second payment of an order is kept unbooked. When the gateway confirms a payment of an order
that another payment has paid already, the payment counts as successful and the user is told so, but no
account, no wallet and no transaction changes: the money is neither booked nor given back.\<close>

theorem second_payment_unbooked:
  assumes p: "find (\<lambda>p. pyProvider p = Some provider \<and> pyRef p = Some ref) (payments s) = Some p"
      "pyOrder p = Some i" "pyStatus p = PY_PENDING"
    and x: "orderById s i = Some x" "soStatus x = SO_PAID"
    and leg: "find (\<lambda>q. pyOrder q = Some i \<and> pyMethod q = PM_WALLET \<and> pyStatus q = PY_PENDING) (payments s) = None"
    and w: "walletOfUser s (pyUser p) = Some w"
  shows "(case handleGatewayCallback prec s c provider ref True of (s', answer) \<Rightarrow>
     answer = Inr (True, False) \<and> list_ex (\<lambda>q. pyRef q = Some ref \<and> pyStatus q = PY_SUCCESS) (payments s') \<and>
     accounts s' = accounts s \<and> wallets s' = wallets s \<and> transactions s' = transactions s)"
proof -
  let ?s = "setPayments s (\<lambda>q. pyId q = pyId p) PY_SUCCESS"
  have "find (\<lambda>q. pyOrder q = Some i \<and> pyMethod q = PM_WALLET \<and> pyStatus q = PY_PENDING) (payments ?s) = None"
    unfolding setPayments_def by (simp add: find_none_update [OF leg])
  then have "takeWalletLeg ?s c p i = Inr (?s, wId w, 0)"
    using w by (simp add: takeWalletLeg_def walletOfUser_def)
  then have "finalizePayment prec s c p i = Inr ?s"
    using x by (simp add: finalizePayment_def orderById_def)
  then have r: "handleGatewayCallback prec s c provider ref True = (tryInvoice ?s i, Inr (True, False))"
    using p by (simp add: handleGatewayCallback_def)
  have "p \<in> set (payments s)" "pyRef p = Some ref" using find_SomeD [OF p(1)] by auto
  then have "list_ex (\<lambda>q. pyRef q = Some ref \<and> pyStatus q = PY_SUCCESS) (payments ?s)"
    by (auto simp: setPayments_def list_ex_iff set_update_where intro!: bexI [of _ "p\<lparr>pyStatus := PY_SUCCESS\<rparr>"])
  then show ?thesis by (simp add: r tryInvoice_bank)
qed

text \<open>Two payments of the order begun at the gateway, and the answer to the first.\<close>

definition paidTwice :: store where
  "paidTwice = run (shop_step (id, id)) demoShop (map (Pair deskClock)
     [Pay 11 95 (BY_GATEWAY ZARINPAL) (Inr ''a''), Pay 11 95 (BY_GATEWAY ZARINPAL) (Inr ''b''), Callback ZARINPAL ''a'' True])"

definition twiceFacts :: "store \<Rightarrow> payment option \<times> order_row option \<times> payment option \<times> wallet option" where
  "twiceFacts s =
     (find (\<lambda>p. pyProvider p = Some ZARINPAL \<and> pyRef p = Some ''b'') (payments s), orderById s 95,
      find (\<lambda>q. pyOrder q = Some 95 \<and> pyMethod q = PM_WALLET \<and> pyStatus q = PY_PENDING) (payments s),
      walletOfUser s 11)"

lemma second_payment_unbooked_witness:
  "snd (handleGatewayCallback id paidTwice deskClock ZARINPAL ''b'' True) = Inr (True, False) \<and>
   accounts (fst (handleGatewayCallback id paidTwice deskClock ZARINPAL ''b'' True)) = accounts paidTwice"
proof -
  let ?p = "\<lparr>pyId = 101, pyUser = 11, pyOrder = Some 95, pyRial = 500000, pyMethod = PM_BANK_GATEWAY,
      pyStatus = PY_PENDING, pyProvider = Some ZARINPAL, pyRef = Some ''b''\<rparr>"
  have "twiceFacts paidTwice = (Some ?p, Some (unpaidOrder\<lparr>soStatus := SO_PAID\<rparr>), None,
      Some \<lparr>wId = 21, wUser = 11, wCard = ''1'', wRial = 3000000, wGrams = 5\<rparr>)" by code_simp
  then have "find (\<lambda>p. pyProvider p = Some ZARINPAL \<and> pyRef p = Some ''b'') (payments paidTwice) = Some ?p"
    "pyOrder ?p = Some 95" "pyStatus ?p = PY_PENDING" "orderById paidTwice 95 = Some (unpaidOrder\<lparr>soStatus := SO_PAID\<rparr>)"
    "soStatus (unpaidOrder\<lparr>soStatus := SO_PAID\<rparr>) = SO_PAID"
    "find (\<lambda>q. pyOrder q = Some 95 \<and> pyMethod q = PM_WALLET \<and> pyStatus q = PY_PENDING) (payments paidTwice) = None"
    "walletOfUser paidTwice (pyUser ?p) = Some \<lparr>wId = 21, wUser = 11, wCard = ''1'', wRial = 3000000, wGrams = 5\<rparr>"
    unfolding twiceFacts_def prod.inject by simp_all
  from second_payment_unbooked [OF this, of id deskClock] show ?thesis by (auto split: prod.splits)
qed

text \<open>A confirmed payment can be lost. When an order is paid with the wallet and a gateway and the
gateway confirms after the hold on the wallet has ended, the call fails and leaves everything as it was:
the gateway has the money, the payment keeps waiting, and every later attempt fails in the same way.\<close>

theorem confirmed_payment_lost:
  assumes p: "find (\<lambda>p. pyProvider p = Some provider \<and> pyRef p = Some ref) (payments s) = Some p"
      "pyOrder p = Some i" "pyStatus p = PY_PENDING"
    and leg: "find (\<lambda>q. pyOrder q = Some i \<and> pyMethod q = PM_WALLET \<and> pyStatus q = PY_PENDING) (payments s) = Some leg"
      "pyId leg \<noteq> pyId p"
    and h: "case orderHold s i HOLD_ORDER of None \<Rightarrow> True | Some h \<Rightarrow> hExpires h \<le> now c"
  shows "handleGatewayCallback prec s c provider ref True = (s, Inl (Conflict ''hold missing or expired''))"
proof -
  let ?s = "setPayments s (\<lambda>q. pyId q = pyId p) PY_SUCCESS"
  have "find (\<lambda>q. pyOrder q = Some i \<and> pyMethod q = PM_WALLET \<and> pyStatus q = PY_PENDING) (payments ?s) = Some leg"
    using find_update_keeps [OF leg(1), of "\<lambda>q. pyId q = pyId p" "\<lambda>q. q\<lparr>pyStatus := PY_SUCCESS\<rparr>"] leg(2)
    by (simp add: setPayments_def)
  moreover have "orderHold ?s i HOLD_ORDER = orderHold s i HOLD_ORDER" by (simp add: orderHold_def)
  ultimately have "takeWalletLeg ?s c p i = Inl (Conflict ''hold missing or expired'')"
    using h by (cases "orderHold s i HOLD_ORDER") (simp_all add: takeWalletLeg_def)
  then show ?thesis using p by (simp add: handleGatewayCallback_def finalizePayment_def shopDbError_def)
qed

definition heldTooShort :: store where
  "heldTooShort = run (shop_step (id, id)) demoShop [(deskClock, Pay 11 95 (MIXED 200000 300000 ZARINPAL) (Inr ''a''))]"

definition heldFacts :: "store \<Rightarrow> payment option \<times> payment option \<times> bool" where
  "heldFacts s =
     (find (\<lambda>p. pyProvider p = Some ZARINPAL \<and> pyRef p = Some ''a'') (payments s),
      find (\<lambda>q. pyOrder q = Some 95 \<and> pyMethod q = PM_WALLET \<and> pyStatus q = PY_PENDING) (payments s),
      (case orderHold s 95 HOLD_ORDER of None \<Rightarrow> True
       | Some h \<Rightarrow> hExpires h \<le> now \<lparr>now = 1900000, today = 0, firstOfMonth = 0\<rparr>))"

lemma heldTooShort_facts:
  "heldFacts heldTooShort =
     (Some \<lparr>pyId = 102, pyUser = 11, pyOrder = Some 95, pyRial = 300000, pyMethod = PM_BANK_GATEWAY,
            pyStatus = PY_PENDING, pyProvider = Some ZARINPAL, pyRef = Some ''a''\<rparr>,
      Some \<lparr>pyId = 101, pyUser = 11, pyOrder = Some 95, pyRial = 200000, pyMethod = PM_WALLET,
            pyStatus = PY_PENDING, pyProvider = None, pyRef = None\<rparr>, True)"
  by code_simp

lemma confirmed_payment_lost_witness:
  "handleGatewayCallback id heldTooShort \<lparr>now = 1900000, today = 0, firstOfMonth = 0\<rparr> ZARINPAL ''a'' True =
   (heldTooShort, Inl (Conflict ''hold missing or expired''))"
proof (rule confirmed_payment_lost)
  note f = heldTooShort_facts [unfolded heldFacts_def prod.inject]
  show "find (\<lambda>p. pyProvider p = Some ZARINPAL \<and> pyRef p = Some ''a'') (payments heldTooShort) =
      Some \<lparr>pyId = 102, pyUser = 11, pyOrder = Some 95, pyRial = 300000, pyMethod = PM_BANK_GATEWAY,
            pyStatus = PY_PENDING, pyProvider = Some ZARINPAL, pyRef = Some ''a''\<rparr>" using f by blast
  show "find (\<lambda>q. pyOrder q = Some 95 \<and> pyMethod q = PM_WALLET \<and> pyStatus q = PY_PENDING) (payments heldTooShort) =
      Some \<lparr>pyId = 101, pyUser = 11, pyOrder = Some 95, pyRial = 200000, pyMethod = PM_WALLET,
            pyStatus = PY_PENDING, pyProvider = None, pyRef = None\<rparr>" using f by blast
  show "case orderHold heldTooShort 95 HOLD_ORDER of None \<Rightarrow> True
      | Some h \<Rightarrow> hExpires h \<le> now \<lparr>now = 1900000, today = 0, firstOfMonth = 0\<rparr>" using f by blast
qed simp_all


end
