(* ===== verification/StoreProps.thy ===== *)
theory StoreProps
  imports ShopProps
begin

section \<open>The properties of cart and delivery\<close>

text \<open>
  What adding to the cart does and what price it locks; who gets an order handed over, how often a
  delivery code can be tried, and the forms of codes and mobile numbers.
\<close>

subsection \<open>The delivery code\<close>

lemma rev_update_where: "rev (update_where p f xs) = update_where p f (rev xs)"
  by (simp add: update_where_def rev_map)

lemma shipmentOf_set:
  assumes "shipmentOf s i = Some h" "\<And>y. shOrder (f y) = shOrder y"
  shows "shipmentOf (setShipment s (shId h) f) i = Some (f h)"
  unfolding shipmentOf_def setShipment_def
  by (simp add: rev_update_where) (rule find_update_hit, use assms in \<open>simp_all add: shipmentOf_def\<close>)

lemma orderById_setShipment [simp]: "orderById (setShipment s j f) i = orderById s i"
  by (simp add: orderById_def setShipment_def)

text \<open>Tries to hand the order over, by staff or courier, each with a code.\<close>

fun tries :: "'a store_scheme \<Rightarrow> nat \<Rightarrow> (clock \<times> nat list option \<times> confirm_via) list \<Rightarrow> 'a store_scheme" where
  "tries s i [] = s"
| "tries s i ((c, code, via) # ts) = tries (fst (confirmDelivery s c i code via)) i ts"

definition wrongTry :: "nat list \<Rightarrow> clock \<times> nat list option \<times> confirm_via \<Rightarrow> bool" where
  "wrongTry k t \<longleftrightarrow> (case t of (_, code, via) \<Rightarrow> via \<noteq> ADMIN_OVERRIDE \<and> givenDigits code \<noteq> k)"

lemma tries_wrong:
  assumes "orderById s i = Some x" "soStatus x = SO_SHIPPED" "shipmentOf s i = Some h" "shCode h = Some k"
    and "list_all (wrongTry k) ts" "shAttempts h \<le> 5"
  shows "orderById (tries s i ts) i = Some x \<and>
    shipmentOf (tries s i ts) i = Some (h\<lparr>shAttempts := min 5 (shAttempts h + int (length ts))\<rparr>)"
  using assms
proof (induction ts arbitrary: s h)
  case Nil
  then show ?case by simp
next
  case (Cons t ts)
  obtain c code via where t: "t = (c, code, via)" by (cases t)
  have w: "via \<noteq> ADMIN_OVERRIDE" "givenDigits code \<noteq> k" using Cons.prems(5) by (auto simp: t wrongTry_def)
  let ?f = "\<lambda>y. y\<lparr>shAttempts := shAttempts y + 1\<rparr>"
  show ?case
  proof (cases "shAttempts h = 5")
    case True
    then have "fst (confirmDelivery s c i code via) = s"
      using Cons.prems w by (simp add: confirmDelivery_def MAX_DELIVERY_CODE_ATTEMPTS_def)
    moreover have "min 5 (shAttempts h + int (length ts)) = min 5 (shAttempts h + int (length (t # ts)))"
      using True by simp
    ultimately show ?thesis using Cons.IH [OF Cons.prems(1-4) _ Cons.prems(6)] Cons.prems(5) by (simp add: t)
  next
    case False
    then have r: "fst (confirmDelivery s c i code via) = setShipment s (shId h) ?f"
      using Cons.prems w by (simp add: confirmDelivery_def MAX_DELIVERY_CODE_ATTEMPTS_def)
    have h: "shipmentOf (setShipment s (shId h) ?f) i = Some (?f h)" by (rule shipmentOf_set [OF Cons.prems(3)]) simp
    have "orderById (tries (setShipment s (shId h) ?f) i ts) i = Some x \<and>
        shipmentOf (tries (setShipment s (shId h) ?f) i ts) i =
          Some ((?f h)\<lparr>shAttempts := min 5 (shAttempts (?f h) + int (length ts))\<rparr>)"
      by (rule Cons.IH [OF _ Cons.prems(2) h]) (use Cons.prems False in simp_all)
    moreover have "(?f h)\<lparr>shAttempts := min 5 (shAttempts (?f h) + int (length ts))\<rparr> =
        h\<lparr>shAttempts := min 5 (shAttempts h + int (length (t # ts)))\<rparr>" by (simp add: algebra_simps)
    ultimately show ?thesis by (simp only: t tries.simps r)
  qed
qed

text \<open>C24: A delivery code cannot be guessed by trying. After five wrong codes for an order on its way, by
staff or through the courier's link and however they are mixed, every further code is refused, the
right one too, and the order is not handed over; only a new code or an override of staff helps.\<close>

theorem five_guesses:
  assumes "orderById s i = Some x" "soStatus x = SO_SHIPPED" "shipmentOf s i = Some h" "shCode h = Some k"
    and "0 \<le> shAttempts h" "shAttempts h \<le> 5" and "list_all (wrongTry k) ts" "5 \<le> length ts" and "via \<noteq> ADMIN_OVERRIDE"
  shows "confirmDelivery (tries s i ts) c i code via = (tries s i ts, Inl (Forbidden ''code locked'')) \<and>
    orderById (tries s i ts) i = Some x"
proof -
  note t = tries_wrong [OF assms(1-4,7,6)]
  have "min 5 (shAttempts h + int (length ts)) = 5" using assms(5,8) by simp
  with t have "shipmentOf (tries s i ts) i = Some (h\<lparr>shAttempts := 5\<rparr>)" by simp
  then show ?thesis using t assms(2,4,9) by (simp add: confirmDelivery_def MAX_DELIVERY_CODE_ATTEMPTS_def)
qed

text \<open>The demo order, sent with the code 000042.\<close>

definition sentShop :: store where
  "sentShop = demoShop
     \<lparr>nextId := 101, shopOrders := [unpaidOrder\<lparr>soStatus := SO_SHIPPED\<rparr>],
      shipments := [\<lparr>shId = 100, shOrder = 95, shMethod = 1, shTracking = None, shPhone = None,
        shCode = Some (deliveryDigits 42), shAttempts = 0, shToken = None, shExpires = None,
        shStatus = IN_TRANSIT, shVia = None, shDelivered = None\<rparr>]\<rparr>"

lemma five_guesses_witness:
  "snd (confirmDelivery (tries sentShop 95 (replicate 5 (deskClock, Some [49], DELIVERY_CODE))) deskClock 95
     (Some (deliveryDigits 42)) COURIER_LINK) = Inl (Forbidden ''code locked'')"
proof -
  let ?h = "\<lparr>shId = 100, shOrder = 95, shMethod = 1, shTracking = None, shPhone = None,
        shCode = Some (deliveryDigits 42), shAttempts = 0, shToken = None, shExpires = None,
        shStatus = IN_TRANSIT, shVia = None, shDelivered = None\<rparr>"
  have "orderById sentShop 95 = Some (unpaidOrder\<lparr>soStatus := SO_SHIPPED\<rparr>)" "soStatus (unpaidOrder\<lparr>soStatus := SO_SHIPPED\<rparr>) = SO_SHIPPED"
    "shipmentOf sentShop 95 = Some ?h" "shCode ?h = Some (deliveryDigits 42)"
    "0 \<le> shAttempts ?h" "shAttempts ?h \<le> 5"
    "list_all (wrongTry (deliveryDigits 42)) (replicate 5 (deskClock, Some [49], DELIVERY_CODE))"
    "5 \<le> length (replicate 5 (deskClock, Some [49 :: nat], DELIVERY_CODE))" "COURIER_LINK \<noteq> ADMIN_OVERRIDE"
    by code_simp+
  from five_guesses [OF this] show ?thesis by simp
qed

text \<open>C25: An order is handed over only to who has the code. When a code is needed and staff do not override,
a successful confirmation had exactly the digits that were sent to the customer, with fewer than five wrong
ones before, for an order on its way; then the order is delivered, the link of the courier ends, and no
wallet, account or stock changes.\<close>

theorem handed_over_with_code:
  assumes r: "confirmDelivery s c i code via = (s', Inr False)" and v: "via \<noteq> ADMIN_OVERRIDE"
    and ok: "shop_ok s" and h: "shipmentOf s i = Some h" "shCode h = Some k"
  shows "\<exists>x. orderById s i = Some x \<and> soStatus x = SO_SHIPPED \<and> givenDigits code = k \<and> shAttempts h < 5 \<and>
    orderById s' i = Some (x\<lparr>soStatus := SO_DELIVERED\<rparr>) \<and>
    (\<exists>h'. shipmentOf s' i = Some h' \<and> shStatus h' = DELIVERED \<and> shVia h' = Some via \<and> shExpires h' = Some (now c)) \<and>
    wallets s' = wallets s \<and> accounts s' = accounts s \<and> variants s' = variants s"
proof -
  obtain x where x: "orderById s i = Some x" "soStatus x = SO_SHIPPED"
    using r by (auto simp: confirmDelivery_def split: option.splits if_splits)
  let ?f = "\<lambda>y. y\<lparr>shStatus := DELIVERED, shDelivered := Some (now c), shVia := Some via, shExpires := Some (now c)\<rparr>"
  have s': "s' = setOrder (setShipment s (shId h) ?f) i (\<lambda>y. y\<lparr>soStatus := SO_DELIVERED\<rparr>)"
    and k: "givenDigits code = k" "shAttempts h < 5"
    using r v h x by (auto simp: confirmDelivery_def MAX_DELIVERY_CODE_ATTEMPTS_def split: if_splits)
  have "shipmentOf (setShipment s (shId h) ?f) i = Some (?f h)" by (rule shipmentOf_set [OF h(1)]) simp
  then have sh: "shipmentOf s' i = Some (?f h)" by (simp add: s' shipmentOf_def setOrder_def)
  have o: "orderById s' i = Some (x\<lparr>soStatus := SO_DELIVERED\<rparr>)"
    by (rule orderById_paid [OF x(1)]) (simp add: s' setOrder_def setShipment_def)
  have "wallets s' = wallets s" "accounts s' = accounts s" "variants s' = variants s"
    by (simp_all add: s' setShipment_def)
  then show ?thesis using x k sh o by simp
qed

lemma handed_over_with_code_witness:
  "orderById (fst (confirmDelivery sentShop deskClock 95 (Some [1776, 48, 48, 48, 52, 1778]) COURIER_LINK)) 95 =
     Some (unpaidOrder\<lparr>soStatus := SO_DELIVERED\<rparr>)"
proof -
  have ok: "shop_ok sentShop"
    by (simp add: sentShop_def demoShop_def shop_ok_def bank_ok_def cogs_clean_def wf_bank_def wf_except_def wf_ledger_def
      wf_accounts_def wf_wallets_def wf_requests_def wf_holds_def demoAccount_def on_grid_def orders_ok_def order_ok_def
      unpaidOrder_def demoItem_def holds_ok_def inputs_ok_def variants_ok_def getNumber_def)
  let ?h = "\<lparr>shId = 100, shOrder = 95, shMethod = 1, shTracking = None, shPhone = None,
        shCode = Some (deliveryDigits 42), shAttempts = 0, shToken = None, shExpires = None,
        shStatus = IN_TRANSIT, shVia = None, shDelivered = None\<rparr>"
  have h: "shipmentOf sentShop 95 = Some ?h" "shCode ?h = Some (deliveryDigits 42)" by code_simp+
  have o: "orderById sentShop 95 = Some (unpaidOrder\<lparr>soStatus := SO_SHIPPED\<rparr>)" by code_simp
  have "snd (confirmDelivery sentShop deskClock 95 (Some [1776, 48, 48, 48, 52, 1778]) COURIER_LINK) = Inr False"
    by code_simp
  then have r: "confirmDelivery sentShop deskClock 95 (Some [1776, 48, 48, 48, 52, 1778]) COURIER_LINK =
      (fst (confirmDelivery sentShop deskClock 95 (Some [1776, 48, 48, 48, 52, 1778]) COURIER_LINK), Inr False)"
    by (metis prod.collapse)
  from handed_over_with_code [OF r _ ok h] o show ?thesis by auto
qed

lemma latin_digits: "list_all isLatinDigit (latin n)"
proof (induction n rule: latin.induct)
  case (1 n)
  then show ?case by (subst latin.simps) (auto simp: list_all_iff isLatinDigit_def)
qed

lemma latin_value: "foldl (\<lambda>r d. r * 10 + (d - 48)) 0 (latin n) = n"
proof (induction n rule: latin.induct)
  case (1 n)
  then show ?case by (subst latin.simps) simp
qed

lemma latin_length: "n < 10 ^ Suc k \<Longrightarrow> length (latin n) \<le> Suc k"
proof (induction k arbitrary: n)
  case 0
  then show ?case by (subst latin.simps) simp
next
  case (Suc k)
  then have "n div 10 < 10 ^ Suc k" by simp
  then show ?case using Suc.IH [of "n div 10"] by (subst latin.simps) simp
qed

lemma foldl_leading_zeros: "foldl (\<lambda>r d. r * 10 + (d - 48)) 0 (replicate m 48 @ ds) = foldl (\<lambda>r d. r * 10 + (d - 48)) (0::nat) ds"
  by (induction m) simp_all

text \<open>Every number drawn below a million gives a different code of six digits, and a customer who types
the code, in Latin or Persian digits and with spaces or dashes in between, gives exactly these digits.\<close>

theorem delivery_codes_distinct:
  assumes "m < 1000000" and "n < 1000000"
  shows "length (deliveryDigits m) = 6 \<and> (deliveryDigits m = deliveryDigits n \<longrightarrow> m = n) \<and>
    givenDigits (Some (deliveryDigits m)) = deliveryDigits m \<and>
    givenDigits (Some (toPersianDigits (deliveryDigits m))) = deliveryDigits m \<and>
    givenDigits (Some (take 3 (deliveryDigits m) @ [32, 45] @ drop 3 (deliveryDigits m))) = deliveryDigits m"
proof -
  have l: "length (latin m) \<le> 6" using latin_length [of m 5] assms(1) by simp
  have d: "\<forall>x \<in> set (deliveryDigits m). isLatinDigit x"
    using latin_digits [of m] by (auto simp: deliveryDigits_def list_all_iff isLatinDigit_def)
  have v: "foldl (\<lambda>r d. r * 10 + (d - 48)) 0 (deliveryDigits k) = k" for k
    unfolding deliveryDigits_def foldl_leading_zeros latin_value ..
  have g: "givenDigits (Some xs) = xs" if "\<forall>x \<in> set xs. isLatinDigit x" for xs
    using that by (induction xs) (auto simp: givenDigits_def isLatinDigit_def isPersianDigit_def)
  have p: "givenDigits (Some (toPersianDigits xs)) = xs" if "\<forall>x \<in> set xs. isLatinDigit x" for xs
    using that by (induction xs) (auto simp: givenDigits_def toPersianDigits_def isLatinDigit_def isPersianDigit_def)
  have a: "givenDigits (Some (xs @ [32, 45] @ ys)) = givenDigits (Some xs) @ givenDigits (Some ys)" for xs ys
    by (simp add: givenDigits_def isLatinDigit_def isPersianDigit_def)
  have "\<forall>x \<in> set (take 3 (deliveryDigits m)). isLatinDigit x" "\<forall>x \<in> set (drop 3 (deliveryDigits m)). isLatinDigit x"
    using d in_set_takeD in_set_dropD by metis+
  then have s: "givenDigits (Some (take 3 (deliveryDigits m) @ [32, 45] @ drop 3 (deliveryDigits m))) = deliveryDigits m"
    unfolding a by (simp only: g append_take_drop_id)
  have "length (deliveryDigits m) = 6" using l by (simp add: deliveryDigits_def)
  moreover have "deliveryDigits m = deliveryDigits n \<longrightarrow> m = n" using v [of m] v [of n] by metis
  ultimately show ?thesis using g [OF d] p [OF d] s by blast
qed

lemma delivery_codes_distinct_witness:
  "deliveryDigits 42 = [48, 48, 48, 48, 52, 50] \<and> deliveryDigits 42 \<noteq> deliveryDigits 43"
proof -
  have "deliveryDigits 42 = [48, 48, 48, 48, 52, 50]" by code_simp
  moreover have "(42::nat) < 1000000" "(43::nat) < 1000000" by simp_all
  ultimately show ?thesis using delivery_codes_distinct [of 42 43] by auto
qed

lemma filter_latin_id: "list_all isLatinDigit xs \<Longrightarrow> filter isLatinDigit (toEnglishDigits xs) = xs"
  by (induction xs) (auto simp: toEnglishDigits_def isLatinDigit_def isPersianDigit_def isArabicDigit_def)

text \<open>A mobile number has one normal form: whatever is typed, the result starts with 09, has eleven Latin
digits, and is its own normal form; the four ways to write a number (09, 9, 98 and 0098 in front) agree.\<close>

theorem mobile_normal_form:
  "(normalizeIranMobile raw = Some m \<longrightarrow>
      length m = 11 \<and> take 2 m = [48, 57] \<and> list_all isLatinDigit m \<and> normalizeIranMobile m = Some m) \<and>
   (list_all isLatinDigit ds \<and> length ds = 9 \<longrightarrow>
      (\<forall>prefix \<in> {[48, 57], [57], [57, 56, 57], [48, 48, 57, 56, 57]}.
         normalizeIranMobile (prefix @ ds) = Some ([48, 57] @ ds)))"
proof (intro conjI impI)
  assume m: "normalizeIranMobile raw = Some m"
  then show "length m = 11" "take 2 m = [48, 57]" "list_all isLatinDigit m"
    by (auto simp: normalizeIranMobile_def Let_def split: if_splits)
  then obtain a where a: "m = 48 # 57 # a" "length a = 9" "list_all isLatinDigit a"
    by (cases m; cases "tl m") auto
  have "filter isLatinDigit (toEnglishDigits m) = m" by (rule filter_latin_id) fact
  then show "normalizeIranMobile m = Some m" using a by (simp add: normalizeIranMobile_def isLatinDigit_def)
next
  assume d: "list_all isLatinDigit ds \<and> length ds = 9"
  have l: "filter isLatinDigit (toEnglishDigits (p @ ds)) = p @ ds" if "list_all isLatinDigit p" for p
    by (rule filter_latin_id) (use d that in simp)
  have "list_all isLatinDigit [48, 57]" "list_all isLatinDigit [57]" "list_all isLatinDigit [57, 56, 57]"
    "list_all isLatinDigit [48, 48, 57, 56, 57]" by (simp_all add: isLatinDigit_def)
  note l' = this [THEN l]
  show "\<forall>prefix \<in> {[48, 57], [57], [57, 56, 57], [48, 48, 57, 56, 57]}.
      normalizeIranMobile (prefix @ ds) = Some ([48, 57] @ ds)"
    using d unfolding normalizeIranMobile_def Let_def
    by (simp add: l' [simplified] isLatinDigit_def)
qed

lemma mobile_normal_form_witness:
  "normalizeIranMobile [1785, 49, 50, 51, 52, 53, 54, 55, 56, 57] = Some [48, 57, 49, 50, 51, 52, 53, 54, 55, 56, 57] \<and>
   normalizeIranMobile [48, 57, 49, 50, 51, 52, 53, 54, 55, 56, 57] = Some [48, 57, 49, 50, 51, 52, 53, 54, 55, 56, 57]"
proof -
  have "normalizeIranMobile [1785, 49, 50, 51, 52, 53, 54, 55, 56, 57] = Some [48, 57, 49, 50, 51, 52, 53, 54, 55, 56, 57]"
    by code_simp
  then show ?thesis using mobile_normal_form by blast
qed

subsection \<open>Filling the cart\<close>

definition cart_ok :: "'a shop_scheme \<Rightarrow> bool" where
  "cart_ok s \<longleftrightarrow> distinct (map ciId (cartItems s)) \<and>
     (\<forall>x \<in> set (cartItems s). ciId x < nextId s \<and> (ciVariant x = None) = (ciProduct x \<noteq> None))"

definition inCart :: "cart_item list \<Rightarrow> nat \<Rightarrow> nat \<Rightarrow> int" where
  "inCart cs u v = sum_where (\<lambda>i. ciUser i = u \<and> ciVariant i = Some v) ciQuantity cs"

lemma sum_where_split:
  fixes f :: "'r \<Rightarrow> int"
  assumes "distinct (map k xs)" "x \<in> set xs" "p x"
  shows "sum_where p f xs = f x + sum_where (\<lambda>i. p i \<and> k i \<noteq> k x) f xs"
  using assms
proof (induction xs)
  case (Cons y ys)
  show ?case
  proof (cases "y = x")
    case True
    then have "sum_where (\<lambda>i. p i \<and> k i \<noteq> k x) f ys = sum_where p f ys"
      using Cons.prems(1) by (intro sum_where_cong) (auto simp: image_iff)
    then show ?thesis using True Cons.prems(3) by simp
  next
    case False
    then have "k y \<noteq> k x" using Cons.prems(1,2) by (auto simp: image_iff)
    then show ?thesis using Cons False by simp
  qed
qed simp

lemma inCart_update:
  assumes d: "distinct (map ciId cs)" and x: "x \<in> set cs" "ciUser x = u" "ciVariant x = Some v"
  shows "inCart (update_where (\<lambda>y. ciId y = ciId x) (\<lambda>y. y\<lparr>ciQuantity := q\<rparr>) cs) u v =
    sum_where (\<lambda>i. ciUser i = u \<and> ciVariant i = Some v \<and> Some (ciId i) \<noteq> Some (ciId x)) ciQuantity cs + q"
proof -
  have f: "find (\<lambda>y. ciId y = ciId x) cs = Some x" by (rule find_unique [OF d x(1)])
  show ?thesis unfolding inCart_def sum_where_update_key [OF d f]
    using sum_where_split [OF d x(1), of "\<lambda>i. ciUser i = u \<and> ciVariant i = Some v" ciQuantity] x(2,3) by (simp add: conj_assoc)
qed

lemma inCart_delete:
  "(\<forall>i \<in> set cs. 0 < ciQuantity i) \<Longrightarrow> inCart (delete_where p cs) u v \<le> inCart cs u v"
  by (induction cs) (auto simp: inCart_def delete_where_def)

lemma itemById_of: "cart_ok s \<Longrightarrow> x \<in> set (cartItems s) \<Longrightarrow> itemById s (ciId x) = Some x"
  unfolding itemById_def cart_ok_def by (auto intro: find_unique)

lemma cart_ok_setItem:
  assumes "cart_ok s" "\<And>x. ciId (f x) = ciId x" "\<And>x. ciVariant (f x) = ciVariant x" "\<And>x. ciProduct (f x) = ciProduct x"
  shows "cart_ok (setItem s i f)"
  using assms unfolding cart_ok_def setItem_def by (auto simp: set_update_where)

lemma cart_ok_add:
  assumes "cart_ok s" "ciId x = nextId s" "(ciVariant x = None) = (ciProduct x \<noteq> None)"
  shows "cart_ok (addCartItem s x)"
  using assms by (auto simp: cart_ok_def addCartItem_def)

text \<open>What adding does before the price is locked: \<open>x\<close> is the item.\<close>

definition added :: "'a shop_scheme \<Rightarrow> nat \<Rightarrow> cart_input \<Rightarrow> 'a shop_scheme \<Rightarrow> cart_item \<Rightarrow> bool" where
  "added s u d s' x \<longleftrightarrow> x \<in> set (cartItems s') \<and> cart_ok s' \<and> ciUser x = u \<and> caQuantity d \<le> ciQuantity x \<and>
     ciVariant x = caVariant d \<and> (caVariant d = None \<longrightarrow> ciProduct x = caProduct d) \<and>
     filter (\<lambda>y. ciUser y \<noteq> u) (cartItems s') = filter (\<lambda>y. ciUser y \<noteq> u) (cartItems s) \<and>
     variants s' = variants s \<and> products s' = products s"

lemma filter_update_keep:
  "(\<And>y. y \<in> set xs \<Longrightarrow> q y \<Longrightarrow> \<not> p y \<and> \<not> p (f y)) \<Longrightarrow> filter p (update_where q f xs) = filter p xs"
  by (induction xs) auto

lemma filter_delete_keep: "(\<And>y. p y \<Longrightarrow> \<not> q y) \<Longrightarrow> filter p (delete_where q xs) = filter p xs"
  by (induction xs) (auto simp: delete_where_def)

lemma added_set:
  assumes c: "cart_ok s" and x: "x \<in> set (cartItems s)" "ciUser x = u" "caQuantity d \<le> q"
    "ciVariant x = caVariant d" "caVariant d = None \<longrightarrow> ciProduct x = caProduct d"
  shows "added s u d (setItem s (ciId x) (\<lambda>y. y\<lparr>ciQuantity := q\<rparr>)) (x\<lparr>ciQuantity := q\<rparr>)"
proof -
  have "inj_on ciId (set (cartItems s))" using c by (simp add: cart_ok_def distinct_map)
  then have u: "ciUser y = u" if "y \<in> set (cartItems s)" "ciId y = ciId x" for y
  proof -
    have "y = x" by (rule inj_onD [OF _ that(2,1) x(1)]) fact
    then show ?thesis by (simp add: x(2))
  qed
  have f: "filter (\<lambda>y. ciUser y \<noteq> u) (update_where (\<lambda>y. ciId y = ciId x) (\<lambda>y. y\<lparr>ciQuantity := q\<rparr>) (cartItems s)) =
      filter (\<lambda>y. ciUser y \<noteq> u) (cartItems s)"
    by (rule filter_update_keep) (simp add: u)
  have "x\<lparr>ciQuantity := q\<rparr> \<in> set (cartItems (setItem s (ciId x) (\<lambda>y. y\<lparr>ciQuantity := q\<rparr>)))"
    using x(1) by (auto simp: setItem_def set_update_where image_iff)
  moreover have "cart_ok (setItem s (ciId x) (\<lambda>y. y\<lparr>ciQuantity := q\<rparr>))" by (rule cart_ok_setItem [OF c]) simp_all
  ultimately show ?thesis using f x by (simp add: added_def) (simp add: setItem_def)
qed

lemma added_new:
  assumes c: "cart_ok s" and x: "ciId x = nextId s" "(ciVariant x = None) = (ciProduct x \<noteq> None)" "ciUser x = u"
    "ciQuantity x = caQuantity d" "ciVariant x = caVariant d" "caVariant d = None \<longrightarrow> ciProduct x = caProduct d"
  shows "added s u d (addCartItem s x) x"
  using cart_ok_add [OF c x(1,2)] x by (simp add: added_def) (simp add: addCartItem_def)

lemma addFixed_added:
  assumes c: "cart_ok s" and q: "\<forall>i \<in> set (cartItems s). 0 < ciQuantity i" "0 < caQuantity d" and v: "caVariant d = Some v"
    and r: "addFixedVariantItem s u d v = Inr (s1, i)"
  shows "\<exists>x y. added s u d s1 x \<and> ciId x = i \<and> variantById s v = Some y \<and> inCart (cartItems s1) u v \<le> vaStock y"
proof -
  obtain y pk where y: "variantById s v = Some y" and pk: "resolvePackagingSelection s (vaProduct y) (caPackaging d) = Inr pk"
    using r by (auto simp: addFixedVariantItem_def)
  define old where "old = find (\<lambda>i. ciUser i = u \<and> ciVariant i = Some v \<and> ciPackaging i = pk) (cartItems s)"
  show ?thesis
  proof (cases old)
    case None
    let ?x = "\<lparr>ciId = nextId s, ciUser = u, ciVariant = Some v, ciProduct = None, ciQuantity = caQuantity d, ciPrice = None,
        ciExpires = None, ciWeight = None, ciBreakdown = [], ciPackaging = pk\<rparr>"
    have s1: "s1 = addCartItem s ?x" "i = nextId s" and st: "otherLinesQuantity s u v None + caQuantity d \<le> vaStock y"
      using r y pk None by (auto simp: addFixedVariantItem_def Let_def old_def [symmetric] simp del: not_None_eq)
    have "added s u d s1 ?x" unfolding s1 by (rule added_new [OF c]) (simp_all add: v)
    moreover have "inCart (cartItems s1) u v = otherLinesQuantity s u v None + caQuantity d"
      by (simp add: s1 addCartItem_def inCart_def otherLinesQuantity_def)
    ultimately show ?thesis using st y s1(2) by (intro exI [of _ ?x] exI [of _ y]) simp
  next
    case (Some x)
    then have x: "x \<in> set (cartItems s)" "ciUser x = u" "ciVariant x = Some v"
      unfolding old_def by (auto dest: find_SomeD)
    let ?q = "ciQuantity x + caQuantity d"
    have s1: "s1 = setItem s (ciId x) (\<lambda>y. y\<lparr>ciQuantity := ?q\<rparr>)" "i = ciId x"
      and st: "otherLinesQuantity s u v (Some (ciId x)) + ?q \<le> vaStock y"
      using r y pk Some by (auto simp: addFixedVariantItem_def Let_def old_def [symmetric] simp del: not_None_eq)
    have "added s u d s1 (x\<lparr>ciQuantity := ?q\<rparr>)"
      unfolding s1(1) by (rule added_set [OF c x(1,2)]) (use q x v in auto)
    moreover have "inCart (cartItems s1) u v = otherLinesQuantity s u v (Some (ciId x)) + ?q"
      using inCart_update [of "cartItems s" x u v ?q] c x by (simp add: s1 setItem_def otherLinesQuantity_def cart_ok_def)
    ultimately show ?thesis using st y s1(2) by (intro exI [of _ "x\<lparr>ciQuantity := ?q\<rparr>"] exI [of _ y]) simp
  qed
qed

lemma addRange_added:
  assumes c: "cart_ok s" and q: "\<forall>i \<in> set (cartItems s). 0 < ciQuantity i" "0 < caQuantity d"
    and v: "caVariant d = None" "caProduct d = Some p" and r: "addWeightRangeItem s u d p = Inr (s1, i)"
  shows "(\<exists>x. added s u d s1 x \<and> ciId x = i) \<and> productById s p \<noteq> None"
proof -
  obtain w y pk where w: "caWeight d = Some w" "activeProduct s p = Some y"
    and pk: "resolvePackagingSelection s p (caPackaging d) = Inr pk"
    using r by (auto simp: addWeightRangeItem_def)
  define old where "old = find (\<lambda>i. ciUser i = u \<and> ciProduct i = Some p \<and> ciWeight i = Some w \<and> ciPackaging i = pk) (cartItems s)"
  have n: "productById s p \<noteq> None" using w(2) by (auto simp: activeProduct_def split: option.splits)
  have "\<exists>x. added s u d s1 x \<and> ciId x = i"
  proof (cases old)
    case None
    let ?x = "\<lparr>ciId = nextId s, ciUser = u, ciVariant = None, ciProduct = Some p, ciQuantity = caQuantity d, ciPrice = None,
        ciExpires = None, ciWeight = Some (numeric4 w), ciBreakdown = [], ciPackaging = pk\<rparr>"
    have s1: "s1 = addCartItem s ?x" "i = nextId s"
      using r w pk None by (auto simp: addWeightRangeItem_def old_def [symmetric] simp del: not_None_eq)
    have "added s u d s1 ?x" unfolding s1 by (rule added_new [OF c]) (simp_all add: v)
    then show ?thesis using s1(2) by (intro exI [of _ ?x]) simp
  next
    case (Some x)
    then have x: "x \<in> set (cartItems s)" "ciUser x = u" "ciProduct x = Some p"
      unfolding old_def by (auto dest: find_SomeD)
    let ?q = "ciQuantity x + caQuantity d"
    have s1: "s1 = setItem s (ciId x) (\<lambda>y. y\<lparr>ciQuantity := ciQuantity y + caQuantity d\<rparr>)" "i = ciId x"
      using r w pk Some by (auto simp: addWeightRangeItem_def old_def [symmetric] simp del: not_None_eq)
    have "ciQuantity y = ciQuantity x" if "y \<in> set (cartItems s)" "ciId y = ciId x" for y
    proof -
      have "y = x" by (rule inj_onD [OF _ that(2,1) x(1)]) (use c in \<open>simp add: cart_ok_def distinct_map\<close>)
      then show ?thesis by simp
    qed
    then have "setItem s (ciId x) (\<lambda>y. y\<lparr>ciQuantity := ciQuantity y + caQuantity d\<rparr>) =
        setItem s (ciId x) (\<lambda>y. y\<lparr>ciQuantity := ?q\<rparr>)"
      unfolding setItem_def update_where_def by (auto intro!: arg_cong2 [where f = cartItems_update] ext map_cong)
    then have "added s u d s1 (x\<lparr>ciQuantity := ?q\<rparr>)"
      unfolding s1(1) using added_set [OF c x(1,2), of d ?q] q x v c by (auto simp: cart_ok_def)
    then show ?thesis using s1(2) by (intro exI [of _ "x\<lparr>ciQuantity := ?q\<rparr>"]) simp
  qed
  then show ?thesis using n by blast
qed

lemma lock_shape:
  assumes "itemById s i = Some x"
    and "case ciVariant x of Some v \<Rightarrow> variantById s v \<noteq> None | None \<Rightarrow> ciProduct x \<noteq> None"
  obtains p a b where "lockPriceForItem prec s c i = setItem (s\<lparr>prices := p\<rparr>) i
    (\<lambda>y. y\<lparr>ciPrice := Some a, ciBreakdown := b, ciExpires := Some (now c + CART_LOCK_MINUTES * 60 * 1000)\<rparr>)"
proof -
  obtain p w adj where t: "(case ciVariant x of
                   Some v \<Rightarrow> map_option (\<lambda>y. (vaProduct y, Some (vaWeight y), vaAdjust y)) (variantById s v)
                 | None \<Rightarrow> map_option (\<lambda>p. (p, ciWeight x, 0)) (ciProduct x)) = Some (p, w, adj)"
    using assms(2) by (cases "ciVariant x") auto
  obtain s1 r where e: "enginePrice prec s c p w = (s1, r)" by fastforce
  obtain q where s1: "s1 = s\<lparr>prices := q\<rparr>" using enginePrice_state [OF e] by blast
  obtain a b where ab: "(case r of Inr q \<Rightarrow> (prFinal q + adj, map lineComponent (prLines q))
      | Inl _ \<Rightarrow> (round_half_up (case productById s p of None \<Rightarrow> 0 | Some y \<Rightarrow> toDecimal (pdBasePrice y)) + adj, [])) = (a, b)"
    by fastforce
  show thesis by (rule that [where p = q and a = a and b = b]) (simp add: lockPriceForItem_def assms(1) t e s1 ab)
qed

lemma inCart_locked:
  "inCart (update_where (\<lambda>y. ciId y = i) (\<lambda>y. y\<lparr>ciPrice := a, ciBreakdown := b, ciExpires := e\<rparr>) cs) u v = inCart cs u v"
  by (induction cs) (auto simp: inCart_def)

lemma requestedOf_inCart: "requestedOf (filter (\<lambda>i. ciUser i = u) cs) v = inCart cs u v"
  by (induction cs) (auto simp: requestedOf_def inCart_def)

text \<open>What locking the price of the added item and dropping expired items leave.\<close>

lemma added_locked:
  assumes a: "added s u d s1 x" and t: "case caVariant d of Some v \<Rightarrow> variantById s v \<noteq> None | None \<Rightarrow> caProduct d \<noteq> None"
    and q: "\<forall>i \<in> set (cartItems s1). 0 < ciQuantity i"
    and s': "s' = purgeExpiredItems (lockPriceForItem prec s1 c (ciId x)) c u"
  shows "cart_ok s' \<and>
    (\<exists>y \<in> set (cartItems s'). ciUser y = u \<and> ciVariant y = caVariant d \<and> (caVariant d = None \<longrightarrow> ciProduct y = caProduct d) \<and>
       caQuantity d \<le> ciQuantity y \<and> ciPrice y \<noteq> None \<and> ciExpires y = Some (now c + 15 * 60 * 1000)) \<and>
    (\<forall>y \<in> set (cartItems s'). ciUser y = u \<longrightarrow> (case ciExpires y of None \<Rightarrow> True | Some t \<Rightarrow> now c \<le> t)) \<and>
    filter (\<lambda>y. ciUser y \<noteq> u) (cartItems s') = filter (\<lambda>y. ciUser y \<noteq> u) (cartItems s) \<and>
    inCart (cartItems s') u v \<le> inCart (cartItems s1) u v \<and> variants s' = variants s"
proof -
  have c1: "cart_ok s1" and x: "x \<in> set (cartItems s1)" "ciUser x = u" using a by (simp_all add: added_def)
  have t1: "case ciVariant x of Some v \<Rightarrow> variantById s1 v \<noteq> None | None \<Rightarrow> ciProduct x \<noteq> None"
    using t a by (cases "caVariant d") (auto simp: added_def variantById_def)
  obtain p r b where l: "lockPriceForItem prec s1 c (ciId x) = setItem (s1\<lparr>prices := p\<rparr>) (ciId x)
      (\<lambda>y. y\<lparr>ciPrice := Some r, ciBreakdown := b, ciExpires := Some (now c + CART_LOCK_MINUTES * 60 * 1000)\<rparr>)"
    by (rule lock_shape [OF itemById_of [OF c1 x(1)] t1])
  let ?f = "\<lambda>y. y\<lparr>ciPrice := Some r, ciBreakdown := b, ciExpires := Some (now c + CART_LOCK_MINUTES * 60 * 1000)\<rparr>"
  let ?cs = "update_where (\<lambda>y. ciId y = ciId x) ?f (cartItems s1)"
  let ?old = "\<lambda>i. ciUser i = u \<and> (case ciExpires i of None \<Rightarrow> False | Some t \<Rightarrow> t < now c)"
  have cs: "cartItems s' = delete_where ?old ?cs" and vs: "variants s' = variants s"
    using a by (simp_all add: s' purgeExpiredItems_def l setItem_def added_def)
  have "cart_ok (setItem (s1\<lparr>prices := p\<rparr>) (ciId x) ?f)"
    by (rule cart_ok_setItem) (use c1 in \<open>simp_all add: cart_ok_def\<close>)
  then have ok: "cart_ok s'"
    unfolding s' l by (auto simp: cart_ok_def purgeExpiredItems_def delete_where_def distinct_map_filter)
  have "?f x \<in> set ?cs" using x(1) by (auto simp: set_update_where image_iff)
  then have m: "?f x \<in> set (cartItems s')" by (simp add: cs delete_where_def CART_LOCK_MINUTES_def)
  have u: "ciUser y = u" if "y \<in> set (cartItems s1)" "ciId y = ciId x" for y
  proof -
    have "y = x" by (rule inj_onD [OF _ that(2,1) x(1)]) (use c1 in \<open>simp add: cart_ok_def distinct_map\<close>)
    then show ?thesis by (simp add: x(2))
  qed
  have "filter (\<lambda>y. ciUser y \<noteq> u) (cartItems s') = filter (\<lambda>y. ciUser y \<noteq> u) ?cs"
    unfolding cs by (rule filter_delete_keep) simp
  also have "\<dots> = filter (\<lambda>y. ciUser y \<noteq> u) (cartItems s1)"
    by (rule filter_update_keep) (simp add: u)
  finally have others: "filter (\<lambda>y. ciUser y \<noteq> u) (cartItems s') = filter (\<lambda>y. ciUser y \<noteq> u) (cartItems s)"
    using a by (simp add: added_def)
  have "\<forall>i \<in> set ?cs. 0 < ciQuantity i" using q by (auto simp: set_update_where)
  then have n: "inCart (cartItems s') u v \<le> inCart (cartItems s1) u v"
    unfolding cs using inCart_delete [of ?cs ?old u v] by (simp add: inCart_locked)
  have "\<forall>y \<in> set (cartItems s'). ciUser y = u \<longrightarrow> (case ciExpires y of None \<Rightarrow> True | Some t \<Rightarrow> now c \<le> t)"
    by (auto simp: cs delete_where_def split: option.split)
  moreover have "\<exists>y \<in> set (cartItems s'). ciUser y = u \<and> ciVariant y = caVariant d \<and>
      (caVariant d = None \<longrightarrow> ciProduct y = caProduct d) \<and>
      caQuantity d \<le> ciQuantity y \<and> ciPrice y \<noteq> None \<and> ciExpires y = Some (now c + 15 * 60 * 1000)"
    by (rule bexI [OF _ m]) (use a in \<open>simp add: added_def CART_LOCK_MINUTES_def\<close>)
  ultimately show ?thesis using ok others n vs by blast
qed

text \<open>C31: What adding to the cart does. The item is in the cart of the user with at least the quantity asked
for, with a price locked for a quarter of an hour from now; no expired item of the user is left, the
carts of others are untouched, and all items of the user for this variant together are within its stock,
so the check of the stock at the checkout passes.\<close>

theorem cart_add_effect:
  assumes ok: "shop_ok s" "cart_ok s" and r: "addItem prec s c u d = Inr s'"
  shows "cart_ok s' \<and>
    (\<exists>x \<in> set (cartItems s'). ciUser x = u \<and> ciVariant x = caVariant d \<and> (caVariant d = None \<longrightarrow> ciProduct x = caProduct d) \<and>
       caQuantity d \<le> ciQuantity x \<and> ciPrice x \<noteq> None \<and> ciExpires x = Some (now c + 15 * 60 * 1000)) \<and>
    (\<forall>x \<in> set (cartItems s'). ciUser x = u \<longrightarrow> (case ciExpires x of None \<Rightarrow> True | Some t \<Rightarrow> now c \<le> t)) \<and>
    filter (\<lambda>x. ciUser x \<noteq> u) (cartItems s') = filter (\<lambda>x. ciUser x \<noteq> u) (cartItems s) \<and>
    (\<forall>v y. caVariant d = Some v \<longrightarrow> variantById s v = Some y \<longrightarrow>
       requestedOf (filter (\<lambda>x. ciUser x = u) (cartItems s')) v \<le> vaStock y)"
proof -
  have q: "\<forall>i \<in> set (cartItems s). 0 < ciQuantity i" using ok(1) by (simp add: shop_ok_def inputs_ok_def)
  have dq: "0 < caQuantity d" using r by (auto simp: addItem_def validInput_def)
  have pos: "\<forall>i \<in> set (cartItems s1). 0 < ciQuantity i" if "cart_write s s1" for s1
    using that q by (auto simp: cart_write_def)
  show ?thesis
  proof (cases "caVariant d")
    case (Some v)
    then obtain s1 i where a: "addFixedVariantItem s u d v = Inr (s1, i)"
      and s': "s' = purgeExpiredItems (lockPriceForItem prec s1 c i) c u"
      using r by (auto simp: addItem_def split: option.splits)
    obtain x y where x: "added s u d s1 x" "ciId x = i" "variantById s v = Some y" "inCart (cartItems s1) u v \<le> vaStock y"
      using addFixed_added [OF ok(2) q dq Some a] by blast
    have t: "case caVariant d of Some v \<Rightarrow> variantById s v \<noteq> None | None \<Rightarrow> caProduct d \<noteq> None" using Some x(3) by simp
    note e = added_locked [OF x(1) t pos [OF addFixed_write [OF dq a]], of s' prec c v]
    have "inCart (cartItems s') u v \<le> vaStock y" using e s' x(2,4) by simp
    then have "\<forall>v y. caVariant d = Some v \<longrightarrow> variantById s v = Some y \<longrightarrow>
        requestedOf (filter (\<lambda>x. ciUser x = u) (cartItems s')) v \<le> vaStock y"
      using Some x(3) by (simp add: requestedOf_inCart)
    then show ?thesis using e s' x(2) by simp
  next
    case None
    then obtain p where p: "caProduct d = Some p" using r by (auto simp: addItem_def split: option.splits)
    then obtain s1 i where a: "addWeightRangeItem s u d p = Inr (s1, i)"
      and s': "s' = purgeExpiredItems (lockPriceForItem prec s1 c i) c u"
      using r None by (auto simp: addItem_def split: option.splits)
    obtain x where x: "added s u d s1 x" "ciId x = i" using addRange_added [OF ok(2) q dq None p a] by blast
    have t: "case caVariant d of Some v \<Rightarrow> variantById s v \<noteq> None | None \<Rightarrow> caProduct d \<noteq> None" using None p by simp
    note e = added_locked [OF x(1) t pos [OF addRange_write [OF dq a]], of s' prec c 0]
    show ?thesis using e s' x(2) None by simp
  qed
qed

lemma cart_add_effect_witness:
  "\<exists>s'. addItem id demoShop deskClock 11 \<lparr>caVariant = Some 61, caProduct = None, caWeight = None, caQuantity = 1,
       caPackaging = None\<rparr> = Inr s' \<and> requestedOf (filter (\<lambda>x. ciUser x = 11) (cartItems s')) 61 \<le> 4"
proof -
  let ?d = "\<lparr>caVariant = Some 61, caProduct = None, caWeight = None, caQuantity = 1, caPackaging = None\<rparr>"
  have "(case addItem id demoShop deskClock 11 ?d of Inl _ \<Rightarrow> False | Inr _ \<Rightarrow> True)" by code_simp
  then obtain s' where r: "addItem id demoShop deskClock 11 ?d = Inr s'" by (auto split: sum.splits)
  have "cart_ok demoShop" by (simp add: cart_ok_def demoShop_def)
  moreover have "variantById demoShop 61 = Some \<lparr>vaId = 61, vaProduct = 60, vaStock = 4, vaWeight = 1, vaAdjust = 0\<rparr>" by code_simp
  ultimately show ?thesis using cart_add_effect [OF demoShop_ok(1) _ r] r by auto
qed

text \<open>Without a gold price a gold bar is sold for its surcharge. When no gold price is known, the price of
a gold item is not refused but locked at the base price of its product (which is zero for products made
of gold) plus the adjustment of the variant, and the checkout accepts this price when it is positive.\<close>

theorem gold_locked_without_price:
  assumes x: "itemById s i = Some x" "ciVariant x = Some v" "variantById s v = Some y" "productById s (vaProduct y) = Some p"
    and gold: "pdPurity p = Some k" "k \<noteq> []" "0 < vaWeight y" "fst (getCurrentGoldPriceDecimal (prices s) (now c)) = None"
    and base: "pdBasePrice p = Some 0"
  shows "\<exists>x'. itemById (lockPriceForItem prec s c i) i = Some x' \<and> ciPrice x' = Some (vaAdjust y) \<and>
    (0 < vaAdjust y \<longrightarrow> requestedOf items v \<le> vaStock y \<longrightarrow> checkItem (lockPriceForItem prec s c i) items x' = Inr ())"
proof -
  obtain cached where g: "getCurrentGoldPriceDecimal (prices s) (now c) = (None, cached)"
    using gold(4) by (metis prod.collapse)
  have "calculateForProduct prec s None (Some p) (vaWeight y) = Inl (BadRequest ''no gold price'')"
    using gold(3) by (simp add: calculateForProduct_gold [OF gold(1,2)] resolveGoldPricePerGram_def toDecimal_def)
  then have e: "enginePrice prec s c (vaProduct y) (Some (vaWeight y)) = (s\<lparr>prices := cached\<rparr>, Inl (BadRequest ''no gold price''))"
    using gold g x(4) by (simp add: enginePrice_def)
  let ?f = "\<lambda>z. z\<lparr>ciPrice := Some (vaAdjust y), ciBreakdown := [],
                 ciExpires := Some (now c + CART_LOCK_MINUTES * 60 * 1000)\<rparr>"
  have l: "lockPriceForItem prec s c i = setItem (s\<lparr>prices := cached\<rparr>) i ?f"
    by (simp add: lockPriceForItem_def x e base round_half_up_def toDecimal_def)
  have "itemById (setItem (s\<lparr>prices := cached\<rparr>) i ?f) i = Some (?f x)"
    using find_update_where_same [of ciId ?f i "cartItems s"] x(1) by (simp add: itemById_def setItem_def)
  moreover have "checkItem (setItem (s\<lparr>prices := cached\<rparr>) i ?f) items (?f x) = Inr ()"
    if "0 < vaAdjust y" "requestedOf items v \<le> vaStock y"
    using x that by (simp add: checkItem_def variantById_def productById_def setItem_def toDecimal_def)
  ultimately show ?thesis unfolding l by (intro exI [of _ "?f x"]) simp
qed

text \<open>The demo shop when the source of prices is down; the bar of one gram has a surcharge of 50000 rial.\<close>

definition darkShop :: store where
  "darkShop = demoShop
     \<lparr>prices := \<lparr>psCache = None, psSuspect = None, psMarket = None, psFailures = 0, psOpened = None, psPending = None\<rparr>,
      products := [\<lparr>pdId = 60, pdActive = True, pdCategoryActive = True, pdIngot = True, pdPurity = Some ''K24'',
        pdBasePrice = Some 0, pdLinks = [], pdRange = False, pdMin = None, pdMax = None, pdStep = None\<rparr>],
      variants := [\<lparr>vaId = 61, vaProduct = 60, vaStock = 4, vaWeight = 1, vaAdjust = 50000\<rparr>]\<rparr>"

lemma gold_locked_without_price_witness:
  "(\<exists>x'. itemById (lockPriceForItem id darkShop deskClock 70) 70 = Some x' \<and> ciPrice x' = Some 50000) \<and>
   (case checkout (lockPriceForItem id darkShop deskClock 70) deskClock 11 80 None False None of
      Inl _ \<Rightarrow> False | Inr (s', i) \<Rightarrow> (case orderById s' i of None \<Rightarrow> False | Some x \<Rightarrow> soTotal x = 100000))"
proof
  let ?x = "\<lparr>ciId = 70, ciUser = 11, ciVariant = Some 61, ciProduct = None, ciQuantity = 2, ciPrice = Some 500000,
      ciExpires = Some 2000000, ciWeight = None, ciBreakdown = [], ciPackaging = None\<rparr>"
  let ?y = "\<lparr>vaId = 61, vaProduct = 60, vaStock = 4, vaWeight = 1, vaAdjust = 50000\<rparr>"
  let ?p = "\<lparr>pdId = 60, pdActive = True, pdCategoryActive = True, pdIngot = True, pdPurity = Some ''K24'',
        pdBasePrice = Some 0, pdLinks = [], pdRange = False, pdMin = None, pdMax = None, pdStep = None\<rparr>"
  have "itemById darkShop 70 = Some ?x" "ciVariant ?x = Some 61" "variantById darkShop 61 = Some ?y"
    "productById darkShop (vaProduct ?y) = Some ?p" "pdPurity ?p = Some ''K24''" "''K24'' \<noteq> []" "0 < vaWeight ?y"
    "fst (getCurrentGoldPriceDecimal (prices darkShop) (now deskClock)) = None" "pdBasePrice ?p = Some 0"
    by code_simp+
  from gold_locked_without_price [OF this, of id]
  show "\<exists>x'. itemById (lockPriceForItem id darkShop deskClock 70) 70 = Some x' \<and> ciPrice x' = Some 50000" by auto
  show "case checkout (lockPriceForItem id darkShop deskClock 70) deskClock 11 80 None False None of
      Inl _ \<Rightarrow> False | Inr (s', i) \<Rightarrow> (case orderById s' i of None \<Rightarrow> False | Some x \<Rightarrow> soTotal x = 100000)" by code_simp
qed

end
