(* ===== verification/Hologram.thy ===== *)
theory Hologram
  imports Banking Calendar
begin

section \<open>The registry of the gold bars\<close>

text \<open>
  \<open>api/src/hologram\<close>: every bar carries a hologram with a code of eight digits. A code is made in a
  batch, assigned to an item of a shop order, owned by one user at a time, passed on to another user
  by a transfer request that the recipient confirms with his identity, blocked by a report of theft or
  loss, and revoked when it was misprinted (\<open>hologram.service.ts\<close>,
  \<open>hologram-transfer.service.ts\<close>, \<open>hologram-incident.service.ts\<close>). The random digits of the
  codes and the answer of the identity service are arguments. Names and notes in Persian are lists of
  code points. The partial unique indexes of the database (one active owner, one pending request and
  one active report of a bar) are not written out: the invariant proved of the calls gives them.
\<close>

subsection \<open>Tables\<close>

type_synonym phrase = "nat list"

datatype code_status =
  HC_UNASSIGNED | HC_ASSIGNED | HC_TRANSFER_PENDING | HC_REVOKED | HC_AT_AGENT | HC_BUYBACK_PENDING
  | HC_AGENT_OWNED

datatype transfer_type = INITIAL_PURCHASE | GIFT_TRANSFER | SALE_TRANSFER

datatype ownership_status = OW_ACTIVE | OW_TRANSFERRED | OW_PENDING_CONFIRMATION | OW_VOIDED

datatype request_status = RQ_PENDING | RQ_CONFIRMED | RQ_REJECTED | RQ_EXPIRED | RQ_CANCELLED

datatype incident_type = THEFT | LOSS

datatype incident_status = IN_OPEN | IN_CONFIRMED | IN_RECOVERED | IN_REJECTED | IN_CANCELLED

record bar_code =
  hcId :: nat
  hcCode :: string
  hcStatus :: code_status
  hcBatch :: nat
  hcProduct :: "nat option"
  hcVariant :: "nat option"
  hcWeight :: "rat option"
  hcPurity :: "string option"
  hcSerial :: "string option"
  hcMinted :: "int option"
  hcItem :: "nat option"
  hcAssignedBy :: "nat option"
  hcAssignedAt :: "int option"
  hcRevokedBy :: "nat option"
  hcRevokedAt :: "int option"
  hcReason :: "phrase option"
  hcAgent :: "nat option"
  hcVaultAt :: "int option"

record ownership =
  owId :: nat
  owCode :: nat
  owUser :: nat
  owOrder :: "nat option"
  owName :: phrase
  owNational :: string
  owStart :: int
  owEnd :: "int option"
  owStatus :: ownership_status
  owType :: transfer_type

record transfer =
  trId :: nat
  trCode :: nat
  trByUser :: "nat option"
  trByAdmin :: "nat option"
  trItem :: "nat option"
  trPhone :: string
  trRecipient :: "nat option"
  trStatus :: request_status
  trType :: transfer_type
  trExpires :: int
  trConfirmed :: "int option"
  trReference :: "string option"
  trReason :: "phrase option"

record incident =
  inId :: nat
  inNumber :: string
  inCode :: nat
  inType :: incident_type
  inStatus :: incident_status
  inByUser :: "nat option"
  inByAdmin :: "nat option"
  inOwnerName :: "phrase option"
  inOwnerNational :: "string option"
  inAt :: "int option"
  inDescription :: phrase
  inCreated :: int
  inReviewedBy :: "nat option"
  inReviewedAt :: "int option"
  inNote :: "phrase option"
  inClosedAt :: "int option"
  inCloseReason :: "phrase option"

text \<open>
  \<open>soldItems\<close> are the items of the shop orders with the columns of the order, the variant and the
  product that an assignment reads. \<open>replays\<close> are the answers that the key-value store keeps for a
  day under an idempotency key.
\<close>

record identity =
  idUser :: nat
  idStatus :: identity_status
  idFirst :: "phrase option"
  idLast :: "phrase option"
  idNational :: "string option"

record sold_item =
  siId :: nat
  siOrder :: nat
  siBuyer :: nat
  siProduct :: "nat option"
  siVariant :: "nat option"
  siSelected :: "rat option"
  siVariantWeight :: "rat option"
  siPurity :: "string option"
  siOther :: bool
  siMobile :: "string option"

record batch =
  btId :: nat
  btNumber :: string
  btQuantity :: nat
  btNotes :: "phrase option"
  btBy :: nat

record registry = bank +
  batches :: "batch list"
  codes :: "bar_code list"
  ownerships :: "ownership list"
  transfers :: "transfer list"
  incidents :: "incident list"
  identities :: "identity list"
  phones :: "(string \<times> nat) list"
  soldItems :: "sold_item list"
  replays :: "(string \<times> transfer \<times> int) list"

definition codeById :: "'a registry_scheme \<Rightarrow> nat \<Rightarrow> bar_code option" where
  "codeById s i = find (\<lambda>c. hcId c = i) (codes s)"

definition codeByText :: "'a registry_scheme \<Rightarrow> string \<Rightarrow> bar_code option" where
  "codeByText s x = find (\<lambda>c. hcCode c = x) (codes s)"

definition activeOwner :: "'a registry_scheme \<Rightarrow> nat \<Rightarrow> ownership option" where
  "activeOwner s i = find (\<lambda>w. owCode w = i \<and> owStatus w = OW_ACTIVE) (ownerships s)"

definition transferById :: "'a registry_scheme \<Rightarrow> nat \<Rightarrow> transfer option" where
  "transferById s i = find (\<lambda>r. trId r = i) (transfers s)"

definition incidentById :: "'a registry_scheme \<Rightarrow> nat \<Rightarrow> incident option" where
  "incidentById s i = find (\<lambda>r. inId r = i) (incidents s)"

definition identityOf :: "'a registry_scheme \<Rightarrow> nat \<Rightarrow> identity option" where
  "identityOf s u = find (\<lambda>x. idUser x = u) (identities s)"

definition setCode :: "'a registry_scheme \<Rightarrow> nat \<Rightarrow> (bar_code \<Rightarrow> bar_code) \<Rightarrow> 'a registry_scheme" where
  "setCode s i f = s\<lparr>codes := update_where (\<lambda>c. hcId c = i) f (codes s)\<rparr>"

definition setTransfer :: "'a registry_scheme \<Rightarrow> nat \<Rightarrow> (transfer \<Rightarrow> transfer) \<Rightarrow> 'a registry_scheme" where
  "setTransfer s i f = s\<lparr>transfers := update_where (\<lambda>r. trId r = i) f (transfers s)\<rparr>"

definition setIncident :: "'a registry_scheme \<Rightarrow> nat \<Rightarrow> (incident \<Rightarrow> incident) \<Rightarrow> 'a registry_scheme" where
  "setIncident s i f = s\<lparr>incidents := update_where (\<lambda>r. inId r = i) f (incidents s)\<rparr>"

subsection \<open>The code of a hologram\<close>

definition HOLOGRAM_CODE_LENGTH :: nat where
  "HOLOGRAM_CODE_LENGTH = 8"

text \<open>The check digit is Luhn's, over the digits as numbers.\<close>

definition hologramCheckDigit :: "int list \<Rightarrow> int" where
  "hologramCheckDigit payload = (10 - luhnLoop (rev payload) True 0 mod 10) mod 10"

definition digitChar :: "int \<Rightarrow> char" where
  "digitChar d = char_of (48 + nat d)"

text \<open>\<open>payload\<close> holds the seven random digits.\<close>

definition generateHologramCode :: "int list \<Rightarrow> string" where
  "generateHologramCode payload = map digitChar (payload @ [hologramCheckDigit payload])"

definition isValidHologramCodeFormat :: "string \<Rightarrow> bool" where
  "isValidHologramCodeFormat x \<longleftrightarrow>
     length x = HOLOGRAM_CODE_LENGTH \<and> list_all is_digit x \<and>
     (let digits = map (\<lambda>c. int (digit_val c)) x in
      hologramCheckDigit (take (HOLOGRAM_CODE_LENGTH - 1) digits) = digits ! (HOLOGRAM_CODE_LENGTH - 1))"

definition maskNationalCode :: "string \<Rightarrow> string" where
  "maskNationalCode x =
     (if x = [] then [] else take 4 x @ replicate (length x - length (take 4 x)) (CHR ''*''))"

subsection \<open>Reports that block a bar\<close>

definition ACTIVE_INCIDENT_STATUSES :: "incident_status list" where
  "ACTIVE_INCIDENT_STATUSES = [IN_OPEN, IN_CONFIRMED]"

definition activeIncident :: "nat \<Rightarrow> incident \<Rightarrow> bool" where
  "activeIncident i r \<longleftrightarrow> inCode r = i \<and> inStatus r \<in> set ACTIVE_INCIDENT_STATUSES"

text \<open>The newest active report of a bar.\<close>

definition findActiveIncident :: "'a registry_scheme \<Rightarrow> nat \<Rightarrow> incident option" where
  "findActiveIncident s i = find (activeIncident i) (rev (incidents s))"

definition assertNoActiveIncident :: "'a registry_scheme \<Rightarrow> nat \<Rightarrow> unit res" where
  "assertNoActiveIncident s i =
     (case findActiveIncident s i of
        None \<Rightarrow> Inr ()
      | Some r \<Rightarrow> Inl (Conflict ''the bar is reported stolen or lost''))"

subsection \<open>Batches of codes\<close>

definition MAX_GENERATION_RETRIES_PER_CODE :: nat where
  "MAX_GENERATION_RETRIES_PER_CODE = 5"

text \<open>
  The loop that draws new codes until there are enough of them. \<open>draws\<close> is the sequence of random
  digits; \<open>None\<close> when it ends before the loop does.
\<close>

fun drawCodes :: "nat \<Rightarrow> int list list \<Rightarrow> string list \<Rightarrow> (string list \<times> int list list) option" where
  "drawCodes needed draws acc =
     (if needed \<le> length acc then Some (acc, draws)
      else case draws of
        [] \<Rightarrow> None
      | d # ds \<Rightarrow>
          (let x = generateHologramCode d in
           drawCodes needed ds (if x \<in> set acc then acc else acc @ [x])))"

declare drawCodes.simps [simp del]

definition newCode :: "nat \<Rightarrow> nat \<Rightarrow> string \<Rightarrow> bar_code" where
  "newCode i batch x =
     \<lparr>hcId = i, hcCode = x, hcStatus = HC_UNASSIGNED, hcBatch = batch, hcProduct = None,
      hcVariant = None, hcWeight = None, hcPurity = None, hcSerial = None, hcMinted = None,
      hcItem = None, hcAssignedBy = None, hcAssignedAt = None, hcRevokedBy = None, hcRevokedAt = None,
      hcReason = None, hcAgent = None, hcVaultAt = None\<rparr>"

text \<open>\<open>createMany\<close> with \<open>skipDuplicates\<close>: a code that exists already is left out.\<close>

fun insertCodes :: "'a registry_scheme \<Rightarrow> nat \<Rightarrow> string list \<Rightarrow> 'a registry_scheme" where
  "insertCodes s batch [] = s"
| "insertCodes s batch (x # xs) =
     insertCodes
       (if codeByText s x = None
        then s\<lparr>nextId := nextId s + 1, codes := codes s @ [newCode (nextId s) batch x]\<rparr> else s) batch xs"

definition insertedCodes :: "'a registry_scheme \<Rightarrow> nat \<Rightarrow> string list \<Rightarrow> string list" where
  "insertedCodes s batch xs =
     map hcCode (filter (\<lambda>c. hcBatch c = batch \<and> hcCode c \<in> set xs) (codes s))"

fun generateRounds ::
  "nat \<Rightarrow> 'a registry_scheme \<Rightarrow> nat \<Rightarrow> nat \<Rightarrow> int list list \<Rightarrow> string list \<Rightarrow>
   'a registry_scheme \<times> string list option" where
  "generateRounds 0 s batch quantity draws confirmed = (s, Some confirmed)"
| "generateRounds (Suc n) s batch quantity draws confirmed =
     (if quantity \<le> length confirmed then (s, Some confirmed)
      else case drawCodes (quantity - length confirmed) draws [] of
        None \<Rightarrow> (s, None)
      | Some (xs, rest) \<Rightarrow>
          (let s1 = insertCodes s batch xs;
               new = filter (\<lambda>x. x \<notin> set confirmed) (insertedCodes s1 batch xs) in
           generateRounds n s1 batch quantity rest (confirmed @ new)))"

text \<open>
  The steps of a batch are committed one by one, so a failure leaves the batch and the codes made so
  far.
\<close>

definition createBatch ::
  "'a registry_scheme \<Rightarrow> nat \<Rightarrow> nat \<Rightarrow> phrase option \<Rightarrow> int list list \<Rightarrow>
   'a registry_scheme \<times> string list res" where
  "createBatch s admin quantity notes draws =
     (let (s1, number) = sequenceNext s ''HOLO'';
          b = nextId s1;
          s2 = s1\<lparr>nextId := b + 1, batches := batches s1 @
                  [\<lparr>btId = b, btNumber = number, btQuantity = quantity, btNotes = notes, btBy = admin\<rparr>]\<rparr> in
      case generateRounds MAX_GENERATION_RETRIES_PER_CODE s2 b quantity draws [] of
        (s3, None) \<Rightarrow> (s3, Inl (Internal ''no more random digits''))
      | (s3, Some confirmed) \<Rightarrow>
          (s3, if length confirmed < quantity then Inl (Conflict ''no unique codes'') else Inr confirmed))"

definition getBatchPrintExport :: "'a registry_scheme \<Rightarrow> nat \<Rightarrow> (string \<times> nat \<times> string list) res" where
  "getBatchPrintExport s b =
     (case find (\<lambda>x. btId x = b) (batches s) of
        None \<Rightarrow> Inl (NotFound ''batch'')
      | Some x \<Rightarrow> Inr (btNumber x, btQuantity x,
                         map hcCode (filter (\<lambda>c. hcBatch c = b) (codes s))))"

subsection \<open>Passing a bar on\<close>

text \<open>The two services answer a repeated call with whether it had been processed before.\<close>

definition transferExpiresAt :: "'a registry_scheme \<Rightarrow> int \<Rightarrow> int" where
  "transferExpiresAt s t =
     round_down (of_int t + getNumber s ''hologram.transfer.expiry_hours'' 72 * 60 * 60 * 1000)"

definition newTransferRequest ::
  "nat \<Rightarrow> nat \<Rightarrow> nat option \<Rightarrow> nat option \<Rightarrow> nat option \<Rightarrow> string \<Rightarrow> nat option \<Rightarrow> transfer_type \<Rightarrow> int \<Rightarrow> transfer" where
  "newTransferRequest i code byUser byAdmin item phone recipient type expires =
     \<lparr>trId = i, trCode = code, trByUser = byUser, trByAdmin = byAdmin, trItem = item, trPhone = phone,
      trRecipient = recipient, trStatus = RQ_PENDING, trType = type, trExpires = expires,
      trConfirmed = None, trReference = None, trReason = None\<rparr>"

definition addTransfer :: "'a registry_scheme \<Rightarrow> transfer \<Rightarrow> 'a registry_scheme" where
  "addTransfer s r = s\<lparr>nextId := nextId s + 1, transfers := transfers s @ [r]\<rparr>"

definition createAdminInitiated ::
  "'a registry_scheme \<Rightarrow> int \<Rightarrow> nat \<Rightarrow> nat \<Rightarrow> string \<Rightarrow> nat \<Rightarrow> 'a registry_scheme" where
  "createAdminInitiated s t code item phone admin =
     addTransfer s (newTransferRequest (nextId s) code None (Some admin) (Some item) phone
       (map_of (phones s) phone) INITIAL_PURCHASE (transferExpiresAt s t))"

text \<open>The fixed reasons, as code points.\<close>

definition BY_OWNER_REPORT :: phrase where
  "BY_OWNER_REPORT = [1579, 1576, 1578, 32, 1711, 1586, 1575, 1585, 1588, 32, 1587, 1585, 1602,
     1578, 47, 1605, 1601, 1602, 1608, 1583, 1740, 32, 1578, 1608, 1587, 1591, 32, 1605, 1575, 1604,
     1705]"

definition BY_ADMIN_REPORT :: phrase where
  "BY_ADMIN_REPORT = [1579, 1576, 1578, 32, 1711, 1586, 1575, 1585, 1588, 32, 1587, 1585, 1602,
     1578, 47, 1605, 1601, 1602, 1608, 1583, 1740, 32, 1578, 1608, 1587, 1591, 32, 1605, 1583, 1740,
     1585, 1740, 1578]"

definition BY_REVOCATION :: phrase where
  "BY_REVOCATION = [1575, 1576, 1591, 1575, 1604, 32, 1705, 1583, 32, 1578, 1608, 1587, 1591, 32,
     1575, 1583, 1605, 1740, 1606]"

definition BY_OWNER_CANCEL :: phrase where
  "BY_OWNER_CANCEL = [1604, 1594, 1608, 32, 1578, 1608, 1587, 1591, 32, 1605, 1575, 1604, 1705]"

definition cancelPendingForCode :: "'a registry_scheme \<Rightarrow> nat \<Rightarrow> phrase \<Rightarrow> 'a registry_scheme" where
  "cancelPendingForCode s code reason =
     s\<lparr>transfers := update_where (\<lambda>r. trCode r = code \<and> trStatus r = RQ_PENDING)
         (\<lambda>r. r\<lparr>trStatus := RQ_CANCELLED, trReason := Some reason\<rparr>) (transfers s)\<rparr>"

definition initiateByUserInternal ::
  "'a registry_scheme \<Rightarrow> int \<Rightarrow> nat \<Rightarrow> nat \<Rightarrow> string \<Rightarrow> ('a registry_scheme \<times> transfer) res" where
  "initiateByUserInternal s t u i phone =
     (case codeById s i of
        None \<Rightarrow> Inl (NotFound ''bar'')
      | Some c \<Rightarrow>
     (case activeOwner s i of
        None \<Rightarrow> Inl (Forbidden ''not the owner'')
      | Some w \<Rightarrow>
          if owUser w \<noteq> u then Inl (Forbidden ''not the owner'')
          else if hcStatus c \<noteq> HC_ASSIGNED then Inl (Conflict ''the bar cannot be transferred now'')
          else
         (case assertNoActiveIncident s i of
            Inl e \<Rightarrow> Inl e
          | Inr _ \<Rightarrow>
              if map_of (phones s) phone = Some u then Inl (BadRequest ''to oneself'')
              else
                (let r = newTransferRequest (nextId s) i (Some u) None None phone
                           (map_of (phones s) phone) GIFT_TRANSFER (transferExpiresAt s t) in
                 Inr (setCode (addTransfer s r) i (\<lambda>c. c\<lparr>hcStatus := HC_TRANSFER_PENDING\<rparr>), r)))))"

definition IDEMPOTENCY_TTL_SECONDS :: int where
  "IDEMPOTENCY_TTL_SECONDS = 24 * 60 * 60"

definition replayKey :: "nat \<Rightarrow> string \<Rightarrow> string" where
  "replayKey u key = decimal u @ '':'' @ key"

definition replayOf :: "'a registry_scheme \<Rightarrow> int \<Rightarrow> string \<Rightarrow> transfer option" where
  "replayOf s t k =
     (case find (\<lambda>(k', r, e). k' = k \<and> t < e) (rev (replays s)) of None \<Rightarrow> None | Some (_, r, _) \<Rightarrow> Some r)"

text \<open>\<open>initiateByUser\<close> under \<open>withIdempotency\<close>; an empty key counts as none.\<close>

definition initiateByUser ::
  "'a registry_scheme \<Rightarrow> int \<Rightarrow> nat \<Rightarrow> nat \<Rightarrow> string \<Rightarrow> string \<Rightarrow> ('a registry_scheme \<times> transfer) res" where
  "initiateByUser s t u i phone key =
     (if key = [] then initiateByUserInternal s t u i phone
      else case replayOf s t (replayKey u key) of
        Some r \<Rightarrow> Inr (s, r)
      | None \<Rightarrow>
         (case initiateByUserInternal s t u i phone of
            Inl e \<Rightarrow> Inl e
          | Inr (s1, r) \<Rightarrow>
              Inr (s1\<lparr>replays := replays s1 @ [(replayKey u key, r, t + IDEMPOTENCY_TTL_SECONDS * 1000)]\<rparr>, r)))"

definition listIncoming :: "'a registry_scheme \<Rightarrow> string \<Rightarrow> transfer list" where
  "listIncoming s phone = rev (filter (\<lambda>r. trPhone r = phone \<and> trStatus r = RQ_PENDING) (transfers s))"

definition getOwnTransfer :: "'a registry_scheme \<Rightarrow> string \<Rightarrow> nat \<Rightarrow> transfer res" where
  "getOwnTransfer s phone i =
     (case transferById s i of
        None \<Rightarrow> Inl (NotFound ''transfer'')
      | Some r \<Rightarrow> if trPhone r \<noteq> phone then Inl (NotFound ''transfer'') else Inr r)"

text \<open>After a refusal or the end of the time limit.\<close>

definition revertCodeAfterNonConfirmation :: "'a registry_scheme \<Rightarrow> transfer \<Rightarrow> 'a registry_scheme" where
  "revertCodeAfterNonConfirmation s r =
     (if trType r = INITIAL_PURCHASE
      then setCode s (trCode r) (\<lambda>c. c\<lparr>hcStatus := HC_UNASSIGNED, hcItem := None,
                                       hcAssignedBy := None, hcAssignedAt := None\<rparr>)
      else setCode s (trCode r) (\<lambda>c. c\<lparr>hcStatus := HC_ASSIGNED\<rparr>))"

definition expireTransfer :: "'a registry_scheme \<Rightarrow> nat \<Rightarrow> 'a registry_scheme" where
  "expireTransfer s i =
     (case transferById s i of
        None \<Rightarrow> s
      | Some r \<Rightarrow>
          if trStatus r \<noteq> RQ_PENDING then s
          else revertCodeAfterNonConfirmation (setTransfer s i (\<lambda>r. r\<lparr>trStatus := RQ_EXPIRED\<rparr>)) r)"

definition expireStaleTransfers :: "'a registry_scheme \<Rightarrow> int \<Rightarrow> 'a registry_scheme" where
  "expireStaleTransfers s t =
     foldl expireTransfer s
       (map trId (filter (\<lambda>r. trStatus r = RQ_PENDING \<and> trExpires r < t) (transfers s)))"

text \<open>
  What the recipient fills in, and the answer of the identity service: \<open>None\<close> when the call fails,
  else whether the data agree with the civil registry, with its own spelling of the names.
\<close>

record confirm_input =
  cfFirst :: phrase
  cfLast :: phrase
  cfNational :: string

record civil_answer =
  cvMatched :: bool
  cvFirst :: "phrase option"
  cvLast :: "phrase option"
  cvReference :: "string option"

definition endOwnerships :: "'a registry_scheme \<Rightarrow> nat \<Rightarrow> int \<Rightarrow> 'a registry_scheme" where
  "endOwnerships s code t =
     s\<lparr>ownerships := update_where (\<lambda>w. owCode w = code \<and> owStatus w = OW_ACTIVE)
         (\<lambda>w. w\<lparr>owStatus := OW_TRANSFERRED, owEnd := Some t\<rparr>) (ownerships s)\<rparr>"

definition newOwnership ::
  "nat \<Rightarrow> nat \<Rightarrow> nat \<Rightarrow> nat option \<Rightarrow> phrase \<Rightarrow> string \<Rightarrow> int \<Rightarrow> transfer_type \<Rightarrow> ownership" where
  "newOwnership i code u order name national t type =
     \<lparr>owId = i, owCode = code, owUser = u, owOrder = order, owName = name, owNational = national,
      owStart = t, owEnd = None, owStatus = OW_ACTIVE, owType = type\<rparr>"

definition addOwnership :: "'a registry_scheme \<Rightarrow> ownership \<Rightarrow> 'a registry_scheme" where
  "addOwnership s w = s\<lparr>nextId := nextId s + 1, ownerships := ownerships s @ [w]\<rparr>"

definition fullName :: "phrase \<Rightarrow> phrase \<Rightarrow> phrase" where
  "fullName given family = trimText (given @ [32] @ family)"

definition civilName :: "confirm_input \<Rightarrow> civil_answer \<Rightarrow> phrase" where
  "civilName dto a =
     fullName (case cvFirst a of None \<Rightarrow> cfFirst dto | Some x \<Rightarrow> x)
              (case cvLast a of None \<Rightarrow> cfLast dto | Some x \<Rightarrow> x)"

text \<open>The transaction of \<open>confirm\<close>, which reads the request afresh.\<close>

definition takeOver ::
  "'a registry_scheme \<Rightarrow> int \<Rightarrow> nat \<Rightarrow> transfer \<Rightarrow> confirm_input \<Rightarrow> civil_answer \<Rightarrow> 'a registry_scheme" where
  "takeOver s t u r dto a =
     (let s1 = endOwnerships s (trCode r) t;
          s2 = addOwnership s1 (newOwnership (nextId s1) (trCode r) u None (civilName dto a) (cfNational dto) t (trType r));
          s3 = setTransfer s2 (trId r) (\<lambda>r. r\<lparr>trStatus := RQ_CONFIRMED, trConfirmed := Some t,
                 trRecipient := Some u, trReference := cvReference a\<rparr>) in
      setCode s3 (trCode r) (\<lambda>c. c\<lparr>hcStatus := HC_ASSIGNED\<rparr>))"

definition confirmWrites ::
  "'a registry_scheme \<Rightarrow> int \<Rightarrow> nat \<Rightarrow> nat \<Rightarrow> confirm_input \<Rightarrow> civil_answer \<Rightarrow> ('a registry_scheme \<times> bool) res" where
  "confirmWrites s t u i dto a =
     (case transferById s i of
        None \<Rightarrow> Inl (NotFound ''transfer'')
      | Some r \<Rightarrow>
          if trStatus r = RQ_CONFIRMED then Inr (s, True)
          else if trStatus r \<noteq> RQ_PENDING then Inl (Conflict ''no longer to be confirmed'')
          else if trExpires r < t then Inl (Gone ''the time limit has passed'')
          else
         (case assertNoActiveIncident s (trCode r) of
            Inl e \<Rightarrow> Inl e
          | Inr _ \<Rightarrow> Inr (takeOver s t u r dto a, False)))"

text \<open>
  The checks before the identity service is called. An expired request is closed even though the call
  fails. \<open>Inr True\<close>: it had been confirmed before.
\<close>

definition confirmCheck ::
  "'a registry_scheme \<Rightarrow> int \<Rightarrow> string \<Rightarrow> nat \<Rightarrow> 'a registry_scheme \<times> bool res" where
  "confirmCheck s t phone i =
     (case transferById s i of
        None \<Rightarrow> (s, Inl (NotFound ''transfer''))
      | Some r \<Rightarrow>
          if trPhone r \<noteq> phone then (s, Inl (NotFound ''transfer''))
          else if trStatus r = RQ_CONFIRMED then (s, Inr True)
          else if trStatus r \<noteq> RQ_PENDING then (s, Inl (Conflict ''no longer to be confirmed''))
          else if trExpires r < t then (expireTransfer s i, Inl (Gone ''the time limit has passed''))
          else
         (case assertNoActiveIncident s (trCode r) of
            Inl e \<Rightarrow> (s, Inl e)
          | Inr _ \<Rightarrow> (s, Inr False)))"

definition confirmTransfer ::
  "'a registry_scheme \<Rightarrow> int \<Rightarrow> nat \<Rightarrow> string \<Rightarrow> nat \<Rightarrow> confirm_input \<Rightarrow> civil_answer option \<Rightarrow>
   'a registry_scheme \<times> bool res" where
  "confirmTransfer s t u phone i dto answer =
     (case confirmCheck s t phone i of
        (s1, Inl e) \<Rightarrow> (s1, Inl e)
      | (s1, Inr True) \<Rightarrow> (s1, Inr True)
      | (s1, Inr False) \<Rightarrow>
         (case answer of
            None \<Rightarrow> (s1, Inl (Conflict ''the identity service is not available''))
          | Some a \<Rightarrow>
              if \<not> cvMatched a then (s1, Inl (BadRequest ''the identity does not match''))
              else (case confirmWrites s1 t u i dto a of
                      Inl e \<Rightarrow> (s1, Inl e)
                    | Inr (s2, b) \<Rightarrow> (s2, Inr b))))"

definition rejectTransfer ::
  "'a registry_scheme \<Rightarrow> string \<Rightarrow> nat \<Rightarrow> phrase option \<Rightarrow> ('a registry_scheme \<times> bool) res" where
  "rejectTransfer s phone i reason =
     (case transferById s i of
        None \<Rightarrow> Inl (NotFound ''transfer'')
      | Some r \<Rightarrow>
          if trPhone r \<noteq> phone then Inl (NotFound ''transfer'')
          else if trStatus r = RQ_REJECTED then Inr (s, True)
          else if trStatus r \<noteq> RQ_PENDING then Inl (Conflict ''no longer to be rejected'')
          else Inr (revertCodeAfterNonConfirmation
                      (setTransfer s i (\<lambda>r. r\<lparr>trStatus := RQ_REJECTED, trReason := reason\<rparr>)) r, False))"

subsection \<open>Assigning and revoking a code\<close>

record assign_input =
  anItem :: nat
  anSerial :: "string option"
  anMinted :: "int option"

definition soldItemById :: "'a registry_scheme \<Rightarrow> nat \<Rightarrow> sold_item option" where
  "soldItemById s i = find (\<lambda>x. siId x = i) (soldItems s)"

definition codeOfItem :: "'a registry_scheme \<Rightarrow> nat \<Rightarrow> bar_code option" where
  "codeOfItem s i = find (\<lambda>c. hcItem c = Some i) (codes s)"

definition bindItem :: "'a registry_scheme \<Rightarrow> int \<Rightarrow> nat \<Rightarrow> nat \<Rightarrow> sold_item \<Rightarrow> assign_input \<Rightarrow> 'a registry_scheme" where
  "bindItem s t admin i item dto =
     setCode s i (\<lambda>c. c\<lparr>hcProduct := siProduct item, hcVariant := siVariant item,
       hcWeight := orElse (siSelected item) (siVariantWeight item), hcPurity := siPurity item,
       hcSerial := anSerial dto, hcMinted := anMinted dto, hcItem := Some (siId item),
       hcAssignedBy := Some admin, hcAssignedAt := Some t\<rparr>)"

text \<open>An item bought for somebody else becomes a transfer request to his phone number.\<close>

definition assignToOther ::
  "'a registry_scheme \<Rightarrow> int \<Rightarrow> nat \<Rightarrow> nat \<Rightarrow> sold_item \<Rightarrow> ('a registry_scheme \<times> code_status) res" where
  "assignToOther s t admin i item =
     (case siMobile item of
        None \<Rightarrow> Inl (BadRequest ''no phone number of the recipient'')
      | Some phone \<Rightarrow>
          if phone = [] then Inl (BadRequest ''no phone number of the recipient'')
          else Inr (setCode (createAdminInitiated s t i (siId item) phone admin) i
                      (\<lambda>c. c\<lparr>hcStatus := HC_TRANSFER_PENDING\<rparr>), HC_TRANSFER_PENDING))"

definition assignToBuyer ::
  "'a registry_scheme \<Rightarrow> int \<Rightarrow> nat \<Rightarrow> sold_item \<Rightarrow> ('a registry_scheme \<times> code_status) res" where
  "assignToBuyer s t i item =
     (case identityOf s (siBuyer item) of
        None \<Rightarrow> Inl (Conflict ''the identity of the buyer is not verified'')
      | Some x \<Rightarrow>
          if idStatus x \<noteq> ID_VERIFIED then Inl (Conflict ''the identity of the buyer is not verified'')
          else
            (let w = newOwnership (nextId s) i (siBuyer item) (Some (siOrder item))
                       (fullName (case idFirst x of None \<Rightarrow> [] | Some y \<Rightarrow> y)
                                 (case idLast x of None \<Rightarrow> [] | Some y \<Rightarrow> y))
                       (case idNational x of None \<Rightarrow> [] | Some y \<Rightarrow> y) t INITIAL_PURCHASE in
             Inr (setCode (addOwnership s w) i (\<lambda>c. c\<lparr>hcStatus := HC_ASSIGNED\<rparr>), HC_ASSIGNED)))"

definition assignCode ::
  "'a registry_scheme \<Rightarrow> int \<Rightarrow> nat \<Rightarrow> string \<Rightarrow> assign_input \<Rightarrow> ('a registry_scheme \<times> code_status) res" where
  "assignCode s t admin x dto =
     (if \<not> isValidHologramCodeFormat x then Inl (BadRequest ''code'')
      else case codeByText s x of
        None \<Rightarrow> Inl (NotFound ''code'')
      | Some c \<Rightarrow>
          if hcStatus c \<noteq> HC_UNASSIGNED then Inl (Conflict ''already assigned or revoked'')
          else
         (case assertNoActiveIncident s (hcId c) of
            Inl e \<Rightarrow> Inl e
          | Inr _ \<Rightarrow>
         (case soldItemById s (anItem dto) of
            None \<Rightarrow> Inl (NotFound ''order item'')
          | Some item \<Rightarrow>
              if codeOfItem s (siId item) \<noteq> None then Inl (Conflict ''the item has a code'')
              else
                (let s1 = bindItem s t admin (hcId c) item dto in
                 if siOther item then assignToOther s1 t admin (hcId c) item
                 else assignToBuyer s1 t (hcId c) item))))"

definition revokeCode ::
  "'a registry_scheme \<Rightarrow> int \<Rightarrow> nat \<Rightarrow> string \<Rightarrow> phrase option \<Rightarrow> ('a registry_scheme \<times> bool) res" where
  "revokeCode s t admin x reason =
     (case codeByText s x of
        None \<Rightarrow> Inl (NotFound ''code'')
      | Some c \<Rightarrow>
          if hcStatus c = HC_REVOKED then Inr (s, True)
          else if hcStatus c = HC_ASSIGNED then Inl (Conflict ''the code has an owner'')
          else if hcStatus c = HC_AT_AGENT then Inl (Conflict ''the bar is at an agent'')
          else if hcStatus c = HC_AGENT_OWNED then Inl (Conflict ''the bar belongs to an agent'')
          else if hcStatus c = HC_BUYBACK_PENDING then Inl (Conflict ''the bar is being bought back'')
          else
            (let s1 = (if hcStatus c = HC_TRANSFER_PENDING
                       then cancelPendingForCode s (hcId c) BY_REVOCATION else s) in
             Inr (setCode s1 (hcId c) (\<lambda>c. c\<lparr>hcStatus := HC_REVOKED, hcRevokedBy := Some admin,
                    hcRevokedAt := Some t, hcReason := reason\<rparr>), False)))"

subsection \<open>Reports of theft and loss\<close>

definition incidentTransitions :: "incident_status \<Rightarrow> incident_status list" where
  "incidentTransitions st =
     (case st of
        IN_OPEN \<Rightarrow> [IN_CONFIRMED, IN_REJECTED, IN_RECOVERED, IN_CANCELLED]
      | IN_CONFIRMED \<Rightarrow> [IN_REJECTED, IN_RECOVERED]
      | IN_RECOVERED \<Rightarrow> []
      | IN_REJECTED \<Rightarrow> []
      | IN_CANCELLED \<Rightarrow> [])"

record incident_input =
  icType :: incident_type
  icDescription :: phrase
  icAt :: "int option"

text \<open>\<open>details\<close>: the time of the incident may not lie in the future.\<close>

definition incidentDetails :: "int \<Rightarrow> incident_input \<Rightarrow> (phrase \<times> int option) res" where
  "incidentDetails t dto =
     (case icAt dto of
        None \<Rightarrow> Inr (trimText (icDescription dto), None)
      | Some x \<Rightarrow>
          if t + 60000 < x then Inl (BadRequest ''incident in the future'')
          else Inr (trimText (icDescription dto), Some x))"

definition newIncident ::
  "nat \<Rightarrow> string \<Rightarrow> nat \<Rightarrow> int \<Rightarrow> incident_type \<Rightarrow> incident_status \<Rightarrow> nat option \<Rightarrow> nat option \<Rightarrow>
   ownership option \<Rightarrow> phrase \<times> int option \<Rightarrow> incident" where
  "newIncident i number code t type st byUser byAdmin owner d =
     \<lparr>inId = i, inNumber = number, inCode = code, inType = type, inStatus = st, inByUser = byUser,
      inByAdmin = byAdmin, inOwnerName = map_option owName owner,
      inOwnerNational = map_option owNational owner, inAt = snd d, inDescription = fst d,
      inCreated = t, inReviewedBy = byAdmin,
      inReviewedAt = (if byAdmin = None then None else Some t), inNote = None,
      inClosedAt = None, inCloseReason = None\<rparr>"

definition addIncident :: "'a registry_scheme \<Rightarrow> incident \<Rightarrow> 'a registry_scheme" where
  "addIncident s r = s\<lparr>nextId := nextId s + 1, incidents := incidents s @ [r]\<rparr>"

definition fileIncident ::
  "'a registry_scheme \<Rightarrow> int \<Rightarrow> nat \<Rightarrow> incident_status \<Rightarrow> nat option \<Rightarrow> nat option \<Rightarrow>
   ownership option \<Rightarrow> incident_input \<Rightarrow> ('a registry_scheme \<times> incident) res" where
  "fileIncident s t code st byUser byAdmin owner dto =
     (case incidentDetails t dto of
        Inl e \<Rightarrow> Inl e
      | Inr d \<Rightarrow>
          (let (s1, number) = sequenceNext s ''HIR'';
               r = newIncident (nextId s1) number code t (icType dto) st byUser byAdmin owner d in
           Inr (addIncident s1 r, r)))"

definition createByOwner ::
  "'a registry_scheme \<Rightarrow> int \<Rightarrow> nat \<Rightarrow> nat \<Rightarrow> incident_input \<Rightarrow> ('a registry_scheme \<times> incident) res" where
  "createByOwner s t u i dto =
     (case codeById s i of
        None \<Rightarrow> Inl (NotFound ''bar'')
      | Some c \<Rightarrow>
     (case activeOwner s i of
        None \<Rightarrow> Inl (Forbidden ''not the owner'')
      | Some w \<Rightarrow>
          if owUser w \<noteq> u then Inl (Forbidden ''not the owner'')
          else if findActiveIncident s i \<noteq> None then Inl (Conflict ''already reported'')
          else if hcStatus c = HC_BUYBACK_PENDING then Inl (Conflict ''the bar is being bought back'')
          else fileIncident
                 (if hcStatus c = HC_TRANSFER_PENDING
                  then setCode (cancelPendingForCode s i BY_OWNER_REPORT) i (\<lambda>c. c\<lparr>hcStatus := HC_ASSIGNED\<rparr>) else s)
                 t i IN_OPEN (Some u) None (Some w) dto))"

definition pendingOf :: "'a registry_scheme \<Rightarrow> nat \<Rightarrow> transfer option" where
  "pendingOf s i = find (\<lambda>r. trCode r = i \<and> trStatus r = RQ_PENDING) (transfers s)"

text \<open>The state of the bar before a transfer that a report cancels.\<close>

definition undoTransfer :: "'a registry_scheme \<Rightarrow> nat \<Rightarrow> 'a registry_scheme" where
  "undoTransfer s i =
     setCode (cancelPendingForCode s i BY_ADMIN_REPORT) i
       (\<lambda>c. if map_option trType (pendingOf s i) = Some INITIAL_PURCHASE
            then c\<lparr>hcStatus := HC_UNASSIGNED, hcItem := None, hcAssignedBy := None, hcAssignedAt := None\<rparr>
            else c\<lparr>hcStatus := HC_ASSIGNED\<rparr>)"

definition createByAdmin ::
  "'a registry_scheme \<Rightarrow> int \<Rightarrow> nat \<Rightarrow> string \<Rightarrow> incident_input \<Rightarrow> ('a registry_scheme \<times> incident) res" where
  "createByAdmin s t admin x dto =
     (if \<not> isValidHologramCodeFormat x then Inl (BadRequest ''code'')
      else case codeByText s x of
        None \<Rightarrow> Inl (NotFound ''code'')
      | Some c \<Rightarrow>
          if hcStatus c = HC_REVOKED then Inl (Conflict ''revoked'')
          else if findActiveIncident s (hcId c) \<noteq> None then Inl (Conflict ''already reported'')
          else fileIncident
                 (if hcStatus c = HC_TRANSFER_PENDING then undoTransfer s (hcId c) else s)
                 t (hcId c) IN_CONFIRMED None (Some admin) (activeOwner s (hcId c)) dto)"

definition cancelByOwner ::
  "'a registry_scheme \<Rightarrow> int \<Rightarrow> nat \<Rightarrow> nat \<Rightarrow> phrase option \<Rightarrow> ('a registry_scheme \<times> bool) res" where
  "cancelByOwner s t u i reason =
     (case incidentById s i of
        None \<Rightarrow> Inl (NotFound ''report'')
      | Some r \<Rightarrow>
          if inByUser r \<noteq> Some u then Inl (NotFound ''report'')
          else if inStatus r = IN_CANCELLED then Inr (s, True)
          else if inStatus r \<noteq> IN_OPEN then Inl (Conflict ''no longer to be cancelled'')
          else Inr (setIncident s i (\<lambda>r. r\<lparr>inStatus := IN_CANCELLED, inClosedAt := Some t,
                      inCloseReason :=
                      Some (if trimText (case reason of None \<Rightarrow> [] | Some x \<Rightarrow> x) = [] then BY_OWNER_CANCEL
                            else trimText (case reason of None \<Rightarrow> [] | Some x \<Rightarrow> x))\<rparr>), False))"

definition incidentTransition ::
  "'a registry_scheme \<Rightarrow> int \<Rightarrow> nat \<Rightarrow> nat \<Rightarrow> incident_status \<Rightarrow> phrase option \<Rightarrow> ('a registry_scheme \<times> bool) res" where
  "incidentTransition s t admin i st txt =
     (case incidentById s i of
        None \<Rightarrow> Inl (NotFound ''report'')
      | Some r \<Rightarrow>
          if inStatus r = st then Inr (s, True)
          else if st \<notin> set (incidentTransitions (inStatus r)) then Inl (Conflict ''transition'')
          else Inr (setIncident s i (\<lambda>r.
                 (let r1 = r\<lparr>inStatus := st, inReviewedBy := Some admin, inReviewedAt := Some t\<rparr> in
                  if st = IN_CONFIRMED
                  then (case map_option trimText txt of
                          None \<Rightarrow> r1 | Some x \<Rightarrow> if x = [] then r1 else r1\<lparr>inNote := Some x\<rparr>)
                  else r1\<lparr>inClosedAt := Some t, inCloseReason := map_option trimText txt\<rparr>)), False))"

definition confirmIncident ::
  "'a registry_scheme \<Rightarrow> int \<Rightarrow> nat \<Rightarrow> nat \<Rightarrow> phrase option \<Rightarrow> ('a registry_scheme \<times> bool) res" where
  "confirmIncident s t admin i txt = incidentTransition s t admin i IN_CONFIRMED txt"

definition rejectIncident ::
  "'a registry_scheme \<Rightarrow> int \<Rightarrow> nat \<Rightarrow> nat \<Rightarrow> phrase \<Rightarrow> ('a registry_scheme \<times> bool) res" where
  "rejectIncident s t admin i reason = incidentTransition s t admin i IN_REJECTED (Some reason)"

definition recoverIncident ::
  "'a registry_scheme \<Rightarrow> int \<Rightarrow> nat \<Rightarrow> nat \<Rightarrow> phrase \<Rightarrow> ('a registry_scheme \<times> bool) res" where
  "recoverIncident s t admin i reason = incidentTransition s t admin i IN_RECOVERED (Some reason)"

text \<open>The counts of the management report, by status and type.\<close>

definition countIncidents :: "'a registry_scheme \<Rightarrow> incident_status list \<Rightarrow> incident_type option \<Rightarrow> nat" where
  "countIncidents s sts ty =
     length (filter (\<lambda>r. inStatus r \<in> set sts \<and> (ty = None \<or> ty = Some (inType r))) (incidents s))"

definition activeByCodeIds :: "'a registry_scheme \<Rightarrow> nat list \<Rightarrow> nat \<rightharpoonup> incident" where
  "activeByCodeIds s ids i = (if i \<in> set ids then findActiveIncident s i else None)"

end
