(* ===== verification/Buyback.thy ===== *)
theory Buyback
  imports Hologram Deposit ShopPrice
begin

section \<open>Buying bars back\<close>

text \<open>
  \<open>api/src/buyback/buyback.service.ts\<close>: the owner of a bar offers it to the company. The bar is locked,
  delivered to the office, inspected and priced; the owner accepts or declines the price within a time
  limit; two members of the staff approve and pay. A paid bar goes back to the vault with a journal entry,
  an unpaid one goes back to its owner. Notes, notifications, the reasons of returns and the texts of the
  events are not modelled.
\<close>

subsection \<open>Tables\<close>

datatype buyback_status =
  BB_SUBMITTED | BB_AWAITING_DELIVERY | BB_RECEIVED | BB_INSPECTION_PASSED | BB_OFFERED | BB_ACCEPTED
  | BB_APPROVED | BB_PAID | BB_RETURN_PENDING | BB_RETURNED | BB_REJECTED | BB_CANCELLED

datatype delivery_way = IN_PERSON | INSURED_POST

datatype price_basis = FINENESS | KARAT | MANUAL

record price_breakdown =
  pbPerGram :: int
  pbWeight :: rat
  pbGross :: int
  pbPercent :: rat
  pbDeduction :: int
  pbFee :: int
  pbNet :: int
  pbBasis :: price_basis

text \<open>The columns of a bank account that a payout needs beyond those of \<open>bank_account\<close>.\<close>

record pay_account = bank_account +
  paDefault :: bool
  paVerified :: bool
  paOwner :: "phrase option"

record checklist =
  ckHologram :: bool
  ckSerial :: bool
  ckPackaging :: bool
  ckSurface :: bool
  ckPurity :: bool

text \<open>The columns of an offer are set together.\<close>

record offer_row =
  ofBy :: nat
  ofAt :: int
  ofExpires :: int
  ofPerGram :: int
  ofGross :: int
  ofDeduction :: int
  ofFee :: int
  ofNet :: int

record buyback =
  bbId :: nat
  bbNumber :: string
  bbUser :: nat
  bbCode :: nat
  bbOwnership :: nat
  bbStatus :: buyback_status
  bbWeight :: rat
  bbPurity :: "string option"
  bbOwnerName :: phrase
  bbOwnerNational :: string
  bbDelivery :: delivery_way
  bbEstimate :: int
  bbBank :: nat
  bbDestination :: pay_account
  bbReviewedBy :: "nat option"
  bbReviewedAt :: "int option"
  bbAppointment :: "int option"
  bbReceivedBy :: "nat option"
  bbReceivedAt :: "int option"
  bbInspectedBy :: "nat option"
  bbInspectedAt :: "int option"
  bbPassed :: "bool option"
  bbChecklist :: "checklist option"
  bbMeasured :: "rat option"
  bbFineness :: "rat option"
  bbOffer :: "offer_row option"
  bbAcceptedAt :: "int option"
  bbApprovedBy :: "nat option"
  bbApprovedAt :: "int option"
  bbPaidBy :: "nat option"
  bbPaidAt :: "int option"
  bbReference :: "string option"
  bbMethod :: "string option"
  bbSource :: "string option"
  bbJournal :: "nat option"
  bbReason :: "phrase option"
  bbReturnedBy :: "nat option"
  bbReturnedAt :: "int option"
  bbCancelledAt :: "int option"

datatype bb_actor = BB_USER nat | BB_ADMIN nat | BB_SYSTEM

record bb_event =
  beRequest :: nat
  beFrom :: "buyback_status option"
  beTo :: buyback_status
  beActor :: bb_actor

record vault = registry +
  payAccounts :: "pay_account list"
  buybacks :: "buyback list"
  bbEvents :: "bb_event list"

definition OPEN_STATUSES :: "buyback_status list" where
  "OPEN_STATUSES = [BB_SUBMITTED, BB_AWAITING_DELIVERY, BB_RECEIVED, BB_INSPECTION_PASSED, BB_OFFERED,
     BB_ACCEPTED, BB_APPROVED, BB_RETURN_PENDING]"

definition ACTION_STATUSES :: "buyback_status list" where
  "ACTION_STATUSES = [BB_SUBMITTED, BB_AWAITING_DELIVERY, BB_RECEIVED, BB_INSPECTION_PASSED, BB_ACCEPTED,
     BB_APPROVED, BB_RETURN_PENDING]"

definition buybackById :: "'a vault_scheme \<Rightarrow> nat \<Rightarrow> buyback option" where
  "buybackById s i = find (\<lambda>r. bbId r = i) (buybacks s)"

definition setBuyback :: "'a vault_scheme \<Rightarrow> nat \<Rightarrow> (buyback \<Rightarrow> buyback) \<Rightarrow> 'a vault_scheme" where
  "setBuyback s i f = s\<lparr>buybacks := update_where (\<lambda>r. bbId r = i) f (buybacks s)\<rparr>"

subsection \<open>Settings and price\<close>

record buyback_config =
  bcEnabled :: bool
  bcPercent :: rat
  bcFee :: rat
  bcValidityHours :: rat
  bcHoldingDays :: rat
  bcMaxOpen :: rat
  bcDropoff :: string
  bcPost :: string

text \<open>\<open>x || y\<close> of numbers.\<close>

definition orNumber :: "rat \<Rightarrow> rat \<Rightarrow> rat" where
  "orNumber x y = (if x = 0 then y else x)"

definition buybackConfig :: "'a ledger_scheme \<Rightarrow> buyback_config" where
  "buybackConfig s =
     \<lparr>bcEnabled = getBoolean s ''buyback.enabled'' True,
      bcPercent = min (max (getNumber s ''buyback.deduction_percent'' 2) 0) 50,
      bcFee = max (getNumber s ''buyback.fee_rial'' 0) 0,
      bcValidityHours = min (max (orNumber (getNumber s ''buyback.offer_validity_hours'' 24) 24) 1) 720,
      bcHoldingDays = max 0 (getNumber s ''buyback.min_holding_days'' 0),
      bcMaxOpen = max 1 (orNumber (getNumber s ''buyback.max_open_requests'' 5) 5),
      bcDropoff = trim (getText s ''buyback.dropoff_address''),
      bcPost = trim (getText s ''buyback.post_instructions'')\<rparr>"

record price_input =
  pqWeight :: rat
  pqPurity :: "string option"
  pqFineness :: "rat option"
  pqPerGram :: "int option"
  pqPercent :: "rat option"
  pqFee :: "int option"

text \<open>
  \<open>current\<close> is the price of a gram of 18 carat and \<open>prec\<close> the rounding of the decimal library to its
  significant digits, which shows in the quotient by 750 only.
\<close>

definition perGramRial ::
  "(rat \<Rightarrow> rat) \<Rightarrow> 'a ledger_scheme \<Rightarrow> rat option \<Rightarrow> price_input \<Rightarrow> (price_basis \<times> rat) res" where
  "perGramRial prec s current q =
     (case pqPerGram q of
        Some p \<Rightarrow> Inr (MANUAL, of_int p)
      | None \<Rightarrow>
         (case pqFineness q of
            Some f \<Rightarrow>
             (case resolveGoldPricePerGram prec s current ''K18'' of
                Inl e \<Rightarrow> Inl e
              | Inr p \<Rightarrow> Inr (FINENESS, prec (p * f / 750)))
          | None \<Rightarrow>
             (case resolveGoldPricePerGram prec s current
                     (case pqPurity q of None \<Rightarrow> ''K24'' | Some k \<Rightarrow> k) of
                Inl e \<Rightarrow> Inl e
              | Inr p \<Rightarrow> Inr (KARAT, p))))"

definition priceBreakdown :: "price_basis \<Rightarrow> int \<Rightarrow> rat \<Rightarrow> rat \<Rightarrow> rat \<Rightarrow> price_breakdown" where
  "priceBreakdown basis perGram weight pct fee =
     (let gross = \<lfloor>of_int perGram * weight\<rfloor>;
          deduction = \<lfloor>of_int gross * pct / 100\<rfloor>;
          net = \<lfloor>(of_int (gross - deduction) - fee) / 1000\<rfloor> * 1000 in
      \<lparr>pbPerGram = perGram, pbWeight = weight, pbGross = gross, pbPercent = pct,
       pbDeduction = deduction, pbFee = round_half_up fee, pbNet = max net 0, pbBasis = basis\<rparr>)"

definition computePrice ::
  "(rat \<Rightarrow> rat) \<Rightarrow> 'a ledger_scheme \<Rightarrow> rat option \<Rightarrow> price_input \<Rightarrow> price_breakdown res" where
  "computePrice prec s current q =
     (case perGramRial prec s current q of
        Inl e \<Rightarrow> Inl e
      | Inr (basis, p) \<Rightarrow>
          if \<lfloor>p\<rfloor> \<le> 0 then Inl (BadRequest ''price of a gram'')
          else Inr (priceBreakdown basis \<lfloor>p\<rfloor> (pqWeight q)
                 (case pqPercent q of Some x \<Rightarrow> x | None \<Rightarrow> bcPercent (buybackConfig s))
                 (case pqFee q of Some x \<Rightarrow> of_int x | None \<Rightarrow> bcFee (buybackConfig s))))"

subsection \<open>Helpers\<close>

definition bbEvent ::
  "'a vault_scheme \<Rightarrow> nat \<Rightarrow> buyback_status option \<Rightarrow> buyback_status \<Rightarrow> bb_actor \<Rightarrow> 'a vault_scheme" where
  "bbEvent s i src dst actor =
     s\<lparr>bbEvents := bbEvents s @ [\<lparr>beRequest = i, beFrom = src, beTo = dst, beActor = actor\<rparr>]\<rparr>"

text \<open>\<open>lockRequest\<close>: the request, if the user (when given) owns it and its status allows the action.\<close>

definition lockRequest ::
  "'a vault_scheme \<Rightarrow> nat \<Rightarrow> buyback_status list \<Rightarrow> nat option \<Rightarrow> buyback res" where
  "lockRequest s i allowed u =
     (case buybackById s i of
        None \<Rightarrow> Inl (NotFound ''buyback request'')
      | Some r \<Rightarrow>
          if u \<noteq> None \<and> u \<noteq> Some (bbUser r) then Inl (NotFound ''buyback request'')
          else if bbStatus r \<notin> set allowed then Inl (Conflict ''not allowed in this status'')
          else Inr r)"

definition releaseCode :: "'a vault_scheme \<Rightarrow> nat \<Rightarrow> 'a vault_scheme" where
  "releaseCode s c =
     s\<lparr>codes := update_where (\<lambda>x. hcId x = c \<and> hcStatus x = HC_BUYBACK_PENDING)
                  (\<lambda>x. x\<lparr>hcStatus := HC_ASSIGNED\<rparr>) (codes s)\<rparr>"

definition defaultBankAccount :: "'a vault_scheme \<Rightarrow> nat \<Rightarrow> pay_account option" where
  "defaultBankAccount s u =
     find (\<lambda>a. baUser a = u \<and> paDefault a \<and> baVerified a \<and> paVerified a) (payAccounts s)"

definition openOf :: "'a vault_scheme \<Rightarrow> nat \<Rightarrow> buyback list" where
  "openOf s u = filter (\<lambda>r. bbUser r = u \<and> bbStatus r \<in> set OPEN_STATUSES) (buybacks s)"

text \<open>The moment from which an owner may sell, with a minimum of holding days.\<close>

definition holdingAllowedAt :: "buyback_config \<Rightarrow> ownership \<Rightarrow> int" where
  "holdingAllowedAt cfg w = round_down (of_int (owStart w) + bcHoldingDays cfg * 86400000)"

subsection \<open>Requests of the owner\<close>

record create_input =
  crCode :: nat
  crDelivery :: delivery_way

definition newBuyback ::
  "nat \<Rightarrow> string \<Rightarrow> nat \<Rightarrow> bar_code \<Rightarrow> rat \<Rightarrow> ownership \<Rightarrow> delivery_way \<Rightarrow> int \<Rightarrow> pay_account \<Rightarrow> buyback" where
  "newBuyback i number u c weight w way estimate a =
     \<lparr>bbId = i, bbNumber = number, bbUser = u, bbCode = hcId c, bbOwnership = owId w,
      bbStatus = BB_SUBMITTED, bbWeight = weight, bbPurity = hcPurity c, bbOwnerName = owName w,
      bbOwnerNational = owNational w, bbDelivery = way, bbEstimate = estimate, bbBank = baId a,
      bbDestination = a, bbReviewedBy = None, bbReviewedAt = None, bbAppointment = None,
      bbReceivedBy = None, bbReceivedAt = None, bbInspectedBy = None, bbInspectedAt = None,
      bbPassed = None, bbChecklist = None, bbMeasured = None, bbFineness = None, bbOffer = None,
      bbAcceptedAt = None, bbApprovedBy = None, bbApprovedAt = None, bbPaidBy = None, bbPaidAt = None,
      bbReference = None, bbMethod = None, bbSource = None, bbJournal = None, bbReason = None,
      bbReturnedBy = None, bbReturnedAt = None, bbCancelledAt = None\<rparr>"

text \<open>The checks of the transaction, on the bar with its owner and on the user.\<close>

definition createChecks ::
  "'a vault_scheme \<Rightarrow> int \<Rightarrow> nat \<Rightarrow> string \<Rightarrow> nat \<Rightarrow> (bar_code \<times> ownership \<times> pay_account) res" where
  "createChecks s t u national i =
     (let cfg = buybackConfig s in
      case codeById s i of
        None \<Rightarrow> Inl (NotFound ''bar'')
      | Some c \<Rightarrow>
     (case activeOwner s i of
        None \<Rightarrow> Inl (Forbidden ''not the owner'')
      | Some w \<Rightarrow>
          if owUser w \<noteq> u then Inl (Forbidden ''not the owner'')
          else if owNational w \<noteq> national then Inl (Forbidden ''another national code'')
          else if hcStatus c = HC_BUYBACK_PENDING then Inl (Conflict ''already requested'')
          else if hcStatus c \<noteq> HC_ASSIGNED then Inl (Conflict ''the bar cannot be sold now'')
          else
         (case assertNoActiveIncident s i of
            Inl e \<Rightarrow> Inl e
          | Inr _ \<Rightarrow>
              if 0 < bcHoldingDays cfg \<and> t < holdingAllowedAt cfg w then Inl (Conflict ''too early'')
              else if bcMaxOpen cfg \<le> of_nat (length (openOf s u)) then Inl (Conflict ''too many requests'')
              else
             (case defaultBankAccount s u of
                None \<Rightarrow> Inl (Conflict ''no verified default account'')
              | Some a \<Rightarrow> Inr (c, w, a)))))"

definition createWrites ::
  "'a vault_scheme \<Rightarrow> nat \<Rightarrow> create_input \<Rightarrow> int \<Rightarrow> rat \<Rightarrow> bar_code \<times> ownership \<times> pay_account \<Rightarrow>
   'a vault_scheme \<times> buyback" where
  "createWrites s u dto estimate preview p =
     (case p of (c, w, a) \<Rightarrow>
       (let (s1, number) = sequenceNext s ''BBK'';
            r = newBuyback (nextId s1) number u c (case hcWeight c of None \<Rightarrow> preview | Some x \<Rightarrow> x) w
                  (crDelivery dto) estimate a;
            s2 = s1\<lparr>nextId := nextId s1 + 1, buybacks := buybacks s1 @ [r]\<rparr>;
            s3 = setCode s2 (hcId c) (\<lambda>c. c\<lparr>hcStatus := HC_BUYBACK_PENDING\<rparr>) in
        (bbEvent s3 (bbId r) None BB_SUBMITTED (BB_USER u), r)))"

definition verifiedNational :: "'a registry_scheme \<Rightarrow> nat \<Rightarrow> string option" where
  "verifiedNational s u =
     (case identityOf s u of
        None \<Rightarrow> None
      | Some x \<Rightarrow>
          if idStatus x \<noteq> ID_VERIFIED then None
          else (case idNational x of None \<Rightarrow> None | Some n \<Rightarrow> if n = [] then None else Some n))"

definition createBuyback ::
  "(rat \<Rightarrow> rat) \<Rightarrow> 'a vault_scheme \<Rightarrow> int \<Rightarrow> rat option \<Rightarrow> nat \<Rightarrow> create_input \<Rightarrow>
   ('a vault_scheme \<times> buyback) res" where
  "createBuyback prec s t current u dto =
     (let cfg = buybackConfig s in
      if \<not> bcEnabled cfg then Inl (Forbidden ''buying back is disabled'')
      else if crDelivery dto = INSURED_POST \<and> bcPost cfg = [] then Inl (BadRequest ''no post'')
      else
     (case verifiedNational s u of
        None \<Rightarrow> Inl (Forbidden ''identity'')
      | Some national \<Rightarrow>
     (case codeById s (crCode dto) of
        None \<Rightarrow> Inl (NotFound ''bar'')
      | Some b \<Rightarrow>
     (case hcWeight b of
        None \<Rightarrow> Inl (Conflict ''the weight is not registered'')
      | Some weight \<Rightarrow>
     (case computePrice prec s current
             \<lparr>pqWeight = weight, pqPurity = hcPurity b, pqFineness = None, pqPerGram = None,
              pqPercent = None, pqFee = None\<rparr> of
        Inl e \<Rightarrow> Inl e
      | Inr estimate \<Rightarrow>
     (case createChecks s t u national (crCode dto) of
        Inl e \<Rightarrow> Inl e
      | Inr p \<Rightarrow> Inr (createWrites s u dto (pbNet estimate) weight p)))))))"

definition bbCancelByUser ::
  "'a vault_scheme \<Rightarrow> int \<Rightarrow> nat \<Rightarrow> nat \<Rightarrow> phrase option \<Rightarrow> 'a vault_scheme res" where
  "bbCancelByUser s t u i reason =
     (case lockRequest s i [BB_SUBMITTED, BB_AWAITING_DELIVERY] (Some u) of
        Inl e \<Rightarrow> Inl e
      | Inr r \<Rightarrow>
         (let s1 = setBuyback s i (\<lambda>r. r\<lparr>bbStatus := BB_CANCELLED, bbCancelledAt := Some t, bbReason := reason\<rparr>) in
          Inr (bbEvent (releaseCode s1 (bbCode r)) i (Some (bbStatus r)) BB_CANCELLED (BB_USER u))))"

definition respondToOffer ::
  "'a vault_scheme \<Rightarrow> int \<Rightarrow> nat \<Rightarrow> nat \<Rightarrow> bool \<Rightarrow> 'a vault_scheme res" where
  "respondToOffer s t u i agree =
     (case lockRequest s i [BB_OFFERED] (Some u) of
        Inl e \<Rightarrow> Inl e
      | Inr r \<Rightarrow>
         (case bbOffer r of
            None \<Rightarrow> Inl (Conflict ''the offer has ended'')
          | Some x \<Rightarrow>
              if ofExpires x \<le> t then Inl (Conflict ''the offer has ended'')
              else if agree then
                Inr (bbEvent (setBuyback s i (\<lambda>r. r\<lparr>bbStatus := BB_ACCEPTED, bbAcceptedAt := Some t\<rparr>))
                      i (Some BB_OFFERED) BB_ACCEPTED (BB_USER u))
              else
                Inr (bbEvent (setBuyback s i (\<lambda>r. r\<lparr>bbStatus := BB_RETURN_PENDING\<rparr>))
                      i (Some BB_OFFERED) BB_RETURN_PENDING (BB_USER u))))"

subsection \<open>The staff: delivery, inspection and offer\<close>

definition reviewedBy :: "nat \<Rightarrow> int \<Rightarrow> buyback \<Rightarrow> buyback" where
  "reviewedBy admin t r =
     r\<lparr>bbReviewedBy := orElse (bbReviewedBy r) (Some admin), bbReviewedAt := orElse (bbReviewedAt r) (Some t)\<rparr>"

definition acceptBuyback :: "'a vault_scheme \<Rightarrow> int \<Rightarrow> nat \<Rightarrow> nat \<Rightarrow> int option \<Rightarrow> 'a vault_scheme res" where
  "acceptBuyback s t admin i appointment =
     (case lockRequest s i [BB_SUBMITTED, BB_AWAITING_DELIVERY] None of
        Inl e \<Rightarrow> Inl e
      | Inr r \<Rightarrow>
          Inr (bbEvent (setBuyback s i (\<lambda>r. (reviewedBy admin t r)\<lparr>bbStatus := BB_AWAITING_DELIVERY,
                 bbAppointment := appointment\<rparr>)) i (Some (bbStatus r)) BB_AWAITING_DELIVERY (BB_ADMIN admin)))"

definition rejectBuyback :: "'a vault_scheme \<Rightarrow> int \<Rightarrow> nat \<Rightarrow> nat \<Rightarrow> phrase \<Rightarrow> 'a vault_scheme res" where
  "rejectBuyback s t admin i reason =
     (case lockRequest s i [BB_SUBMITTED, BB_AWAITING_DELIVERY] None of
        Inl e \<Rightarrow> Inl e
      | Inr r \<Rightarrow>
         (let s1 = setBuyback s i (\<lambda>r. (reviewedBy admin t r)\<lparr>bbStatus := BB_REJECTED,
                     bbReason := Some (trimText reason)\<rparr>) in
          Inr (bbEvent (releaseCode s1 (bbCode r)) i (Some (bbStatus r)) BB_REJECTED (BB_ADMIN admin))))"

definition markReceived :: "'a vault_scheme \<Rightarrow> int \<Rightarrow> nat \<Rightarrow> nat \<Rightarrow> 'a vault_scheme res" where
  "markReceived s t admin i =
     (case lockRequest s i [BB_SUBMITTED, BB_AWAITING_DELIVERY] None of
        Inl e \<Rightarrow> Inl e
      | Inr r \<Rightarrow>
          Inr (bbEvent (setBuyback s i (\<lambda>r. (reviewedBy admin t r)\<lparr>bbStatus := BB_RECEIVED,
                 bbReceivedBy := Some admin, bbReceivedAt := Some t\<rparr>))
                i (Some (bbStatus r)) BB_RECEIVED (BB_ADMIN admin)))"

record inspect_input =
  isPassed :: bool
  isChecklist :: checklist
  isWeight :: "rat option"
  isFineness :: "rat option"
  isNote :: "phrase option"

definition allChecks :: "checklist \<Rightarrow> bool" where
  "allChecks k \<longleftrightarrow> ckHologram k \<and> ckSerial k \<and> ckPackaging k \<and> ckSurface k \<and> ckPurity k"

definition inspectBuyback :: "'a vault_scheme \<Rightarrow> int \<Rightarrow> nat \<Rightarrow> nat \<Rightarrow> inspect_input \<Rightarrow> 'a vault_scheme res" where
  "inspectBuyback s t admin i dto =
     (if isPassed dto \<and> \<not> allChecks (isChecklist dto) then Inl (BadRequest ''checklist'')
      else if isPassed dto \<and> isWeight dto = None then Inl (BadRequest ''weight'')
      else if \<not> isPassed dto \<and> (case isNote dto of None \<Rightarrow> True | Some x \<Rightarrow> trimText x = [])
      then Inl (BadRequest ''reason'')
      else case lockRequest s i [BB_RECEIVED, BB_INSPECTION_PASSED] None of
        Inl e \<Rightarrow> Inl e
      | Inr r \<Rightarrow>
         (let dst = (if isPassed dto then BB_INSPECTION_PASSED else BB_RETURN_PENDING) in
          Inr (bbEvent (setBuyback s i (\<lambda>r. r\<lparr>bbStatus := dst, bbInspectedBy := Some admin,
                 bbInspectedAt := Some t, bbPassed := Some (isPassed dto),
                 bbChecklist := Some (isChecklist dto), bbMeasured := map_option numeric4 (isWeight dto),
                 bbFineness := isFineness dto\<rparr>)) i (Some (bbStatus r)) dst (BB_ADMIN admin))))"

definition pricingWeight :: "buyback \<Rightarrow> rat" where
  "pricingWeight r =
     (case bbMeasured r of None \<Rightarrow> bbWeight r | Some m \<Rightarrow> min m (bbWeight r))"

record offer_input =
  oiPerGram :: "int option"
  oiPercent :: "rat option"
  oiFee :: "int option"

definition suggestOffer ::
  "(rat \<Rightarrow> rat) \<Rightarrow> 'a vault_scheme \<Rightarrow> rat option \<Rightarrow> nat \<Rightarrow> offer_input \<Rightarrow> price_breakdown res" where
  "suggestOffer prec s current i dto =
     (case buybackById s i of
        None \<Rightarrow> Inl (NotFound ''buyback request'')
      | Some r \<Rightarrow>
          computePrice prec s current
            \<lparr>pqWeight = pricingWeight r, pqPurity = bbPurity r, pqFineness = bbFineness r,
             pqPerGram = oiPerGram dto, pqPercent = oiPercent dto, pqFee = oiFee dto\<rparr>)"

definition offerOf :: "nat \<Rightarrow> int \<Rightarrow> int \<Rightarrow> price_breakdown \<Rightarrow> offer_row" where
  "offerOf admin t expires p =
     \<lparr>ofBy = admin, ofAt = t, ofExpires = expires, ofPerGram = pbPerGram p, ofGross = pbGross p,
      ofDeduction = pbDeduction p, ofFee = pbFee p, ofNet = pbNet p\<rparr>"

definition offerExpiresAt :: "'a ledger_scheme \<Rightarrow> int \<Rightarrow> int" where
  "offerExpiresAt s t = round_down (of_int t + bcValidityHours (buybackConfig s) * 3600000)"

text \<open>The transaction of \<open>offer\<close>, with the price that was computed before it.\<close>

definition offerWrites ::
  "'a vault_scheme \<Rightarrow> int \<Rightarrow> nat \<Rightarrow> nat \<Rightarrow> int \<Rightarrow> price_breakdown \<Rightarrow> 'a vault_scheme res" where
  "offerWrites s t admin i expires p =
     (case lockRequest s i [BB_INSPECTION_PASSED, BB_OFFERED] None of
        Inl e \<Rightarrow> Inl e
      | Inr r \<Rightarrow>
          if bbPassed r \<noteq> Some True then Inl (Conflict ''the inspection has to pass first'')
          else Inr (bbEvent (setBuyback s i (\<lambda>r. r\<lparr>bbStatus := BB_OFFERED,
                      bbOffer := Some (offerOf admin t expires p), bbAcceptedAt := None\<rparr>))
                      i (Some (bbStatus r)) BB_OFFERED (BB_ADMIN admin)))"

definition offerBuyback ::
  "(rat \<Rightarrow> rat) \<Rightarrow> 'a vault_scheme \<Rightarrow> int \<Rightarrow> rat option \<Rightarrow> nat \<Rightarrow> nat \<Rightarrow> offer_input \<Rightarrow>
   ('a vault_scheme \<times> price_breakdown) res" where
  "offerBuyback prec s t current admin i dto =
     (case suggestOffer prec s current i dto of
        Inl e \<Rightarrow> Inl e
      | Inr p \<Rightarrow>
          if pbNet p \<le> 0 then Inl (BadRequest ''nothing left to pay'')
          else
         (case offerWrites s t admin i (offerExpiresAt s t) p of
            Inl e \<Rightarrow> Inl e
          | Inr s1 \<Rightarrow> Inr (s1, p)))"

subsection \<open>Approval and payout\<close>

text \<open>The destination follows the default account that the user has now.\<close>

definition approveBuyback :: "'a vault_scheme \<Rightarrow> int \<Rightarrow> nat \<Rightarrow> nat \<Rightarrow> 'a vault_scheme res" where
  "approveBuyback s t admin i =
     (case lockRequest s i [BB_ACCEPTED] None of
        Inl e \<Rightarrow> Inl e
      | Inr r \<Rightarrow>
         (case defaultBankAccount s (bbUser r) of
            None \<Rightarrow> Inl (Conflict ''no verified default account'')
          | Some a \<Rightarrow>
              Inr (bbEvent (setBuyback s i (\<lambda>r.
                     (let r1 = r\<lparr>bbStatus := BB_APPROVED, bbApprovedBy := Some admin, bbApprovedAt := Some t\<rparr> in
                      if baId a \<noteq> bbBank r then r1\<lparr>bbBank := baId a, bbDestination := a\<rparr> else r1)))
                    i (Some BB_ACCEPTED) BB_APPROVED (BB_ADMIN admin))))"

record bb_pay_input =
  bpReference :: string
  bpSource :: "string option"
  bpMethod :: "string option"
  bpPaidAt :: "int option"

definition netOf :: "buyback \<Rightarrow> int" where
  "netOf r = (case bbOffer r of None \<Rightarrow> 0 | Some x \<Rightarrow> ofNet x)"

definition buybackJournal ::
  "buyback \<Rightarrow> nat \<Rightarrow> rat \<Rightarrow> string \<Rightarrow> int option \<Rightarrow> journal_input" where
  "buybackJournal r admin grams source paidAt =
     \<lparr>jiDescription = ''bar bought back'', jiTotalRial = netOf r, jiTotalGrams = grams,
      jiLines = [\<lparr>liCode = ''1025'', liSide = DEBIT, liRial = Some (netOf r), liGrams = Some grams,
                  liDescription = None\<rparr>,
                 \<lparr>liCode = source, liSide = CREDIT, liRial = Some (netOf r), liGrams = None,
                  liDescription = None\<rparr>,
                 \<lparr>liCode = ''1095'', liSide = CREDIT, liRial = None, liGrams = Some grams,
                  liDescription = None\<rparr>],
      jiSource = None, jiRefType = Some ''BULLION_BUYBACK'', jiRefId = Some (bbId r),
      jiEntryDate = paidAt, jiCreatedBy = Some admin, jiReversalOf = None, jiTransaction = None\<rparr>"

text \<open>The checks of \<open>pay\<close> on the request, and the bar it is about.\<close>

definition payBuybackChecks ::
  "'a vault_scheme \<Rightarrow> nat \<Rightarrow> nat \<Rightarrow> (buyback \<times> bar_code) res" where
  "payBuybackChecks s admin i =
     (case lockRequest s i [BB_APPROVED] None of
        Inl e \<Rightarrow> Inl e
      | Inr r \<Rightarrow>
          if netOf r \<le> 0 then Inl (Conflict ''no net amount'')
          else if requiresDualControl (netOf r) (getNumber s ''withdrawal.dual_control_threshold'' 500000000)
                  \<and> bbApprovedBy r = Some admin then Inl (Forbidden ''dual control'')
          else
         (case find (\<lambda>a. baId a = bbBank r) (payAccounts s) of
            None \<Rightarrow> Inl (Conflict ''the account is no longer verified'')
          | Some a \<Rightarrow>
              if \<not> (paVerified a \<and> baVerified a) then Inl (Conflict ''the account is no longer verified'')
              else
             (case assertNoActiveIncident s (bbCode r) of
                Inl e \<Rightarrow> Inl e
              | Inr _ \<Rightarrow>
                 (case codeById s (bbCode r) of
                    None \<Rightarrow> Inl (DbConstraint ''record not found'')
                  | Some c \<Rightarrow>
                      if hcStatus c \<noteq> HC_BUYBACK_PENDING then Inl (Conflict ''the status of the bar'')
                      else Inr (r, c)))))"

definition BY_BUYBACK :: phrase where
    "BY_BUYBACK = [1576, 1575, 1586, 1582, 1585, 1740, 1583, 32, 1588, 1605, 1588, 32, 1578, 1608,
     1587, 1591, 32, 1570, 1585, 1705, 1575, 1606, 32, 1711, 1604, 1583]"

text \<open>The end of the ownership and the return of the bar to the vault.\<close>

definition toVault :: "'a vault_scheme \<Rightarrow> int \<Rightarrow> nat \<Rightarrow> 'a vault_scheme" where
  "toVault s paidAt i =
     setCode (cancelPendingForCode (endOwnerships s i paidAt) i BY_BUYBACK) i
       (\<lambda>c. c\<lparr>hcStatus := HC_UNASSIGNED, hcItem := None, hcAssignedBy := None, hcAssignedAt := None,
              hcVaultAt := Some paidAt\<rparr>)"

definition payDateOf :: "int \<Rightarrow> bb_pay_input \<Rightarrow> int" where
  "payDateOf t dto = (case bpPaidAt dto of None \<Rightarrow> t | Some x \<Rightarrow> x)"

definition gramsOfBar :: "buyback \<Rightarrow> bar_code \<Rightarrow> rat" where
  "gramsOfBar r c = (case hcWeight c of None \<Rightarrow> bbWeight r | Some x \<Rightarrow> x)"

definition paidRow :: "nat \<Rightarrow> int \<Rightarrow> bb_pay_input \<Rightarrow> string \<Rightarrow> nat \<Rightarrow> buyback \<Rightarrow> buyback" where
  "paidRow admin paidAt dto source j r = r\<lparr>bbStatus := BB_PAID,
                         bbPaidBy := Some admin, bbPaidAt := Some paidAt,
                         bbReference := Some (trim (bpReference dto)),
                         bbMethod := Some (case bpMethod dto of None \<Rightarrow> ''PAYA'' | Some m \<Rightarrow> m),
                         bbSource := Some source, bbJournal := Some j\<rparr>"

definition payBuyback :: "'a vault_scheme \<Rightarrow> int \<Rightarrow> nat \<Rightarrow> nat \<Rightarrow> bb_pay_input \<Rightarrow> 'a vault_scheme res" where
  "payBuyback s t admin i dto =
     (if t + 60000 < payDateOf t dto then Inl (BadRequest ''date of payment'')
      else
     (case payBuybackChecks s admin i of
        Inl e \<Rightarrow> Inl e
      | Inr (r, c) \<Rightarrow>
         (case resolveBankAccount s (bpSource dto) (Some ''withdrawal.default_source_account'') of
            Inl e \<Rightarrow> Inl e
          | Inr source \<Rightarrow>
             (case postJournal s t (buybackJournal r admin (gramsOfBar r c) source (bpPaidAt dto)) of
                Inl e \<Rightarrow> Inl e
              | Inr (s1, j) \<Rightarrow>
                  Inr (bbEvent (setBuyback (toVault s1 (payDateOf t dto) (hcId c)) i
                                  (paidRow admin (payDateOf t dto) dto source j))
                        i (Some BB_APPROVED) BB_PAID (BB_ADMIN admin))))))"

subsection \<open>Returns and expiry\<close>

definition requestReturn :: "'a vault_scheme \<Rightarrow> nat \<Rightarrow> nat \<Rightarrow> 'a vault_scheme res" where
  "requestReturn s admin i =
     (case lockRequest s i [BB_RECEIVED, BB_INSPECTION_PASSED, BB_OFFERED, BB_ACCEPTED, BB_APPROVED] None of
        Inl e \<Rightarrow> Inl e
      | Inr r \<Rightarrow>
          Inr (bbEvent (setBuyback s i (\<lambda>r. r\<lparr>bbStatus := BB_RETURN_PENDING\<rparr>))
                i (Some (bbStatus r)) BB_RETURN_PENDING (BB_ADMIN admin)))"

definition markBarReturned :: "'a vault_scheme \<Rightarrow> int \<Rightarrow> nat \<Rightarrow> nat \<Rightarrow> 'a vault_scheme res" where
  "markBarReturned s t admin i =
     (case lockRequest s i [BB_RETURN_PENDING] None of
        Inl e \<Rightarrow> Inl e
      | Inr r \<Rightarrow>
         (let s1 = setBuyback s i (\<lambda>r. r\<lparr>bbStatus := BB_RETURNED, bbReturnedAt := Some t, bbReturnedBy := Some admin\<rparr>) in
          Inr (bbEvent (releaseCode s1 (bbCode r)) i (Some BB_RETURN_PENDING) BB_RETURNED (BB_ADMIN admin))))"

definition staleOffer :: "int \<Rightarrow> buyback \<Rightarrow> bool" where
  "staleOffer t r \<longleftrightarrow> (case bbOffer r of None \<Rightarrow> False | Some x \<Rightarrow> ofExpires x < t)"

definition expireOffer :: "int \<Rightarrow> 'a vault_scheme \<Rightarrow> nat \<Rightarrow> 'a vault_scheme" where
  "expireOffer t s i =
     (case lockRequest s i [BB_OFFERED] None of
        Inl e \<Rightarrow> s
      | Inr r \<Rightarrow>
          if \<not> staleOffer t r then s
          else bbEvent (setBuyback s i (\<lambda>r. r\<lparr>bbStatus := BB_INSPECTION_PASSED\<rparr>))
                 i (Some BB_OFFERED) BB_INSPECTION_PASSED BB_SYSTEM)"

definition expireOffers :: "'a vault_scheme \<Rightarrow> int \<Rightarrow> 'a vault_scheme" where
  "expireOffers s t =
     foldl (expireOffer t) s
       (take 200 (map bbId (filter (\<lambda>r. bbStatus r = BB_OFFERED \<and> staleOffer t r) (buybacks s))))"

subsection \<open>The overview of the user and the counts of the staff\<close>

record bar_row =
  brCode :: nat
  brReasons :: "string list"
  brEstimate :: "price_breakdown option"

text \<open>The requests that \<open>listMine\<close> reads: the hundred newest.\<close>

definition listMine :: "'a vault_scheme \<Rightarrow> nat \<Rightarrow> buyback list" where
  "listMine s u = take 100 (rev (filter (\<lambda>r. bbUser r = u) (buybacks s)))"

definition openCodes :: "'a vault_scheme \<Rightarrow> nat \<Rightarrow> nat list" where
  "openCodes s u = remdups (map bbCode (filter (\<lambda>r. bbStatus r \<in> set OPEN_STATUSES) (listMine s u)))"

definition saleObstacles :: "'a vault_scheme \<Rightarrow> int \<Rightarrow> nat \<Rightarrow> bar_code \<Rightarrow> ownership \<Rightarrow> string list" where
  "saleObstacles s t u c w =
     (let cfg = buybackConfig s in
      (if hcId c \<in> set (openCodes s u) then [''open request'']
       else if hcStatus c = HC_TRANSFER_PENDING then [''transfer pending'']
       else if hcStatus c \<noteq> HC_ASSIGNED then [''status''] else [])
      @ (if findActiveIncident s (hcId c) \<noteq> None then [''reported''] else [])
      @ (if hcWeight c = None then [''weight''] else [])
      @ (if 0 < bcHoldingDays cfg \<and> t < holdingAllowedAt cfg w then [''holding days''] else [])
      @ (case identityOf s u of
           None \<Rightarrow> []
         | Some x \<Rightarrow> (case idNational x of
             None \<Rightarrow> []
           | Some n \<Rightarrow> if n \<noteq> [] \<and> n \<noteq> owNational w then [''national code''] else [])))"

definition estimateOf :: "(rat \<Rightarrow> rat) \<Rightarrow> 'a vault_scheme \<Rightarrow> rat option \<Rightarrow> bar_code \<Rightarrow> price_breakdown option" where
  "estimateOf prec s current c =
     (case hcWeight c of
        None \<Rightarrow> None
      | Some w \<Rightarrow>
         (case computePrice prec s current
                 \<lparr>pqWeight = w, pqPurity = hcPurity c, pqFineness = None, pqPerGram = None,
                  pqPercent = None, pqFee = None\<rparr> of
            Inl e \<Rightarrow> None
          | Inr p \<Rightarrow> Some p))"

definition overviewBars :: "(rat \<Rightarrow> rat) \<Rightarrow> 'a vault_scheme \<Rightarrow> int \<Rightarrow> rat option \<Rightarrow> nat \<Rightarrow> bar_row list" where
  "overviewBars prec s t current u =
     List.map_filter (\<lambda>w. case codeById s (owCode w) of
          None \<Rightarrow> None
        | Some c \<Rightarrow> Some \<lparr>brCode = hcId c, brReasons = saleObstacles s t u c w,
                             brEstimate = estimateOf prec s current c\<rparr>)
       (filter (\<lambda>w. owUser w = u \<and> owStatus w = OW_ACTIVE) (ownerships s))"

definition overviewBlockers :: "'a vault_scheme \<Rightarrow> nat \<Rightarrow> string list" where
  "overviewBlockers s u =
     (let cfg = buybackConfig s in
      (if bcEnabled cfg then [] else [''disabled''])
      @ (if map_option idStatus (identityOf s u) = Some ID_VERIFIED then [] else [''identity''])
      @ (if defaultBankAccount s u = None then [''bank account''] else [])
      @ (if bcMaxOpen cfg \<le> of_nat (length (openCodes s u)) then [''open requests''] else []))"

definition buybackCounts :: "'a vault_scheme \<Rightarrow> buyback_status \<Rightarrow> nat" where
  "buybackCounts s st = length (filter (\<lambda>r. bbStatus r = st) (buybacks s))"

text \<open>\<open>summary\<close>: the open requests, those that need the staff, and the number, rial and grams of the paid ones.\<close>

definition buybackSummary :: "'a vault_scheme \<Rightarrow> nat \<times> nat \<times> nat \<times> int \<times> rat" where
  "buybackSummary s =
     (sum_list (map (buybackCounts s) OPEN_STATUSES), sum_list (map (buybackCounts s) ACTION_STATUSES),
      buybackCounts s BB_PAID,
      sum_where (\<lambda>r. bbStatus r = BB_PAID) netOf (buybacks s),
      sum_where (\<lambda>r. bbStatus r = BB_PAID) bbWeight (buybacks s))"

end
