(* ===== verification/BarMoves.thy ===== *)
theory BarMoves
  imports Hologram
begin

section \<open>A bar as an abstract machine\<close>

text \<open>
  What the calls of the registry mean for one bar: whether its code exists and with which status, who
  owns it, which transfer requests are pending and how many reports are active. Every call moves every
  bar along the steps of this machine, and the steps keep the shape of a bar well formed.
\<close>

record bar_view =
  bvStatus :: "code_status option"
  bvOwners :: "nat list"
  bvPending :: "transfer_type list"
  bvReports :: nat

definition statusOf :: "'a registry_scheme \<Rightarrow> nat \<Rightarrow> code_status option" where
  "statusOf s i = map_option hcStatus (codeById s i)"

definition ownersOf :: "'a registry_scheme \<Rightarrow> nat \<Rightarrow> nat list" where
  "ownersOf s i = map owUser (filter (\<lambda>w. owCode w = i \<and> owStatus w = OW_ACTIVE) (ownerships s))"

definition pendingTypes :: "'a registry_scheme \<Rightarrow> nat \<Rightarrow> transfer_type list" where
  "pendingTypes s i = map trType (filter (\<lambda>r. trCode r = i \<and> trStatus r = RQ_PENDING) (transfers s))"

definition reportsOf :: "'a registry_scheme \<Rightarrow> nat \<Rightarrow> nat" where
  "reportsOf s i = length (filter (activeIncident i) (incidents s))"

definition barView :: "'a registry_scheme \<Rightarrow> nat \<Rightarrow> bar_view" where
  "barView s i =
     \<lparr>bvStatus = statusOf s i, bvOwners = ownersOf s i, bvPending = pendingTypes s i,
      bvReports = reportsOf s i\<rparr>"

abbreviation view :: "code_status \<Rightarrow> nat list \<Rightarrow> transfer_type list \<Rightarrow> nat \<Rightarrow> bar_view" where
  "view st us ps n \<equiv> \<lparr>bvStatus = Some st, bvOwners = us, bvPending = ps, bvReports = n\<rparr>"

abbreviation noBar :: bar_view where
  "noBar \<equiv> \<lparr>bvStatus = None, bvOwners = [], bvPending = [], bvReports = 0\<rparr>"

inductive bar_move :: "bar_view \<Rightarrow> bar_view \<Rightarrow> bool" where
  born: "bar_move noBar (view HC_UNASSIGNED [] [] 0)"
| assigned: "bar_move (view HC_UNASSIGNED [] [] 0) (view HC_ASSIGNED [u] [] 0)"
| promised: "bar_move (view HC_UNASSIGNED [] [] 0) (view HC_TRANSFER_PENDING [] [INITIAL_PURCHASE] 0)"
| given: "bar_move (view HC_ASSIGNED [u] [] 0) (view HC_TRANSFER_PENDING [u] [GIFT_TRANSFER] 0)"
| taken: "bar_move (view HC_TRANSFER_PENDING us [ty] 0) (view HC_ASSIGNED [v] [] 0)"
| broken: "bar_move (view HC_TRANSFER_PENDING [] [INITIAL_PURCHASE] n) (view HC_UNASSIGNED [] [] n)"
| kept: "ty \<noteq> INITIAL_PURCHASE \<Longrightarrow>
    bar_move (view HC_TRANSFER_PENDING [u] [ty] n) (view HC_ASSIGNED [u] [] n)"
| revoked: "st \<in> {HC_UNASSIGNED, HC_TRANSFER_PENDING} \<Longrightarrow>
    bar_move (view st us ps n) (view HC_REVOKED us [] n)"
| reported: "st \<noteq> HC_TRANSFER_PENDING \<Longrightarrow> bar_move (view st us [] 0) (view st us [] 1)"
| cleared: "bar_move (view st us ps 1) (view st us ps 0)"

text \<open>The steps that only the service that buys bars back takes.\<close>

inductive sale_move :: "bar_view \<Rightarrow> bar_view \<Rightarrow> bool" where
  locked: "sale_move (view HC_ASSIGNED [u] [] 0) (view HC_BUYBACK_PENDING [u] [] 0)"
| released: "sale_move (view HC_BUYBACK_PENDING [u] [] n) (view HC_ASSIGNED [u] [] n)"
| sold: "sale_move (view HC_BUYBACK_PENDING [u] [] 0) (view HC_UNASSIGNED [] [] 0)"

text \<open>The shape of a bar.\<close>

fun okView :: "bar_view \<Rightarrow> bool" where
  "okView v \<longleftrightarrow> bvReports v \<le> 1 \<and>
     (case bvStatus v of
        None \<Rightarrow> v = noBar
      | Some st \<Rightarrow>
          if st \<in> {HC_ASSIGNED, HC_BUYBACK_PENDING} then length (bvOwners v) = 1 \<and> bvPending v = []
          else if st = HC_TRANSFER_PENDING then
            bvPending v = [INITIAL_PURCHASE] \<and> bvOwners v = []
            \<or> length (bvPending v) = 1 \<and> bvPending v \<noteq> [INITIAL_PURCHASE] \<and> length (bvOwners v) = 1
          else if st = HC_REVOKED then length (bvOwners v) \<le> 1 \<and> bvPending v = []
          else bvOwners v = [] \<and> bvPending v = [])"

lemma bar_move_ok: "bar_move v v' \<Longrightarrow> okView v \<Longrightarrow> okView v'"
  by (erule bar_move.cases) (auto split: if_splits)

lemma bar_moves_ok: "bar_move\<^sup>*\<^sup>* v v' \<Longrightarrow> okView v \<Longrightarrow> okView v'"
  by (induction rule: rtranclp_induct) (auto intro: bar_move_ok simp del: okView.simps)

lemma okView_pending:
  assumes "okView v" "bvPending v \<noteq> []"
  shows "bvStatus v = Some HC_TRANSFER_PENDING \<and> length (bvPending v) = 1"
proof (cases "bvStatus v")
  case None
  with assms show ?thesis by simp
next
  case (Some st)
  with assms show ?thesis by (cases st) auto
qed

lemma sale_move_ok: "sale_move v v' \<Longrightarrow> okView v \<Longrightarrow> okView v'"
  by (erule sale_move.cases) auto

text \<open>
  A reported bar keeps its owner. The calls of the registry neither lock a bar for a sale nor touch the
  owner of a locked one.
\<close>

lemma bar_move_reported: "bar_move v v' \<Longrightarrow> 0 < bvReports v \<Longrightarrow> bvOwners v' = bvOwners v"
  by (erule bar_move.cases) auto

lemma sale_move_reported: "sale_move v v' \<Longrightarrow> 0 < bvReports v \<Longrightarrow> bvOwners v' = bvOwners v"
  by (erule sale_move.cases) auto

lemma bar_move_locked:
  assumes "bar_move v v'" shows "bvStatus v' = Some HC_BUYBACK_PENDING \<longleftrightarrow> bvStatus v = Some HC_BUYBACK_PENDING"
    and "bvStatus v = Some HC_BUYBACK_PENDING \<Longrightarrow> bvOwners v' = bvOwners v"
  using assms by (auto elim!: bar_move.cases)

lemma bar_moves_locked:
  assumes "bar_move\<^sup>*\<^sup>* v v'"
  shows "bvStatus v' = Some HC_BUYBACK_PENDING \<longleftrightarrow> bvStatus v = Some HC_BUYBACK_PENDING"
    and "bvStatus v = Some HC_BUYBACK_PENDING \<Longrightarrow> bvOwners v' = bvOwners v"
proof -
  have "(bvStatus v' = Some HC_BUYBACK_PENDING \<longleftrightarrow> bvStatus v = Some HC_BUYBACK_PENDING) \<and>
        (bvStatus v = Some HC_BUYBACK_PENDING \<longrightarrow> bvOwners v' = bvOwners v)"
    using assms by (induction rule: rtranclp_induct) (auto simp: bar_move_locked)
  then show "bvStatus v' = Some HC_BUYBACK_PENDING \<longleftrightarrow> bvStatus v = Some HC_BUYBACK_PENDING"
    and "bvStatus v = Some HC_BUYBACK_PENDING \<Longrightarrow> bvOwners v' = bvOwners v" by blast+
qed

declare okView.simps [simp del]

subsection \<open>The keys of the tables\<close>

definition keys_ok :: "'a registry_scheme \<Rightarrow> bool" where
  "keys_ok s \<longleftrightarrow>
     distinct (map hcId (codes s)) \<and> (\<forall>c \<in> set (codes s). hcId c < nextId s) \<and>
     distinct (map hcCode (codes s)) \<and>
     distinct (map trId (transfers s)) \<and> (\<forall>r \<in> set (transfers s). trId r < nextId s) \<and>
     distinct (map inId (incidents s)) \<and> (\<forall>r \<in> set (incidents s). inId r < nextId s)"

definition bars_ok :: "'a registry_scheme \<Rightarrow> bool" where
  "bars_ok s \<longleftrightarrow> keys_ok s \<and> (\<forall>i. okView (barView s i))"

text \<open>What the calls of the registry leave alone: the money, and all that extends the registry.\<close>

definition untouched :: "'a registry_scheme \<Rightarrow> 'a registry_scheme \<Rightarrow> bool" where
  "untouched s s' \<longleftrightarrow>
     registry.more s' = registry.more s \<and> wallets s' = wallets s \<and> accounts s' = accounts s \<and>
     journals s' = journals s \<and> ledgerEntries s' = ledgerEntries s \<and> configNum s' = configNum s"

lemma untouched_refl [simp]: "untouched s s"
  by (simp add: untouched_def)

lemma untouched_trans: "untouched s s1 \<Longrightarrow> untouched s1 s2 \<Longrightarrow> untouched s s2"
  by (simp add: untouched_def)

definition bar_steps :: "'a registry_scheme \<Rightarrow> 'a registry_scheme \<Rightarrow> bool" where
  "bar_steps s s' \<longleftrightarrow> keys_ok s' \<and> nextId s \<le> nextId s' \<and> untouched s s' \<and> (\<forall>i. bar_move\<^sup>*\<^sup>* (barView s i) (barView s' i))"

lemma bar_steps_ok: "bars_ok s \<Longrightarrow> bar_steps s s' \<Longrightarrow> bars_ok s'"
  unfolding bars_ok_def bar_steps_def by (blast intro: bar_moves_ok)

lemma bar_steps_refl: "bars_ok s \<Longrightarrow> bar_steps s s"
  by (simp add: bars_ok_def bar_steps_def)

lemma bar_steps_trans: "bar_steps s s1 \<Longrightarrow> bar_steps s1 s2 \<Longrightarrow> bar_steps s s2"
  unfolding bar_steps_def by (meson order_trans rtranclp_trans untouched_trans)

text \<open>A call that changes one bar.\<close>

lemma one_bar:
  assumes "keys_ok s'" and "nextId s \<le> nextId s'" and "untouched s s'"
    and "\<And>j. j \<noteq> i \<Longrightarrow> barView s' j = barView s j"
    and "bar_move\<^sup>*\<^sup>* (barView s i) (barView s' i)"
  shows "bar_steps s s'"
  unfolding bar_steps_def using assms by (metis rtranclp.rtrancl_refl)

text \<open>A call that changes no bar.\<close>

lemma no_bar:
  assumes "bars_ok s" "codes s' = codes s" "ownerships s' = ownerships s" "transfers s' = transfers s"
    "incidents s' = incidents s" "nextId s \<le> nextId s'" "untouched s s'"
  shows "bar_steps s s'"
  using assms unfolding bar_steps_def bars_ok_def keys_ok_def
  by (auto simp: barView_def statusOf_def ownersOf_def pendingTypes_def reportsOf_def codeById_def
      intro: order.strict_trans2)

subsection \<open>What the writes do to a bar\<close>

named_theorems bar_view \<open>the parts of a bar after a write\<close>

lemma statusOf_cong: "codes s' = codes s \<Longrightarrow> statusOf s' i = statusOf s i"
  by (simp add: statusOf_def codeById_def)

lemma statusOf_setCode [bar_view]:
  assumes "\<And>c. hcId (f c) = hcId c"
  shows "statusOf (setCode s i f) j =
    (if j = i then map_option (\<lambda>c. hcStatus (f c)) (codeById s i) else statusOf s j)"
proof (cases "j = i")
  case True
  show ?thesis unfolding True using find_update_where_same [of hcId f i "codes s"] assms
    by (simp add: statusOf_def setCode_def codeById_def option.map_comp o_def)
next
  case False
  have "find (\<lambda>c. hcId c = j) (update_where (\<lambda>c. hcId c = i) f (codes s)) = find (\<lambda>c. hcId c = j) (codes s)"
    using False assms by (intro find_update_where_other) auto
  with False show ?thesis by (simp add: statusOf_def setCode_def codeById_def)
qed

lemma setCode_frame [simp]:
  "ownersOf (setCode s i f) = ownersOf s" "pendingTypes (setCode s i f) = pendingTypes s"
  "reportsOf (setCode s i f) = reportsOf s" "nextId (setCode s i f) = nextId s"
  "transfers (setCode s i f) = transfers s" "incidents (setCode s i f) = incidents s"
  "ownerships (setCode s i f) = ownerships s" "phones (setCode s i f) = phones s"
  "identities (setCode s i f) = identities s" "soldItems (setCode s i f) = soldItems s"
  by (simp_all add: setCode_def fun_eq_iff ownersOf_def pendingTypes_def reportsOf_def)

lemma setTransfer_frame [simp]:
  "ownersOf (setTransfer s i g) = ownersOf s" "statusOf (setTransfer s i g) = statusOf s"
  "reportsOf (setTransfer s i g) = reportsOf s" "nextId (setTransfer s i g) = nextId s"
  "codes (setTransfer s i g) = codes s" "incidents (setTransfer s i g) = incidents s"
  "codeById (setTransfer s i g) = codeById s"
  by (simp_all add: setTransfer_def fun_eq_iff ownersOf_def statusOf_def reportsOf_def codeById_def)

lemma addTransfer_frame [simp]:
  "ownersOf (addTransfer s r) = ownersOf s" "statusOf (addTransfer s r) = statusOf s"
  "reportsOf (addTransfer s r) = reportsOf s" "nextId (addTransfer s r) = nextId s + 1"
  "codes (addTransfer s r) = codes s" "incidents (addTransfer s r) = incidents s"
  "codeById (addTransfer s r) = codeById s"
  by (simp_all add: addTransfer_def fun_eq_iff ownersOf_def statusOf_def reportsOf_def codeById_def)

lemma addOwnership_frame [simp]:
  "pendingTypes (addOwnership s w) = pendingTypes s" "statusOf (addOwnership s w) = statusOf s"
  "reportsOf (addOwnership s w) = reportsOf s" "nextId (addOwnership s w) = nextId s + 1"
  "codes (addOwnership s w) = codes s" "incidents (addOwnership s w) = incidents s"
  "transfers (addOwnership s w) = transfers s" "codeById (addOwnership s w) = codeById s"
  by (simp_all add: addOwnership_def fun_eq_iff pendingTypes_def statusOf_def reportsOf_def codeById_def)

lemma endOwnerships_frame [simp]:
  "pendingTypes (endOwnerships s i t) = pendingTypes s" "statusOf (endOwnerships s i t) = statusOf s"
  "reportsOf (endOwnerships s i t) = reportsOf s" "nextId (endOwnerships s i t) = nextId s"
  "codes (endOwnerships s i t) = codes s" "incidents (endOwnerships s i t) = incidents s"
  "transfers (endOwnerships s i t) = transfers s" "codeById (endOwnerships s i t) = codeById s"
  by (simp_all add: endOwnerships_def fun_eq_iff pendingTypes_def statusOf_def reportsOf_def codeById_def)

lemma cancelPending_frame [simp]:
  "ownersOf (cancelPendingForCode s i x) = ownersOf s"
  "statusOf (cancelPendingForCode s i x) = statusOf s"
  "reportsOf (cancelPendingForCode s i x) = reportsOf s"
  "nextId (cancelPendingForCode s i x) = nextId s" "codes (cancelPendingForCode s i x) = codes s"
  "incidents (cancelPendingForCode s i x) = incidents s"
  "codeById (cancelPendingForCode s i x) = codeById s"
  by (simp_all add: cancelPendingForCode_def fun_eq_iff ownersOf_def statusOf_def reportsOf_def codeById_def)

lemma addIncident_frame [simp]:
  "ownersOf (addIncident s r) = ownersOf s" "statusOf (addIncident s r) = statusOf s"
  "pendingTypes (addIncident s r) = pendingTypes s" "nextId (addIncident s r) = nextId s + 1"
  "codes (addIncident s r) = codes s" "transfers (addIncident s r) = transfers s"
  by (simp_all add: addIncident_def fun_eq_iff ownersOf_def statusOf_def pendingTypes_def codeById_def)

lemma setIncident_frame [simp]:
  "ownersOf (setIncident s i g) = ownersOf s" "statusOf (setIncident s i g) = statusOf s"
  "pendingTypes (setIncident s i g) = pendingTypes s" "nextId (setIncident s i g) = nextId s"
  "codes (setIncident s i g) = codes s" "transfers (setIncident s i g) = transfers s"
  by (simp_all add: setIncident_def fun_eq_iff ownersOf_def statusOf_def pendingTypes_def codeById_def)

lemma ownersOf_end [bar_view]: "ownersOf (endOwnerships s i t) j = (if j = i then [] else ownersOf s j)"
proof -
  have "map owUser (filter (\<lambda>w. owCode w = j \<and> owStatus w = OW_ACTIVE)
          (update_where (\<lambda>w. owCode w = i \<and> owStatus w = OW_ACTIVE)
             (\<lambda>w. w\<lparr>owStatus := OW_TRANSFERRED, owEnd := Some t\<rparr>) ws)) =
        (if j = i then [] else map owUser (filter (\<lambda>w. owCode w = j \<and> owStatus w = OW_ACTIVE) ws))" for ws
    by (induction ws) auto
  from this [of "ownerships s"] show ?thesis by (simp add: ownersOf_def endOwnerships_def)
qed

lemma ownersOf_add [bar_view]:
  "ownersOf (addOwnership s w) j =
     ownersOf s j @ (if owCode w = j \<and> owStatus w = OW_ACTIVE then [owUser w] else [])"
  by (simp add: ownersOf_def addOwnership_def)

lemma pendingTypes_add [bar_view]:
  "pendingTypes (addTransfer s r) j =
     pendingTypes s j @ (if trCode r = j \<and> trStatus r = RQ_PENDING then [trType r] else [])"
  by (simp add: pendingTypes_def addTransfer_def)

lemma pendingTypes_cancel [bar_view]:
  "pendingTypes (cancelPendingForCode s i x) j = (if j = i then [] else pendingTypes s j)"
proof -
  have "map trType (filter (\<lambda>r. trCode r = j \<and> trStatus r = RQ_PENDING)
          (update_where (\<lambda>r. trCode r = i \<and> trStatus r = RQ_PENDING)
             (\<lambda>r. r\<lparr>trStatus := RQ_CANCELLED, trReason := Some x\<rparr>) rs)) =
        (if j = i then [] else map trType (filter (\<lambda>r. trCode r = j \<and> trStatus r = RQ_PENDING) rs))" for rs
    by (induction rs) auto
  from this [of "transfers s"] show ?thesis by (simp add: pendingTypes_def cancelPendingForCode_def)
qed

lemma untouched_writes [simp]:
  "untouched s (setCode s' i f) \<longleftrightarrow> untouched s s'"
  "untouched s (setTransfer s' i g) \<longleftrightarrow> untouched s s'"
  "untouched s (setIncident s' i h) \<longleftrightarrow> untouched s s'"
  "untouched s (addTransfer s' r) \<longleftrightarrow> untouched s s'"
  "untouched s (addOwnership s' w) \<longleftrightarrow> untouched s s'"
  "untouched s (endOwnerships s' i t) \<longleftrightarrow> untouched s s'"
  "untouched s (cancelPendingForCode s' i x) \<longleftrightarrow> untouched s s'"
  "untouched s (addIncident s' n) \<longleftrightarrow> untouched s s'"
  by (simp_all add: untouched_def setCode_def setTransfer_def setIncident_def addTransfer_def addOwnership_def
      endOwnerships_def cancelPendingForCode_def addIncident_def)

text \<open>The end of the one pending request of a bar.\<close>

lemma filter_close_one:
  assumes "distinct (map k rs)" "r \<in> set rs" "P r" "\<And>x. P x \<Longrightarrow> k x = k r \<Longrightarrow> \<not> P (g x)"
    and "\<And>x. k x = k r \<Longrightarrow> \<not> P x \<Longrightarrow> \<not> P (g x)"
  shows "length (filter P (update_where (\<lambda>x. k x = k r) g rs)) + 1 = length (filter P rs)"
  using assms(1,2)
proof (induction rs)
  case (Cons x rs)
  show ?case
  proof (cases "k x = k r")
    case True
    then have x: "x = r" using Cons.prems by (auto simp: image_iff)
    have "update_where (\<lambda>x. k x = k r) g rs = rs"
      using Cons.prems x by (intro update_where_none) (auto simp: image_iff)
    then show ?thesis using x assms(3) assms(4) [of r] by simp
  next
    case False
    then have "r \<in> set rs" using Cons.prems by auto
    then have "length (filter P (update_where (\<lambda>x. k x = k r) g rs)) + 1 = length (filter P rs)"
      using Cons.IH Cons.prems by auto
    then show ?thesis using False by auto
  qed
qed simp

lemma filter_update_none:
  assumes "\<And>x. q x \<Longrightarrow> P x \<longleftrightarrow> P (g x)" "\<And>x. q x \<Longrightarrow> P x \<Longrightarrow> h (g x) = h x"
  shows "map h (filter P (update_where q g rs)) = map h (filter P rs)"
proof (induction rs)
  case (Cons x rs)
  then show ?case using assms(1) [of x] assms(2) [of x] by (cases "q x"; cases "P x") simp_all
qed simp

lemma pendingTypes_close:
  assumes k: "keys_ok s" and r: "transferById s i = Some r" "trStatus r = RQ_PENDING"
    and g: "\<And>x. trCode (g x) = trCode x" "\<And>x. trStatus (g x) \<noteq> RQ_PENDING"
    and v: "okView (barView s (trCode r))"
  shows "pendingTypes (setTransfer s i g) j = (if j = trCode r then [] else pendingTypes s j)"
    and "pendingTypes s (trCode r) = [trType r]" "statusOf s (trCode r) = Some HC_TRANSFER_PENDING"
proof -
  have i: "trId r = i" "r \<in> set (transfers s)" and d: "distinct (map trId (transfers s))"
    using r(1) k find_SomeD [of _ "transfers s" r] unfolding transferById_def keys_ok_def by blast+
  have mem: "r \<in> set (filter (\<lambda>x. trCode x = trCode r \<and> trStatus x = RQ_PENDING) (transfers s))"
    using i r(2) by simp
  then have ne: "pendingTypes s (trCode r) \<noteq> []" and l0: "trType r \<in> set (pendingTypes s (trCode r))"
    unfolding pendingTypes_def by (auto simp: filter_empty_conv)
  have st: "statusOf s (trCode r) = Some HC_TRANSFER_PENDING \<and> length (pendingTypes s (trCode r)) = 1"
    using okView_pending [OF v] ne by (simp add: barView_def)
  then show "statusOf s (trCode r) = Some HC_TRANSFER_PENDING" by blast
  show "pendingTypes s (trCode r) = [trType r]"
    using st l0 by (cases "pendingTypes s (trCode r)") auto
  show "pendingTypes (setTransfer s i g) j = (if j = trCode r then [] else pendingTypes s j)"
  proof (cases "j = trCode r")
    case True
    have "length (filter (\<lambda>x. trCode x = trCode r \<and> trStatus x = RQ_PENDING)
            (update_where (\<lambda>x. trId x = trId r) g (transfers s))) + 1 =
          length (filter (\<lambda>x. trCode x = trCode r \<and> trStatus x = RQ_PENDING) (transfers s))"
      using d i r(2) g by (intro filter_close_one) auto
    moreover have "length (filter (\<lambda>x. trCode x = trCode r \<and> trStatus x = RQ_PENDING) (transfers s)) = 1"
      using st by (simp add: pendingTypes_def)
    ultimately have "filter (\<lambda>x. trCode x = trCode r \<and> trStatus x = RQ_PENDING)
            (update_where (\<lambda>x. trId x = trId r) g (transfers s)) = []" by simp
    then show ?thesis using True i by (simp add: pendingTypes_def setTransfer_def)
  next
    case False
    have "x = r" if "x \<in> set (transfers s)" "trId x = i" for x
    proof (rule inj_onD)
      show "inj_on trId (set (transfers s))" using d by (simp add: distinct_map)
    qed (use that i in simp_all)
    then have "update_where (\<lambda>x. trId x = i) g (transfers s) =
               update_where (\<lambda>x. x = r) g (transfers s)"
      unfolding update_where_def using i(1) by (intro map_cong refl) metis
    moreover have "map trType (filter (\<lambda>x. trCode x = j \<and> trStatus x = RQ_PENDING)
             (update_where (\<lambda>x. x = r) g (transfers s))) =
        map trType (filter (\<lambda>x. trCode x = j \<and> trStatus x = RQ_PENDING) (transfers s))"
      using False g by (intro filter_update_none) auto
    ultimately show ?thesis using False by (simp add: pendingTypes_def setTransfer_def)
  qed
qed

lemma reportsOf_add [bar_view]:
  "reportsOf (addIncident s r) j = reportsOf s j + (if activeIncident j r then 1 else 0)"
  by (simp add: reportsOf_def addIncident_def)

lemma noIncident [simp]: "findActiveIncident s i = None \<longleftrightarrow> reportsOf s i = 0"
  by (auto simp: findActiveIncident_def reportsOf_def find_None_iff filter_empty_conv)

lemma assertNoActiveIncident_Inr [simp]: "assertNoActiveIncident s i = Inr () \<longleftrightarrow> reportsOf s i = 0"
  using noIncident [of s i] unfolding assertNoActiveIncident_def
  by (cases "findActiveIncident s i") (simp_all del: noIncident)

lemma ownerOf_active:
  assumes "activeOwner s i = Some w" shows "owUser w \<in> set (ownersOf s i)"
  using find_SomeD [OF assms [unfolded activeOwner_def]] by (auto simp: ownersOf_def)

lemma codeByText_id:
  assumes "keys_ok s" "codeByText s x = Some c"
  shows "codeById s (hcId c) = Some c" "hcCode c = x"
proof -
  have c: "c \<in> set (codes s)" "hcCode c = x" using find_SomeD [OF assms(2) [unfolded codeByText_def]] by simp_all
  then show "codeById s (hcId c) = Some c" unfolding codeById_def
    using assms(1) unfolding keys_ok_def by (intro find_unique) simp_all
  show "hcCode c = x" by (rule c(2))
qed

subsection \<open>The keys after a write\<close>

named_theorems keys \<open>the keys of the tables after a write\<close>

lemma ball_update_key:
  assumes "\<And>r. k (g r) = k r"
  shows "(\<forall>r \<in> set (update_where q g rs). k r < n) \<longleftrightarrow> (\<forall>r \<in> set rs. k r < (n :: nat))"
proof -
  have "(\<forall>r \<in> set xs. k r < n) \<longleftrightarrow> (\<forall>i \<in> set (map k xs). i < n)" for xs by simp
  then show ?thesis using map_update_where [of k g q rs] assms by metis
qed

lemma keys_setCode [keys]:
  assumes "\<And>c. hcId (f c) = hcId c" "\<And>c. hcCode (f c) = hcCode c"
  shows "keys_ok (setCode s i f) \<longleftrightarrow> keys_ok s"
proof -
  have m: "map hcId (update_where q f cs) = map hcId cs" "map hcCode (update_where q f cs) = map hcCode cs" for q cs
    by (rule map_update_where, rule assms)+
  show ?thesis unfolding keys_ok_def setCode_def by (simp add: m ball_update_key assms)
qed

lemma keys_setTransfer [keys]:
  assumes "\<And>r. trId (g r) = trId r" shows "keys_ok (setTransfer s i g) \<longleftrightarrow> keys_ok s"
proof -
  have m: "map trId (update_where q g cs) = map trId cs" for q cs by (rule map_update_where, rule assms)
  show ?thesis unfolding keys_ok_def setTransfer_def by (simp add: m ball_update_key assms)
qed

lemma keys_setIncident [keys]:
  assumes "\<And>r. inId (g r) = inId r" shows "keys_ok (setIncident s i g) \<longleftrightarrow> keys_ok s"
proof -
  have m: "map inId (update_where q g cs) = map inId cs" for q cs by (rule map_update_where, rule assms)
  show ?thesis unfolding keys_ok_def setIncident_def by (simp add: m ball_update_key assms)
qed

lemma keys_cancelPending [keys]: "keys_ok (cancelPendingForCode s i x) \<longleftrightarrow> keys_ok s"
proof -
  have m: "map trId (update_where q (\<lambda>r. r\<lparr>trStatus := RQ_CANCELLED, trReason := Some x\<rparr>) cs) = map trId cs" for q cs
    by (rule map_update_where) simp
  show ?thesis unfolding keys_ok_def cancelPendingForCode_def by (simp add: m ball_update_key)
qed

lemma keys_endOwnerships [keys]: "keys_ok (endOwnerships s i t) \<longleftrightarrow> keys_ok s"
  by (simp add: keys_ok_def endOwnerships_def)

lemma keys_addOwnership [keys]: "keys_ok s \<Longrightarrow> keys_ok (addOwnership s w)"
  by (auto simp: keys_ok_def addOwnership_def less_SucI)

lemma keys_addTransfer [keys]: "keys_ok s \<Longrightarrow> trId r = nextId s \<Longrightarrow> keys_ok (addTransfer s r)"
  by (auto simp: keys_ok_def addTransfer_def less_SucI)

lemma keys_addIncident [keys]: "keys_ok s \<Longrightarrow> inId r = nextId s \<Longrightarrow> keys_ok (addIncident s r)"
  by (auto simp: keys_ok_def addIncident_def less_SucI)

subsection \<open>The shape of a bar of a given status\<close>

lemma view_owned:
  assumes "okView (barView s i)" "statusOf s i = Some st" "st \<in> {HC_ASSIGNED, HC_BUYBACK_PENDING}"
  obtains u where "ownersOf s i = [u]" "pendingTypes s i = []"
  using assms by (auto simp: okView.simps barView_def length_Suc_conv)

lemma view_free:
  assumes "okView (barView s i)" "statusOf s i = Some st" "st \<in> {HC_UNASSIGNED, HC_AT_AGENT, HC_AGENT_OWNED}"
  shows "ownersOf s i = []" "pendingTypes s i = []"
  using assms by (auto simp: okView.simps barView_def)

lemma view_none:
  assumes "okView (barView s i)" "statusOf s i = None"
  shows "ownersOf s i = []" "pendingTypes s i = []" "reportsOf s i = 0"
  using assms by (auto simp: okView.simps barView_def)

lemma bars_okD: "bars_ok s \<Longrightarrow> keys_ok s" "bars_ok s \<Longrightarrow> okView (barView s i)"
  by (simp_all add: bars_ok_def)

lemma status_of_code: "codeById s i = Some c \<Longrightarrow> statusOf s i = Some (hcStatus c)"
  by (simp add: statusOf_def)

end
