(* ===== verification/BarOps.thy ===== *)
theory BarOps
  imports BarMoves
begin

section \<open>The calls of the registry as steps of the bars\<close>

text \<open>
  Each call of the registry, on every branch, takes every bar along the abstract machine of
  \<open>BarMoves\<close>.
\<close>

lemma move1: "bar_move v v' \<Longrightarrow> bar_move\<^sup>*\<^sup>* v v'" by (rule r_into_rtranclp)

lemma initiate_steps:
  assumes ok: "bars_ok s" and i: "initiateByUserInternal s t u i phone = Inr (s', r)"
  shows "bar_steps s s'"
proof -
  from i obtain c where c: "codeById s i = Some c" "hcStatus c = HC_ASSIGNED" "reportsOf s i = 0"
    and r: "r = newTransferRequest (nextId s) i (Some u) None None phone
                  (map_of (phones s) phone) GIFT_TRANSFER (transferExpiresAt s t)"
    and s': "s' = setCode (addTransfer s r) i (\<lambda>c. c\<lparr>hcStatus := HC_TRANSFER_PENDING\<rparr>)"
    unfolding initiateByUserInternal_def by (auto simp: Let_def)
  have st: "statusOf s i = Some HC_ASSIGNED" using status_of_code [OF c(1)] c(2) by simp
  obtain w where w: "ownersOf s i = [w]" "pendingTypes s i = []"
    using view_owned [OF bars_okD(2) [OF ok] st] by blast
  show ?thesis
  proof (rule one_bar [of _ _ i])
    show "keys_ok s'" unfolding s' using bars_okD(1) [OF ok] by (simp add: keys r newTransferRequest_def)
    show "nextId s \<le> nextId s'" by (simp add: s')
    show "untouched s s'" by (simp add: s')
    show "barView s' j = barView s j" if "j \<noteq> i" for j
      using that by (simp add: s' barView_def bar_view r newTransferRequest_def)
    have "barView s i = view HC_ASSIGNED [w] [] 0" using w st c(3) by (simp add: barView_def)
    moreover have "barView s' i = view HC_TRANSFER_PENDING [w] [GIFT_TRANSFER] 0"
      using w c by (simp add: s' barView_def bar_view r newTransferRequest_def)
    ultimately show "bar_move\<^sup>*\<^sup>* (barView s i) (barView s' i)" by (simp add: move1 given)
  qed
qed

lemma initiateByUser_steps:
  assumes ok: "bars_ok s" and i: "initiateByUser s t u i phone key = Inr (s', r)"
  shows "bar_steps s s'"
proof -
  have "bar_steps s (s1\<lparr>replays := rs\<rparr>)" if "bar_steps s s1" for s1 rs
    using that bar_steps_trans no_bar [of s1 "s1\<lparr>replays := rs\<rparr>"] bar_steps_ok [OF ok]
    by (fastforce simp: untouched_def)
  then show ?thesis
    using i initiate_steps [OF ok] bar_steps_refl [OF ok] unfolding initiateByUser_def
    by (auto split: if_splits option.splits)
qed

text \<open>The end of a pending request that is not confirmed.\<close>

lemma revert_steps:
  assumes ok: "bars_ok s" and r: "transferById s i = Some r" "trStatus r = RQ_PENDING"
    and g: "\<And>x. trCode (g x) = trCode x" "\<And>x. trStatus (g x) \<noteq> RQ_PENDING" "\<And>x. trId (g x) = trId x"
  shows "bar_steps s (revertCodeAfterNonConfirmation (setTransfer s i g) r)" (is "bar_steps s ?s'")
proof -
  note c = pendingTypes_close [OF bars_okD(1) [OF ok] r g(1,2) bars_okD(2) [OF ok]]
  have code: "codeById s (trCode r) \<noteq> None" using c(3) by (auto simp: statusOf_def)
  show ?thesis
  proof (rule one_bar [of _ _ "trCode r"])
    show "keys_ok ?s'" using bars_okD(1) [OF ok] g(3)
      by (simp add: revertCodeAfterNonConfirmation_def keys)
    show "nextId s \<le> nextId ?s'" by (simp add: revertCodeAfterNonConfirmation_def)
    show "untouched s ?s'" by (simp add: revertCodeAfterNonConfirmation_def)
    show "barView ?s' j = barView s j" if "j \<noteq> trCode r" for j
      using that by (simp add: barView_def bar_view revertCodeAfterNonConfirmation_def c(1))
    let ?n = "reportsOf s (trCode r)"
    show "bar_move\<^sup>*\<^sup>* (barView s (trCode r)) (barView ?s' (trCode r))"
    proof (cases "trType r = INITIAL_PURCHASE")
      case True
      have o: "ownersOf s (trCode r) = []"
        using bars_okD(2) [OF ok, of "trCode r"] c(2,3) True by (simp add: okView.simps barView_def)
      have "barView s (trCode r) = view HC_TRANSFER_PENDING [] [INITIAL_PURCHASE] ?n"
        using o c(2,3) True by (simp add: barView_def)
      moreover have "barView ?s' (trCode r) = view HC_UNASSIGNED [] [] ?n"
        using o c(1) True code by (auto simp: barView_def bar_view revertCodeAfterNonConfirmation_def)
      ultimately show ?thesis by (simp add: move1 broken)
    next
      case False
      obtain u where o: "ownersOf s (trCode r) = [u]"
        using bars_okD(2) [OF ok, of "trCode r"] c(2,3) False
        by (auto simp: okView.simps barView_def length_Suc_conv)
      have "barView s (trCode r) = view HC_TRANSFER_PENDING [u] [trType r] ?n"
        using o c(2,3) by (simp add: barView_def)
      moreover have "barView ?s' (trCode r) = view HC_ASSIGNED [u] [] ?n"
        using o c(1) False code by (auto simp: barView_def bar_view revertCodeAfterNonConfirmation_def)
      ultimately show ?thesis using kept [OF False] by (simp add: move1)
    qed
  qed
qed

lemma expireTransfer_steps:
  assumes "bars_ok s" shows "bar_steps s (expireTransfer s i)"
proof (cases "transferById s i")
  case None
  then show ?thesis by (simp add: expireTransfer_def bar_steps_refl assms)
next
  case (Some r)
  then show ?thesis
    using revert_steps [OF assms Some, of "\<lambda>r. r\<lparr>trStatus := RQ_EXPIRED\<rparr>"] bar_steps_refl [OF assms]
    by (simp add: expireTransfer_def)
qed

lemma expireStale_steps:
  assumes "bars_ok s" shows "bar_steps s (expireStaleTransfers s t)"
proof -
  have "bar_steps s (foldl expireTransfer s is)" if "bars_ok s" for s :: "'a registry_scheme" and "is"
    using that
  proof (induction "is" arbitrary: s)
    case (Cons i "is")
    have a: "bar_steps s (expireTransfer s i)" by (rule expireTransfer_steps [OF Cons.prems])
    show ?case using bar_steps_trans [OF a Cons.IH [OF bar_steps_ok [OF Cons.prems a]]] by simp
  qed (simp add: bar_steps_refl)
  then show ?thesis unfolding expireStaleTransfers_def using assms by blast
qed

lemma rejectTransfer_steps:
  assumes ok: "bars_ok s" and r: "rejectTransfer s phone i reason = Inr (s', b)"
  shows "bar_steps s s'"
  using r revert_steps [OF ok, of i _ "\<lambda>r. r\<lparr>trStatus := RQ_REJECTED, trReason := reason\<rparr>"] bar_steps_refl [OF ok]
  unfolding rejectTransfer_def by (auto split: option.splits if_splits)

lemma takeOver_steps:
  assumes ok: "bars_ok s" and r: "transferById s i = Some r" "trStatus r = RQ_PENDING"
    and n: "reportsOf s (trCode r) = 0"
  shows "bar_steps s (takeOver s t u r dto a)" (is "bar_steps s ?s'")
proof -
  define g :: "transfer \<Rightarrow> transfer" where "g = (\<lambda>r. r\<lparr>trStatus := RQ_CONFIRMED, trConfirmed := Some t, trRecipient := Some u,
    trReference := cvReference a\<rparr>)"
  define w where "w = newOwnership (nextId s) (trCode r) u None (civilName dto a) (cfNational dto) t (trType r)"
  have w: "owCode w = trCode r" "owStatus w = OW_ACTIVE" "owUser w = u" by (simp_all add: w_def newOwnership_def)
  let ?s2 = "addOwnership (endOwnerships s (trCode r) t) w"
  have s': "?s' = setCode (setTransfer ?s2 (trId r) g) (trCode r) (\<lambda>c. c\<lparr>hcStatus := HC_ASSIGNED\<rparr>)"
    by (simp add: takeOver_def Let_def g_def w_def)
  have i: "trId r = i" using find_SomeD [OF r(1) [unfolded transferById_def]] by simp
  have g: "\<And>x. trCode (g x) = trCode x" "\<And>x. trStatus (g x) \<noteq> RQ_PENDING" "\<And>x. trId (g x) = trId x"
    by (simp_all add: g_def)
  note c = pendingTypes_close [OF bars_okD(1) [OF ok] r g(1,2) bars_okD(2) [OF ok]]
  have p: "pendingTypes (setTransfer ?s2 (trId r) g) j = (if j = trCode r then [] else pendingTypes s j)" for j
    using c(1) [of j] unfolding i by (simp add: pendingTypes_def setTransfer_def)
  have code: "codeById s (trCode r) \<noteq> None" using c(3) by (auto simp: statusOf_def)
  show ?thesis
  proof (rule one_bar [of _ _ "trCode r"])
    show "keys_ok ?s'" unfolding s' using bars_okD(1) [OF ok] g(3) by (simp add: keys)
    show "nextId s \<le> nextId ?s'" unfolding s' by simp
    show "untouched s ?s'" unfolding s' by simp
    show "barView ?s' j = barView s j" if "j \<noteq> trCode r" for j
      using that unfolding s' by (simp add: barView_def bar_view p w)
    have "barView s (trCode r) = view HC_TRANSFER_PENDING (ownersOf s (trCode r)) [trType r] 0"
      using c(2,3) n by (simp add: barView_def)
    moreover have "barView ?s' (trCode r) = view HC_ASSIGNED [u] [] 0"
      unfolding s' using n code by (auto simp: barView_def bar_view p w)
    ultimately show "bar_move\<^sup>*\<^sup>* (barView s (trCode r)) (barView ?s' (trCode r))" by (simp add: move1 taken)
  qed
qed

lemma confirmWrites_steps:
  assumes ok: "bars_ok s" and w: "confirmWrites s t u i dto a = Inr (s', b)"
  shows "bar_steps s s'"
proof -
  from w obtain r where r: "transferById s i = Some r" by (auto simp: confirmWrites_def split: option.splits)
  show ?thesis using w r takeOver_steps [OF ok r] bar_steps_refl [OF ok]
    unfolding confirmWrites_def by (auto split: if_splits)
qed

lemma confirmCheck_steps:
  assumes ok: "bars_ok s" shows "bar_steps s (fst (confirmCheck s t phone i))"
proof (cases "transferById s i")
  case None
  then show ?thesis by (simp add: confirmCheck_def bar_steps_refl ok)
next
  case (Some r)
  have e: "fst (confirmCheck s t phone i) \<in> {s, expireTransfer s i}"
    unfolding confirmCheck_def using Some by (auto split: sum.split)
  then show ?thesis using bar_steps_refl [OF ok] expireTransfer_steps [OF ok] by auto
qed

lemma confirmTransfer_steps:
  assumes ok: "bars_ok s" shows "bar_steps s (fst (confirmTransfer s t u phone i dto answer))"
proof (cases "confirmCheck s t phone i")
  case (Pair s1 r)
  have a: "bar_steps s s1" using confirmCheck_steps [OF ok, of t phone i] Pair by simp
  have ok1: "bars_ok s1" by (rule bar_steps_ok [OF ok a])
  have "fst (confirmTransfer s t u phone i dto answer) = s1 \<or>
        (\<exists>a b. confirmWrites s1 t u i dto a = Inr (fst (confirmTransfer s t u phone i dto answer), b))"
    unfolding confirmTransfer_def Pair by (auto split: sum.split bool.split option.split)
  then show ?thesis using a confirmWrites_steps [OF ok1] bar_steps_trans [OF a] by metis
qed

lemma statusOf_bindItem [simp]: "statusOf (bindItem s t a i x dto) = statusOf s"
proof
  show "statusOf (bindItem s t a i x dto) j = statusOf s j" for j
    unfolding bindItem_def by (subst statusOf_setCode) (simp_all add: statusOf_def)
qed

lemma bindItem_frame [simp]:
  "ownersOf (bindItem s t a i x dto) = ownersOf s"
  "pendingTypes (bindItem s t a i x dto) = pendingTypes s" "reportsOf (bindItem s t a i x dto) = reportsOf s"
  "nextId (bindItem s t a i x dto) = nextId s" "keys_ok (bindItem s t a i x dto) = keys_ok s"
  "untouched s (bindItem s t a i x dto)"
  by (simp_all add: bindItem_def keys)

lemma statusOf_code: "statusOf s i = Some st \<Longrightarrow> codeById s i \<noteq> None"
  by (auto simp: statusOf_def)

lemma assignCode_steps:
  assumes ok: "bars_ok s" and a: "assignCode s t admin x dto = Inr (s', st)"
  shows "bar_steps s s'"
proof -
  from a obtain c item where c: "codeByText s x = Some c" "hcStatus c = HC_UNASSIGNED" "reportsOf s (hcId c) = 0"
    and s': "(if siOther item then assignToOther (bindItem s t admin (hcId c) item dto) t admin (hcId c) item
         else assignToBuyer (bindItem s t admin (hcId c) item dto) t (hcId c) item) = Inr (s', st)"
    unfolding assignCode_def Let_def by auto
  have st: "statusOf s (hcId c) = Some HC_UNASSIGNED"
    using status_of_code [OF codeByText_id(1) [OF bars_okD(1) [OF ok] c(1)]] c(2) by simp
  note v = view_free [OF bars_okD(2) [OF ok] st, simplified]
  have before: "barView s (hcId c) = view HC_UNASSIGNED [] [] 0" using v st c(3) by (simp add: barView_def)
  define s1 where "s1 = bindItem s t admin (hcId c) item dto"
  have f: "statusOf s1 = statusOf s" "ownersOf s1 = ownersOf s" "pendingTypes s1 = pendingTypes s"
    "reportsOf s1 = reportsOf s" "nextId s1 = nextId s" "keys_ok s1" "untouched s s1"
    using bars_okD(1) [OF ok] by (simp_all add: s1_def)
  have code: "codeById s1 (hcId c) \<noteq> None" by (rule statusOf_code) (simp add: f st)
  show ?thesis
  proof (cases "siOther item")
    case True
    with s' obtain phone where "s' = setCode (createAdminInitiated s1 t (hcId c) (siId item) phone admin) (hcId c)
                      (\<lambda>c. c\<lparr>hcStatus := HC_TRANSFER_PENDING\<rparr>)"
      by (auto simp: assignToOther_def s1_def)
    note s2 = this [unfolded createAdminInitiated_def]
    show ?thesis
    proof (rule one_bar [of _ _ "hcId c"])
      show "keys_ok s'" unfolding s2 using f(5,6) by (simp add: keys newTransferRequest_def)
      show "nextId s \<le> nextId s'" unfolding s2 by (simp add: f)
      show "untouched s s'" unfolding s2 by (simp add: f)
      show "barView s' j = barView s j" if "j \<noteq> hcId c" for j
        unfolding s2 using that by (simp add: barView_def bar_view f newTransferRequest_def)
      have "barView s' (hcId c) = view HC_TRANSFER_PENDING [] [INITIAL_PURCHASE] 0"
        unfolding s2 using v c(3) code by (auto simp: barView_def bar_view f newTransferRequest_def)
      then show "bar_move\<^sup>*\<^sup>* (barView s (hcId c)) (barView s' (hcId c))"
        unfolding before by (simp add: move1 promised)
    qed
  next
    case False
    with s' obtain w where s2: "s' = setCode (addOwnership s1 w) (hcId c) (\<lambda>c. c\<lparr>hcStatus := HC_ASSIGNED\<rparr>)"
      and w: "owCode w = hcId c" "owStatus w = OW_ACTIVE"
      by (auto simp: assignToBuyer_def s1_def [symmetric] Let_def newOwnership_def)
    show ?thesis
    proof (rule one_bar [of _ _ "hcId c"])
      show "keys_ok s'" unfolding s2 using f(6) by (simp add: keys)
      show "nextId s \<le> nextId s'" unfolding s2 by (simp add: f)
      show "untouched s s'" unfolding s2 by (simp add: f)
      show "barView s' j = barView s j" if "j \<noteq> hcId c" for j
        unfolding s2 using that w by (simp add: barView_def bar_view f)
      have "barView s' (hcId c) = view HC_ASSIGNED [owUser w] [] 0"
        unfolding s2 using v c(3) code w by (auto simp: barView_def bar_view f)
      then show "bar_move\<^sup>*\<^sup>* (barView s (hcId c)) (barView s' (hcId c))"
        unfolding before by (simp add: move1 assigned)
    qed
  qed
qed

lemma revokeCode_steps:
  assumes ok: "bars_ok s" and a: "revokeCode s t admin x reason = Inr (s', b)"
  shows "bar_steps s s'"
proof -
  from a obtain c where c: "codeByText s x = Some c" by (auto simp: revokeCode_def split: option.splits)
  define f :: "bar_code \<Rightarrow> bar_code" where "f = (\<lambda>c. c\<lparr>hcStatus := HC_REVOKED, hcRevokedBy := Some admin, hcRevokedAt := Some t,
    hcReason := reason\<rparr>)"
  define s1 where "s1 = (if hcStatus c = HC_TRANSFER_PENDING then cancelPendingForCode s (hcId c) BY_REVOCATION else s)"
  show ?thesis
  proof (cases "hcStatus c = HC_REVOKED")
    case True
    then show ?thesis using a c bar_steps_refl [OF ok] by (simp add: revokeCode_def)
  next
    case False
    with a c have st0: "hcStatus c \<in> {HC_UNASSIGNED, HC_TRANSFER_PENDING}" and s': "s' = setCode s1 (hcId c) f"
      by (cases "hcStatus c"; simp add: revokeCode_def s1_def f_def)+
    have ci: "codeById s (hcId c) = Some c" by (rule codeByText_id(1) [OF bars_okD(1) [OF ok] c])
    have st: "statusOf s (hcId c) = Some (hcStatus c)" by (rule status_of_code [OF ci])
    have fr: "ownersOf s1 = ownersOf s" "statusOf s1 = statusOf s" "reportsOf s1 = reportsOf s"
      "nextId s1 = nextId s" "keys_ok s1" "codeById s1 = codeById s" "untouched s s1"
      using bars_okD(1) [OF ok] by (simp_all add: s1_def keys)
    have p: "pendingTypes s1 j = (if j = hcId c then [] else pendingTypes s j)" for j
    proof (cases "hcStatus c = HC_TRANSFER_PENDING")
      case False
      then have "statusOf s (hcId c) = Some HC_UNASSIGNED" using st st0 by simp
      from view_free(2) [OF bars_okD(2) [OF ok] this] False show ?thesis by (simp add: s1_def)
    qed (simp add: s1_def bar_view)
    show ?thesis
    proof (rule one_bar [of _ _ "hcId c"])
      show "keys_ok s'" unfolding s' using fr(5) by (simp add: keys f_def)
      show "nextId s \<le> nextId s'" unfolding s' by (simp add: fr)
      show "untouched s s'" unfolding s' by (simp add: fr)
      show "barView s' j = barView s j" if "j \<noteq> hcId c" for j
        unfolding s' using that by (simp add: barView_def bar_view fr p f_def)
      have "barView s (hcId c) = view (hcStatus c) (ownersOf s (hcId c)) (pendingTypes s (hcId c)) (reportsOf s (hcId c))"
        by (simp add: barView_def st)
      moreover have "barView s' (hcId c) = view HC_REVOKED (ownersOf s (hcId c)) [] (reportsOf s (hcId c))"
        unfolding s' by (simp add: barView_def bar_view fr p f_def ci)
      ultimately show "bar_move\<^sup>*\<^sup>* (barView s (hcId c)) (barView s' (hcId c))"
        using revoked [OF st0] by (simp add: move1)
    qed
  qed
qed

text \<open>Filing a report.\<close>

lemma sequenceNext_bars [simp]:
  "codes (fst (sequenceNext s p)) = codes s" "ownerships (fst (sequenceNext s p)) = ownerships s"
  "transfers (fst (sequenceNext s p)) = transfers s" "incidents (fst (sequenceNext s p)) = incidents s"
  "nextId (fst (sequenceNext s p)) = nextId s" "untouched s (fst (sequenceNext s p))"
  by (simp_all add: sequenceNext_def Let_def untouched_def)

lemma fileIncident_steps:
  assumes ok: "bars_ok s" and n: "reportsOf s i = 0" and st: "statusOf s i = Some st" "st \<noteq> HC_TRANSFER_PENDING"
    and a: "st0 \<in> {IN_OPEN, IN_CONFIRMED}" and fi: "fileIncident s t i st0 bu ba w dto = Inr (s', r)"
  shows "bar_steps s s'"
proof -
  let ?s1 = "fst (sequenceNext s ''HIR'')"
  from fi obtain d where r: "r = newIncident (nextId ?s1) (snd (sequenceNext s ''HIR'')) i t (icType dto) st0 bu ba w d"
    and s': "s' = addIncident ?s1 r"
    unfolding fileIncident_def by (auto simp: Let_def split_def)
  have f: "barView ?s1 = barView s" "keys_ok ?s1"
    using bars_okD(1) [OF ok]
    by (auto simp: fun_eq_iff barView_def statusOf_def ownersOf_def pendingTypes_def reportsOf_def codeById_def keys_ok_def)
  have v: "statusOf ?s1 = statusOf s" "ownersOf ?s1 = ownersOf s" "pendingTypes ?s1 = pendingTypes s"
    "reportsOf ?s1 = reportsOf s"
    using f(1) by (simp_all add: barView_def fun_eq_iff)
  have act: "activeIncident j r \<longleftrightarrow> j = i" for j
    using a by (auto simp: r newIncident_def activeIncident_def ACTIVE_INCIDENT_STATUSES_def)
  have p: "pendingTypes s i = []"
    using okView_pending [OF bars_okD(2) [OF ok], of i] st by (auto simp: barView_def)
  show ?thesis
  proof (rule one_bar [of _ _ i])
    show "keys_ok s'" unfolding s' using f(2) by (simp add: keys r newIncident_def)
    show "nextId s \<le> nextId s'" unfolding s' by simp
    show "untouched s s'" unfolding s' by simp
    show "barView s' j = barView s j" if "j \<noteq> i" for j
      unfolding s' using that by (simp add: barView_def v bar_view act)
    have "barView s i = view st (ownersOf s i) [] 0" using st n p by (simp add: barView_def)
    moreover have "barView s' i = view st (ownersOf s i) [] 1"
      unfolding s' using st n p by (simp add: barView_def v bar_view act)
    ultimately show "bar_move\<^sup>*\<^sup>* (barView s i) (barView s' i)" using reported [OF st(2)] by (simp add: move1)
  qed
qed

text \<open>A report that cancels the pending transfer of the bar.\<close>

lemma undo_steps:
  assumes ok: "bars_ok s" and st: "statusOf s i = Some HC_TRANSFER_PENDING"
    and f: "\<And>c. hcId (f c) = hcId c" "\<And>c. hcCode (f c) = hcCode c"
    and h: "\<And>c. hcStatus (f c) = (if INITIAL_PURCHASE \<in> set (pendingTypes s i) then HC_UNASSIGNED else HC_ASSIGNED)"
  shows "bar_steps s (setCode (cancelPendingForCode s i x) i f)" (is "bar_steps s ?s'")
    and "statusOf (setCode (cancelPendingForCode s i x) i f) i \<in> {Some HC_UNASSIGNED, Some HC_ASSIGNED}"
proof -
  have code: "codeById s i \<noteq> None" using st by (auto simp: statusOf_def)
  show "statusOf ?s' i \<in> {Some HC_UNASSIGNED, Some HC_ASSIGNED}" using code by (auto simp: bar_view f h)
  let ?n = "reportsOf s i"
  show "bar_steps s ?s'"
  proof (rule one_bar [of _ _ i])
    show "keys_ok ?s'" using bars_okD(1) [OF ok] by (simp add: keys f)
    show "nextId s \<le> nextId ?s'" by simp
    show "untouched s ?s'" by simp
    show "barView ?s' j = barView s j" if "j \<noteq> i" for j using that by (simp add: barView_def bar_view f)
    consider (initial) "ownersOf s i = []" "pendingTypes s i = [INITIAL_PURCHASE]"
      | (own) u ty where "ownersOf s i = [u]" "pendingTypes s i = [ty]" "ty \<noteq> INITIAL_PURCHASE"
      using bars_okD(2) [OF ok, of i] st by (auto simp: okView.simps barView_def length_Suc_conv)
    then show "bar_move\<^sup>*\<^sup>* (barView s i) (barView ?s' i)"
    proof cases
      case initial
      have "barView s i = view HC_TRANSFER_PENDING [] [INITIAL_PURCHASE] ?n" using initial st by (simp add: barView_def)
      moreover have "barView ?s' i = view HC_UNASSIGNED [] [] ?n"
        using initial code by (auto simp: barView_def bar_view f h)
      ultimately show ?thesis by (simp add: move1 broken)
    next
      case own
      have "barView s i = view HC_TRANSFER_PENDING [u] [ty] ?n" using own st by (simp add: barView_def)
      moreover have "barView ?s' i = view HC_ASSIGNED [u] [] ?n"
        using own code by (auto simp: barView_def bar_view f h)
      ultimately show ?thesis using kept [OF own(3)] by (simp add: move1)
    qed
  qed
qed

lemma createByOwner_steps:
  assumes ok: "bars_ok s" and c: "createByOwner s t u i dto = Inr (s', r)"
  shows "bar_steps s s'"
proof -
  from c obtain b w where b: "codeById s i = Some b" and n: "reportsOf s i = 0"
    and f: "fileIncident
                 (if hcStatus b = HC_TRANSFER_PENDING
                  then setCode (cancelPendingForCode s i BY_OWNER_REPORT) i (\<lambda>c. c\<lparr>hcStatus := HC_ASSIGNED\<rparr>) else s)
                 t i IN_OPEN (Some u) None (Some w) dto = Inr (s', r)"
    and w: "activeOwner s i = Some w"
    unfolding createByOwner_def by (auto simp del: not_None_eq)
  note st = status_of_code [OF b]
  show ?thesis
  proof (cases "hcStatus b = HC_TRANSFER_PENDING")
    case True
    define s1 where "s1 = setCode (cancelPendingForCode s i BY_OWNER_REPORT) i (\<lambda>c. c\<lparr>hcStatus := HC_ASSIGNED\<rparr>)"
    have own: "ownersOf s i \<noteq> []" using ownerOf_active [OF w] by auto
    then have np: "INITIAL_PURCHASE \<notin> set (pendingTypes s i)"
      using bars_okD(2) [OF ok, of i] st True by (auto simp: okView.simps barView_def length_Suc_conv)
    have a: "bar_steps s s1" and s1: "statusOf s1 i \<in> {Some HC_UNASSIGNED, Some HC_ASSIGNED}"
      unfolding s1_def using st True np by (intro undo_steps [OF ok]; simp)+
    have ok1: "bars_ok s1" by (rule bar_steps_ok [OF ok a])
    have n1: "reportsOf s1 i = 0" using n by (simp add: s1_def)
    obtain st1 where st1: "statusOf s1 i = Some st1" "st1 \<noteq> HC_TRANSFER_PENDING" using s1 by auto
    have "fileIncident s1 t i IN_OPEN (Some u) None (Some w) dto = Inr (s', r)" using f True by (simp add: s1_def)
    then show ?thesis by (intro bar_steps_trans [OF a fileIncident_steps [OF ok1 n1 st1]]) simp_all
  next
    case False
    then have "fileIncident s t i IN_OPEN (Some u) None (Some w) dto = Inr (s', r)" using f by simp
    then show ?thesis by (intro fileIncident_steps [OF ok n st False]) simp_all
  qed
qed

lemma pendingOf_types:
  assumes "length (pendingTypes s i) \<le> 1"
  shows "INITIAL_PURCHASE \<in> set (pendingTypes s i) \<longleftrightarrow> map_option trType (pendingOf s i) = Some INITIAL_PURCHASE"
proof (cases "pendingOf s i")
  case None
  then have "pendingTypes s i = []"
    by (auto simp: pendingOf_def pendingTypes_def find_None_iff filter_empty_conv)
  then show ?thesis by (simp add: None)
next
  case (Some r)
  then have "trType r \<in> set (pendingTypes s i)"
    using find_SomeD [of _ "transfers s" r] unfolding pendingOf_def pendingTypes_def by auto
  then show ?thesis using assms Some by (cases "pendingTypes s i") auto
qed

lemma createByAdmin_steps:
  assumes ok: "bars_ok s" and c: "createByAdmin s t admin x dto = Inr (s', r)"
  shows "bar_steps s s'"
proof -
  from c obtain b where bt: "codeByText s x = Some b" and n: "reportsOf s (hcId b) = 0"
    and f: "fileIncident
                 (if hcStatus b = HC_TRANSFER_PENDING then undoTransfer s (hcId b) else s)
                 t (hcId b) IN_CONFIRMED None (Some admin) (activeOwner s (hcId b)) dto = Inr (s', r)"
    unfolding createByAdmin_def by (auto simp del: not_None_eq)
  note st = status_of_code [OF codeByText_id(1) [OF bars_okD(1) [OF ok] bt]]
  show ?thesis
  proof (cases "hcStatus b = HC_TRANSFER_PENDING")
    case True
    have p: "INITIAL_PURCHASE \<in> set (pendingTypes s (hcId b)) \<longleftrightarrow>
        map_option trType (pendingOf s (hcId b)) = Some INITIAL_PURCHASE"
      using bars_okD(2) [OF ok, of "hcId b"] st True
      by (intro pendingOf_types) (auto simp: okView.simps barView_def)
    have a: "bar_steps s (undoTransfer s (hcId b))"
      and s1: "statusOf (undoTransfer s (hcId b)) (hcId b) \<in> {Some HC_UNASSIGNED, Some HC_ASSIGNED}"
      unfolding undoTransfer_def using st True p by (intro undo_steps [OF ok]; simp)+
    have ok1: "bars_ok (undoTransfer s (hcId b))" by (rule bar_steps_ok [OF ok a])
    have n1: "reportsOf (undoTransfer s (hcId b)) (hcId b) = 0" using n by (simp add: undoTransfer_def)
    obtain st1 where st1: "statusOf (undoTransfer s (hcId b)) (hcId b) = Some st1" "st1 \<noteq> HC_TRANSFER_PENDING"
      using s1 by auto
    have "fileIncident (undoTransfer s (hcId b)) t (hcId b) IN_CONFIRMED None (Some admin)
        (activeOwner s (hcId b)) dto = Inr (s', r)" using f True by simp
    then show ?thesis by (intro bar_steps_trans [OF a fileIncident_steps [OF ok1 n1 st1]]) simp_all
  next
    case False
    then have "fileIncident s t (hcId b) IN_CONFIRMED None (Some admin) (activeOwner s (hcId b)) dto = Inr (s', r)"
      using f by simp
    then show ?thesis by (intro fileIncident_steps [OF ok n st False]) simp_all
  qed
qed

text \<open>Closing a report.\<close>

lemma incident_unique:
  assumes "keys_ok s" "incidentById s k = Some r"
  shows "update_where (\<lambda>x. inId x = k) g (incidents s) = update_where (\<lambda>x. x = r) g (incidents s)"
proof -
  have r: "inId r = k" "r \<in> set (incidents s)"
    using find_SomeD [OF assms(2) [unfolded incidentById_def]] by simp_all
  have "x = r" if "x \<in> set (incidents s)" "inId x = k" for x
  proof (rule inj_onD)
    show "inj_on inId (set (incidents s))" using assms(1) by (simp add: keys_ok_def distinct_map)
  qed (use that r in simp_all)
  then show ?thesis unfolding update_where_def using r(1) by (intro map_cong refl) metis
qed

lemma reportsOf_close:
  assumes k: "keys_ok s" and r: "incidentById s k = Some r" "inStatus r \<in> set ACTIVE_INCIDENT_STATUSES"
    and g: "\<And>x. inCode (g x) = inCode x" "\<And>x. inStatus (g x) \<notin> set ACTIVE_INCIDENT_STATUSES"
  shows "reportsOf (setIncident s k g) (inCode r) + 1 = reportsOf s (inCode r)"
    and "j \<noteq> inCode r \<Longrightarrow> reportsOf (setIncident s k g) j = reportsOf s j"
proof -
  have i: "inId r = k" "r \<in> set (incidents s)"
    using find_SomeD [OF r(1) [unfolded incidentById_def]] by simp_all
  show "reportsOf (setIncident s k g) (inCode r) + 1 = reportsOf s (inCode r)"
    unfolding reportsOf_def setIncident_def i(1) [symmetric]
    using k i(2) r(2) g by (simp, intro filter_close_one [unfolded Suc_eq_plus1 [symmetric]])
      (auto simp: keys_ok_def activeIncident_def)
  assume j: "j \<noteq> inCode r"
  have "map id (filter (activeIncident j) (update_where (\<lambda>x. x = r) g (incidents s))) =
        map id (filter (activeIncident j) (incidents s))"
    using j g by (intro filter_update_none) (auto simp: activeIncident_def)
  then show "reportsOf (setIncident s k g) j = reportsOf s j"
    using incident_unique [OF k r(1)] by (simp add: reportsOf_def setIncident_def)
qed

lemma reportsOf_keep:
  assumes k: "keys_ok s" and r: "incidentById s k = Some r" "inStatus r \<in> set ACTIVE_INCIDENT_STATUSES"
    and g: "\<And>x. inCode (g x) = inCode x" "\<And>x. inStatus (g x) \<in> set ACTIVE_INCIDENT_STATUSES"
  shows "reportsOf (setIncident s k g) j = reportsOf s j"
proof -
  have "map inCode (filter (activeIncident j) (update_where (\<lambda>x. x = r) g (incidents s))) =
        map inCode (filter (activeIncident j) (incidents s))"
    using r g by (intro filter_update_none) (auto simp: activeIncident_def)
  then have "length (filter (activeIncident j) (update_where (\<lambda>x. x = r) g (incidents s))) =
        length (filter (activeIncident j) (incidents s))" by (rule map_eq_imp_length_eq)
  then show ?thesis using incident_unique [OF k r(1)] by (simp add: reportsOf_def setIncident_def)
qed

lemma close_steps:
  assumes ok: "bars_ok s" and r: "incidentById s k = Some r" "inStatus r \<in> set ACTIVE_INCIDENT_STATUSES"
    and g: "\<And>x. inCode (g x) = inCode x" "\<And>x. inStatus (g x) \<notin> set ACTIVE_INCIDENT_STATUSES" "\<And>x. inId (g x) = inId x"
  shows "bar_steps s (setIncident s k g)"
proof (rule one_bar [of _ _ "inCode r"])
  note c = reportsOf_close [OF bars_okD(1) [OF ok] r g(1,2)]
  show "keys_ok (setIncident s k g)" using bars_okD(1) [OF ok] g(3) by (simp add: keys)
  show "nextId s \<le> nextId (setIncident s k g)" by simp
  show "untouched s (setIncident s k g)" by simp
  show "barView (setIncident s k g) j = barView s j" if "j \<noteq> inCode r" for j
    using that c(2) [of j] by (simp add: barView_def)
  have le: "reportsOf s (inCode r) \<le> 1"
    using bars_okD(2) [OF ok, of "inCode r"] by (simp add: okView.simps barView_def)
  have one: "reportsOf s (inCode r) = 1" "reportsOf (setIncident s k g) (inCode r) = 0" using c(1) le by simp_all
  then obtain st where st: "statusOf s (inCode r) = Some st"
    using view_none(3) [OF bars_okD(2) [OF ok]] by (metis not_None_eq zero_neq_one)
  have "barView s (inCode r) = view st (ownersOf s (inCode r)) (pendingTypes s (inCode r)) 1"
    using one st by (simp add: barView_def)
  moreover have "barView (setIncident s k g) (inCode r) = view st (ownersOf s (inCode r)) (pendingTypes s (inCode r)) 0"
    using one st by (simp add: barView_def)
  ultimately show "bar_move\<^sup>*\<^sup>* (barView s (inCode r)) (barView (setIncident s k g) (inCode r))"
    by (simp only: move1 cleared)
qed

lemma cancelByOwner_steps:
  assumes ok: "bars_ok s" and c: "cancelByOwner s t u i reason = Inr (s', b)"
  shows "bar_steps s s'"
proof -
  from c obtain r where r: "incidentById s i = Some r" by (auto simp: cancelByOwner_def split: option.splits)
  show ?thesis
  proof (cases "inStatus r = IN_OPEN")
    case True
    then have "inStatus r \<in> set ACTIVE_INCIDENT_STATUSES" by (simp add: ACTIVE_INCIDENT_STATUSES_def)
    from close_steps [OF ok r this] show ?thesis using c r True
      by (auto simp: cancelByOwner_def ACTIVE_INCIDENT_STATUSES_def split: if_splits)
  next
    case False
    then show ?thesis using c r bar_steps_refl [OF ok] by (auto simp: cancelByOwner_def split: if_splits)
  qed
qed

lemma incidentTransition_steps:
  assumes ok: "bars_ok s" and st: "st \<in> {IN_CONFIRMED, IN_REJECTED, IN_RECOVERED}"
    and c: "incidentTransition s t admin i st txt = Inr (s', b)"
  shows "bar_steps s s'"
proof -
  from c obtain r where r: "incidentById s i = Some r" by (auto simp: incidentTransition_def split: option.splits)
  show ?thesis
  proof (cases "inStatus r = st")
    case True
    then show ?thesis using c r bar_steps_refl [OF ok] by (simp add: incidentTransition_def)
  next
    case False
    define g :: "incident \<Rightarrow> incident" where "g = (\<lambda>r.
                 (let r1 = r\<lparr>inStatus := st, inReviewedBy := Some admin, inReviewedAt := Some t\<rparr> in
                  if st = IN_CONFIRMED
                  then (case map_option trimText txt of
                          None \<Rightarrow> r1 | Some x \<Rightarrow> if x = [] then r1 else r1\<lparr>inNote := Some x\<rparr>)
                  else r1\<lparr>inClosedAt := Some t, inCloseReason := map_option trimText txt\<rparr>))"
    have s': "s' = setIncident s i g" and tr: "st \<in> set (incidentTransitions (inStatus r))"
      using c r False by (auto simp: incidentTransition_def g_def split: if_splits)
    have act: "inStatus r \<in> set ACTIVE_INCIDENT_STATUSES"
      using tr by (cases "inStatus r") (auto simp: incidentTransitions_def ACTIVE_INCIDENT_STATUSES_def)
    have g: "inCode (g x) = inCode x" "inStatus (g x) = st" "inId (g x) = inId x" for x
      by (auto simp: g_def Let_def split: option.split)
    show ?thesis
    proof (cases "st = IN_CONFIRMED")
      case True
      then have "reportsOf s' j = reportsOf s j" for j unfolding s'
        using reportsOf_keep [OF bars_okD(1) [OF ok] r act, of g] g by (simp add: ACTIVE_INCIDENT_STATUSES_def)
      then have "barView s' = barView s" by (simp add: fun_eq_iff barView_def s')
      then show ?thesis using bars_okD(1) [OF ok] g(3) by (simp add: bar_steps_def s' keys)
    next
      case False
      then have "inStatus (g x) \<notin> set ACTIVE_INCIDENT_STATUSES" for x
        using g(2) st by (auto simp: ACTIVE_INCIDENT_STATUSES_def)
      from close_steps [OF ok r act g(1) this g(3)] show ?thesis by (simp add: s')
    qed
  qed
qed

text \<open>New codes.\<close>

lemma insertCode_steps:
  assumes ok: "bars_ok s" and x: "codeByText s x = None"
  shows "bar_steps s (s\<lparr>nextId := nextId s + 1, codes := codes s @ [newCode (nextId s) batch x]\<rparr>)" (is "bar_steps s ?s'")
proof (rule one_bar [of _ _ "nextId s"])
  have fresh: "find (\<lambda>c. hcId c = nextId s) (codes s) = None"
    using bars_okD(1) [OF ok] by (auto simp: keys_ok_def find_None_iff)
  have new: "x \<notin> hcCode ` set (codes s)" using x by (auto simp: codeByText_def find_None_iff)
  show "keys_ok ?s'" using bars_okD(1) [OF ok] new
    by (auto simp: keys_ok_def newCode_def less_SucI image_iff)
  show "nextId s \<le> nextId ?s'" by simp
  show "untouched s ?s'" by (simp add: untouched_def)
  have o: "ownersOf ?s' = ownersOf s" "pendingTypes ?s' = pendingTypes s" "reportsOf ?s' = reportsOf s"
    by (simp_all add: fun_eq_iff ownersOf_def pendingTypes_def reportsOf_def)
  have st: "statusOf ?s' j = (if j = nextId s then Some HC_UNASSIGNED else statusOf s j)" for j
    using fresh by (auto simp: statusOf_def codeById_def find_append newCode_def split: option.split)
  show "barView ?s' j = barView s j" if "j \<noteq> nextId s" for j using that unfolding barView_def o st by simp
  have n: "statusOf s (nextId s) = None" using fresh by (simp add: statusOf_def codeById_def)
  note v = view_none [OF bars_okD(2) [OF ok] n]
  have "barView s (nextId s) = noBar" using n v by (simp add: barView_def)
  moreover have "barView ?s' (nextId s) = view HC_UNASSIGNED [] [] 0" using v unfolding barView_def o st by simp
  ultimately show "bar_move\<^sup>*\<^sup>* (barView s (nextId s)) (barView ?s' (nextId s))" by (simp add: move1 born)
qed

lemma insertCodes_steps: "bars_ok s \<Longrightarrow> bar_steps s (insertCodes s batch xs)"
proof (induction xs arbitrary: s)
  case (Cons x xs)
  define s1 where "s1 = (if codeByText s x = None
        then s\<lparr>nextId := nextId s + 1, codes := codes s @ [newCode (nextId s) batch x]\<rparr> else s)"
  have a: "bar_steps s s1" unfolding s1_def using insertCode_steps [OF Cons.prems] bar_steps_refl [OF Cons.prems] by simp
  show ?case using bar_steps_trans [OF a Cons.IH [OF bar_steps_ok [OF Cons.prems a]]] by (simp add: s1_def)
qed (simp add: bar_steps_refl)

lemma generateRounds_steps:
  "bars_ok s \<Longrightarrow> bar_steps s (fst (generateRounds n s b q draws cs))"
proof (induction n arbitrary: s draws cs)
  case (Suc n)
  show ?case
  proof (cases "drawCodes (q - length cs) draws []")
    case None
    then show ?thesis using bar_steps_refl [OF Suc.prems] by simp
  next
    case (Some p)
    then obtain xs rest where p: "drawCodes (q - length cs) draws [] = Some (xs, rest)" by (cases p) simp
    have a: "bar_steps s (insertCodes s b xs)" by (rule insertCodes_steps [OF Suc.prems])
    show ?thesis using bar_steps_refl [OF Suc.prems]
      bar_steps_trans [OF a Suc.IH [OF bar_steps_ok [OF Suc.prems a]]] by (simp add: p Let_def)
  qed
qed (simp add: bar_steps_refl)

lemma createBatch_steps:
  assumes ok: "bars_ok s" shows "bar_steps s (fst (createBatch s admin q notes draws))"
proof -
  let ?s1 = "fst (sequenceNext s ''HOLO'')"
  let ?s2 = "?s1\<lparr>nextId := nextId s + 1, batches := batches ?s1 @
     [\<lparr>btId = nextId s, btNumber = snd (sequenceNext s ''HOLO''), btQuantity = q, btNotes = notes, btBy = admin\<rparr>]\<rparr>"
  have a: "bar_steps s ?s2"
    by (rule no_bar [OF ok]) (simp_all add: untouched_def sequenceNext_def Let_def)
  have "fst (createBatch s admin q notes draws) =
      fst (generateRounds MAX_GENERATION_RETRIES_PER_CODE ?s2 (nextId s) q draws [])"
    unfolding createBatch_def Let_def split_def by (auto split: option.split prod.split)
  then show ?thesis using bar_steps_trans [OF a generateRounds_steps [OF bar_steps_ok [OF ok a]]] by simp
qed

end
