(* ===== verification/Sales.thy ===== *)
theory Sales
  imports Buyback BarOps
begin

section \<open>The requests and the bars they lock\<close>

text \<open>
  What every call of the service that buys bars back keeps: each open request locks its own bar, which
  belongs to the user of the request; and the requests move along their statuses with the evidence each
  status stands for.
\<close>

abbreviation openSale :: "buyback \<Rightarrow> bool" where
  "openSale r \<equiv> bbStatus r \<in> set OPEN_STATUSES"

definition sales_ok :: "'a vault_scheme \<Rightarrow> bool" where
  "sales_ok s \<longleftrightarrow>
     distinct (map bbId (buybacks s)) \<and> (\<forall>r \<in> set (buybacks s). bbId r < nextId s) \<and>
     distinct (map bbCode (filter openSale (buybacks s))) \<and>
     (\<forall>r \<in> set (buybacks s). openSale r \<longrightarrow>
        statusOf s (bbCode r) = Some HC_BUYBACK_PENDING \<and> ownersOf s (bbCode r) = [bbUser r]) \<and>
     (\<forall>i. statusOf s i = Some HC_BUYBACK_PENDING \<longrightarrow> i \<in> bbCode ` set (filter openSale (buybacks s)))"

subsection \<open>The life of a request\<close>

inductive bb_edge :: "buyback_status \<Rightarrow> buyback_status \<Rightarrow> bool" where
  accept: "st \<in> {BB_SUBMITTED, BB_AWAITING_DELIVERY} \<Longrightarrow> bb_edge st BB_AWAITING_DELIVERY"
| receive: "st \<in> {BB_SUBMITTED, BB_AWAITING_DELIVERY} \<Longrightarrow> bb_edge st BB_RECEIVED"
| close: "st \<in> {BB_SUBMITTED, BB_AWAITING_DELIVERY} \<Longrightarrow> st' \<in> {BB_REJECTED, BB_CANCELLED} \<Longrightarrow> bb_edge st st'"
| inspect: "st \<in> {BB_RECEIVED, BB_INSPECTION_PASSED} \<Longrightarrow> bb_edge st BB_INSPECTION_PASSED"
| offer: "st \<in> {BB_INSPECTION_PASSED, BB_OFFERED} \<Longrightarrow> bb_edge st BB_OFFERED"
| lapse: "bb_edge BB_OFFERED BB_INSPECTION_PASSED"
| agree: "bb_edge BB_OFFERED BB_ACCEPTED"
| confirm: "bb_edge BB_ACCEPTED BB_APPROVED"
| payout: "bb_edge BB_APPROVED BB_PAID"
| send_back: "st \<in> {BB_RECEIVED, BB_INSPECTION_PASSED, BB_OFFERED, BB_ACCEPTED, BB_APPROVED} \<Longrightarrow>
    bb_edge st BB_RETURN_PENDING"
| sent_back: "bb_edge BB_RETURN_PENDING BB_RETURNED"

inductive_simps bb_edge_from: "bb_edge BB_PAID st" "bb_edge BB_RETURNED st" "bb_edge BB_REJECTED st"
  "bb_edge BB_CANCELLED st" "bb_edge BB_APPROVED st" "bb_edge BB_ACCEPTED st" "bb_edge BB_RETURN_PENDING st"

text \<open>A step of a request: who and what it is about never changes, and an offer only comes with its status.\<close>

definition row_step :: "buyback \<Rightarrow> buyback \<Rightarrow> bool" where
  "row_step r r' \<longleftrightarrow>
     bbId r' = bbId r \<and> bbUser r' = bbUser r \<and> bbCode r' = bbCode r \<and> bbWeight r' = bbWeight r \<and>
     bb_edge (bbStatus r) (bbStatus r') \<and>
     (bbOffer r' = bbOffer r \<or> bbStatus r' = BB_OFFERED)"

text \<open>The evidence behind a status.\<close>

definition row_ok :: "rat \<Rightarrow> buyback \<Rightarrow> bool" where
  "row_ok threshold r \<longleftrightarrow>
     (bbStatus r \<in> {BB_INSPECTION_PASSED, BB_OFFERED, BB_ACCEPTED, BB_APPROVED, BB_PAID} \<longrightarrow>
        bbPassed r = Some True \<and> bbMeasured r \<noteq> None \<and> (\<exists>k. bbChecklist r = Some k \<and> allChecks k)) \<and>
     (bbStatus r \<in> {BB_OFFERED, BB_ACCEPTED, BB_APPROVED, BB_PAID} \<longrightarrow> bbOffer r \<noteq> None \<and> 0 < netOf r) \<and>
     (bbStatus r \<in> {BB_ACCEPTED, BB_APPROVED, BB_PAID} \<longrightarrow>
        (\<exists>x t. bbOffer r = Some x \<and> bbAcceptedAt r = Some t \<and> t < ofExpires x)) \<and>
     (bbStatus r \<in> {BB_APPROVED, BB_PAID} \<longrightarrow> bbApprovedBy r \<noteq> None) \<and>
     (bbStatus r = BB_PAID \<longrightarrow> bbPaidBy r \<noteq> None \<and> bbJournal r \<noteq> None \<and>
        (threshold \<le> of_int (netOf r) \<longrightarrow> bbPaidBy r \<noteq> bbApprovedBy r))"

definition dualThreshold :: "'a ledger_scheme \<Rightarrow> rat" where
  "dualThreshold s = getNumber s ''withdrawal.dual_control_threshold'' 500000000"

definition vault_ok :: "'a vault_scheme \<Rightarrow> bool" where
  "vault_ok s \<longleftrightarrow> wf_ledger s \<and> bars_ok s \<and> sales_ok s \<and> (\<forall>r \<in> set (buybacks s). row_ok (dualThreshold s) r)"

text \<open>
  The rial paid for bars, against the account 1025 of the bars in the vault, and the wallets with their
  control accounts.
\<close>

definition paidRial :: "'a vault_scheme \<Rightarrow> int" where
  "paidRial s = sum_where (\<lambda>r. bbStatus r = BB_PAID) netOf (buybacks s)"

definition vaultMoney :: "'a vault_scheme \<Rightarrow> int \<times> wallet list \<times> int \<times> rat" where
  "vaultMoney s = (rialOf s ''1025'' - paidRial s, wallets s, rialOf s ''2010'', gramsOf s ''2020'')"

definition rows_evolve :: "'a vault_scheme \<Rightarrow> 'a vault_scheme \<Rightarrow> bool" where
  "rows_evolve s s' \<longleftrightarrow>
     (\<forall>i r. buybackById s i = Some r \<longrightarrow> (\<exists>r'. buybackById s' i = Some r' \<and> row_step\<^sup>*\<^sup>* r r'))"

lemma rows_evolve_refl: "rows_evolve s s"
  by (simp add: rows_evolve_def)

lemma rows_evolve_trans: "rows_evolve s s1 \<Longrightarrow> rows_evolve s1 s2 \<Longrightarrow> rows_evolve s s2"
  unfolding rows_evolve_def by (meson rtranclp_trans)

lemma rows_evolve_same: "buybacks s' = buybacks s \<Longrightarrow> rows_evolve s s'"
  by (simp add: rows_evolve_def buybackById_def)

subsection \<open>Changing one request\<close>

lemma setBuyback_frame [simp]:
  "statusOf (setBuyback s i f) = statusOf s" "ownersOf (setBuyback s i f) = ownersOf s"
  "barView (setBuyback s i f) = barView s" "nextId (setBuyback s i f) = nextId s"
  "keys_ok (setBuyback s i f) = keys_ok s" "dualThreshold (setBuyback s i f) = dualThreshold s"
  "bars_ok (setBuyback s i f) = bars_ok s" "wf_ledger (setBuyback s i f) = wf_ledger s"
  "wallets (setBuyback s i f) = wallets s" "rialOf (setBuyback s i f) = rialOf s"
  "gramsOf (setBuyback s i f) = gramsOf s"
  by (simp_all add: wf_ledger_def rialOf_def gramsOf_def setBuyback_def fun_eq_iff statusOf_def ownersOf_def barView_def pendingTypes_def reportsOf_def
      codeById_def keys_ok_def dualThreshold_def getNumber_def bars_ok_def)

lemma bbEvent_frame [simp]:
  "statusOf (bbEvent s i a b c) = statusOf s" "ownersOf (bbEvent s i a b c) = ownersOf s"
  "barView (bbEvent s i a b c) = barView s" "nextId (bbEvent s i a b c) = nextId s"
  "keys_ok (bbEvent s i a b c) = keys_ok s" "dualThreshold (bbEvent s i a b c) = dualThreshold s"
  "buybacks (bbEvent s i a b c) = buybacks s" "bars_ok (bbEvent s i a b c) = bars_ok s"
  "sales_ok (bbEvent s i a b c) = sales_ok s" "vault_ok (bbEvent s i a b c) = vault_ok s"
  "wf_ledger (bbEvent s i a b c) = wf_ledger s" "wallets (bbEvent s i a b c) = wallets s"
  "rialOf (bbEvent s i a b c) = rialOf s" "gramsOf (bbEvent s i a b c) = gramsOf s"
  "paidRial (bbEvent s i a b c) = paidRial s"
  by (simp_all add: wf_ledger_def rialOf_def gramsOf_def paidRial_def bbEvent_def fun_eq_iff statusOf_def ownersOf_def barView_def pendingTypes_def reportsOf_def
      codeById_def keys_ok_def dualThreshold_def getNumber_def bars_ok_def sales_ok_def vault_ok_def)

lemma lockRequest_Inr:
  assumes "lockRequest s i allowed u = Inr r"
  shows "buybackById s i = Some r" "bbId r = i" "r \<in> set (buybacks s)" "bbStatus r \<in> set allowed"
    "u = None \<or> u = Some (bbUser r)"
proof -
  show b: "buybackById s i = Some r" using assms by (auto simp: lockRequest_def)
  show "bbId r = i" "r \<in> set (buybacks s)" using find_SomeD [OF b [unfolded buybackById_def]] by simp_all
  show "bbStatus r \<in> set allowed" "u = None \<or> u = Some (bbUser r)" using assms by (auto simp: lockRequest_def)
qed

lemma filter_update_drop:
  "\<not> P (f r) \<Longrightarrow> filter P (update_where (\<lambda>x. x = r) f rs) = filter (\<lambda>x. P x \<and> x \<noteq> r) rs"
  by (induction rs) auto

lemma row_unique:
  assumes "distinct (map bbId rs)" "r \<in> set rs"
  shows "update_where (\<lambda>x. bbId x = bbId r) f rs = update_where (\<lambda>x. x = r) f rs"
proof -
  have "x = r" if "x \<in> set rs" "bbId x = bbId r" for x
  proof (rule inj_onD)
    show "inj_on bbId (set rs)" using assms(1) by (simp add: distinct_map)
  qed (use that assms in simp_all)
  then show ?thesis unfolding update_where_def by (intro map_cong refl) metis
qed

lemma sum_update_none:
  assumes "\<not> P r" "\<not> P (f r)" shows "sum_where P g (update_where (\<lambda>x. x = r) f rs) = sum_where P g rs"
  by (induction rs) (use assms in auto)

lemma evolve_one:
  assumes r: "buybackById s i = Some r" and f: "\<And>x. bbId (f x) = bbId x" and st: "row_step r (f r)"
    and b: "buybacks s' = buybacks (setBuyback s i f)"
  shows "rows_evolve s s'" "buybackById s' i = Some (f r)"
proof -
  have k: "buybackById s' j = (if j = i then map_option f (buybackById s i) else buybackById s j)" for j
  proof (cases "j = i")
    case True
    then show ?thesis using find_update_where_same [of bbId f i "buybacks s"] f
      by (simp add: b buybackById_def setBuyback_def)
  next
    case False
    have "find (\<lambda>c. bbId c = j) (update_where (\<lambda>c. bbId c = i) f (buybacks s)) = find (\<lambda>c. bbId c = j) (buybacks s)"
      using False f by (intro find_update_where_other) auto
    then show ?thesis using False by (simp add: b buybackById_def setBuyback_def)
  qed
  show "buybackById s' i = Some (f r)" using k r by simp
  show "rows_evolve s s'" unfolding rows_evolve_def k using r st by auto
qed

definition vault_steps :: "'a vault_scheme \<Rightarrow> 'a vault_scheme \<Rightarrow> bool" where
  "vault_steps s s' \<longleftrightarrow>
     vault_ok s' \<and> rows_evolve s s' \<and> vaultMoney s' = vaultMoney s \<and> nextId s \<le> nextId s' \<and> dualThreshold s' = dualThreshold s \<and>
     (\<forall>i. (sup bar_move sale_move)\<^sup>*\<^sup>* (barView s i) (barView s' i))"

lemma vault_steps_refl: "vault_ok s \<Longrightarrow> vault_steps s s"
  by (simp add: vault_steps_def rows_evolve_refl)

lemma vault_steps_trans: "vault_steps s s1 \<Longrightarrow> vault_steps s1 s2 \<Longrightarrow> vault_steps s s2"
  unfolding vault_steps_def by (auto intro: rows_evolve_trans rtranclp_trans)

lemma vault_okD:
  assumes "vault_ok s"
  shows "bars_ok s" "sales_ok s" "wf_ledger s" "r \<in> set (buybacks s) \<Longrightarrow> row_ok (dualThreshold s) r"
    "distinct (map bbId (buybacks s))"
  using assms by (simp_all add: vault_ok_def sales_ok_def)

text \<open>A step that keeps the request open.\<close>

lemma keep_sale:
  assumes ok: "vault_ok s" and r: "lockRequest s i allowed u = Inr r"
    and f: "\<And>x. bbId (f x) = bbId x" "\<And>x. bbCode (f x) = bbCode x" "\<And>x. bbUser (f x) = bbUser x"
    and o: "openSale r" "openSale (f r)" and st: "row_step r (f r)"
    and e: "row_ok (dualThreshold s) r \<Longrightarrow> row_ok (dualThreshold s) (f r)"
  shows "vault_steps s (bbEvent (setBuyback s i f) j a b c)" (is "vault_steps s ?s'")
proof -
  note l = lockRequest_Inr [OF r]
  have d: "distinct (map bbId (buybacks s))" by (rule vault_okD [OF ok])
  have rows: "buybacks ?s' = update_where (\<lambda>x. x = r) f (buybacks s)"
    using row_unique [OF d l(3), of f] l(2) by (simp add: setBuyback_def)
  have g: "map bbCode (filter openSale (buybacks ?s')) = map bbCode (filter openSale (buybacks s))"
    unfolding rows using o f(2) by (intro filter_update_none) auto
  have ids: "map bbId (buybacks ?s') = map bbId (buybacks s)" unfolding rows using f(1) by (rule map_update_where)
  have mem: "x' \<in> set (buybacks ?s') \<Longrightarrow> x' \<in> set (buybacks s) \<or> x' = f r" for x'
    unfolding rows by (auto simp: set_update_where)
  have sales: "sales_ok ?s'"
    unfolding sales_ok_def
  proof (intro conjI ballI allI impI)
    show "distinct (map bbId (buybacks ?s'))" unfolding ids by (rule d)
    show "bbId x < nextId ?s'" if "x \<in> set (buybacks ?s')" for x
      using mem [OF that] vault_okD(2) [OF ok] l(3) f(1) by (auto simp: sales_ok_def)
    show "distinct (map bbCode (filter openSale (buybacks ?s')))"
      using vault_okD(2) [OF ok] unfolding g by (simp add: sales_ok_def)
    show "statusOf ?s' (bbCode x) = Some HC_BUYBACK_PENDING" "ownersOf ?s' (bbCode x) = [bbUser x]"
      if "x \<in> set (buybacks ?s')" "openSale x" for x
      using mem [OF that(1)] vault_okD(2) [OF ok] l(3) f o that(2) by (auto simp: sales_ok_def)
    show "k \<in> bbCode ` set (filter openSale (buybacks ?s'))" if "statusOf ?s' k = Some HC_BUYBACK_PENDING" for k
    proof -
      have "k \<in> set (map bbCode (filter openSale (buybacks s)))"
        using that vault_okD(2) [OF ok] by (simp add: sales_ok_def)
      then show ?thesis unfolding g [symmetric] by simp
    qed
  qed
  have money: "vaultMoney ?s' = vaultMoney s"
  proof -
    have "paidRial ?s' = paidRial s" unfolding paidRial_def rows
      using o by (intro sum_update_none) (auto simp: OPEN_STATUSES_def)
    then show ?thesis by (simp add: vaultMoney_def)
  qed
  have "vault_ok ?s'" unfolding vault_ok_def
  proof (intro conjI ballI)
    show "wf_ledger ?s'" using vault_okD(3) [OF ok] by simp
    show "bars_ok ?s'" using vault_okD(1) [OF ok] by simp
    show "row_ok (dualThreshold ?s') x" if "x \<in> set (buybacks ?s')" for x
      using mem [OF that] vault_okD(4) [OF ok] e l(3) by auto
  qed (rule sales)
  moreover have "rows_evolve s ?s'"
    by (rule evolve_one(1) [where f = f, OF l(1) f(1) st]) simp
  ultimately show ?thesis using money by (simp add: vault_steps_def)
qed

text \<open>The release of the bar.\<close>

lemma releaseCode_frame [simp]:
  "ownersOf (releaseCode s k) = ownersOf s" "pendingTypes (releaseCode s k) = pendingTypes s"
  "reportsOf (releaseCode s k) = reportsOf s" "nextId (releaseCode s k) = nextId s"
  "buybacks (releaseCode s k) = buybacks s" "dualThreshold (releaseCode s k) = dualThreshold s"
  "wf_ledger (releaseCode s k) = wf_ledger s" "wallets (releaseCode s k) = wallets s"
  "rialOf (releaseCode s k) = rialOf s" "gramsOf (releaseCode s k) = gramsOf s"
  by (simp_all add: releaseCode_def wf_ledger_def rialOf_def gramsOf_def fun_eq_iff ownersOf_def pendingTypes_def reportsOf_def dualThreshold_def
      getNumber_def)

lemma keys_releaseCode [simp]: "keys_ok (releaseCode s k) = keys_ok s"
proof -
  have m: "map hcId (update_where q (\<lambda>x. x\<lparr>hcStatus := HC_ASSIGNED\<rparr>) cs) = map hcId cs"
    "map hcCode (update_where q (\<lambda>x. x\<lparr>hcStatus := HC_ASSIGNED\<rparr>) cs) = map hcCode cs" for q cs
    by (rule map_update_where, simp)+
  show ?thesis unfolding keys_ok_def releaseCode_def by (simp add: m ball_update_key)
qed

lemma statusOf_release:
  "statusOf (releaseCode s k) j =
     (if j = k \<and> statusOf s k = Some HC_BUYBACK_PENDING then Some HC_ASSIGNED else statusOf s j)"
proof -
  have "map_option hcStatus (find (\<lambda>c. hcId c = j)
          (update_where (\<lambda>x. hcId x = k \<and> hcStatus x = HC_BUYBACK_PENDING)
             (\<lambda>x. x\<lparr>hcStatus := HC_ASSIGNED\<rparr>) cs)) =
        (if j = k \<and> map_option hcStatus (find (\<lambda>c. hcId c = k) cs) = Some HC_BUYBACK_PENDING then Some HC_ASSIGNED
         else map_option hcStatus (find (\<lambda>c. hcId c = j) cs))" for cs
    by (induction cs) auto
  from this [of "codes s"] show ?thesis
    by (simp add: statusOf_def codeById_def releaseCode_def del: map_option_eq_Some)
qed

text \<open>A step that ends the request and takes the lock off its bar.\<close>

lemma sale_ends:
  assumes ok: "vault_ok s" and r: "r \<in> set (buybacks s)" "openSale r"
    and o: "\<not> openSale (f r)" and f: "\<And>x. bbId (f x) = bbId x"
    and rows: "buybacks s' = update_where (\<lambda>x. x = r) f (buybacks s)" and n: "nextId s \<le> nextId s'"
    and st: "\<And>j. statusOf s' j = (if j = bbCode r then Some st else statusOf s j)" "st \<noteq> HC_BUYBACK_PENDING"
    and ow: "\<And>j. j \<noteq> bbCode r \<Longrightarrow> ownersOf s' j = ownersOf s j"
  shows "sales_ok s'"
proof -
  have so: "sales_ok s" by (rule vault_okD [OF ok])
  have ids: "map bbId (buybacks s') = map bbId (buybacks s)" unfolding rows using f by (rule map_update_where)
  have fo: "filter openSale (buybacks s') = filter (\<lambda>x. openSale x \<and> x \<noteq> r) (buybacks s)"
    unfolding rows by (rule filter_update_drop [where P = openSale and f = f, OF o])
  have fo': "filter openSale (buybacks s') = filter (\<lambda>x. x \<noteq> r) (filter openSale (buybacks s))"
    unfolding fo by (simp add: conj_commute)
  have dc: "distinct (map bbCode (filter openSale (buybacks s)))" using so by (simp add: sales_ok_def)
  have other: "bbCode x \<noteq> bbCode r" if "x \<in> set (buybacks s)" "openSale x" "x \<noteq> r" for x
    using dc that r unfolding distinct_map inj_on_def by auto
  show ?thesis unfolding sales_ok_def
  proof (intro conjI ballI allI impI)
    show "distinct (map bbId (buybacks s'))" unfolding ids using so by (simp add: sales_ok_def)
    show "bbId x < nextId s'" if "x \<in> set (buybacks s')" for x
    proof -
      have "bbId x \<in> set (map bbId (buybacks s))" using that unfolding ids [symmetric] by simp
      then show ?thesis using so n by (auto simp: sales_ok_def)
    qed
    show "distinct (map bbCode (filter openSale (buybacks s')))"
      unfolding fo' using dc by (rule distinct_map_filter)
    show "statusOf s' (bbCode x) = Some HC_BUYBACK_PENDING" "ownersOf s' (bbCode x) = [bbUser x]"
      if "x \<in> set (buybacks s')" "openSale x" for x
    proof -
      have "x \<in> set (filter openSale (buybacks s'))" using that by simp
      then have x: "x \<in> set (buybacks s)" "openSale x" "x \<noteq> r" unfolding fo by simp_all
      have "statusOf s (bbCode x) = Some HC_BUYBACK_PENDING" "ownersOf s (bbCode x) = [bbUser x]"
        using so x by (simp_all add: sales_ok_def)
      then show "statusOf s' (bbCode x) = Some HC_BUYBACK_PENDING" "ownersOf s' (bbCode x) = [bbUser x]"
        using other [OF x] st ow by simp_all
    qed
    show "k \<in> bbCode ` set (filter openSale (buybacks s'))" if "statusOf s' k = Some HC_BUYBACK_PENDING" for k
    proof -
      have k: "k \<noteq> bbCode r" "statusOf s k = Some HC_BUYBACK_PENDING"
        using that st by (auto split: if_splits)
      then obtain x where "x \<in> set (buybacks s)" "openSale x" "k = bbCode x" using so by (auto simp: sales_ok_def)
      then show ?thesis unfolding fo using k(1) by auto
    qed
  qed
qed

lemma release_sale:
  assumes ok: "vault_ok s" and r: "lockRequest s i allowed u = Inr r"
    and f: "\<And>x. bbId (f x) = bbId x"
    and o: "openSale r" "\<not> openSale (f r)" "bbStatus (f r) \<noteq> BB_PAID" and st: "row_step r (f r)"
    and e: "row_ok (dualThreshold s) r \<Longrightarrow> row_ok (dualThreshold s) (f r)"
  shows "vault_steps s (bbEvent (releaseCode (setBuyback s i f) (bbCode r)) j a b c)" (is "vault_steps s ?s'")
proof -
  note l = lockRequest_Inr [OF r]
  have d: "distinct (map bbId (buybacks s))" by (rule vault_okD [OF ok])
  have rows: "buybacks ?s' = update_where (\<lambda>x. x = r) f (buybacks s)"
    using row_unique [OF d l(3), of f] l(2) by (simp add: setBuyback_def)
  have lock: "statusOf s (bbCode r) = Some HC_BUYBACK_PENDING" "ownersOf s (bbCode r) = [bbUser r]"
    using vault_okD(2) [OF ok] l(3) o(1) by (simp_all add: sales_ok_def)
  have stat: "statusOf ?s' k = (if k = bbCode r then Some HC_ASSIGNED else statusOf s k)" for k
    using lock by (simp add: statusOf_release)
  have pend: "pendingTypes s (bbCode r) = []"
    by (rule view_owned [OF bars_okD(2) [OF vault_okD(1) [OF ok]] lock(1)]) simp_all
  have fr: "ownersOf ?s' = ownersOf s" "pendingTypes ?s' = pendingTypes s" "reportsOf ?s' = reportsOf s"
    "nextId ?s' = nextId s" "keys_ok ?s'"
    using bars_okD(1) [OF vault_okD(1) [OF ok]]
    by (simp_all, simp_all add: fun_eq_iff ownersOf_def pendingTypes_def reportsOf_def setBuyback_def releaseCode_def bbEvent_def)
  have sales: "sales_ok ?s'"
    by (rule sale_ends [where f = f, OF ok l(3) o(1,2) f rows _ stat]) (simp_all add: fr)
  have mv: "(sup bar_move sale_move)\<^sup>*\<^sup>* (barView s k) (barView ?s' k)" for k
  proof (cases "k = bbCode r")
    case True
    have "barView s k = view HC_BUYBACK_PENDING [bbUser r] [] (reportsOf s k)"
      using True lock pend by (simp add: barView_def)
    moreover have "barView ?s' k = view HC_ASSIGNED [bbUser r] [] (reportsOf s k)"
      unfolding barView_def stat fr using True lock pend by simp
    ultimately show ?thesis using released [of "bbUser r" "reportsOf s k"] by (metis r_into_rtranclp sup2I2)
  next
    case False
    then have "barView ?s' k = barView s k" unfolding barView_def stat fr by simp
    then show ?thesis by simp
  qed
  have "okView v \<Longrightarrow> (sup bar_move sale_move)\<^sup>*\<^sup>* v v' \<Longrightarrow> okView v'" for v v'
    by (rotate_tac 1, induction rule: rtranclp_induct) (auto intro: bar_move_ok sale_move_ok)
  then have bars: "bars_ok ?s'" using mv fr(5) vault_okD(1) [OF ok] unfolding bars_ok_def by blast
  have money: "vaultMoney ?s' = vaultMoney s"
  proof -
    have "paidRial ?s' = paidRial s" unfolding paidRial_def rows
      using o by (intro sum_update_none) (auto simp: OPEN_STATUSES_def)
    then show ?thesis by (simp add: vaultMoney_def)
  qed
  have "vault_ok ?s'" unfolding vault_ok_def
  proof (intro conjI ballI)
    show "wf_ledger ?s'" using vault_okD(3) [OF ok] by simp
    show "row_ok (dualThreshold ?s') x" if "x \<in> set (buybacks ?s')" for x
    proof -
      have "x \<in> set (buybacks s) \<or> x = f r" using that unfolding rows by (auto simp: set_update_where)
      then show ?thesis using vault_okD(4) [OF ok] e l(3) by auto
    qed
  qed (rule sales bars)+
  moreover have "rows_evolve s ?s'"
    by (rule evolve_one(1) [where f = f, OF l(1) f st]) simp
  ultimately show ?thesis using mv money by (simp add: vault_steps_def)
qed

end
