(* ===== verification/SaleOps.thy ===== *)
theory SaleOps
  imports Sales
begin

section \<open>The calls of the buyback as steps\<close>

lemmas open_defs = OPEN_STATUSES_def

lemma reviewedBy_simps [simp]:
  "bbId (reviewedBy a t r) = bbId r" "bbUser (reviewedBy a t r) = bbUser r"
  "bbCode (reviewedBy a t r) = bbCode r" "bbWeight (reviewedBy a t r) = bbWeight r"
  "bbOffer (reviewedBy a t r) = bbOffer r" "bbStatus (reviewedBy a t r) = bbStatus r"
  by (simp_all add: reviewedBy_def)

lemma evidence_free:
  "bbStatus r \<in> {BB_SUBMITTED, BB_AWAITING_DELIVERY, BB_RECEIVED, BB_RETURN_PENDING, BB_RETURNED, BB_REJECTED,
     BB_CANCELLED} \<Longrightarrow> row_ok n r"
  by (auto simp: row_ok_def)

lemma cancel_steps:
  assumes ok: "vault_ok s" and c: "bbCancelByUser s t u i reason = Inr s'" shows "vault_steps s s'"
proof -
  from c obtain r where r: "lockRequest s i [BB_SUBMITTED, BB_AWAITING_DELIVERY] (Some u) = Inr r"
    and s': "s' = bbEvent (releaseCode (setBuyback s i (\<lambda>r. r\<lparr>bbStatus := BB_CANCELLED, bbCancelledAt := Some t,
       bbReason := reason\<rparr>)) (bbCode r)) i (Some (bbStatus r)) BB_CANCELLED (BB_USER u)"
    by (auto simp: bbCancelByUser_def Let_def)
  note st = lockRequest_Inr(4) [OF r]
  show ?thesis unfolding s'
    by (rule release_sale [OF ok r])
      (use st in \<open>auto simp: open_defs row_step_def evidence_free intro!: close\<close>)
qed

lemma reject_steps:
  assumes ok: "vault_ok s" and c: "rejectBuyback s t admin i reason = Inr s'" shows "vault_steps s s'"
proof -
  from c obtain r where r: "lockRequest s i [BB_SUBMITTED, BB_AWAITING_DELIVERY] None = Inr r"
    and s': "s' = bbEvent (releaseCode (setBuyback s i (\<lambda>r. (reviewedBy admin t r)\<lparr>bbStatus := BB_REJECTED,
                     bbReason := Some (trimText reason)\<rparr>)) (bbCode r)) i (Some (bbStatus r)) BB_REJECTED (BB_ADMIN admin)"
    by (auto simp: rejectBuyback_def Let_def)
  note st = lockRequest_Inr(4) [OF r]
  show ?thesis unfolding s'
    by (rule release_sale [OF ok r])
      (use st in \<open>auto simp: open_defs row_step_def evidence_free intro!: close\<close>)
qed

lemma markReturned_steps:
  assumes ok: "vault_ok s" and c: "markBarReturned s t admin i = Inr s'" shows "vault_steps s s'"
proof -
  from c obtain r where r: "lockRequest s i [BB_RETURN_PENDING] None = Inr r"
    and s': "s' = bbEvent (releaseCode (setBuyback s i (\<lambda>r. r\<lparr>bbStatus := BB_RETURNED, bbReturnedAt := Some t,
       bbReturnedBy := Some admin\<rparr>)) (bbCode r)) i (Some BB_RETURN_PENDING) BB_RETURNED (BB_ADMIN admin)"
    by (auto simp: markBarReturned_def Let_def)
  note st = lockRequest_Inr(4) [OF r]
  show ?thesis unfolding s'
    by (rule release_sale [OF ok r])
      (use st in \<open>auto simp: open_defs row_step_def evidence_free intro!: sent_back\<close>)
qed

lemma accept_steps:
  assumes ok: "vault_ok s" and c: "acceptBuyback s t admin i ap = Inr s'" shows "vault_steps s s'"
proof -
  from c obtain r where r: "lockRequest s i [BB_SUBMITTED, BB_AWAITING_DELIVERY] None = Inr r"
    and s': "s' = bbEvent (setBuyback s i (\<lambda>r. (reviewedBy admin t r)\<lparr>bbStatus := BB_AWAITING_DELIVERY,
                 bbAppointment := ap\<rparr>)) i (Some (bbStatus r)) BB_AWAITING_DELIVERY (BB_ADMIN admin)"
    by (auto simp: acceptBuyback_def)
  note st = lockRequest_Inr(4) [OF r]
  show ?thesis unfolding s'
    by (rule keep_sale [OF ok r])
      (use st in \<open>auto simp: open_defs row_step_def evidence_free intro!: accept\<close>)
qed

lemma received_steps:
  assumes ok: "vault_ok s" and c: "markReceived s t admin i = Inr s'" shows "vault_steps s s'"
proof -
  from c obtain r where r: "lockRequest s i [BB_SUBMITTED, BB_AWAITING_DELIVERY] None = Inr r"
    and s': "s' = bbEvent (setBuyback s i (\<lambda>r. (reviewedBy admin t r)\<lparr>bbStatus := BB_RECEIVED,
                 bbReceivedBy := Some admin, bbReceivedAt := Some t\<rparr>)) i (Some (bbStatus r)) BB_RECEIVED (BB_ADMIN admin)"
    by (auto simp: markReceived_def)
  note st = lockRequest_Inr(4) [OF r]
  show ?thesis unfolding s'
    by (rule keep_sale [OF ok r])
      (use st in \<open>auto simp: open_defs row_step_def evidence_free intro!: receive\<close>)
qed

lemma return_steps:
  assumes ok: "vault_ok s" and c: "requestReturn s admin i = Inr s'" shows "vault_steps s s'"
proof -
  from c obtain r where
    r: "lockRequest s i [BB_RECEIVED, BB_INSPECTION_PASSED, BB_OFFERED, BB_ACCEPTED, BB_APPROVED] None = Inr r"
    and s': "s' = bbEvent (setBuyback s i (\<lambda>r. r\<lparr>bbStatus := BB_RETURN_PENDING\<rparr>))
       i (Some (bbStatus r)) BB_RETURN_PENDING (BB_ADMIN admin)"
    by (auto simp: requestReturn_def)
  note st = lockRequest_Inr(4) [OF r]
  show ?thesis unfolding s'
    by (rule keep_sale [OF ok r])
      (use st in \<open>auto simp: open_defs row_step_def evidence_free intro!: send_back\<close>)
qed

lemma inspect_steps:
  assumes ok: "vault_ok s" and c: "inspectBuyback s t admin i dto = Inr s'" shows "vault_steps s s'"
proof -
  define dst where "dst = (if isPassed dto then BB_INSPECTION_PASSED else BB_RETURN_PENDING)"
  from c obtain r where r: "lockRequest s i [BB_RECEIVED, BB_INSPECTION_PASSED] None = Inr r"
    and g: "isPassed dto \<Longrightarrow> allChecks (isChecklist dto)" "isPassed dto \<Longrightarrow> isWeight dto \<noteq> None"
    and s': "s' = bbEvent (setBuyback s i (\<lambda>r. r\<lparr>bbStatus := dst, bbInspectedBy := Some admin,
                 bbInspectedAt := Some t, bbPassed := Some (isPassed dto),
                 bbChecklist := Some (isChecklist dto), bbMeasured := map_option numeric4 (isWeight dto),
                 bbFineness := isFineness dto\<rparr>)) i (Some (bbStatus r)) dst (BB_ADMIN admin)"
    unfolding inspectBuyback_def dst_def Let_def by (auto simp del: not_None_eq)
  note st = lockRequest_Inr(4) [OF r]
  have e: "bb_edge (bbStatus r) dst"
    using st unfolding dst_def by (auto intro: inspect send_back)
  have d: "dst \<in> set OPEN_STATUSES" by (simp add: dst_def open_defs)
  show ?thesis unfolding s'
  proof (rule keep_sale [OF ok r])
    show "openSale r" using st by (auto simp: open_defs)
  qed (use d e g in \<open>auto simp: row_step_def row_ok_def dst_def split: if_splits\<close>)
qed

lemma respond_steps:
  assumes ok: "vault_ok s" and c: "respondToOffer s t u i agr = Inr s'" shows "vault_steps s s'"
proof -
  from c obtain r x where r: "lockRequest s i [BB_OFFERED] (Some u) = Inr r"
    and x: "bbOffer r = Some x" "t < ofExpires x"
    and s': "s' = (if agr then bbEvent (setBuyback s i (\<lambda>r. r\<lparr>bbStatus := BB_ACCEPTED, bbAcceptedAt := Some t\<rparr>))
                      i (Some BB_OFFERED) BB_ACCEPTED (BB_USER u)
              else bbEvent (setBuyback s i (\<lambda>r. r\<lparr>bbStatus := BB_RETURN_PENDING\<rparr>))
                      i (Some BB_OFFERED) BB_RETURN_PENDING (BB_USER u))"
    by (auto simp: respondToOffer_def not_le split: if_splits)
  have st: "bbStatus r = BB_OFFERED" using lockRequest_Inr(4) [OF r] by simp
  show ?thesis
  proof (cases agr)
    case True
    have "vault_steps s (bbEvent (setBuyback s i (\<lambda>r. r\<lparr>bbStatus := BB_ACCEPTED, bbAcceptedAt := Some t\<rparr>))
                      i (Some BB_OFFERED) BB_ACCEPTED (BB_USER u))"
      by (rule keep_sale [OF ok r])
        (use st x in \<open>auto simp: open_defs row_step_def row_ok_def netOf_def intro!: agree\<close>)
    then show ?thesis using True by (simp add: s')
  next
    case False
    have "vault_steps s (bbEvent (setBuyback s i (\<lambda>r. r\<lparr>bbStatus := BB_RETURN_PENDING\<rparr>))
                      i (Some BB_OFFERED) BB_RETURN_PENDING (BB_USER u))"
      by (rule keep_sale [OF ok r])
        (use st x in \<open>auto simp: open_defs row_step_def evidence_free intro!: send_back\<close>)
    then show ?thesis using False by (simp add: s')
  qed
qed

lemma offerWrites_steps:
  assumes ok: "vault_ok s" and c: "offerWrites s t admin i ex p = Inr s'" and p: "0 < pbNet p"
  shows "vault_steps s s'"
proof -
  from c obtain r where r: "lockRequest s i [BB_INSPECTION_PASSED, BB_OFFERED] None = Inr r"
    and s': "s' = bbEvent (setBuyback s i (\<lambda>r. r\<lparr>bbStatus := BB_OFFERED,
                      bbOffer := Some (offerOf admin t ex p), bbAcceptedAt := None\<rparr>))
                      i (Some (bbStatus r)) BB_OFFERED (BB_ADMIN admin)"
    by (auto simp: offerWrites_def)
  note st = lockRequest_Inr(4) [OF r]
  show ?thesis unfolding s'
    by (rule keep_sale [OF ok r])
      (use st p in \<open>auto simp: open_defs row_step_def row_ok_def netOf_def offerOf_def intro!: offer\<close>)
qed

lemma offer_steps:
  assumes ok: "vault_ok s" and c: "offerBuyback prec s t cur admin i dto = Inr (s', p)"
  shows "vault_steps s s'"
proof -
  from c have "offerWrites s t admin i (offerExpiresAt s t) p = Inr s'" "0 < pbNet p"
    by (auto simp: offerBuyback_def)
  from offerWrites_steps [OF ok this] show ?thesis .
qed

lemma approve_steps:
  assumes ok: "vault_ok s" and c: "approveBuyback s t admin i = Inr s'" shows "vault_steps s s'"
proof -
  from c obtain r a where r: "lockRequest s i [BB_ACCEPTED] None = Inr r"
    and s': "s' = bbEvent (setBuyback s i (\<lambda>r.
                     (let r1 = r\<lparr>bbStatus := BB_APPROVED, bbApprovedBy := Some admin, bbApprovedAt := Some t\<rparr> in
                      if baId a \<noteq> bbBank r then r1\<lparr>bbBank := baId a, bbDestination := a\<rparr> else r1)))
                    i (Some BB_ACCEPTED) BB_APPROVED (BB_ADMIN admin)"
    by (auto simp: approveBuyback_def)
  have st: "bbStatus r = BB_ACCEPTED" using lockRequest_Inr(4) [OF r] by simp
  show ?thesis unfolding s'
    by (rule keep_sale [OF ok r])
      (use st in \<open>auto simp: open_defs row_step_def row_ok_def netOf_def Let_def intro!: confirm\<close>)
qed

lemma expireOffer_steps:
  assumes ok: "vault_ok s" shows "vault_steps s (expireOffer t s i)"
proof (cases "lockRequest s i [BB_OFFERED] None")
  case (Inl e)
  then show ?thesis by (simp add: expireOffer_def vault_steps_refl ok)
next
  case (Inr r)
  have st: "bbStatus r = BB_OFFERED" using lockRequest_Inr(4) [OF Inr] by simp
  have "vault_steps s (bbEvent (setBuyback s i (\<lambda>r. r\<lparr>bbStatus := BB_INSPECTION_PASSED\<rparr>))
                 i (Some BB_OFFERED) BB_INSPECTION_PASSED BB_SYSTEM)"
    by (rule keep_sale [OF ok Inr])
      (use st in \<open>auto simp: open_defs row_step_def row_ok_def intro!: lapse\<close>)
  then show ?thesis using Inr vault_steps_refl [OF ok] by (simp add: expireOffer_def)
qed

lemma vault_steps_ok: "vault_steps s s' \<Longrightarrow> vault_ok s'"
  by (simp add: vault_steps_def)

lemma expireOffers_steps:
  assumes "vault_ok s" shows "vault_steps s (expireOffers s t)"
proof -
  have "vault_steps s (foldl (expireOffer t) s is)" if "vault_ok s" for s :: "'a vault_scheme" and "is"
    using that
  proof (induction "is" arbitrary: s)
    case (Cons i "is")
    note a = expireOffer_steps [OF Cons.prems, of t i]
    show ?case using vault_steps_trans [OF a Cons.IH [OF vault_steps_ok [OF a]]] by simp
  qed (simp add: vault_steps_refl)
  then show ?thesis unfolding expireOffers_def using assms by blast
qed

text \<open>A new request.\<close>

lemma all_moves_ok: "(sup bar_move sale_move)\<^sup>*\<^sup>* v v' \<Longrightarrow> okView v \<Longrightarrow> okView v'"
  by (induction rule: rtranclp_induct) (auto intro: bar_move_ok sale_move_ok)

lemma createChecks_Inr:
  assumes "createChecks s t u national i = Inr (c, w, a)"
  shows "codeById s i = Some c" "hcStatus c = HC_ASSIGNED" "reportsOf s i = 0" "activeOwner s i = Some w"
    "owUser w = u" "owNational w = national" "hcId c = i" "defaultBankAccount s u = Some a"
    "\<not> bcMaxOpen (buybackConfig s) \<le> of_nat (length (openOf s u))"
    "0 < bcHoldingDays (buybackConfig s) \<Longrightarrow> holdingAllowedAt (buybackConfig s) w \<le> t"
proof -
  show c: "codeById s i = Some c" using assms by (auto simp: createChecks_def Let_def)
  show "hcStatus c = HC_ASSIGNED" "reportsOf s i = 0" "activeOwner s i = Some w"
    "owUser w = u" "owNational w = national" "defaultBankAccount s u = Some a"
    "\<not> bcMaxOpen (buybackConfig s) \<le> of_nat (length (openOf s u))"
    "0 < bcHoldingDays (buybackConfig s) \<Longrightarrow> holdingAllowedAt (buybackConfig s) w \<le> t"
    using assms by (auto simp: createChecks_def Let_def)
  show "hcId c = i" using find_SomeD [OF c [unfolded codeById_def]] by simp
qed

lemma createBuyback_Inr:
  assumes "createBuyback prec s t cur u dto = Inr (s', r)"
  obtains national weight p and estimate :: price_breakdown where "verifiedNational s u = Some national"
    "createChecks s t u national (crCode dto) = Inr p"
    "(s', r) = createWrites s u dto (pbNet estimate) weight p"
    "bcEnabled (buybackConfig s)" "hcWeight (fst p) = Some weight"
proof -
  from assms obtain national where v: "verifiedNational s u = Some national"
    by (auto simp: createBuyback_def Let_def)
  from assms obtain b where b: "codeById s (crCode dto) = Some b" by (auto simp: createBuyback_def Let_def)
  from assms b obtain weight where w: "hcWeight b = Some weight" by (auto simp: createBuyback_def Let_def)
  from assms v obtain p where p: "createChecks s t u national (crCode dto) = Inr p"
    by (auto simp: createBuyback_def Let_def)
  from assms v b w p obtain estimate :: price_breakdown where e: "createWrites s u dto (pbNet estimate) weight p = (s', r)"
    by (auto simp: createBuyback_def Let_def)
  have en: "bcEnabled (buybackConfig s)" using assms by (auto simp: createBuyback_def Let_def)
  obtain c x a where q: "p = (c, x, a)" by (cases p)
  have "c = b" using createChecks_Inr(1) [OF p [unfolded q]] b by simp
  then show thesis using that [of national p estimate weight] v p e en w q by simp
qed

lemma createWrites_steps:
  assumes ok: "vault_ok s" and c: "createChecks s t u national i = Inr (c, w, a)" and i: "crCode dto = i"
    and s': "(s', r) = createWrites s u dto est weight (c, w, a)"
  shows "vault_steps s s'"
proof -
  note k = createChecks_Inr [OF c]
  let ?q = "sequenceNext s ''BBK''"
  have r: "r = newBuyback (nextId s) (snd ?q) u c (case hcWeight c of None \<Rightarrow> weight | Some x \<Rightarrow> x) w (crDelivery dto) est a"
    and s'': "s' = bbEvent (setCode (fst ?q\<lparr>nextId := nextId s + 1, buybacks := buybacks s @ [r]\<rparr>) (hcId c)
        (\<lambda>c. c\<lparr>hcStatus := HC_BUYBACK_PENDING\<rparr>)) (bbId r) None BB_SUBMITTED (BB_USER u)"
    using s' by (simp_all add: createWrites_def Let_def split_def sequenceNext_def)
  have new: "bbId r = nextId s" "bbUser r = u" "bbCode r = i" "bbStatus r = BB_SUBMITTED"
    by (simp_all add: r newBuyback_def k)
  let ?s2 = "fst ?q\<lparr>nextId := nextId s + 1, buybacks := buybacks s @ [r]\<rparr>"
  have f2: "statusOf ?s2 = statusOf s" "ownersOf ?s2 = ownersOf s" "pendingTypes ?s2 = pendingTypes s"
    "reportsOf ?s2 = reportsOf s" "codeById ?s2 = codeById s" "dualThreshold ?s2 = dualThreshold s"
    by (simp_all add: sequenceNext_def Let_def fun_eq_iff statusOf_def ownersOf_def pendingTypes_def reportsOf_def
        codeById_def dualThreshold_def getNumber_def)
  have k2: "keys_ok ?s2" using bars_okD(1) [OF vault_okD(1) [OF ok]]
    by (auto simp: sequenceNext_def Let_def keys_ok_def less_SucI)
  have st: "statusOf s i = Some HC_ASSIGNED" using status_of_code [OF k(1)] k(2) by simp
  obtain v where v: "ownersOf s i = [v]" "pendingTypes s i = []"
    using view_owned [OF bars_okD(2) [OF vault_okD(1) [OF ok]] st] by blast
  have vu: "v = u" using ownerOf_active [OF k(4)] v k(5) by simp
  have f: "ownersOf s' = ownersOf s" "pendingTypes s' = pendingTypes s" "reportsOf s' = reportsOf s"
    "nextId s' = nextId s + 1" "buybacks s' = buybacks s @ [r]" "dualThreshold s' = dualThreshold s" "keys_ok s'"
    unfolding s'' using f2 k2
    by (simp_all add: keys, simp_all add: fun_eq_iff bbEvent_def setCode_def pendingTypes_def reportsOf_def
        sequenceNext_def Let_def dualThreshold_def getNumber_def)
  have stat: "statusOf s' j = (if j = i then Some HC_BUYBACK_PENDING else statusOf s j)" for j
    unfolding s'' using f2 k(1,7) by (simp add: bar_view)
  have mv: "(sup bar_move sale_move)\<^sup>*\<^sup>* (barView s j) (barView s' j)" for j
  proof (cases "j = i")
    case True
    have "barView s j = view HC_ASSIGNED [u] [] 0" using True st v vu k(3) by (simp add: barView_def)
    moreover have "barView s' j = view HC_BUYBACK_PENDING [u] [] 0"
      unfolding barView_def f stat using True v vu k(3) by simp
    ultimately show ?thesis using locked [of u] by (metis r_into_rtranclp sup2I2)
  next
    case False
    then have "barView s' j = barView s j" unfolding barView_def f stat by simp
    then show ?thesis by simp
  qed
  have bars: "bars_ok s'" using mv f(7) vault_okD(1) [OF ok] all_moves_ok unfolding bars_ok_def by blast
  have so: "sales_ok s" by (rule vault_okD [OF ok])
  have free: "bbCode x \<noteq> i" if "x \<in> set (buybacks s)" "openSale x" for x
    using so that st by (auto simp: sales_ok_def)
  have sales: "sales_ok s'" unfolding sales_ok_def
  proof (intro conjI ballI allI impI)
    show "distinct (map bbId (buybacks s'))" using so unfolding f by (auto simp: sales_ok_def new)
    show "bbId x < nextId s'" if "x \<in> set (buybacks s')" for x
      using that so unfolding f by (auto simp: sales_ok_def new less_SucI)
    show "distinct (map bbCode (filter openSale (buybacks s')))"
      using so free unfolding f by (auto simp: sales_ok_def new open_defs)
    show "statusOf s' (bbCode x) = Some HC_BUYBACK_PENDING" "ownersOf s' (bbCode x) = [bbUser x]"
      if "x \<in> set (buybacks s')" "openSale x" for x
      using that so free [of x] v vu unfolding f stat by (auto simp: sales_ok_def new)
    show "j \<in> bbCode ` set (filter openSale (buybacks s'))" if "statusOf s' j = Some HC_BUYBACK_PENDING" for j
      using that so new unfolding f stat by (auto simp: sales_ok_def open_defs split: if_splits)
  qed
  have "row_ok (dualThreshold s') x" if "x \<in> set (buybacks s')" for x
    using that vault_okD(4) [OF ok] evidence_free [of r] new unfolding f by auto
  moreover have acc: "accounts s' = accounts s" "journals s' = journals s" "ledgerEntries s' = ledgerEntries s"
    "wallets s' = wallets s"
    unfolding s'' by (simp_all add: bbEvent_def setCode_def sequenceNext_def Let_def)
  then have "wf_ledger s'" by (intro ledger_part [OF vault_okD(3) [OF ok]]) (simp_all add: f)
  ultimately have "vault_ok s'" using bars sales by (simp add: vault_ok_def)
  moreover have "vaultMoney s' = vaultMoney s"
    using acc new(4) by (simp add: vaultMoney_def paidRial_def f rialOf_def gramsOf_def sum_where_append)
  moreover have "rows_evolve s s'"
    unfolding rows_evolve_def buybackById_def f by (auto simp: find_append)
  moreover have "nextId s \<le> nextId s'" "dualThreshold s' = dualThreshold s" unfolding f by simp_all
  ultimately show ?thesis unfolding vault_steps_def using mv by blast
qed

lemma create_steps:
  assumes ok: "vault_ok s" and c: "createBuyback prec s t cur u dto = Inr (s', r)" shows "vault_steps s s'"
proof -
  from createBuyback_Inr [OF c] obtain national weight p and estimate :: price_breakdown where
    p: "createChecks s t u national (crCode dto) = Inr p"
    "(s', r) = createWrites s u dto (pbNet estimate) weight p" by metis
  obtain b w a where q: "p = (b, w, a)" by (cases p)
  show ?thesis by (rule createWrites_steps [OF ok p(1) [unfolded q] refl p(2) [unfolded q]])
qed

text \<open>The payout.\<close>

lemma payBuybackChecks_Inr:
  assumes "payBuybackChecks s admin i = Inr (r, c)"
  obtains a where "lockRequest s i [BB_APPROVED] None = Inr r" "0 < netOf r"
    "\<not> (dualThreshold s \<le> of_int (netOf r) \<and> bbApprovedBy r = Some admin)"
    "find (\<lambda>a. baId a = bbBank r) (payAccounts s) = Some a" "paVerified a" "baVerified a"
    "reportsOf s (bbCode r) = 0" "codeById s (bbCode r) = Some c" "hcStatus c = HC_BUYBACK_PENDING"
proof -
  from assms obtain q where q: "lockRequest s i [BB_APPROVED] None = Inr q"
    by (auto simp: payBuybackChecks_def)
  have "q = r" using assms q by (auto simp: payBuybackChecks_def)
  with assms q that show thesis
    unfolding payBuybackChecks_def requiresDualControl_def dualThreshold_def by (auto simp: not_le split: if_splits)
qed

lemma paidRow_simps [simp]:
  "bbId (paidRow a t d x j r) = bbId r" "bbUser (paidRow a t d x j r) = bbUser r"
  "bbCode (paidRow a t d x j r) = bbCode r" "bbWeight (paidRow a t d x j r) = bbWeight r"
  "bbOffer (paidRow a t d x j r) = bbOffer r" "bbStatus (paidRow a t d x j r) = BB_PAID"
  "netOf (paidRow a t d x j r) = netOf r" "bbApprovedBy (paidRow a t d x j r) = bbApprovedBy r"
  "bbPaidBy (paidRow a t d x j r) = Some a" "bbJournal (paidRow a t d x j r) = Some j"
  "bbPassed (paidRow a t d x j r) = bbPassed r" "bbMeasured (paidRow a t d x j r) = bbMeasured r"
  "bbChecklist (paidRow a t d x j r) = bbChecklist r" "bbAcceptedAt (paidRow a t d x j r) = bbAcceptedAt r"
  "bbPaidAt (paidRow a t d x j r) = Some t" "bbSource (paidRow a t d x j r) = Some x"
  by (simp_all add: paidRow_def netOf_def)

lemma payBuyback_Inr:
  assumes "payBuyback s t admin i dto = Inr s'"
  obtains r and c :: bar_code and source s1 j where "payBuybackChecks s admin i = Inr (r, c)"
    "payDateOf t dto \<le> t + 60000" "starts_with CASH_ROOT_CODE source"
    "postJournal s t (buybackJournal r admin (gramsOfBar r c) source (bpPaidAt dto)) = Inr (s1, j)"
    "s' = bbEvent (setBuyback (toVault s1 (payDateOf t dto) (hcId c)) i (paidRow admin (payDateOf t dto) dto source j))
            i (Some BB_APPROVED) BB_PAID (BB_ADMIN admin)"
proof -
  from assms obtain r c where k: "payBuybackChecks s admin i = Inr (r, c)"
    by (auto simp: payBuyback_def Let_def)
  from assms k obtain source where so: "resolveBankAccount s (bpSource dto) (Some ''withdrawal.default_source_account'') = Inr source"
    by (auto simp: payBuyback_def Let_def)
  from assms k so obtain s1 j where p: "postJournal s t (buybackJournal r admin (gramsOfBar r c) source (bpPaidAt dto)) = Inr (s1, j)"
    by (auto simp: payBuyback_def Let_def)
  show thesis
    by (rule that [OF k _ resolveBankAccount_cash [OF so] p])
      (use assms k so p in \<open>auto simp: payBuyback_def Let_def\<close>)
qed

lemma postJournal_vault:
  fixes s :: "'a vault_scheme"
  assumes "postJournal s t p = Inr (s1, j)"
  shows "codes s1 = codes s" "ownerships s1 = ownerships s" "transfers s1 = transfers s" "incidents s1 = incidents s"
    "buybacks s1 = buybacks s" "bbEvents s1 = bbEvents s" "nextId s1 = nextId s + 1" "barView s1 = barView s"
    "dualThreshold s1 = dualThreshold s" "wallets s1 = wallets s" "codeById s1 = codeById s"
  using postJournal_frame [OF assms]
  by (auto simp: fun_eq_iff barView_def statusOf_def codeById_def ownersOf_def pendingTypes_def reportsOf_def
      dualThreshold_def getNumber_def)

lemma toVault_frame [simp]:
  "buybacks (toVault s t i) = buybacks s" "nextId (toVault s t i) = nextId s"
  "dualThreshold (toVault s t i) = dualThreshold s" "accounts (toVault s t i) = accounts s"
  "wallets (toVault s t i) = wallets s" "journals (toVault s t i) = journals s"
  "ledgerEntries (toVault s t i) = ledgerEntries s"
  by (simp_all add: toVault_def setCode_def cancelPendingForCode_def endOwnerships_def dualThreshold_def getNumber_def)

lemma toVault_bars:
  "ownersOf (toVault s t i) j = (if j = i then [] else ownersOf s j)"
  "pendingTypes (toVault s t i) j = (if j = i then [] else pendingTypes s j)"
  "reportsOf (toVault s t i) j = reportsOf s j"
  "statusOf (toVault s t i) j = (if j = i then map_option (\<lambda>_. HC_UNASSIGNED) (codeById s i) else statusOf s j)"
  "keys_ok (toVault s t i) = keys_ok s"
  by (simp_all add: toVault_def bar_view keys)

lemma not_cash_bullion [simp]:
  "\<not> starts_with CASH_ROOT_CODE ''1025''" "\<not> starts_with CASH_ROOT_CODE ''1095''"
  by (simp_all add: CASH_ROOT_CODE_def)

lemma buyback_net:
  assumes "starts_with CASH_ROOT_CODE source"
  shows "netRial ''1025'' (inputLines (buybackJournal r admin g source d)) = netOf r"
    "netRial ''2010'' (inputLines (buybackJournal r admin g source d)) = 0"
    "netGrams ''2020'' (inputLines (buybackJournal r admin g source d)) = 0"
    "netGrams ''1025'' (inputLines (buybackJournal r admin g source d)) = g"
proof -
  have "source \<noteq> ''1025''" "source \<noteq> ''2010''" "source \<noteq> ''2020''" using assms by (auto simp: CASH_ROOT_CODE_def)
  then show "netRial ''1025'' (inputLines (buybackJournal r admin g source d)) = netOf r"
    "netRial ''2010'' (inputLines (buybackJournal r admin g source d)) = 0"
    "netGrams ''2020'' (inputLines (buybackJournal r admin g source d)) = 0"
    "netGrams ''1025'' (inputLines (buybackJournal r admin g source d)) = g"
    by (simp_all add: buybackJournal_def normalizeLine_def deltaSign_def isDebitNature_def toDecimal_def)
qed

text \<open>The lines of a payout, with the cash line on the bank account that it is redirected to.\<close>

lemma buyback_lines:
  assumes "starts_with CASH_ROOT_CODE source"
    and "redirectCash s (buybackJournal r admin g source d) (inputLines (buybackJournal r admin g source d)) = Inr ls"
  obtains bank where "starts_with CASH_ROOT_CODE bank" "source \<noteq> CASH_ROOT_CODE \<Longrightarrow> bank = source"
    "\<And>k. netRial k ls = (if k = ''1025'' then netOf r else 0) - (if k = bank then netOf r else 0)"
    "\<And>k. netGrams k ls = (if k = ''1025'' then g else 0) - (if k = ''1095'' then g else 0)"
proof -
  define bookLines where "bookLines bank =
     [\<lparr>lnCode = ''1025'', lnSide = DEBIT, lnRial = netOf r, lnGrams = g, lnDescription = None\<rparr>,
      \<lparr>lnCode = bank, lnSide = CREDIT, lnRial = netOf r, lnGrams = 0, lnDescription = None\<rparr>,
      \<lparr>lnCode = ''1095'', lnSide = CREDIT, lnRial = 0, lnGrams = g, lnDescription = None\<rparr>]" for bank
  have i: "inputLines (buybackJournal r admin g source d) = bookLines source"
    by (simp add: buybackJournal_def normalizeLine_def toDecimal_def bookLines_def)
  have n: "netRial k (bookLines bank) = (if k = ''1025'' then netOf r else 0) - (if k = bank then netOf r else 0)"
    "netGrams k (bookLines bank) = (if k = ''1025'' then g else 0) - (if k = ''1095'' then g else 0)"
    if "starts_with CASH_ROOT_CODE bank" for k bank
    using that by (auto simp: bookLines_def deltaSign_def isDebitNature_def CASH_ROOT_CODE_def split: list.splits)
  show thesis
    using assms(2)
  proof (cases rule: redirectCash_cases)
    case 1
    then show thesis using that [of source] n [OF assms(1)] assms(1) by (simp add: i)
  next
    case (2 b)
    show thesis
    proof (cases "source = CASH_ROOT_CODE")
      case True
      then have "ls = bookLines b" using 2(2) unfolding i by (simp add: bookLines_def CASH_ROOT_CODE_def)
      then show thesis using that [of b] n [OF 2(1)] 2(1) True by simp
    next
      case False
      then have "ls = bookLines source" using 2(2) unfolding i by (simp add: bookLines_def CASH_ROOT_CODE_def)
      then show thesis using that [of source] n [OF assms(1)] assms(1) by simp
    qed
  qed
qed

lemma pay_steps:
  assumes ok: "vault_ok s" and p: "payBuyback s t admin i dto = Inr s'" shows "vault_steps s s'"
proof -
  from payBuyback_Inr [OF p] obtain r and c :: bar_code and source s1 j where k: "payBuybackChecks s admin i = Inr (r, c)"
    and post: "postJournal s t (buybackJournal r admin (gramsOfBar r c) source (bpPaidAt dto)) = Inr (s1, j)"
    and s': "s' = bbEvent (setBuyback (toVault s1 (payDateOf t dto) (hcId c)) i (paidRow admin (payDateOf t dto) dto source j))
            i (Some BB_APPROVED) BB_PAID (BB_ADMIN admin)"
    and so_cash: "starts_with CASH_ROOT_CODE source" by metis
  define f where "f = paidRow admin (payDateOf t dto) dto source j"
  from payBuybackChecks_Inr [OF k] have l: "lockRequest s i [BB_APPROVED] None = Inr r" and net: "0 < netOf r"
    and dual: "\<not> (dualThreshold s \<le> of_int (netOf r) \<and> bbApprovedBy r = Some admin)"
    and rep: "reportsOf s (bbCode r) = 0" and cc: "codeById s (bbCode r) = Some c" by metis+
  have hc: "hcId c = bbCode r" using find_SomeD [OF cc [unfolded codeById_def]] by simp
  note lr = lockRequest_Inr [OF l]
  have st: "bbStatus r = BB_APPROVED" using lr(4) by simp
  have op: "openSale r" "\<not> openSale (f r)" using st by (simp_all add: open_defs f_def)
  note pj = postJournal_vault [OF post]
  have d: "distinct (map bbId (buybacks s))" by (rule vault_okD [OF ok])
  have rows: "buybacks s' = update_where (\<lambda>x. x = r) f (buybacks s)"
    using row_unique [OF d lr(3), of f] lr(2) by (simp add: s' setBuyback_def f_def pj)
  have bb: "buybacks s' = buybacks (setBuyback s i f)" by (simp add: s' setBuyback_def f_def pj)
  have so: "sales_ok s" by (rule vault_okD [OF ok])
  have lock: "statusOf s (bbCode r) = Some HC_BUYBACK_PENDING" "ownersOf s (bbCode r) = [bbUser r]"
    using so lr(3) op(1) by (simp_all add: sales_ok_def)
  have pend: "pendingTypes s (bbCode r) = []"
    by (rule view_owned [OF bars_okD(2) [OF vault_okD(1) [OF ok]] lock(1)]) simp_all
  have v1: "statusOf s1 = statusOf s" "ownersOf s1 = ownersOf s" "pendingTypes s1 = pendingTypes s" "reportsOf s1 = reportsOf s"
    using pj(8) by (simp_all add: fun_eq_iff barView_def)
  have view: "barView s' k = barView (toVault s1 (payDateOf t dto) (bbCode r)) k" for k by (simp add: s' hc)
  have k1: "keys_ok s1" using bars_okD(1) [OF vault_okD(1) [OF ok]] by (auto simp: keys_ok_def pj less_SucI)
  have n: "nextId s' = nextId s + 1" "dualThreshold s' = dualThreshold s" "keys_ok s'"
    using k1 by (simp_all add: s' pj toVault_bars)
  have stat: "statusOf s' k = (if k = bbCode r then Some HC_UNASSIGNED else statusOf s k)" for k
    by (simp add: s' hc toVault_bars pj cc v1)
  have own: "ownersOf s' k = (if k = bbCode r then [] else ownersOf s k)" for k
    by (simp add: s' hc toVault_bars v1)
  have sales: "sales_ok s'"
    by (rule sale_ends [where f = f, OF ok lr(3) op(1,2) _ rows _ stat]) (simp_all add: n own f_def)
  have mv: "(sup bar_move sale_move)\<^sup>*\<^sup>* (barView s k) (barView s' k)" for k
  proof (cases "k = bbCode r")
    case True
    have "barView s k = view HC_BUYBACK_PENDING [bbUser r] [] 0"
      using True lock pend rep by (simp add: barView_def)
    moreover have "barView s' k = view HC_UNASSIGNED [] [] 0"
      unfolding view using True rep by (simp add: barView_def toVault_bars v1 pj cc)
    ultimately show ?thesis using sold [of "bbUser r"] by (metis r_into_rtranclp sup2I2)
  next
    case False
    then have "barView s' k = barView s k" unfolding view by (simp add: barView_def toVault_bars v1)
    then show ?thesis by simp
  qed
  have bars: "bars_ok s'" using mv n(3) vault_okD(1) [OF ok] all_moves_ok unfolding bars_ok_def by blast
  have rok: "row_ok (dualThreshold s) (f r)"
    using vault_okD(4) [OF ok lr(3)] st net dual unfolding row_ok_def by (auto simp: f_def)
  have "row_ok (dualThreshold s') x" if "x \<in> set (buybacks s')" for x
  proof -
    have "x \<in> set (buybacks s) \<or> x = f r" using that unfolding rows by (auto simp: set_update_where)
    then show ?thesis using vault_okD(4) [OF ok] rok unfolding n by auto
  qed
  moreover have "wf_ledger s'"
  proof (rule ledger_part [OF books.post_ok [OF vault_okD(3) [OF ok] post]])
    show "nextId s1 \<le> nextId s'" by (simp add: n pj)
  qed (simp_all add: s' setBuyback_def bbEvent_def)
  ultimately have "vault_ok s'" using bars sales by (simp add: vault_ok_def)
  moreover have "vaultMoney s' = vaultMoney s"
  proof -
    have "netRial ''1025'' (inputLines (buybackJournal r admin (gramsOfBar r c) source (bpPaidAt dto))) = netOf r"
      "netRial ''2010'' (inputLines (buybackJournal r admin (gramsOfBar r c) source (bpPaidAt dto))) = 0"
      "netGrams ''2020'' (inputLines (buybackJournal r admin (gramsOfBar r c) source (bpPaidAt dto))) = 0"
      using buyback_net [OF so_cash] by simp_all
    moreover have "rialOf s' = rialOf s1" "gramsOf s' = gramsOf s1"
      by (simp_all add: fun_eq_iff s' setBuyback_def bbEvent_def rialOf_def gramsOf_def)
    ultimately have "rialOf s' ''1025'' = rialOf s ''1025'' + netOf r" "rialOf s' ''2010'' = rialOf s ''2010''"
      "gramsOf s' ''2020'' = gramsOf s ''2020''"
      using books.post_rial [OF vault_okD(3) [OF ok] post] books.post_grams [OF vault_okD(3) [OF ok] post]
      by (simp_all add: not_cash_bullion)
    moreover have "paidRial s' = paidRial s + netOf r"
    proof -
      have "sum_where (\<lambda>x. bbStatus x = BB_PAID) netOf (update_where (\<lambda>x. x = r) f rs) =
          sum_where (\<lambda>x. bbStatus x = BB_PAID) netOf rs + (if r \<in> set rs then netOf r else 0)"
        if "distinct rs" for rs
        using that st by (induction rs) (auto simp: f_def)
      then show ?thesis using d lr(3) by (simp add: paidRial_def rows distinct_map)
    qed
    moreover have "wallets s' = wallets s" by (simp add: s' pj)
    ultimately show ?thesis by (simp add: vaultMoney_def)
  qed
  moreover have "row_step r (f r)" using st by (simp add: row_step_def f_def payout)
  then have "rows_evolve s s'"
    by (intro evolve_one(1) [where f = f, OF lr(1) _ _ bb]) (simp_all add: f_def)
  moreover have "nextId s \<le> nextId s'" unfolding n by simp
  ultimately show ?thesis unfolding vault_steps_def using mv n(2) by blast
qed

end
