(* ===== verification/BarRuns.thy ===== *)
theory BarRuns
  imports SaleOps
begin

section \<open>The registry and the buyback as one service\<close>

text \<open>
  The calls of the registry of bars and of the service that buys bars back, in any order. \<open>ConfirmLate\<close>
  and \<open>OfferLate\<close> are the transactions of a confirmation and of an offer that start from an identity check
  and a price of an earlier state.
\<close>

datatype vault_op =
    NewBatch nat nat "phrase option" "int list list"
  | AssignBar nat string assign_input
  | RevokeBar nat string "phrase option"
  | GiveBar nat nat string string
  | ConfirmBar nat string nat confirm_input "civil_answer option"
  | ConfirmLate nat nat confirm_input civil_answer
  | DeclineBar string nat "phrase option"
  | ExpireTransfers
  | OwnerReport nat nat incident_input
  | AdminReport nat string incident_input
  | WithdrawReport nat nat "phrase option"
  | ConfirmReport nat nat "phrase option"
  | DismissReport nat nat phrase
  | RecoverReport nat nat phrase
  | SellBar "rat option" nat create_input
  | CancelSale nat nat "phrase option"
  | RespondSale nat nat bool
  | AcceptSale nat nat "int option"
  | RejectSale nat nat phrase
  | ReceiveBar nat nat
  | InspectBar nat nat inspect_input
  | OfferPrice "rat option" nat nat offer_input
  | OfferLate nat nat int price_breakdown
  | ApproveSale nat nat
  | PaySale nat nat bb_pay_input
  | ReturnSale nat nat
  | BarReturned nat nat
  | ExpireOffers

fun vault_step :: "(rat \<Rightarrow> rat) \<Rightarrow> 'a vault_scheme \<Rightarrow> int \<times> vault_op \<Rightarrow> 'a vault_scheme res" where
  "vault_step prec s (t, NewBatch a q n ds) = Inr (fst (createBatch s a q n ds))"
| "vault_step prec s (t, AssignBar a x dto) = stateOf (assignCode s t a x dto)"
| "vault_step prec s (t, RevokeBar a x reason) = stateOf (revokeCode s t a x reason)"
| "vault_step prec s (t, GiveBar u i phone key) = stateOf (initiateByUser s t u i phone key)"
| "vault_step prec s (t, ConfirmBar u phone i dto answer) = Inr (fst (confirmTransfer s t u phone i dto answer))"
| "vault_step prec s (t, ConfirmLate u i dto a) = stateOf (confirmWrites s t u i dto a)"
| "vault_step prec s (t, DeclineBar phone i reason) = stateOf (rejectTransfer s phone i reason)"
| "vault_step prec s (t, ExpireTransfers) = Inr (expireStaleTransfers s t)"
| "vault_step prec s (t, OwnerReport u i dto) = stateOf (createByOwner s t u i dto)"
| "vault_step prec s (t, AdminReport a x dto) = stateOf (createByAdmin s t a x dto)"
| "vault_step prec s (t, WithdrawReport u i reason) = stateOf (cancelByOwner s t u i reason)"
| "vault_step prec s (t, ConfirmReport a i txt) = stateOf (confirmIncident s t a i txt)"
| "vault_step prec s (t, DismissReport a i reason) = stateOf (rejectIncident s t a i reason)"
| "vault_step prec s (t, RecoverReport a i reason) = stateOf (recoverIncident s t a i reason)"
| "vault_step prec s (t, SellBar cur u dto) = stateOf (createBuyback prec s t cur u dto)"
| "vault_step prec s (t, CancelSale u i reason) = bbCancelByUser s t u i reason"
| "vault_step prec s (t, RespondSale u i agr) = respondToOffer s t u i agr"
| "vault_step prec s (t, AcceptSale a i ap) = acceptBuyback s t a i ap"
| "vault_step prec s (t, RejectSale a i reason) = rejectBuyback s t a i reason"
| "vault_step prec s (t, ReceiveBar a i) = markReceived s t a i"
| "vault_step prec s (t, InspectBar a i dto) = inspectBuyback s t a i dto"
| "vault_step prec s (t, OfferPrice cur a i dto) = stateOf (offerBuyback prec s t cur a i dto)"
| "vault_step prec s (t, OfferLate a i ex p) =
     (if 0 < pbNet p then offerWrites s t a i ex p else Inl (BadRequest ''nothing left to pay''))"
| "vault_step prec s (t, ApproveSale a i) = approveBuyback s t a i"
| "vault_step prec s (t, PaySale a i dto) = payBuyback s t a i dto"
| "vault_step prec s (t, ReturnSale a i) = requestReturn s a i"
| "vault_step prec s (t, BarReturned a i) = markBarReturned s t a i"
| "vault_step prec s (t, ExpireOffers) = Inr (expireOffers s t)"

text \<open>A call of the registry keeps the locks, the requests and the money.\<close>

lemma registry_vault_steps:
  fixes s s' :: "'a vault_scheme"
  assumes ok: "vault_ok s" and b: "bar_steps s s'"
  shows "vault_steps s s'"
proof -
  have k: "registry.more s' = registry.more s" "wallets s' = wallets s" "accounts s' = accounts s"
    "journals s' = journals s" "ledgerEntries s' = ledgerEntries s" "configNum s' = configNum s"
    and n: "nextId s \<le> nextId s'" and mv: "\<And>i. bar_move\<^sup>*\<^sup>* (barView s i) (barView s' i)"
    using b by (simp_all add: bar_steps_def untouched_def)
  have bb: "buybacks s' = buybacks s" using k(1) by (cases s; cases s') simp
  have bars: "bars_ok s'" by (rule bar_steps_ok [OF vault_okD(1) [OF ok] b])
  have lock: "statusOf s' i = Some HC_BUYBACK_PENDING \<longleftrightarrow> statusOf s i = Some HC_BUYBACK_PENDING"
    "statusOf s i = Some HC_BUYBACK_PENDING \<Longrightarrow> ownersOf s' i = ownersOf s i" for i
    using bar_moves_locked [OF mv, of i] by (simp_all add: barView_def)
  have so: "sales_ok s" by (rule vault_okD [OF ok])
  have "sales_ok s'" unfolding sales_ok_def bb
  proof (intro conjI ballI allI impI)
    show "distinct (map bbId (buybacks s))" "distinct (map bbCode (filter openSale (buybacks s)))"
      using so by (simp_all add: sales_ok_def)
    show "bbId r < nextId s'" if "r \<in> set (buybacks s)" for r using so n that by (auto simp: sales_ok_def)
    show "statusOf s' (bbCode r) = Some HC_BUYBACK_PENDING" "ownersOf s' (bbCode r) = [bbUser r]"
      if "r \<in> set (buybacks s)" "openSale r" for r
      using so that lock [of "bbCode r"] by (simp_all add: sales_ok_def)
    show "i \<in> bbCode ` set (filter openSale (buybacks s))" if "statusOf s' i = Some HC_BUYBACK_PENDING" for i
      using so that lock(1) [of i] by (simp add: sales_ok_def)
  qed
  moreover have "wf_ledger s'" by (rule ledger_part [OF vault_okD(3) [OF ok] k(3,4,5) n])
  moreover have d: "dualThreshold s' = dualThreshold s" by (simp add: dualThreshold_def getNumber_def k)
  ultimately have "vault_ok s'" using bars vault_okD(4) [OF ok] by (simp add: vault_ok_def bb)
  moreover have "rows_evolve s s'" by (rule rows_evolve_same [OF bb])
  moreover have "vaultMoney s' = vaultMoney s"
    by (simp add: vaultMoney_def paidRial_def bb rialOf_def gramsOf_def k)
  moreover have "(sup bar_move sale_move)\<^sup>*\<^sup>* (barView s i) (barView s' i)" for i
    using mv [of i] by (rule rtranclp_mono [THEN predicate2D, rotated]) simp
  ultimately show ?thesis unfolding vault_steps_def using n d by blast
qed

lemma vault_step_steps:
  assumes ok: "vault_ok s" and p: "vault_step prec s (t, x) = Inr s'"
  shows "vault_steps s s'"
proof -
  note b = vault_okD(1) [OF ok] and lift = registry_vault_steps [OF ok]
  show ?thesis
  proof (cases x)
    case NewBatch then show ?thesis using p lift [OF createBatch_steps [OF b]] by auto
  next
    case AssignBar then show ?thesis using p by (auto intro: lift assignCode_steps [OF b])
  next
    case RevokeBar then show ?thesis using p by (auto intro: lift revokeCode_steps [OF b])
  next
    case GiveBar then show ?thesis using p by (auto intro: lift initiateByUser_steps [OF b])
  next
    case ConfirmBar then show ?thesis using p lift [OF confirmTransfer_steps [OF b]] by auto
  next
    case ConfirmLate then show ?thesis using p by (auto intro: lift confirmWrites_steps [OF b])
  next
    case DeclineBar then show ?thesis using p by (auto intro: lift rejectTransfer_steps [OF b])
  next
    case ExpireTransfers then show ?thesis using p lift [OF expireStale_steps [OF b]] by auto
  next
    case OwnerReport then show ?thesis using p by (auto intro: lift createByOwner_steps [OF b])
  next
    case AdminReport then show ?thesis using p by (auto intro: lift createByAdmin_steps [OF b])
  next
    case WithdrawReport then show ?thesis using p by (auto intro: lift cancelByOwner_steps [OF b])
  next
    case ConfirmReport
    then show ?thesis using p by (auto simp: confirmIncident_def intro!: lift elim!: incidentTransition_steps [OF b, rotated])
  next
    case DismissReport
    then show ?thesis using p by (auto simp: rejectIncident_def intro!: lift elim!: incidentTransition_steps [OF b, rotated])
  next
    case RecoverReport
    then show ?thesis using p by (auto simp: recoverIncident_def intro!: lift elim!: incidentTransition_steps [OF b, rotated])
  next
    case SellBar then show ?thesis using p by (auto intro: create_steps [OF ok])
  next
    case CancelSale then show ?thesis using p by (auto intro: cancel_steps [OF ok])
  next
    case RespondSale then show ?thesis using p by (auto intro: respond_steps [OF ok])
  next
    case AcceptSale then show ?thesis using p by (auto intro: accept_steps [OF ok])
  next
    case RejectSale then show ?thesis using p by (auto intro: reject_steps [OF ok])
  next
    case ReceiveBar then show ?thesis using p by (auto intro: received_steps [OF ok])
  next
    case InspectBar then show ?thesis using p by (auto intro: inspect_steps [OF ok])
  next
    case OfferPrice then show ?thesis using p by (auto intro: offer_steps [OF ok])
  next
    case OfferLate then show ?thesis using p by (auto intro: offerWrites_steps [OF ok] split: if_splits)
  next
    case ApproveSale then show ?thesis using p by (auto intro: approve_steps [OF ok])
  next
    case PaySale then show ?thesis using p by (auto intro: pay_steps [OF ok])
  next
    case ReturnSale then show ?thesis using p by (auto intro: return_steps [OF ok])
  next
    case BarReturned then show ?thesis using p by (auto intro: markReturned_steps [OF ok])
  next
    case ExpireOffers then show ?thesis using p expireOffers_steps [OF ok] by auto
  qed
qed

definition vaultHistory :: "'a vault_scheme \<Rightarrow> 'a vault_scheme \<Rightarrow> bool" where
  "vaultHistory s s' \<longleftrightarrow> rows_evolve s s' \<and> (\<forall>i. (sup bar_move sale_move)\<^sup>*\<^sup>* (barView s i) (barView s' i))"

lemma vaultHistory_trans: "vaultHistory s s1 \<Longrightarrow> vaultHistory s1 s2 \<Longrightarrow> vaultHistory s s2"
  unfolding vaultHistory_def by (auto intro: rows_evolve_trans rtranclp_trans)

interpretation vault_run: conserving_service
    "vault_step prec :: 'a vault_scheme \<Rightarrow> int \<times> vault_op \<Rightarrow> 'a vault_scheme res" vault_ok vaultMoney for prec
proof unfold_locales
  fix s s' :: "'a vault_scheme" and p
  assume a: "vault_ok s" "vault_step prec s p = Inr s'"
  obtain t x where p: "p = (t, x)" by (cases p)
  show "vault_ok s'" "vaultMoney s' = vaultMoney s"
    using vault_step_steps [OF a(1) a(2) [unfolded p]] by (simp_all add: vault_steps_def)
qed

interpretation vault_life: evolving_service
    "vault_step prec :: 'a vault_scheme \<Rightarrow> int \<times> vault_op \<Rightarrow> 'a vault_scheme res" vault_ok vaultHistory for prec
proof unfold_locales
  show "vaultHistory s s" for s :: "'a vault_scheme" by (simp add: vaultHistory_def rows_evolve_refl)
  show "vaultHistory s s1 \<Longrightarrow> vaultHistory s1 s2 \<Longrightarrow> vaultHistory s s2" for s s1 s2 :: "'a vault_scheme"
    by (rule vaultHistory_trans)
  fix s s' :: "'a vault_scheme" and p
  assume a: "vault_ok s" "vault_step prec s p = Inr s'"
  obtain t x where p: "p = (t, x)" by (cases p)
  show "vaultHistory s s'"
    using vault_step_steps [OF a(1) a(2) [unfolded p]] by (simp add: vault_steps_def vaultHistory_def)
qed

lemma length_filter_key:
  "distinct cs \<Longrightarrow> length (filter (\<lambda>c. c = i) cs) = (if i \<in> set cs then 1 else 0)"
  by (induction cs) (auto simp: filter_empty_conv)

text \<open>What the invariant says, in the columns of the tables.\<close>

lemma vault_shape:
  assumes "vault_ok s"
  shows "length (ownersOf s i) \<le> 1" "length (pendingTypes s i) \<le> 1" "reportsOf s i \<le> 1"
    "length (filter (\<lambda>r. bbCode r = i \<and> openSale r) (buybacks s)) =
       (if statusOf s i = Some HC_BUYBACK_PENDING then 1 else 0)"
    "r \<in> set (buybacks s) \<Longrightarrow> openSale r \<Longrightarrow> ownersOf s (bbCode r) = [bbUser r]"
proof -
  have v: "okView (barView s i)" by (rule bars_okD [OF vault_okD(1) [OF assms]])
  have so: "sales_ok s" by (rule vault_okD [OF assms])
  show "reportsOf s i \<le> 1" using v by (simp add: okView.simps barView_def)
  show "length (pendingTypes s i) \<le> 1"
    using okView_pending [OF v] by (cases "pendingTypes s i = []") (simp_all add: barView_def)
  show "length (ownersOf s i) \<le> 1"
  proof (cases "statusOf s i")
    case None
    then show ?thesis using view_none(1) [OF v] by simp
  next
    case (Some st)
    then show ?thesis using v by (cases st) (auto simp: okView.simps barView_def)
  qed
  show "r \<in> set (buybacks s) \<Longrightarrow> openSale r \<Longrightarrow> ownersOf s (bbCode r) = [bbUser r]"
    using so by (simp add: sales_ok_def)
  have "distinct (map bbCode (filter openSale (buybacks s)))" using so by (simp add: sales_ok_def)
  note length_filter_key [OF this, of i]
  moreover have "length (filter (\<lambda>c. c = i) (map bbCode (filter openSale (buybacks s)))) =
      length (filter (\<lambda>r. bbCode r = i \<and> openSale r) (buybacks s))"
    by (simp add: filter_map o_def conj_commute)
  moreover have "i \<in> set (map bbCode (filter openSale (buybacks s))) \<longleftrightarrow> statusOf s i = Some HC_BUYBACK_PENDING"
    using so by (auto simp: sales_ok_def)
  ultimately show "length (filter (\<lambda>r. bbCode r = i \<and> openSale r) (buybacks s)) =
       (if statusOf s i = Some HC_BUYBACK_PENDING then 1 else 0)" by simp
qed

end
