(* ===== verification/Inquiry.thy ===== *)
theory Inquiry
  imports BarMoves
begin

section \<open>Inquiries about a code\<close>

text \<open>
  Anybody may ask whether a code is genuine (\<open>verify\<close> of \<open>api/src/hologram/hologram.service.ts\<close>), from
  the public page, from the user's panel, from an agent's portal or from the staff panel. The guard of
  \<open>hologram-security.service.ts\<close> counts the inquiries and the failed inquiries of an address, with
  counters of the key-value store that end after a time, and blocks an address that guesses. Every inquiry
  is logged. The padding of the response time is not modelled.
\<close>

subsection \<open>The guard\<close>

text \<open>A counter of the key-value store: its value and the instant at which it ends.\<close>

type_synonym counters = "string \<Rightarrow> (nat \<times> int) option"

record ip_block =
  bkIp :: string
  bkAt :: int
  bkUntil :: int
  bkFailed :: nat
  bkUnblockedBy :: "nat option"
  bkUnblockedAt :: "int option"

datatype channel = PUBLIC_WEB | APP_PANEL | API_DIRECT | ADMIN_PANEL | AGENT_PORTAL

datatype inquiry_result = INVALID_CODE | VALID_UNASSIGNED | VALID_ASSIGNED

record inquiry =
  iqCode :: string
  iqBar :: "nat option"
  iqIp :: string
  iqChannel :: channel
  iqResult :: inquiry_result
  iqUser :: "nat option"
  iqAdmin :: "nat option"
  iqIncident :: "nat option"

record guard =
  rateCounts :: counters
  invalidCounts :: counters
  blockCache :: "string \<Rightarrow> int option"
  ipBlocks :: "ip_block list"
  inquiries :: "inquiry list"

record guard_settings =
  gsRate :: rat
  gsThreshold :: rat
  gsWindow :: rat
  gsDuration :: rat

definition getSettings :: "'a ledger_scheme \<Rightarrow> guard_settings" where
  "getSettings s =
     \<lparr>gsRate = getNumber s ''hologram.inquiry.rate_limit_per_minute'' 5,
      gsThreshold = getNumber s ''hologram.inquiry.invalid_attempts_threshold'' 5,
      gsWindow = getNumber s ''hologram.inquiry.invalid_attempts_window_minutes'' 60,
      gsDuration = getNumber s ''hologram.inquiry.block_duration_minutes'' 1440\<rparr>"

text \<open>Minutes as milliseconds; the settings are whole numbers of minutes.\<close>

definition minutes_ms :: "rat \<Rightarrow> int" where
  "minutes_ms m = round_down (m * 60) * 1000"

definition liveCount :: "counters \<Rightarrow> int \<Rightarrow> string \<Rightarrow> nat" where
  "liveCount f t k = (case f k of None \<Rightarrow> 0 | Some (n, e) \<Rightarrow> if t < e then n else 0)"

text \<open>\<open>INCR\<close>, and \<open>EXPIRE\<close> after the first.\<close>

definition incrCount :: "counters \<Rightarrow> int \<Rightarrow> string \<Rightarrow> int \<Rightarrow> counters" where
  "incrCount f t k ttl =
     (let n = liveCount f t k in
      f(k := Some (n + 1, if n = 0 then t + ttl else (case f k of None \<Rightarrow> t + ttl | Some (_, e) \<Rightarrow> e))))"

definition ipBlocked :: "guard \<Rightarrow> int \<Rightarrow> string \<Rightarrow> bool" where
  "ipBlocked g t ip \<longleftrightarrow> (case blockCache g ip of None \<Rightarrow> False | Some e \<Rightarrow> t < e)"

definition assertAllowed :: "'a ledger_scheme \<Rightarrow> guard \<Rightarrow> int \<Rightarrow> string \<Rightarrow> guard \<times> unit res" where
  "assertAllowed s g t ip =
     (if ipBlocked g t ip then (g, Inl (Forbidden ''the address is blocked''))
      else
        (let g1 = g\<lparr>rateCounts := incrCount (rateCounts g) t ip 60000\<rparr> in
         if gsRate (getSettings s) < of_nat (liveCount (rateCounts g) t ip + 1)
         then (g1, Inl (TooManyRequests ''too many inquiries'')) else (g1, Inr ())))"

definition blockIp :: "guard \<Rightarrow> int \<Rightarrow> string \<Rightarrow> nat \<Rightarrow> rat \<Rightarrow> guard" where
  "blockIp g t ip failed duration =
     (let row = \<lparr>bkIp = ip, bkAt = t, bkUntil = t + minutes_ms duration, bkFailed = failed,
                 bkUnblockedBy = None, bkUnblockedAt = None\<rparr>;
          rows = (if list_ex (\<lambda>b. bkIp b = ip) (ipBlocks g)
                  then update_where (\<lambda>b. bkIp b = ip) (\<lambda>_. row) (ipBlocks g) else ipBlocks g @ [row]) in
      g\<lparr>ipBlocks := rows, blockCache := (blockCache g)(ip := Some (t + minutes_ms duration))\<rparr>)"

definition recordAttempt :: "'a ledger_scheme \<Rightarrow> guard \<Rightarrow> int \<Rightarrow> string \<Rightarrow> bool \<Rightarrow> guard" where
  "recordAttempt s g t ip valid =
     (if valid then g
      else
        (let st = getSettings s;
             count = liveCount (invalidCounts g) t ip + 1;
             g1 = g\<lparr>invalidCounts := incrCount (invalidCounts g) t ip (minutes_ms (gsWindow st))\<rparr> in
         if gsThreshold st \<le> of_nat count
         then (let g2 = blockIp g1 t ip count (gsDuration st) in
               g2\<lparr>invalidCounts := (invalidCounts g2)(ip := None)\<rparr>)
         else g1))"

definition unblockIp :: "guard \<Rightarrow> int \<Rightarrow> nat \<Rightarrow> string \<Rightarrow> guard \<times> bool" where
  "unblockIp g t admin ip =
     (if \<not> list_ex (\<lambda>b. bkIp b = ip) (ipBlocks g) then (g, True)
      else (g\<lparr>ipBlocks := update_where (\<lambda>b. bkIp b = ip)
                (\<lambda>b. b\<lparr>bkUnblockedAt := Some t, bkUnblockedBy := Some admin, bkUntil := t\<rparr>) (ipBlocks g),
              blockCache := (blockCache g)(ip := None)\<rparr>, False))"

definition listBlocks :: "guard \<Rightarrow> int \<Rightarrow> bool \<Rightarrow> ip_block list" where
  "listBlocks g t includeExpired =
     filter (\<lambda>b. includeExpired \<or> t < bkUntil b \<and> bkUnblockedAt b = None) (ipBlocks g)"

subsection \<open>The answer\<close>

record verify_context =
  vcIp :: string
  vcChannel :: channel
  vcUser :: "nat option"
  vcAdmin :: "nat option"
  vcAgent :: "nat option"
  vcMask :: bool
  vcReveal :: bool

record incident_alert =
  iaType :: incident_type
  iaStatus :: incident_status
  iaNumber :: string
  iaAt :: int

record bar_details =
  bdWeight :: "rat option"
  bdPurity :: "string option"
  bdSerial :: "string option"
  bdMinted :: "int option"

record owner_details =
  odName :: phrase
  odNational :: string
  odStart :: int

record custody =
  cuHere :: bool
  cuElsewhere :: bool
  cuOwned :: bool

record verify_response =
  vrStatus :: inquiry_result
  vrProduct :: "bar_details option"
  vrOwner :: "owner_details option"
  vrIncident :: "incident_alert option"
  vrCustody :: "custody option"

definition toIncidentAlert :: "incident \<Rightarrow> incident_alert" where
  "toIncidentAlert r = \<lparr>iaType = inType r, iaStatus = inStatus r, iaNumber = inNumber r, iaAt = inCreated r\<rparr>"

definition invalidResponse :: verify_response where
  "invalidResponse =
     \<lparr>vrStatus = INVALID_CODE, vrProduct = None, vrOwner = None, vrIncident = None, vrCustody = None\<rparr>"

definition heldByAgent :: "bar_code \<Rightarrow> bool" where
  "heldByAgent c \<longleftrightarrow> hcStatus c = HC_AT_AGENT \<or> hcStatus c = HC_AGENT_OWNED"

definition custodyOf :: "verify_context \<Rightarrow> bar_code \<Rightarrow> custody option" where
  "custodyOf ctx c =
     (case vcAgent ctx of
        None \<Rightarrow> None
      | Some a \<Rightarrow> Some \<lparr>cuHere = (heldByAgent c \<and> hcAgent c = Some a),
                          cuElsewhere = (heldByAgent c \<and> hcAgent c \<noteq> Some a),
                          cuOwned = (hcStatus c = HC_AGENT_OWNED \<and> hcAgent c = Some a)\<rparr>)"

definition shownNational :: "verify_context \<Rightarrow> ownership \<Rightarrow> string" where
  "shownNational ctx w =
     (if vcReveal ctx \<or> \<not> vcMask ctx \<and> vcUser ctx = Some (owUser w) then owNational w
      else maskNationalCode (owNational w))"

text \<open>The answer about a code, and the bar and the report that the log mentions.\<close>

definition verifyAnswer ::
  "'a registry_scheme \<Rightarrow> string \<Rightarrow> verify_context \<Rightarrow> verify_response \<times> nat option \<times> nat option" where
  "verifyAnswer s x ctx =
     (if \<not> isValidHologramCodeFormat x then (invalidResponse, None, None)
      else case codeByText s x of
        None \<Rightarrow> (invalidResponse, None, None)
      | Some c \<Rightarrow>
         (let r = findActiveIncident s (hcId c) in
          (case activeOwner s (hcId c) of
             None \<Rightarrow>
               \<lparr>vrStatus = VALID_UNASSIGNED, vrProduct = None, vrOwner = None,
                vrIncident = map_option toIncidentAlert r, vrCustody = custodyOf ctx c\<rparr>
           | Some w \<Rightarrow>
               \<lparr>vrStatus = VALID_ASSIGNED,
                vrProduct = Some \<lparr>bdWeight = hcWeight c, bdPurity = hcPurity c, bdSerial = hcSerial c,
                                  bdMinted = hcMinted c\<rparr>,
                vrOwner = Some \<lparr>odName = owName w, odNational = shownNational ctx w, odStart = owStart w\<rparr>,
                vrIncident = map_option toIncidentAlert r, vrCustody = custodyOf ctx c\<rparr>,
           Some (hcId c), map_option inId r)))"

text \<open>
  An inquiry looks the code up and logs it, then counts a wrong guess against its address, and
  then answers.
\<close>

definition lookUp ::
  "'a registry_scheme \<Rightarrow> guard \<Rightarrow> string \<Rightarrow> verify_context \<Rightarrow> guard \<times> verify_response" where
  "lookUp s g x ctx =
     (case verifyAnswer s x ctx of (resp, bar, report) \<Rightarrow>
       (g\<lparr>inquiries := inquiries g @ [\<lparr>iqCode = x, iqBar = bar, iqIp = vcIp ctx,
            iqChannel = vcChannel ctx, iqResult = vrStatus resp, iqUser = vcUser ctx,
            iqAdmin = vcAdmin ctx, iqIncident = report\<rparr>]\<rparr>, resp))"

definition countAnswer ::
  "'a ledger_scheme \<Rightarrow> guard \<Rightarrow> int \<Rightarrow> verify_context \<Rightarrow> verify_response \<Rightarrow> guard" where
  "countAnswer s g t ctx resp =
     (if vcAdmin ctx = None then recordAttempt s g t (vcIp ctx) (vrStatus resp \<noteq> INVALID_CODE) else g)"

definition verify ::
  "'a registry_scheme \<Rightarrow> guard \<Rightarrow> int \<Rightarrow> string \<Rightarrow> verify_context \<Rightarrow> guard \<times> verify_response" where
  "verify s g t x ctx = (case lookUp s g x ctx of (g1, resp) \<Rightarrow> (countAnswer s g1 t ctx resp, resp))"

text \<open>The contexts of the public page, of the user's panel and of the staff panel.\<close>

definition publicContext :: "string \<Rightarrow> verify_context" where
  "publicContext ip =
     \<lparr>vcIp = ip, vcChannel = PUBLIC_WEB, vcUser = None, vcAdmin = None, vcAgent = None, vcMask = True,
      vcReveal = False\<rparr>"

definition userContext :: "string \<Rightarrow> nat \<Rightarrow> verify_context" where
  "userContext ip u =
     \<lparr>vcIp = ip, vcChannel = APP_PANEL, vcUser = Some u, vcAdmin = None, vcAgent = None, vcMask = False,
      vcReveal = False\<rparr>"

definition adminContext :: "string \<Rightarrow> nat \<Rightarrow> verify_context" where
  "adminContext ip a =
     \<lparr>vcIp = ip, vcChannel = ADMIN_PANEL, vcUser = None, vcAdmin = Some a, vcAgent = None, vcMask = False,
      vcReveal = True\<rparr>"

text \<open>The endpoints: the guard first, then the inquiry, here with nothing in between.\<close>

definition guardedVerify ::
  "'a registry_scheme \<Rightarrow> guard \<Rightarrow> int \<Rightarrow> string \<Rightarrow> verify_context \<Rightarrow> guard \<times> verify_response res" where
  "guardedVerify s g t x ctx =
     (case assertAllowed s g t (vcIp ctx) of
        (g1, Inl e) \<Rightarrow> (g1, Inl e)
      | (g1, Inr _) \<Rightarrow> (case verify s g1 t x ctx of (g2, resp) \<Rightarrow> (g2, Inr resp)))"

definition verifyPublic ::
  "'a registry_scheme \<Rightarrow> guard \<Rightarrow> int \<Rightarrow> string \<Rightarrow> string \<Rightarrow> guard \<times> verify_response res" where
  "verifyPublic s g t ip x = guardedVerify s g t x (publicContext ip)"

definition verifyAsUser ::
  "'a registry_scheme \<Rightarrow> guard \<Rightarrow> int \<Rightarrow> string \<Rightarrow> nat \<Rightarrow> string \<Rightarrow> guard \<times> verify_response res" where
  "verifyAsUser s g t ip u x = guardedVerify s g t x (userContext ip u)"

definition inquireAsAdmin ::
  "'a registry_scheme \<Rightarrow> guard \<Rightarrow> int \<Rightarrow> string \<Rightarrow> nat \<Rightarrow> string \<Rightarrow> guard \<times> verify_response" where
  "inquireAsAdmin s g t ip a x = verify s g t x (adminContext ip a)"

subsection \<open>Inquiries in flight\<close>

text \<open>
  Nothing locks an inquiry: between the check of its address, the look at its code and the count of a wrong
  guess the server runs others. \<open>Arrive\<close> is the check (staff is not checked), which lets the inquiry
  in flight or refuses it; \<open>Look\<close> and \<open>Count\<close> are the two further steps of one of the inquiries in flight. Each
  step sees the registry and the clock of its own moment. The state is the guard and the inquiries in
  flight; a step returns the answer that it gives, if any, with the context of the inquiry.
\<close>

record flight =
  flCode :: string
  flCtx :: verify_context
  flAnswer :: "verify_response option"

datatype inquiry_op = Arrive string verify_context | Look nat | Count nat

fun inquiry_step ::
  "guard \<times> flight list \<Rightarrow> 'a registry_scheme \<times> int \<times> inquiry_op \<Rightarrow>
   (guard \<times> flight list) \<times> (verify_context \<times> verify_response res) option" where
  "inquiry_step (g, fs) (s, t, Arrive x ctx) =
     (case (if vcAdmin ctx = None then assertAllowed s g t (vcIp ctx) else (g, Inr ())) of
        (g1, Inl e) \<Rightarrow> ((g1, fs), Some (ctx, Inl e))
      | (g1, Inr _) \<Rightarrow> ((g1, fs @ [\<lparr>flCode = x, flCtx = ctx, flAnswer = None\<rparr>]), None))"
| "inquiry_step (g, fs) (s, t, Look n) =
     (if n < length fs \<and> flAnswer (fs ! n) = None
      then (case lookUp s g (flCode (fs ! n)) (flCtx (fs ! n)) of
              (g1, resp) \<Rightarrow> ((g1, fs[n := (fs ! n)\<lparr>flAnswer := Some resp\<rparr>]), None))
      else ((g, fs), None))"
| "inquiry_step (g, fs) (s, t, Count n) =
     (if n < length fs
      then (case flAnswer (fs ! n) of
              None \<Rightarrow> ((g, fs), None)
            | Some resp \<Rightarrow>
                ((countAnswer s g t (flCtx (fs ! n)) resp, take n fs @ drop (Suc n) fs),
                 Some (flCtx (fs ! n), Inr resp)))
      else ((g, fs), None))"

fun inquire ::
  "guard \<times> flight list \<Rightarrow> ('a registry_scheme \<times> int \<times> inquiry_op) list \<Rightarrow>
   (guard \<times> flight list) \<times> (verify_context \<times> verify_response res) option list" where
  "inquire d [] = (d, [])"
| "inquire d (q # qs) =
     (case inquiry_step d q of (d1, a) \<Rightarrow> (case inquire d1 qs of (d2, as) \<Rightarrow> (d2, a # as)))"

text \<open>An endpoint whose three steps nothing interrupts.\<close>

lemma guardedVerify_steps:
  assumes "vcAdmin ctx = None"
  shows "inquire (g, []) [(s, t, Arrive x ctx), (s, t, Look 0), (s, t, Count 0)] =
    (case guardedVerify s g t x ctx of
       (g1, Inl e) \<Rightarrow> ((g1, []), [Some (ctx, Inl e), None, None])
     | (g1, Inr resp) \<Rightarrow> ((g1, []), [None, None, Some (ctx, Inr resp)]))"
proof -
  obtain g1 r where a: "assertAllowed s g t (vcIp ctx) = (g1, r)" by fastforce
  obtain g2 resp where l: "lookUp s g1 x ctx = (g2, resp)" by fastforce
  show ?thesis using assms a l by (cases r) (simp_all add: guardedVerify_def verify_def)
qed

lemma inquireAsAdmin_steps:
  "inquire (g, []) [(s, t, Arrive x (adminContext ip a)), (s, t, Look 0), (s, t, Count 0)] =
    (case inquireAsAdmin s g t ip a x of (g1, resp) \<Rightarrow> ((g1, []), [None, None, Some (adminContext ip a, Inr resp)]))"
proof -
  obtain g2 resp where l: "lookUp s g x (adminContext ip a) = (g2, resp)" by fastforce
  have "vcAdmin (adminContext ip a) = Some a" by (simp add: adminContext_def)
  then show ?thesis using l by (simp add: inquireAsAdmin_def verify_def)
qed

subsection \<open>Guessing codes\<close>

text \<open>
  The wrong answers that an address gets, the inquiries it has in flight, and how many of them it has in
  flight at once in the course of a series of steps.
\<close>

definition byGuest :: "string \<Rightarrow> verify_context \<Rightarrow> bool" where
  "byGuest ip ctx \<longleftrightarrow> vcIp ctx = ip \<and> vcAdmin ctx = None"

fun wrongAnswer :: "string \<Rightarrow> (verify_context \<times> verify_response res) option \<Rightarrow> bool" where
  "wrongAnswer ip (Some (ctx, Inr resp)) \<longleftrightarrow> byGuest ip ctx \<and> vrStatus resp = INVALID_CODE"
| "wrongAnswer ip _ \<longleftrightarrow> False"

definition wrongAnswers :: "string \<Rightarrow> (verify_context \<times> verify_response res) option list \<Rightarrow> nat" where
  "wrongAnswers ip as = length (filter (wrongAnswer ip) as)"

definition inFlight :: "string \<Rightarrow> flight list \<Rightarrow> nat" where
  "inFlight ip fs = length (filter (\<lambda>f. byGuest ip (flCtx f)) fs)"

fun atOnce ::
  "string \<Rightarrow> guard \<times> flight list \<Rightarrow> ('a registry_scheme \<times> int \<times> inquiry_op) list \<Rightarrow> nat" where
  "atOnce ip d [] = inFlight ip (snd d)"
| "atOnce ip d (q # qs) = max (inFlight ip (snd d)) (atOnce ip (fst (inquiry_step d q)) qs)"

definition guessLimit :: "guard_settings \<Rightarrow> nat" where
  "guessLimit st = max 1 (nat \<lceil>gsThreshold st\<rceil>)"

text \<open>
  The state of the guard for an address until \<open>e\<close>, after \<open>k\<close> wrong answers: either all of them are counted
  until then and are below the limit, or the address is blocked until then, and what it still has in flight
  was let in before.
\<close>

definition blockedTill :: "string \<Rightarrow> int \<Rightarrow> guard \<Rightarrow> bool" where
  "blockedTill ip e g \<longleftrightarrow> (case blockCache g ip of Some b \<Rightarrow> e \<le> b | None \<Rightarrow> False)"

definition guessed :: "guard_settings \<Rightarrow> string \<Rightarrow> int \<Rightarrow> nat \<Rightarrow> nat \<Rightarrow> guard \<Rightarrow> nat \<Rightarrow> bool" where
  "guessed st ip e m k g f \<longleftrightarrow>
     blockedTill ip e g \<and> k + f < guessLimit st + m \<or>
     k < guessLimit st \<and> (case invalidCounts g ip of None \<Rightarrow> k = 0 | Some (n, x) \<Rightarrow> n = k \<and> e \<le> x)"

lemma recordAttempt_other:
  assumes "ip' \<noteq> ip"
  shows "blockCache (recordAttempt s g t ip v) ip' = blockCache g ip'"
    "invalidCounts (recordAttempt s g t ip v) ip' = invalidCounts g ip'"
  using assms by (simp_all add: recordAttempt_def blockIp_def incrCount_def Let_def)

lemma guessed_cong:
  "blockCache g' ip = blockCache g ip \<Longrightarrow> invalidCounts g' ip = invalidCounts g ip \<Longrightarrow>
   guessed st ip e m k g' f = guessed st ip e m k g f"
  by (simp add: guessed_def blockedTill_def)

text \<open>A wrong guess that is counted: an inquiry of the address leaves the flight.\<close>

lemma recordAttempt_block:
  assumes st: "getSettings s = st" and d: "e \<le> t + minutes_ms (gsDuration st)" and b: "blockedTill ip e g"
  shows "blockedTill ip e (recordAttempt s g t ip False)"
  using assms by (simp add: recordAttempt_def blockedTill_def blockIp_def Let_def)

lemma recordAttempt_wrong:
  assumes g: "guessed st ip e m k g (f + 1)" and f: "f + 1 \<le> m" and t: "t < e" and st: "getSettings s = st"
    and w: "e \<le> t + minutes_ms (gsWindow st)" and d: "e \<le> t + minutes_ms (gsDuration st)"
  shows "guessed st ip e m (k + 1) (recordAttempt s g t ip False) f"
proof (cases "blockedTill ip e g \<and> k + (f + 1) < guessLimit st + m")
  case True
  then show ?thesis using recordAttempt_block [OF st d] by (simp add: guessed_def)
next
  case False
  then have c: "case invalidCounts g ip of None \<Rightarrow> k = 0 | Some (n, x) \<Rightarrow> n = k \<and> e \<le> x"
    and k: "k < guessLimit st" using g by (auto simp: guessed_def)
  have l: "liveCount (invalidCounts g) t ip = k" using c t by (auto simp: liveCount_def split: option.splits)
  show ?thesis
  proof (cases "gsThreshold st \<le> of_nat (k + 1)")
    case True
    then have "blockedTill ip e (recordAttempt s g t ip False)"
      using d l st by (simp add: blockedTill_def recordAttempt_def blockIp_def Let_def)
    then show ?thesis using k f by (simp add: guessed_def)
  next
    case False
    then have "k + 1 < guessLimit st" unfolding guessLimit_def by linarith
    moreover obtain y where "incrCount (invalidCounts g) t ip (minutes_ms (gsWindow st)) ip = Some (k + 1, y)" "e \<le> y"
      using c w l by (auto simp: incrCount_def Let_def split: option.splits)
    ultimately show ?thesis using False l st by (simp add: guessed_def recordAttempt_def Let_def)
  qed
qed

lemma inFlight_update:
  "n < length fs \<Longrightarrow> byGuest ip (flCtx f) = byGuest ip (flCtx (fs ! n)) \<Longrightarrow> inFlight ip (fs[n := f]) = inFlight ip fs"
  unfolding inFlight_def by (induction fs arbitrary: n) (auto split: nat.splits simp: nth_Cons)

lemma inFlight_remove:
  assumes "n < length fs"
  shows "inFlight ip fs = inFlight ip (take n fs @ drop (Suc n) fs) + (if byGuest ip (flCtx (fs ! n)) then 1 else 0)"
  unfolding inFlight_def by (subst id_take_nth_drop [OF assms]) simp

text \<open>The three steps.\<close>

lemma arrive_guessed:
  assumes g: "guessed st ip e m k g (inFlight ip fs)" and t: "t < e"
    and r: "inquiry_step (g, fs) (s, t, Arrive x ctx) = ((g', fs'), a)"
  shows "guessed st ip e m k g' (inFlight ip fs') \<and> \<not> wrongAnswer ip a"
proof -
  obtain g1 u where p: "(if vcAdmin ctx = None then assertAllowed s g t (vcIp ctx) else (g, Inr ())) = (g1, u)"
    by fastforce
  then have g1: "blockCache g1 = blockCache g" "invalidCounts g1 = invalidCounts g"
    by (auto simp: assertAllowed_def Let_def split: if_splits)
  then have gd: "guessed st ip e m k g1 f = guessed st ip e m k g f" for f by (intro guessed_cong) simp_all
  show ?thesis
  proof (cases u)
    case (Inl err)
    then show ?thesis using r p g gd by auto
  next
    case (Inr v)
    then have g': "g' = g1" "a = None" "fs' = fs @ [\<lparr>flCode = x, flCtx = ctx, flAnswer = None\<rparr>]" using r p by auto
    show ?thesis
    proof (cases "byGuest ip ctx")
      case True
      then have "\<not> ipBlocked g t ip" using p Inr
        by (auto simp: byGuest_def assertAllowed_def Let_def split: if_splits)
      then have "\<not> blockedTill ip e g" using t by (auto simp: ipBlocked_def blockedTill_def split: option.splits)
      then show ?thesis using g by (simp add: g' gd) (simp add: guessed_def)
    next
      case False
      then show ?thesis using g by (simp add: g' gd inFlight_def)
    qed
  qed
qed

lemma look_guessed:
  assumes g: "guessed st ip e m k g (inFlight ip fs)"
    and r: "inquiry_step (g, fs) (s, t, Look n) = ((g', fs'), a)"
  shows "guessed st ip e m k g' (inFlight ip fs') \<and> \<not> wrongAnswer ip a"
proof (cases "n < length fs \<and> flAnswer (fs ! n) = None")
  case True
  obtain g1 resp where p: "lookUp s g (flCode (fs ! n)) (flCtx (fs ! n)) = (g1, resp)" by fastforce
  then have "guessed st ip e m k g1 f = guessed st ip e m k g f" for f
    by (intro guessed_cong) (auto simp: lookUp_def split: prod.splits)
  moreover have "inFlight ip (fs[n := (fs ! n)\<lparr>flAnswer := Some resp\<rparr>]) = inFlight ip fs"
    using True by (intro inFlight_update) simp_all
  ultimately show ?thesis using r g True p by auto
next
  case False
  then show ?thesis using r g by auto
qed

lemma count_guessed:
  assumes g: "guessed st ip e m k g (inFlight ip fs)" and f: "inFlight ip fs \<le> m" and t: "t < e"
    and st: "getSettings s = st" and w: "e \<le> t + minutes_ms (gsWindow st)" and d: "e \<le> t + minutes_ms (gsDuration st)"
    and r: "inquiry_step (g, fs) (s, t, Count n) = ((g', fs'), a)"
  shows "guessed st ip e m (k + (if wrongAnswer ip a then 1 else 0)) g' (inFlight ip fs')"
proof (cases "n < length fs \<and> flAnswer (fs ! n) \<noteq> None")
  case False
  then show ?thesis using r g by (auto split: if_splits option.splits)
next
  case True
  then obtain resp where resp: "flAnswer (fs ! n) = Some resp" by blast
  define ctx where "ctx = flCtx (fs ! n)"
  have e: "g' = countAnswer s g t ctx resp" "fs' = take n fs @ drop (Suc n) fs" "a = Some (ctx, Inr resp)"
    using r True resp by (simp_all add: ctx_def)
  have n: "inFlight ip fs = inFlight ip fs' + (if byGuest ip ctx then 1 else 0)"
    unfolding e(2) ctx_def by (rule inFlight_remove) (use True in simp)
  show ?thesis
  proof (cases "wrongAnswer ip a")
    case True
    then have b: "byGuest ip ctx" "g' = recordAttempt s g t ip False" by (simp_all add: e byGuest_def countAnswer_def)
    have "guessed st ip e m (k + 1) (recordAttempt s g t ip False) (inFlight ip fs')"
      by (rule recordAttempt_wrong [OF _ _ t st w d]) (use g f n b(1) in simp_all)
    then show ?thesis using True b(2) by simp
  next
    case False
    have c: "blockCache g' ip = blockCache g ip" "invalidCounts g' ip = invalidCounts g ip"
    proof -
      have "vrStatus resp \<noteq> INVALID_CODE \<or> vcAdmin ctx \<noteq> None \<or> ip \<noteq> vcIp ctx" using False by (auto simp: e(3) byGuest_def)
      then show "blockCache g' ip = blockCache g ip" "invalidCounts g' ip = invalidCounts g ip"
        unfolding e(1) countAnswer_def by (auto simp: recordAttempt_other) (simp_all add: recordAttempt_def)
    qed
    have "guessed st ip e m k g (inFlight ip fs')" using g n by (auto simp: guessed_def split: if_splits)
    then show ?thesis unfolding guessed_cong [OF c] using False by simp
  qed
qed

lemma inquire_guessed:
  assumes "guessed st ip e m k (fst d) (inFlight ip (snd d))" and "atOnce ip d qs \<le> m"
    and "\<And>s t x. (s, t, x) \<in> set qs \<Longrightarrow> getSettings s = st \<and> t0 \<le> t \<and> t < e"
    and "e \<le> t0 + minutes_ms (gsWindow st)" "e \<le> t0 + minutes_ms (gsDuration st)"
  shows "guessed st ip e m (k + wrongAnswers ip (snd (inquire d qs))) (fst (fst (inquire d qs)))
    (inFlight ip (snd (fst (inquire d qs))))"
  using assms(1-3)
proof (induction qs arbitrary: d k)
  case Nil
  then show ?case by (simp add: wrongAnswers_def)
next
  case (Cons q qs)
  obtain s t x where q: "q = (s, t, x)" by (cases q)
  obtain g fs where d: "d = (g, fs)" by (cases d)
  have h: "getSettings s = st" "t0 \<le> t" "t < e" using Cons.prems(3) [of s t x] by (simp_all add: q)
  obtain g' fs' a where r: "inquiry_step (g, fs) (s, t, x) = ((g', fs'), a)"
    by (cases "inquiry_step (g, fs) (s, t, x)") auto
  have w: "e \<le> t + minutes_ms (gsWindow st)" "e \<le> t + minutes_ms (gsDuration st)" using assms(4,5) h(2) by linarith+
  have m: "inFlight ip fs \<le> m" "atOnce ip (g', fs') qs \<le> m" using Cons.prems(2) r by (simp_all add: d q)
  have g: "guessed st ip e m k g (inFlight ip fs)" using Cons.prems(1) by (simp add: d)
  have "guessed st ip e m (k + (if wrongAnswer ip a then 1 else 0)) g' (inFlight ip fs')"
  proof (cases x)
    case Arrive
    then show ?thesis using arrive_guessed [OF g h(3) r [unfolded Arrive]] by simp
  next
    case Look
    then show ?thesis using look_guessed [OF g r [unfolded Look]] by simp
  next
    case Count
    show ?thesis by (rule count_guessed [OF g m(1) h(3,1) w r [unfolded Count]])
  qed
  then have "guessed st ip e m (k + (if wrongAnswer ip a then 1 else 0)) (fst (g', fs')) (inFlight ip (snd (g', fs')))"
    by simp
  then have "guessed st ip e m (k + (if wrongAnswer ip a then 1 else 0) + wrongAnswers ip (snd (inquire (g', fs') qs)))
      (fst (fst (inquire (g', fs') qs))) (inFlight ip (snd (fst (inquire (g', fs') qs))))"
    by (rule Cons.IH [OF _ m(2)]) (rule Cons.prems(3) [OF list.set_intros(2)])
  moreover have "fst (inquire d (q # qs)) = fst (inquire (g', fs') qs)"
    "wrongAnswers ip (snd (inquire d (q # qs))) =
      (if wrongAnswer ip a then 1 else 0) + wrongAnswers ip (snd (inquire (g', fs') qs))"
    by (simp_all add: q d r wrongAnswers_def split: prod.split)
  ultimately show ?case by (simp add: add.assoc)
qed

end
