(* ===== verification/BarProps.thy ===== *)
theory BarProps
  imports BarRuns Inquiry
begin

section \<open>The properties of the registry and of the buyback\<close>

text \<open>
  Who owns a bar and what locks it, the life of a sale and the evidence behind a payout, the money, the
  guard against guessing codes, and the behaviours of the code that its own comments deny.
\<close>

subsection \<open>A concrete registry\<close>

text \<open>
  Bar 50 of one gram belongs to the verified user 11, bar 51 has no owner. User 11 has a verified default
  account at a bank.
\<close>

definition demoBar :: bar_code where
  "demoBar = (newCode 50 40 ''12345674'')\<lparr>hcStatus := HC_ASSIGNED, hcWeight := Some 1, hcPurity := Some ''K18''\<rparr>"

definition demoOwner :: ownership where
  "demoOwner = newOwnership 52 50 11 None [65] ''0012345679'' 100 INITIAL_PURCHASE"

definition demoPayAccount :: pay_account where
  "demoPayAccount =
     \<lparr>baId = 30, baUser = 11, baVerified = True, baBank = ''bank'', baCard = [], baSheba = None, baNumber = ''1'',
      paDefault = True, paVerified = True, paOwner = None\<rparr>"

definition demoVault :: vault where
  "demoVault =
     \<lparr>nextId = 100,
      accounts = [demoAccount 1 ''1010'' ASSET 3000000000 0, demoAccount 2 ''1025'' ASSET 0 0,
                  demoAccount 3 ''1095'' ASSET 0 0],
      journals = [], ledgerEntries = [], fiscalYears = [], lockedUntil = None,
      config = (\<lambda>_. None), configNum = (\<lambda>_. None), users = [], bankAccounts = [], wallets = [],
      holds = [], transactions = [], withdrawals = [], approvals = [],
      sequences = (\<lambda>_. 0), jalaliYear = 1404,
      batches = [], codes = [demoBar, newCode 51 40 ''23456783''], ownerships = [demoOwner], transfers = [],
      incidents = [],
      identities = [\<lparr>idUser = 11, idStatus = ID_VERIFIED, idFirst = Some [65], idLast = Some [66],
                     idNational = Some ''0012345679''\<rparr>],
      phones = [(''09121111111'', 12)], soldItems = [], replays = [],
      payAccounts = [demoPayAccount], buybacks = [], bbEvents = []\<rparr>"

lemma demoVault_ok [simp]: "vault_ok demoVault"
proof -
  have "okView (barView demoVault i)" for i
    by (simp add: demoVault_def demoBar_def demoOwner_def newCode_def newOwnership_def barView_def statusOf_def
        ownersOf_def pendingTypes_def reportsOf_def codeById_def okView.simps)
  moreover have "keys_ok demoVault"
    by (simp add: demoVault_def demoBar_def demoOwner_def newCode_def newOwnership_def keys_ok_def)
  moreover have "statusOf demoVault i \<noteq> Some HC_BUYBACK_PENDING" for i
    by (simp add: demoVault_def demoBar_def newCode_def statusOf_def codeById_def)
  ultimately show ?thesis
    by (simp add: vault_ok_def bars_ok_def sales_ok_def wf_ledger_def wf_accounts_def demoAccount_def demoVault_def)
qed

definition demoSale :: create_input where
  "demoSale = \<lparr>crCode = 50, crDelivery = IN_PERSON\<rparr>"

definition demoInspection :: inspect_input where
  "demoInspection =
     \<lparr>isPassed = True, isChecklist = \<lparr>ckHologram = True, ckSerial = True, ckPackaging = True, ckSurface = True,
      ckPurity = True\<rparr>, isWeight = Some 1, isFineness = None, isNote = None\<rparr>"

definition demoBbPay :: bb_pay_input where
  "demoBbPay = \<lparr>bpReference = ''R1'', bpSource = None, bpMethod = None, bpPaidAt = None\<rparr>"

text \<open>The calls of a whole sale at 100000000 rial a gram, from the request to the approval, and the payout.\<close>

definition demoApprovedOps :: "(int \<times> vault_op) list" where
  "demoApprovedOps =
     [(1000, SellBar (Some 100000000) 11 demoSale), (2000, ReceiveBar 1 100), (3000, InspectBar 1 100 demoInspection),
      (4000, OfferPrice (Some 100000000) 1 100 \<lparr>oiPerGram = None, oiPercent = None, oiFee = None\<rparr>),
      (5000, RespondSale 11 100 True), (6000, ApproveSale 1 100)]"

definition demoAgreed :: vault where
  "demoAgreed = run (vault_step id) demoVault demoApprovedOps"

lemma demoAgreed_ok [simp]: "vault_ok demoAgreed"
  unfolding demoAgreed_def by (rule vault_run.run_inv) simp

text \<open>What the witnesses read of that state and of the state after the payout, evaluated once.\<close>

definition saleFacts ::
  "vault \<Rightarrow> (buyback_status \<times> int) option \<times> code_status option \<times> int \<times> int \<times> (buyback_status option \<times> int) option" where
  "saleFacts s =
     (map_option (\<lambda>r. (bbStatus r, netOf r)) (buybackById s 100), statusOf s 50, rialOf s ''1025'', paidRial s,
      (case payBuyback s 7000 2 100 demoBbPay of
         Inl e \<Rightarrow> None
       | Inr s' \<Rightarrow> Some (map_option bbStatus (buybackById s' 100), paidRial s')))"

lemma demoAgreed_facts:
  "saleFacts demoAgreed =
     (Some (BB_APPROVED, 98000000), Some HC_BUYBACK_PENDING, 0, 0, Some (Some BB_PAID, 98000000))"
  by code_simp

lemma demoAgreed_row: obtains r where "buybackById demoAgreed 100 = Some r" "bbStatus r = BB_APPROVED" "netOf r = 98000000"
  using demoAgreed_facts that by (auto simp: saleFacts_def)

lemma demo_payout:
  obtains s' where "payBuyback demoAgreed 7000 2 100 demoBbPay = Inr s'"
    "run (vault_step id) demoAgreed [(7000, PaySale 2 100 demoBbPay)] = s'"
    "map_option bbStatus (buybackById s' 100) = Some BB_PAID" "paidRial s' = 98000000"
proof -
  obtain s' where s': "payBuyback demoAgreed 7000 2 100 demoBbPay = Inr s'"
    "map_option bbStatus (buybackById s' 100) = Some BB_PAID" "paidRial s' = 98000000"
    using demoAgreed_facts by (auto simp: saleFacts_def simp del: map_option_eq_Some split: sum.splits)
  then show thesis using that by (simp add: try_step_def)
qed


subsection \<open>Bars, sales and money over any calls\<close>

text \<open>C3: A bar is never sold twice and never lost between two owners. Over any sequence of calls of the
registry and of the buyback, by anybody and with failing calls anywhere in between, every bar has at most one
active owner, at most one pending transfer and at most one active report; it is locked for a sale exactly
when one open request is about it, and an open request is always about a bar of the user who made it.\<close>

theorem bars_locked_by_sales:
  assumes "vault_ok s"
  shows "length (ownersOf (run (vault_step prec) s ps) i) \<le> 1 \<and>
    length (pendingTypes (run (vault_step prec) s ps) i) \<le> 1 \<and> reportsOf (run (vault_step prec) s ps) i \<le> 1 \<and>
    length (filter (\<lambda>r. bbCode r = i \<and> openSale r) (buybacks (run (vault_step prec) s ps))) =
      (if statusOf (run (vault_step prec) s ps) i = Some HC_BUYBACK_PENDING then 1 else 0) \<and>
    list_all (\<lambda>r. if openSale r then ownersOf (run (vault_step prec) s ps) (bbCode r) = [bbUser r] else True)
      (buybacks (run (vault_step prec) s ps))"
  using vault_shape [OF vault_run.run_inv [OF assms]] by (simp add: list_all_iff)

lemma bars_locked_by_sales_witness:
  "length (filter (\<lambda>r. bbCode r = 50 \<and> openSale r) (buybacks (run (vault_step id) demoVault demoApprovedOps))) = 1"
proof -
  have "statusOf (run (vault_step id) demoVault demoApprovedOps) 50 = Some HC_BUYBACK_PENDING"
    using demoAgreed_facts by (simp add: saleFacts_def demoAgreed_def)
  then show ?thesis using bars_locked_by_sales [OF demoVault_ok, where prec = id and ps = demoApprovedOps and i = 50] by simp
qed

text \<open>From the acceptance on the offer stays.\<close>

definition agreedStatuses :: "buyback_status set" where
  "agreedStatuses = {BB_ACCEPTED, BB_APPROVED, BB_PAID, BB_RETURN_PENDING, BB_RETURNED}"

lemma agreed_edge:
  assumes "row_step y z" "bbStatus y \<in> agreedStatuses"
  shows "bbStatus z \<in> agreedStatuses" "bbOffer z = bbOffer y"
proof -
  have e: "bb_edge (bbStatus y) (bbStatus z)" using assms(1) by (simp add: row_step_def)
  then show "bbStatus z \<in> agreedStatuses" using assms(2) by (auto simp: agreedStatuses_def bb_edge_from)
  then show "bbOffer z = bbOffer y" using assms(1) by (auto simp: row_step_def agreedStatuses_def)
qed

lemma agreed_steps:
  "row_step\<^sup>*\<^sup>* r r' \<Longrightarrow> bbStatus r \<in> agreedStatuses \<Longrightarrow> bbStatus r' \<in> agreedStatuses \<and> bbOffer r' = bbOffer r"
  by (induction rule: rtranclp_induct) (auto dest: agreed_edge)

lemma row_steps:
  "row_step\<^sup>*\<^sup>* r r' \<Longrightarrow> bb_edge\<^sup>*\<^sup>* (bbStatus r) (bbStatus r') \<and> bbUser r' = bbUser r \<and> bbCode r' = bbCode r \<and>
    bbWeight r' = bbWeight r"
proof (induction rule: rtranclp_induct)
  case (step y z)
  then have "bb_edge (bbStatus y) (bbStatus z)" "bbUser z = bbUser y" "bbCode z = bbCode y" "bbWeight z = bbWeight y"
    by (simp_all add: row_step_def)
  with step.IH rtranclp.rtrancl_into_rtrancl [of bb_edge "bbStatus r" "bbStatus y" "bbStatus z"] show ?case by simp
qed simp

text \<open>C5: The program refines a product of two abstract machines. Over any sequence of calls a request never
disappears, never changes who sells which bar, and its status moves along the edges of the relation bb_edge; once
the owner has accepted, the offer never changes again. Meanwhile every bar moves only along the steps of
the abstract bar: born, assigned, promised, given, taken, kept, revoked, reported, cleared, locked, released and sold.\<close>

theorem sales_refine_life_cycle:
  assumes "vault_ok s" "buybackById s i = Some r"
  shows "(\<exists>r'. buybackById (run (vault_step prec) s ps) i = Some r' \<and> bb_edge\<^sup>*\<^sup>* (bbStatus r) (bbStatus r') \<and>
      bbUser r' = bbUser r \<and> bbCode r' = bbCode r \<and> bbWeight r' = bbWeight r \<and>
      (bbStatus r \<in> {BB_ACCEPTED, BB_APPROVED, BB_PAID} \<longrightarrow> bbOffer r' = bbOffer r)) \<and>
    (sup bar_move sale_move)\<^sup>*\<^sup>* (barView s j) (barView (run (vault_step prec) s ps) j)"
proof -
  have h: "vaultHistory s (run (vault_step prec) s ps)" by (rule vault_life.run_later [OF assms(1)])
  then obtain r' where "buybackById (run (vault_step prec) s ps) i = Some r'" "row_step\<^sup>*\<^sup>* r r'"
    using assms(2) unfolding vaultHistory_def rows_evolve_def by blast
  with row_steps [OF this(2)] agreed_steps [OF this(2)] h show ?thesis
    unfolding vaultHistory_def agreedStatuses_def by blast
qed

lemma sales_refine_life_cycle_witness:
  "\<exists>r'. buybackById (run (vault_step id) demoAgreed [(7000, PaySale 2 100 demoBbPay)]) 100 = Some r' \<and>
     bb_edge\<^sup>*\<^sup>* BB_APPROVED (bbStatus r')"
proof (rule demoAgreed_row)
  fix r assume "buybackById demoAgreed 100 = Some r" "bbStatus r = BB_APPROVED"
  then show ?thesis using sales_refine_life_cycle [OF demoAgreed_ok, of 100 r id "[(7000, PaySale 2 100 demoBbPay)]"] by auto
qed

text \<open>C7: No bar is paid for without its evidence. Whatever calls were made, a paid request has passed the
inspection with every item of the checklist and a measured weight, has an offer that pays something and that
the owner accepted before it ended, was approved, and was paid with a journal entry; at or above the limit
of the dual control the payer was not the approver.\<close>

theorem paid_with_evidence:
  assumes "vault_ok s" and "buybackById (run (vault_step prec) s ps) i = Some r" "bbStatus r = BB_PAID"
  shows "bbPassed r = Some True \<and> bbMeasured r \<noteq> None \<and> (\<exists>k. bbChecklist r = Some k \<and> allChecks k) \<and>
    (\<exists>x t. bbOffer r = Some x \<and> 0 < ofNet x \<and> bbAcceptedAt r = Some t \<and> t < ofExpires x) \<and>
    bbApprovedBy r \<noteq> None \<and> bbPaidBy r \<noteq> None \<and> bbJournal r \<noteq> None \<and>
    (dualThreshold (run (vault_step prec) s ps) \<le> of_int (netOf r) \<longrightarrow> bbPaidBy r \<noteq> bbApprovedBy r)"
proof -
  have "r \<in> set (buybacks (run (vault_step prec) s ps))"
    using find_SomeD [OF assms(2) [unfolded buybackById_def]] by simp
  from vault_okD(4) [OF vault_run.run_inv [OF assms(1)] this] assms(3) show ?thesis
    by (auto simp: row_ok_def netOf_def)
qed

lemma paid_with_evidence_witness:
  "\<exists>r. buybackById (run (vault_step id) demoAgreed [(7000, PaySale 2 100 demoBbPay)]) 100 = Some r \<and>
     bbApprovedBy r \<noteq> None \<and> bbMeasured r \<noteq> None"
proof (rule demo_payout)
  fix s' assume "run (vault_step id) demoAgreed [(7000, PaySale 2 100 demoBbPay)] = s'"
    "map_option bbStatus (buybackById s' 100) = Some BB_PAID"
  then obtain r where "buybackById (run (vault_step id) demoAgreed [(7000, PaySale 2 100 demoBbPay)]) 100 = Some r"
    "bbStatus r = BB_PAID" by (auto simp: map_option_eq_Some)
  then show ?thesis using paid_with_evidence [OF demoAgreed_ok] by blast
qed

text \<open>C8: The books follow the bars. Over any sequence of calls the account 1025 of the bullion in the vault grows by
exactly the rial of the requests that were paid in the meantime, and no call touches a wallet, the rial
control account 2010 or the gold control account 2020.\<close>

theorem vault_reconciles:
  assumes "vault_ok s"
  shows "rialOf (run (vault_step prec) s ps) ''1025'' - rialOf s ''1025'' =
      paidRial (run (vault_step prec) s ps) - paidRial s \<and>
    wallets (run (vault_step prec) s ps) = wallets s \<and> rialOf (run (vault_step prec) s ps) ''2010'' = rialOf s ''2010'' \<and>
    gramsOf (run (vault_step prec) s ps) ''2020'' = gramsOf s ''2020''"
  using vault_run.run_quantity [OF assms, of prec ps] by (simp add: vaultMoney_def)

lemma vault_reconciles_witness:
  "rialOf (run (vault_step id) demoAgreed [(7000, PaySale 2 100 demoBbPay)]) ''1025'' = 98000000"
proof (rule demo_payout)
  fix s' assume "run (vault_step id) demoAgreed [(7000, PaySale 2 100 demoBbPay)] = s'" "paidRial s' = 98000000"
  then have "paidRial (run (vault_step id) demoAgreed [(7000, PaySale 2 100 demoBbPay)]) - paidRial demoAgreed = 98000000"
    "rialOf demoAgreed ''1025'' = 0" using demoAgreed_facts by (simp_all add: saleFacts_def)
  then show ?thesis using vault_reconciles [OF demoAgreed_ok, of id "[(7000, PaySale 2 100 demoBbPay)]"] by simp
qed

text \<open>C9: What a payout does. It succeeds only for an approved request on a locked and unreported bar whose payment is not dated in the
future. It books the net amount of the offer from one cash account, the one that is recorded unless that is the root of the cash
accounts, to the account of the vault, and the grams of the bar from account 1095 to it; the balances of all other
accounts, all wallets and all other requests stay as they are. It ends the ownership of the seller and puts the bar back without an owner,
and leaves every other bar as it is.\<close>

theorem buyback_payout_effect:
  assumes "vault_ok s" "payBuyback s t admin i dto = Inr s'"
  shows "payDateOf t dto \<le> t + 60000 \<and> wallets s' = wallets s \<and>
    (\<exists>r r' source bank (c :: bar_code). buybackById s i = Some r \<and> bbStatus r = BB_APPROVED \<and> codeById s (bbCode r) = Some c \<and>
      statusOf s (bbCode r) = Some HC_BUYBACK_PENDING \<and> reportsOf s (bbCode r) = 0 \<and>
      buybackById s' i = Some r' \<and> bbStatus r' = BB_PAID \<and> bbSource r' = Some source \<and>
      starts_with CASH_ROOT_CODE bank \<and> (source \<noteq> CASH_ROOT_CODE \<longrightarrow> bank = source) \<and>
      (\<forall>k. rialOf s' k = rialOf s k + (if k = ''1025'' then netOf r else 0) - (if k = bank then netOf r else 0)) \<and>
      (\<forall>k. gramsOf s' k = gramsOf s k + (if k = ''1025'' then gramsOfBar r c else 0) -
         (if k = ''1095'' then gramsOfBar r c else 0)) \<and>
      ownersOf s' (bbCode r) = [] \<and> statusOf s' (bbCode r) = Some HC_UNASSIGNED \<and>
      (\<forall>k. k \<noteq> i \<longrightarrow> buybackById s' k = buybackById s k) \<and>
      (\<forall>k. k \<noteq> bbCode r \<longrightarrow> barView s' k = barView s k))"
proof -
  from payBuyback_Inr [OF assms(2)] obtain r and c :: bar_code and source s1 j where k: "payBuybackChecks s admin i = Inr (r, c)"
    and d: "payDateOf t dto \<le> t + 60000"
    and post: "postJournal s t (buybackJournal r admin (gramsOfBar r c) source (bpPaidAt dto)) = Inr (s1, j)"
    and s': "s' = bbEvent (setBuyback (toVault s1 (payDateOf t dto) (hcId c)) i (paidRow admin (payDateOf t dto) dto source j))
            i (Some BB_APPROVED) BB_PAID (BB_ADMIN admin)"
    and cash: "starts_with CASH_ROOT_CODE source" by metis
  from payBuybackChecks_Inr [OF k] have l: "lockRequest s i [BB_APPROVED] None = Inr r"
    and rep: "reportsOf s (bbCode r) = 0" and cc: "codeById s (bbCode r) = Some c" and hp: "hcStatus c = HC_BUYBACK_PENDING" by metis+
  note lr = lockRequest_Inr [OF l] and pj = postJournal_vault [OF post]
  have st: "bbStatus r = BB_APPROVED" using lr(4) by simp
  have hc: "hcId c = bbCode r" using find_SomeD [OF cc [unfolded codeById_def]] by simp
  have v1: "statusOf s1 = statusOf s" "ownersOf s1 = ownersOf s" "pendingTypes s1 = pendingTypes s" "reportsOf s1 = reportsOf s"
    using pj(8) by (simp_all add: fun_eq_iff barView_def)
  have money: "rialOf s' = rialOf s1" "gramsOf s' = gramsOf s1"
    by (simp_all add: fun_eq_iff s' setBuyback_def bbEvent_def rialOf_def gramsOf_def)
  let ?f = "paidRow admin (payDateOf t dto) dto source j"
  have rows: "buybacks s' = buybacks (setBuyback s i ?f)" by (simp add: s' setBuyback_def pj)
  have "buybackById s' i = Some (?f r)"
    by (rule evolve_one(2) [where f = ?f, OF lr(1) _ _ rows]) (simp_all add: row_step_def payout st)
  moreover have "\<forall>k. k \<noteq> i \<longrightarrow> buybackById s' k = buybackById s k"
    unfolding buybackById_def rows by (auto simp: setBuyback_def intro!: find_update_where_other)
  moreover have "statusOf s (bbCode r) = Some HC_BUYBACK_PENDING" using cc hp by (simp add: statusOf_def)
  moreover obtain bank where "starts_with CASH_ROOT_CODE bank" "source \<noteq> CASH_ROOT_CODE \<longrightarrow> bank = source"
    "\<forall>k. rialOf s' k = rialOf s k + (if k = ''1025'' then netOf r else 0) - (if k = bank then netOf r else 0)"
    "\<forall>k. gramsOf s' k = gramsOf s k + (if k = ''1025'' then gramsOfBar r c else 0) -
      (if k = ''1095'' then gramsOfBar r c else 0)"
  proof (rule postJournal_lines [OF vault_okD(3) [OF assms(1)] post])
    fix ls assume r: "redirectCash s (buybackJournal r admin (gramsOfBar r c) source (bpPaidAt dto))
        (inputLines (buybackJournal r admin (gramsOfBar r c) source (bpPaidAt dto))) = Inr ls"
      and b: "\<And>k. rialOf s1 k = rialOf s k + netRial k ls" "\<And>k. gramsOf s1 k = gramsOf s k + netGrams k ls"
    show thesis
    proof (rule buyback_lines [OF cash r])
      fix bank
      assume "starts_with CASH_ROOT_CODE bank" "source \<noteq> CASH_ROOT_CODE \<Longrightarrow> bank = source"
        "\<And>k. netRial k ls = (if k = ''1025'' then netOf r else 0) - (if k = bank then netOf r else 0)"
        "\<And>k. netGrams k ls = (if k = ''1025'' then gramsOfBar r c else 0) - (if k = ''1095'' then gramsOfBar r c else 0)"
      then show thesis by (intro that [of bank]) (simp_all add: money b)
    qed
  qed
  moreover have "ownersOf s' (bbCode r) = []" "statusOf s' (bbCode r) = Some HC_UNASSIGNED" "wallets s' = wallets s"
    by (simp_all add: s' hc toVault_bars v1 pj cc)
  moreover have "\<forall>k. k \<noteq> bbCode r \<longrightarrow> barView s' k = barView s k"
    by (simp add: s' hc barView_def toVault_bars v1)
  moreover have "bbStatus (?f r) = BB_PAID" "bbSource (?f r) = Some source" by simp_all
  ultimately show ?thesis using lr(1) st cc rep d by blast
qed

lemma buyback_payout_effect_witness:
  "\<exists>s'. payBuyback demoAgreed 7000 2 100 demoBbPay = Inr s' \<and> rialOf s' ''1025'' = rialOf demoAgreed ''1025'' + 98000000"
proof (rule demo_payout)
  fix s' assume p: "payBuyback demoAgreed 7000 2 100 demoBbPay = Inr s'"
  from buyback_payout_effect [OF demoAgreed_ok p] obtain r bank where "buybackById demoAgreed 100 = Some r"
    "starts_with CASH_ROOT_CODE bank"
    "\<forall>k. rialOf s' k = rialOf demoAgreed k + (if k = ''1025'' then netOf r else 0) - (if k = bank then netOf r else 0)"
    by (elim conjE exE) blast
  then have "rialOf s' ''1025'' = rialOf demoAgreed ''1025'' + netOf r" "buybackById demoAgreed 100 = Some r"
    by (auto simp: CASH_ROOT_CODE_def)
  then show ?thesis using p demoAgreed_row by (metis option.inject)
qed

end
