(* ===== verification/SaleProps.thy ===== *)
theory SaleProps
  imports BarProps
begin

section \<open>Prices, checks and refusals of the sale of a bar\<close>

text \<open>
  The bounds of a price, what the overview promises against what a request needs, what a cancelled request
  leaves behind, the refusals for a reported bar, new codes, and the behaviours that the comments of
  the code deny.
\<close>

subsection \<open>The price\<close>

text \<open>C28: The price of a bar stays within its value. With a deduction between none and all and a fee that is
not negative, a computed price is a whole number of thousand rial, not negative and not above the
gross value, which in turn is not above the price of the gram times the weight; and for the same
deduction and fee a heavier bar or a higher price of the gram never pays less.\<close>

theorem buyback_price_bounds:
  assumes "0 \<le> perGram" "0 \<le> weight" "0 \<le> pct" "pct \<le> 100" "0 \<le> fee"
    and "perGram \<le> perGram'" "weight \<le> weight'"
  shows "0 \<le> pbNet (priceBreakdown b perGram weight pct fee) \<and>
    1000 dvd pbNet (priceBreakdown b perGram weight pct fee) \<and>
    pbNet (priceBreakdown b perGram weight pct fee) \<le> pbGross (priceBreakdown b perGram weight pct fee) \<and>
    of_int (pbGross (priceBreakdown b perGram weight pct fee)) \<le> of_int perGram * weight \<and>
    pbNet (priceBreakdown b perGram weight pct fee) \<le> pbNet (priceBreakdown b' perGram' weight' pct fee)"
proof -
  define g where "g = \<lfloor>of_int perGram * weight\<rfloor>"
  define g' where "g' = \<lfloor>of_int perGram' * weight'\<rfloor>"
  define d where "d x = \<lfloor>of_int x * pct / 100\<rfloor>" for x :: int
  have g0: "0 \<le> g" unfolding g_def using assms(1,2) by simp
  have "of_int perGram * weight \<le> of_int perGram' * weight'"
    using assms by (intro mult_mono) simp_all
  then have gg: "g \<le> g'" unfolding g_def g'_def by (rule floor_mono)
  have d0: "0 \<le> d g" unfolding d_def using g0 assms(3) by simp
  have dd: "g - d g \<le> g' - d g'"
  proof -
    have "(of_int g' - of_int g) * pct / 100 \<le> (of_int g' - of_int g :: rat)"
      using gg assms(4) mult_left_mono [of pct 100 "of_int g' - of_int g"] by simp
    then have "of_int g' * pct / 100 \<le> of_int g * pct / 100 + of_int (g' - g)"
      by (simp add: left_diff_distrib diff_divide_distrib)
    then have "\<lfloor>of_int g' * pct / 100\<rfloor> \<le> \<lfloor>of_int g * pct / 100 + of_int (g' - g)\<rfloor>" by (rule floor_mono)
    then show ?thesis unfolding d_def by simp
  qed
  define n where "n x = \<lfloor>(of_int x - fee) / 1000\<rfloor> * 1000" for x :: int
  have le: "n x \<le> x" for x
  proof -
    have "of_int \<lfloor>(of_int x - fee) / 1000\<rfloor> * 1000 \<le> of_int x - fee"
      using mult_right_mono [OF of_int_floor_le [of "(of_int x - fee) / 1000"], of 1000] by simp
    then have "of_int (n x) \<le> (of_int x :: rat)" unfolding n_def using assms(5) by simp
    then show ?thesis by simp
  qed
  have mono: "n x \<le> n y" if "x \<le> y" for x y
    unfolding n_def using that by (intro mult_right_mono floor_mono divide_right_mono) simp_all
  have net: "pbNet (priceBreakdown b perGram weight pct fee) = max (n (g - d g)) 0"
    "pbNet (priceBreakdown b' perGram' weight' pct fee) = max (n (g' - d g')) 0"
    "pbGross (priceBreakdown b perGram weight pct fee) = g"
    by (simp_all add: priceBreakdown_def Let_def n_def d_def g_def g'_def)
  have "1000 dvd max (n (g - d g)) 0" by (simp add: max_def n_def)
  moreover have "max (n (g - d g)) 0 \<le> g" using le [of "g - d g"] d0 g0 by simp
  moreover have "of_int g \<le> of_int perGram * weight" by (simp add: g_def)
  ultimately show ?thesis unfolding net using mono [OF dd] by simp
qed

lemma buyback_price_bounds_witness:
  "pbNet (priceBreakdown KARAT 100000000 (1/2) 2 50000) = 48950000 \<and>
   pbNet (priceBreakdown KARAT 100000000 (1/2) 2 50000) \<le> pbNet (priceBreakdown KARAT 100000000 1 2 50000)"
proof
  show "pbNet (priceBreakdown KARAT 100000000 (1/2) 2 50000) = 48950000" by code_simp
  show "pbNet (priceBreakdown KARAT 100000000 (1/2) 2 50000) \<le> pbNet (priceBreakdown KARAT 100000000 1 2 50000)"
    using buyback_price_bounds [of 100000000 "1/2" 2 50000 100000000 1 KARAT KARAT] by simp
qed

subsection \<open>A request and its cancellation\<close>

lemma code_back:
  assumes "distinct (map hcId cs)" "find (\<lambda>c. hcId c = i) cs = Some c" "hcStatus c = HC_ASSIGNED"
  shows "update_where (\<lambda>x. hcId x = i \<and> hcStatus x = HC_BUYBACK_PENDING) (\<lambda>x. x\<lparr>hcStatus := HC_ASSIGNED\<rparr>)
    (update_where (\<lambda>x. hcId x = i) (\<lambda>x. x\<lparr>hcStatus := HC_BUYBACK_PENDING\<rparr>) cs) = cs"
  using assms(1,2)
proof (induction cs)
  case (Cons x cs)
  show ?case
  proof (cases "hcId x = i")
    case True
    then have "x = c" using Cons.prems by simp
    moreover have "update_where (\<lambda>x. hcId x = i \<and> hcStatus x = HC_BUYBACK_PENDING) (\<lambda>x. x\<lparr>hcStatus := HC_ASSIGNED\<rparr>)
        (update_where (\<lambda>x. hcId x = i) (\<lambda>x. x\<lparr>hcStatus := HC_BUYBACK_PENDING\<rparr>) cs) = cs"
    proof -
      have "\<forall>y \<in> set cs. hcId y \<noteq> i" using Cons.prems(1) True by simp (metis imageI)
      then show ?thesis by (simp add: update_where_none)
    qed
    ultimately show ?thesis using True assms(3) by simp
  qed (use Cons in simp)
qed simp

text \<open>C17: Taking a request back undoes it. Whatever request the code accepts, its owner can cancel it while it waits, and then
all codes, owners, transfers, reports, wallets and accounts are exactly what they were; only the cancelled request and the two
events stay.\<close>

theorem sell_then_cancel:
  assumes "vault_ok s" "createBuyback prec s t cur u dto = Inr (s1, r)"
  shows "\<exists>s2. bbCancelByUser s1 t' u (bbId r) reason = Inr s2 \<and> codes s2 = codes s \<and> ownerships s2 = ownerships s \<and>
    transfers s2 = transfers s \<and> incidents s2 = incidents s \<and> wallets s2 = wallets s \<and> accounts s2 = accounts s \<and>
    map bbId (buybacks s2) = map bbId (buybacks s) @ [bbId r] \<and>
    map_option bbStatus (buybackById s2 (bbId r)) = Some BB_CANCELLED"
proof -
  from createBuyback_Inr [OF assms(2)] obtain national weight p and estimate :: price_breakdown where
    k: "createChecks s t u national (crCode dto) = Inr p"
    and w: "(s1, r) = createWrites s u dto (pbNet estimate) weight p" by metis
  obtain c x a where p: "p = (c, x, a)" by (cases p)
  note ck = createChecks_Inr [OF k [unfolded p]]
  obtain sq number where sq: "sequenceNext s ''BBK'' = (sq, number)" by (cases "sequenceNext s ''BBK''")
  then have sf: "codes sq = codes s" "ownerships sq = ownerships s" "transfers sq = transfers s" "incidents sq = incidents s"
    "wallets sq = wallets s" "accounts sq = accounts s" "buybacks sq = buybacks s" "nextId sq = nextId s"
    by (auto simp: sequenceNext_def Let_def)
  have r: "bbId r = nextId s" "bbUser r = u" "bbCode r = hcId c" "bbStatus r = BB_SUBMITTED"
    and s1: "s1 = bbEvent (setCode (sq\<lparr>nextId := nextId s + 1, buybacks := buybacks s @ [r]\<rparr>) (hcId c)
        (\<lambda>c. c\<lparr>hcStatus := HC_BUYBACK_PENDING\<rparr>)) (bbId r) None BB_SUBMITTED (BB_USER u)"
    using w by (simp_all add: createWrites_def p sq Let_def newBuyback_def sf)
  have fresh: "\<forall>y \<in> set (buybacks s). bbId y \<noteq> nextId s"
    using vault_okD(2) [OF assms(1)] by (auto simp: sales_ok_def)
  have b: "buybacks s1 = buybacks s @ [r]" by (simp add: s1 bbEvent_def setCode_def)
  have none: "find (\<lambda>y. bbId y = nextId s) (buybacks s) = None" using fresh by (simp add: find_None_iff)
  have f: "find (\<lambda>y. bbId y = nextId s) (buybacks s @ [r]) = Some r"
    using none r(1) by (simp add: find_append)
  let ?g = "\<lambda>r. r\<lparr>bbStatus := BB_CANCELLED, bbCancelledAt := Some t', bbReason := reason\<rparr>"
  have l: "lockRequest s1 (bbId r) [BB_SUBMITTED, BB_AWAITING_DELIVERY] (Some u) = Inr r"
    using f r by (simp add: lockRequest_def buybackById_def b)
  define s2 where "s2 = bbEvent (releaseCode (setBuyback s1 (bbId r) ?g) (hcId c)) (bbId r) (Some BB_SUBMITTED)
     BB_CANCELLED (BB_USER u)"
  have "bbCancelByUser s1 t' u (bbId r) reason = Inr s2"
    using l r by (simp add: bbCancelByUser_def Let_def s2_def)
  moreover have bs: "buybacks s2 = buybacks s @ [?g r]"
  proof -
    have "update_where (\<lambda>y. bbId y = nextId s) ?g (buybacks s) = buybacks s" using fresh by (simp add: update_where_none)
    moreover have "update_where (\<lambda>y. bbId y = nextId s) ?g (buybacks s @ [r]) =
        update_where (\<lambda>y. bbId y = nextId s) ?g (buybacks s) @ [?g r]"
      using r(1) by (simp add: update_where_def)
    ultimately show ?thesis using r(1) by (simp add: s2_def setBuyback_def b)
  qed
  moreover have "codes s2 = codes s"
  proof -
    have "distinct (map hcId (codes s))" using vault_okD(1) [OF assms(1)] by (simp add: bars_ok_def keys_ok_def)
    moreover have "find (\<lambda>c. hcId c = hcId c0) (codes s) = Some c" if "c0 = c" for c0
      using ck(1,7) that by (simp add: codeById_def)
    ultimately show ?thesis using code_back [of "codes s" "hcId c" c] ck(2)
      by (simp add: s2_def releaseCode_def bbEvent_def setBuyback_def s1 setCode_def sf)
  qed
  moreover have "ownerships s2 = ownerships s" "transfers s2 = transfers s" "incidents s2 = incidents s"
    "wallets s2 = wallets s" "accounts s2 = accounts s"
    by (simp_all add: s2_def releaseCode_def bbEvent_def setBuyback_def s1 setCode_def sf)
  moreover have "map_option bbStatus (buybackById s2 (bbId r)) = Some BB_CANCELLED"
    using none r(1) by (simp add: buybackById_def bs find_append)
  ultimately show ?thesis by simp
qed

lemma demo_sale: obtains s1 r where "createBuyback id demoVault 1000 (Some 100000000) 11 demoSale = Inr (s1, r)"
proof -
  have "(case createBuyback id demoVault 1000 (Some 100000000) 11 demoSale of Inl e \<Rightarrow> False | Inr p \<Rightarrow> True)" by code_simp
  then show thesis using that by (auto split: sum.splits)
qed

lemma sell_then_cancel_witness:
  "\<exists>s1 r s2. createBuyback id demoVault 1000 (Some 100000000) 11 demoSale = Inr (s1, r) \<and>
     bbCancelByUser s1 2000 11 (bbId r) None = Inr s2 \<and> codes s2 = codes demoVault"
  by (rule demo_sale) (use sell_then_cancel [OF demoVault_ok] in blast)

end
