(* ===== verification/BarChecks.thy ===== *)
theory BarChecks
  imports SaleProps
begin

section \<open>Refusals, promises and inquiries\<close>

text \<open>
  What the overview promises against what a request needs, the refusals for a reported bar, the guard
  against guessing, new codes, and the behaviours that the comments of the code deny.
\<close>

subsection \<open>The overview and the request\<close>

lemma openCodes_length:
  assumes "vault_ok s" "length (filter (\<lambda>r. bbUser r = u) (buybacks s)) \<le> 100"
  shows "length (openCodes s u) = length (openOf s u)"
    and "i \<in> set (openCodes s u) \<Longrightarrow> statusOf s i = Some HC_BUYBACK_PENDING"
proof -
  have so: "sales_ok s" by (rule vault_okD [OF assms(1)])
  have l: "listMine s u = rev (filter (\<lambda>r. bbUser r = u) (buybacks s))"
    using assms(2) by (simp add: listMine_def)
  have f: "filter openSale (listMine s u) = rev (openOf s u)"
    by (simp add: l openOf_def rev_filter conj_commute)
  have "openOf s u = filter (\<lambda>r. bbUser r = u) (filter openSale (buybacks s))"
    by (simp add: openOf_def conj_commute)
  moreover have "distinct (map bbCode (filter openSale (buybacks s)))" using so by (simp add: sales_ok_def)
  ultimately have "distinct (map bbCode (openOf s u))" by (simp only: distinct_map_filter)
  then have "openCodes s u = map bbCode (rev (openOf s u))"
    unfolding openCodes_def f by (simp add: rev_map [symmetric] distinct_remdups_id)
  then show "length (openCodes s u) = length (openOf s u)"
    and "i \<in> set (openCodes s u) \<Longrightarrow> statusOf s i = Some HC_BUYBACK_PENDING"
    using so by (auto simp: openOf_def sales_ok_def)
qed

text \<open>Where the overview and the request look at the same things, they agree. Take the owner of a bar who has a
national code on file and made at most a hundred requests (the overview reads only the last hundred), and a bar that can be
priced now: the overview shows neither a general obstacle nor one of the bar exactly when a request to sell
it, handed over in person, is accepted. Without one of these conditions the overview can show no obstacle and the request is refused all
the same: for a user without a national code, a bar without a price, or a delivery by post that is not offered.\<close>

theorem eligible_bar_accepted:
  assumes "vault_ok s" "length (filter (\<lambda>r. bbUser r = u) (buybacks s)) \<le> 100"
    and "codeById s (crCode dto) = Some c" "activeOwner s (crCode dto) = Some w" "owUser w = u"
    and "identityOf s u = Some x" "idNational x = Some n" "n \<noteq> []"
    and "estimateOf prec s cur c = Some e" "crDelivery dto = IN_PERSON"
  shows "(\<exists>p. createBuyback prec s t cur u dto = Inr p) \<longleftrightarrow>
    overviewBlockers s u = [] \<and> saleObstacles s t u c w = []"
proof -
  have i: "hcId c = crCode dto" using find_SomeD [OF assms(3) [unfolded codeById_def]] by simp
  obtain weight where w: "hcWeight c = Some weight"
    and pr: "computePrice prec s cur \<lparr>pqWeight = weight, pqPurity = hcPurity c, pqFineness = None, pqPerGram = None,
              pqPercent = None, pqFee = None\<rparr> = Inr e"
    using assms(9) by (auto simp: estimateOf_def split: option.splits sum.splits)
  have open_bar: "hcStatus c = HC_ASSIGNED \<Longrightarrow> hcId c \<notin> set (openCodes s u)"
    using openCodes_length(2) [OF assms(1,2), of "hcId c"] assms(3) i by (auto simp: statusOf_def)
  note len = openCodes_length(1) [OF assms(1,2)]
  have over: "overviewBlockers s u = [] \<and> saleObstacles s t u c w = [] \<longleftrightarrow>
      bcEnabled (buybackConfig s) \<and> idStatus x = ID_VERIFIED \<and> defaultBankAccount s u \<noteq> None \<and>
      \<not> bcMaxOpen (buybackConfig s) \<le> of_nat (length (openOf s u)) \<and> hcStatus c = HC_ASSIGNED \<and>
      reportsOf s (crCode dto) = 0 \<and>
      \<not> (0 < bcHoldingDays (buybackConfig s) \<and> t < holdingAllowedAt (buybackConfig s) w) \<and> n = owNational w"
    using open_bar assms(6,7,8) w i len noIncident [of s "crCode dto"]
    by (auto simp: overviewBlockers_def saleObstacles_def Let_def simp del: noIncident split: if_splits)
  have check: "(\<exists>p. createChecks s t u n (crCode dto) = Inr p) \<longleftrightarrow>
      owNational w = n \<and> hcStatus c = HC_ASSIGNED \<and> reportsOf s (crCode dto) = 0 \<and>
      \<not> (0 < bcHoldingDays (buybackConfig s) \<and> t < holdingAllowedAt (buybackConfig s) w) \<and>
      \<not> bcMaxOpen (buybackConfig s) \<le> of_nat (length (openOf s u)) \<and> defaultBankAccount s u \<noteq> None"
    (is "?l \<longleftrightarrow> ?r")
  proof
    assume ?l
    then obtain c' w' a where k: "createChecks s t u n (crCode dto) = Inr (c', w', a)" by auto
    from createChecks_Inr [OF k] assms(3,4) show ?r by auto
  next
    assume r: ?r
    then obtain a where "defaultBankAccount s u = Some a" by auto
    moreover have "assertNoActiveIncident s (crCode dto) = Inr ()" using r by simp
    ultimately show ?l using r assms(3-5) by (auto simp: createChecks_def Let_def)
  qed
  have create: "(\<exists>p. createBuyback prec s t cur u dto = Inr p) \<longleftrightarrow>
      bcEnabled (buybackConfig s) \<and> idStatus x = ID_VERIFIED \<and> (\<exists>p. createChecks s t u n (crCode dto) = Inr p)"
    using assms(3,6,7,8,10) w pr
    by (auto simp: createBuyback_def Let_def verifiedNational_def split: sum.splits)
  show ?thesis unfolding create check over by blast
qed

lemma eligible_bar_accepted_witness:
  "overviewBlockers demoVault 11 = [] \<and> saleObstacles demoVault 1000 11 demoBar demoOwner = []"
proof -
  have c: "codeById demoVault (crCode demoSale) = Some demoBar" "activeOwner demoVault (crCode demoSale) = Some demoOwner"
    "owUser demoOwner = 11" "length (filter (\<lambda>r. bbUser r = 11) (buybacks demoVault)) \<le> 100" by code_simp+
  have x: "identityOf demoVault 11 = Some \<lparr>idUser = 11, idStatus = ID_VERIFIED, idFirst = Some [65], idLast = Some [66],
                     idNational = Some ''0012345679''\<rparr>" by code_simp
  obtain e where e: "estimateOf id demoVault (Some 100000000) demoBar = Some e"
  proof -
    have "estimateOf id demoVault (Some 100000000) demoBar \<noteq> None" by code_simp
    then show thesis using that by blast
  qed
  obtain s1 r where s: "createBuyback id demoVault 1000 (Some 100000000) 11 demoSale = Inr (s1, r)" by (rule demo_sale)
  have p: "crDelivery demoSale = IN_PERSON" by code_simp
  from eligible_bar_accepted [OF demoVault_ok c(4) c(1,2,3) x _ _ e p, of "''0012345679''" 1000] s
  show ?thesis by auto
qed

subsection \<open>A reported bar\<close>

text \<open>C27: A bar reported stolen or lost stays where it is. While a report is active the bar can be neither given away nor
taken over by a pending transfer, neither assigned to a buyer nor offered for sale, and no sale of it is
paid out.\<close>

theorem reported_bar_blocked:
  assumes "bars_ok s" "codeById s i = Some c" "0 < reportsOf s i"
  shows "(\<nexists>p. initiateByUserInternal s t u i phone = Inr p) \<and>
    (\<nexists>p. assignCode s t admin (hcCode c) dto = Inr p) \<and>
    (\<nexists>p. createBuyback prec s t cur u \<lparr>crCode = i, crDelivery = way\<rparr> = Inr p) \<and>
    (case transferById s k of None \<Rightarrow> True | Some r \<Rightarrow>
       if trCode r = i \<and> trStatus r = RQ_PENDING then \<nexists>p. confirmWrites s t u k cf a = Inr p else True) \<and>
    (case buybackById s m of None \<Rightarrow> True | Some r \<Rightarrow>
       if bbCode r = i then \<nexists>s'. payBuyback s t admin m pay_dto = Inr s' else True)"
proof (intro conjI)
  have no: "assertNoActiveIncident s i \<noteq> Inr ()" using assms(3) by simp
  then obtain e where e: "assertNoActiveIncident s i = Inl e" by (cases "assertNoActiveIncident s i") auto
  have i: "hcId c = i" "c \<in> set (codes s)" using find_SomeD [OF assms(2) [unfolded codeById_def]] by simp_all
  show "\<nexists>p. initiateByUserInternal s t u i phone = Inr p"
    using e assms(2) by (auto simp: initiateByUserInternal_def Let_def)
  have "codeByText s (hcCode c) = Some c"
    unfolding codeByText_def using bars_okD(1) [OF assms(1)] i(2) unfolding keys_ok_def by (intro find_unique) simp_all
  then show "\<nexists>p. assignCode s t admin (hcCode c) dto = Inr p"
    using e i by (auto simp: assignCode_def Let_def)
  show "\<nexists>p. createBuyback prec s t cur u \<lparr>crCode = i, crDelivery = way\<rparr> = Inr p"
  proof
    assume "\<exists>p. createBuyback prec s t cur u \<lparr>crCode = i, crDelivery = way\<rparr> = Inr p"
    then obtain s' r where "createBuyback prec s t cur u \<lparr>crCode = i, crDelivery = way\<rparr> = Inr (s', r)" by auto
    from createBuyback_Inr [OF this] obtain national q where "createChecks s t u national i = Inr q"
      by (metis create_input.select_convs(1))
    moreover obtain c' w' a' where "q = (c', w', a')" by (cases q)
    ultimately show False using createChecks_Inr(3) assms(3) by (metis less_numeral_extra(3))
  qed
  show "case transferById s k of None \<Rightarrow> True | Some r \<Rightarrow>
       if trCode r = i \<and> trStatus r = RQ_PENDING then \<nexists>p. confirmWrites s t u k cf a = Inr p else True"
    using e by (auto simp: confirmWrites_def split: option.split)
  show "case buybackById s m of None \<Rightarrow> True | Some r \<Rightarrow>
       if bbCode r = i then \<nexists>s'. payBuyback s t admin m pay_dto = Inr s' else True"
  proof (cases "buybackById s m")
    case (Some r)
    have "False" if "bbCode r = i" "payBuyback s t admin m pay_dto = Inr s'" for s'
    proof -
      from payBuyback_Inr [OF that(2)] obtain r' and c' :: bar_code where "payBuybackChecks s admin m = Inr (r', c')" by metis
      from payBuybackChecks_Inr [OF this] have "lockRequest s m [BB_APPROVED] None = Inr r'" "reportsOf s (bbCode r') = 0"
        by metis+
      with lockRequest_Inr(1) [OF this(1)] Some that(1) assms(3) show False by simp
    qed
    then show ?thesis using Some by auto
  qed simp
qed

text \<open>The demo registry after the owner of bar 50 reported its theft.\<close>

definition reportedVault :: vault where
  "reportedVault = demoVault\<lparr>nextId := 101,
     incidents := [newIncident 100 ''AG-1404-HIR-000001'' 50 1000 THEFT IN_OPEN (Some 11) None (Some demoOwner) ([65], None)]\<rparr>"

lemma reportedVault_ok: "bars_ok reportedVault"
proof -
  have "okView (barView reportedVault i)" for i
    by (simp add: reportedVault_def newIncident_def activeIncident_def ACTIVE_INCIDENT_STATUSES_def demoVault_def
        demoBar_def demoOwner_def newCode_def newOwnership_def barView_def statusOf_def
        ownersOf_def pendingTypes_def reportsOf_def codeById_def okView.simps)
  moreover have "keys_ok reportedVault"
    by (simp add: reportedVault_def newIncident_def demoVault_def demoBar_def demoOwner_def newCode_def newOwnership_def
        keys_ok_def)
  ultimately show ?thesis by (simp add: bars_ok_def)
qed

lemma reported_bar_blocked_witness:
  "\<nexists>p. createBuyback id reportedVault 2000 (Some 100000000) 11 \<lparr>crCode = 50, crDelivery = IN_PERSON\<rparr> = Inr p"
proof -
  have b: "codeById reportedVault 50 = Some demoBar" "0 < reportsOf reportedVault 50" by code_simp+
  show ?thesis
    by (rule conjunct1 [OF conjunct2 [OF conjunct2 [OF reported_bar_blocked [OF reportedVault_ok b]]]])
qed

subsection \<open>Guessing codes\<close>

text \<open>C26: Codes cannot be guessed by asking. Take any steps of any inquiries, of whatever addresses and interleaved
in any way, with the registry changing in between, within a span no longer than the window in which failures
are counted and than the time of a block, while the settings stay as they are and nobody lifts a block. An address
whose failures have not been counted yet and which has nothing in flight at first gets fewer wrong answers
than the limit plus the number of inquiries it has in flight at once; inquiries of staff are not counted. Asked
one after the other, that is the limit itself. Once it has got as many wrong answers as the limit, every further inquiry
of that address is refused, one about a genuine code too.\<close>

theorem guesses_bounded:
  assumes "invalidCounts g ip = None" and "inFlight ip fs = 0"
    and "\<And>s t x. (s, t, x) \<in> set qs \<Longrightarrow> getSettings s = st \<and> t0 \<le> t \<and> t < e"
    and "e \<le> t0 + minutes_ms (gsWindow st)" "e \<le> t0 + minutes_ms (gsDuration st)"
  shows "wrongAnswers ip (snd (inquire (g, fs) qs)) < guessLimit st + atOnce ip (g, fs) qs \<and>
    (atOnce ip (g, fs) qs \<le> 1 \<longrightarrow> wrongAnswers ip (snd (inquire (g, fs) qs)) \<le> guessLimit st) \<and>
    (guessLimit st \<le> wrongAnswers ip (snd (inquire (g, fs) qs)) \<and> t < e \<and> vcIp ctx = ip \<and> vcAdmin ctx = None \<longrightarrow>
       inquiry_step (fst (inquire (g, fs) qs)) (s, t, Arrive x ctx) =
         (fst (inquire (g, fs) qs), Some (ctx, Inl (Forbidden ''the address is blocked''))))"
proof -
  define k where "k = wrongAnswers ip (snd (inquire (g, fs) qs))"
  obtain g' fs' where d: "fst (inquire (g, fs) qs) = (g', fs')" by fastforce
  have "guessed st ip e (atOnce ip (g, fs) qs) 0 (fst (g, fs)) (inFlight ip (snd (g, fs)))"
    using assms(1) by (simp add: guessed_def guessLimit_def less_max_iff_disj)
  from inquire_guessed [OF this order_refl assms(3-5)]
  have gd: "guessed st ip e (atOnce ip (g, fs) qs) k g' (inFlight ip fs')" by (simp add: k_def d)
  have b: "ipBlocked g' t ip" if "guessLimit st \<le> k" "t < e"
    using gd that by (auto simp: guessed_def blockedTill_def ipBlocked_def split: option.splits)
  have "inquiry_step (g', fs') (s, t, Arrive x ctx) = ((g', fs'), Some (ctx, Inl (Forbidden ''the address is blocked'')))"
    if "guessLimit st \<le> k" "t < e" "vcIp ctx = ip" "vcAdmin ctx = None"
    using b [OF that(1,2)] that(3,4) by (simp add: assertAllowed_def)
  moreover have "k < guessLimit st + atOnce ip (g, fs) qs" using gd by (auto simp: guessed_def)
  ultimately show ?thesis unfolding k_def [symmetric] d by auto
qed

definition quietGuard :: guard where
  "quietGuard = \<lparr>rateCounts = (\<lambda>_. None), invalidCounts = (\<lambda>_. None), blockCache = (\<lambda>_. None), ipBlocks = [],
     inquiries = []\<rparr>"

text \<open>
  Four wrong guesses of one address, one after the other, and a minute later five more whose checks all come
  before the first of their answers. The limit is five.
\<close>

definition demoGuesses :: "(vault \<times> int \<times> inquiry_op) list" where
  "demoGuesses =
     concat (map (\<lambda>t. map (\<lambda>x. (demoVault, t, x)) [Arrive ''11111111'' (publicContext ''a''), Look 0, Count 0])
       [0, 15000, 30000, 45000]) @
     map (\<lambda>x. (demoVault, 60001, x))
       (replicate 5 (Arrive ''11111111'' (publicContext ''a'')) @ map Look [0, 1, 2, 3, 4] @ replicate 5 (Count 0))"

lemma demoGuesses_count:
  "atOnce ''a'' (quietGuard, []) demoGuesses = 5"
  "wrongAnswers ''a'' (snd (inquire (quietGuard, []) demoGuesses)) = 9"
  by code_simp+

lemma demoSettings: "getSettings demoVault = \<lparr>gsRate = 5, gsThreshold = 5, gsWindow = 60, gsDuration = 1440\<rparr>"
  by (simp add: getSettings_def getNumber_def demoVault_def)

lemma guesses_bounded_witness:
  "inquiry_step (fst (inquire (quietGuard, []) demoGuesses)) (demoVault, 120002, Arrive ''12345674'' (publicContext ''a'')) =
     (fst (inquire (quietGuard, []) demoGuesses), Some (publicContext ''a'', Inl (Forbidden ''the address is blocked'')))"
proof -
  have a: "invalidCounts quietGuard ''a'' = None" "inFlight ''a'' [] = 0" by (simp_all add: quietGuard_def inFlight_def)
  have q: "getSettings s = getSettings demoVault \<and> 0 \<le> t \<and> t < 3600000"
    if "(s, t, x) \<in> set demoGuesses" for s t x
    using that by (auto simp: demoGuesses_def)
  have w: "3600000 \<le> 0 + minutes_ms (gsWindow (getSettings demoVault))"
    "3600000 \<le> 0 + minutes_ms (gsDuration (getSettings demoVault))" unfolding demoSettings by code_simp+
  have v: "vcIp (publicContext ''a'') = ''a''" "vcAdmin (publicContext ''a'') = None" by (simp_all add: publicContext_def)
  have m: "guessLimit (getSettings demoVault) = 5" unfolding demoSettings by (simp add: guessLimit_def)
  have t: "(120002 :: int) < 3600000" by simp
  from guesses_bounded [OF a q w, where t = 120002 and ctx = "publicContext ''a''" and s = demoVault and x = "''12345674''"]
    demoGuesses_count m v t
  show ?thesis by simp
qed

text \<open>
  The bound is reached: inquiries that are in flight when the limit is reached are still answered, so an
  address that asks in parallel gets nine wrong answers where the settings allow five.
\<close>

theorem parallel_guesses_overshoot:
  "guessLimit (getSettings demoVault) = 5 \<and> wrongAnswers ''a'' (snd (inquire (quietGuard, []) demoGuesses)) = 9"
  using demoGuesses_count(2) by (simp add: demoSettings guessLimit_def)

subsection \<open>Where the code and its comments part\<close>

lemma revoked_row:
  assumes "codeByText s x = Some c" "keys_ok s" "revokeCode s t a x reason = Inr (s', False)"
  shows "\<exists>c'. codeByText s' x = Some c' \<and> hcId c' = hcId c \<and> hcStatus c' = HC_REVOKED"
    "ownerships s' = ownerships s"
proof -
  define g :: "bar_code \<Rightarrow> bar_code" where "g = (\<lambda>c. c\<lparr>hcStatus := HC_REVOKED, hcRevokedBy := Some a, hcRevokedAt := Some t, hcReason := reason\<rparr>)"
  define s1 where "s1 = (if hcStatus c = HC_TRANSFER_PENDING then cancelPendingForCode s (hcId c) BY_REVOCATION else s)"
  have s': "s' = setCode s1 (hcId c) g" using assms(1,3)
    by (auto simp: revokeCode_def Let_def s1_def g_def split: if_splits)
  have s1: "codes s1 = codes s" "ownerships s1 = ownerships s" by (simp_all add: s1_def cancelPendingForCode_def)
  show "ownerships s' = ownerships s" by (simp add: s' s1 setCode_def)
  have "find (\<lambda>c. hcCode c = x) (update_where (\<lambda>d. hcId d = hcId c) g (codes s)) = Some (g c)"
    by (rule find_update_hit) (use assms(1) in \<open>simp_all add: codeByText_def g_def\<close>)
  then have "codeByText s' x = Some (g c)" by (simp add: codeByText_def s' setCode_def s1)
  then show "\<exists>c'. codeByText s' x = Some c' \<and> hcId c' = hcId c \<and> hcStatus c' = HC_REVOKED" by (simp add: g_def)
qed

text \<open>C34: Revoking a code does not reach those who ask. After a revocation everybody who asks about the code gets the
same status as before, which is never that of an unknown code, so a misprinted code is still confirmed as genuine.\<close>

theorem revoked_code_confirmed:
  assumes "bars_ok s" "codeByText s x = Some c" "isValidHologramCodeFormat x"
    and "revokeCode s t a x reason = Inr (s', False)"
  shows "vrStatus (fst (verifyAnswer s' x ctx)) = vrStatus (fst (verifyAnswer s x ctx)) \<and>
    vrStatus (fst (verifyAnswer s' x ctx)) \<noteq> INVALID_CODE \<and> statusOf s' (hcId c) = Some HC_REVOKED"
proof -
  note k = bars_okD(1) [OF assms(1)]
  note r = revoked_row [OF assms(2) k assms(4)]
  obtain c' where c': "codeByText s' x = Some c'" "hcId c' = hcId c" "hcStatus c' = HC_REVOKED" using r(1) by blast
  have k': "keys_ok s'" using revokeCode_steps [OF assms(1,4)] by (simp add: bar_steps_def)
  have "activeOwner s' (hcId c) = activeOwner s (hcId c)" by (simp add: activeOwner_def r(2))
  then have "vrStatus (fst (verifyAnswer s' x ctx)) = (case activeOwner s (hcId c) of None \<Rightarrow> VALID_UNASSIGNED | Some w \<Rightarrow> VALID_ASSIGNED)"
    "vrStatus (fst (verifyAnswer s x ctx)) = (case activeOwner s (hcId c) of None \<Rightarrow> VALID_UNASSIGNED | Some w \<Rightarrow> VALID_ASSIGNED)"
    using c' assms(2,3) by (simp_all add: verifyAnswer_def Let_def split: option.split)
  moreover have "statusOf s' (hcId c) = Some HC_REVOKED"
    using codeByText_id(1) [OF k' c'(1)] c'(2,3) by (simp add: statusOf_def)
  ultimately show ?thesis by (simp split: option.split)
qed

lemma demo_revoked: obtains s' where "revokeCode demoVault 1000 1 ''23456783'' None = Inr (s', False)"
proof -
  have "(case revokeCode demoVault 1000 1 ''23456783'' None of Inl e \<Rightarrow> False | Inr (s', b) \<Rightarrow> \<not> b)" by code_simp
  then show thesis using that by (auto split: sum.splits)
qed

lemma revoked_code_confirmed_witness:
  "\<exists>s'. revokeCode demoVault 1000 1 ''23456783'' None = Inr (s', False) \<and>
     vrStatus (fst (verifyAnswer s' ''23456783'' (publicContext ''a''))) = VALID_UNASSIGNED"
proof (rule demo_revoked)
  fix s' assume r: "revokeCode demoVault 1000 1 ''23456783'' None = Inr (s', False)"
  have c: "codeByText demoVault ''23456783'' = Some (newCode 51 40 ''23456783'')" "isValidHologramCodeFormat ''23456783''"
    "vrStatus (fst (verifyAnswer demoVault ''23456783'' (publicContext ''a''))) = VALID_UNASSIGNED" by code_simp+
  from revoked_code_confirmed [OF vault_okD(1) [OF demoVault_ok] c(1,2) r, of "publicContext ''a''"] r c(3) show ?thesis by auto
qed

text \<open>C33: An answer can bind to a price never seen. The answer to an offer does not say which offer it answers, so when the staff
replace an offer by a lower one between the user's look and the user's answer, the answer accepts the lower offer.\<close>

theorem late_offer_accepted:
  assumes "buybackById s i = Some r" "bbStatus r = BB_OFFERED" "bbOffer r = Some old" "pbNet p < ofNet old"
    and "offerWrites s t admin i expires p = Inr s1" "t' < expires"
  shows "\<exists>s2 r'. respondToOffer s1 t' (bbUser r) i True = Inr s2 \<and> buybackById s2 i = Some r' \<and>
    bbStatus r' = BB_ACCEPTED \<and> netOf r' = pbNet p \<and> netOf r' < netOf r"
proof -
  let ?f = "\<lambda>r. r\<lparr>bbStatus := BB_OFFERED, bbOffer := Some (offerOf admin t expires p), bbAcceptedAt := None\<rparr>"
  let ?g = "\<lambda>r. r\<lparr>bbStatus := BB_ACCEPTED, bbAcceptedAt := Some t'\<rparr>"
  have s1: "buybacks s1 = update_where (\<lambda>x. bbId x = i) ?f (buybacks s)"
    using assms(5) by (auto simp: offerWrites_def setBuyback_def)
  have b1: "buybackById s1 i = Some (?f r)" unfolding buybackById_def s1
    by (rule find_update_hit) (use assms(1) find_SomeD [OF assms(1) [unfolded buybackById_def]] in \<open>simp_all add: buybackById_def\<close>)
  define s2 where "s2 = bbEvent (setBuyback s1 i ?g) i (Some BB_OFFERED) BB_ACCEPTED (BB_USER (bbUser r))"
  have "respondToOffer s1 t' (bbUser r) i True = Inr s2"
    using b1 assms(6) by (simp add: respondToOffer_def lockRequest_def s2_def offerOf_def)
  moreover have "find (\<lambda>r. bbId r = i) (update_where (\<lambda>r. bbId r = i) ?g (buybacks s1)) = Some (?g (?f r))"
    by (rule find_update_hit [where f = ?g])
      (use b1 find_SomeD [OF b1 [unfolded buybackById_def]] in \<open>simp_all add: buybackById_def\<close>)
  then have "buybackById s2 i = Some (?g (?f r))" by (simp add: buybackById_def s2_def bbEvent_def setBuyback_def)
  ultimately show ?thesis using assms(3,4) by (simp add: netOf_def offerOf_def)
qed

text \<open>The demo sale with an offer of 98000000 rial.\<close>

definition demoOffered :: vault where
  "demoOffered = run (vault_step id) demoVault (take 4 demoApprovedOps)"

definition offerFacts :: "vault \<Rightarrow> (buyback_status \<times> int option \<times> nat) option \<times> bool" where
  "offerFacts s =
     (map_option (\<lambda>r. (bbStatus r, map_option ofNet (bbOffer r), bbUser r)) (buybackById s 100),
      (case offerWrites s 4500 1 100 90000000 (priceBreakdown MANUAL 50000000 1 2 0) of Inl e \<Rightarrow> False | Inr s \<Rightarrow> True))"

lemma late_offer_accepted_witness:
  "\<exists>s1 s2 r'. offerWrites demoOffered 4500 1 100 90000000 (priceBreakdown MANUAL 50000000 1 2 0) = Inr s1 \<and>
     respondToOffer s1 5000 11 100 True = Inr s2 \<and> buybackById s2 100 = Some r' \<and> netOf r' = 49000000"
proof -
  have f: "offerFacts demoOffered = (Some (BB_OFFERED, Some 98000000, 11), True)" by code_simp
  then obtain r old where r: "buybackById demoOffered 100 = Some r" "bbStatus r = BB_OFFERED" "bbOffer r = Some old"
    "ofNet old = 98000000" "bbUser r = 11" by (auto simp: offerFacts_def map_option_eq_Some)
  have p: "pbNet (priceBreakdown MANUAL 50000000 1 2 0) = 49000000" by code_simp
  obtain s1 where s1: "offerWrites demoOffered 4500 1 100 90000000 (priceBreakdown MANUAL 50000000 1 2 0) = Inr s1"
    using f by (auto simp: offerFacts_def split: sum.splits)
  have "pbNet (priceBreakdown MANUAL 50000000 1 2 0) < ofNet old" "(5000 :: int) < 90000000" using p r(4) by simp_all
  from late_offer_accepted [OF r(1-3) this(1) s1 this(2)] show ?thesis using s1 r(5) p by auto
qed

text \<open>A revoked bar stays as it is, whatever the registry and the buyback do.\<close>

lemma revoked_final:
  assumes "(sup bar_move sale_move)\<^sup>*\<^sup>* v v'" and "bvStatus v = Some HC_REVOKED" and "bvPending v = []"
  shows "bvStatus v' = Some HC_REVOKED \<and> bvOwners v' = bvOwners v \<and> bvPending v' = []"
  using assms(1)
proof (induction rule: rtranclp_induct)
  case base
  then show ?case using assms(2,3) by simp
next
  case (step y z)
  have "bar_move y z \<Longrightarrow> bvStatus y = Some HC_REVOKED \<Longrightarrow> bvPending y = [] \<Longrightarrow>
      bvStatus z = Some HC_REVOKED \<and> bvOwners z = bvOwners y \<and> bvPending z = []"
    by (erule bar_move.cases) simp_all
  moreover have "sale_move y z \<Longrightarrow> bvStatus y = Some HC_REVOKED \<Longrightarrow> False"
    by (erule sale_move.cases) simp_all
  ultimately show ?case using step.hyps(2) step.IH by auto
qed

lemma revoked_refused:
  assumes "statusOf s i = Some HC_REVOKED"
  shows "\<nexists>p. initiateByUserInternal s t u i phone = Inr p"
    and "\<nexists>p. createBuyback prec s t cur u \<lparr>crCode = i, crDelivery = way\<rparr> = Inr p"
    and "codeByText s y = Some d \<Longrightarrow> hcId d = i \<Longrightarrow> keys_ok s \<Longrightarrow> \<nexists>p. assignCode s t a y dto = Inr p"
proof -
  show "\<nexists>p. initiateByUserInternal s t u i phone = Inr p"
    using assms by (auto simp: statusOf_def initiateByUserInternal_def Let_def)
  show "\<nexists>p. createBuyback prec s t cur u \<lparr>crCode = i, crDelivery = way\<rparr> = Inr p"
  proof
    assume "\<exists>p. createBuyback prec s t cur u \<lparr>crCode = i, crDelivery = way\<rparr> = Inr p"
    then obtain s' r where "createBuyback prec s t cur u \<lparr>crCode = i, crDelivery = way\<rparr> = Inr (s', r)" by auto
    from createBuyback_Inr [OF this] obtain national q where "createChecks s t u national i = Inr q"
      by (metis create_input.select_convs(1))
    then show False using assms by (auto simp: createChecks_def statusOf_def Let_def)
  qed
  show "\<nexists>p. assignCode s t a y dto = Inr p" if "codeByText s y = Some d" "hcId d = i" "keys_ok s"
    using codeByText_id(1) [OF that(3,1)] that(1,2) assms by (auto simp: assignCode_def statusOf_def Let_def)
qed

text \<open>C35: A bar with an owner can be revoked, for good. While its owner gives it away, an administrator may revoke the
code: the call that refuses an assigned code with an active owner accepts it then, and the transfer is cancelled.
Whatever calls of the registry and of the buyback follow, the code stays revoked, the owner stays the one owner on
record, no transfer of the bar is ever pending again, and no owner can give it away, nobody can sell it back to the house, and
no staff can assign it.\<close>

theorem owned_bar_revoked:
  fixes s :: "'a vault_scheme"
  assumes "vault_ok s" "codeByText s x = Some c" "hcStatus c = HC_TRANSFER_PENDING" "ownersOf s (hcId c) = [u]"
  shows "\<exists>s'. revokeCode s t a x reason = Inr (s', False) \<and>
    (let later = run (vault_step prec) s' ops in
     statusOf later (hcId c) = Some HC_REVOKED \<and> ownersOf later (hcId c) = [u] \<and> pendingTypes later (hcId c) = [] \<and>
     (\<forall>t v phone. \<nexists>p. initiateByUserInternal later t v (hcId c) phone = Inr p) \<and>
     (\<forall>t cur v way. \<nexists>p. createBuyback prec later t cur v \<lparr>crCode = hcId c, crDelivery = way\<rparr> = Inr p) \<and>
     (\<forall>t a y d dto. codeByText later y = Some d \<and> hcId d = hcId c \<longrightarrow> (\<nexists>p. assignCode later t a y dto = Inr p)))"
proof -
  obtain s' where r: "revokeCode s t a x reason = Inr (s', False)"
    and s': "s' = setCode (cancelPendingForCode s (hcId c) BY_REVOCATION) (hcId c)
      (\<lambda>c. c\<lparr>hcStatus := HC_REVOKED, hcRevokedBy := Some a, hcRevokedAt := Some t, hcReason := reason\<rparr>)"
    using assms(2,3) by (simp add: revokeCode_def)
  have "codeById s (hcId c) = Some c" by (rule codeByText_id(1) [OF bars_okD(1) [OF vault_okD(1) [OF assms(1)]] assms(2)])
  then have v: "barView s' (hcId c) = view HC_REVOKED [u] [] (reportsOf s' (hcId c))"
    using assms(4) by (simp add: barView_def s' bar_view)
  have "vault_step prec s (t, RevokeBar a x reason) = Inr s'" using r by auto
  then have ok: "vault_ok s'" by (rule vault_run.step_inv [OF assms(1)])
  define later where "later = run (vault_step prec) s' ops"
  have "(sup bar_move sale_move)\<^sup>*\<^sup>* (barView s' (hcId c)) (barView later (hcId c))"
    using vault_life.run_later [OF ok, of prec ops] by (simp add: vaultHistory_def later_def)
  from revoked_final [OF this] have l: "statusOf later (hcId c) = Some HC_REVOKED"
    "ownersOf later (hcId c) = [u]" "pendingTypes later (hcId c) = []" by (simp_all add: v) (simp_all add: barView_def)
  have "keys_ok later" unfolding later_def by (rule bars_okD(1) [OF vault_okD(1) [OF vault_run.run_inv [OF ok]]])
  then have no: "codeByText later y = Some d \<and> hcId d = hcId c \<longrightarrow> (\<nexists>p. assignCode later t a y dto = Inr p)" for t a y d dto
    using revoked_refused(3) [OF l(1)] by blast
  show ?thesis unfolding Let_def
    by (intro exI [where x = s'] conjI allI, fold later_def) (rule r l revoked_refused(1,2) [OF l(1)] no)+
qed

definition givenVault :: vault where
  "givenVault = run (vault_step id) demoVault [(1000, GiveBar 11 50 ''09121111111'' [])]"

definition givenFacts :: "vault \<Rightarrow> (code_status \<times> nat) option \<times> nat list" where
  "givenFacts s = (map_option (\<lambda>c. (hcStatus c, hcId c)) (codeByText s ''12345674''), ownersOf s 50)"

lemma owned_bar_revoked_witness:
  "\<exists>s'. revokeCode givenVault 2000 1 ''12345674'' None = Inr (s', False) \<and>
     ownersOf (run (vault_step id) s' [(2500, DeclineBar ''09121111111'' 101 None), (3000, ExpireTransfers),
       (4000, SellBar (Some 100000000) 11 \<lparr>crCode = 50, crDelivery = IN_PERSON\<rparr>)]) 50 = [11]"
proof -
  have ok: "vault_ok givenVault" unfolding givenVault_def by (rule vault_run.run_inv) simp
  have "givenFacts givenVault = (Some (HC_TRANSFER_PENDING, 50), [11])" by code_simp
  then obtain c where "codeByText givenVault ''12345674'' = Some c" "hcStatus c = HC_TRANSFER_PENDING" "hcId c = 50"
    "ownersOf givenVault (hcId c) = [11]" by (auto simp: givenFacts_def map_option_eq_Some)
  with owned_bar_revoked [OF ok this(1,2,4), of 2000 1 None id
      "[(2500, DeclineBar ''09121111111'' 101 None), (3000, ExpireTransfers),
        (4000, SellBar (Some 100000000) 11 \<lparr>crCode = 50, crDelivery = IN_PERSON\<rparr>)]"] show ?thesis
    by (auto simp: Let_def)
qed

end
