(* ===== verification/BarCodes.thy ===== *)
theory BarCodes
  imports SaleProps
begin

section \<open>New codes\<close>

text \<open>
  The codes of a new batch are of the right form, different, and new; and the loop that draws them stops.
\<close>

definition digitsOk :: "int list \<Rightarrow> bool" where
  "digitsOk d \<longleftrightarrow> length d = 7 \<and> (\<forall>x \<in> set d. 0 \<le> x \<and> x \<le> 9)"

lemma digitChar_digit:
  assumes "0 \<le> x" "x \<le> 9"
  shows "is_digit (digitChar x)" "int (digit_val (digitChar x)) = x"
proof -
  have "x = 0 \<or> x = 1 \<or> x = 2 \<or> x = 3 \<or> x = 4 \<or> x = 5 \<or> x = 6 \<or> x = 7 \<or> x = 8 \<or> x = 9" using assms by presburger
  then show "is_digit (digitChar x)" "int (digit_val (digitChar x)) = x"
    by (auto simp: digitChar_def is_digit_def digit_val_def)
qed

lemma generated_valid:
  assumes "digitsOk d" shows "isValidHologramCodeFormat (generateHologramCode d)"
proof -
  have k: "0 \<le> hologramCheckDigit d" "hologramCheckDigit d \<le> 9" by (simp_all add: hologramCheckDigit_def)
  have l: "length d = 7" "\<forall>x \<in> set d. 0 \<le> x \<and> x \<le> 9" using assms by (simp_all add: digitsOk_def)
  have "map (\<lambda>x. int (digit_val (digitChar x))) d = d" using l(2) digitChar_digit by (intro map_idI) auto
  then have m: "map (\<lambda>c. int (digit_val c)) (generateHologramCode d) = d @ [hologramCheckDigit d]"
    using k digitChar_digit by (simp add: generateHologramCode_def o_def)
  have "list_all is_digit (generateHologramCode d)"
    using k l(2) digitChar_digit by (auto simp: generateHologramCode_def list_all_iff)
  then show ?thesis using l(1) unfolding isValidHologramCodeFormat_def m
    by (simp add: HOLOGRAM_CODE_LENGTH_def generateHologramCode_def nth_append)
qed

lemma drawCodes_Some:
  assumes "drawCodes n ds acc = Some (xs, rest)" "\<forall>d \<in> set ds. digitsOk d" "length acc \<le> n" "distinct acc"
    "\<forall>x \<in> set acc. isValidHologramCodeFormat x"
  shows "length xs = n \<and> distinct xs \<and> (\<forall>x \<in> set xs. isValidHologramCodeFormat x) \<and> set rest \<subseteq> set ds"
  using assms
proof (induction ds arbitrary: acc)
  case Nil
  then show ?case by (simp add: drawCodes.simps split: if_splits)
next
  case (Cons d ds)
  let ?x = "generateHologramCode d"
  let ?acc = "if ?x \<in> set acc then acc else acc @ [?x]"
  show ?case
  proof (cases "n \<le> length acc")
    case True
    then show ?thesis using Cons.prems by (simp add: drawCodes.simps)
  next
    case False
    have r: "drawCodes n ds ?acc = Some (xs, rest)"
      using Cons.prems(1) False by (subst (asm) drawCodes.simps) (simp add: Let_def)
    have v: "\<forall>d \<in> set ds. digitsOk d" "length ?acc \<le> n" "distinct ?acc" "\<forall>x \<in> set ?acc. isValidHologramCodeFormat x"
      using Cons.prems(2-5) False generated_valid [of d] by auto
    show ?thesis using Cons.IH [OF r v] by auto
  qed
qed

text \<open>What a round leaves: the old codes, and new ones of the batch that are free and have new texts.\<close>

definition grown :: "nat \<Rightarrow> 'a registry_scheme \<Rightarrow> 'a registry_scheme \<Rightarrow> bool" where
  "grown b s s' \<longleftrightarrow>
     (\<exists>cs. codes s' = codes s @ cs \<and> distinct (map hcCode cs) \<and>
       (\<forall>c \<in> set cs. hcBatch c = b \<and> hcStatus c = HC_UNASSIGNED \<and> codeByText s (hcCode c) = None \<and>
          isValidHologramCodeFormat (hcCode c)))"

lemma grown_refl: "grown b s s"
  by (simp add: grown_def)

lemma codeByText_append:
  "codes s' = codes s @ cs \<Longrightarrow> codeByText s' x = None \<longleftrightarrow> codeByText s x = None \<and> x \<notin> hcCode ` set cs"
  by (auto simp: codeByText_def find_None_iff)

lemma insertCodes_grown:
  assumes "grown b s0 s" "\<forall>x \<in> set xs. isValidHologramCodeFormat x"
  shows "grown b s0 (insertCodes s b xs) \<and> set (codes s) \<subseteq> set (codes (insertCodes s b xs))"
  using assms
proof (induction xs arbitrary: s)
  case (Cons x xs)
  define s1 where "s1 = (if codeByText s x = None
        then s\<lparr>nextId := nextId s + 1, codes := codes s @ [newCode (nextId s) b x]\<rparr> else s)"
  have "grown b s0 s1"
  proof (cases "codeByText s x = None")
    case True
    from Cons.prems(1) obtain cs where cs: "codes s = codes s0 @ cs" "distinct (map hcCode cs)"
      "\<forall>c \<in> set cs. hcBatch c = b \<and> hcStatus c = HC_UNASSIGNED \<and> codeByText s0 (hcCode c) = None \<and>
          isValidHologramCodeFormat (hcCode c)" by (auto simp: grown_def)
    from True have "codeByText s0 x = None" "x \<notin> hcCode ` set cs" using codeByText_append [OF cs(1)] by simp_all
    then show ?thesis using cs Cons.prems(2) True unfolding grown_def s1_def
      by (intro exI [of _ "cs @ [newCode (nextId s) b x]"]) (simp add: newCode_def)
  next
    case False
    then show ?thesis unfolding s1_def using Cons.prems(1) by (simp only: if_False)
  qed
  from Cons.IH [OF this] Cons.prems(2)
  have "grown b s0 (insertCodes s1 b xs) \<and> set (codes s1) \<subseteq> set (codes (insertCodes s1 b xs))" by simp
  moreover have "set (codes s) \<subseteq> set (codes s1)" by (auto simp: s1_def)
  ultimately show ?case by (auto simp: s1_def)
qed simp

text \<open>The codes of the batch among those just drawn that were not there before.\<close>

lemma inserted_new:
  assumes g: "grown b s0 s" and n: "\<forall>c \<in> set (codes s0). hcBatch c \<noteq> b"
  shows "distinct (insertedCodes s b xs)" "set (insertedCodes s b xs) \<subseteq> set xs"
    "x \<in> set (insertedCodes s b xs) \<Longrightarrow> codeByText s0 x = None \<and> isValidHologramCodeFormat x \<and>
       (\<exists>c \<in> set (codes s). hcCode c = x \<and> hcStatus c = HC_UNASSIGNED \<and> hcBatch c = b)"
proof -
  from g obtain cs where cs: "codes s = codes s0 @ cs" "distinct (map hcCode cs)"
    "\<forall>c \<in> set cs. hcBatch c = b \<and> hcStatus c = HC_UNASSIGNED \<and> codeByText s0 (hcCode c) = None \<and>
        isValidHologramCodeFormat (hcCode c)" by (auto simp: grown_def)
  have "filter (\<lambda>c. hcBatch c = b \<and> hcCode c \<in> set xs) (codes s0) = []" using n by (simp add: filter_empty_conv)
  then have i: "insertedCodes s b xs = map hcCode (filter (\<lambda>c. hcBatch c = b \<and> hcCode c \<in> set xs) cs)"
    by (simp add: insertedCodes_def cs(1))
  show "distinct (insertedCodes s b xs)" unfolding i using cs(2) by (rule distinct_map_filter)
  show "set (insertedCodes s b xs) \<subseteq> set xs" by (auto simp: i)
  show "x \<in> set (insertedCodes s b xs) \<Longrightarrow> codeByText s0 x = None \<and> isValidHologramCodeFormat x \<and>
       (\<exists>c \<in> set (codes s). hcCode c = x \<and> hcStatus c = HC_UNASSIGNED \<and> hcBatch c = b)"
    using cs(1,3) by (auto simp: i)
qed

definition confirmedOk :: "nat \<Rightarrow> 'a registry_scheme \<Rightarrow> 'a registry_scheme \<Rightarrow> string list \<Rightarrow> bool" where
  "confirmedOk b s0 s xs \<longleftrightarrow>
     distinct xs \<and> (\<forall>x \<in> set xs. codeByText s0 x = None \<and> isValidHologramCodeFormat x \<and>
       (\<exists>c \<in> set (codes s). hcCode c = x \<and> hcStatus c = HC_UNASSIGNED \<and> hcBatch c = b))"

lemma generateRounds_ok:
  assumes "generateRounds n s b q ds xs = (s', Some ys)" "\<forall>d \<in> set ds. digitsOk d"
    "grown b s0 s" "\<forall>c \<in> set (codes s0). hcBatch c \<noteq> b" "confirmedOk b s0 s xs" "length xs \<le> q"
  shows "grown b s0 s' \<and> confirmedOk b s0 s' ys \<and> length ys \<le> q"
  using assms(1,2,3,5,6)
proof (induction n arbitrary: s ds xs)
  case 0
  then show ?case by simp
next
  case (Suc n)
  show ?case
  proof (cases "q \<le> length xs")
    case True
    then show ?thesis using Suc.prems by simp
  next
    case False
    from Suc.prems(1) False obtain new rest where d: "drawCodes (q - length xs) ds [] = Some (new, rest)"
      by (auto simp: Let_def split: option.splits)
    define s1 where "s1 = insertCodes s b new"
    define add where "add = filter (\<lambda>x. x \<notin> set xs) (insertedCodes s1 b new)"
    have r: "generateRounds n s1 b q rest (xs @ add) = (s', Some ys)"
      using Suc.prems(1) False d by (simp add: Let_def s1_def add_def)
    have nw: "length new = q - length xs" "\<forall>x \<in> set new. isValidHologramCodeFormat x" "set rest \<subseteq> set ds"
      using drawCodes_Some [OF d Suc.prems(2)] by simp_all
    have g: "grown b s0 s1" "set (codes s) \<subseteq> set (codes s1)"
      using insertCodes_grown [OF Suc.prems(3) nw(2)] by (simp_all add: s1_def)
    note ins = inserted_new [OF g(1) assms(4)]
    have "length add \<le> length (insertedCodes s1 b new)" by (simp add: add_def)
    also have "\<dots> = card (set (insertedCodes s1 b new))" using ins(1) by (simp add: distinct_card)
    also have "\<dots> \<le> card (set new)" by (rule card_mono) (use ins(2) in auto)
    also have "\<dots> \<le> q - length xs" using card_length [of new] nw(1) by simp
    finally have "length (xs @ add) \<le> q" using False by simp
    moreover have "confirmedOk b s0 s1 (xs @ add)"
    proof -
      have "\<forall>x \<in> set xs. \<exists>c \<in> set (codes s1). hcCode c = x \<and> hcStatus c = HC_UNASSIGNED \<and> hcBatch c = b"
        using Suc.prems(4) g(2) unfolding confirmedOk_def by blast
      then show ?thesis using Suc.prems(4) ins(1,3) unfolding confirmedOk_def add_def by auto
    qed
    moreover have "\<forall>d \<in> set rest. digitsOk d" using nw(3) Suc.prems(2) by auto
    ultimately show ?thesis using Suc.IH [OF r _ g(1)] by blast
  qed
qed

text \<open>C29: A batch brings new codes only. When the creation of a batch succeeds it returns exactly as many codes as were
ordered, all different, each of eight digits with a right check digit, none of them in the registry before, and each of
them now the code of an unassigned bar; the codes that were there stay first and unchanged.\<close>

theorem batch_codes_new:
  assumes "bars_ok s" "\<forall>c \<in> set (codes s). hcBatch c < nextId s" "\<forall>d \<in> set draws. digitsOk d"
    and "createBatch s admin q notes draws = (s', Inr xs)"
  shows "length xs = q \<and> distinct xs \<and> (\<exists>cs. codes s' = codes s @ cs) \<and>
    (\<forall>x \<in> set xs. isValidHologramCodeFormat x \<and> codeByText s x = None \<and>
       map_option hcStatus (codeByText s' x) = Some HC_UNASSIGNED)"
proof -
  obtain sq number where sq: "sequenceNext s ''HOLO'' = (sq, number)" by (cases "sequenceNext s ''HOLO''")
  then have sf: "codes sq = codes s" "nextId sq = nextId s" by (auto simp: sequenceNext_def Let_def)
  define s2 where "s2 = sq\<lparr>nextId := nextId s + 1, batches := batches sq @
                  [\<lparr>btId = nextId s, btNumber = number, btQuantity = q, btNotes = notes, btBy = admin\<rparr>]\<rparr>"
  have c2: "codes s2 = codes s" by (simp add: s2_def sf)
  have r: "generateRounds MAX_GENERATION_RETRIES_PER_CODE s2 (nextId s) q draws [] = (s', Some xs)" "q \<le> length xs"
    using assms(4) by (auto simp: createBatch_def sq Let_def s2_def sf split: prod.splits option.splits if_splits)
  have g: "grown (nextId s) s2 s'" "confirmedOk (nextId s) s2 s' xs" "length xs \<le> q"
    using generateRounds_ok [OF r(1) assms(3) grown_refl [of "nextId s" s2]] assms(2)
    by (simp_all add: c2 confirmedOk_def [of _ _ _ "[]"] less_imp_neq [THEN not_sym] order_less_imp_not_eq)
  have k: "keys_ok s'" using createBatch_steps [OF assms(1)] assms(4) unfolding bar_steps_def by (metis fst_conv)
  have "isValidHologramCodeFormat x \<and> codeByText s x = None \<and> map_option hcStatus (codeByText s' x) = Some HC_UNASSIGNED"
    if "x \<in> set xs" for x
  proof -
    have v: "codeByText s2 x = None" "isValidHologramCodeFormat x"
      and "\<exists>c \<in> set (codes s'). hcCode c = x \<and> hcStatus c = HC_UNASSIGNED \<and> hcBatch c = nextId s"
      using g(2) that by (simp_all add: confirmedOk_def)
    then obtain c where c: "c \<in> set (codes s')" "hcCode c = x" "hcStatus c = HC_UNASSIGNED" by (elim bexE conjE) (rule that)
    have "distinct (map hcCode (codes s'))" using k by (simp add: keys_ok_def)
    from find_unique [OF this c(1)] c(2) have "codeByText s' x = Some c" by (simp only: codeByText_def)
    then show ?thesis using v c(3) by (simp add: codeByText_def c2)
  qed
  then show ?thesis using g r(2) by (auto simp: confirmedOk_def grown_def c2)
qed

lemma batch_codes_new_witness:
  "\<exists>s' x y. createBatch demoVault 1 2 None [[1,2,3,4,5,6,7], [0,0,0,0,0,0,1], [1,2,3,4,5,6,7], [0,0,0,0,0,0,2]] = (s', Inr [x, y]) \<and>
     x \<noteq> y \<and> isValidHologramCodeFormat x"
proof -
  let ?d = "[[1,2,3,4,5,6,7], [0,0,0,0,0,0,1], [1,2,3,4,5,6,7], [0,0,0,0,0,0,2 :: int]]"
  have "(case createBatch demoVault 1 2 None ?d of (s', Inl e) \<Rightarrow> False | (s', Inr xs) \<Rightarrow> length xs = 2)" by code_simp
  then obtain s' x y where c: "createBatch demoVault 1 2 None ?d = (s', Inr [x, y])"
    by (auto split: prod.splits sum.splits simp: length_Suc_conv numeral_2_eq_2)
  have "\<forall>c \<in> set (codes demoVault). hcBatch c < nextId demoVault" "\<forall>d \<in> set ?d. digitsOk d" by code_simp+
  from batch_codes_new [OF vault_okD(1) [OF demoVault_ok] this c] c show ?thesis by auto
qed

end
