(* ===== verification/Physical.thy ===== *)
theory Physical
  imports Delivery
begin

section \<open>Physical delivery by weight\<close>

text \<open>
  \<open>api/src/physical-delivery/physical-delivery.service.ts\<close>: a user asks for melted gold to be handed over,
  which holds the weight in the wallet; staff approve (the gold and a fee leave the wallet, an invoice
  and a document are written, the gold is set aside in the vault), send, deliver or cancel; requests whose
  hold ran out are closed every hour. The record \<open>pickup\<close> adds the requests, their parcels, the movements
  of the vault, the limits of the users and the remembered answers to the tables of the shop.
  \<open>pdLinks\<close> is the column \<open>physical_delivery_id\<close> of the transactions.

  The row of an invoice counts pieces in the model, so the weight of its one row appears there as whole
  grams; its unit price is zero. Notes, messages and the text about the processing time are not modelled.
\<close>

subsection \<open>Tables\<close>

datatype pd_status = PD_PENDING | PD_APPROVED | PD_SHIPPED | PD_DELIVERED | PD_CANCELLED

record pd_request =
  rqId :: nat
  rqUser :: nat
  rqAddress :: nat
  rqGrams :: rat
  rqFee :: int
  rqStatus :: pd_status
  rqTracking :: "string option"
  rqApprovedBy :: "nat option"
  rqCreated :: int

record pd_parcel =
  paId :: nat
  paRequest :: nat
  paTracking :: string
  paStatus :: shipping_status
  paDelivered :: "int option"

datatype vault_place = VAULT_PHYSICAL | VAULT_RESERVED | VAULT_IN_TRANSIT

record vault_move =
  vmPlace :: vault_place
  vmGrams :: rat
  vmRef :: nat

record pd_limit =
  lmUser :: nat
  lmMin :: rat
  lmMax :: rat

record pd_view =
  vwId :: nat
  vwGrams :: rat
  vwFeeToman :: rat
  vwStatus :: pd_status
  vwTracking :: "string option"
  vwAddress :: nat
  vwParcels :: "pd_parcel list"
  vwCreated :: int

record pickup = shop +
  pdRequests :: "pd_request list"
  pdParcels :: "pd_parcel list"
  vaultMoves :: "vault_move list"
  pdLimits :: "pd_limit list"
  pdLinks :: "(nat \<times> nat) list"
  pdReplies :: "nat \<times> string \<Rightarrow> (pd_view \<times> int) option"

definition requestById :: "'a pickup_scheme \<Rightarrow> nat \<Rightarrow> pd_request option" where
  "requestById s i = find (\<lambda>r. rqId r = i) (pdRequests s)"

definition setRequest :: "'a pickup_scheme \<Rightarrow> nat \<Rightarrow> (pd_request \<Rightarrow> pd_request) \<Rightarrow> 'a pickup_scheme" where
  "setRequest s i f = s\<lparr>pdRequests := update_where (\<lambda>r. rqId r = i) f (pdRequests s)\<rparr>"

definition parcelsOf :: "'a pickup_scheme \<Rightarrow> nat \<Rightarrow> pd_parcel list" where
  "parcelsOf s i = filter (\<lambda>p. paRequest p = i) (pdParcels s)"

definition toDto :: "'a pickup_scheme \<Rightarrow> pd_request \<Rightarrow> pd_view" where
  "toDto s r =
     \<lparr>vwId = rqId r, vwGrams = rqGrams r, vwFeeToman = of_int (rqFee r) / 10, vwStatus = rqStatus r,
      vwTracking = rqTracking r, vwAddress = rqAddress r, vwParcels = parcelsOf s (rqId r), vwCreated = rqCreated r\<rparr>"

text \<open>A transaction of a request, and the update of those of a request that have a status.\<close>

definition addLinked ::
  "'a pickup_scheme \<Rightarrow> clock \<Rightarrow> nat \<Rightarrow> nat \<Rightarrow> nat \<Rightarrow> transaction_type \<Rightarrow> transaction_status \<Rightarrow> int option \<Rightarrow> rat option
     \<Rightarrow> 'a pickup_scheme" where
  "addLinked s c u w i ty st rial grams =
     (addTransaction s (\<lambda>t. \<lparr>tId = t, tUser = u, tWallet = w, tType = ty, tStatus = st, tRial = rial,
        tGrams = grams, tPrice = None, tFee = None, tTax = None, tCreated = now c, tRelated = None, tShopOrder = None\<rparr>))
       \<lparr>pdLinks := pdLinks s @ [(nextId s, i)]\<rparr>"

definition setLinked ::
  "'a pickup_scheme \<Rightarrow> nat \<Rightarrow> transaction_status \<Rightarrow> (transaction \<Rightarrow> transaction) \<Rightarrow> 'a pickup_scheme" where
  "setLinked s i st f =
     s\<lparr>transactions := update_where (\<lambda>x. (tId x, i) \<in> set (pdLinks s) \<and> tStatus x = st) f (transactions s)\<rparr>"

definition pdDbError :: "err \<Rightarrow> err" where
  "pdDbError e =
     (case e of
        BadRequest m \<Rightarrow> BadRequest m | NotFound m \<Rightarrow> NotFound m | Forbidden m \<Rightarrow> Forbidden m
      | Conflict m \<Rightarrow> Conflict m
      | _ \<Rightarrow> BadRequest ''request could not be processed'')"

definition translated :: "'b res \<Rightarrow> 'b res" where
  "translated r = (case r of Inl e \<Rightarrow> Inl (pdDbError e) | Inr x \<Rightarrow> Inr x)"

subsection \<open>Requests of a user\<close>

definition limitsOf :: "'a pickup_scheme \<Rightarrow> nat \<Rightarrow> rat \<times> rat" where
  "limitsOf s u = (case find (\<lambda>l. lmUser l = u) (pdLimits s) of None \<Rightarrow> (1, 500) | Some l \<Rightarrow> (lmMin l, lmMax l))"

definition feePerGram :: "'a ledger_scheme \<Rightarrow> rat" where
  "feePerGram s = getNumber s ''physical_delivery.fee_per_gram_rial'' 250000"

definition getPdConfig :: "'a pickup_scheme \<Rightarrow> nat \<Rightarrow> (rat \<times> rat \<times> rat) res" where
  "getPdConfig s u =
     (if list_ex (\<lambda>x. uId x = u) (users s)
      then Inr (fst (limitsOf s u), snd (limitsOf s u), feePerGram s / 10)
      else Inl (NotFound ''user''))"

definition recentDuplicate :: "'a pickup_scheme \<Rightarrow> clock \<Rightarrow> nat \<Rightarrow> nat \<Rightarrow> rat \<Rightarrow> pd_request option" where
  "recentDuplicate s c u addr grams =
     find (\<lambda>r. rqUser r = u \<and> rqAddress r = addr \<and> rqGrams r = grams \<and> rqStatus r = PD_PENDING \<and>
               now c - 15000 \<le> rqCreated r) (pdRequests s)"

definition newRequest :: "nat \<Rightarrow> clock \<Rightarrow> nat \<Rightarrow> nat \<Rightarrow> rat \<Rightarrow> pd_request" where
  "newRequest i c u addr grams =
     \<lparr>rqId = i, rqUser = u, rqAddress = addr, rqGrams = grams, rqFee = 0, rqStatus = PD_PENDING, rqTracking = None,
      rqApprovedBy = None, rqCreated = now c\<rparr>"

definition HOLD_DURATION_DAYS :: int where "HOLD_DURATION_DAYS = 30"

definition placeRequest :: "'a pickup_scheme \<Rightarrow> clock \<Rightarrow> nat \<Rightarrow> nat \<Rightarrow> nat \<Rightarrow> rat \<Rightarrow> 'a pickup_scheme" where
  "placeRequest s c u addr w grams =
     (let i = nextId s;
          s1 = s\<lparr>nextId := i + 1, pdRequests := pdRequests s @ [newRequest i c u addr grams]\<rparr>;
          s2 = addHold s1 (\<lambda>h. \<lparr>hId = h, hWallet = w, hRial = None, hGrams = Some grams,
                 hType = HOLD_PHYSICAL_DELIVERY, hRef = Some i, hExpires = now c + HOLD_DURATION_DAYS * day_ms\<rparr>)
      in addLinked s2 c u w i PHYSICAL_DELIVERY TX_PENDING None (Some grams))"

definition createInternal ::
  "'a pickup_scheme \<Rightarrow> clock \<Rightarrow> nat \<Rightarrow> nat \<Rightarrow> rat \<Rightarrow> ('a pickup_scheme \<times> pd_view) res" where
  "createInternal s c u addr amount =
     (if \<not> getBoolean s ''physical_delivery.legacy_enabled'' False
      then Inl (BadRequest ''only as bars from the shop'')
      else
      (case assertUserVerified s u of Inl e \<Rightarrow> Inl e | Inr _ \<Rightarrow>
       if amount \<le> 0 then Inl (BadRequest ''invalid amount'')
       else
       (let grams = numeric4 amount in
        if grams < fst (limitsOf s u) then Inl (BadRequest ''below the minimum'')
        else if snd (limitsOf s u) < grams then Inl (BadRequest ''above the maximum'')
        else if \<not> list_ex (\<lambda>a. adId a = addr \<and> adUser a = u \<and> \<not> adDeleted a) (addresses s)
        then Inl (NotFound ''address'')
        else
        (case recentDuplicate s c u addr grams of
           Some r \<Rightarrow> Inr (s, toDto s r)
         | None \<Rightarrow>
             (case walletOfUser s u of
                None \<Rightarrow> Inl (NotFound ''wallet'')
              | Some w \<Rightarrow>
                  if wGrams w - heldGrams s (now c) (wId w) < grams then Inl (BadRequest ''insufficient gold'')
                  else (let s' = placeRequest s c u addr (wId w) grams in
                        Inr (s', toDto s' (newRequest (nextId s) c u addr grams))))))))"

definition PD_IDEMPOTENCY_TTL_SECONDS :: int where "PD_IDEMPOTENCY_TTL_SECONDS = 24 * 60 * 60"

text \<open>
  The answer to a request key is remembered for a day; \<open>saved\<close> says whether the key-value store took it.
\<close>

definition cachedReply :: "'a pickup_scheme \<Rightarrow> clock \<Rightarrow> nat \<Rightarrow> string \<Rightarrow> pd_view option" where
  "cachedReply s c u key =
     (case pdReplies s (u, key) of None \<Rightarrow> None | Some (v, t) \<Rightarrow> if now c < t then Some v else None)"

definition withIdempotency ::
  "'a pickup_scheme \<Rightarrow> clock \<Rightarrow> nat \<Rightarrow> string \<Rightarrow> bool \<Rightarrow> ('a pickup_scheme \<times> pd_view) res \<Rightarrow> ('a pickup_scheme \<times> pd_view) res" where
  "withIdempotency s c u key saved exec =
     (if key = [] then exec
      else
      (case cachedReply s c u key of
         Some v \<Rightarrow> Inr (s, v)
       | None \<Rightarrow>
           (case exec of Inl e \<Rightarrow> Inl e
            | Inr (s', v) \<Rightarrow>
                Inr (if saved
                     then s'\<lparr>pdReplies := (pdReplies s')((u, key) \<mapsto> (v, now c + PD_IDEMPOTENCY_TTL_SECONDS * 1000))\<rparr>
                     else s', v))))"

text \<open>The form asks for at least a hundredth of a gram.\<close>

definition pdCreate ::
  "'a pickup_scheme \<Rightarrow> clock \<Rightarrow> nat \<Rightarrow> nat \<Rightarrow> rat \<Rightarrow> string \<Rightarrow> bool \<Rightarrow> ('a pickup_scheme \<times> pd_view) res" where
  "pdCreate s c u addr amount key saved =
     (if amount < 1 / 100 then Inl (BadRequest ''invalid amount'')
      else withIdempotency s c u key saved (createInternal s c u addr amount))"

definition closeRequest :: "'a pickup_scheme \<Rightarrow> nat \<Rightarrow> 'a pickup_scheme" where
  "closeRequest s i = setRequest s i (\<lambda>r. r\<lparr>rqStatus := PD_CANCELLED\<rparr>)"

text \<open>The answer says whether the request was cancelled already.\<close>

definition pdCancelByUser :: "'a pickup_scheme \<Rightarrow> nat \<Rightarrow> nat \<Rightarrow> ('a pickup_scheme \<times> bool) res" where
  "pdCancelByUser s u i =
     (case find (\<lambda>r. rqId r = i \<and> rqUser r = u) (pdRequests s) of
        None \<Rightarrow> Inl (NotFound ''request'')
      | Some r \<Rightarrow>
          if rqStatus r = PD_CANCELLED then Inr (s, True)
          else if rqStatus r \<noteq> PD_PENDING then Inl (Conflict ''only pending requests'')
          else Inr (closeRequest (setLinked (dropOrderHolds s i HOLD_PHYSICAL_DELIVERY) i TX_PENDING
                      (\<lambda>x. x\<lparr>tStatus := TX_FAILED\<rparr>)) i, False))"

subsection \<open>Lists\<close>

text \<open>The invoice of a source; of several the last one wins.\<close>

definition invoiceOfSource :: "'a billing_scheme \<Rightarrow> invoice_source \<Rightarrow> nat \<Rightarrow> nat option" where
  "invoiceOfSource s src i =
     map_option ivId (find (\<lambda>v. ivSource v = src \<and> ivSourceId v = i \<and> ivKind v = INVOICE) (rev (invoices s)))"

definition matching :: "'a pickup_scheme \<Rightarrow> nat option \<Rightarrow> pd_status option \<Rightarrow> pd_request list" where
  "matching s u st =
     filter (\<lambda>r. (case u of None \<Rightarrow> True | Some k \<Rightarrow> rqUser r = k) \<and>
                 (case st of None \<Rightarrow> True | Some k \<Rightarrow> rqStatus r = k)) (pdRequests s)"

definition listed :: "'a pickup_scheme \<Rightarrow> pd_request \<Rightarrow> pd_view \<times> nat option" where
  "listed s r = (toDto s r, invoiceOfSource s SRC_PHYSICAL_DELIVERY (rqId r))"

definition newestFirst :: "pd_request list \<Rightarrow> pd_request list" where
  "newestFirst rs = sort_key (\<lambda>r. - rqCreated r) rs"

definition pageOf :: "'b list \<Rightarrow> nat \<Rightarrow> nat \<Rightarrow> 'b list" where
  "pageOf xs page limit = take limit (drop ((page - 1) * limit) xs)"

definition totalPages :: "nat \<Rightarrow> nat \<Rightarrow> nat" where
  "totalPages n limit = max 1 ((n + limit - 1) div limit)"

text \<open>A page of the requests of a user with their number and the number of pages.\<close>

definition pdList ::
  "'a pickup_scheme \<Rightarrow> nat \<Rightarrow> pd_status option \<Rightarrow> nat \<Rightarrow> nat \<Rightarrow> (pd_view \<times> nat option) list \<times> nat \<times> nat" where
  "pdList s u st page limit =
     (let rs = matching s (Some u) st in
      (map (listed s) (pageOf (newestFirst rs) page limit), length rs, totalPages (length rs) limit))"

text \<open>Staff see the requests of all users, with the user.\<close>

definition pdAdminList ::
  "'a pickup_scheme \<Rightarrow> pd_status option \<Rightarrow> nat \<Rightarrow> nat \<Rightarrow> ((pd_view \<times> nat option) \<times> nat) list \<times> nat \<times> nat" where
  "pdAdminList s st page limit =
     (let rs = matching s None st in
      (map (\<lambda>r. (listed s r, rqUser r)) (pageOf (newestFirst rs) page limit), length rs, totalPages (length rs) limit))"

definition pdGetOne :: "'a pickup_scheme \<Rightarrow> nat \<Rightarrow> nat \<Rightarrow> (pd_view \<times> nat option) res" where
  "pdGetOne s u i =
     (case find (\<lambda>r. rqId r = i \<and> rqUser r = u) (pdRequests s) of
        None \<Rightarrow> Inl (NotFound ''request'')
      | Some r \<Rightarrow> Inr (listed s r))"

subsection \<open>Staff\<close>

definition deliveryJournal :: "rat \<Rightarrow> int \<Rightarrow> bool \<Rightarrow> journal_input" where
  "deliveryJournal grams fee reversed =
     (let d = (if reversed then CREDIT else DEBIT); k = (if reversed then DEBIT else CREDIT) in
      \<lparr>jiDescription = ''physical delivery'', jiTotalRial = fee, jiTotalGrams = grams,
       jiLines = [gramLine ''2020'' d grams, gramLine ''1020'' k grams] @
                 (if 0 < fee then [journalLine ''2010'' d fee, journalLine ''4010'' k fee] else []),
       jiSource = None, jiRefType = None, jiRefId = None, jiEntryDate = None,
       jiCreatedBy = None, jiReversalOf = None, jiTransaction = None\<rparr>)"

definition postAccounting :: "'a pickup_scheme \<Rightarrow> clock \<Rightarrow> rat \<Rightarrow> int \<Rightarrow> bool \<Rightarrow> 'a pickup_scheme res" where
  "postAccounting s c grams fee reversed = stateOf (postJournal s (now c) (deliveryJournal grams fee reversed))"

definition postVault :: "'a pickup_scheme \<Rightarrow> nat \<Rightarrow> (vault_place \<times> rat) list \<Rightarrow> 'a pickup_scheme" where
  "postVault s i moves =
     s\<lparr>vaultMoves := vaultMoves s @ map (\<lambda>m. \<lparr>vmPlace = fst m, vmGrams = snd m, vmRef = i\<rparr>) moves\<rparr>"

definition pdInvoice :: "pd_request \<Rightarrow> int \<Rightarrow> issue_params" where
  "pdInvoice r fee =
     \<lparr>ipKind = INVOICE, ipSource = SRC_PHYSICAL_DELIVERY, ipSourceId = rqId r, ipUser = Some (rqUser r), ipAgent = None,
      ipItems = [\<lparr>itRow = 1, itQuantity = \<lfloor>rqGrams r\<rfloor>, itUnitPrice = 0, itDiscount = 0, itMaking = 0, itFee = fee,
                  itTaxRate = 0, itTax = 0, itTotal = fee\<rparr>],
      ipExpires = None, ipStatus = Some IV_PAID\<rparr>"

definition approvalFee :: "'a ledger_scheme \<Rightarrow> pd_request \<Rightarrow> int" where
  "approvalFee s r = round_half_up (feePerGram s * rqGrams r)"

text \<open>The writes of an approval, from the debit of the wallet on.\<close>

definition approveWrites ::
  "'a pickup_scheme \<Rightarrow> clock \<Rightarrow> nat \<Rightarrow> pd_request \<Rightarrow> hold \<Rightarrow> wallet \<Rightarrow> int \<Rightarrow> 'a pickup_scheme res" where
  "approveWrites s c admin r h w fee =
     (case walletAdd s (wId w) (if 0 < fee then - fee else 0) (- rqGrams r) of Inl e \<Rightarrow> Inl e | Inr s1 \<Rightarrow>
      (case issue s1 (pdInvoice r fee) of Inl e \<Rightarrow> Inl e | Inr (s2, _) \<Rightarrow>
       (let s3 = setLinked (dropHold s2 (Some (hId h))) (rqId r) TX_PENDING
                   (\<lambda>x. x\<lparr>tStatus := TX_COMPLETED, tFee := Some fee\<rparr>);
            s4 = (if 0 < fee
                  then addLinked s3 c (rqUser r) (wId w) (rqId r) FEE TX_COMPLETED (Some fee) None else s3);
            s5 = setRequest s4 (rqId r) (\<lambda>x. x\<lparr>rqStatus := PD_APPROVED, rqFee := fee, rqApprovedBy := Some admin\<rparr>)
        in
        case postAccounting s5 c (rqGrams r) fee False of Inl e \<Rightarrow> Inl e
        | Inr s6 \<Rightarrow> Inr (postVault s6 (rqId r) [(VAULT_PHYSICAL, - rqGrams r), (VAULT_RESERVED, rqGrams r)]))))"

definition pdApprove :: "'a pickup_scheme \<Rightarrow> clock \<Rightarrow> nat \<Rightarrow> nat \<Rightarrow> ('a pickup_scheme \<times> bool) res" where
  "pdApprove s c admin i = translated
     (case requestById s i of
        None \<Rightarrow> Inl (NotFound ''request'')
      | Some r \<Rightarrow>
          if rqStatus r = PD_APPROVED then Inr (s, True)
          else if rqStatus r \<noteq> PD_PENDING then Inl (Conflict ''only pending requests'')
          else
          (case orderHold s i HOLD_PHYSICAL_DELIVERY of
             None \<Rightarrow> Inl (Conflict ''hold not found or expired'')
           | Some h \<Rightarrow>
               (case walletById s (hWallet h) of
                  None \<Rightarrow> Inl (NotFound ''wallet'')
                | Some w \<Rightarrow>
                    if wGrams w < rqGrams r then Inl (BadRequest ''insufficient gold'')
                    else
                    (let fee = approvalFee s r in
                     if 0 < fee \<and> wRial w < fee then Inl (BadRequest ''insufficient rial for the fee'')
                     else (case approveWrites s c admin r h w fee of Inl e \<Rightarrow> Inl e | Inr s' \<Rightarrow> Inr (s', False))))))"

definition pdShip :: "'a pickup_scheme \<Rightarrow> nat \<Rightarrow> string \<Rightarrow> ('a pickup_scheme \<times> bool) res" where
  "pdShip s i tracking = translated
     (case requestById s i of
        None \<Rightarrow> Inl (NotFound ''request'')
      | Some r \<Rightarrow>
          if rqStatus r = PD_SHIPPED then Inr (s, True)
          else if rqStatus r \<noteq> PD_APPROVED then Inl (Conflict ''only approved requests'')
          else
            (let s1 = setRequest s i (\<lambda>x. x\<lparr>rqStatus := PD_SHIPPED, rqTracking := Some tracking\<rparr>);
                 s2 = s1\<lparr>nextId := nextId s1 + 1,
                        pdParcels := pdParcels s1 @ [\<lparr>paId = nextId s1, paRequest = i, paTracking = tracking,
                                                      paStatus = IN_TRANSIT, paDelivered = None\<rparr>]\<rparr>
             in Inr (postVault s2 i [(VAULT_RESERVED, - rqGrams r), (VAULT_IN_TRANSIT, rqGrams r)], False)))"

definition pdDeliver :: "'a pickup_scheme \<Rightarrow> clock \<Rightarrow> nat \<Rightarrow> ('a pickup_scheme \<times> bool) res" where
  "pdDeliver s c i = translated
     (case requestById s i of
        None \<Rightarrow> Inl (NotFound ''request'')
      | Some r \<Rightarrow>
          if rqStatus r = PD_DELIVERED then Inr (s, True)
          else if rqStatus r \<noteq> PD_SHIPPED then Inl (Conflict ''not sent yet'')
          else
            (let s1 = setRequest s i (\<lambda>x. x\<lparr>rqStatus := PD_DELIVERED\<rparr>);
                 s2 = (if parcelsOf s i = [] then s1
                       else s1\<lparr>pdParcels := update_where (\<lambda>p. paId p = paId (last (parcelsOf s i)))
                              (\<lambda>p. p\<lparr>paStatus := DELIVERED, paDelivered := Some (now c)\<rparr>) (pdParcels s1)\<rparr>)
             in Inr (postVault s2 i [(VAULT_IN_TRANSIT, - rqGrams r)], False)))"

text \<open>Taking back an approval: gold and fee return to the wallet.\<close>

definition refundApproval :: "'a pickup_scheme \<Rightarrow> clock \<Rightarrow> pd_request \<Rightarrow> 'a pickup_scheme res" where
  "refundApproval s c r =
     (case walletOfUser s (rqUser r) of
        None \<Rightarrow> Inl (NotFound ''wallet'')
      | Some w \<Rightarrow>
          (case walletAdd s (wId w) (if 0 < rqFee r then rqFee r else 0) (rqGrams r) of Inl e \<Rightarrow> Inl e | Inr s1 \<Rightarrow>
           (let s2 = setLinked s1 (rqId r) TX_COMPLETED (\<lambda>x. x\<lparr>tStatus := TX_FAILED\<rparr>);
                s3 = (if 0 < rqFee r
                      then addLinked s2 c (rqUser r) (wId w) (rqId r) REFUND TX_COMPLETED (Some (rqFee r)) None else s2)
            in
            case postAccounting s3 c (rqGrams r) (rqFee r) True of Inl e \<Rightarrow> Inl e
            | Inr s4 \<Rightarrow> Inr (postVault s4 (rqId r) [(VAULT_RESERVED, - rqGrams r), (VAULT_PHYSICAL, rqGrams r)]))))"

definition pdAdminCancel :: "'a pickup_scheme \<Rightarrow> clock \<Rightarrow> nat \<Rightarrow> nat \<Rightarrow> ('a pickup_scheme \<times> bool) res" where
  "pdAdminCancel s c admin i = translated
     (case requestById s i of
        None \<Rightarrow> Inl (NotFound ''request'')
      | Some r \<Rightarrow>
          if rqStatus r = PD_CANCELLED then Inr (s, True)
          else if rqStatus r = PD_SHIPPED \<or> rqStatus r = PD_DELIVERED then Inl (Conflict ''sent already'')
          else
          (case (if rqStatus r = PD_PENDING
                 then Inr (setLinked (dropOrderHolds s i HOLD_PHYSICAL_DELIVERY) i TX_PENDING
                             (\<lambda>x. x\<lparr>tStatus := TX_FAILED\<rparr>))
                 else refundApproval s c r) of Inl e \<Rightarrow> Inl e
           | Inr s1 \<Rightarrow>
               Inr (setRequest s1 i (\<lambda>x. x\<lparr>rqStatus := PD_CANCELLED, rqApprovedBy := Some admin\<rparr>), False)))"

text \<open>The hourly job: one transaction for each hold that was past its end when the job started.\<close>

definition expireHold :: "'a pickup_scheme \<Rightarrow> hold \<Rightarrow> 'a pickup_scheme" where
  "expireHold s h =
     (case hRef h of
        None \<Rightarrow> s
      | Some i \<Rightarrow>
          (case requestById s i of
             None \<Rightarrow> s
           | Some r \<Rightarrow>
               if rqStatus r \<noteq> PD_PENDING then s
               else closeRequest (setLinked (dropHold s (Some (hId h))) i TX_PENDING (\<lambda>x. x\<lparr>tStatus := TX_FAILED\<rparr>)) i))"

definition pdExpireStale :: "'a pickup_scheme \<Rightarrow> clock \<Rightarrow> 'a pickup_scheme" where
  "pdExpireStale s c =
     foldl expireHold s (filter (\<lambda>h. hType h = HOLD_PHYSICAL_DELIVERY \<and> hExpires h < now c) (holds s))"

end
