(* ===== verification/PhysicalFacts.thy ===== *)
theory PhysicalFacts
  imports Physical
begin

section \<open>What the writes of physical deliveries change\<close>

text \<open>
  The money each write moves (\<open>money_write\<close>), the parts of the state it leaves alone, and the invariant
  \<open>pickup_ok\<close>: the vault and the holds agree with the status of every request.
\<close>

subsection \<open>Money\<close>

text \<open>The wallets gain \<open>r\<close> rial and \<open>g\<close> grams in total, account 2010 gains \<open>k\<close> rial and account 2020 \<open>q\<close> grams.\<close>

definition money_write :: "'a bank_scheme \<Rightarrow> 'a bank_scheme \<Rightarrow> int \<Rightarrow> int \<Rightarrow> rat \<Rightarrow> rat \<Rightarrow> bool" where
  "money_write s s' r k g q \<longleftrightarrow>
     wf_bank s' \<and> nextId s \<le> nextId s' \<and>
     totalRial s' = totalRial s + r \<and> rialOf s' ''2010'' = rialOf s ''2010'' + k \<and>
     totalGrams s' = totalGrams s + g \<and> gramsOf s' ''2020'' = gramsOf s ''2020'' + q"

lemma money_write_trans:
  "money_write s s1 r k g q \<Longrightarrow> money_write s1 s2 r' k' g' q' \<Longrightarrow> money_write s s2 (r + r') (k + k') (g + g') (q + q')"
  unfolding money_write_def by (auto simp: add.assoc)

lemma money_write_calm:
  assumes ok: "wf_bank s" and c: "calm s s'"
  shows "money_write s s' 0 0 0 0"
proof -
  have e: "accounts s' = accounts s" "wallets s' = wallets s" "nextId s \<le> nextId s'"
    using c by (simp_all add: calm_def)
  then show ?thesis using calm_wf [OF c ok] totals_cong [OF e(2)] by (simp add: money_write_def rialOf_def gramsOf_def)
qed

lemma money_write_wallet:
  assumes ok: "wf_bank s" and a: "walletAdd s w r g = Inr s'" and g: "on_grid g"
  shows "money_write s s' r 0 g 0"
proof -
  note f = walletAdd_frame [OF a] and t = walletAdd_totals [OF a wf_bank_wallets [OF ok]]
  have "wf_bank s'" using wf_except_walletAdd [OF _ a] ok by (simp add: wf_bank_def)
  then show ?thesis using t(1) t(2) [OF g] by (simp add: money_write_def rialOf_def gramsOf_def f)
qed

lemma money_write_post:
  fixes s :: "'a bank_scheme"
  assumes ok: "wf_bank s" and p: "postJournal s t p = Inr (s', j)"
    and k: "netRial ''2010'' (inputLines p) = k" and q: "netGrams ''2020'' (inputLines p) = q"
  shows "money_write s s' 0 k 0 q"
proof -
  note b = postJournal_balance [OF wf_bank_ledger [OF ok] p control_not_cash(1)]
    postJournal_balance [OF wf_bank_ledger [OF ok] p control_not_cash(2)]
  note f = postJournal_bank [OF p]
  have "wf_bank s'" using wf_except_post [OF _ p] ok by (simp add: wf_bank_def)
  then show ?thesis using b totals_cong [OF f(1)] by (simp add: money_write_def f k q)
qed

lemma delivery_net:
  "netRial ''2010'' (inputLines (deliveryJournal g fee undo)) = (if fee \<le> 0 then 0 else if undo then fee else - fee)"
  "netGrams ''2020'' (inputLines (deliveryJournal g fee undo)) = (if undo then g else - g)"
  "netRial ''4010'' (inputLines (deliveryJournal g fee undo)) = (if fee \<le> 0 then 0 else if undo then - fee else fee)"
  "netGrams ''1020'' (inputLines (deliveryJournal g fee undo)) = (if undo then g else - g)"
  by (simp_all add: deliveryJournal_def Let_def line_defs)

text \<open>A document and its reversal cancel out in every account.\<close>

lemma delivery_undo:
  "netRial a (inputLines (deliveryJournal g fee True)) = - netRial a (inputLines (deliveryJournal g fee False))"
  "netGrams a (inputLines (deliveryJournal g fee True)) = - netGrams a (inputLines (deliveryJournal g fee False))"
  by (auto simp: deliveryJournal_def Let_def line_defs)

subsection \<open>Frames\<close>

lemma setRequest_frame [simp]:
  "nextId (setRequest s i f) = nextId s" "accounts (setRequest s i f) = accounts s"
  "journals (setRequest s i f) = journals s" "ledgerEntries (setRequest s i f) = ledgerEntries s"
  "wallets (setRequest s i f) = wallets s" "holds (setRequest s i f) = holds s"
  "withdrawals (setRequest s i f) = withdrawals s" "transactions (setRequest s i f) = transactions s"
  "invoices (setRequest s i f) = invoices s" "vaultMoves (setRequest s i f) = vaultMoves s"
  "pdLinks (setRequest s i f) = pdLinks s" "pdParcels (setRequest s i f) = pdParcels s"
  "pdReplies (setRequest s i f) = pdReplies s"
  "pdRequests (setRequest s i f) = update_where (\<lambda>r. rqId r = i) f (pdRequests s)"
  by (simp_all add: setRequest_def)

lemma setLinked_frame [simp]:
  "nextId (setLinked s i st f) = nextId s" "accounts (setLinked s i st f) = accounts s"
  "journals (setLinked s i st f) = journals s" "ledgerEntries (setLinked s i st f) = ledgerEntries s"
  "wallets (setLinked s i st f) = wallets s" "holds (setLinked s i st f) = holds s"
  "withdrawals (setLinked s i st f) = withdrawals s" "invoices (setLinked s i st f) = invoices s"
  "vaultMoves (setLinked s i st f) = vaultMoves s" "pdLinks (setLinked s i st f) = pdLinks s"
  "pdParcels (setLinked s i st f) = pdParcels s" "pdReplies (setLinked s i st f) = pdReplies s"
  "pdRequests (setLinked s i st f) = pdRequests s"
  by (simp_all add: setLinked_def)

lemma addLinked_frame [simp]:
  "nextId (addLinked s c u w i ty st r g) = nextId s + 1" "accounts (addLinked s c u w i ty st r g) = accounts s"
  "journals (addLinked s c u w i ty st r g) = journals s" "ledgerEntries (addLinked s c u w i ty st r g) = ledgerEntries s"
  "wallets (addLinked s c u w i ty st r g) = wallets s" "holds (addLinked s c u w i ty st r g) = holds s"
  "withdrawals (addLinked s c u w i ty st r g) = withdrawals s" "invoices (addLinked s c u w i ty st r g) = invoices s"
  "vaultMoves (addLinked s c u w i ty st r g) = vaultMoves s" "pdParcels (addLinked s c u w i ty st r g) = pdParcels s"
  "pdReplies (addLinked s c u w i ty st r g) = pdReplies s" "pdRequests (addLinked s c u w i ty st r g) = pdRequests s"
  "pdLinks (addLinked s c u w i ty st r g) = pdLinks s @ [(nextId s, i)]"
  by (simp_all add: addLinked_def addTransaction_def)

lemma postVault_frame [simp]:
  "nextId (postVault s i ms) = nextId s" "accounts (postVault s i ms) = accounts s"
  "journals (postVault s i ms) = journals s" "ledgerEntries (postVault s i ms) = ledgerEntries s"
  "wallets (postVault s i ms) = wallets s" "holds (postVault s i ms) = holds s"
  "withdrawals (postVault s i ms) = withdrawals s" "transactions (postVault s i ms) = transactions s"
  "invoices (postVault s i ms) = invoices s" "pdRequests (postVault s i ms) = pdRequests s"
  "pdLinks (postVault s i ms) = pdLinks s" "pdParcels (postVault s i ms) = pdParcels s"
  "pdReplies (postVault s i ms) = pdReplies s"
  "vaultMoves (postVault s i ms) = vaultMoves s @ map (\<lambda>m. \<lparr>vmPlace = fst m, vmGrams = snd m, vmRef = i\<rparr>) ms"
  by (simp_all add: postVault_def)

lemma hold_frame [simp]:
  fixes s :: "'a pickup_scheme"
  shows "pdRequests (dropHold s k) = pdRequests s" "vaultMoves (dropHold s k) = vaultMoves s"
    "pdLinks (dropHold s k) = pdLinks s" "pdParcels (dropHold s k) = pdParcels s" "pdReplies (dropHold s k) = pdReplies s"
    "invoices (dropHold s k) = invoices s" "invoices (dropOrderHolds s i ty) = invoices s"
    "pdRequests (dropOrderHolds s i ty) = pdRequests s" "vaultMoves (dropOrderHolds s i ty) = vaultMoves s"
    "pdLinks (dropOrderHolds s i ty) = pdLinks s" "pdParcels (dropOrderHolds s i ty) = pdParcels s"
    "pdReplies (dropOrderHolds s i ty) = pdReplies s"
    "pdRequests (addHold s f) = pdRequests s" "vaultMoves (addHold s f) = vaultMoves s"
    "pdLinks (addHold s f) = pdLinks s" "pdParcels (addHold s f) = pdParcels s" "pdReplies (addHold s f) = pdReplies s"
  by (simp_all add: dropHold_def dropOrderHolds_def addHold_def split: option.split)

text \<open>The tables of the deliveries through writes to wallets, books and invoices.\<close>

definition same_pickup :: "'a pickup_scheme \<Rightarrow> 'a pickup_scheme \<Rightarrow> bool" where
  "same_pickup s s' \<longleftrightarrow>
     pdRequests s' = pdRequests s \<and> vaultMoves s' = vaultMoves s \<and> pdLinks s' = pdLinks s \<and>
     pdParcels s' = pdParcels s \<and> pdReplies s' = pdReplies s \<and> holds s' = holds s \<and> transactions s' = transactions s"

lemma same_pickup_wallet: "walletAdd s w r g = Inr s' \<Longrightarrow> same_pickup s s' \<and> invoices s' = invoices s"
  by (auto elim!: walletAdd_Inr simp: same_pickup_def)

lemma same_pickup_post: "postJournal s t p = Inr (s', j) \<Longrightarrow> same_pickup s s' \<and> invoices s' = invoices s \<and> wallets s' = wallets s"
  by (auto dest!: postJournal_frame simp: same_pickup_def)

lemma same_pickup_issue:
  "issue s p = Inr (s', v) \<Longrightarrow> same_pickup s s' \<and> set (invoices s) \<subseteq> set (invoices s') \<and> v \<in> set (invoices s')"
  unfolding issue_def same_pickup_def
  by (auto simp: Let_def sequenceNext_def dest: find_SomeD split: if_splits option.splits prod.splits)

lemma calm_setRequest [intro]: "calm s (setRequest s i f)"
  and calm_setLinked [intro]: "calm s (setLinked s i st h)"
  and calm_addLinked [intro]: "calm s (addLinked s c u w i ty st r g)"
  and calm_postVault [intro]: "calm s (postVault s i ms)"
  by (rule calm_same_holds; simp)+

subsection \<open>The invariant\<close>

text \<open>What lies in a place of the vault for a request, and what should: one, zero or minus one times its weight.\<close>

definition vaultSum :: "'a pickup_scheme \<Rightarrow> vault_place \<Rightarrow> nat \<Rightarrow> rat" where
  "vaultSum s p i = sum_where (\<lambda>m. vmRef m = i \<and> vmPlace m = p) vmGrams (vaultMoves s)"

fun inVault :: "pd_status \<Rightarrow> vault_place \<Rightarrow> rat" where
  "inVault st VAULT_PHYSICAL = (if st \<in> {PD_APPROVED, PD_SHIPPED, PD_DELIVERED} then - 1 else 0)"
| "inVault st VAULT_RESERVED = (if st = PD_APPROVED then 1 else 0)"
| "inVault st VAULT_IN_TRANSIT = (if st = PD_SHIPPED then 1 else 0)"

definition pdHolds :: "hold list \<Rightarrow> nat \<Rightarrow> hold list" where
  "pdHolds hs i = filter (\<lambda>h. hRef h = Some i \<and> hType h = HOLD_PHYSICAL_DELIVERY) hs"

definition walletOwner :: "'a bank_scheme \<Rightarrow> nat \<Rightarrow> nat option" where
  "walletOwner s w = map_option wUser (walletById s w)"

definition backed :: "'a pickup_scheme \<Rightarrow> pd_request \<Rightarrow> bool" where
  "backed s r \<longleftrightarrow>
     (\<forall>p. vaultSum s p (rqId r) = inVault (rqStatus r) p * rqGrams r) \<and>
     (if rqStatus r = PD_PENDING
      then \<exists>h. pdHolds (holds s) (rqId r) = [h] \<and> hGrams h = Some (rqGrams r) \<and> walletOwner s (hWallet h) = Some (rqUser r)
      else pdHolds (holds s) (rqId r) = [])"

definition wf_pickup :: "'a pickup_scheme \<Rightarrow> bool" where
  "wf_pickup s \<longleftrightarrow>
     distinct (map rqId (pdRequests s)) \<and>
     (\<forall>r \<in> set (pdRequests s). rqId r < nextId s \<and> 0 < rqGrams r \<and> on_grid (rqGrams r) \<and> backed s r) \<and>
     (\<forall>m \<in> set (vaultMoves s). vmRef m < nextId s) \<and>
     (\<forall>h \<in> set (holds s). hType h = HOLD_PHYSICAL_DELIVERY \<longrightarrow> (\<forall>k. hRef h = Some k \<longrightarrow> k < nextId s))"

definition pickup_ok :: "'a pickup_scheme \<Rightarrow> bool" where
  "pickup_ok s \<longleftrightarrow> wf_bank s \<and> wf_pickup s"

lemma requestById_in: "requestById s i = Some r \<Longrightarrow> r \<in> set (pdRequests s) \<and> rqId r = i"
  unfolding requestById_def by (auto dest: find_SomeD)

lemma requestById_of: "wf_pickup s \<Longrightarrow> r \<in> set (pdRequests s) \<Longrightarrow> requestById s (rqId r) = Some r"
  unfolding requestById_def wf_pickup_def by (intro find_unique) auto

lemma wf_request:
  assumes "wf_pickup s" "requestById s i = Some r"
  shows "rqId r = i" "i < nextId s" "0 < rqGrams r" "on_grid (rqGrams r)" "backed s r" "r \<in> set (pdRequests s)"
  using assms requestById_in [OF assms(2)] by (auto simp: wf_pickup_def)

lemma translated_Inr [simp]: "translated r = Inr x \<longleftrightarrow> r = Inr x"
  by (cases r) (simp_all add: translated_def)

lemma request_of_user:
  assumes "wf_pickup s" "find (\<lambda>r. rqId r = i \<and> rqUser r = u) (pdRequests s) = Some r"
  shows "requestById s i = Some r" "rqUser r = u"
  using find_SomeD [OF assms(2)] requestById_of [OF assms(1), of r] by auto

lemma vaultSum_post:
  assumes "vaultMoves s' = vaultMoves s @ map (\<lambda>m. \<lparr>vmPlace = fst m, vmGrams = snd m, vmRef = i\<rparr>) ms"
  shows "vaultSum s' p k = vaultSum s p k + (if k = i then sum_where (\<lambda>m. fst m = p) snd ms else 0)"
proof -
  have "sum_where (\<lambda>m. vmRef m = k \<and> vmPlace m = p) vmGrams
      (map (\<lambda>m. \<lparr>vmPlace = fst m, vmGrams = snd m, vmRef = i\<rparr>) ms) =
      (if k = i then sum_where (\<lambda>m. fst m = p) snd ms else 0)"
    by (induction ms) auto
  then show ?thesis by (simp add: vaultSum_def assms)
qed

lemma pdHolds_other: "k \<noteq> i \<Longrightarrow> pdHolds (delete_where (\<lambda>h. hRef h = Some i \<and> hType h = ty) hs) k = pdHolds hs k"
  and pdHolds_gone: "pdHolds (delete_where (\<lambda>h. hRef h = Some i \<and> hType h = HOLD_PHYSICAL_DELIVERY) hs) i = []"
  by (induction hs) (auto simp: pdHolds_def)

lemma orderHold_pdHolds:
  "orderHold s i HOLD_PHYSICAL_DELIVERY = (case pdHolds (holds s) i of [] \<Rightarrow> None | h # _ \<Rightarrow> Some h)"
proof -
  have "find p hs = (case filter p hs of [] \<Rightarrow> None | h # _ \<Rightarrow> Some h)" for p and hs :: "hold list"
    by (induction hs) auto
  then show ?thesis by (simp add: orderHold_def pdHolds_def)
qed

text \<open>Deleting the one hold of a request by its number leaves those of the others.\<close>

lemma pdHolds_drop:
  assumes d: "distinct (map hId hs)" and h: "pdHolds hs i = [h]"
  shows "pdHolds (delete_where (\<lambda>x. hId x = hId h) hs) k = (if k = i then [] else pdHolds hs k)"
proof -
  have h': "h \<in> set hs" "hRef h = Some i" "hType h = HOLD_PHYSICAL_DELIVERY"
    using h by (auto simp: pdHolds_def filter_eq_Cons_iff)
  have "hId x = hId h \<longleftrightarrow> x = h" if "x \<in> set hs" for x
    using d that h'(1) by (auto simp: distinct_map dest: inj_onD)
  then have "delete_where (\<lambda>x. hId x = hId h) hs = filter (\<lambda>x. x \<noteq> h) hs"
    unfolding delete_where_def by (intro filter_cong) auto
  then have "pdHolds (delete_where (\<lambda>x. hId x = hId h) hs) k = filter (\<lambda>x. x \<noteq> h) (pdHolds hs k)"
    by (simp add: pdHolds_def conj_commute)
  moreover have "filter (\<lambda>x. x \<noteq> h) (pdHolds hs k) = pdHolds hs k" if "k \<noteq> i"
    unfolding pdHolds_def filter_filter using that h'(2) by (intro filter_cong) auto
  ultimately show ?thesis using h by simp
qed

text \<open>A change of the status of one request that drops its holds and books its vault movements.\<close>

lemma wf_pickup_change:
  assumes wf: "wf_pickup s" and r: "requestById s i = Some r" and n: "nextId s \<le> nextId s'"
    and q: "pdRequests s' = update_where (\<lambda>r. rqId r = i) f (pdRequests s)"
    and f: "\<And>x. rqId (f x) = rqId x \<and> rqUser (f x) = rqUser x \<and> rqGrams (f x) = rqGrams x \<and> rqStatus (f x) = st"
    and st: "st \<noteq> PD_PENDING"
    and v: "vaultMoves s' = vaultMoves s @ map (\<lambda>m. \<lparr>vmPlace = fst m, vmGrams = snd m, vmRef = i\<rparr>) ms"
    and ms: "\<And>p. sum_where (\<lambda>m. fst m = p) snd ms = (inVault st p - inVault (rqStatus r) p) * rqGrams r"
    and hi: "\<And>k. pdHolds (holds s') k = (if k = i then [] else pdHolds (holds s) k)"
    and hs: "set (holds s') \<subseteq> set (holds s)"
    and ow: "\<And>w. walletOwner s' w = walletOwner s w"
  shows "wf_pickup s'"
proof -
  note r' = wf_request [OF wf r]
  have u: "x = r" if "x \<in> set (pdRequests s)" "rqId x = i" for x
    using requestById_of [OF wf that(1)] that(2) r by simp
  have old: "backed s' x" if x: "x \<in> set (pdRequests s)" "rqId x \<noteq> i" for x
  proof -
    have "backed s x" using wf x by (simp add: wf_pickup_def)
    then show ?thesis using x(2) unfolding backed_def vaultSum_post [OF v] hi ow by simp
  qed
  have new: "backed s' (f r)"
    using r'(1,5) st f [of r] unfolding backed_def vaultSum_post [OF v] hi ms by (simp add: algebra_simps)
  have "backed s' y \<and> rqId y < nextId s' \<and> 0 < rqGrams y \<and> on_grid (rqGrams y)" if y: "y \<in> set (pdRequests s')" for y
  proof -
    obtain x where x: "x \<in> set (pdRequests s)" "y = (if rqId x = i then f x else x)"
      using y unfolding q set_update_where by blast
    then have "rqId y < nextId s' \<and> 0 < rqGrams y \<and> on_grid (rqGrams y)"
      using wf n f [of x] unfolding wf_pickup_def by auto
    moreover have "backed s' y" using old new u x by (cases "rqId x = i") auto
    ultimately show ?thesis by simp
  qed
  moreover have "distinct (map rqId (pdRequests s'))"
    using wf f unfolding q wf_pickup_def by simp
  moreover have "\<forall>m \<in> set (vaultMoves s'). vmRef m < nextId s'"
    using wf n r'(2) unfolding v wf_pickup_def by fastforce
  moreover have "\<forall>h \<in> set (holds s'). hType h = HOLD_PHYSICAL_DELIVERY \<longrightarrow> (\<forall>k. hRef h = Some k \<longrightarrow> k < nextId s')"
    using wf n hs unfolding wf_pickup_def by fastforce
  ultimately show ?thesis unfolding wf_pickup_def by blast
qed

text \<open>The owners of wallets never change.\<close>

lemma walletOwner_same: "wallets s' = wallets s \<Longrightarrow> walletOwner s' w = walletOwner s w"
  by (simp add: walletOwner_def walletById_def)

lemma walletOwner_add: "walletAdd s k r g = Inr s' \<Longrightarrow> walletOwner s' w = walletOwner s w"
proof -
  assume a: "walletAdd s k r g = Inr s'"
  then obtain v where v: "walletById s k = Some v" by (rule walletAdd_Inr)
  show ?thesis using walletAdd_row [OF a v] v by (cases "w = k") (auto simp: walletOwner_def)
qed

end
