(* ===== verification/PhysicalRuns.thy ===== *)
theory PhysicalRuns
  imports PhysicalFacts
begin

section \<open>Physical deliveries over sequences of calls\<close>

text \<open>
  What each operation writes, that it keeps \<open>pickup_ok\<close> and the books, and the interpretations of the
  interfaces for sequences of calls (\<open>pickup_step\<close>).
\<close>

subsection \<open>Approving and taking back\<close>

lemma post_effect:
  assumes wf: "wf_bank s" and p: "postAccounting s c g fee undo = Inr s'"
  shows "money_write s s' 0 (if fee \<le> 0 then 0 else if undo then fee else - fee) 0 (if undo then g else - g)"
    and "same_pickup s s' \<and> invoices s' = invoices s \<and> wallets s' = wallets s"
    and "\<not> starts_with CASH_ROOT_CODE a \<Longrightarrow> rialOf s' a = rialOf s a + netRial a (inputLines (deliveryJournal g fee undo)) \<and>
           gramsOf s' a = gramsOf s a + netGrams a (inputLines (deliveryJournal g fee undo))"
proof -
  obtain j where j: "postJournal s (now c) (deliveryJournal g fee undo) = Inr (s', j)"
    using p by (auto simp: postAccounting_def)
  show "money_write s s' 0 (if fee \<le> 0 then 0 else if undo then fee else - fee) 0 (if undo then g else - g)"
    by (rule money_write_post [OF wf j]) (simp_all add: delivery_net)
  show "same_pickup s s' \<and> invoices s' = invoices s \<and> wallets s' = wallets s" by (rule same_pickup_post [OF j])
  show "rialOf s' a = rialOf s a + netRial a (inputLines (deliveryJournal g fee undo)) \<and>
           gramsOf s' a = gramsOf s a + netGrams a (inputLines (deliveryJournal g fee undo))"
    if "\<not> starts_with CASH_ROOT_CODE a"
    using postJournal_balance [OF wf_bank_ledger [OF wf] j that] by simp
qed

lemma approve_effect:
  assumes wf: "wf_bank s" and g: "on_grid (rqGrams r)" and h: "orderHold s (rqId r) HOLD_PHYSICAL_DELIVERY = Some h"
    and a: "approveWrites s c admin r h w fee = Inr s'"
  defines "charge \<equiv> (if 0 < fee then fee else 0)"
  shows "money_write s s' (- charge) (- charge) (- rqGrams r) (- rqGrams r)"
    and "pdRequests s' = update_where (\<lambda>x. rqId x = rqId r)
           (\<lambda>x. x\<lparr>rqStatus := PD_APPROVED, rqFee := fee, rqApprovedBy := Some admin\<rparr>) (pdRequests s)"
    and "vaultMoves s' = vaultMoves s @ map (\<lambda>m. \<lparr>vmPlace = fst m, vmGrams = snd m, vmRef = rqId r\<rparr>)
           [(VAULT_PHYSICAL, - rqGrams r), (VAULT_RESERVED, rqGrams r)]"
    and "holds s' = delete_where (\<lambda>x. hId x = hId h) (holds s)"
    and "\<exists>s1. walletAdd s (wId w) (- charge) (- rqGrams r) = Inr s1 \<and> wallets s' = wallets s1"
    and "\<exists>v \<in> set (invoices s'). ivSource v = SRC_PHYSICAL_DELIVERY \<and> ivSourceId v = rqId r \<and> ivKind v = INVOICE \<and>
           (v \<in> set (invoices s) \<or> ivStatus v = IV_PAID \<and> ivTotal v = fee)"
    and "\<not> starts_with CASH_ROOT_CODE k \<Longrightarrow>
           rialOf s' k = rialOf s k + netRial k (inputLines (deliveryJournal (rqGrams r) fee False)) \<and>
           gramsOf s' k = gramsOf s k + netGrams k (inputLines (deliveryJournal (rqGrams r) fee False))"
proof -
  let ?dr = "if 0 < fee then - fee else 0"
  obtain s1 s2 v where s1: "walletAdd s (wId w) ?dr (- rqGrams r) = Inr s1" and s2: "issue s1 (pdInvoice r fee) = Inr (s2, v)"
    using a by (auto simp: approveWrites_def Let_def)
  define s3 where "s3 = setLinked (dropHold s2 (Some (hId h))) (rqId r) TX_PENDING (\<lambda>x. x\<lparr>tStatus := TX_COMPLETED, tFee := Some fee\<rparr>)"
  define s4 where "s4 = (if 0 < fee then addLinked s3 c (rqUser r) (wId w) (rqId r) FEE TX_COMPLETED (Some fee) None else s3)"
  define s5 where "s5 = setRequest s4 (rqId r) (\<lambda>x. x\<lparr>rqStatus := PD_APPROVED, rqFee := fee, rqApprovedBy := Some admin\<rparr>)"
  have "(case postAccounting s5 c (rqGrams r) fee False of Inl e \<Rightarrow> Inl e
      | Inr s6 \<Rightarrow> Inr (postVault s6 (rqId r) [(VAULT_PHYSICAL, - rqGrams r), (VAULT_RESERVED, rqGrams r)])) = Inr s'"
    using a unfolding approveWrites_def s5_def s4_def s3_def by (simp only: s1 s2 sum.case prod.case Let_def)
  then obtain s6 where s6: "postAccounting s5 c (rqGrams r) fee False = Inr s6"
    and s': "s' = postVault s6 (rqId r) [(VAULT_PHYSICAL, - rqGrams r), (VAULT_RESERVED, rqGrams r)]"
    by auto
  have dr: "?dr = - charge" by (simp add: charge_def)
  note f1 = same_pickup_wallet [OF s1] and f2 = same_pickup_issue [OF s2]
  have m1: "money_write s s1 (- charge) 0 (- rqGrams r) 0" using money_write_wallet [OF wf s1] g by (simp add: dr)
  then have wf1: "wf_bank s1" by (simp add: money_write_def)
  have "orderHold s2 (rqId r) HOLD_PHYSICAL_DELIVERY = Some h" using h f1 f2 by (simp add: orderHold_def same_pickup_def)
  then have "calm s2 (dropHold s2 (Some (hId h)))" using calm_dropOrderHold [of HOLD_PHYSICAL_DELIVERY s2 "rqId r"] by simp
  then have "calm s2 s3" unfolding s3_def using calm_trans calm_setLinked by blast
  then have "calm s2 s4" unfolding s4_def using calm_trans calm_addLinked by fastforce
  then have c5: "calm s1 s5" unfolding s5_def
    using calm_trans [OF calm_quiet [OF issue_quiet(1) [OF s2]]] calm_trans calm_setRequest by blast
  have m5: "money_write s1 s5 0 0 0 0" by (rule money_write_calm [OF wf1 c5])
  then have wf5: "wf_bank s5" by (simp add: money_write_def)
  note p = post_effect [OF wf5 s6]
  have m6: "money_write s6 s' 0 0 0 0" unfolding s'
    by (rule money_write_calm [OF _ calm_postVault]) (use p(1) in \<open>simp add: money_write_def\<close>)
  show "money_write s s' (- charge) (- charge) (- rqGrams r) (- rqGrams r)"
    using money_write_trans [OF money_write_trans [OF money_write_trans [OF m1 m5] p(1)] m6]
    by (simp add: charge_def split: if_splits)
  note f = f1 f2 p(2)
  show "pdRequests s' = update_where (\<lambda>x. rqId x = rqId r)
      (\<lambda>x. x\<lparr>rqStatus := PD_APPROVED, rqFee := fee, rqApprovedBy := Some admin\<rparr>) (pdRequests s)"
    using f by (simp add: s' s5_def s4_def s3_def same_pickup_def)
  show "vaultMoves s' = vaultMoves s @ map (\<lambda>m. \<lparr>vmPlace = fst m, vmGrams = snd m, vmRef = rqId r\<rparr>)
      [(VAULT_PHYSICAL, - rqGrams r), (VAULT_RESERVED, rqGrams r)]"
    using f by (simp add: s' s5_def s4_def s3_def same_pickup_def)
  show "holds s' = delete_where (\<lambda>x. hId x = hId h) (holds s)"
    using f by (simp add: s' s5_def s4_def s3_def same_pickup_def dropHold_def)
  have e2: "wallets s2 = wallets s1" "accounts s5 = accounts s"
    using issue_quiet(1) [OF s2] c5 walletAdd_frame [OF s1] by (simp_all add: quiet_def calm_def)
  then have "wallets s' = wallets s1" using p(2) by (simp add: s' s5_def s4_def s3_def)
  then show "\<exists>s1. walletAdd s (wId w) (- charge) (- rqGrams r) = Inr s1 \<and> wallets s' = wallets s1"
    using s1 unfolding dr by blast
  have "ivSource v = SRC_PHYSICAL_DELIVERY \<and> ivSourceId v = rqId r \<and> ivKind v = INVOICE \<and>
      (v \<in> set (invoices s1) \<or> ivStatus v = IV_PAID \<and> ivTotal v = fee)"
    using s2 by (auto simp: issue_def pdInvoice_def newInvoice_def sumItems_def Let_def sequenceNext_def dest: find_SomeD
        split: if_splits option.splits)
  then show "\<exists>v \<in> set (invoices s'). ivSource v = SRC_PHYSICAL_DELIVERY \<and> ivSourceId v = rqId r \<and> ivKind v = INVOICE \<and>
      (v \<in> set (invoices s) \<or> ivStatus v = IV_PAID \<and> ivTotal v = fee)"
    using f by (auto simp: s' s5_def s4_def s3_def)
  show "rialOf s' k = rialOf s k + netRial k (inputLines (deliveryJournal (rqGrams r) fee False)) \<and>
      gramsOf s' k = gramsOf s k + netGrams k (inputLines (deliveryJournal (rqGrams r) fee False))"
    if "\<not> starts_with CASH_ROOT_CODE k"
  proof -
    have "rialOf s' k = rialOf s6 k" "gramsOf s' k = gramsOf s6 k" "rialOf s5 k = rialOf s k" "gramsOf s5 k = gramsOf s k"
      by (simp_all add: rialOf_def gramsOf_def s' e2)
    then show ?thesis using p(3) [OF that] by simp
  qed
qed

lemma refundApproval_effect:
  assumes wf: "wf_bank s" and g: "on_grid (rqGrams r)" and a: "refundApproval s c r = Inr s'"
  defines "charge \<equiv> (if 0 < rqFee r then rqFee r else 0)"
  shows "money_write s s' charge charge (rqGrams r) (rqGrams r)"
    and "pdRequests s' = pdRequests s" and "invoices s' = invoices s" and "holds s' = holds s"
    and "vaultMoves s' = vaultMoves s @ map (\<lambda>m. \<lparr>vmPlace = fst m, vmGrams = snd m, vmRef = rqId r\<rparr>)
           [(VAULT_RESERVED, - rqGrams r), (VAULT_PHYSICAL, rqGrams r)]"
    and "\<exists>w s1. walletOfUser s (rqUser r) = Some w \<and> walletAdd s (wId w) charge (rqGrams r) = Inr s1 \<and> wallets s' = wallets s1"
    and "\<not> starts_with CASH_ROOT_CODE k \<Longrightarrow>
           rialOf s' k = rialOf s k + netRial k (inputLines (deliveryJournal (rqGrams r) (rqFee r) True)) \<and>
           gramsOf s' k = gramsOf s k + netGrams k (inputLines (deliveryJournal (rqGrams r) (rqFee r) True))"
proof -
  obtain w s1 where w: "walletOfUser s (rqUser r) = Some w" and s1: "walletAdd s (wId w) charge (rqGrams r) = Inr s1"
    using a by (auto simp: refundApproval_def Let_def charge_def)
  define s2 where "s2 = setLinked s1 (rqId r) TX_COMPLETED (\<lambda>x. x\<lparr>tStatus := TX_FAILED\<rparr>)"
  define s3 where "s3 = (if 0 < rqFee r
    then addLinked s2 c (rqUser r) (wId w) (rqId r) REFUND TX_COMPLETED (Some (rqFee r)) None else s2)"
  have "(case postAccounting s3 c (rqGrams r) (rqFee r) True of Inl e \<Rightarrow> Inl e
      | Inr s4 \<Rightarrow> Inr (postVault s4 (rqId r) [(VAULT_RESERVED, - rqGrams r), (VAULT_PHYSICAL, rqGrams r)])) = Inr s'"
    using a unfolding refundApproval_def s3_def s2_def
    by (simp only: w s1 [unfolded charge_def] sum.case option.case prod.case Let_def)
  then obtain s4 where s4: "postAccounting s3 c (rqGrams r) (rqFee r) True = Inr s4"
    and s': "s' = postVault s4 (rqId r) [(VAULT_RESERVED, - rqGrams r), (VAULT_PHYSICAL, rqGrams r)]"
    by auto
  note f1 = same_pickup_wallet [OF s1]
  have m1: "money_write s s1 charge 0 (rqGrams r) 0" by (rule money_write_wallet [OF wf s1 g])
  have c3: "calm s1 s3" unfolding s3_def s2_def using calm_trans [OF calm_setLinked calm_addLinked] calm_setLinked by auto
  have m3: "money_write s1 s3 0 0 0 0" by (rule money_write_calm [OF _ c3]) (use m1 in \<open>simp add: money_write_def\<close>)
  then have wf3: "wf_bank s3" by (simp add: money_write_def)
  note p = post_effect [OF wf3 s4]
  have m4: "money_write s4 s' 0 0 0 0" unfolding s'
    by (rule money_write_calm [OF _ calm_postVault]) (use p(1) in \<open>simp add: money_write_def\<close>)
  show "money_write s s' charge charge (rqGrams r) (rqGrams r)"
    using money_write_trans [OF money_write_trans [OF money_write_trans [OF m1 m3] p(1)] m4]
    by (simp add: charge_def split: if_splits)
  note f = f1 p(2)
  show "pdRequests s' = pdRequests s" "invoices s' = invoices s" "holds s' = holds s"
    using f by (simp_all add: s' s3_def s2_def same_pickup_def)
  show "vaultMoves s' = vaultMoves s @ map (\<lambda>m. \<lparr>vmPlace = fst m, vmGrams = snd m, vmRef = rqId r\<rparr>)
      [(VAULT_RESERVED, - rqGrams r), (VAULT_PHYSICAL, rqGrams r)]"
    using f by (simp add: s' s3_def s2_def same_pickup_def)
  have "wallets s' = wallets s1" using p(2) by (simp add: s' s3_def s2_def)
  then show "\<exists>w s1. walletOfUser s (rqUser r) = Some w \<and> walletAdd s (wId w) charge (rqGrams r) = Inr s1 \<and> wallets s' = wallets s1"
    using w s1 by blast
  show "rialOf s' k = rialOf s k + netRial k (inputLines (deliveryJournal (rqGrams r) (rqFee r) True)) \<and>
      gramsOf s' k = gramsOf s k + netGrams k (inputLines (deliveryJournal (rqGrams r) (rqFee r) True))"
    if "\<not> starts_with CASH_ROOT_CODE k"
  proof -
    have "accounts s3 = accounts s" using c3 walletAdd_frame [OF s1] by (simp add: calm_def)
    then have "rialOf s' k = rialOf s4 k" "gramsOf s' k = gramsOf s4 k" "rialOf s3 k = rialOf s k" "gramsOf s3 k = gramsOf s k"
      by (simp_all add: rialOf_def gramsOf_def s')
    then show ?thesis using p(3) [OF that] by simp
  qed
qed

subsection \<open>The life of a request\<close>

inductive pd_next :: "pd_status \<Rightarrow> pd_status \<Rightarrow> bool" where
  Approve: "pd_next PD_PENDING PD_APPROVED"
| Refuse: "pd_next PD_PENDING PD_CANCELLED"
| Revoke: "pd_next PD_APPROVED PD_CANCELLED"
| Send: "pd_next PD_APPROVED PD_SHIPPED"
| HandOver: "pd_next PD_SHIPPED PD_DELIVERED"

inductive_cases pd_nextE: "pd_next a b"
inductive_simps pd_next_final [simp]: "pd_next PD_CANCELLED b" "pd_next PD_DELIVERED b" "pd_next a PD_PENDING"

definition ages :: "pd_request \<Rightarrow> pd_request \<Rightarrow> bool" where
  "ages r r' \<longleftrightarrow>
     rqId r' = rqId r \<and> rqUser r' = rqUser r \<and> rqAddress r' = rqAddress r \<and> rqGrams r' = rqGrams r \<and>
     rqCreated r' = rqCreated r \<and> pd_next\<^sup>*\<^sup>* (rqStatus r) (rqStatus r')"

definition pd_later :: "'a pickup_scheme \<Rightarrow> 'a pickup_scheme \<Rightarrow> bool" where
  "pd_later s s' \<longleftrightarrow> (\<forall>r \<in> set (pdRequests s). \<exists>r' \<in> set (pdRequests s'). ages r r')"

lemma ages_refl [simp]: "ages r r"
  by (simp add: ages_def)

lemma ages_trans: "ages a b \<Longrightarrow> ages b c \<Longrightarrow> ages a c"
  unfolding ages_def by (auto intro: rtranclp_trans)

lemma pd_later_refl [simp]: "pd_later s s"
  unfolding pd_later_def using ages_refl by blast

lemma pd_later_trans: "pd_later s s1 \<Longrightarrow> pd_later s1 s2 \<Longrightarrow> pd_later s s2"
  unfolding pd_later_def using ages_trans by blast

lemma pd_later_same: "set (pdRequests s) \<subseteq> set (pdRequests s') \<Longrightarrow> pd_later s s'"
  unfolding pd_later_def using ages_refl by blast

text \<open>What every call keeps: the invariant, the two gaps between wallets and books, and the life of the requests.\<close>

definition pickup_keeps :: "'a pickup_scheme \<Rightarrow> 'a pickup_scheme \<Rightarrow> bool" where
  "pickup_keeps s s' \<longleftrightarrow> pickup_ok s' \<and> rialGap s' = rialGap s \<and> gramGap s' = gramGap s \<and> pd_later s s'"

lemma pickup_keeps_refl: "pickup_ok s \<Longrightarrow> pickup_keeps s s"
  by (simp add: pickup_keeps_def)

lemma pickup_keeps_trans: "pickup_keeps s s1 \<Longrightarrow> pickup_keeps s1 s2 \<Longrightarrow> pickup_keeps s s2"
  unfolding pickup_keeps_def using pd_later_trans by fastforce

lemma money_gaps: "money_write s s' r r g g \<Longrightarrow> wf_bank s' \<and> rialGap s' = rialGap s \<and> gramGap s' = gramGap s"
  by (simp add: money_write_def rialGap_def gramGap_def)

text \<open>A request goes one step on.\<close>

lemma pickup_change:
  assumes ok: "pickup_ok s" and r: "requestById s i = Some r" and m: "money_write s s' a a g g"
    and q: "pdRequests s' = update_where (\<lambda>r. rqId r = i) f (pdRequests s)"
    and f: "\<And>x. rqId (f x) = rqId x \<and> rqUser (f x) = rqUser x \<and> rqAddress (f x) = rqAddress x \<and>
              rqGrams (f x) = rqGrams x \<and> rqCreated (f x) = rqCreated x \<and> rqStatus (f x) = st"
    and e: "pd_next (rqStatus r) st"
    and v: "vaultMoves s' = vaultMoves s @ map (\<lambda>m. \<lparr>vmPlace = fst m, vmGrams = snd m, vmRef = i\<rparr>) ms"
    and ms: "\<And>p. sum_where (\<lambda>m. fst m = p) snd ms = (inVault st p - inVault (rqStatus r) p) * rqGrams r"
    and hi: "\<And>k. pdHolds (holds s') k = (if k = i then [] else pdHolds (holds s) k)"
    and hs: "set (holds s') \<subseteq> set (holds s)"
    and ow: "\<And>w. walletOwner s' w = walletOwner s w"
  shows "pickup_keeps s s'"
proof -
  have wf: "wf_pickup s" and n: "nextId s \<le> nextId s'" using ok m by (simp_all add: pickup_ok_def money_write_def)
  have "st \<noteq> PD_PENDING" using e by auto
  then have "wf_pickup s'" using wf_pickup_change [OF wf r n q _ _ v ms hi hs ow] f by blast
  moreover have "\<exists>y \<in> set (pdRequests s'). ages x y" if x: "x \<in> set (pdRequests s)" for x
  proof (cases "rqId x = i")
    case True
    then have "x = r" using requestById_of [OF wf x] r by simp
    then have "ages x (f x)" using f [of x] e by (simp add: ages_def)
    then show ?thesis using x True unfolding q set_update_where by force
  next
    case False
    then show ?thesis using x unfolding q set_update_where by force
  qed
  ultimately show ?thesis using money_gaps [OF m] by (simp add: pickup_keeps_def pickup_ok_def pd_later_def)
qed

lemma sum_two_places:
  "sum_where (\<lambda>m. fst m = p) snd [(a, x), (b, y)] = (if a = p then x else 0) + (if b = p then y else (0 :: rat))"
  by simp

lemma approve_keeps:
  assumes ok: "pickup_ok s" and a: "pdApprove s c admin i = Inr (s', b)"
  shows "pickup_keeps s s'"
proof -
  obtain r where r: "requestById s i = Some r" and c: "rqStatus r = PD_APPROVED \<and> s' = s \<or> rqStatus r = PD_PENDING \<and>
      (\<exists>h w. orderHold s i HOLD_PHYSICAL_DELIVERY = Some h \<and> approveWrites s c admin r h w (approvalFee s r) = Inr s')"
    using a by (auto simp: pdApprove_def Let_def split: if_splits)
  have wf: "wf_bank s" "wf_pickup s" using ok by (simp_all add: pickup_ok_def)
  note r' = wf_request [OF wf(2) r]
  show ?thesis
  proof (cases "s' = s")
    case False
    then obtain h w where st: "rqStatus r = PD_PENDING" and h: "orderHold s (rqId r) HOLD_PHYSICAL_DELIVERY = Some h"
      and w: "approveWrites s c admin r h w (approvalFee s r) = Inr s'" using c r'(1) by auto
    note e = approve_effect [OF wf(1) r'(4) h w, unfolded r'(1)]
    obtain k where k: "pdHolds (holds s) i = [k]" using r'(1,5) st by (auto simp: backed_def)
    have "h = k" using h k by (simp add: orderHold_pdHolds r'(1))
    then have hd: "pdHolds (holds s') n = (if n = i then [] else pdHolds (holds s) n)" for n
      unfolding e(4) using pdHolds_drop [OF _ k, of n] wf(1) by (simp add: wf_bank_def wf_except_def wf_holds_def)
    have ow: "walletOwner s' v = walletOwner s v" for v
      using e(5) walletOwner_add walletOwner_same by metis
    have ms: "sum_where (\<lambda>m. fst m = p) snd [(VAULT_PHYSICAL, - rqGrams r), (VAULT_RESERVED, rqGrams r)] =
        (inVault PD_APPROVED p - inVault (rqStatus r) p) * rqGrams r" for p by (cases p) (simp_all add: st)
    show ?thesis
      by (rule pickup_change [OF ok r e(1) e(2) _ _ e(3) ms hd _ ow]) (auto simp: st pd_next.simps e(4))
  qed (simp add: pickup_keeps_refl ok)
qed

text \<open>Closing a pending request: its holds go, its transaction fails.\<close>

lemma close_keeps:
  assumes ok: "pickup_ok s" and r: "requestById s i = Some r" and st: "rqStatus r = PD_PENDING"
    and f: "\<And>x. rqId (f x) = rqId x \<and> rqUser (f x) = rqUser x \<and> rqAddress (f x) = rqAddress x \<and>
              rqGrams (f x) = rqGrams x \<and> rqCreated (f x) = rqCreated x \<and> rqStatus (f x) = PD_CANCELLED"
  shows "pickup_keeps s (setRequest (setLinked (dropOrderHolds s i HOLD_PHYSICAL_DELIVERY) i TX_PENDING g) i f)"
    (is "pickup_keeps s ?s'")
proof -
  have "calm s ?s'"
    by (rule calm_trans [OF calm_dropOrderHolds calm_trans [OF calm_setLinked calm_setRequest]]) simp
  then have m: "money_write s ?s' 0 0 0 0" using ok by (intro money_write_calm) (simp_all add: pickup_ok_def)
  have hd: "pdHolds (holds ?s') k = (if k = i then [] else pdHolds (holds s) k)" for k
    by (simp add: dropOrderHolds_def pdHolds_other pdHolds_gone)
  have ms: "sum_where (\<lambda>m. fst m = p) snd [] = (inVault PD_CANCELLED p - inVault (rqStatus r) p) * rqGrams r" for p
    by (cases p) (simp_all add: st)
  show ?thesis
    by (rule pickup_change [OF ok r m _ f _ _ ms hd]) (auto simp: st pd_next.simps intro: walletOwner_same)
qed

lemma cancelByUser_keeps:
  assumes ok: "pickup_ok s" and a: "pdCancelByUser s u i = Inr (s', b)"
  shows "pickup_keeps s s'"
proof -
  have wf: "wf_pickup s" using ok by (simp add: pickup_ok_def)
  obtain r where f: "find (\<lambda>r. rqId r = i \<and> rqUser r = u) (pdRequests s) = Some r"
    and c: "s' = s \<or> rqStatus r = PD_PENDING \<and>
      s' = closeRequest (setLinked (dropOrderHolds s i HOLD_PHYSICAL_DELIVERY) i TX_PENDING (\<lambda>x. x\<lparr>tStatus := TX_FAILED\<rparr>)) i"
    using a by (auto simp: pdCancelByUser_def split: if_splits)
  note r = request_of_user(1) [OF wf f]
  show ?thesis using c pickup_keeps_refl [OF ok] close_keeps [OF ok r] by (auto simp: closeRequest_def)
qed

lemma adminCancel_keeps:
  assumes ok: "pickup_ok s" and a: "pdAdminCancel s c admin i = Inr (s', b)"
  shows "pickup_keeps s s'"
proof -
  have wf: "wf_bank s" "wf_pickup s" using ok by (simp_all add: pickup_ok_def)
  let ?f = "\<lambda>x :: pd_request. x\<lparr>rqStatus := PD_CANCELLED, rqApprovedBy := Some admin\<rparr>"
  obtain r where r: "requestById s i = Some r" and c: "s' = s \<or>
      rqStatus r = PD_PENDING \<and> s' = setRequest (setLinked (dropOrderHolds s i HOLD_PHYSICAL_DELIVERY) i TX_PENDING
        (\<lambda>x. x\<lparr>tStatus := TX_FAILED\<rparr>)) i ?f \<or>
      rqStatus r = PD_APPROVED \<and> (\<exists>s1. refundApproval s c r = Inr s1 \<and> s' = setRequest s1 i ?f)"
    using a pd_status.exhaust by (auto simp: pdAdminCancel_def split: if_splits)
  note r' = wf_request [OF wf(2) r]
  consider "s' = s" | "rqStatus r = PD_PENDING" "s' = setRequest (setLinked (dropOrderHolds s i HOLD_PHYSICAL_DELIVERY) i TX_PENDING
        (\<lambda>x. x\<lparr>tStatus := TX_FAILED\<rparr>)) i ?f"
    | s1 where "rqStatus r = PD_APPROVED" "refundApproval s c r = Inr s1" "s' = setRequest s1 i ?f" using c by blast
  then show ?thesis
  proof cases
    case 1
    then show ?thesis using pickup_keeps_refl [OF ok] by simp
  next
    case 2
    then show ?thesis using close_keeps [OF ok r 2(1), where f = ?f] by simp
  next
    case (3 s1)
    note e = refundApproval_effect [OF wf(1) r'(4) 3(2), unfolded r'(1)]
    have "money_write s1 s' 0 0 0 0" unfolding 3(3)
      by (rule money_write_calm [OF _ calm_setRequest]) (use e(1) in \<open>simp add: money_write_def\<close>)
    from money_write_trans [OF e(1) this]
    have m: "money_write s s' (if 0 < rqFee r then rqFee r else 0) (if 0 < rqFee r then rqFee r else 0) (rqGrams r) (rqGrams r)"
      by simp
    have v: "vaultMoves s' = vaultMoves s @ map (\<lambda>m. \<lparr>vmPlace = fst m, vmGrams = snd m, vmRef = i\<rparr>)
        [(VAULT_RESERVED, - rqGrams r), (VAULT_PHYSICAL, rqGrams r)]" using e(5) by (simp add: 3(3))
    have ms: "sum_where (\<lambda>m. fst m = p) snd [(VAULT_RESERVED, - rqGrams r), (VAULT_PHYSICAL, rqGrams r)] =
        (inVault PD_CANCELLED p - inVault (rqStatus r) p) * rqGrams r" for p by (cases p) (simp_all add: 3(1))
    have hd: "pdHolds (holds s') k = (if k = i then [] else pdHolds (holds s) k)" for k
      using r'(1,5) 3(1) by (auto simp: 3(3) e(4) backed_def)
    obtain w0 :: wallet and s0 where s0: "walletAdd s (wId w0) (if 0 < rqFee r then rqFee r else 0) (rqGrams r) = Inr s0"
      "wallets s1 = wallets s0" using e(6) by blast
    have ow: "walletOwner s' v = walletOwner s v" for v
      using walletOwner_add [OF s0(1)] walletOwner_same [of s' s0] s0(2) by (simp add: 3(3))
    show ?thesis
      by (rule pickup_change [OF ok r m _ _ _ v ms hd _ ow]) (auto simp: 3 e pd_next.simps)
  qed
qed

lemma parcel_frame [simp]:
  fixes s :: "'a pickup_scheme"
  shows "calm s (s\<lparr>nextId := nextId s + 1, pdParcels := ps\<rparr>)" "calm s (s\<lparr>pdParcels := ps\<rparr>)"
  by (rule calm_same_holds; simp)+

lemma ship_keeps:
  assumes ok: "pickup_ok s" and a: "pdShip s i tracking = Inr (s', b)"
  shows "pickup_keeps s s'"
proof -
  have wf: "wf_bank s" "wf_pickup s" using ok by (simp_all add: pickup_ok_def)
  let ?f = "\<lambda>x :: pd_request. x\<lparr>rqStatus := PD_SHIPPED, rqTracking := Some tracking\<rparr>"
  obtain r ps where r: "requestById s i = Some r" and c: "s' = s \<or> rqStatus r = PD_APPROVED \<and>
      s' = postVault ((setRequest s i ?f)\<lparr>nextId := nextId (setRequest s i ?f) + 1, pdParcels := ps\<rparr>) i
        [(VAULT_RESERVED, - rqGrams r), (VAULT_IN_TRANSIT, rqGrams r)]"
    using a by (auto simp: pdShip_def Let_def split: if_splits)
  note r' = wf_request [OF wf(2) r]
  show ?thesis
  proof (cases "s' = s")
    case False
    then have st: "rqStatus r = PD_APPROVED" and
      s': "s' = postVault ((setRequest s i ?f)\<lparr>nextId := nextId (setRequest s i ?f) + 1, pdParcels := ps\<rparr>) i
        [(VAULT_RESERVED, - rqGrams r), (VAULT_IN_TRANSIT, rqGrams r)]" using c by auto
    have "calm s s'" unfolding s' by (rule calm_trans [OF calm_setRequest calm_trans [OF parcel_frame(1) calm_postVault]])
    then have m: "money_write s s' 0 0 0 0" by (rule money_write_calm [OF wf(1)])
    have ms: "sum_where (\<lambda>m. fst m = p) snd [(VAULT_RESERVED, - rqGrams r), (VAULT_IN_TRANSIT, rqGrams r)] =
        (inVault PD_SHIPPED p - inVault (rqStatus r) p) * rqGrams r" for p by (cases p) (simp_all add: st)
    have hd: "pdHolds (holds s') k = (if k = i then [] else pdHolds (holds s) k)" for k
      using r'(1,5) st by (auto simp: s' backed_def)
    show ?thesis
      by (rule pickup_change [OF ok r m, where f = ?f and st = PD_SHIPPED, OF _ _ _ _ ms hd])
        (auto simp: s' st pd_next.simps intro: walletOwner_same)
  qed (simp add: pickup_keeps_refl ok)
qed

lemma deliver_keeps:
  assumes ok: "pickup_ok s" and a: "pdDeliver s c i = Inr (s', b)"
  shows "pickup_keeps s s'"
proof -
  have wf: "wf_bank s" "wf_pickup s" using ok by (simp_all add: pickup_ok_def)
  let ?f = "\<lambda>x :: pd_request. x\<lparr>rqStatus := PD_DELIVERED\<rparr>"
  have same: "(if parcelsOf s i = [] then setRequest s i ?f else (setRequest s i ?f)\<lparr>pdParcels := ps\<rparr>) =
      (setRequest s i ?f)\<lparr>pdParcels := (if parcelsOf s i = [] then pdParcels s else ps)\<rparr>" for ps
    by (simp add: setRequest_def)
  obtain r ps where r: "requestById s i = Some r" and c: "s' = s \<or> rqStatus r = PD_SHIPPED \<and>
      s' = postVault ((setRequest s i ?f)\<lparr>pdParcels := ps\<rparr>) i [(VAULT_IN_TRANSIT, - rqGrams r)]"
    using a unfolding pdDeliver_def Let_def same by (auto split: if_splits simp del: if_cancel)
  note r' = wf_request [OF wf(2) r]
  show ?thesis
  proof (cases "s' = s")
    case False
    then have st: "rqStatus r = PD_SHIPPED" and
      s': "s' = postVault ((setRequest s i ?f)\<lparr>pdParcels := ps\<rparr>) i [(VAULT_IN_TRANSIT, - rqGrams r)]" using c by auto
    have "calm s s'" unfolding s' by (rule calm_trans [OF calm_setRequest calm_trans [OF parcel_frame(2) calm_postVault]])
    then have m: "money_write s s' 0 0 0 0" by (rule money_write_calm [OF wf(1)])
    have ms: "sum_where (\<lambda>m. fst m = p) snd [(VAULT_IN_TRANSIT, - rqGrams r)] =
        (inVault PD_DELIVERED p - inVault (rqStatus r) p) * rqGrams r" for p by (cases p) (simp_all add: st)
    have hd: "pdHolds (holds s') k = (if k = i then [] else pdHolds (holds s) k)" for k
      using r'(1,5) st by (auto simp: s' backed_def)
    show ?thesis
      by (rule pickup_change [OF ok r m, where f = ?f and st = PD_DELIVERED, OF _ _ _ _ ms hd])
        (auto simp: s' st pd_next.simps intro: walletOwner_same)
  qed (simp add: pickup_keeps_refl ok)
qed

lemma pdHolds_append:
  "pdHolds (hs @ [h]) i = pdHolds hs i @ (if hRef h = Some i \<and> hType h = HOLD_PHYSICAL_DELIVERY then [h] else [])"
  by (simp add: pdHolds_def)

text \<open>The hourly job. A hold taken from the list at the start is still there when its request is pending.\<close>

lemma pdHolds_iff: "h \<in> set (pdHolds hs i) \<longleftrightarrow> h \<in> set hs \<and> hRef h = Some i \<and> hType h = HOLD_PHYSICAL_DELIVERY"
  by (auto simp: pdHolds_def)

definition still_held :: "'a pickup_scheme \<Rightarrow> hold \<Rightarrow> bool" where
  "still_held s h \<longleftrightarrow> hType h = HOLD_PHYSICAL_DELIVERY \<and>
     (\<forall>i r. hRef h = Some i \<and> requestById s i = Some r \<and> rqStatus r = PD_PENDING \<longrightarrow> h \<in> set (holds s))"

lemma expireHold_cases:
  obtains "expireHold s h = s" "\<And>i r. hRef h = Some i \<Longrightarrow> requestById s i = Some r \<Longrightarrow> rqStatus r \<noteq> PD_PENDING"
  | i r where "hRef h = Some i" "requestById s i = Some r" "rqStatus r = PD_PENDING"
      "expireHold s h = closeRequest (setLinked (dropHold s (Some (hId h))) i TX_PENDING (\<lambda>x. x\<lparr>tStatus := TX_FAILED\<rparr>)) i"
  unfolding expireHold_def by (cases "hRef h"; cases "requestById s (the (hRef h))") (force split: if_splits)+

lemma expireHold_keeps:
  assumes ok: "pickup_ok s" and h: "still_held s h"
  shows "pickup_keeps s (expireHold s h)"
proof (cases rule: expireHold_cases [of s h])
  case 1
  then show ?thesis using pickup_keeps_refl [OF ok] by simp
next
  case (2 i r)
  have wf: "wf_bank s" "wf_pickup s" using ok by (simp_all add: pickup_ok_def)
  note r' = wf_request [OF wf(2) 2(2)]
  let ?s = "expireHold s h"
  have hin: "h \<in> set (holds s)" "hType h = HOLD_PHYSICAL_DELIVERY" using h 2(1-3) by (auto simp: still_held_def)
  obtain k where "pdHolds (holds s) i = [k]" using r'(1,5) 2(3) by (auto simp: backed_def)
  then have k: "pdHolds (holds s) i = [h]" using pdHolds_iff [of h "holds s" i] hin 2(1) by simp
  have dist: "distinct (map hId (holds s))" using wf(1) by (simp add: wf_bank_def wf_except_def wf_holds_def)
  have "calm s (dropHold s (Some (hId h)))"
    using calm_dropOrderHold [of HOLD_PHYSICAL_DELIVERY s i] k by (simp add: orderHold_pdHolds)
  then have "calm s ?s" unfolding 2(4) closeRequest_def
    by (rule calm_trans [OF _ calm_trans [OF calm_setLinked calm_setRequest]])
  then have m: "money_write s ?s 0 0 0 0" by (rule money_write_calm [OF wf(1)])
  have hs: "holds ?s = delete_where (\<lambda>x. hId x = hId h) (holds s)" by (simp add: 2(4) closeRequest_def dropHold_def)
  have hd: "pdHolds (holds ?s) n = (if n = i then [] else pdHolds (holds s) n)" for n
    unfolding hs by (rule pdHolds_drop [OF dist k])
  have ms: "sum_where (\<lambda>m. fst m = p) snd [] = (inVault PD_CANCELLED p - inVault (rqStatus r) p) * rqGrams r" for p
    by (cases p) (simp_all add: 2(3))
  show ?thesis
    by (rule pickup_change [OF ok 2(2) m, where f = "\<lambda>r. r\<lparr>rqStatus := PD_CANCELLED\<rparr>" and st = PD_CANCELLED, OF _ _ _ _ ms hd])
      (auto simp: 2(3,4) closeRequest_def holds_dropHold pd_next.simps intro: walletOwner_same)
qed

lemma closeRequest_other: "requestById (closeRequest s i) k = (if k = i then map_option (\<lambda>r. r\<lparr>rqStatus := PD_CANCELLED\<rparr>) (requestById s i) else requestById s k)"
proof (cases "k = i")
  case True
  then show ?thesis unfolding requestById_def closeRequest_def
    by (simp add: find_update_where_same [where k = rqId and f = "\<lambda>r. r\<lparr>rqStatus := PD_CANCELLED\<rparr>"])
next
  case False
  then show ?thesis unfolding requestById_def closeRequest_def
    by (auto simp: intro!: find_update_where_other)
qed

lemma still_held_next:
  assumes ok: "pickup_ok s" and h: "still_held s h" and x: "still_held s x"
  shows "still_held (expireHold s x) h"
proof (cases rule: expireHold_cases [of s x])
  case 1
  then show ?thesis using h by simp
next
  case (2 i r)
  have dist: "distinct (map hId (holds s))" using ok by (simp add: pickup_ok_def wf_bank_def wf_except_def wf_holds_def)
  have xin: "x \<in> set (holds s)" using x 2(1-3) by (auto simp: still_held_def)
  have q: "requestById (expireHold s x) k = (if k = i then Some (r\<lparr>rqStatus := PD_CANCELLED\<rparr>) else requestById s k)" for k
    using 2(2) by (simp add: 2(4) closeRequest_other) (simp add: requestById_def)
  have hs: "holds (expireHold s x) = delete_where (\<lambda>y. hId y = hId x) (holds s)"
    by (simp add: 2(4) closeRequest_def dropHold_def)
  have "h \<in> set (holds (expireHold s x))"
    if a: "hRef h = Some k" "requestById (expireHold s x) k = Some y" "rqStatus y = PD_PENDING" for k y
  proof -
    have k: "k \<noteq> i" using a(2,3) by (auto simp: q)
    then have "h \<in> set (holds s)" using h a by (auto simp: q still_held_def)
    moreover have "hId h \<noteq> hId x" using inj_onD [of hId "set (holds s)" h x] dist calculation xin k a(1) 2(1)
      by (auto simp: distinct_map)
    ultimately show ?thesis by (simp add: hs)
  qed
  then show ?thesis using h by (auto simp: still_held_def)
qed

lemma expire_loop: "pickup_ok s \<Longrightarrow> (\<And>h. h \<in> set hs \<Longrightarrow> still_held s h) \<Longrightarrow> pickup_keeps s (foldl expireHold s hs)"
proof (induction hs arbitrary: s)
  case Nil
  then show ?case by (simp add: pickup_keeps_refl)
next
  case (Cons h hs)
  have k: "pickup_keeps s (expireHold s h)" by (rule expireHold_keeps) (use Cons.prems in auto)
  then have "pickup_ok (expireHold s h)" by (simp add: pickup_keeps_def)
  then have "pickup_keeps (expireHold s h) (foldl expireHold (expireHold s h) hs)"
    using still_held_next Cons.prems by (intro Cons.IH) auto
  then show ?case using pickup_keeps_trans [OF k] by simp
qed

lemma expire_keeps: "pickup_ok s \<Longrightarrow> pickup_keeps s (pdExpireStale s c)"
  unfolding pdExpireStale_def by (rule expire_loop) (auto simp: still_held_def)

subsection \<open>A new request\<close>

lemma placeRequest_frame:
  fixes s :: "'a pickup_scheme"
  shows "pdRequests (placeRequest s c u addr w g) = pdRequests s @ [newRequest (nextId s) c u addr g]"
    "vaultMoves (placeRequest s c u addr w g) = vaultMoves s" "wallets (placeRequest s c u addr w g) = wallets s"
    "nextId (placeRequest s c u addr w g) = nextId s + 3"
    "holds (placeRequest s c u addr w g) = holds s @ [\<lparr>hId = nextId s + 1, hWallet = w, hRial = None, hGrams = Some g,
       hType = HOLD_PHYSICAL_DELIVERY, hRef = Some (nextId s), hExpires = now c + HOLD_DURATION_DAYS * day_ms\<rparr>]"
  by (simp_all add: placeRequest_def Let_def)

lemma calm_placeRequest: "calm s (placeRequest s c u addr w g)"
proof -
  let ?s = "s\<lparr>nextId := nextId s + 1, pdRequests := pdRequests s @ [newRequest (nextId s) c u addr g]\<rparr>"
  have "calm s ?s" by (rule calm_same_holds) simp_all
  then show ?thesis unfolding placeRequest_def Let_def
    by (rule calm_trans [OF _ calm_trans [OF calm_addHold calm_addLinked]]) simp
qed

lemma place_keeps:
  assumes ok: "pickup_ok s" and w: "walletOfUser s u = Some w" and g: "0 < g" "on_grid g"
  shows "pickup_keeps s (placeRequest s c u addr (wId w) g)" (is "pickup_keeps s ?s")
proof -
  have wf: "wf_bank s" "wf_pickup s" using ok by (simp_all add: pickup_ok_def)
  note f = placeRequest_frame [of s c u addr "wId w" g]
  have ow: "walletOwner ?s v = walletOwner s v" for v by (rule walletOwner_same) (simp add: f)
  have w': "w \<in> set (wallets s)" "wUser w = u" using w by (auto simp: walletOfUser_def dest: find_SomeD)
  then have "walletOwner s (wId w) = Some u"
    using wf(1) find_unique [of wId "wallets s" w]
    by (simp add: walletOwner_def walletById_def wf_bank_def wf_except_def wf_wallets_def)
  moreover have "pdHolds (holds s) (nextId s) = []"
    using wf(2) by (fastforce simp: pdHolds_def wf_pickup_def filter_empty_conv)
  moreover have "vaultSum s p (nextId s) = 0" for p
  proof -
    have "vmRef m \<noteq> nextId s" if "m \<in> set (vaultMoves s)" for m using wf(2) that by (auto simp: wf_pickup_def)
    then have "vaultSum s p (nextId s) = sum_where (\<lambda>_. False) vmGrams (vaultMoves s)"
      unfolding vaultSum_def by (intro sum_where_cong) auto
    then show ?thesis by (simp add: sum_where_def)
  qed
  moreover have "inVault PD_PENDING p = 0" for p by (cases p) simp_all
  ultimately have "backed ?s (newRequest (nextId s) c u addr g)"
    by (simp add: backed_def newRequest_def f ow pdHolds_def vaultSum_def)
  moreover have "backed ?s x" if x: "x \<in> set (pdRequests s)" for x
  proof -
    have "backed s x" "rqId x < nextId s" using wf(2) x by (auto simp: wf_pickup_def)
    then show ?thesis by (simp add: backed_def f ow pdHolds_append vaultSum_def)
  qed
  moreover have "distinct (map rqId (pdRequests ?s))"
    using wf(2) by (fastforce simp: f newRequest_def wf_pickup_def)
  ultimately have "wf_pickup ?s"
    using wf(2) g unfolding wf_pickup_def f by (auto simp: newRequest_def less_Suc_eq)
  then show ?thesis
    using money_gaps [OF money_write_calm [OF wf(1) calm_placeRequest]] pd_later_same [of s ?s]
    by (auto simp: pickup_keeps_def pickup_ok_def f)
qed

lemma replies_keeps: "pickup_keeps s s' \<Longrightarrow> pickup_keeps s (s'\<lparr>pdReplies := x\<rparr>)"
proof -
  assume k: "pickup_keeps s s'"
  have "calm s' (s'\<lparr>pdReplies := x\<rparr>)" by (rule calm_same_holds) simp_all
  then have "money_write s' (s'\<lparr>pdReplies := x\<rparr>) 0 0 0 0"
    using k by (intro money_write_calm) (simp_all add: pickup_keeps_def pickup_ok_def)
  moreover have "walletOwner (s'\<lparr>pdReplies := x\<rparr>) w = walletOwner s' w" for w by (rule walletOwner_same) simp
  then have "backed (s'\<lparr>pdReplies := x\<rparr>) r = backed s' r" for r by (simp add: backed_def vaultSum_def)
  then have "wf_pickup (s'\<lparr>pdReplies := x\<rparr>)" using k by (simp add: pickup_keeps_def pickup_ok_def wf_pickup_def)
  ultimately show ?thesis using k money_gaps
    by (fastforce simp: pickup_keeps_def pickup_ok_def pd_later_def)
qed

lemma numeric4_pos:
  assumes "1 / 100 \<le> x" shows "0 < numeric4 x"
proof -
  have "(100 :: rat) \<le> x * 10000" using assms by simp
  then have "100 \<le> round_half_up (x * 10000)" using round_half_up_mono [of 100 "x * 10000"] round_half_up_of_int [of 100] by simp
  then show ?thesis by (simp add: numeric4_def)
qed

lemma createInternal_cases:
  assumes "createInternal s c u addr amount = Inr (s', v)"
  obtains (Duplicate) r where "recentDuplicate s c u addr (numeric4 amount) = Some r" "s' = s" "v = toDto s r"
  | (Placed) w where "recentDuplicate s c u addr (numeric4 amount) = None" "walletOfUser s u = Some w"
      "numeric4 amount \<le> wGrams w - heldGrams s (now c) (wId w)"
      "s' = placeRequest s c u addr (wId w) (numeric4 amount)"
      "v = toDto s' (newRequest (nextId s) c u addr (numeric4 amount))"
      "getBoolean s ''physical_delivery.legacy_enabled'' False" "assertUserVerified s u = Inr ()"
      "fst (limitsOf s u) \<le> numeric4 amount" "numeric4 amount \<le> snd (limitsOf s u)"
      "\<exists>a \<in> set (addresses s). adId a = addr \<and> adUser a = u \<and> \<not> adDeleted a"
proof -
  have g: "getBoolean s ''physical_delivery.legacy_enabled'' False" "assertUserVerified s u = Inr ()"
      "fst (limitsOf s u) \<le> numeric4 amount" "numeric4 amount \<le> snd (limitsOf s u)"
      "list_ex (\<lambda>a. adId a = addr \<and> adUser a = u \<and> \<not> adDeleted a) (addresses s)"
    and r: "(case recentDuplicate s c u addr (numeric4 amount) of
           Some r \<Rightarrow> Inr (s, toDto s r)
         | None \<Rightarrow>
             (case walletOfUser s u of
                None \<Rightarrow> Inl (NotFound ''wallet'')
              | Some w \<Rightarrow>
                  if wGrams w - heldGrams s (now c) (wId w) < numeric4 amount then Inl (BadRequest ''insufficient gold'')
                  else (let s' = placeRequest s c u addr (wId w) (numeric4 amount) in
                        Inr (s', toDto s' (newRequest (nextId s) c u addr (numeric4 amount)))))) = Inr (s', v)"
    using assms unfolding createInternal_def Let_def by (simp_all add: not_less)
  have "\<exists>a \<in> set (addresses s). adId a = addr \<and> adUser a = u \<and> \<not> adDeleted a"
    using g(5) unfolding list_ex_iff by blast
  note g = g(1-4) this
  show thesis
  proof (cases "recentDuplicate s c u addr (numeric4 amount)")
    case None
    from r obtain w where "walletOfUser s u = Some w" "numeric4 amount \<le> wGrams w - heldGrams s (now c) (wId w)"
      "s' = placeRequest s c u addr (wId w) (numeric4 amount)"
      "v = toDto s' (newRequest (nextId s) c u addr (numeric4 amount))"
      by (auto simp: None Let_def not_less)
    then show thesis using Placed None g by blast
  next
    case (Some x)
    with r have "s' = s" "v = toDto s x" by auto
    then show thesis by (rule Duplicate [OF Some])
  qed
qed

lemma pdCreate_cases:
  assumes a: "pdCreate s c u addr amount key saved = Inr (s', v)"
  obtains (Again) "s' = s"
  | (Plain) "createInternal s c u addr amount = Inr (s', v)"
  | (Saved) s1 y where "key \<noteq> []" "createInternal s c u addr amount = Inr (s1, v)"
      "s' = s1\<lparr>pdReplies := (pdReplies s1)((u, key) \<mapsto> y)\<rparr>"
proof (cases "key = []")
  case True
  then show thesis using a Plain by (simp add: pdCreate_def withIdempotency_def)
next
  case key: False
  show thesis
  proof (cases "cachedReply s c u key")
    case None
    note a' = a [unfolded pdCreate_def withIdempotency_def None option.case if_not_P [OF key]]
    obtain s1 w where ci: "createInternal s c u addr amount = Inr (s1, w)" using a' by auto
    show thesis
    proof (cases saved)
      case True
      from a' have "w = v" "s' = s1\<lparr>pdReplies := (pdReplies s1)((u, key) \<mapsto> (v, now c + PD_IDEMPOTENCY_TTL_SECONDS * 1000))\<rparr>"
        unfolding ci by (auto simp: True)
      with ci show thesis using Saved [OF key] by blast
    next
      case nosave: False
      from a' have "createInternal s c u addr amount = Inr (s', v)" unfolding ci by (simp add: nosave)
      then show thesis by (rule Plain)
    qed
  next
    case (Some y)
    then have "s' = s" using a key by (simp add: pdCreate_def withIdempotency_def)
    then show thesis by (rule Again)
  qed
qed

lemma create_keeps:
  assumes ok: "pickup_ok s" and a: "pdCreate s c u addr amount key saved = Inr (s', v)"
  shows "pickup_keeps s s'"
proof -
  have g: "0 < numeric4 amount" using a by (intro numeric4_pos) (simp add: pdCreate_def)
  have k: "pickup_keeps s t" if "createInternal s c u addr amount = Inr (t, y)" for t y
    using that by (cases rule: createInternal_cases) (simp_all add: pickup_keeps_refl [OF ok] place_keeps [OF ok _ g])
  from a show ?thesis
    by (cases rule: pdCreate_cases) (simp_all add: pickup_keeps_refl [OF ok] k replies_keeps)
qed

subsection \<open>Sequences of calls\<close>

datatype pickup_op =
    AskPickup nat nat rat string bool
  | DropPickup nat nat
  | ApprovePickup nat nat
  | SendPickup nat string
  | HandOverPickup nat
  | RevokePickup nat nat
  | ExpirePickups

fun pickup_step :: "'a pickup_scheme \<Rightarrow> clock \<times> pickup_op \<Rightarrow> 'a pickup_scheme res" where
  "pickup_step s (c, AskPickup u addr amount key saved) = stateOf (pdCreate s c u addr amount key saved)"
| "pickup_step s (c, DropPickup u i) = stateOf (pdCancelByUser s u i)"
| "pickup_step s (c, ApprovePickup admin i) = stateOf (pdApprove s c admin i)"
| "pickup_step s (c, SendPickup i tracking) = stateOf (pdShip s i tracking)"
| "pickup_step s (c, HandOverPickup i) = stateOf (pdDeliver s c i)"
| "pickup_step s (c, RevokePickup admin i) = stateOf (pdAdminCancel s c admin i)"
| "pickup_step s (c, ExpirePickups) = Inr (pdExpireStale s c)"

lemma pickup_step_keeps:
  assumes ok: "pickup_ok s" and r: "pickup_step s (c, x) = Inr s'"
  shows "pickup_keeps s s'"
  using r expire_keeps [OF ok]
  by (cases x) (auto dest: create_keeps [OF ok] cancelByUser_keeps [OF ok] approve_keeps [OF ok] ship_keeps [OF ok]
      deliver_keeps [OF ok] adminCancel_keeps [OF ok])

lemma pickup_step_ok: "pickup_ok s \<Longrightarrow> pickup_step s p = Inr s' \<Longrightarrow> pickup_keeps s s'"
  using pickup_step_keeps by (cases p) auto

interpretation pickup_life: evolving_service
    "pickup_step :: 'a pickup_scheme \<Rightarrow> clock \<times> pickup_op \<Rightarrow> 'a pickup_scheme res" pickup_ok pd_later
proof unfold_locales
  fix s s' :: "'a pickup_scheme" and p
  assume "pickup_ok s" "pickup_step s p = Inr s'"
  from pickup_step_ok [OF this] show "pickup_ok s'" "pd_later s s'" by (simp_all add: pickup_keeps_def)
next
  show "pd_later s s" for s :: "'a pickup_scheme" by simp
  show "pd_later s s1 \<Longrightarrow> pd_later s1 s2 \<Longrightarrow> pd_later s s2" for s s1 s2 :: "'a pickup_scheme" by (rule pd_later_trans)
qed

interpretation pickup_rial: control_account
    "pickup_step :: 'a pickup_scheme \<Rightarrow> clock \<times> pickup_op \<Rightarrow> 'a pickup_scheme res" pickup_ok totalRial "\<lambda>s. rialOf s ''2010''"
  by unfold_locales (drule (1) pickup_step_ok, simp add: pickup_keeps_def rialGap_def)+

interpretation pickup_grams: control_account
    "pickup_step :: 'a pickup_scheme \<Rightarrow> clock \<times> pickup_op \<Rightarrow> 'a pickup_scheme res" pickup_ok totalGrams "\<lambda>s. gramsOf s ''2020''"
  by unfold_locales (drule (1) pickup_step_ok, simp add: pickup_keeps_def gramGap_def)+

end
