(* ===== verification/PhysicalProps.thy ===== *)
theory PhysicalProps
  imports PhysicalRuns "HOL-Library.Multiset"
begin

section \<open>Properties of physical deliveries\<close>

text \<open>
  The properties of \<open>Physical\<close>, with the request of a concrete user as their witness.
\<close>

subsection \<open>A concrete request\<close>

definition demoPickup :: pickup where
  "demoPickup =
     \<lparr>nextId = 100,
      accounts = [demoAccount 1 ''1010'' ASSET 3000000 0, demoAccount 2 ''2010'' LIABILITY 3000000 0,
        demoAccount 3 ''2020'' LIABILITY 0 5, demoAccount 4 ''1020'' ASSET 0 5, demoAccount 5 ''4010'' INCOME 0 0],
      journals = [], ledgerEntries = [], fiscalYears = [], lockedUntil = None,
      config = (\<lambda>k. Some (if k = ''physical_delivery.legacy_enabled'' then ''true'' else ''x'')), configNum = (\<lambda>_. None),
      users = [\<lparr>uId = 11, uStatus = ACTIVE, uIdentity = Some ID_VERIFIED\<rparr>],
      bankAccounts = [], wallets = [\<lparr>wId = 21, wUser = 11, wCard = ''1'', wRial = 3000000, wGrams = 5\<rparr>],
      holds = [\<lparr>hId = 91, hWallet = 21, hRial = None, hGrams = Some 2, hType = HOLD_PHYSICAL_DELIVERY, hRef = Some 90,
                hExpires = 900000\<rparr>,
               \<lparr>hId = 93, hWallet = 21, hRial = None, hGrams = Some 4, hType = HOLD_ORDER_GOLD, hRef = Some 95,
                hExpires = 2000000\<rparr>],
      transactions = [], withdrawals = [], approvals = [],
      sequences = (\<lambda>_. 1), jalaliYear = 1404, invoices = [], agentIds = [],
      deposits = [], receipts = [], holidayText = [], priceLocks = [], orders = [],
      prices = \<lparr>psCache = None, psSuspect = None, psMarket = Some (1000000, 990000), psFailures = 0,
                psOpened = None, psPending = None\<rparr>,
      products = [], variants = [], cartItems = [],
      addresses = [\<lparr>adId = 80, adUser = 11, adDeleted = False, adProvince = Some ''THR'', adCity = None, adPostal = None\<rparr>],
      shopOrders = [], payments = [], discountCodes = [], packagingLinks = [], shipMethods = [], shipZones = [],
      shipRates = [], goldQuotes = [],
      pdRequests = [\<lparr>rqId = 90, rqUser = 11, rqAddress = 80, rqGrams = 2, rqFee = 0, rqStatus = PD_PENDING,
                     rqTracking = None, rqApprovedBy = None, rqCreated = 100000\<rparr>],
      pdParcels = [], vaultMoves = [], pdLimits = [], pdLinks = [], pdReplies = (\<lambda>_. None)\<rparr>"

lemma demoPickup_ok [simp]: "pickup_ok demoPickup"
proof -
  have "inVault PD_PENDING p = 0" for p by (cases p) simp_all
  then show ?thesis
    by (simp add: demoPickup_def pickup_ok_def wf_bank_def wf_except_def wf_ledger_def wf_accounts_def wf_wallets_def
        wf_requests_def wf_holds_def demoAccount_def on_grid_def wf_pickup_def backed_def vaultSum_def pdHolds_def
        walletOwner_def walletById_def)
qed

lemma demoPickup_money: "totalRial demoPickup = rialOf demoPickup ''2010''" "totalGrams demoPickup = gramsOf demoPickup ''2020''"
  by code_simp+

lemma demoPickup_request:
  "requestById demoPickup 90 = Some \<lparr>rqId = 90, rqUser = 11, rqAddress = 80, rqGrams = 2, rqFee = 0, rqStatus = PD_PENDING,
     rqTracking = None, rqApprovedBy = None, rqCreated = 100000\<rparr>"
  by (simp add: requestById_def demoPickup_def)

text \<open>What the approval of that request leads to, and then its sending or its cancelling.\<close>

definition pickupFacts :: "pickup \<Rightarrow> bool \<times> wallet option \<times> bool \<times> bool" where
  "pickupFacts s =
     (case pdApprove s deskClock 5 90 of
        Inl _ \<Rightarrow> (False, None, False, False)
      | Inr (s1, again) \<Rightarrow>
          (\<not> again, walletById s1 21,
           (case pdShip s1 90 ''T'' of Inl _ \<Rightarrow> False | Inr (_, b) \<Rightarrow> \<not> b),
           (case pdAdminCancel s1 deskClock 5 90 of Inl _ \<Rightarrow> False | Inr (_, b) \<Rightarrow> \<not> b)))"

lemma pickupFacts_demo:
  "pickupFacts demoPickup = (True, Some \<lparr>wId = 21, wUser = 11, wCard = ''1'', wRial = 2500000, wGrams = 3\<rparr>, True, True)"
  by code_simp

lemma demo_approved:
  obtains s1 s2 s3 where "pdApprove demoPickup deskClock 5 90 = Inr (s1, False)" "pdShip s1 90 ''T'' = Inr (s2, False)"
    "pdAdminCancel s1 deskClock 5 90 = Inr (s3, False)"
    "walletById s1 21 = Some \<lparr>wId = 21, wUser = 11, wCard = ''1'', wRial = 2500000, wGrams = 3\<rparr>"
proof -
  note f = pickupFacts_demo [unfolded pickupFacts_def]
  obtain s1 b where a: "pdApprove demoPickup deskClock 5 90 = Inr (s1, b)" using f by (cases "pdApprove demoPickup deskClock 5 90") auto
  obtain s2 b2 where sh: "pdShip s1 90 ''T'' = Inr (s2, b2)" using f a by (cases "pdShip s1 90 ''T''") auto
  obtain s3 b3 where ca: "pdAdminCancel s1 deskClock 5 90 = Inr (s3, b3)" using f a by (cases "pdAdminCancel s1 deskClock 5 90") auto
  show thesis using f a sh ca by (intro that [of s1 s2 s3]) simp_all
qed

subsection \<open>Properties\<close>

text \<open>C4: Vault, holds and books follow the requests. Over every sequence of calls (requests, cancelling,
approval, sending, handing over, the hourly job), the vault holds of every request exactly its weight in the
place its status says (set aside when approved, under way when sent, and gone from the stock from the approval
until it is taken back), a pending request has exactly one hold, of its weight in a wallet of its user, and any
other request none; the rial and gold of all wallets keep equal to accounts 2010 and 2020.\<close>

theorem vault_follows_requests:
  fixes s :: "'a pickup_scheme"
  assumes ok: "pickup_ok s" and m: "totalRial s = rialOf s ''2010''" "totalGrams s = gramsOf s ''2020''"
  shows "let t = run pickup_step s ops in
    totalRial t = rialOf t ''2010'' \<and> totalGrams t = gramsOf t ''2020'' \<and>
    (\<forall>r \<in> set (pdRequests t).
       vaultSum t VAULT_RESERVED (rqId r) = (if rqStatus r = PD_APPROVED then rqGrams r else 0) \<and>
       vaultSum t VAULT_IN_TRANSIT (rqId r) = (if rqStatus r = PD_SHIPPED then rqGrams r else 0) \<and>
       vaultSum t VAULT_PHYSICAL (rqId r) =
         (if rqStatus r \<in> {PD_APPROVED, PD_SHIPPED, PD_DELIVERED} then - rqGrams r else 0) \<and>
       (if rqStatus r = PD_PENDING
        then \<exists>h. pdHolds (holds t) (rqId r) = [h] \<and> hGrams h = Some (rqGrams r) \<and>
               walletOwner t (hWallet h) = Some (rqUser r)
        else pdHolds (holds t) (rqId r) = []))"
  unfolding Let_def
proof (intro conjI ballI)
  show "totalRial (run pickup_step s ops) = rialOf (run pickup_step s ops) ''2010''"
    "totalGrams (run pickup_step s ops) = gramsOf (run pickup_step s ops) ''2020''"
    using pickup_rial.run_reconciled [OF ok m(1)] pickup_grams.run_reconciled [OF ok m(2)] by simp_all
  fix r assume r: "r \<in> set (pdRequests (run pickup_step s ops))"
  have "pickup_ok (run pickup_step s ops)" by (rule pickup_life.run_inv [OF ok])
  then have b: "backed (run pickup_step s ops) r" using r by (simp add: pickup_ok_def wf_pickup_def)
  then have v: "vaultSum (run pickup_step s ops) p (rqId r) = inVault (rqStatus r) p * rqGrams r" for p
    by (simp add: backed_def)
  show "vaultSum (run pickup_step s ops) VAULT_RESERVED (rqId r) = (if rqStatus r = PD_APPROVED then rqGrams r else 0)"
    "vaultSum (run pickup_step s ops) VAULT_IN_TRANSIT (rqId r) = (if rqStatus r = PD_SHIPPED then rqGrams r else 0)"
    "vaultSum (run pickup_step s ops) VAULT_PHYSICAL (rqId r) =
      (if rqStatus r \<in> {PD_APPROVED, PD_SHIPPED, PD_DELIVERED} then - rqGrams r else 0)"
    by (simp_all add: v)
  show "if rqStatus r = PD_PENDING
      then \<exists>h. pdHolds (holds (run pickup_step s ops)) (rqId r) = [h] \<and> hGrams h = Some (rqGrams r) \<and>
        walletOwner (run pickup_step s ops) (hWallet h) = Some (rqUser r)
      else pdHolds (holds (run pickup_step s ops)) (rqId r) = []"
    using b by (simp add: backed_def)
qed

lemma vault_follows_requests_witness:
  "(let t = run pickup_step demoPickup (map (Pair deskClock) [ApprovePickup 5 90, SendPickup 90 ''T'', RevokePickup 5 90]) in
    totalRial t = rialOf t ''2010'' \<and> totalGrams t = gramsOf t ''2020'')"
  using vault_follows_requests [OF demoPickup_ok demoPickup_money, of "map (Pair deskClock)
      [ApprovePickup 5 90, SendPickup 90 ''T'', RevokePickup 5 90]"] unfolding Let_def by blast

text \<open>The life of a request. Over every sequence of calls a request stays on file with its user, address,
weight and time; its status only moves from pending to approved or cancelled, from approved to sent or
cancelled, and from sent to delivered, so one that is delivered or cancelled never changes again.\<close>

theorem request_life_cycle:
  fixes s :: "'a pickup_scheme"
  assumes "pickup_ok s" and r: "r \<in> set (pdRequests s)"
  shows "\<exists>r' \<in> set (pdRequests (run pickup_step s ops)).
    rqId r' = rqId r \<and> rqUser r' = rqUser r \<and> rqAddress r' = rqAddress r \<and> rqGrams r' = rqGrams r \<and>
    rqCreated r' = rqCreated r \<and> pd_next\<^sup>*\<^sup>* (rqStatus r) (rqStatus r') \<and>
    (rqStatus r \<in> {PD_DELIVERED, PD_CANCELLED} \<longrightarrow> rqStatus r' = rqStatus r)"
proof -
  have "pd_later s (run pickup_step s ops)" by (rule pickup_life.run_later [OF assms(1)])
  then obtain r' where r': "r' \<in> set (pdRequests (run pickup_step s ops))" "ages r r'" using r by (auto simp: pd_later_def)
  have "pd_next\<^sup>*\<^sup>* a b \<Longrightarrow> a \<in> {PD_DELIVERED, PD_CANCELLED} \<Longrightarrow> b = a" for a b
    by (induction rule: converse_rtranclp_induct) auto
  then show ?thesis using r' by (auto simp: ages_def)
qed

lemma request_life_cycle_witness:
  "\<exists>r' \<in> set (pdRequests (run pickup_step demoPickup (map (Pair deskClock) [ApprovePickup 5 90, DropPickup 11 90]))).
     rqId r' = 90 \<and> rqGrams r' = 2"
  using request_life_cycle [OF demoPickup_ok requestById_in [OF demoPickup_request, THEN conjunct1],
      of "map (Pair deskClock) [ApprovePickup 5 90, DropPickup 11 90]"] by fastforce

text \<open>What an approval does. The first approval of a pending request takes exactly its weight and the fee
(the weight times the price per gram, rounded half up) from the wallet of its user and leaves every other
wallet alone; the request becomes approved with that fee, its hold is gone, an invoice exists for it; and the
gold owed to users (2020), the gold in stock (1020), the rial owed (2010) and the income (4010) move with it.\<close>

theorem approval_effect:
  fixes s :: "'a pickup_scheme"
  assumes ok: "pickup_ok s" and a: "pdApprove s c admin i = Inr (s', False)"
  shows "\<exists>r w. requestById s i = Some r \<and> rqStatus r = PD_PENDING \<and> walletOfUser s (rqUser r) = Some w \<and>
    (let fee = round_half_up (feePerGram s * rqGrams r) in
     walletById s' (wId w) = Some (w\<lparr>wRial := wRial w - max 0 fee, wGrams := wGrams w - rqGrams r\<rparr>) \<and>
     (\<forall>k. k \<noteq> wId w \<longrightarrow> walletById s' k = walletById s k) \<and>
     requestById s' i = Some (r\<lparr>rqStatus := PD_APPROVED, rqFee := fee, rqApprovedBy := Some admin\<rparr>) \<and>
     pdHolds (holds s') i = [] \<and>
     (\<exists>v \<in> set (invoices s'). ivSource v = SRC_PHYSICAL_DELIVERY \<and> ivSourceId v = i \<and> ivKind v = INVOICE) \<and>
     gramsOf s' ''2020'' = gramsOf s ''2020'' - rqGrams r \<and> gramsOf s' ''1020'' = gramsOf s ''1020'' - rqGrams r \<and>
     rialOf s' ''2010'' = rialOf s ''2010'' - max 0 fee \<and> rialOf s' ''4010'' = rialOf s ''4010'' + max 0 fee)"
proof -
  obtain r h w where r: "requestById s i = Some r" "rqStatus r = PD_PENDING"
    and h: "orderHold s i HOLD_PHYSICAL_DELIVERY = Some h" and w: "walletById s (hWallet h) = Some w"
    and g: "rqGrams r \<le> wGrams w" and x: "approveWrites s c admin r h w (approvalFee s r) = Inr s'"
    using a by (auto simp: pdApprove_def Let_def not_less split: if_splits)
  have wf: "wf_bank s" "wf_pickup s" "pickup_ok s'"
    using ok approve_keeps [OF ok a] by (simp_all add: pickup_ok_def pickup_keeps_def)
  note r' = wf_request [OF wf(2) r(1)]
  define fee where "fee = approvalFee s r"
  note e = approve_effect [OF wf(1) r'(4) h [folded r'(1)] x, folded fee_def, unfolded r'(1)]
  have "rqUser r = wUser w" and h1: "pdHolds (holds s) i = [h]"
    using r'(1,5) r(2) h w by (auto simp: backed_def orderHold_pdHolds walletOwner_def split: list.splits)
  have ws: "wf_wallets (wallets s)" using wf(1) by (rule wf_bank_wallets)
  have win: "w \<in> set (wallets s)" using w by (auto simp: walletById_def dest: find_SomeD)
  have "walletOfUser s (rqUser r) = Some w"
    using find_unique [of wUser "wallets s" w] ws win \<open>rqUser r = wUser w\<close> by (simp add: walletOfUser_def wf_wallets_def)
  moreover obtain s1 where s1: "walletAdd s (wId w) (- (if 0 < fee then fee else 0)) (- rqGrams r) = Inr s1" "wallets s' = wallets s1"
    using e(5) by blast
  have wid: "walletById s (wId w) = Some w"
    using find_unique [of wId "wallets s" w] ws win by (simp add: walletById_def wf_wallets_def)
  have n4: "numeric4 (wGrams w - rqGrams r) = wGrams w - rqGrams r"
    using ws win r'(4) by (intro numeric4_on_grid on_grid_diff) (auto simp: wf_wallets_def)
  have "walletById s' k = walletById s1 k" for k by (simp add: walletById_def s1(2))
  then have "walletById s' (wId w) = Some (w\<lparr>wRial := wRial w - max 0 fee, wGrams := wGrams w - rqGrams r\<rparr>)"
    "k \<noteq> wId w \<Longrightarrow> walletById s' k = walletById s k" for k
    using walletAdd_row [OF s1(1) wid] n4 by (auto simp: max_def)
  moreover have "requestById s' i = Some (r\<lparr>rqStatus := PD_APPROVED, rqFee := fee, rqApprovedBy := Some admin\<rparr>)"
    using r(1) unfolding requestById_def e(2)
    by (subst find_update_where_same [where k = rqId]) simp_all
  moreover have "pdHolds (holds s') i = []" using pdHolds_drop [OF _ h1, of i] wf(1)
    by (simp add: e(4) wf_bank_def wf_except_def wf_holds_def)
  moreover note b = e(7) [of "''2020''"] e(7) [of "''1020''"] e(7) [of "''2010''"] e(7) [of "''4010''"]
  have "gramsOf s' ''2020'' = gramsOf s ''2020'' - rqGrams r" "gramsOf s' ''1020'' = gramsOf s ''1020'' - rqGrams r"
    "rialOf s' ''2010'' = rialOf s ''2010'' - max 0 fee" "rialOf s' ''4010'' = rialOf s ''4010'' + max 0 fee"
    using b by (simp_all add: delivery_net CASH_ROOT_CODE_def max_def)
  ultimately show ?thesis using r e(6)
    by (intro exI [where x = r] exI [where x = w]) (simp add: Let_def fee_def approvalFee_def, blast)
qed

lemma approval_effect_witness:
  "\<exists>s1. pdApprove demoPickup deskClock 5 90 = Inr (s1, False) \<and> gramsOf s1 ''2020'' = gramsOf demoPickup ''2020'' - 2"
proof -
  obtain s1 s2 s3 where s1: "pdApprove demoPickup deskClock 5 90 = Inr (s1, False)" by (rule demo_approved)
  then show ?thesis using approval_effect [OF demoPickup_ok s1] demoPickup_request by (auto simp: Let_def)
qed

text \<open>Taking back what was taken gives the wallets of before.\<close>

lemma wallets_back:
  assumes ws: "wf_wallets (wallets s)" and a: "walletAdd s k (- d) (- g) = Inr s1" and b: "walletAdd s2 k d g = Inr s3"
    and e: "wallets s2 = wallets s1" and g: "on_grid g"
  shows "wallets s3 = wallets s"
proof -
  have "wallets s3 = update_where (\<lambda>w. wId w = k) (\<lambda>w. w\<lparr>wRial := wRial w + d, wGrams := numeric4 (wGrams w + g)\<rparr>)
      (update_where (\<lambda>w. wId w = k) (\<lambda>w. w\<lparr>wRial := wRial w - d, wGrams := numeric4 (wGrams w - g)\<rparr>) (wallets s))"
    using a b e by (auto elim!: walletAdd_Inr)
  also have "\<dots> = map (\<lambda>w. w) (wallets s)"
    unfolding update_where_def map_map
  proof (rule map_cong [OF refl])
    fix w assume "w \<in> set (wallets s)"
    then have "on_grid (wGrams w)" using ws by (simp add: wf_wallets_def)
    then have "numeric4 (wGrams w - g) = wGrams w - g" "numeric4 (wGrams w) = wGrams w"
      using g by (auto intro: numeric4_on_grid on_grid_diff)
    then show "((\<lambda>w. if wId w = k then w\<lparr>wRial := wRial w + d, wGrams := numeric4 (wGrams w + g)\<rparr> else w) \<circ>
        (\<lambda>w. if wId w = k then w\<lparr>wRial := wRial w - d, wGrams := numeric4 (wGrams w - g)\<rparr> else w)) w = w" by simp
  qed
  finally show ?thesis by simp
qed

text \<open>The wallet found for its owner after a write is the one that was written.\<close>

lemma wallet_of_same_owner:
  assumes "walletOwner s k = Some u" "walletAdd s k d g = Inr t" "wallets s1 = wallets t" "wf_bank s1"
    and "walletOfUser s1 u = Some w'"
  shows "wId w' = k"
proof -
  have "walletOwner s1 k = Some u" using walletOwner_add [OF assms(2)] walletOwner_same [OF assms(3)] assms(1) by simp
  then obtain v where v: "walletById s1 k = Some v" "wUser v = u" by (auto simp: walletOwner_def)
  then have m: "v \<in> set (wallets s1)" "wId v = k" by (auto simp: walletById_def dest: find_SomeD)
  have "distinct (map wUser (wallets s1))" using wf_bank_wallets [OF assms(4)] by (simp add: wf_wallets_def)
  then have "walletOfUser s1 u = Some v"
    using find_unique [of wUser "wallets s1" v] m(1) v(2) by (simp add: walletOfUser_def)
  then show ?thesis using assms(5) m(2) by simp
qed

text \<open>C18: Taking back an approval undoes it. When staff cancel a request right after its approval, every wallet, the
balance of every account outside the cash group and the vault are exactly what they were before the approval,
and the request is cancelled with its fee still on record; but an invoice for it stays on file: the one that the
approval issued, paid, for the fee that was given back (or one that was there before).\<close>

theorem approval_taken_back:
  fixes s :: "'a pickup_scheme"
  assumes ok: "pickup_ok s" and a: "pdApprove s c admin i = Inr (s1, False)"
    and b: "pdAdminCancel s1 c2 admin2 i = Inr (s2, again)"
  shows "\<not> again \<and> wallets s2 = wallets s \<and>
    (\<forall>k. \<not> starts_with CASH_ROOT_CODE k \<longrightarrow> rialOf s2 k = rialOf s k \<and> gramsOf s2 k = gramsOf s k) \<and>
    (\<forall>p k. vaultSum s2 p k = vaultSum s p k) \<and>
    (\<exists>r. requestById s2 i = Some r \<and> rqStatus r = PD_CANCELLED \<and>
      (\<exists>v \<in> set (invoices s2). ivSource v = SRC_PHYSICAL_DELIVERY \<and> ivSourceId v = i \<and> ivKind v = INVOICE \<and>
        (v \<in> set (invoices s) \<or> ivStatus v = IV_PAID \<and> ivTotal v = rqFee r)))"
proof -
  obtain r h w where r: "requestById s i = Some r" "rqStatus r = PD_PENDING"
    and h: "orderHold s i HOLD_PHYSICAL_DELIVERY = Some h" and w: "walletById s (hWallet h) = Some w"
    and x: "approveWrites s c admin r h w (approvalFee s r) = Inr s1"
    using a by (auto simp: pdApprove_def Let_def not_less split: if_splits)
  have wf: "wf_bank s" "wf_pickup s" "wf_bank s1" "wf_pickup s1"
    using ok approve_keeps [OF ok a] by (simp_all add: pickup_ok_def pickup_keeps_def)
  note r' = wf_request [OF wf(2) r(1)]
  define fee where "fee = approvalFee s r"
  define q where "q = r\<lparr>rqStatus := PD_APPROVED, rqFee := fee, rqApprovedBy := Some admin\<rparr>"
  note e = approve_effect [OF wf(1) r'(4) h [folded r'(1)] x, folded fee_def, unfolded r'(1)]
  have q: "requestById s1 i = Some q"
    using r(1) unfolding requestById_def e(2) q_def by (subst find_update_where_same [where k = rqId]) simp_all
  have qs: "rqId q = i" "rqFee q = fee" "rqGrams q = rqGrams r" "rqUser q = rqUser r" "rqStatus q = PD_APPROVED"
    using r'(1) by (simp_all add: q_def)
  obtain s4 where s4: "refundApproval s1 c2 q = Inr s4" and s2: "\<not> again"
    "s2 = setRequest s4 i (\<lambda>x. x\<lparr>rqStatus := PD_CANCELLED, rqApprovedBy := Some admin2\<rparr>)"
    using b q qs(5) by (auto simp: pdAdminCancel_def split: if_splits)
  have g: "on_grid (rqGrams q)" using r'(4) by (simp add: qs)
  note f = refundApproval_effect [OF wf(3) g s4, unfolded qs]
  let ?d = "if 0 < fee then fee else 0"
  obtain t1 where t1: "walletAdd s (wId w) (- ?d) (- rqGrams r) = Inr t1" "wallets s1 = wallets t1" using e(5) by blast
  obtain w4 :: wallet and t4 where t4: "walletOfUser s1 (rqUser r) = Some w4" "walletAdd s1 (wId w4) ?d (rqGrams r) = Inr t4"
      "wallets s4 = wallets t4" using f(6) by blast
  have "walletOwner s (wId w) = Some (rqUser r)"
    using r'(1,5) r(2) h w by (auto simp: backed_def orderHold_pdHolds walletById_def dest: find_SomeD split: list.splits)
  note same = wallet_of_same_owner [OF this t1 wf(3) t4(1)]
  have "wallets t4 = wallets s"
    by (rule wallets_back [OF wf_bank_wallets [OF wf(1)] t1(1) t4(2) [unfolded same] t1(2) r'(4)])
  then have "wallets s2 = wallets s" by (simp add: s2 t4(3))
  moreover have "rialOf s2 k = rialOf s k \<and> gramsOf s2 k = gramsOf s k" if k: "\<not> starts_with CASH_ROOT_CODE k" for k
  proof -
    have "rialOf s2 k = rialOf s4 k" "gramsOf s2 k = gramsOf s4 k" by (simp_all add: s2 rialOf_def gramsOf_def)
    then show ?thesis using e(7) [OF k] f(7) [OF k] by (simp add: delivery_undo)
  qed
  moreover have "vaultSum s2 p k = vaultSum s p k" for p k
  proof -
    have "vaultMoves s2 = vaultMoves s4" by (simp add: s2)
    then have "vaultSum s2 p k = vaultSum s4 p k" by (simp add: vaultSum_def)
    then show ?thesis using vaultSum_post [OF f(5), of p k] vaultSum_post [OF e(3), of p k] by simp
  qed
  moreover have "requestById s2 i = Some (q\<lparr>rqStatus := PD_CANCELLED, rqApprovedBy := Some admin2\<rparr>)"
    using q unfolding requestById_def s2 setRequest_frame f(2) by (subst find_update_where_same [where k = rqId]) simp_all
  moreover have "\<exists>v \<in> set (invoices s2). ivSource v = SRC_PHYSICAL_DELIVERY \<and> ivSourceId v = i \<and> ivKind v = INVOICE \<and>
      (v \<in> set (invoices s) \<or> ivStatus v = IV_PAID \<and> ivTotal v = fee)" using e(6) f(3) by (simp add: s2)
  ultimately show ?thesis using s2(1) by (simp add: qs)
qed

lemma approval_taken_back_witness:
  "\<exists>s1 s2. pdApprove demoPickup deskClock 5 90 = Inr (s1, False) \<and> pdAdminCancel s1 deskClock 5 90 = Inr (s2, False) \<and>
     wallets s2 = wallets demoPickup"
proof -
  obtain s1 s2 s3 where s1: "pdApprove demoPickup deskClock 5 90 = Inr (s1, False)"
    and s3: "pdAdminCancel s1 deskClock 5 90 = Inr (s3, False)" by (rule demo_approved)
  from approval_taken_back [OF demoPickup_ok s1 s3] s1 s3 show ?thesis by blast
qed

text \<open>A new request is covered. A call that adds a request is by an active, identified user for an address
of their own and within their limits; it holds exactly the weight asked for (to four decimals), for thirty days,
leaves all balances alone, and together with the other running holds stays within the gold of the wallet.\<close>

theorem request_is_covered:
  fixes s :: "'a pickup_scheme"
  assumes "pickup_ok s" and r: "pdCreate s c u addr amount key saved = Inr (s', v)" and new: "pdRequests s' \<noteq> pdRequests s"
  shows "\<exists>r w. pdRequests s' = pdRequests s @ [r] \<and> rqUser r = u \<and> rqAddress r = addr \<and> rqGrams r = numeric4 amount \<and>
    0 < rqGrams r \<and> rqStatus r = PD_PENDING \<and> v = toDto s r \<and> assertUserVerified s u = Inr () \<and>
    fst (limitsOf s u) \<le> rqGrams r \<and> rqGrams r \<le> snd (limitsOf s u) \<and>
    (\<exists>a \<in> set (addresses s). adId a = addr \<and> adUser a = u \<and> \<not> adDeleted a) \<and>
    walletOfUser s u = Some w \<and> wallets s' = wallets s \<and>
    heldGrams s' (now c) (wId w) = heldGrams s (now c) (wId w) + rqGrams r \<and>
    heldGrams s' (now c) (wId w) \<le> wGrams w"
proof -
  from r obtain s1 where s1: "createInternal s c u addr amount = Inr (s1, v)"
    and s': "pdRequests s' = pdRequests s1" "wallets s' = wallets s1" "holds s' = holds s1"
    by (cases rule: pdCreate_cases) (use new in auto)
  from s1 show ?thesis
  proof (cases rule: createInternal_cases)
    case (Duplicate r)
    then show ?thesis using new s' by simp
  next
    case (Placed w)
    note f = placeRequest_frame [of s c u addr "wId w" "numeric4 amount", folded Placed(4)]
    let ?r = "newRequest (nextId s) c u addr (numeric4 amount)"
    have "parcelsOf s1 i = parcelsOf s i" for i
      by (simp add: parcelsOf_def Placed(4) placeRequest_def Let_def addHold_def)
    then have "v = toDto s ?r" by (simp add: Placed(5) toDto_def)
    moreover have "heldGrams s' (now c) (wId w) = heldGrams s (now c) (wId w) + numeric4 amount"
      by (simp add: heldGrams_def s' f activeHold_def toDecimal_def HOLD_DURATION_DAYS_def)
    moreover have "0 < numeric4 amount" using r by (intro numeric4_pos) (simp add: pdCreate_def)
    ultimately show ?thesis using Placed(2,3,7-10)
      by (intro exI [where x = ?r] exI [where x = w]) (simp add: s' f newRequest_def)
  qed
qed

lemma demo_created:
  obtains s' v where "pdCreate demoPickup deskClock 11 80 1 ''k'' True = Inr (s', v)" "pdRequests s' \<noteq> pdRequests demoPickup"
proof -
  have "(case pdCreate demoPickup deskClock 11 80 1 ''k'' True of Inl _ \<Rightarrow> False | Inr (s', _) \<Rightarrow> length (pdRequests s') = 2)"
    by code_simp
  then obtain s' v where r: "pdCreate demoPickup deskClock 11 80 1 ''k'' True = Inr (s', v)" "length (pdRequests s') = 2"
    by (cases "pdCreate demoPickup deskClock 11 80 1 ''k'' True") auto
  have "length (pdRequests demoPickup) = 1" by (simp add: demoPickup_def)
  then show thesis using r by (intro that [of s' v]) auto
qed

lemma request_is_covered_witness:
  "\<exists>s' v. \<exists>w :: wallet. pdCreate demoPickup deskClock 11 80 1 ''k'' True = Inr (s', v) \<and> heldGrams s' (now deskClock) (wId w) \<le> wGrams w"
proof -
  obtain s' v where r: "pdCreate demoPickup deskClock 11 80 1 ''k'' True = Inr (s', v)" "pdRequests s' \<noteq> pdRequests demoPickup"
    by (rule demo_created)
  from request_is_covered [OF demoPickup_ok r] r(1) show ?thesis by blast
qed

subsection \<open>Repeated keys\<close>

lemma replies_frame:
  "pdReplies (placeRequest s c u addr w g) = pdReplies s"
  "pdReplies (closeRequest s i) = pdReplies s"
  by (simp_all add: placeRequest_def Let_def closeRequest_def)

lemma createInternal_replies: "createInternal s c u addr amount = Inr (s', v) \<Longrightarrow> pdReplies s' = pdReplies s"
  by (erule createInternal_cases) (simp_all add: replies_frame)

lemma write_replies:
  "walletAdd s w r g = Inr s' \<Longrightarrow> pdReplies s' = pdReplies s"
  "issue s p = Inr (s', v) \<Longrightarrow> pdReplies s' = pdReplies s"
  "postAccounting s c g fee undo = Inr s' \<Longrightarrow> pdReplies s' = pdReplies s"
  using same_pickup_wallet [of s w r g s'] same_pickup_issue [of s p s' v]
  by (auto simp: postAccounting_def same_pickup_def dest: same_pickup_post)

lemma approveWrites_replies: "approveWrites s c admin r h w fee = Inr s' \<Longrightarrow> pdReplies s' = pdReplies s"
  by (auto simp: approveWrites_def Let_def dest!: write_replies split: if_splits)

lemma refund_replies: "refundApproval s c r = Inr s' \<Longrightarrow> pdReplies s' = pdReplies s"
  by (auto simp: refundApproval_def Let_def dest!: write_replies split: if_splits)

lemma expire_replies: "pdReplies (pdExpireStale s c) = pdReplies s"
proof -
  have "pdReplies (foldl expireHold s hs) = pdReplies s" for hs
  proof (induction hs arbitrary: s)
    case (Cons h hs)
    have "pdReplies (expireHold s h) = pdReplies s"
      by (cases rule: expireHold_cases [of s h]) (simp_all add: replies_frame)
    then show ?case using Cons.IH by simp
  qed simp
  then show ?thesis by (simp add: pdExpireStale_def)
qed

text \<open>A remembered answer stays until its time, whatever is called.\<close>

lemma step_replies:
  assumes r: "pdReplies s k = Some (v, t)" and n: "now c < t" and st: "pickup_step s (c, x) = Inr s'"
  shows "pdReplies s' k = Some (v, t)"
proof (cases x)
  case (AskPickup u addr amount key saved)
  then obtain v' where a: "pdCreate s c u addr amount key saved = Inr (s', v')" using st by auto
  show ?thesis
  proof (cases "key \<noteq> [] \<and> k = (u, key)")
    case True
    then have "s' = s" using a r n by (auto simp: pdCreate_def withIdempotency_def cachedReply_def)
    then show ?thesis using r by simp
  next
    case False
    from a show ?thesis
    proof (cases rule: pdCreate_cases)
      case Plain
      then show ?thesis using r createInternal_replies [OF Plain] by simp
    next
      case (Saved s1 y)
      then have "k \<noteq> (u, key)" using False by simp
      then show ?thesis using r createInternal_replies [OF Saved(2)] by (simp add: Saved(3))
    qed (use r in simp)
  qed
next
  case (ApprovePickup admin i)
  then show ?thesis using st r by (auto simp: pdApprove_def Let_def dest!: approveWrites_replies split: if_splits)
next
  case (RevokePickup admin i)
  then show ?thesis using st r by (auto simp: pdAdminCancel_def dest!: refund_replies split: if_splits)
qed (use st r in \<open>auto simp: pdCancelByUser_def pdShip_def pdDeliver_def Let_def replies_frame expire_replies split: if_splits\<close>)

lemma run_replies:
  "pdReplies s k = Some (v, t) \<Longrightarrow> (\<And>c x. (c, x) \<in> set ops \<Longrightarrow> now c < t) \<Longrightarrow> pdReplies (run pickup_step s ops) k = Some (v, t)"
proof (induction ops arbitrary: s)
  case (Cons p ops)
  obtain c x where p: "p = (c, x)" by fastforce
  have "pdReplies (try_step pickup_step s p) k = Some (v, t)"
    using step_replies [OF Cons.prems(1), of c x] Cons.prems by (auto simp: p try_step_def split: sum.split)
  then have "pdReplies (run pickup_step (try_step pickup_step s p) ops) k = Some (v, t)"
    by (rule Cons.IH) (use Cons.prems in auto)
  then show ?case by simp
qed simp

text \<open>A repeated request is one request. When a call with a key was answered and its answer saved, then for
a day, after any calls in between and even when the request has been approved or cancelled since, a call with
the same key gives the same answer and changes nothing.\<close>

theorem request_key_once:
  fixes s :: "'a pickup_scheme"
  assumes first: "pdCreate s c u addr amount key True = Inr (s', v)" "key \<noteq> []" "cachedReply s c u key = None"
    and later: "\<And>c' x. (c', x) \<in> set ops \<Longrightarrow> now c' < now c + 24 * 60 * 60 * 1000"
    and again: "now c2 < now c + 24 * 60 * 60 * 1000" "1 / 100 \<le> amount2"
  shows "pdCreate (run pickup_step s' ops) c2 u addr2 amount2 key saved = Inr (run pickup_step s' ops, v)"
proof -
  have "pdReplies s' (u, key) = Some (v, now c + 24 * 60 * 60 * 1000)"
    using first by (auto simp: pdCreate_def withIdempotency_def PD_IDEMPOTENCY_TTL_SECONDS_def split: if_splits)
  from run_replies [OF this later]
  have "pdReplies (run pickup_step s' ops) (u, key) = Some (v, now c + 24 * 60 * 60 * 1000)" .
  then show ?thesis using again first(2) by (simp add: pdCreate_def withIdempotency_def cachedReply_def)
qed

lemma request_key_once_witness:
  "\<exists>s' v. pdCreate demoPickup deskClock 11 80 1 ''k'' True = Inr (s', v) \<and>
     (let t = run pickup_step s' [(deskClock, DropPickup 11 100)] in pdCreate t deskClock 11 80 1 ''k'' True = Inr (t, v))"
proof -
  obtain s' v where r: "pdCreate demoPickup deskClock 11 80 1 ''k'' True = Inr (s', v)" by (rule demo_created)
  have "cachedReply demoPickup deskClock 11 ''k'' = None" by (simp add: cachedReply_def demoPickup_def)
  from request_key_once [OF r _ this, of "[(deskClock, DropPickup 11 100)]" deskClock 1 80 True] r
  show ?thesis by (simp add: deskClock_def)
qed

subsection \<open>The hourly job\<close>

abbreviation shut :: "pd_request \<Rightarrow> pd_request" where
  "shut r \<equiv> r\<lparr>rqStatus := PD_CANCELLED\<rparr>"

lemma expireHold_requests:
  assumes "distinct (map rqId (pdRequests s))"
  shows "pdRequests (expireHold s h) =
    map (\<lambda>r. if rqStatus r = PD_PENDING \<and> hRef h = Some (rqId r) then shut r else r) (pdRequests s)"
proof -
  have uniq: "requestById s (rqId x) = Some x" if "x \<in> set (pdRequests s)" for x
    unfolding requestById_def by (rule find_unique [OF assms that])
  show ?thesis
  proof (cases rule: expireHold_cases [of s h])
    case 1
    then have "(if rqStatus x = PD_PENDING \<and> hRef h = Some (rqId x) then shut x else x) = x" if "x \<in> set (pdRequests s)" for x
      using uniq [OF that] by auto
    then show ?thesis using 1(1) by (simp add: map_idI)
  next
    case (2 i r)
    have "(if rqId x = i then shut x else x) = (if rqStatus x = PD_PENDING \<and> hRef h = Some (rqId x) then shut x else x)"
      if "x \<in> set (pdRequests s)" for x
      using uniq [OF that] 2(1-3) by auto
    then show ?thesis by (simp add: 2(4) closeRequest_def update_where_def)
  qed
qed

lemma expire_requests:
  "distinct (map rqId (pdRequests s)) \<Longrightarrow> pdRequests (foldl expireHold s hs) =
     map (\<lambda>r. if rqStatus r = PD_PENDING \<and> (\<exists>h \<in> set hs. hRef h = Some (rqId r)) then shut r else r) (pdRequests s)"
proof (induction hs arbitrary: s)
  case (Cons h hs)
  have d: "distinct (map rqId (pdRequests (expireHold s h)))"
    using Cons.prems by (simp add: expireHold_requests [OF Cons.prems] comp_def if_distrib cong: if_cong)
  show ?case by (auto simp: Cons.IH [OF d] expireHold_requests [OF Cons.prems])
qed simp

lemma expire_wallets: "wallets (foldl expireHold s hs) = wallets s"
proof (induction hs arbitrary: s)
  case (Cons h hs)
  have "wallets (expireHold s h) = wallets s"
    by (cases rule: expireHold_cases [of s h]) (simp_all add: closeRequest_def)
  then show ?case using Cons.IH by simp
qed simp

definition ranOut :: "'a pickup_scheme \<Rightarrow> clock \<Rightarrow> pd_request \<Rightarrow> bool" where
  "ranOut s c r \<longleftrightarrow> rqStatus r = PD_PENDING \<and> (\<exists>h \<in> set (pdHolds (holds s) (rqId r)). hExpires h < now c)"

text \<open>The hourly job closes exactly the requests whose hold ran out. Of the pending requests it cancels
those with a hold whose end has passed, and it changes no other request and no wallet; afterwards every request
that is still pending has a hold that has not run out.\<close>

theorem stale_requests_closed:
  fixes s :: "'a pickup_scheme"
  assumes ok: "pickup_ok s"
  shows "pdRequests (pdExpireStale s c) = map (\<lambda>r. if ranOut s c r then r\<lparr>rqStatus := PD_CANCELLED\<rparr> else r) (pdRequests s) \<and>
    wallets (pdExpireStale s c) = wallets s \<and>
    (\<forall>r \<in> set (pdRequests (pdExpireStale s c)). rqStatus r = PD_PENDING \<longrightarrow>
       (\<exists>h. pdHolds (holds (pdExpireStale s c)) (rqId r) = [h] \<and> now c \<le> hExpires h))"
proof -
  let ?hs = "filter (\<lambda>h. hType h = HOLD_PHYSICAL_DELIVERY \<and> hExpires h < now c) (holds s)"
  have d: "distinct (map rqId (pdRequests s))" using ok by (simp add: pickup_ok_def wf_pickup_def)
  have st: "(rqStatus r = PD_PENDING \<and> (\<exists>h \<in> set ?hs. hRef h = Some (rqId r))) = ranOut s c r" for r
    by (auto simp: ranOut_def pdHolds_def)
  have q: "pdRequests (pdExpireStale s c) = map (\<lambda>r. if ranOut s c r then shut r else r) (pdRequests s)"
    by (simp only: pdExpireStale_def expire_requests [OF d] st)
  have sub: "set (holds (foldl expireHold t hs)) \<subseteq> set (holds t)" for t :: "'a pickup_scheme" and hs
  proof (induction hs arbitrary: t)
    case (Cons h hs)
    have "set (holds (expireHold t h)) \<subseteq> set (holds t)"
      by (cases rule: expireHold_cases [of t h]) (auto simp: closeRequest_def holds_dropHold)
    then show ?case using Cons.IH [of "expireHold t h"] by auto
  qed simp
  have "\<exists>h. pdHolds (holds (pdExpireStale s c)) (rqId r) = [h] \<and> now c \<le> hExpires h"
    if r: "r \<in> set (pdRequests (pdExpireStale s c))" "rqStatus r = PD_PENDING" for r
  proof -
    have "backed (pdExpireStale s c) r" using expire_keeps [OF ok, of c] r(1) by (simp add: pickup_keeps_def pickup_ok_def wf_pickup_def)
    then obtain h where h: "pdHolds (holds (pdExpireStale s c)) (rqId r) = [h]" using r(2) by (auto simp: backed_def)
    have "r \<in> set (pdRequests s)" "\<not> ranOut s c r" using r by (auto simp: q split: if_splits)
    moreover have "h \<in> set (pdHolds (holds s) (rqId r))"
      using pdHolds_iff [of h "holds (pdExpireStale s c)" "rqId r"] pdHolds_iff [of h "holds s" "rqId r"] h sub [of s ?hs]
      by (auto simp: pdExpireStale_def)
    ultimately have "now c \<le> hExpires h" using r(2) by (auto simp: ranOut_def not_less)
    then show ?thesis using h by blast
  qed
  then show ?thesis using q expire_wallets [of s ?hs] by (simp add: pdExpireStale_def)
qed

lemma stale_requests_closed_witness:
  "map rqStatus (pdRequests (pdExpireStale demoPickup deskClock)) = [PD_CANCELLED]"
  using stale_requests_closed [OF demoPickup_ok, of deskClock]
  by (simp add: demoPickup_def ranOut_def pdHolds_def deskClock_def)

subsection \<open>Lists\<close>

lemma pages_concat:
  "concat (map (\<lambda>k. take n (drop (k * n) xs)) [0..<m]) = take (m * n) xs"
proof (induction m)
  case (Suc m)
  then show ?case using take_add [of "m * n" n xs] by (simp add: add.commute)
qed simp

text \<open>The pages of the list show everything once. Read in order, the pages of a user's list, as many as it
says there are, are exactly the user's requests of the wanted status, newest first, each once; and no page is
longer than the limit.\<close>

theorem pages_show_all:
  fixes s :: "'a pickup_scheme"
  assumes "0 < limit"
  shows "(let rs = filter (\<lambda>r. rqUser r = u \<and> (\<forall>k. st = Some k \<longrightarrow> rqStatus r = k)) (pdRequests s);
              (_, n, pages) = pdList s u st 1 limit;
              all = concat (map (\<lambda>p. fst (pdList s u st p limit)) [1..<pages + 1]) in
    n = length rs \<and> (\<exists>xs. all = map (listed s) xs \<and> mset xs = mset rs \<and> sorted (map (\<lambda>r. - rqCreated r) xs)) \<and>
    (\<forall>p. length (fst (pdList s u st p limit)) \<le> limit))"
proof -
  define rs where "rs = matching s (Some u) st"
  have rs: "rs = filter (\<lambda>r. rqUser r = u \<and> (\<forall>k. st = Some k \<longrightarrow> rqStatus r = k)) (pdRequests s)"
    unfolding rs_def matching_def by (intro filter_cong) (auto split: option.split)
  define m where "m = totalPages (length rs) limit"
  have "length rs \<le> m * limit"
  proof -
    have "length rs \<le> ((length rs + limit - 1) div limit) * limit"
      using assms mod_less_divisor [of limit "length rs + limit - 1"] div_mult_mod_eq [of "length rs + limit - 1" limit] by linarith
    also have "\<dots> \<le> m * limit" by (simp add: m_def totalPages_def)
    finally show ?thesis .
  qed
  then have t: "take (m * limit) (newestFirst rs) = newestFirst rs" by (simp add: newestFirst_def)
  have "map (\<lambda>p. fst (pdList s u st p limit)) [1..<m + 1] =
      map (map (listed s)) (map (\<lambda>k. take limit (drop (k * limit) (newestFirst rs))) [0..<m])"
    by (simp add: pdList_def Let_def pageOf_def rs_def [symmetric] map_Suc_upt [symmetric] del: upt_Suc)
  then have "concat (map (\<lambda>p. fst (pdList s u st p limit)) [1..<m + 1]) = map (listed s) (newestFirst rs)"
    by (simp only: map_concat [symmetric] pages_concat t)
  moreover have "mset (newestFirst rs) = mset rs" "sorted (map (\<lambda>r. - rqCreated r) (newestFirst rs))"
    by (simp_all add: newestFirst_def)
  moreover have "length (fst (pdList s u st p limit)) \<le> limit" for p by (simp add: pdList_def Let_def pageOf_def)
  moreover have "pdList s u st 1 limit = (fst (pdList s u st 1 limit), length rs, m)"
    by (simp add: pdList_def Let_def rs_def m_def)
  ultimately show ?thesis unfolding rs [symmetric] Let_def
    by (subst \<open>pdList s u st 1 limit = _\<close>) (auto intro: exI [where x = "newestFirst rs"])
qed

lemma pages_show_all_witness: "\<forall>p. length (fst (pdList demoPickup 11 None p 20)) \<le> 20"
  using pages_show_all [of 20 11 None demoPickup] by (auto simp: Let_def split: prod.splits)

subsection \<open>An approval after the end of its hold\<close>

definition lateFacts :: "pickup \<Rightarrow> (bool \<times> rat option \<times> rat) option" where
  "lateFacts s =
     (case pdApprove s deskClock 5 90 of
        Inl _ \<Rightarrow> None
      | Inr (s1, again) \<Rightarrow> Some (again, map_option wGrams (walletById s1 21), heldGrams s1 (now deskClock) 21))"

lemma lateFacts_demo: "lateFacts demoPickup = Some (False, Some 3, 4)"
  by code_simp

text \<open>Approving does not look at holds. A request whose hold has run out is still approved, although the
refusal for a missing hold speaks of one that is not found or has run out; and the weight is taken from the
wallet even where a running hold for a paid purchase of gold needs it, so that less gold is left than is held.\<close>

theorem late_approval_takes_held_gold:
  "pdHolds (holds demoPickup) 90 \<noteq> [] \<and> (\<forall>h \<in> set (pdHolds (holds demoPickup) 90). hExpires h < now deskClock) \<and>
   (\<exists>s1 g. pdApprove demoPickup deskClock 5 90 = Inr (s1, False) \<and> map_option wGrams (walletById s1 21) = Some g \<and>
      g < heldGrams s1 (now deskClock) 21)"
proof -
  obtain s1 where "pdApprove demoPickup deskClock 5 90 = Inr (s1, False)" "map_option wGrams (walletById s1 21) = Some 3"
    "heldGrams s1 (now deskClock) 21 = 4"
    using lateFacts_demo unfolding lateFacts_def by (cases "pdApprove demoPickup deskClock 5 90") auto
  then show ?thesis by (auto simp: demoPickup_def pdHolds_def deskClock_def)
qed

end
