(* ===== verification/Spec2Isabelle.thy ===== *)
theory Spec2Isabelle
  imports Trading StoreProps BarChecks BarCodes PhysicalProps
begin

text \<open>
  A model of the money and gold core of the Arkan gold platform, the server under \<open>api/src/\<close>.

  The program. Users keep rial and grams of gold in a wallet. Rial comes in by deposits that staff
  review, goes out by withdrawals that staff approve and pay, and turns into gold and back at the
  price of the market. Every movement of a wallet is booked in a double-entry ledger, in which
  account 2010 stands for the rial and account 2020 for the gold owed to the users. The shop sells
  bars and jewellery with invoices. The services are classes over one database; a call that
  writes runs in a transaction with row locks, so in the model a call is one step from a state to an error or to the
  state after it, and a sequence of calls is run with failing calls rolled back.

  The theories, from the bottom, and what their lemmas show:
  \<^item> \<open>Prelude\<close>: results (\<open>res\<close>, a sum of an error and a value), rounding, tables as lists of rows,
    \<open>run\<close>, a sequence of calls, and the locales \<open>service\<close>, \<open>conserving_service\<close>, \<open>control_account\<close>,
    \<open>drifting_account\<close> and \<open>evolving_service\<close> for invariants over such sequences; each component with calls interprets them.
  \<^item> \<open>Accounting\<close> (\<open>accounting/accounting.service.ts\<close>): postings, reversals, period locks, the
    redirection of cash lines; the trial balance stays balanced.
  \<^item> \<open>Wallet\<close>, \<open>WalletAdmin\<close>, \<open>Banking\<close> (\<open>wallet/\<close>): requests, holds, limits and transfers of the
    user; approval, payout, rejection, return and corrections by staff; then their properties
    together: the wallets equal the control accounts, but for gram amounts of more than four decimals, which the
    services accept and the columns round; statuses only move forward.
  \<^item> \<open>Invoice\<close> (\<open>invoice/\<close>): rows, the shared discount, numbering, issue and cancellation.
  \<^item> \<open>Calendar\<close> (\<open>common/utils/\<close>): check digits, IBAN, working days, holidays.
  \<^item> \<open>Deposit\<close> (\<open>deposit/\<close>): the state machine of a deposit with all calls of user, staff and the
    expiry job; each approved deposit is credited exactly once.
  \<^item> \<open>Price\<close> (\<open>market/price.service.ts\<close>): the fetch job behind its breaker, the check of price jumps,
    the cache, the quote.
  \<^item> \<open>Trading\<close> (\<open>market/trading.service.ts\<close>): the price lock and the order.
  \<^item> \<open>ShopPrice\<close> (\<open>discount/\<close>, \<open>packaging/\<close>, \<open>shipping/\<close>, \<open>catalog/pricing-engine.service.ts\<close>): discounts,
    packaging, delivery fees, the price of a product; \<open>Shop\<close> (\<open>shop-orders/shop-orders.service.ts\<close>): checkout,
    payment by wallet and gateway, cancelling, expiry; \<open>GoldBar\<close> (\<open>shop-orders/gold-bar-delivery.service.ts\<close>).
  \<^item> \<open>ShopFacts\<close>, \<open>ShopMoves\<close>, \<open>ShopRuns\<close>, \<open>ShopProps\<close>: what each write of the shop changes; every call
    as a chain of abstract moves of an order; what such chains keep; the properties of the shop.
  \<^item> \<open>Cart\<close> (\<open>cart/\<close>), \<open>Delivery\<close> (\<open>shop-orders/shop-order-fulfillment.service.ts\<close>), \<open>StoreProps\<close>: the cart with its
    locked prices, sending with delivery codes and links, and their properties.
  \<^item> \<open>Hologram\<close> (\<open>hologram/\<close>): codes, batches, assignment, transfers between users, reports of theft and
    loss, revocation. \<open>BarMoves\<close> is the abstract bar (status, owners, pending transfers, reports) with
    its steps and its shape, \<open>BarOps\<close> shows that every call moves every bar along these steps.
    \<open>Inquiry\<close>: the public inquiries, and the guard that blocks addresses which guess; no lock holds an inquiry
    together, so its check, its look at the code and its count are separate steps there, interleaved with those of others.
  \<^item> \<open>Buyback\<close> (\<open>buyback/buyback.service.ts\<close>): buying a bar back, from the request to the payout. \<open>Sales\<close> states
    the life of a request, the evidence of each status and the lock of the bar, \<open>SaleOps\<close> shows it for each
    call, \<open>BarRuns\<close> puts registry and buyback together as one service and interprets the locales.
    \<open>BarProps\<close>, \<open>SaleProps\<close>, \<open>BarChecks\<close>, \<open>BarCodes\<close>: the properties.
  \<^item> \<open>Physical\<close> (\<open>physical-delivery/\<close>): gold handed over by weight, from the request to the parcel, with
    the vault. \<open>PhysicalFacts\<close> says what each write changes and states the invariant, \<open>PhysicalRuns\<close> shows that
    every call keeps it and interprets the locales, \<open>PhysicalProps\<close> holds the properties.
  \<^item> this theory: the calls of wallet, deposits and market interleaved on one database.

  How the state corresponds to the code. A table is a list of rows in the order of insertion, with
  the columns as record fields; the records extend each other (\<open>ledger\<close>, \<open>bank\<close>, \<open>desk\<close>,
  \<open>market\<close>, \<open>shop\<close>; from the shop \<open>store\<close> and \<open>pickup\<close>; and from the bank \<open>registry\<close> and \<open>vault\<close>) as the services use more tables, and the operations are polymorphic in the extension, so
  that the wallet calls are the same functions on every platform state. Row ids are naturals drawn
  from \<open>nextId\<close>. Rial columns (\<open>Decimal(20,0)\<close>) are integers, gram columns rationals rounded to
  four places on every write to a wallet, times integers of milliseconds. The configuration is a
  function from keys to numbers and texts. The constraints of the database that the code relies on
  (non-negative wallets, unique lock of an order) are branches of the model.

  Bounds. All recursions are structural or end by a decreasing measure; there is no fuel. The walk
  over working days stops by itself after 366 steps, as in the code; the search of a free tracking
  id and the draws of new codes are structural over the random digits they are given, and a search
  that needs more of them than it gets has no result; the five rounds of a batch are those of the code.

  The gram columns of the books are exact rationals, without the rounding on write of the wallets: every posting of
  the model fits their four decimals, but those of a correction that does not, where both roundings stay within
  the bound stated for it.

  Not modelled, beside the components that \<open>PROJECT.json\<close> lists: precision of the \<open>Decimal\<close> library
  beyond exact rational arithmetic, free-text descriptions, notifications, the lists and forms that
  only read. The Jalali calendar, random digits, the storage of receipts, the answers of the price
  source and of the supervisor are arguments.
\<close>

section \<open>The components together\<close>

lemma quiet_gaps: "quiet s s' \<Longrightarrow> rialGap s' = rialGap s \<and> gramGap s' = gramGap s"
  using quiet_money [of s s'] by (simp add: rialGap_def gramGap_def)

definition reconciled_step :: "'a bank_scheme \<Rightarrow> 'a bank_scheme \<Rightarrow> bool" where
  "reconciled_step s s' \<longleftrightarrow> wf_bank s' \<and> rialGap s' = rialGap s \<and> gramGap s' = gramGap s"

lemma reconciled_quiet: "wf_bank s \<Longrightarrow> quiet s s' \<Longrightarrow> reconciled_step s s'"
  using quiet_wf quiet_gaps by (auto simp: reconciled_step_def)

lemma reconciled_status: "wf_bank s \<Longrightarrow> status_step s i d f s' \<Longrightarrow> reconciled_step s s'"
  by (rule reconciled_quiet) (simp_all add: status_step_def)

lemma reconciled_approval: "wf_bank s \<Longrightarrow> approval_step s i d s' \<Longrightarrow> reconciled_step s s'"
  unfolding approval_step_def reconciled_step_def rialGap_def gramGap_def by auto

lemma expire_loop_quiet: "quiet s (foldl expireOne s ds)"
proof (induction ds arbitrary: s)
  case Nil
  then show ?case by simp
next
  case (Cons d ds)
  have "quiet s (expireOne s d)"
    by (rule expireOne_step [of s d]) (auto simp: status_step_def)
  then show ?case using quiet_trans [OF _ Cons.IH] by simp
qed

lemma createDeposit_quiet:
  assumes "createDeposit toJ s c draws u amount key = Inr (s', i)"
  shows "quiet s s'"
  using assms
proof (cases rule: createDeposit_Inr)
  case (new w expires s1 s2 v)
  from insertDeposit_Inr [OF new(8)] have "quiet s s1" by metis
  moreover note issue_quiet(1) [OF new(9)]
  ultimately show ?thesis unfolding new(10) by (auto simp: quiet_def)
qed simp

lemma createManual_quiet:
  assumes "createManual s c draws u m amount cardId key = Inr (s', i)"
  shows "quiet s s'"
  using assms
proof (cases rule: createManual_Inr)
  case (new w expires)
  from insertDeposit_Inr [OF new(6)] show ?thesis by metis
qed simp

text \<open>A call of the deposits keeps the bank and its control accounts, whatever their own tables hold.\<close>

lemma desk_step_reconciled:
  assumes wf: "wf_bank s" and r: "desk_step toJ s (c, x) = Inr s'"
  shows "reconciled_step s s'"
proof (cases x)
  case (CreateDeposit draws u amount key)
  then show ?thesis using r by (auto dest: createDeposit_quiet intro: reconciled_quiet [OF wf])
next
  case (CreateManual draws u m amount card_id key)
  then show ?thesis using r by (auto dest: createManual_quiet intro: reconciled_quiet [OF wf])
next
  case (UploadReceipt u i cs)
  then show ?thesis using r by (auto elim!: uploadReceipt_step intro: reconciled_status [OF wf])
next
  case (CancelDeposit u i)
  then show ?thesis using r reconciled_quiet [OF wf quiet_refl]
    by (auto elim!: cancelDeposit_step intro: reconciled_status [OF wf])
next
  case (StartReview a i)
  then show ?thesis using r reconciled_quiet [OF wf quiet_refl]
    by (auto elim!: startReview_step intro: reconciled_status [OF wf])
next
  case (ApproveDeposit a i n cash)
  then show ?thesis using r reconciled_quiet [OF wf quiet_refl]
    by (auto elim!: approveDeposit_step intro: reconciled_approval [OF wf])
next
  case (RejectDeposit a i reason)
  then show ?thesis using r reconciled_quiet [OF wf quiet_refl]
    by (auto elim!: rejectDeposit_step intro: reconciled_status [OF wf])
next
  case (RequestNewReceipt a i n)
  then show ?thesis using r by (auto elim!: requestNewReceipt_step intro: reconciled_status [OF wf])
next
  case ExpireStale
  then show ?thesis using r expire_loop_quiet reconciled_quiet [OF wf] by (auto simp: expireStaleRequests_def)
qed

text \<open>Calls of all three components, in any order, on one database.\<close>

datatype platform_op = OnWallet bank_op | OnDeposit desk_op | OnMarket market_op

fun platform_step :: "(int \<Rightarrow> nat \<times> nat \<times> nat) \<Rightarrow> 'a market_scheme \<Rightarrow> clock \<times> platform_op \<Rightarrow> 'a market_scheme res" where
  "platform_step toJ s (c, OnWallet x) = bank_step s (c, x)"
| "platform_step toJ s (c, OnDeposit x) = desk_step toJ s (c, x)"
| "platform_step toJ s (c, OnMarket x) = market_step s (c, x)"

text \<open>The transfers and corrections of an amount that does not fit the gram columns.\<close>

fun inexact :: "platform_op \<Rightarrow> bool" where
  "inexact (OnWallet x) = offGrid x"
| "inexact _ = False"

definition platformSlack :: "clock \<times> platform_op \<Rightarrow> rat" where
  "platformSlack p = (if inexact (snd p) then 1/10000 else 0)"

lemma platformSlack_count:
  "sum_list (map platformSlack ops) = of_nat (length (filter (\<lambda>p. inexact (snd p)) ops)) / 10000"
  by (induction ops) (simp_all add: platformSlack_def add_divide_distrib)

lemma platform_step_reconciled:
  assumes "wf_bank s" and "platform_step toJ s p = Inr s'"
  shows "wf_bank s'" and "totalRial s' - rialOf s' ''2010'' = totalRial s - rialOf s ''2010''"
    and "\<bar>(totalGrams s' - gramsOf s' ''2020'') - (totalGrams s - gramsOf s ''2020'')\<bar> \<le> platformSlack p"
proof -
  obtain c x where p: "p = (c, x)" by fastforce
  have "wf_bank s' \<and> rialGap s' = rialGap s \<and> \<bar>gramGap s' - gramGap s\<bar> \<le> platformSlack p"
  proof (cases x)
    case (OnWallet y)
    then show ?thesis using bank_step_gaps [OF assms(1), of c y s'] assms(2) by (simp add: p platformSlack_def gramSlack_def)
  next
    case (OnDeposit y)
    then show ?thesis using desk_step_reconciled [OF assms(1), of toJ c y s'] assms(2)
      by (simp add: p reconciled_step_def platformSlack_def)
  next
    case (OnMarket y)
    then show ?thesis using market_step_money [OF assms(1), of c y s'] assms(2) by (simp add: p platformSlack_def)
  qed
  then show "wf_bank s'" "totalRial s' - rialOf s' ''2010'' = totalRial s - rialOf s ''2010''"
    "\<bar>(totalGrams s' - gramsOf s' ''2020'') - (totalGrams s - gramsOf s ''2020'')\<bar> \<le> platformSlack p"
    by (simp_all add: rialGap_def gramGap_def)
qed

interpretation platform_rial: control_account
    "platform_step toJ :: 'a market_scheme \<Rightarrow> clock \<times> platform_op \<Rightarrow> 'a market_scheme res"
    wf_bank totalRial "\<lambda>s. rialOf s ''2010''" for toJ
  by unfold_locales (rule platform_step_reconciled; assumption)+

interpretation platform_grams: drifting_account
    "platform_step toJ :: 'a market_scheme \<Rightarrow> clock \<times> platform_op \<Rightarrow> 'a market_scheme res"
    wf_bank totalGrams "\<lambda>s. gramsOf s ''2020''" platformSlack for toJ
  by unfold_locales (simp add: platformSlack_def, rule platform_step_reconciled(3))

subsection \<open>Properties\<close>

text \<open>C1: The whole platform stays reconciled, up to amounts of gold finer than the columns. Over every
interleaving of wallet, deposit and trading calls by any users and staff, with failing calls rolled back, what all wallets
hold in rial equals account 2010. What they hold in gold equals account 2020 when every transfer and every correction
of the series has an amount of at most four decimals; the service does not ask for that, and each one with more decimals, which
the columns round, moves the two apart by at most a ten-thousandth of a gram (and some do).\<close>

theorem platform_reconciles:
  assumes "wf_bank s" and "totalRial s = rialOf s ''2010''" and "totalGrams s = gramsOf s ''2020''"
  shows "wf_bank (run (platform_step toJ) s ops) \<and>
    totalRial (run (platform_step toJ) s ops) = rialOf (run (platform_step toJ) s ops) ''2010'' \<and>
    ((\<forall>p \<in> set ops. \<not> inexact (snd p)) \<longrightarrow>
       totalGrams (run (platform_step toJ) s ops) = gramsOf (run (platform_step toJ) s ops) ''2020'') \<and>
    \<bar>totalGrams (run (platform_step toJ) s ops) - gramsOf (run (platform_step toJ) s ops) ''2020''\<bar>
      \<le> of_nat (length (filter (\<lambda>p. inexact (snd p)) ops)) / 10000"
proof -
  let ?r = "run (platform_step toJ) s ops"
  have d: "\<bar>totalGrams ?r - gramsOf ?r ''2020''\<bar> \<le> of_nat (length (filter (\<lambda>p. inexact (snd p)) ops)) / 10000"
    using platform_grams.run_drift [OF assms(1), of toJ ops] assms(3) by (simp add: platformSlack_count)
  moreover have "totalGrams ?r = gramsOf ?r ''2020''" if "\<forall>p \<in> set ops. \<not> inexact (snd p)"
  proof -
    have "filter (\<lambda>p. inexact (snd p)) ops = []" using that by (simp add: filter_empty_conv)
    then show ?thesis using d by simp
  qed
  ultimately show ?thesis
    using platform_rial.run_inv [OF assms(1)] platform_rial.run_reconciled [OF assms(1,2)] by blast
qed

lemma platform_reconciles_witness:
  "(let s = run (platform_step demoJalali) demoMarket (map (Pair deskClock)
       [OnMarket (PlaceOrder None 11 50), OnWallet (Adjust 1 11 1000 (3/2)),
        OnDeposit (CreateManual [''00000000001''] 11 CARD_TO_CARD 400000 30 None)]) in
    totalRial s = rialOf s ''2010'' \<and> totalGrams s = gramsOf s ''2020'')"
proof -
  let ?ops = "map (Pair deskClock) [OnMarket (PlaceOrder None 11 50), OnWallet (Adjust 1 11 1000 (3/2)),
      OnDeposit (CreateManual [''00000000001''] 11 CARD_TO_CARD 400000 30 None)]"
  have m: "totalRial demoMarket = rialOf demoMarket ''2010''" "totalGrams demoMarket = gramsOf demoMarket ''2020''"
    by code_simp+
  have "\<forall>p \<in> set ?ops. \<not> inexact (snd p)" by (simp add: on_grid_def)
  with platform_reconciles [OF wf_demoMarket(2) m, of demoJalali ?ops] show ?thesis by (simp only: Let_def simp_thms)
qed

end
